(* ===== verification/Prelude.thy ===== *)
theory Prelude
  imports Main "HOL-Library.Word" "HOL-Library.Monad_Syntax" "HOL-Library.Multiset"
begin

unbundle bit_operations_syntax

text \<open>
  Shared vocabulary of the development: the machine integers, pointers as options, the
  pointer that a tail-pointer queue keeps for a list (\<open>tail_ptr\<close>) and the one a
  head-pointer list keeps (\<open>head_ptr\<close>), and generic facts on lists that the
  linked-structure proofs of the components share.

  Conventions of the whole development.  A C function that reads and writes memory is a
  HOL function that takes the memory (or the record of the globals) and returns an
  \<open>option\<close>: \<open>None\<close> is the behaviour that C leaves undefined, a dereference of
  the null pointer, or a loop that does not end.  \<open>Some\<close> carries the result and the
  memory after the call.  A theorem about a call therefore always states that the
  result is \<open>Some\<close>.
\<close>

type_synonym u32 = "32 word"
type_synonym u8 = "8 word"

named_theorems heap_simps \<open>rewriting of reads and writes of the typed heaps\<close>
named_theorems frame_intros \<open>representation predicates are kept by unrelated writes\<close>

subsection \<open>Pointers kept for a list\<close>

definition tail_ptr :: "'a list \<Rightarrow> 'a option" where
  "tail_ptr xs = (if xs = [] then None else Some (last xs))"

definition head_ptr :: "'a list \<Rightarrow> 'a option" where
  "head_ptr xs = (if xs = [] then None else Some (hd xs))"

lemma tail_ptr_simps [simp]:
  "tail_ptr [] = None"
  "tail_ptr [x] = Some x"
  "tail_ptr (xs @ [x]) = Some x"
  "tail_ptr (xs @ y # ys) = tail_ptr (y # ys)"
  "tail_ptr xs = None \<longleftrightarrow> xs = []"
  "None = tail_ptr xs \<longleftrightarrow> xs = []"
  by (auto simp: tail_ptr_def)

lemma head_ptr_simps [simp]:
  "head_ptr [] = None"
  "head_ptr (x # xs) = Some x"
  "head_ptr xs = None \<longleftrightarrow> xs = []"
  "None = head_ptr xs \<longleftrightarrow> xs = []"
  by (auto simp: head_ptr_def)

lemma head_ptr_append: "head_ptr (xs @ ys) = (if xs = [] then head_ptr ys else head_ptr xs)"
  by (simp add: head_ptr_def)

lemma tail_ptr_in: "tail_ptr xs = Some x \<Longrightarrow> x \<in> set xs"
  by (auto simp: tail_ptr_def split: if_splits)

lemma head_ptr_in: "head_ptr xs = Some x \<Longrightarrow> x \<in> set xs"
  by (cases xs) auto

subsection \<open>Lists without repetition\<close>

lemma distinct_last_butlast: "distinct xs \<Longrightarrow> xs \<noteq> [] \<Longrightarrow> last xs \<notin> set (butlast xs)"
  by (metis append_butlast_last_id distinct_append not_distinct_conv_prefix)

lemma distinct_hd_tl: "distinct xs \<Longrightarrow> xs \<noteq> [] \<Longrightarrow> hd xs \<notin> set (tl xs)"
  by (cases xs) auto

lemma in_set_tl: "x \<in> set (tl xs) \<Longrightarrow> x \<in> set xs"
  by (cases xs) auto

lemma in_set_remove1: "x \<in> set (remove1 y xs) \<Longrightarrow> x \<in> set xs"
  using set_remove1_subset by fast

lemma remove1_split: "x \<notin> set as \<Longrightarrow> remove1 x (as @ x # bs) = as @ bs"
  by (simp add: remove1_append)

lemma length_le_of_subset_upt:
  assumes "distinct xs" and "set xs \<subseteq> {0..<n}"
  shows "length xs \<le> n"
proof -
  have "card (set xs) \<le> card {0..<n}" using assms(2) by (intro card_mono) auto
  then show ?thesis using assms(1) by (simp add: distinct_card)
qed

subsection \<open>Doubly linked chains\<close>

text \<open>
  \<open>chained nx pv xs\<close>: each element of \<open>xs\<close> points with \<open>nx\<close> to its successor in
  the list and is pointed back at with \<open>pv\<close>.  \<open>nx\<close> and \<open>pv\<close> are the two link
  fields of the heap; the process queues and the child lists use different fields of
  the same objects.
\<close>

definition linked :: "('a \<Rightarrow> 'a option) \<Rightarrow> ('a \<Rightarrow> 'a option) \<Rightarrow> 'a \<Rightarrow> 'a \<Rightarrow> bool" where
  "linked nx pv x y \<longleftrightarrow> nx x = Some y \<and> pv y = Some x"

definition chained :: "('a \<Rightarrow> 'a option) \<Rightarrow> ('a \<Rightarrow> 'a option) \<Rightarrow> 'a list \<Rightarrow> bool" where
  "chained nx pv xs \<longleftrightarrow> successively (linked nx pv) xs"

lemma chained_Nil [simp]: "chained nx pv []"
  and chained_single [simp]: "chained nx pv [x]"
  by (simp_all add: chained_def)

lemma chained_Cons:
  "chained nx pv (x # xs) \<longleftrightarrow> xs = [] \<or> linked nx pv x (hd xs) \<and> chained nx pv xs"
  by (simp add: chained_def successively_Cons)

lemma chained_append:
  "chained nx pv (xs @ ys) \<longleftrightarrow> chained nx pv xs \<and> chained nx pv ys \<and>
     (xs = [] \<or> ys = [] \<or> linked nx pv (last xs) (hd ys))"
  by (simp add: chained_def successively_append_iff)

lemma chained_cong:
  assumes "\<And>x. x \<in> set (butlast xs) \<Longrightarrow> nx' x = nx x"
    and "\<And>x. x \<in> set (tl xs) \<Longrightarrow> pv' x = pv x"
  shows "chained nx' pv' xs = chained nx pv xs"
  using assms
proof (induction xs rule: induct_list012)
  case (3 x y zs)
  have "chained nx' pv' (y # zs) = chained nx pv (y # zs)"
    using "3.prems" by (intro "3.IH"(2)) (auto split: if_splits)
  moreover have "linked nx' pv' x y = linked nx pv x y"
    using "3.prems" by (simp add: linked_def)
  ultimately show ?case by (simp add: chained_Cons)
qed auto

lemma chained_next:
  "chained nx pv (as @ x # y # bs) \<Longrightarrow> nx x = Some y"
  by (simp add: chained_append chained_Cons linked_def)

text \<open>A closed chain: the last element is linked to the first.\<close>

definition ring :: "('a \<Rightarrow> 'a option) \<Rightarrow> ('a \<Rightarrow> 'a option) \<Rightarrow> 'a list \<Rightarrow> bool" where
  "ring nx pv xs \<longleftrightarrow> xs = [] \<or> chained nx pv xs \<and> linked nx pv (last xs) (hd xs)"

lemma ring_Nil [simp]: "ring nx pv []"
  by (simp add: ring_def)

lemma ring_single [simp]: "ring nx pv [x] \<longleftrightarrow> nx x = Some x \<and> pv x = Some x"
  by (simp add: ring_def linked_def)

lemma ring_swap: "ring nx pv (xs @ ys) \<Longrightarrow> ring nx pv (ys @ xs)"
  by (cases "xs = []"; cases "ys = []") (auto simp: ring_def chained_append)

lemma ring_rotate: "ring nx pv (xs @ ys) \<longleftrightarrow> ring nx pv (ys @ xs)"
  using ring_swap by blast

lemma ring_cong:
  assumes "\<And>x. x \<in> set xs \<Longrightarrow> nx' x = nx x" and "\<And>x. x \<in> set xs \<Longrightarrow> pv' x = pv x"
  shows "ring nx' pv' xs = ring nx pv xs"
proof (cases "xs = []")
  case False
  then have "chained nx' pv' xs = chained nx pv xs"
    by (intro chained_cong) (auto simp: assms dest: in_set_butlastD list.set_sel(2))
  moreover have "linked nx' pv' (last xs) (hd xs) = linked nx pv (last xs) (hd xs)"
    using False by (simp add: linked_def assms)
  ultimately show ?thesis by (simp add: ring_def)
qed simp

text \<open>Adding a new element between the last and the first.\<close>

lemma ring_snoc:
  assumes r: "ring nx pv xs" and ne: "xs \<noteq> []"
    and n1: "nx' p = Some (hd xs)" and n2: "nx' (last xs) = Some p"
    and n3: "\<And>x. x \<in> set (butlast xs) \<Longrightarrow> nx' x = nx x"
    and p1: "pv' p = Some (last xs)" and p2: "pv' (hd xs) = Some p"
    and p3: "\<And>x. x \<in> set (tl xs) \<Longrightarrow> pv' x = pv x"
  shows "ring nx' pv' (xs @ [p])"
proof -
  have "chained nx pv xs" using r ne by (simp add: ring_def)
  then have "chained nx' pv' xs" using chained_cong [of xs nx' nx pv' pv] n3 p3 by blast
  with ne n1 n2 p1 p2 show ?thesis by (simp add: ring_def chained_append linked_def)
qed

text \<open>Taking the first element out.\<close>

lemma ring_unlink_hd:
  assumes r: "ring nx pv (p # ys)" and ne: "ys \<noteq> []"
    and n1: "nx' (last ys) = Some (hd ys)"
    and n2: "\<And>x. x \<in> set (butlast ys) \<Longrightarrow> nx' x = nx x"
    and p1: "pv' (hd ys) = Some (last ys)"
    and p2: "\<And>x. x \<in> set (tl ys) \<Longrightarrow> pv' x = pv x"
  shows "ring nx' pv' ys"
proof -
  have "chained nx pv ys" using r ne by (simp add: ring_def chained_Cons)
  then have "chained nx' pv' ys" using chained_cong [of ys nx' nx pv' pv] n2 p2 by blast
  with ne n1 p1 show ?thesis by (simp add: ring_def linked_def)
qed

lemma ring_hd_links:
  assumes "ring nx pv (p # ys)" and "ys \<noteq> []"
  shows "nx p = Some (hd ys)" "pv p = Some (last ys)"
    "nx (last ys) = Some p" "pv (hd ys) = Some p"
  using assms by (auto simp: ring_def chained_Cons linked_def)

end
