(* ===== verification/Pandos_Types.thy ===== *)
theory Pandos_Types
  imports Prelude
begin

text \<open>
  The data of \<open>src/pandos_types.h\<close> and the constants of \<open>src/pandos_const.h\<close>.

  Pointers.  Every \<open>pcb_t\<close> of the kernel is an element of \<open>pcbFree_table\<close> and every
  \<open>semd_t\<close> an element of \<open>semd_table\<close> (both static arrays), so a pointer to one is
  modelled as \<open>Some i\<close> for the element at index \<open>i\<close> and \<open>None\<close> for \<open>NULL\<close>; the heap of
  a type is a function from the index.  Pointers that user code hands to the kernel
  in a register (\<open>int *\<close> of a semaphore, \<open>state_t *\<close>, \<open>support_t *\<close>) are 32-bit words,
  with \<open>0\<close> for \<open>NULL\<close>.  \<open>int\<close> and \<open>cpu_t\<close> are 32-bit words read with \<open>sint\<close>
  where the code compares them as signed.

  \<open>state_t\<close> is declared by the uMPS3 headers, which are not part of the repository.
  Its fields here are the ones \<open>copyState\<close> names; the register file is a function of the
  register index, whose length and the indices of the named registers are parameters
  (theory \<open>Umps\<close>).
\<close>

subsection \<open>Constants of pandos\_const.h\<close>

definition MAXPROC :: nat where "MAXPROC = 40"
definition CREATEPROCESS :: u32 where "CREATEPROCESS = 1"
definition TERMPROCESS :: u32 where "TERMPROCESS = 2"
definition PASSEREN :: u32 where "PASSEREN = 3"
definition VERHOGEN :: u32 where "VERHOGEN = 4"
definition IOWAIT :: u32 where "IOWAIT = 5"
definition GETTIME :: u32 where "GETTIME = 6"
definition CLOCKWAIT :: u32 where "CLOCKWAIT = 7"
definition GETSUPPORTPTR :: u32 where "GETSUPPORTPTR = 8"
definition TERMINATE :: u32 where "TERMINATE = 9"
definition GET_TOD :: u32 where "GET_TOD = 10"
definition WRITEPRINTER :: u32 where "WRITEPRINTER = 11"
definition WRITETERMINAL :: u32 where "WRITETERMINAL = 12"
definition READTERMINAL :: u32 where "READTERMINAL = 13"

lemmas syscall_numbers = CREATEPROCESS_def TERMPROCESS_def PASSEREN_def VERHOGEN_def
  IOWAIT_def GETTIME_def CLOCKWAIT_def GETSUPPORTPTR_def TERMINATE_def GET_TOD_def
  WRITEPRINTER_def WRITETERMINAL_def READTERMINAL_def

definition PGFAULTEXCEPT :: nat where "PGFAULTEXCEPT = 0"
definition GENERALEXCEPT :: nat where "GENERALEXCEPT = 1"

definition ALLOFF :: u32 where "ALLOFF = 0x00000000"
definition USERPON :: u32 where "USERPON = 0x00000008"
definition IEPON :: u32 where "IEPON = 0x00000004"
definition IECON :: u32 where "IECON = 0x00000001"
definition IMON :: u32 where "IMON = 0x0000FF00"
definition TEBITON :: u32 where "TEBITON = 0x08000000"
definition DISABLEINTS :: u32 where "DISABLEINTS = 0xFFFFFFFE"

lemmas status_bits = ALLOFF_def USERPON_def IEPON_def IECON_def IMON_def TEBITON_def DISABLEINTS_def

definition TIMESLICE :: u32 where "TIMESLICE = 5000"

text \<open>Pages, frames and the translation lookaside buffer.\<close>

definition PAGESIZE :: u32 where "PAGESIZE = 4096"
definition RAMSTART :: u32 where "RAMSTART = 0x20000000"
definition MAXPAGES :: nat where "MAXPAGES = 32"
definition USERPGTBLSIZE :: nat where "USERPGTBLSIZE = MAXPAGES"
definition OSFRAMES :: u32 where "OSFRAMES = 32"
definition UPROCMAX :: nat where "UPROCMAX = 8"
definition POOLSIZE :: nat where "POOLSIZE = UPROCMAX * 2"
definition DIRTYON :: u32 where "DIRTYON = 0x00000400"
definition VALIDON :: u32 where "VALIDON = 0x00000200"
definition VPNSHIFT :: nat where "VPNSHIFT = 12"
definition ASIDSHIFT :: nat where "ASIDSHIFT = 6"
definition UPROCSTARTADDR :: u32 where "UPROCSTARTADDR = 0x800000B0"
definition USERSTACKTOP :: u32 where "USERSTACKTOP = 0xC0000000"
definition ON :: u32 where "ON = 1"
definition OFF :: u32 where "OFF = 0"
definition BYTELENGTH :: nat where "BYTELENGTH = 8"
definition TLBSIZE :: u32 where "TLBSIZE = 16"
definition INDEXSHIFT :: nat where "INDEXSHIFT = 8"
definition LASTPAGEMASK :: u32 where "LASTPAGEMASK = 0x3FFFF"

lemmas vm_consts = PAGESIZE_def RAMSTART_def MAXPAGES_def USERPGTBLSIZE_def OSFRAMES_def UPROCMAX_def
  POOLSIZE_def DIRTYON_def VALIDON_def VPNSHIFT_def ASIDSHIFT_def ON_def OFF_def TLBSIZE_def INDEXSHIFT_def
  LASTPAGEMASK_def

subsection \<open>Structures\<close>

record state_t =
  entry_hi :: u32
  cause :: u32
  status :: u32
  pc_epc :: u32
  gpr :: "nat \<Rightarrow> u32"
  hi :: u32
  lo :: u32

type_synonym pcb_ptr = "nat option"
type_synonym semd_ptr = "nat option"

record pteEntry_t =
  pte_entryHI :: u32
  pte_entryLO :: u32

record context_t =
  stackPtr :: u32
  ctx_status :: u32
  pc :: u32

text \<open>
  \<open>support_t\<close>.  The arrays \<open>sup_stackTLB\<close> and \<open>sup_stackGen\<close> are never named by the code
  and are left out.
\<close>

record support_t =
  sup_asid :: u32
  sup_exceptState :: "nat \<Rightarrow> state_t"
  sup_exceptContext :: "nat \<Rightarrow> context_t"
  sup_privatePgTbl :: "nat \<Rightarrow> pteEntry_t"
  next_supp :: u32
  prev_supp :: u32

record pcb_t =
  p_next :: pcb_ptr
  p_prev :: pcb_ptr
  p_prnt :: pcb_ptr
  p_child :: pcb_ptr
  p_next_sib :: pcb_ptr
  p_prev_sib :: pcb_ptr
  p_s :: state_t
  p_time :: u32
  p_semAdd :: u32
  p_supportStruct :: u32

record semd_t =
  s_next :: semd_ptr
  s_semAdd :: u32
  s_procQ :: pcb_ptr

type_synonym pcb_heap = "nat \<Rightarrow> pcb_t"

subsection \<open>Zero-initialised objects\<close>

text \<open>The contents of static storage before the program runs.\<close>

definition zero_state :: state_t where
  "zero_state = \<lparr>entry_hi = 0, cause = 0, status = 0, pc_epc = 0, gpr = (\<lambda>_. 0), hi = 0, lo = 0\<rparr>"

definition zero_pcb :: pcb_t where
  "zero_pcb = \<lparr>p_next = None, p_prev = None, p_prnt = None, p_child = None,
     p_next_sib = None, p_prev_sib = None, p_s = zero_state, p_time = 0,
     p_semAdd = 0, p_supportStruct = 0\<rparr>"

definition zero_support :: support_t where
  "zero_support = \<lparr>sup_asid = 0, sup_exceptState = (\<lambda>_. zero_state),
     sup_exceptContext = (\<lambda>_. \<lparr>stackPtr = 0, ctx_status = 0, pc = 0\<rparr>),
     sup_privatePgTbl = (\<lambda>_. \<lparr>pte_entryHI = 0, pte_entryLO = 0\<rparr>), next_supp = 0, prev_supp = 0\<rparr>"

definition zero_semd :: semd_t where
  "zero_semd = \<lparr>s_next = None, s_semAdd = 0, s_procQ = None\<rparr>"

subsection \<open>Typed reads and writes through a pointer\<close>

text \<open>\<open>load h p\<close> is \<open>*p\<close>, \<open>store p f h\<close> an assignment to a field of \<open>*p\<close>.\<close>

definition load :: "(nat \<Rightarrow> 'a) \<Rightarrow> nat option \<Rightarrow> 'a option" where
  "load h p = (case p of None \<Rightarrow> None | Some i \<Rightarrow> Some (h i))"

definition store :: "nat option \<Rightarrow> ('a \<Rightarrow> 'a) \<Rightarrow> (nat \<Rightarrow> 'a) \<Rightarrow> (nat \<Rightarrow> 'a) option" where
  "store p f h = (case p of None \<Rightarrow> None | Some i \<Rightarrow> Some (h(i := f (h i))))"

lemma load_Some [simp, heap_simps]: "load h (Some i) = Some (h i)"
  and load_None [simp, heap_simps]: "load h None = None"
  by (simp_all add: load_def)

lemma store_Some [simp, heap_simps]: "store (Some i) f h = Some (h(i := f (h i)))"
  and store_None [simp, heap_simps]: "store None f h = None"
  by (simp_all add: store_def)

end
