(* ===== verification/Interfaces.thy ===== *)
theory Interfaces
  imports Prelude
begin

text \<open>
  The contracts between the components, as locales.

  \<open>fifo_queue\<close> is a mutable first-in first-out queue in a heap with removal of a given
  element; the ready queue and the queues of the semaphores rely on it.  \<open>resource_pool\<close>
  is a pool of objects that are taken and given back (process control blocks, semaphore
  descriptors, support structures); \<open>able\<close> restricts what it accepts.  \<open>machine\<close> is a transition system whose steps keep an
  invariant.  The clients' lemmas are proved here once, from the contracts; every provider
  interprets its locale on the functions of the code.
\<close>

subsection \<open>A queue in a heap\<close>

text \<open>
  A history of a queue: \<open>Put p\<close>, \<open>Take\<close> and \<open>Out p\<close>, with the answers of the last two.
  \<open>history\<close> runs the code, \<open>ideal_history\<close> the list it stands for; \<open>legal\<close> asks that an
  element is not put twice.
\<close>

datatype 'p qop = Put 'p | Take | Out 'p

fun history ::
  "('q \<Rightarrow> 'p \<Rightarrow> 'h \<Rightarrow> ('q \<times> 'h) option) \<Rightarrow> ('q \<Rightarrow> 'h \<Rightarrow> ('p option \<times> 'q \<times> 'h) option) \<Rightarrow>
   ('q \<Rightarrow> 'p \<Rightarrow> 'h \<Rightarrow> ('p option \<times> 'q \<times> 'h) option) \<Rightarrow> 'p qop list \<Rightarrow> 'q \<Rightarrow> 'h \<Rightarrow>
   ('p option list \<times> 'q \<times> 'h) option" where
  "history pt tk ot [] q h = Some ([], q, h)"
| "history pt tk ot (Put p # ops) q h = do { (q, h) \<leftarrow> pt q p h; history pt tk ot ops q h }"
| "history pt tk ot (Take # ops) q h = do {
     (r, q, h) \<leftarrow> tk q h;
     (rs, q, h) \<leftarrow> history pt tk ot ops q h;
     Some (r # rs, q, h)
   }"
| "history pt tk ot (Out p # ops) q h = do {
     (r, q, h) \<leftarrow> ot q p h;
     (rs, q, h) \<leftarrow> history pt tk ot ops q h;
     Some (r # rs, q, h)
   }"

fun ideal_history :: "'p qop list \<Rightarrow> 'p list \<Rightarrow> 'p option list \<times> 'p list" where
  "ideal_history [] xs = ([], xs)"
| "ideal_history (Put p # ops) xs = ideal_history ops (xs @ [p])"
| "ideal_history (Take # ops) xs =
     (let (rs, ys) = ideal_history ops (tl xs) in (head_ptr xs # rs, ys))"
| "ideal_history (Out p # ops) xs =
     (let (rs, ys) = ideal_history ops (remove1 p xs)
      in ((if p \<in> set xs then Some p else None) # rs, ys))"

fun legal :: "'p qop list \<Rightarrow> 'p list \<Rightarrow> bool" where
  "legal [] xs = True"
| "legal (Put p # ops) xs = (p \<notin> set xs \<and> legal ops (xs @ [p]))"
| "legal (Take # ops) xs = legal ops (tl xs)"
| "legal (Out p # ops) xs = legal ops (remove1 p xs)"

fun touched :: "'p qop list \<Rightarrow> 'p set" where
  "touched [] = {}"
| "touched (Put p # ops) = insert p (touched ops)"
| "touched (Take # ops) = touched ops"
| "touched (Out p # ops) = touched ops"

fun feed :: "('q \<Rightarrow> 'p \<Rightarrow> 'h \<Rightarrow> ('q \<times> 'h) option) \<Rightarrow> 'p list \<Rightarrow> 'q \<Rightarrow> 'h \<Rightarrow> ('q \<times> 'h) option" where
  "feed pt [] q h = Some (q, h)"
| "feed pt (p # ps) q h = do { (q, h) \<leftarrow> pt q p h; feed pt ps q h }"

fun drain_n ::
  "('q \<Rightarrow> 'h \<Rightarrow> ('p option \<times> 'q \<times> 'h) option) \<Rightarrow> nat \<Rightarrow> 'q \<Rightarrow> 'h \<Rightarrow> ('p option list \<times> 'q \<times> 'h) option" where
  "drain_n tk 0 q h = Some ([], q, h)"
| "drain_n tk (Suc n) q h = do {
     (r, q, h) \<leftarrow> tk q h;
     (rs, q, h) \<leftarrow> drain_n tk n q h;
     Some (r # rs, q, h)
   }"

text \<open>
  \<open>fifo\<close> is the contract without removal from the middle, which the list of children of a
  process satisfies as well; \<open>able p\<close> restricts the elements the queue accepts.
\<close>

locale fifo =
  fixes rep :: "'h \<Rightarrow> 'q \<Rightarrow> 'p list \<Rightarrow> bool"
    and put :: "'q \<Rightarrow> 'p \<Rightarrow> 'h \<Rightarrow> ('q \<times> 'h) option"
    and get :: "'q \<Rightarrow> 'h \<Rightarrow> ('p option \<times> 'q \<times> 'h) option"
    and able :: "'p \<Rightarrow> bool"
    and same :: "'h \<Rightarrow> 'h \<Rightarrow> 'p set \<Rightarrow> bool"
  assumes put_ok: "rep h q xs \<Longrightarrow> p \<notin> set xs \<Longrightarrow> able p \<Longrightarrow>
      \<exists>q' h'. put q p h = Some (q', h') \<and> rep h' q' (xs @ [p]) \<and> same h h' (insert p (set xs))"
    and get_ok: "rep h q xs \<Longrightarrow>
      \<exists>q' h'. get q h = Some (head_ptr xs, q', h') \<and> rep h' q' (tl xs) \<and> same h h' (set xs)"
    and same_refl: "same h h {}"
    and same_trans: "same h h' D \<Longrightarrow> same h' h'' E \<Longrightarrow> same h h'' (D \<union> E)"
    and same_mono: "same h h' D \<Longrightarrow> D \<subseteq> E \<Longrightarrow> same h h' E"
begin

lemma same_chain: "same h h' D \<Longrightarrow> same h' h'' E \<Longrightarrow> D \<subseteq> F \<Longrightarrow> E \<subseteq> F \<Longrightarrow> same h h'' F"
  by (rule same_mono [of h h'' "D \<union> E"]) (auto intro: same_trans)

lemma feed_rep:
  "rep h q xs \<Longrightarrow> distinct (xs @ ps) \<Longrightarrow> (\<And>p. p \<in> set ps \<Longrightarrow> able p) \<Longrightarrow>
   \<exists>q' h'. feed put ps q h = Some (q', h') \<and> rep h' q' (xs @ ps) \<and> same h h' (set (xs @ ps))"
proof (induction ps arbitrary: h q xs)
  case Nil
  then show ?case using same_mono [OF same_refl] by auto
next
  case (Cons p ps)
  obtain q1 h1 where 1: "put q p h = Some (q1, h1)" "rep h1 q1 (xs @ [p])" "same h h1 (insert p (set xs))"
    using put_ok [OF Cons.prems(1), of p] Cons.prems(2,3) by auto
  obtain q' h' where 2: "feed put ps q1 h1 = Some (q', h')" "rep h' q' ((xs @ [p]) @ ps)"
    "same h1 h' (set ((xs @ [p]) @ ps))"
    using Cons.IH [OF 1(2)] Cons.prems(2,3) by auto
  have "same h h' (set (xs @ p # ps))" by (rule same_chain [OF 1(3) 2(3)]) auto
  with 1(1) 2 show ?case by auto
qed

lemma drain_rep:
  "rep h q xs \<Longrightarrow> \<exists>q' h'. drain_n get (length xs + n) q h = Some (map Some xs @ replicate n None, q', h') \<and>
     rep h' q' [] \<and> same h h' (set xs)"
proof (induction xs arbitrary: h q)
  case Nil
  then show ?case
  proof (induction n arbitrary: h q)
    case 0
    then show ?case using same_refl by auto
  next
    case (Suc n)
    obtain q1 h1 where 1: "get q h = Some (None, q1, h1)" "rep h1 q1 []" "same h h1 {}"
      using get_ok [OF Suc.prems] by auto
    from Suc.IH [OF 1(2)] obtain q' h' where "drain_n get n q1 h1 = Some (replicate n None, q', h')"
      "rep h' q' []" "same h1 h' {}" by auto
    with 1 show ?case using same_trans [OF 1(3), of h' "{}"] by auto
  qed
next
  case (Cons x xs)
  obtain q1 h1 where 1: "get q h = Some (Some x, q1, h1)" "rep h1 q1 xs" "same h h1 (set (x # xs))"
    using get_ok [OF Cons.prems] by auto
  from Cons.IH [OF 1(2)] obtain q' h' where 2: "drain_n get (length xs + n) q1 h1 =
      Some (map Some xs @ replicate n None, q', h')" "rep h' q' []" "same h1 h' (set xs)" by auto
  have "same h h' (set (x # xs))" by (rule same_chain [OF 1(3) 2(3)]) auto
  with 1(1) 2 show ?case by auto
qed

lemma first_in_first_out:
  assumes "rep h q xs" and "distinct (xs @ ps)" and "\<And>p. p \<in> set ps \<Longrightarrow> able p"
  shows "\<exists>q1 h1 q2 h2. feed put ps q h = Some (q1, h1) \<and> rep h1 q1 (xs @ ps) \<and>
     drain_n get (length (xs @ ps) + n) q1 h1 = Some (map Some (xs @ ps) @ replicate n None, q2, h2) \<and>
     rep h2 q2 [] \<and> same h h2 (set (xs @ ps))"
proof -
  obtain q1 h1 where 1: "feed put ps q h = Some (q1, h1)" "rep h1 q1 (xs @ ps)" "same h h1 (set (xs @ ps))"
    using feed_rep [OF assms] by auto
  obtain q2 h2 where 2: "drain_n get (length (xs @ ps) + n) q1 h1 = Some (map Some (xs @ ps) @ replicate n None, q2, h2)"
    "rep h2 q2 []" "same h1 h2 (set (xs @ ps))" using drain_rep [OF 1(2), of n] by blast
  with 1 same_chain [OF 1(3) 2(3)] show ?thesis by auto
qed

end

locale fifo_queue = fifo rep put get "\<lambda>_. True" same
  for rep :: "'h \<Rightarrow> 'q \<Rightarrow> 'p list \<Rightarrow> bool"
    and put :: "'q \<Rightarrow> 'p \<Rightarrow> 'h \<Rightarrow> ('q \<times> 'h) option"
    and get :: "'q \<Rightarrow> 'h \<Rightarrow> ('p option \<times> 'q \<times> 'h) option"
    and same :: "'h \<Rightarrow> 'h \<Rightarrow> 'p set \<Rightarrow> bool" +
  fixes out :: "'q \<Rightarrow> 'p \<Rightarrow> 'h \<Rightarrow> ('p option \<times> 'q \<times> 'h) option"
  assumes out_ok: "rep h q xs \<Longrightarrow>
      \<exists>q' h'. out q p h = Some (if p \<in> set xs then Some p else None, q', h') \<and>
        rep h' q' (remove1 p xs) \<and> same h h' (set xs)"
begin

lemma history_refines:
  assumes "rep h q xs" and "legal ops xs" and "ideal_history ops xs = (rs, ys)"
  shows "\<exists>q' h'. history put get out ops q h = Some (rs, q', h') \<and> rep h' q' ys \<and>
     same h h' (set xs \<union> touched ops)"
  using assms
proof (induction ops xs arbitrary: h q rs ys rule: ideal_history.induct)
  case (1 xs)
  then show ?case using same_mono [OF same_refl] by auto
next
  case (2 p ops xs)
  obtain q1 h1 where 1: "put q p h = Some (q1, h1)" "rep h1 q1 (xs @ [p])" "same h h1 (insert p (set xs))"
    using put_ok [OF 2(2), of p] 2(3) by auto
  with 2 obtain q' h' where H: "history put get out ops q1 h1 = Some (rs, q', h')" "rep h' q' ys"
    "same h1 h' (set (xs @ [p]) \<union> touched ops)" by fastforce
  from 1 H show ?case using same_chain [OF 1(3) H(3), of "insert p (set xs \<union> touched ops)"] by auto
next
  case (3 ops xs)
  obtain q1 h1 where 1: "get q h = Some (head_ptr xs, q1, h1)" "rep h1 q1 (tl xs)" "same h h1 (set xs)"
    using get_ok [OF 3(2)] by auto
  obtain rs' where r: "ideal_history ops (tl xs) = (rs', ys)" "rs = head_ptr xs # rs'"
    using 3(4) by (auto simp: Let_def split: prod.splits)
  obtain q' h' where H: "history put get out ops q1 h1 = Some (rs', q', h')" "rep h' q' ys"
    "same h1 h' (set (tl xs) \<union> touched ops)" using 3(1) [OF 1(2) _ r(1)] 3(3) by auto
  have "set (tl xs) \<subseteq> set xs" by (cases xs) auto
  with 1 r(2) H show ?case using same_chain [OF 1(3) H(3), of "set xs \<union> touched ops"] by auto
next
  case (4 p ops xs)
  obtain q1 h1 where 1: "out q p h = Some (if p \<in> set xs then Some p else None, q1, h1)"
    "rep h1 q1 (remove1 p xs)" "same h h1 (set xs)"
    using out_ok [OF 4(2), of p] by auto
  obtain rs' where r: "ideal_history ops (remove1 p xs) = (rs', ys)"
    "rs = (if p \<in> set xs then Some p else None) # rs'"
    using 4(4) by (auto simp: Let_def split: prod.splits)
  obtain q' h' where H: "history put get out ops q1 h1 = Some (rs', q', h')" "rep h' q' ys"
    "same h1 h' (set (remove1 p xs) \<union> touched ops)" using 4(1) [OF 1(2) _ r(1)] 4(3) by auto
  have "set (remove1 p xs) \<subseteq> set xs" by (rule set_remove1_subset)
  with 1 r(2) H show ?case using same_chain [OF 1(3) H(3), of "set xs \<union> touched ops"] by auto
qed

text \<open>Taking the first element and putting it back behind the others: one round of round robin.\<close>

lemma rotate_once:
  assumes "rep h q (p # xs)" and "p \<notin> set xs"
  shows "\<exists>q' h'. history put get out [Take, Put p] q h = Some ([Some p], q', h') \<and> rep h' q' (xs @ [p])"
  using history_refines [OF assms(1), of "[Take, Put p]"] assms(2) by simp blast

end

subsection \<open>A pool of objects\<close>

fun alloc_many :: "('s \<Rightarrow> ('p option \<times> 's) option) \<Rightarrow> nat \<Rightarrow> 's \<Rightarrow> ('p option list \<times> 's) option" where
  "alloc_many al 0 s = Some ([], s)"
| "alloc_many al (Suc n) s = do {
     (r, s) \<leftarrow> al s;
     (rs, s) \<leftarrow> alloc_many al n s;
     Some (r # rs, s)
   }"

fun free_many :: "('p \<Rightarrow> 's \<Rightarrow> 's option) \<Rightarrow> 'p list \<Rightarrow> 's \<Rightarrow> 's option" where
  "free_many fr [] s = Some s"
| "free_many fr (p # ps) s = do { s \<leftarrow> fr p s; free_many fr ps s }"

locale resource_pool =
  fixes pool :: "'s \<Rightarrow> 'p list \<Rightarrow> bool"
    and alloc :: "'s \<Rightarrow> ('p option \<times> 's) option"
    and free :: "'p \<Rightarrow> 's \<Rightarrow> 's option"
    and order :: "'p list \<Rightarrow> 'p \<Rightarrow> 'p list"
    and able :: "'p \<Rightarrow> bool"
  assumes alloc_none: "pool s [] \<Longrightarrow> alloc s = Some (None, s)"
    and alloc_some: "pool s (p # ps) \<Longrightarrow> \<exists>s'. alloc s = Some (Some p, s') \<and> pool s' ps"
    and free_ok: "pool s ps \<Longrightarrow> p \<notin> set ps \<Longrightarrow> able p \<Longrightarrow> \<exists>s'. free p s = Some s' \<and> pool s' (order ps p)"
    and order_ok: "mset (order ps p) = add_mset p (mset ps)"
    and pool_distinct: "pool s ps \<Longrightarrow> distinct ps"
    and pool_able: "pool s ps \<Longrightarrow> p \<in> set ps \<Longrightarrow> able p"
begin

lemma drain:
  assumes "pool s ps"
  shows "\<exists>s'. alloc_many alloc (length ps + n) s = Some (map Some ps @ replicate n None, s') \<and> pool s' []"
  using assms
proof (induction ps arbitrary: s)
  case Nil
  have "alloc_many alloc n s = Some (replicate n None, s)"
    using alloc_none [OF Nil] by (induction n) simp_all
  with Nil show ?case by simp
next
  case (Cons p ps)
  obtain s1 where s1: "alloc s = Some (Some p, s1)" "pool s1 ps" using alloc_some [OF Cons.prems] by blast
  with Cons.IH [OF s1(2)] show ?case by auto
qed

lemma refill:
  assumes "pool s ps" and "distinct qs" and "set qs \<inter> set ps = {}" and "\<And>q. q \<in> set qs \<Longrightarrow> able q"
  shows "\<exists>s'. free_many free qs s = Some s' \<and> pool s' (foldl order ps qs) \<and>
     mset (foldl order ps qs) = mset ps + mset qs"
  using assms
proof (induction qs arbitrary: s ps)
  case (Cons q qs)
  obtain s1 where s1: "free q s = Some s1" "pool s1 (order ps q)"
    using free_ok [OF Cons.prems(1), of q] Cons.prems(3,4) by auto
  have "set (order ps q) = insert q (set ps)"
    using arg_cong [OF order_ok [of ps q], of set_mset] by simp
  with Cons.IH [OF s1(2)] Cons.prems(2-4) s1(1) show ?case by (auto simp: order_ok)
qed simp

text \<open>Everything that was taken can be given back, and then taken again.\<close>

lemma take_back:
  assumes "pool s ps"
  shows "\<exists>s' s'' rs. alloc_many alloc (length ps) s = Some (map Some ps, s') \<and>
     free_many free ps s' = Some s'' \<and> pool s'' rs \<and> mset rs = mset ps"
proof -
  obtain s' where s': "alloc_many alloc (length ps) s = Some (map Some ps, s')" "pool s' []"
    using drain [OF assms, of 0] by auto
  from refill [OF s'(2), of ps] pool_distinct [OF assms] pool_able [OF assms] s'(1) show ?thesis by auto
qed

end

subsection \<open>A machine with an invariant\<close>

inductive reaches :: "('s \<Rightarrow> 's \<Rightarrow> bool) \<Rightarrow> 's \<Rightarrow> 's \<Rightarrow> bool" for st :: "'s \<Rightarrow> 's \<Rightarrow> bool" where
  reaches_refl: "reaches st s s"
| reaches_step: "reaches st s t \<Longrightarrow> st t u \<Longrightarrow> reaches st s u"

locale machine =
  fixes start :: "'s \<Rightarrow> bool" and step :: "'s \<Rightarrow> 's \<Rightarrow> bool" and inv :: "'s \<Rightarrow> bool"
  assumes inv_start: "start s \<Longrightarrow> inv s"
    and inv_step: "inv s \<Longrightarrow> step s t \<Longrightarrow> inv t"
begin

lemma reaches_inv: "reaches step s t \<Longrightarrow> start s \<Longrightarrow> inv t"
  by (induction rule: reaches.induct) (auto intro: inv_start inv_step)

end

end
