(* ===== verification/Pcb_Queue.thy ===== *)
theory Pcb_Queue
  imports Pandos_Types Interfaces
begin

text \<open>
  The process queues of \<open>src/pcb.c\<close>: doubly linked circular lists of process control
  blocks, reached through a pointer to their last element.  The C functions that take
  \<open>pcb_t **tp\<close> get the value of \<open>*tp\<close> and return its new value; the tail variables
  (\<open>readyQueue\<close>, \<open>s_procQ\<close>) lie outside the heap of process control blocks, so the two
  cannot alias.  \<open>procq h tp xs\<close> is the abstraction: the queue at \<open>tp\<close> holds the
  processes \<open>xs\<close>, first to be removed at the head.
\<close>

subsection \<open>The operations\<close>

definition unlinkPCB :: "pcb_ptr \<Rightarrow> pcb_heap \<Rightarrow> (pcb_ptr \<times> pcb_heap) option" where
  "unlinkPCB p h = do {
     x \<leftarrow> load h p;
     h \<leftarrow> store (p_prev x) (\<lambda>y. y\<lparr>p_next := p_next x\<rparr>) h;
     x \<leftarrow> load h p;
     h \<leftarrow> store (p_next x) (\<lambda>y. y\<lparr>p_prev := p_prev x\<rparr>) h;
     h \<leftarrow> store p (\<lambda>y. y\<lparr>p_prev := None\<rparr>) h;
     h \<leftarrow> store p (\<lambda>y. y\<lparr>p_next := None\<rparr>) h;
     Some (p, h)
   }"

definition mkEmptyProcQ :: pcb_ptr where
  "mkEmptyProcQ = None"

definition emptyProcQ :: "pcb_ptr \<Rightarrow> bool" where
  "emptyProcQ tp = (if tp = None then True else False)"

definition insertProcQ :: "pcb_ptr \<Rightarrow> pcb_ptr \<Rightarrow> pcb_heap \<Rightarrow> (pcb_ptr \<times> pcb_heap) option" where
  "insertProcQ tp p h =
     (if emptyProcQ tp then do {
        h \<leftarrow> store p (\<lambda>y. y\<lparr>p_next := p\<rparr>) h;
        h \<leftarrow> store p (\<lambda>y. y\<lparr>p_prev := p\<rparr>) h;
        Some (p, h)
      } else do {
        h \<leftarrow> store p (\<lambda>y. y\<lparr>p_prev := tp\<rparr>) h;
        t \<leftarrow> load h tp;
        h \<leftarrow> store p (\<lambda>y. y\<lparr>p_next := p_next t\<rparr>) h;
        h \<leftarrow> store tp (\<lambda>y. y\<lparr>p_next := p\<rparr>) h;
        x \<leftarrow> load h p;
        h \<leftarrow> store (p_next x) (\<lambda>y. y\<lparr>p_prev := p\<rparr>) h;
        Some (p, h)
      })"

definition headProcQ :: "pcb_ptr \<Rightarrow> pcb_heap \<Rightarrow> pcb_ptr option" where
  "headProcQ tp h =
     (if emptyProcQ tp then Some None
      else do { t \<leftarrow> load h tp; Some (p_next t) })"

definition removeProcQ :: "pcb_ptr \<Rightarrow> pcb_heap \<Rightarrow> (pcb_ptr \<times> pcb_ptr \<times> pcb_heap) option" where
  "removeProcQ tp h =
     (if emptyProcQ tp then Some (None, tp, h)
      else do {
        tmp \<leftarrow> headProcQ tp h;
        let tp = (if tmp = tp then None else tp);
        (r, h) \<leftarrow> unlinkPCB tmp h;
        Some (r, tp, h)
      })"

text \<open>The \<open>do ... while (iter != *tp)\<close> loop of \<open>outProcQ\<close>.\<close>

partial_function (option) outProcQ_loop ::
    "pcb_ptr \<Rightarrow> pcb_ptr \<Rightarrow> pcb_ptr \<Rightarrow> pcb_heap \<Rightarrow> (pcb_ptr \<times> pcb_heap) option" where
  "outProcQ_loop iter tp p h =
     (if iter = p then unlinkPCB iter h
      else do {
        x \<leftarrow> load h iter;
        if p_next x \<noteq> tp then outProcQ_loop (p_next x) tp p h else Some (None, h)
      })"

definition outProcQ ::
    "pcb_ptr \<Rightarrow> pcb_ptr \<Rightarrow> pcb_heap \<Rightarrow> (pcb_ptr \<times> pcb_ptr \<times> pcb_heap) option" where
  "outProcQ tp p h =
     (if emptyProcQ tp then Some (None, tp, h)
      else if tp = p then do {
        t \<leftarrow> load h tp;
        let tp = (if tp \<noteq> p_prev t then p_prev t else None);
        (r, h) \<leftarrow> unlinkPCB p h;
        Some (r, tp, h)
      } else do {
        t \<leftarrow> load h tp;
        (r, h) \<leftarrow> outProcQ_loop (p_next t) tp p h;
        Some (r, tp, h)
      })"

subsection \<open>The abstraction\<close>

abbreviation nxt :: "pcb_heap \<Rightarrow> nat \<Rightarrow> pcb_ptr" where "nxt h x \<equiv> p_next (h x)"
abbreviation prv :: "pcb_heap \<Rightarrow> nat \<Rightarrow> pcb_ptr" where "prv h x \<equiv> p_prev (h x)"

definition procq :: "pcb_heap \<Rightarrow> pcb_ptr \<Rightarrow> nat list \<Rightarrow> bool" where
  "procq h tp xs \<longleftrightarrow> distinct xs \<and> ring (nxt h) (prv h) xs \<and> tp = tail_ptr xs"

text \<open>
  \<open>links_only h h' S\<close>: \<open>h'\<close> differs from \<open>h\<close> at most in the queue links of the
  elements of \<open>S\<close>.
\<close>

definition pcb_data :: "pcb_t \<Rightarrow> pcb_t" where
  "pcb_data x = x\<lparr>p_next := None, p_prev := None\<rparr>"

definition links_only :: "pcb_heap \<Rightarrow> pcb_heap \<Rightarrow> nat set \<Rightarrow> bool" where
  "links_only h h' S \<longleftrightarrow>
     (\<forall>x. pcb_data (h' x) = pcb_data (h x) \<and> (x \<notin> S \<longrightarrow> h' x = h x))"

lemma links_only_refl [simp]: "links_only h h S"
  by (simp add: links_only_def)

lemma links_only_outside: "links_only h h' S \<Longrightarrow> x \<notin> S \<Longrightarrow> h' x = h x"
  by (simp add: links_only_def)

lemma pcb_data_eqD:
  assumes "pcb_data x = pcb_data y"
  shows "p_prnt x = p_prnt y" "p_child x = p_child y" "p_next_sib x = p_next_sib y"
    "p_prev_sib x = p_prev_sib y" "p_s x = p_s y" "p_time x = p_time y"
    "p_semAdd x = p_semAdd y" "p_supportStruct x = p_supportStruct y"
  using assms by (cases x; cases y; simp add: pcb_data_def)+

lemma links_only_data: "links_only h h' S \<Longrightarrow> pcb_data (h' x) = pcb_data (h x)"
  by (simp add: links_only_def)

lemmas links_only_fields = links_only_data [THEN pcb_data_eqD(1)]
  links_only_data [THEN pcb_data_eqD(2)] links_only_data [THEN pcb_data_eqD(3)]
  links_only_data [THEN pcb_data_eqD(4)] links_only_data [THEN pcb_data_eqD(5)]
  links_only_data [THEN pcb_data_eqD(6)] links_only_data [THEN pcb_data_eqD(7)]
  links_only_data [THEN pcb_data_eqD(8)]

lemma links_only_trans:
  "links_only h h' S \<Longrightarrow> links_only h' h'' T \<Longrightarrow> links_only h h'' (S \<union> T)"
  by (simp add: links_only_def)

lemma links_only_mono: "links_only h h' S \<Longrightarrow> S \<subseteq> T \<Longrightarrow> links_only h h' T"
  by (auto simp: links_only_def)

lemma procq_frame [frame_intros]:
  assumes "procq h tp xs" and "\<And>x. x \<in> set xs \<Longrightarrow> p_next (h' x) = p_next (h x)"
    and "\<And>x. x \<in> set xs \<Longrightarrow> p_prev (h' x) = p_prev (h x)"
  shows "procq h' tp xs"
  using assms ring_cong [of xs "nxt h'" "nxt h" "prv h'" "prv h"] by (simp add: procq_def)

lemma procq_links_only [frame_intros]:
  "procq h tp xs \<Longrightarrow> links_only h h' S \<Longrightarrow> set xs \<inter> S = {} \<Longrightarrow> procq h' tp xs"
  by (rule procq_frame) (auto simp: links_only_outside disjoint_iff)

text \<open>Writing another field of any element keeps every queue.\<close>

lemma procq_upd_other:
  assumes "procq h tp xs" and "p_next x = p_next (h p)" and "p_prev x = p_prev (h p)"
  shows "procq (h(p := x)) tp xs"
  by (rule procq_frame [OF assms(1)]) (auto simp: assms(2,3))

lemma procq_Nil [simp]: "procq h tp [] \<longleftrightarrow> tp = None"
  by (simp add: procq_def)

lemma procq_None [simp]: "procq h None xs \<longleftrightarrow> xs = []"
  by (auto simp: procq_def)

subsection \<open>Each operation implements its list counterpart\<close>

lemma emptyProcQ_simps [simp]: "emptyProcQ None" "\<not> emptyProcQ (Some t)"
  by (simp_all add: emptyProcQ_def)

lemma emptyProcQ_procq: "procq h tp xs \<Longrightarrow> emptyProcQ tp \<longleftrightarrow> xs = []"
  by (auto simp: procq_def emptyProcQ_def)

text \<open>The link fields after \<open>insertProcQ\<close> on a nonempty queue with head \<open>f\<close>, tail \<open>t\<close>.\<close>

lemma insertProcQ_nonempty:
  assumes "nxt h t = Some f" and "p \<noteq> t" and "p \<noteq> f"
  shows "\<exists>h'. insertProcQ (Some t) (Some p) h = Some (Some p, h') \<and>
     nxt h' p = Some f \<and> nxt h' t = Some p \<and> prv h' p = Some t \<and> prv h' f = Some p \<and>
     (\<forall>x. x \<noteq> p \<and> x \<noteq> t \<longrightarrow> nxt h' x = nxt h x) \<and>
     (\<forall>x. x \<noteq> p \<and> x \<noteq> f \<longrightarrow> prv h' x = prv h x) \<and> links_only h h' {p, t, f}"
  using assms by (auto simp: insertProcQ_def links_only_def pcb_data_def)

lemma insertProcQ_refines:
  assumes q: "procq h tp xs" and new: "p \<notin> set xs"
  shows "\<exists>h'. insertProcQ tp (Some p) h = Some (Some p, h') \<and>
     procq h' (Some p) (xs @ [p]) \<and> links_only h h' (insert p (set xs))"
proof (cases "xs = []")
  case True
  then show ?thesis using q
    by (auto simp: insertProcQ_def procq_def links_only_def pcb_data_def)
next
  case False
  from q have d: "distinct xs" and r: "ring (nxt h) (prv h) xs" and tp: "tp = Some (last xs)"
    using False by (auto simp: procq_def tail_ptr_def)
  have "nxt h (last xs) = Some (hd xs)"
    using r False by (simp add: ring_def linked_def)
  moreover have "p \<noteq> last xs" "p \<noteq> hd xs" using new False by auto
  ultimately obtain h' where h': "insertProcQ tp (Some p) h = Some (Some p, h')"
    and n: "nxt h' p = Some (hd xs)" "nxt h' (last xs) = Some p"
      "\<And>x. x \<noteq> p \<Longrightarrow> x \<noteq> last xs \<Longrightarrow> nxt h' x = nxt h x"
    and v: "prv h' p = Some (last xs)" "prv h' (hd xs) = Some p"
      "\<And>x. x \<noteq> p \<Longrightarrow> x \<noteq> hd xs \<Longrightarrow> prv h' x = prv h x"
    and l: "links_only h h' {p, last xs, hd xs}"
    using insertProcQ_nonempty [of h "last xs" "hd xs" p] tp by metis
  have "ring (nxt h') (prv h') (xs @ [p])"
  proof (rule ring_snoc [OF r False])
    show "nxt h' x = nxt h x" if "x \<in> set (butlast xs)" for x
      using that n(3) new d False distinct_last_butlast by (metis in_set_butlastD)
    show "prv h' x = prv h x" if "x \<in> set (tl xs)" for x
      using that v(3) new d False distinct_hd_tl by (metis list.set_sel(2))
  qed (use n v in auto)
  moreover have "links_only h h' (insert p (set xs))"
    using l False by (auto intro: links_only_mono)
  ultimately show ?thesis using h' d new by (auto simp: procq_def)
qed

lemma headProcQ_refines: "procq h tp xs \<Longrightarrow> headProcQ tp h = Some (head_ptr xs)"
  by (cases "xs = []") (auto simp: headProcQ_def procq_def tail_ptr_def head_ptr_def ring_def linked_def)

text \<open>Unlinking the element at the front of a ring.\<close>

lemma unlinkPCB_step:
  assumes "nxt h p = Some f" and "prv h p = Some t" and "p \<noteq> t" and "p \<noteq> f"
  shows "\<exists>h'. unlinkPCB (Some p) h = Some (Some p, h') \<and>
     nxt h' p = None \<and> prv h' p = None \<and> nxt h' t = Some f \<and> prv h' f = Some t \<and>
     (\<forall>x. x \<noteq> p \<and> x \<noteq> t \<longrightarrow> nxt h' x = nxt h x) \<and>
     (\<forall>x. x \<noteq> p \<and> x \<noteq> f \<longrightarrow> prv h' x = prv h x) \<and> links_only h h' {p, t, f}"
  using assms by (auto simp: unlinkPCB_def links_only_def pcb_data_def)

lemma unlinkPCB_self:
  assumes "nxt h p = Some p" and "prv h p = Some p"
  shows "\<exists>h'. unlinkPCB (Some p) h = Some (Some p, h') \<and>
     nxt h' p = None \<and> prv h' p = None \<and> links_only h h' {p}"
  using assms by (auto simp: unlinkPCB_def links_only_def pcb_data_def)

lemma unlinkPCB_ring:
  assumes r: "ring (nxt h) (prv h) (p # ys)" and d: "distinct (p # ys)"
  shows "\<exists>h'. unlinkPCB (Some p) h = Some (Some p, h') \<and> ring (nxt h') (prv h') ys \<and>
     nxt h' p = None \<and> prv h' p = None \<and> links_only h h' (set (p # ys))"
proof (cases "ys = []")
  case True
  with r unlinkPCB_self [of h p] show ?thesis by auto
next
  case False
  note lk = ring_hd_links [OF r False]
  have pt: "p \<noteq> last ys" "p \<noteq> hd ys" using d False by auto
  obtain h' where h': "unlinkPCB (Some p) h = Some (Some p, h')"
      "nxt h' p = None" "prv h' p = None"
    and n: "nxt h' (last ys) = Some (hd ys)" "\<And>x. x \<noteq> p \<Longrightarrow> x \<noteq> last ys \<Longrightarrow> nxt h' x = nxt h x"
    and v: "prv h' (hd ys) = Some (last ys)" "\<And>x. x \<noteq> p \<Longrightarrow> x \<noteq> hd ys \<Longrightarrow> prv h' x = prv h x"
    and l: "links_only h h' {p, last ys, hd ys}"
    using unlinkPCB_step [of h p "hd ys" "last ys"] lk(1,2) pt by metis
  have "ring (nxt h') (prv h') ys"
  proof (rule ring_unlink_hd [OF r False])
    show "nxt h' x = nxt h x" if "x \<in> set (butlast ys)" for x
      using that n(2) d False distinct_last_butlast
      by (metis distinct.simps(2) in_set_butlastD)
    show "prv h' x = prv h x" if "x \<in> set (tl ys)" for x
      using that v(2) d False distinct_hd_tl by (metis distinct.simps(2) list.set_sel(2))
  qed (use n v in auto)
  moreover have "links_only h h' (set (p # ys))" using l False by (auto intro: links_only_mono)
  ultimately show ?thesis using h' by blast
qed

lemma removeProcQ_empty: "procq h tp [] \<Longrightarrow> removeProcQ tp h = Some (None, None, h)"
  by (simp add: removeProcQ_def)

lemma removeProcQ_refines:
  assumes q: "procq h tp (p # ys)"
  shows "\<exists>h'. removeProcQ tp h = Some (Some p, tail_ptr ys, h') \<and>
     procq h' (tail_ptr ys) ys \<and> nxt h' p = None \<and> prv h' p = None \<and>
     links_only h h' (set (p # ys))"
proof -
  have d: "distinct (p # ys)" and r: "ring (nxt h) (prv h) (p # ys)"
    and tp: "tp = tail_ptr (p # ys)" using q by (auto simp: procq_def)
  obtain h' where "unlinkPCB (Some p) h = Some (Some p, h')" "ring (nxt h') (prv h') ys"
    "nxt h' p = None" "prv h' p = None" "links_only h h' (set (p # ys))"
    using unlinkPCB_ring [OF r d] by blast
  moreover have "headProcQ tp h = Some (Some p)" using headProcQ_refines [OF q] by simp
  moreover have "(if Some p = tp then None else tp) = tail_ptr ys"
    using tp d by (auto simp: tail_ptr_def dest: last_in_set)
  moreover have "\<not> emptyProcQ tp" using emptyProcQ_procq [OF q] by simp
  ultimately show ?thesis using d by (simp add: removeProcQ_def procq_def)
qed

text \<open>The search loop, started at the head of the part of the queue that is left.\<close>

lemma outProcQ_loop_found:
  assumes "ring (nxt h) (prv h) (as @ bs @ p # cs)" and "distinct (as @ bs @ p # cs)"
    and "cs \<noteq> []"
  shows "outProcQ_loop (Some (hd (bs @ [p]))) (Some (last cs)) (Some p) h = unlinkPCB (Some p) h"
  using assms
proof (induction bs arbitrary: as)
  case Nil
  then show ?case by (simp add: outProcQ_loop.simps)
next
  case (Cons b bs)
  have nx: "nxt h b = Some (hd (bs @ [p]))"
    using Cons.prems(1) by (cases bs) (auto simp: ring_def chained_append chained_Cons linked_def)
  have "hd (bs @ [p]) \<noteq> last cs" and "b \<noteq> p"
    using Cons.prems(2,3) by (cases bs; auto)+
  moreover have "outProcQ_loop (Some (hd (bs @ [p]))) (Some (last cs)) (Some p) h
      = unlinkPCB (Some p) h"
    using Cons.IH [of "as @ [b]"] Cons.prems by simp
  ultimately show ?case using nx by (subst outProcQ_loop.simps) simp
qed

lemma outProcQ_loop_missing:
  assumes "ring (nxt h) (prv h) (as @ bs)" and "distinct (as @ bs)" and "p \<notin> set bs" and "bs \<noteq> []"
  shows "length bs \<ge> 2 \<Longrightarrow>
     outProcQ_loop (Some (hd bs)) (Some (last bs)) (Some p) h = Some (None, h)"
  using assms
proof (induction bs arbitrary: as)
  case (Cons b bs)
  then have ne: "bs \<noteq> []" by auto
  have nx: "nxt h b = Some (hd bs)"
    using Cons.prems(2) ne by (auto simp: ring_def chained_append chained_Cons linked_def)
  show ?case
  proof (cases "length bs \<ge> 2")
    case True
    have "hd bs \<noteq> last bs" using Cons.prems(3) True
      by (cases bs) (auto simp: Suc_le_eq split: if_splits)
    moreover have "outProcQ_loop (Some (hd bs)) (Some (last bs)) (Some p) h = Some (None, h)"
      using Cons.IH [of "as @ [b]"] True Cons.prems ne by simp
    ultimately show ?thesis using nx ne Cons.prems(4) by (subst outProcQ_loop.simps) auto
  next
    case False
    then obtain c where "bs = [c]" using ne by (cases bs) (auto simp: not_less_eq_eq)
    then show ?thesis using nx Cons.prems(4) by (subst outProcQ_loop.simps) auto
  qed
qed simp

lemma outProcQ_missing:
  assumes q: "procq h tp xs" and p: "p \<notin> set xs"
  shows "outProcQ tp (Some p) h = Some (None, tp, h)"
proof (cases "xs = []")
  case True
  with q show ?thesis by (simp add: outProcQ_def)
next
  case False
  have d: "distinct xs" and r: "ring (nxt h) (prv h) xs" and tp: "tp = Some (last xs)"
    using q False by (auto simp: procq_def tail_ptr_def)
  have nl: "nxt h (last xs) = Some (hd xs)" using r False by (simp add: ring_def linked_def)
  have "outProcQ_loop (Some (hd xs)) tp (Some p) h = Some (None, h)"
  proof (cases "length xs \<ge> 2")
    case True
    with outProcQ_loop_missing [of h "[]" xs p] r d p False tp show ?thesis by simp
  next
    case False
    with \<open>xs \<noteq> []\<close> obtain t where "xs = [t]" by (cases xs) (auto simp: not_less_eq_eq)
    with nl p tp show ?thesis by (subst outProcQ_loop.simps) auto
  qed
  with nl tp p False show ?thesis by (auto simp: outProcQ_def)
qed

lemma outProcQ_refines:
  assumes q: "procq h tp xs" and p: "p \<in> set xs"
  shows "\<exists>h'. outProcQ tp (Some p) h = Some (Some p, tail_ptr (remove1 p xs), h') \<and>
     procq h' (tail_ptr (remove1 p xs)) (remove1 p xs) \<and> nxt h' p = None \<and> prv h' p = None \<and>
     links_only h h' (set xs)"
proof -
  from p obtain as bs where xs: "xs = as @ p # bs" and pas: "p \<notin> set as"
    by (meson split_list_first)
  have d: "distinct xs" and r: "ring (nxt h) (prv h) xs" and tp: "tp = tail_ptr xs"
    using q by (auto simp: procq_def)
  have r': "ring (nxt h) (prv h) (p # bs @ as)" using ring_swap [of _ _ as "p # bs"] r xs by simp
  obtain h' where h': "unlinkPCB (Some p) h = Some (Some p, h')"
    "ring (nxt h') (prv h') (bs @ as)" "nxt h' p = None" "prv h' p = None"
    "links_only h h' (set xs)"
    using unlinkPCB_ring [OF r'] d xs by (auto simp: Un_commute)
  have rest: "remove1 p xs = as @ bs" using pas xs by (simp add: remove1_split)
  have q': "procq h' (tail_ptr (as @ bs)) (as @ bs)"
    using ring_swap [OF h'(2)] d xs by (simp add: procq_def)
  have e: "\<not> emptyProcQ tp" using tp xs by (auto simp: emptyProcQ_def tail_ptr_def)
  have out: "outProcQ tp (Some p) h = Some (Some p, tail_ptr (as @ bs), h')"
  proof (cases "bs = []")
    case True
    have "prv h p = Some (if as = [] then p else last as)"
      using r xs True by (auto simp: ring_def chained_append linked_def)
    then show ?thesis using tp xs True e h'(1) pas
      by (cases "as = []") (auto simp: outProcQ_def tail_ptr_def)
  next
    case False
    have tl: "tp = Some (last bs)" "last bs \<noteq> p" using tp xs False d by (auto simp: tail_ptr_def)
    have "nxt h (last bs) = Some (hd (as @ [p]))"
      using r xs False by (cases as) (auto simp: ring_def linked_def)
    moreover have "outProcQ_loop (Some (hd (as @ [p]))) (Some (last bs)) (Some p) h = unlinkPCB (Some p) h"
      using outProcQ_loop_found [of h "[]" as p bs] r d xs False by simp
    ultimately show ?thesis using tl h'(1) False by (simp add: outProcQ_def tail_ptr_def)
  qed
  with q' h' rest show ?thesis by auto
qed

subsection \<open>The queue contract\<close>

interpretation pq: fifo_queue procq "\<lambda>tp p h. insertProcQ tp (Some p) h" removeProcQ links_only
  "\<lambda>tp p h. outProcQ tp (Some p) h"
proof
  fix h tp xs and p :: nat
  assume q: "procq h tp xs"
  show "\<exists>q' h'. insertProcQ tp (Some p) h = Some (q', h') \<and> procq h' q' (xs @ [p]) \<and>
      links_only h h' (insert p (set xs))" if "p \<notin> set xs"
    using insertProcQ_refines [OF q that] by blast
  show "\<exists>q' h'. removeProcQ tp h = Some (head_ptr xs, q', h') \<and> procq h' q' (tl xs) \<and> links_only h h' (set xs)"
  proof (cases xs)
    case Nil
    then show ?thesis using removeProcQ_empty [of h tp] q by simp
  next
    case (Cons y ys)
    then show ?thesis using removeProcQ_refines [of h tp y ys] q by auto
  qed
  show "\<exists>q' h'. outProcQ tp (Some p) h = Some (if p \<in> set xs then Some p else None, q', h') \<and>
      procq h' q' (remove1 p xs) \<and> links_only h h' (set xs)"
  proof (cases "p \<in> set xs")
    case True
    then show ?thesis using outProcQ_refines [OF q True] by auto
  next
    case False
    then show ?thesis using outProcQ_missing [OF q False] q by (simp add: remove1_idem)
  qed
qed (auto intro: links_only_trans links_only_mono)

text \<open>
  C22: The process queues of pcb.c behave as first-in first-out lists.  For every legal
  history of insertProcQ, removeProcQ and outProcQ on a circular queue, no call
  dereferences a null pointer or loops, every answer is the one the list gives, the final
  ring represents the final list, and no process control block outside the queue is written.
\<close>

theorem procq_history:
  assumes "procq h tp xs" and "legal ops xs" and "ideal_history ops xs = (rs, ys)"
  shows "\<exists>tp' h'. history (\<lambda>tp p h. insertProcQ tp (Some p) h) removeProcQ
      (\<lambda>tp p h. outProcQ tp (Some p) h) ops tp h = Some (rs, tp', h') \<and>
    procq h' tp' ys \<and> links_only h h' (set xs \<union> touched ops)"
  using pq.history_refines [OF assms] .

theorem procq_history_witness:
  "\<exists>tp' h'. history (\<lambda>tp p h. insertProcQ tp (Some p) h) removeProcQ
      (\<lambda>tp p h. outProcQ tp (Some p) h) [Put 4, Put 2, Put 9, Out 2, Out 7, Take, Put 2, Take, Take, Take]
      mkEmptyProcQ (\<lambda>_. zero_pcb) =
      Some ([Some 2, None, Some 4, Some 9, Some 2, None], tp', h') \<and> procq h' tp' []"
  using procq_history [of "\<lambda>_. zero_pcb" mkEmptyProcQ "[]"
      "[Put 4, Put 2, Put 9, Out 2, Out 7, Take, Put 2, Take, Take, Take]"
      "[Some 2, None, Some 4, Some 9, Some 2, None]" "[]"]
  by (auto simp: mkEmptyProcQ_def)

text \<open>
  headProcQ and emptyProcQ observe a queue without changing it: the head is the
  element removeProcQ would take next, the queue is reported empty exactly when it is.
\<close>

theorem procq_observers:
  assumes "procq h tp xs"
  shows "headProcQ tp h = Some (head_ptr xs) \<and> (emptyProcQ tp \<longleftrightarrow> xs = []) \<and>
    map_option fst (removeProcQ tp h) = headProcQ tp h"
  using pq.get_ok [OF assms] headProcQ_refines [OF assms] emptyProcQ_procq [OF assms] by auto

theorem procq_observers_witness:
  "emptyProcQ mkEmptyProcQ \<and> headProcQ mkEmptyProcQ (\<lambda>_. zero_pcb) = Some None"
  using procq_observers [of "\<lambda>_. zero_pcb" mkEmptyProcQ "[]"] by (simp add: mkEmptyProcQ_def)

end
