(* ===== verification/Pcb_Alloc.thy ===== *)
theory Pcb_Alloc
  imports Pcb_Queue
begin

text \<open>
  Allocation of process control blocks (\<open>src/pcb.c\<close>): the static table
  \<open>pcbFree_table\<close>, the circular free list at \<open>pcbFree_h\<close> (a pointer to its head,
  unlike the process queues) and the counter \<open>processCount\<close>, which \<open>allocPcb\<close> and
  \<open>freePcb\<close> keep although it is declared in \<open>src/init.c\<close>.  The record is extensible:
  the semaphore list and the nucleus add their globals to it.
\<close>

record pcb_state =
  pcbs :: pcb_heap
  pcbFree_h :: pcb_ptr
  processCount :: u32

subsection \<open>The operations\<close>

definition initPcbs_step :: "nat \<Rightarrow> pcb_heap \<Rightarrow> pcb_heap" where
  "initPcbs_step i h =
     (let h = h(i mod MAXPROC := (h (i mod MAXPROC))\<lparr>p_next := Some ((i + 1) mod MAXPROC)\<rparr>)
      in h((i + 1) mod MAXPROC := (h ((i + 1) mod MAXPROC))\<lparr>p_prev := Some (i mod MAXPROC)\<rparr>))"

definition initPcbs :: "'a pcb_state_scheme \<Rightarrow> 'a pcb_state_scheme" where
  "initPcbs s = s\<lparr>pcbFree_h := Some 0, pcbs := fold initPcbs_step [0..<MAXPROC] (pcbs s)\<rparr>"

definition freePcb :: "pcb_ptr \<Rightarrow> 'a pcb_state_scheme \<Rightarrow> 'a pcb_state_scheme option" where
  "freePcb p s =
     (if p = None then Some s
      else if pcbFree_h s = None then do {
        h \<leftarrow> store p (\<lambda>y. y\<lparr>p_prev := p\<rparr>) (pcbs s);
        h \<leftarrow> store p (\<lambda>y. y\<lparr>p_next := p\<rparr>) h;
        Some (s\<lparr>pcbFree_h := p, pcbs := h, processCount := processCount s - 1\<rparr>)
      } else do {
        h \<leftarrow> store p (\<lambda>y. y\<lparr>p_next := pcbFree_h s\<rparr>) (pcbs s);
        f \<leftarrow> load h (pcbFree_h s);
        h \<leftarrow> store p (\<lambda>y. y\<lparr>p_prev := p_prev f\<rparr>) h;
        h \<leftarrow> store (pcbFree_h s) (\<lambda>y. y\<lparr>p_prev := p\<rparr>) h;
        x \<leftarrow> load h p;
        h \<leftarrow> store (p_prev x) (\<lambda>y. y\<lparr>p_next := p\<rparr>) h;
        Some (s\<lparr>pcbs := h, processCount := processCount s - 1\<rparr>)
      })"

text \<open>The fields \<open>allocPcb\<close> clears; \<open>p_s\<close> and \<open>p_semAdd\<close> keep their old contents.\<close>

definition reset_pcb :: "pcb_t \<Rightarrow> pcb_t" where
  "reset_pcb y = y\<lparr>p_prev := None, p_next := None, p_child := None, p_prnt := None,
     p_next_sib := None, p_prev_sib := None, p_supportStruct := 0, p_time := 0\<rparr>"

definition allocPcb :: "'a pcb_state_scheme \<Rightarrow> (pcb_ptr \<times> 'a pcb_state_scheme) option" where
  "allocPcb s =
     (if pcbFree_h s = None then Some (None, s)
      else do {
        let toReturn = pcbFree_h s;
        f \<leftarrow> load (pcbs s) (pcbFree_h s);
        let head = (if pcbFree_h s \<noteq> p_next f then p_next f else None);
        (r, h) \<leftarrow> unlinkPCB toReturn (pcbs s);
        h \<leftarrow> store toReturn reset_pcb h;
        Some (toReturn, s\<lparr>pcbFree_h := head, pcbs := h, processCount := processCount s + 1\<rparr>)
      })"

subsection \<open>The free list\<close>

definition free_list :: "'a pcb_state_scheme \<Rightarrow> nat list \<Rightarrow> bool" where
  "free_list s fs \<longleftrightarrow> distinct fs \<and> ring (nxt (pcbs s)) (prv (pcbs s)) fs \<and> pcbFree_h s = head_ptr fs"

lemma free_list_frame [frame_intros]:
  assumes "free_list s fs" and "pcbFree_h s' = pcbFree_h s"
    and "\<And>x. x \<in> set fs \<Longrightarrow> p_next (pcbs s' x) = p_next (pcbs s x)"
    and "\<And>x. x \<in> set fs \<Longrightarrow> p_prev (pcbs s' x) = p_prev (pcbs s x)"
  shows "free_list s' fs"
  using assms ring_cong [of fs "nxt (pcbs s')" "nxt (pcbs s)" "prv (pcbs s')" "prv (pcbs s)"]
  by (simp add: free_list_def)

lemma free_list_links_only [frame_intros]:
  "free_list s fs \<Longrightarrow> pcbFree_h s' = pcbFree_h s \<Longrightarrow> links_only (pcbs s) (pcbs s') S \<Longrightarrow>
   set fs \<inter> S = {} \<Longrightarrow> free_list s' fs"
  by (rule free_list_frame) (auto simp: links_only_outside disjoint_iff)

text \<open>After \<open>initPcbs\<close> the free list is the whole table, in order.\<close>

lemma initPcbs_links:
  assumes "n \<le> MAXPROC" and "h' = fold initPcbs_step [0..<n] h"
  shows "\<forall>i < n. nxt h' i = Some ((i + 1) mod MAXPROC) \<and> prv h' ((i + 1) mod MAXPROC) = Some i"
  using assms
proof (induction n arbitrary: h')
  case (Suc n)
  let ?g = "fold initPcbs_step [0..<n] h"
  have IH: "\<forall>i < n. nxt ?g i = Some ((i + 1) mod MAXPROC) \<and> prv ?g ((i + 1) mod MAXPROC) = Some i"
    using Suc by simp
  have ne: "(i + 1) mod MAXPROC \<noteq> (n + 1) mod MAXPROC" if "i < n" for i
    using that Suc.prems(1) by (cases "n + 1 = MAXPROC") auto
  have h': "h' = initPcbs_step n ?g" using Suc.prems(2) by simp
  have "nxt h' i = (if i = n then Some ((n + 1) mod MAXPROC) else nxt ?g i)" for i
    using Suc.prems(1) by (simp add: h' initPcbs_step_def)
  moreover have "prv h' i = (if i = (n + 1) mod MAXPROC then Some n else prv ?g i)" for i
    using Suc.prems(1) by (simp add: h' initPcbs_step_def)
  ultimately show ?case using IH ne by (auto simp: less_Suc_eq)
qed simp

lemma ring_upt:
  assumes "\<forall>i < n. nx i = Some ((i + 1) mod n) \<and> pv ((i + 1) mod n) = Some i" and "n > 0"
  shows "ring nx pv [0..<n]"
proof -
  have "linked nx pv i (Suc i)" if "Suc i < n" for i
    using assms(1) [rule_format, of i] that by (simp add: linked_def)
  then have "chained nx pv [0..<n]"
    by (simp add: chained_def successively_conv_nth)
  moreover have "linked nx pv (n - 1) 0"
    using assms(1) [rule_format, of "n - 1"] assms(2) by (simp add: linked_def)
  ultimately show ?thesis using assms(2) by (simp add: ring_def last_conv_nth)
qed

lemma initPcbs_free_list: "free_list (initPcbs s) [0..<MAXPROC]"
proof -
  have "0 < MAXPROC" by (simp add: MAXPROC_def)
  then show ?thesis
    using ring_upt [OF initPcbs_links [OF order_refl refl, of "pcbs s"]]
    by (simp add: free_list_def initPcbs_def head_ptr_def)
qed

subsection \<open>Allocation takes the head, release appends\<close>

lemma reset_pcb_data: "pcb_data x = pcb_data y \<Longrightarrow> reset_pcb x = reset_pcb y"
  by (cases x; cases y) (simp add: pcb_data_def reset_pcb_def)

lemma reset_pcb_simps [simp]:
  "p_next (reset_pcb y) = None" "p_prev (reset_pcb y) = None" "p_child (reset_pcb y) = None"
  "p_prnt (reset_pcb y) = None" "p_next_sib (reset_pcb y) = None" "p_prev_sib (reset_pcb y) = None"
  "p_supportStruct (reset_pcb y) = 0" "p_time (reset_pcb y) = 0"
  "p_semAdd (reset_pcb y) = p_semAdd y" "p_s (reset_pcb y) = p_s y"
  by (simp_all add: reset_pcb_def)

lemma allocPcb_empty: "free_list s [] \<Longrightarrow> allocPcb s = Some (None, s)"
  by (simp add: free_list_def allocPcb_def)

lemma allocPcb_refines:
  assumes fl: "free_list s (p # fs)"
  shows "\<exists>h'. allocPcb s = Some (Some p, s\<lparr>pcbFree_h := head_ptr fs, pcbs := h',
             processCount := processCount s + 1\<rparr>) \<and>
     free_list (s\<lparr>pcbFree_h := head_ptr fs, pcbs := h', processCount := processCount s + 1\<rparr>) fs \<and>
     h' p = reset_pcb (pcbs s p) \<and>
     (\<forall>x. x \<notin> set (p # fs) \<longrightarrow> h' x = pcbs s x) \<and>
     (\<forall>x. x \<noteq> p \<longrightarrow> pcb_data (h' x) = pcb_data (pcbs s x))"
proof -
  let ?h = "pcbs s"
  have d: "distinct (p # fs)" and r: "ring (nxt ?h) (prv ?h) (p # fs)" and hd: "pcbFree_h s = Some p"
    using fl by (auto simp: free_list_def)
  obtain h1 where u: "unlinkPCB (Some p) ?h = Some (Some p, h1)" "ring (nxt h1) (prv h1) fs"
    "links_only ?h h1 (set (p # fs))"
    using unlinkPCB_ring [OF r d] by blast
  let ?h' = "h1(p := reset_pcb (h1 p))"
  have "nxt ?h p = Some (if fs = [] then p else hd fs)"
    using r ring_hd_links(1) [of "nxt ?h" "prv ?h" p fs] by auto
  then have "allocPcb s = Some (Some p, s\<lparr>pcbFree_h := head_ptr fs, pcbs := ?h',
      processCount := processCount s + 1\<rparr>)"
    using u(1) hd d by (auto simp: allocPcb_def head_ptr_def)
  moreover have "ring (nxt ?h') (prv ?h') fs"
    using u(2) d by (subst ring_cong [of _ _ "nxt h1" _ "prv h1"]) auto
  moreover have "reset_pcb (h1 p) = reset_pcb (?h p)"
    using links_only_data [OF u(3)] by (rule reset_pcb_data)
  moreover have "\<forall>x. x \<notin> set (p # fs) \<longrightarrow> ?h' x = ?h x"
    using links_only_outside [OF u(3)] by auto
  ultimately show ?thesis
    using d links_only_data [OF u(3)] by (intro exI [of _ ?h']) (auto simp: free_list_def)
qed

lemma freePcb_null [simp]: "freePcb None s = Some s"
  by (simp add: freePcb_def)

lemma freePcb_nonempty:
  assumes "pcbFree_h s = Some f" and "prv (pcbs s) f = Some t" and "p \<noteq> t" and "p \<noteq> f"
  shows "\<exists>h'. freePcb (Some p) s = Some (s\<lparr>pcbs := h', processCount := processCount s - 1\<rparr>) \<and>
     nxt h' p = Some f \<and> nxt h' t = Some p \<and> prv h' p = Some t \<and> prv h' f = Some p \<and>
     (\<forall>x. x \<noteq> p \<and> x \<noteq> t \<longrightarrow> nxt h' x = nxt (pcbs s) x) \<and>
     (\<forall>x. x \<noteq> p \<and> x \<noteq> f \<longrightarrow> prv h' x = prv (pcbs s) x) \<and> links_only (pcbs s) h' {p, t, f}"
  using assms by (auto simp: freePcb_def links_only_def pcb_data_def)

lemma freePcb_refines:
  assumes fl: "free_list s fs" and new: "p \<notin> set fs"
  shows "\<exists>h'. freePcb (Some p) s = Some (s\<lparr>pcbFree_h := head_ptr (fs @ [p]), pcbs := h',
             processCount := processCount s - 1\<rparr>) \<and>
     free_list (s\<lparr>pcbFree_h := head_ptr (fs @ [p]), pcbs := h',
             processCount := processCount s - 1\<rparr>) (fs @ [p]) \<and>
     links_only (pcbs s) h' (insert p (set fs))"
proof (cases "fs = []")
  case True
  then show ?thesis using fl
    by (auto simp: freePcb_def free_list_def links_only_def pcb_data_def)
next
  case False
  let ?h = "pcbs s"
  have d: "distinct fs" and r: "ring (nxt ?h) (prv ?h) fs" and hd: "pcbFree_h s = Some (hd fs)"
    using fl False by (auto simp: free_list_def head_ptr_def)
  have "prv ?h (hd fs) = Some (last fs)" using r False by (simp add: ring_def linked_def)
  moreover have "p \<noteq> last fs" "p \<noteq> hd fs" using new False by auto
  ultimately obtain h' where h': "freePcb (Some p) s = Some (s\<lparr>pcbs := h', processCount := processCount s - 1\<rparr>)"
    and n: "nxt h' p = Some (hd fs)" "nxt h' (last fs) = Some p"
      "\<And>x. x \<noteq> p \<Longrightarrow> x \<noteq> last fs \<Longrightarrow> nxt h' x = nxt ?h x"
    and v: "prv h' p = Some (last fs)" "prv h' (hd fs) = Some p"
      "\<And>x. x \<noteq> p \<Longrightarrow> x \<noteq> hd fs \<Longrightarrow> prv h' x = prv ?h x"
    and l: "links_only ?h h' {p, last fs, hd fs}"
    using freePcb_nonempty [OF hd, of "last fs" p] by metis
  have "ring (nxt h') (prv h') (fs @ [p])"
  proof (rule ring_snoc [OF r False])
    show "nxt h' x = nxt ?h x" if "x \<in> set (butlast fs)" for x
      using that n(3) new d False distinct_last_butlast by (metis in_set_butlastD)
    show "prv h' x = prv ?h x" if "x \<in> set (tl fs)" for x
      using that v(3) new d False distinct_hd_tl by (metis list.set_sel(2))
  qed (use n v in auto)
  moreover have "links_only ?h h' (insert p (set fs))"
    using l False by (auto intro: links_only_mono)
  moreover have "s\<lparr>pcbFree_h := head_ptr (fs @ [p]), pcbs := h', processCount := processCount s - 1\<rparr>
      = s\<lparr>pcbs := h', processCount := processCount s - 1\<rparr>"
    using hd False by (simp add: head_ptr_def)
  ultimately show ?thesis using h' hd d new False
    by (intro exI [of _ h']) (simp add: free_list_def head_ptr_def)
qed

subsection \<open>The pool contract\<close>

interpretation pcbpool: resource_pool free_list allocPcb "\<lambda>p. freePcb (Some p)" "\<lambda>fs p. fs @ [p]" "\<lambda>_. True"
proof
  fix s :: "'a pcb_state_scheme" and p ps
  show "allocPcb s = Some (None, s)" if "free_list s []" using allocPcb_empty [OF that] .
  show "\<exists>s'. allocPcb s = Some (Some p, s') \<and> free_list s' ps" if "free_list s (p # ps)"
    using allocPcb_refines [OF that] by blast
  show "\<exists>s'. freePcb (Some p) s = Some s' \<and> free_list s' (ps @ [p])" if "free_list s ps" "p \<notin> set ps"
    using freePcb_refines [OF that] by blast
  show "distinct ps" if "free_list s ps" using that by (simp add: free_list_def)
qed simp_all

text \<open>
  After initPcbs, allocPcb hands out each of the MAXPROC process control blocks
  exactly once, in the order of the table, and then returns NULL for every further request.
\<close>

theorem initPcbs_drain:
  "\<exists>s'. alloc_many allocPcb (MAXPROC + n) (initPcbs s) =
     Some (map Some [0..<MAXPROC] @ replicate n None, s') \<and> free_list s' []"
  using pcbpool.drain [OF initPcbs_free_list, of n] by simp

text \<open>
  A process control block is recycled in first-in first-out order and comes back clean:
  freePcb appends to the free list, allocPcb takes its front and clears every link, the
  accounting of time and the support pointer, keeps processCount in step, and writes no
  other block except the queue links of free ones.
\<close>

theorem allocPcb_clean:
  assumes "free_list s (p # fs)"
  shows "\<exists>s'. allocPcb s = Some (Some p, s') \<and> free_list s' fs \<and> processCount s' = processCount s + 1 \<and>
    p_prnt (pcbs s' p) = None \<and> p_child (pcbs s' p) = None \<and> p_next_sib (pcbs s' p) = None \<and>
    p_prev_sib (pcbs s' p) = None \<and> p_next (pcbs s' p) = None \<and> p_prev (pcbs s' p) = None \<and>
    p_time (pcbs s' p) = 0 \<and> p_supportStruct (pcbs s' p) = 0 \<and> p_s (pcbs s' p) = p_s (pcbs s p) \<and>
    (\<forall>x. x \<noteq> p \<longrightarrow> pcb_data (pcbs s' x) = pcb_data (pcbs s x)) \<and>
    (\<forall>x. x \<notin> set (p # fs) \<longrightarrow> pcbs s' x = pcbs s x) \<and>
    (\<exists>s''. freePcb (Some p) s' = Some s'' \<and> free_list s'' (fs @ [p]) \<and> processCount s'' = processCount s)"
proof -
  obtain h' where h: "allocPcb s = Some (Some p, s\<lparr>pcbFree_h := head_ptr fs, pcbs := h',
             processCount := processCount s + 1\<rparr>)"
     "free_list (s\<lparr>pcbFree_h := head_ptr fs, pcbs := h', processCount := processCount s + 1\<rparr>) fs"
     "h' p = reset_pcb (pcbs s p)" "\<And>x. x \<notin> set (p # fs) \<Longrightarrow> h' x = pcbs s x"
     "\<And>x. x \<noteq> p \<Longrightarrow> pcb_data (h' x) = pcb_data (pcbs s x)"
    using allocPcb_refines [OF assms] by blast
  let ?s' = "s\<lparr>pcbFree_h := head_ptr fs, pcbs := h', processCount := processCount s + 1\<rparr>"
  have "p \<notin> set fs" using assms by (simp add: free_list_def)
  then obtain s'' where "freePcb (Some p) ?s' = Some s''" "free_list s'' (fs @ [p])"
    "processCount s'' = processCount s"
    using freePcb_refines [OF h(2)] by fastforce
  with h show ?thesis by (intro exI [of _ ?s']) auto
qed

definition alloc_example :: pcb_state where
  "alloc_example = initPcbs \<lparr>pcbs = (\<lambda>_. zero_pcb), pcbFree_h = None, processCount = 0\<rparr>"

theorem allocPcb_clean_witness:
  "\<exists>s' s''. allocPcb alloc_example = Some (Some 0, s') \<and> p_child (pcbs s' 0) = None \<and>
     freePcb (Some 0) s' = Some s'' \<and> free_list s'' ([1..<MAXPROC] @ [0]) \<and>
     processCount s'' = processCount alloc_example"
proof -
  have "free_list alloc_example (0 # [1..<MAXPROC])"
    using initPcbs_free_list by (simp add: alloc_example_def MAXPROC_def upt_conv_Cons)
  from allocPcb_clean [OF this] show ?thesis by blast
qed

text \<open>
  Nothing is lost when every block is taken and given back: allocating all of the free
  list and freeing the blocks in that order restores a free list with the same blocks.
\<close>

theorem pcb_pool_roundtrip:
  assumes "free_list s fs"
  shows "\<exists>s' s'' gs. alloc_many allocPcb (length fs) s = Some (map Some fs, s') \<and>
    free_many (\<lambda>p. freePcb (Some p)) fs s' = Some s'' \<and> free_list s'' gs \<and> mset gs = mset fs"
  using pcbpool.take_back [OF assms] .

theorem pcb_pool_roundtrip_witness:
  "\<exists>s' s'' gs. alloc_many allocPcb MAXPROC alloc_example = Some (map Some [0..<MAXPROC], s') \<and>
    free_many (\<lambda>p. freePcb (Some p)) [0..<MAXPROC] s' = Some s'' \<and> free_list s'' gs \<and> mset gs = mset [0..<MAXPROC]"
  using pcb_pool_roundtrip [OF initPcbs_free_list] unfolding alloc_example_def by simp

end
