(* ===== verification/Asl.thy ===== *)
theory Asl
  imports Pcb_Alloc
begin

text \<open>
  The active semaphore list of \<open>src/asl.c\<close>: a singly linked list of semaphore
  descriptors sorted by the address of the semaphore, between two sentinels, each with
  the queue of the processes blocked on it; and the free list of the descriptors that
  are not in use.  \<open>asl s B\<close> is the abstraction: \<open>B a\<close> is the list of the processes
  blocked on the semaphore at address \<open>a\<close>, first to be woken at the head.
\<close>

record asl_state = pcb_state +
  semd_table :: "nat \<Rightarrow> semd_t"
  semdFree_h :: semd_ptr
  semd_h :: semd_ptr

definition MAXADD :: u32 where "MAXADD = 0x7FFFFFFF"

subsection \<open>The operations\<close>

definition initASL_step :: "nat \<Rightarrow> (nat \<Rightarrow> semd_t) \<times> semd_ptr \<Rightarrow> (nat \<Rightarrow> semd_t) \<times> semd_ptr" where
  "initASL_step i = (\<lambda>(sm, free).
     let tmp = free
     in if free = None then (sm(i := (sm i)\<lparr>s_next := None\<rparr>), Some i)
        else (sm(i := (sm i)\<lparr>s_next := tmp\<rparr>), Some i))"

definition initASL :: "'a asl_state_scheme \<Rightarrow> 'a asl_state_scheme" where
  "initASL s =
     (let sm = semd_table s;
          sm = sm(0 := \<lparr>s_next = Some 1, s_semAdd = 0, s_procQ = mkEmptyProcQ\<rparr>);
          sm = sm(1 := \<lparr>s_next = None, s_semAdd = MAXADD, s_procQ = mkEmptyProcQ\<rparr>);
          (sm, free) = fold initASL_step [2..<MAXPROC + 2] (sm, None)
      in s\<lparr>semd_table := sm, semdFree_h := free, semd_h := Some 0\<rparr>)"

text \<open>The loop of \<open>findSemInActiveList\<close>; the comparisons are of addresses, unsigned.\<close>

partial_function (option) findSem_loop ::
    "semd_ptr \<Rightarrow> u32 \<Rightarrow> (nat \<Rightarrow> semd_t) \<Rightarrow> semd_ptr option" where
  "findSem_loop tmp semAdd sm = do {
     t \<leftarrow> load sm tmp;
     n \<leftarrow> load sm (s_next t);
     if s_semAdd n < semAdd \<and> s_semAdd n \<noteq> MAXADD then findSem_loop (s_next t) semAdd sm
     else Some tmp
   }"

definition findSemInActiveList :: "u32 \<Rightarrow> 'a asl_state_scheme \<Rightarrow> semd_ptr option" where
  "findSemInActiveList semAdd s = findSem_loop (semd_h s) semAdd (semd_table s)"

definition newSemd :: "'a asl_state_scheme \<Rightarrow> (semd_ptr \<times> 'a asl_state_scheme) option" where
  "newSemd s =
     (if semdFree_h s = None then Some (None, s)
      else do {
        let tmp = semdFree_h s;
        t \<leftarrow> load (semd_table s) tmp;
        sm \<leftarrow> store tmp (\<lambda>y. y\<lparr>s_next := None, s_procQ := mkEmptyProcQ, s_semAdd := 0\<rparr>) (semd_table s);
        Some (tmp, s\<lparr>semdFree_h := s_next t, semd_table := sm\<rparr>)
      })"

definition freeSemd :: "semd_ptr \<Rightarrow> 'a asl_state_scheme \<Rightarrow> 'a asl_state_scheme option" where
  "freeSemd semd s =
     (let tmp = semdFree_h s
      in if semdFree_h s = None then do {
           sm \<leftarrow> store semd (\<lambda>y. y\<lparr>s_next := None\<rparr>) (semd_table s);
           Some (s\<lparr>semdFree_h := semd, semd_table := sm\<rparr>)
         } else do {
           sm \<leftarrow> store semd (\<lambda>y. y\<lparr>s_next := tmp\<rparr>) (semd_table s);
           Some (s\<lparr>semdFree_h := semd, semd_table := sm\<rparr>)
         })"

definition insertBlocked :: "u32 \<Rightarrow> pcb_ptr \<Rightarrow> 'a asl_state_scheme \<Rightarrow> (bool \<times> 'a asl_state_scheme) option" where
  "insertBlocked semAdd p s = do {
     tmp \<leftarrow> findSemInActiveList semAdd s;
     t \<leftarrow> load (semd_table s) tmp;
     n \<leftarrow> load (semd_table s) (s_next t);
     if s_semAdd n = semAdd then do {
       h \<leftarrow> store p (\<lambda>y. y\<lparr>p_semAdd := semAdd\<rparr>) (pcbs s);
       (tq, h) \<leftarrow> insertProcQ (s_procQ n) p h;
       sm \<leftarrow> store (s_next t) (\<lambda>y. y\<lparr>s_procQ := tq\<rparr>) (semd_table s);
       Some (False, s\<lparr>pcbs := h, semd_table := sm\<rparr>)
     } else do {
       (newSem, s) \<leftarrow> newSemd s;
       if newSem = None then Some (True, s)
       else do {
         tmp_allocated \<leftarrow> findSemInActiveList semAdd s;
         h \<leftarrow> store p (\<lambda>y. y\<lparr>p_semAdd := semAdd\<rparr>) (pcbs s);
         ta \<leftarrow> load (semd_table s) tmp_allocated;
         sm \<leftarrow> store newSem (\<lambda>y. y\<lparr>s_semAdd := semAdd, s_procQ := mkEmptyProcQ,
                 s_next := s_next ta\<rparr>) (semd_table s);
         sm \<leftarrow> store tmp_allocated (\<lambda>y. y\<lparr>s_next := newSem\<rparr>) sm;
         ns \<leftarrow> load sm newSem;
         (tq, h) \<leftarrow> insertProcQ (s_procQ ns) p h;
         sm \<leftarrow> store newSem (\<lambda>y. y\<lparr>s_procQ := tq\<rparr>) sm;
         Some (False, s\<lparr>pcbs := h, semd_table := sm\<rparr>)
       }
     }
   }"

text \<open>
  The end that \<open>removeBlocked\<close> and \<open>outBlocked\<close> share: the descriptor after \<open>tmp\<close> is
  unlinked, cleared and freed when its queue has become empty.
\<close>

definition freeIfEmpty :: "semd_ptr \<Rightarrow> 'a asl_state_scheme \<Rightarrow> 'a asl_state_scheme option" where
  "freeIfEmpty tmp s = do {
     t \<leftarrow> load (semd_table s) tmp;
     n \<leftarrow> load (semd_table s) (s_next t);
     if emptyProcQ (s_procQ n) then do {
       let e = s_next t;
       sm \<leftarrow> store tmp (\<lambda>y. y\<lparr>s_next := s_next n\<rparr>) (semd_table s);
       sm \<leftarrow> store e (\<lambda>y. y\<lparr>s_next := None, s_semAdd := 0, s_procQ := mkEmptyProcQ\<rparr>) sm;
       freeSemd e (s\<lparr>semd_table := sm\<rparr>)
     } else Some s
   }"

definition removeBlocked :: "u32 \<Rightarrow> 'a asl_state_scheme \<Rightarrow> (pcb_ptr \<times> 'a asl_state_scheme) option" where
  "removeBlocked semAdd s = do {
     tmp \<leftarrow> findSemInActiveList semAdd s;
     t \<leftarrow> load (semd_table s) tmp;
     n \<leftarrow> load (semd_table s) (s_next t);
     if s_semAdd n = semAdd then do {
       (removed, tq, h) \<leftarrow> removeProcQ (s_procQ n) (pcbs s);
       sm \<leftarrow> store (s_next t) (\<lambda>y. y\<lparr>s_procQ := tq\<rparr>) (semd_table s);
       s \<leftarrow> freeIfEmpty tmp (s\<lparr>pcbs := h, semd_table := sm\<rparr>);
       h \<leftarrow> store removed (\<lambda>y. y\<lparr>p_semAdd := 0\<rparr>) (pcbs s);
       Some (removed, s\<lparr>pcbs := h\<rparr>)
     } else Some (None, s)
   }"

definition outBlocked :: "pcb_ptr \<Rightarrow> 'a asl_state_scheme \<Rightarrow> (pcb_ptr \<times> 'a asl_state_scheme) option" where
  "outBlocked p s = do {
     x \<leftarrow> load (pcbs s) p;
     tmp \<leftarrow> findSemInActiveList (p_semAdd x) s;
     t \<leftarrow> load (semd_table s) tmp;
     n \<leftarrow> load (semd_table s) (s_next t);
     (releasedPcb, tq, h) \<leftarrow> outProcQ (s_procQ n) p (pcbs s);
     sm \<leftarrow> store (s_next t) (\<lambda>y. y\<lparr>s_procQ := tq\<rparr>) (semd_table s);
     if releasedPcb = None then Some (None, s\<lparr>pcbs := h, semd_table := sm\<rparr>)
     else do {
       s \<leftarrow> freeIfEmpty tmp (s\<lparr>pcbs := h, semd_table := sm\<rparr>);
       h \<leftarrow> store releasedPcb (\<lambda>y. y\<lparr>p_semAdd := 0\<rparr>) (pcbs s);
       Some (releasedPcb, s\<lparr>pcbs := h\<rparr>)
     }
   }"

definition headBlocked :: "u32 \<Rightarrow> 'a asl_state_scheme \<Rightarrow> pcb_ptr option" where
  "headBlocked semAdd s = do {
     tmp \<leftarrow> findSemInActiveList semAdd s;
     t \<leftarrow> load (semd_table s) tmp;
     n \<leftarrow> load (semd_table s) (s_next t);
     if emptyProcQ (s_procQ n) \<or> tmp = None then Some None
     else if s_semAdd n \<noteq> semAdd then Some None
     else headProcQ (s_procQ n) (pcbs s)
   }"

subsection \<open>The list of descriptors\<close>

text \<open>
  \<open>slist sm is\<close>: every index in \<open>is\<close> but the last points to the next one.
  \<open>semd_struct\<close> describes the table: the active descriptors with their keys between
  the sentinels 0 and 1, in the order of the keys, and the free ones.
\<close>

definition slist :: "(nat \<Rightarrow> semd_t) \<Rightarrow> nat list \<Rightarrow> bool" where
  "slist sm is \<longleftrightarrow> successively (\<lambda>x y. s_next (sm x) = Some y) is"

lemma slist_simps [simp]:
  "slist sm []" "slist sm [i]" "slist sm (i # j # js) \<longleftrightarrow> s_next (sm i) = Some j \<and> slist sm (j # js)"
  by (simp_all add: slist_def)

lemma slist_append:
  "slist sm (is @ js) \<longleftrightarrow> slist sm is \<and> slist sm js \<and>
     (is = [] \<or> js = [] \<or> s_next (sm (last is)) = Some (hd js))"
  by (simp add: slist_def successively_append_iff)

lemma slist_cong:
  assumes "\<And>i. i \<in> set (butlast is) \<Longrightarrow> s_next (sm' i) = s_next (sm i)"
  shows "slist sm' is = slist sm is"
  using assms by (induction "is" rule: induct_list012) auto

lemma slist_cong': 
  assumes "\<And>i. i \<in> set is \<Longrightarrow> s_next (sm' i) = s_next (sm i)"
  shows "slist sm' is = slist sm is"
  using assms by (intro slist_cong) (auto dest: in_set_butlastD)

type_synonym semnode = "nat \<times> u32 \<times> nat list"

abbreviation sidx :: "semnode \<Rightarrow> nat" where "sidx n \<equiv> fst n"
abbreviation skey :: "semnode \<Rightarrow> u32" where "skey n \<equiv> fst (snd n)"
abbreviation squeue :: "semnode \<Rightarrow> nat list" where "squeue n \<equiv> snd (snd n)"

definition semd_struct ::
    "(nat \<Rightarrow> semd_t) \<Rightarrow> semd_ptr \<Rightarrow> semnode list \<Rightarrow> nat list \<Rightarrow> bool" where
  "semd_struct sm free ls fr \<longleftrightarrow>
     slist sm (0 # map sidx ls @ [1]) \<and> s_semAdd (sm 1) = MAXADD \<and> s_procQ (sm 1) = None \<and>
     free = head_ptr fr \<and> slist sm fr \<and> (fr \<noteq> [] \<longrightarrow> s_next (sm (last fr)) = None) \<and>
     distinct (0 # 1 # map sidx ls @ fr) \<and> length ls + length fr = MAXPROC \<and>
     sorted_wrt (<) (map skey ls) \<and> MAXADD \<notin> set (map skey ls) \<and>
     map (\<lambda>i. s_semAdd (sm i)) (map sidx ls) = map skey ls"

definition sem_queues :: "pcb_heap \<Rightarrow> (nat \<Rightarrow> semd_t) \<Rightarrow> semnode list \<Rightarrow> bool" where
  "sem_queues h sm ls \<longleftrightarrow>
     (\<forall>n \<in> set ls. squeue n \<noteq> [] \<and> procq h (s_procQ (sm (sidx n))) (squeue n) \<and>
        (\<forall>x \<in> set (squeue n). p_semAdd (h x) = skey n))"

definition asl_rep :: "'a asl_state_scheme \<Rightarrow> semnode list \<Rightarrow> nat list \<Rightarrow> bool" where
  "asl_rep s ls fr \<longleftrightarrow> semd_h s = Some 0 \<and>
     semd_struct (semd_table s) (semdFree_h s) ls fr \<and> sem_queues (pcbs s) (semd_table s) ls"

definition queue_at :: "semnode list \<Rightarrow> u32 \<Rightarrow> nat list" where
  "queue_at ls a = (case map_of (map snd ls) a of None \<Rightarrow> [] | Some q \<Rightarrow> q)"

definition asl :: "'a asl_state_scheme \<Rightarrow> (u32 \<Rightarrow> nat list) \<Rightarrow> bool" where
  "asl s B \<longleftrightarrow> (\<exists>ls fr. asl_rep s ls fr \<and> B = queue_at ls)"

subsection \<open>Walking and changing the list of descriptors\<close>

lemma findSem_loop_path:
  assumes "slist sm (i # is @ [j])"
    and "\<And>x. x \<in> set is \<Longrightarrow> s_semAdd (sm x) < a \<and> s_semAdd (sm x) \<noteq> MAXADD"
    and "\<not> (s_semAdd (sm j) < a \<and> s_semAdd (sm j) \<noteq> MAXADD)"
  shows "findSem_loop (Some i) a sm = Some (Some (last (i # is)))"
  using assms
proof (induction "is" arbitrary: i)
  case Nil
  then show ?case by (subst findSem_loop.simps) auto
next
  case (Cons x xs)
  then have "findSem_loop (Some x) a sm = Some (Some (last (x # xs)))" by simp
  with Cons.prems show ?case by (subst findSem_loop.simps) simp
qed

lemma slist_path_split:
  "slist sm (0 # is @ js @ [1]) \<longleftrightarrow> slist sm (0 # is) \<and> slist sm (js @ [1]) \<and>
     s_next (sm (last (0 # is))) = Some (hd (js @ [1]))"
  using slist_append [of sm "0 # is" "js @ [1]"] by auto

text \<open>The part of the description that the search needs.\<close>

definition sem_path :: "(nat \<Rightarrow> semd_t) \<Rightarrow> semnode list \<Rightarrow> bool" where
  "sem_path sm ls \<longleftrightarrow> slist sm (0 # map sidx ls @ [1]) \<and> s_semAdd (sm 1) = MAXADD \<and>
     MAXADD \<notin> set (map skey ls) \<and> map (\<lambda>i. s_semAdd (sm i)) (map sidx ls) = map skey ls"

lemma semd_struct_path: "semd_struct sm free ls fr \<Longrightarrow> sem_path sm ls"
  by (simp add: semd_struct_def sem_path_def)

lemma sem_path_keys:
  assumes "sem_path sm ls" and n: "n \<in> set ls"
  shows "s_semAdd (sm (sidx n)) = skey n \<and> skey n \<noteq> MAXADD"
proof -
  have "MAXADD \<notin> skey ` set ls" "\<forall>n \<in> set ls. s_semAdd (sm (sidx n)) = skey n"
    using assms(1) by (auto simp: sem_path_def)
  with n show ?thesis by (metis imageI)
qed

lemma sem_path_cong:
  assumes "sem_path sm ls" and "\<And>i. i \<in> set (0 # 1 # map sidx ls) \<Longrightarrow> sm' i = sm i"
  shows "sem_path sm' ls"
proof -
  have "slist sm' (0 # map sidx ls @ [1]) = slist sm (0 # map sidx ls @ [1])"
    by (rule slist_cong') (use assms(2) in auto)
  moreover have "sm' 1 = sm 1" by (rule assms(2)) simp
  moreover have "map (\<lambda>i. s_semAdd (sm' i)) (map sidx ls) = map (\<lambda>i. s_semAdd (sm i)) (map sidx ls)"
    using assms(2) by simp
  ultimately show ?thesis using assms(1) unfolding sem_path_def by simp
qed

lemmas semd_struct_keys = sem_path_keys [OF semd_struct_path]

text \<open>
  The descriptor list cut at the place of the key \<open>a\<close>: \<open>findSemInActiveList\<close> returns
  the last descriptor before the cut.
\<close>

definition cut_at :: "u32 \<Rightarrow> semnode list \<Rightarrow> semnode list \<Rightarrow> bool" where
  "cut_at a as bs \<longleftrightarrow> (\<forall>n \<in> set as. skey n < a) \<and> (bs = [] \<or> \<not> skey (hd bs) < a)"

lemma cut_exists: "\<exists>as bs. ls = as @ bs \<and> cut_at a as bs"
proof (intro exI conjI)
  show "ls = takeWhile (\<lambda>n. skey n < a) ls @ dropWhile (\<lambda>n. skey n < a) ls" by simp
  show "cut_at a (takeWhile (\<lambda>n. skey n < a) ls) (dropWhile (\<lambda>n. skey n < a) ls)"
    unfolding cut_at_def
  proof (intro conjI)
    show "\<forall>n \<in> set (takeWhile (\<lambda>n. skey n < a) ls). skey n < a"
      by (auto dest: set_takeWhileD)
    show "dropWhile (\<lambda>n. skey n < a) ls = [] \<or> \<not> skey (hd (dropWhile (\<lambda>n. skey n < a) ls)) < a"
      using hd_dropWhile [of "\<lambda>n. skey n < a" ls] by blast
  qed
qed

lemma find_cut:
  assumes st: "sem_path sm (as @ bs)" and c: "cut_at a as bs"
  shows "findSem_loop (Some 0) a sm = Some (Some (last (0 # map sidx as)))"
    and "s_next (sm (last (0 # map sidx as))) = Some (hd (map sidx bs @ [1]))"
proof -
  have p: "slist sm (0 # map sidx as @ map sidx bs @ [1])"
    using st by (simp add: sem_path_def)
  then show nx: "s_next (sm (last (0 # map sidx as))) = Some (hd (map sidx bs @ [1]))"
    by (simp only: slist_path_split)
  let ?j = "hd (map sidx bs @ [1])"
  have path: "slist sm (0 # map sidx as @ [?j])"
    using p nx unfolding slist_path_split using slist_append [of sm "0 # map sidx as" "[?j]"] by simp
  show "findSem_loop (Some 0) a sm = Some (Some (last (0 # map sidx as)))"
  proof (rule findSem_loop_path [OF path])
    show "s_semAdd (sm x) < a \<and> s_semAdd (sm x) \<noteq> MAXADD" if "x \<in> set (map sidx as)" for x
      using that c sem_path_keys [OF st] by (force simp: cut_at_def)
    show "\<not> (s_semAdd (sm ?j) < a \<and> s_semAdd (sm ?j) \<noteq> MAXADD)"
    proof (cases bs)
      case Nil
      then show ?thesis using st by (simp add: sem_path_def)
    next
      case (Cons b bs')
      then show ?thesis using c sem_path_keys [OF st, of b] by (auto simp: cut_at_def)
    qed
  qed
qed

lemma cut_present:
  assumes "sorted_wrt (<) (map skey (as @ bs))" and "cut_at a as bs"
  shows "a \<in> skey ` set (as @ bs) \<longleftrightarrow> bs \<noteq> [] \<and> skey (hd bs) = a"
proof -
  have "skey n \<noteq> a" if "n \<in> set as" for n using that assms(2) by (auto simp: cut_at_def)
  moreover have "skey (hd bs) < skey n" if "n \<in> set (tl bs)" for n
    using that assms(1) by (cases bs) (auto simp: sorted_wrt_append)
  ultimately show ?thesis using assms(2)
    by (cases bs) (auto simp: cut_at_def dest: order.strict_trans)
qed

text \<open>Changing queues only.\<close>

lemma semd_struct_procQ:
  assumes "semd_struct sm free ls fr"
    and "\<And>i. s_next (sm' i) = s_next (sm i)" and "\<And>i. s_semAdd (sm' i) = s_semAdd (sm i)"
    and "s_procQ (sm' 1) = None"
    and "map sidx ls' = map sidx ls" and "map skey ls' = map skey ls"
  shows "semd_struct sm' free ls' fr"
proof -
  have "length ls' = length ls" using assms(5) by (metis length_map)
  moreover have "slist sm' xs = slist sm xs" for xs using assms(2) by (intro slist_cong) auto
  ultimately show ?thesis using assms unfolding semd_struct_def by simp
qed

text \<open>Linking in the first free descriptor \<open>f\<close> with key \<open>a\<close> after the cut.\<close>

lemma semd_struct_link:
  assumes st: "semd_struct sm free (as @ bs) (f # fr)" and c: "cut_at a as bs"
    and new: "a \<notin> skey ` set (as @ bs)" "a \<noteq> MAXADD"
    and L: "L = last (0 # map sidx as)"
    and f: "s_next (sm' f) = s_next (sm L)" "s_semAdd (sm' f) = a"
    and l: "s_next (sm' L) = Some f" "s_semAdd (sm' L) = s_semAdd (sm L)"
    and rest: "\<And>i. i \<noteq> f \<Longrightarrow> i \<noteq> L \<Longrightarrow> sm' i = sm i" and q1: "s_procQ (sm' 1) = None"
  shows "semd_struct sm' (head_ptr fr) (as @ (f, a, q) # bs) fr"
proof -
  let ?as = "map sidx as" and ?bs = "map sidx bs"
  have d: "distinct (0 # 1 # ?as @ ?bs @ f # fr)" using st by (simp add: semd_struct_def)
  have p: "slist sm (0 # ?as)" "slist sm (?bs @ [1])" "s_next (sm L) = Some (hd (?bs @ [1]))"
    using st slist_path_split [of sm ?as ?bs] L by (auto simp: semd_struct_def)
  have Lin: "L \<in> set (0 # ?as)" unfolding L by (rule last_in_set) simp
  have ne: "L \<noteq> f" "1 \<noteq> L" "1 \<noteq> f" using Lin d by auto
  have "slist sm' (0 # ?as)"
  proof -
    have "L \<notin> set (butlast (0 # ?as))"
      unfolding L by (rule distinct_last_butlast) (use d in auto)
    then have "i \<noteq> L \<and> i \<noteq> f" if "i \<in> set (butlast (0 # ?as))" for i
      using that in_set_butlastD [OF that] d by auto
    then show ?thesis using p(1) rest slist_cong [of "0 # ?as" sm' sm] by metis
  qed
  moreover have "slist sm' (?bs @ [1])"
  proof -
    have "i \<noteq> L \<and> i \<noteq> f" if "i \<in> set (?bs @ [1])" for i using that Lin d by auto
    then show ?thesis using p(2) rest slist_cong' [of "?bs @ [1]" sm' sm] by metis
  qed
  ultimately have "slist sm' (0 # (?as @ [f]) @ ?bs @ [1])"
    using p(3) f(1) l(1) L slist_append [of sm' "0 # ?as" "[f]"] unfolding slist_path_split by simp
  moreover have "slist sm' fr \<and> (fr \<noteq> [] \<longrightarrow> s_next (sm' (last fr)) = None)"
  proof -
    have e: "i \<noteq> L \<and> i \<noteq> f" if "i \<in> set fr" for i using that Lin d by auto
    have "slist sm fr" using st by (cases fr) (auto simp: semd_struct_def)
    then have "slist sm' fr" using e rest slist_cong' [of fr sm' sm] by metis
    moreover have "fr \<noteq> [] \<Longrightarrow> sm' (last fr) = sm (last fr)" using e rest last_in_set by metis
    ultimately show ?thesis using st by (auto simp: semd_struct_def)
  qed
  moreover have "sorted_wrt (<) (map skey (as @ (f, a, q) # bs))"
  proof -
    have s: "sorted_wrt (<) (map skey as)" "sorted_wrt (<) (map skey bs)"
      "\<forall>x \<in> set as. \<forall>y \<in> set bs. skey x < skey y"
      using st by (auto simp: semd_struct_def sorted_wrt_append)
    have "\<forall>y \<in> set bs. a < skey y"
      using s(2) c new(1) by (cases bs) (auto simp: cut_at_def)
    then show ?thesis using s c by (auto simp: sorted_wrt_append cut_at_def)
  qed
  moreover have keep: "s_semAdd (sm' i) = s_semAdd (sm i)" if "i \<noteq> f" for i
    using that rest l(2) by (cases "i = L") auto
  have key: "s_semAdd (sm' (sidx n)) = skey n" if "n \<in> set (as @ bs)" for n
  proof -
    have "sidx n \<in> set (?as @ ?bs)" using that by auto
    then have "sidx n \<noteq> f" using d by auto
    with keep semd_struct_keys [OF st, of n] that show ?thesis by auto
  qed
  have "map (\<lambda>i. s_semAdd (sm' i)) (?as @ f # ?bs) = map skey as @ a # map skey bs"
    using key f(2) by simp
  moreover have "s_semAdd (sm' 1) = MAXADD"
    using keep [of 1] st d by (auto simp: semd_struct_def)
  ultimately show ?thesis
    using st new q1 d by (auto simp: semd_struct_def)
qed

text \<open>Unlinking the descriptor \<open>j\<close> after the cut and putting it on the free list.\<close>

lemma semd_struct_unlink:
  assumes st: "semd_struct sm free (as @ (j, a, q) # bs) fr"
    and L: "L = last (0 # map sidx as)"
    and l: "s_next (sm' L) = s_next (sm j)" "s_semAdd (sm' L) = s_semAdd (sm L)"
    and j: "s_next (sm' j) = free"
    and rest: "\<And>i. i \<noteq> j \<Longrightarrow> i \<noteq> L \<Longrightarrow> sm' i = sm i" and q1: "s_procQ (sm' 1) = None"
  shows "semd_struct sm' (Some j) (as @ bs) (j # fr)"
proof -
  let ?as = "map sidx as" and ?bs = "map sidx bs"
  have d: "distinct (0 # 1 # ?as @ j # ?bs @ fr)" using st by (simp add: semd_struct_def)
  have "slist sm (0 # ?as @ (j # ?bs) @ [1])" using st by (simp add: semd_struct_def)
  then have p: "slist sm (0 # ?as)" "slist sm (?bs @ [1])" "s_next (sm j) = Some (hd (?bs @ [1]))"
    using slist_append [of sm "[j]" "?bs @ [1]"] unfolding slist_path_split by auto
  have Lin: "L \<in> set (0 # ?as)" unfolding L by (rule last_in_set) simp
  have "slist sm' (0 # ?as)"
  proof -
    have "L \<notin> set (butlast (0 # ?as))"
      unfolding L by (rule distinct_last_butlast) (use d in auto)
    then have "i \<noteq> L \<and> i \<noteq> j" if "i \<in> set (butlast (0 # ?as))" for i
      using that in_set_butlastD [OF that] d by auto
    then show ?thesis using p(1) rest slist_cong [of "0 # ?as" sm' sm] by metis
  qed
  moreover have "slist sm' (?bs @ [1])"
  proof -
    have "i \<noteq> L \<and> i \<noteq> j" if "i \<in> set (?bs @ [1])" for i using that Lin d by auto
    then show ?thesis using p(2) rest slist_cong' [of "?bs @ [1]" sm' sm] by metis
  qed
  ultimately have "slist sm' (0 # ?as @ ?bs @ [1])"
    using p(3) l(1) L unfolding slist_path_split by simp
  moreover have "slist sm' (j # fr) \<and> s_next (sm' (last (j # fr))) = None"
  proof -
    have e: "i \<noteq> L \<and> i \<noteq> j" if "i \<in> set fr" for i using that Lin d by auto
    have "slist sm fr" "free = head_ptr fr" using st by (auto simp: semd_struct_def)
    then have "slist sm' (j # fr)"
      using e rest slist_cong' [of fr sm' sm] j by (cases fr) auto
    moreover have "fr \<noteq> [] \<Longrightarrow> sm' (last fr) = sm (last fr)" using e rest last_in_set by metis
    ultimately show ?thesis using st j by (auto simp: semd_struct_def)
  qed
  moreover have "sorted_wrt (<) (map skey (as @ bs))"
    using st by (auto simp: semd_struct_def sorted_wrt_append)
  moreover have keep: "s_semAdd (sm' i) = s_semAdd (sm i)" if "i \<noteq> j" for i
    using that rest l(2) by (cases "i = L") auto
  have key: "s_semAdd (sm' (sidx n)) = skey n" if "n \<in> set (as @ bs)" for n
  proof -
    have "sidx n \<in> set (?as @ ?bs)" using that by auto
    then have "sidx n \<noteq> j" using d by auto
    with keep semd_struct_keys [OF st, of n] that show ?thesis by auto
  qed
  have "map (\<lambda>i. s_semAdd (sm' i)) (?as @ ?bs) = map skey (as @ bs)"
    using key by simp
  moreover have "s_semAdd (sm' 1) = MAXADD"
    using keep [of 1] st d by (auto simp: semd_struct_def)
  ultimately show ?thesis
    using st q1 d by (auto simp: semd_struct_def)
qed

subsection \<open>The queues at the descriptors\<close>

definition same_queue_fields :: "pcb_heap \<Rightarrow> pcb_heap \<Rightarrow> nat \<Rightarrow> bool" where
  "same_queue_fields h h' x \<longleftrightarrow> p_next (h' x) = p_next (h x) \<and> p_prev (h' x) = p_prev (h x) \<and>
     p_semAdd (h' x) = p_semAdd (h x)"

lemma sem_queues_simps [simp]:
  "sem_queues h sm []"
  "sem_queues h sm ((j, a, q) # ls) \<longleftrightarrow> (q \<noteq> [] \<and> procq h (s_procQ (sm j)) q \<and>
     (\<forall>x \<in> set q. p_semAdd (h x) = a)) \<and> sem_queues h sm ls"
  "sem_queues h sm (xs @ ys) \<longleftrightarrow> sem_queues h sm xs \<and> sem_queues h sm ys"
  by (auto simp: sem_queues_def)

lemma sem_queues_keep:
  assumes "sem_queues h sm ls"
    and "\<And>n. n \<in> set ls \<Longrightarrow> s_procQ (sm' (sidx n)) = s_procQ (sm (sidx n))"
    and "\<And>n x. n \<in> set ls \<Longrightarrow> x \<in> set (squeue n) \<Longrightarrow> same_queue_fields h h' x"
  shows "sem_queues h' sm' ls"
  using assms by (auto simp: sem_queues_def same_queue_fields_def intro!: procq_frame [of h _ _ h'])

lemma semd_struct_distinct:
  assumes "semd_struct sm free (as @ (j, a, q) # bs) fr"
  shows "j \<notin> set (0 # 1 # map sidx as @ map sidx bs @ fr)" "a \<notin> skey ` set (as @ bs)" "a \<noteq> MAXADD"
    "a \<notin> skey ` set as"
  using assms by (auto simp: semd_struct_def sorted_wrt_append)

lemma semd_struct_other:
  assumes "semd_struct sm free (as @ (j, a, q) # bs) fr" and "n \<in> set (as @ bs)"
  shows "sidx n \<noteq> j" "skey n \<noteq> a"
proof -
  have "sidx n \<in> set (map sidx (as @ bs))" using assms(2) unfolding set_map by (rule imageI)
  then show "sidx n \<noteq> j" using assms(1) by (auto simp: semd_struct_def)
  have "skey n \<in> skey ` set (as @ bs)" using assms(2) by (rule imageI)
  then show "skey n \<noteq> a" using semd_struct_distinct(2) [OF assms(1)] by auto
qed

lemma last_path_not:
  assumes "semd_struct sm free (as @ (j, a, q) # bs) fr"
  shows "last (0 # map sidx as) \<noteq> j" "last (0 # map sidx as) \<noteq> 1"
    "last (0 # map sidx as) \<notin> set (map sidx bs)" "last (0 # map sidx as) \<notin> set fr"
proof -
  define L where "L = last (0 # map sidx as)"
  have m: "L \<in> set (0 # map sidx as)" unfolding L_def by (rule last_in_set) simp
  define A where "A = map sidx as"
  define C where "C = map sidx bs"
  have d: "distinct (0 # 1 # A @ j # C @ fr)"
    using assms by (simp add: semd_struct_def A_def C_def)
  have "L \<noteq> j \<and> L \<noteq> 1 \<and> L \<notin> set C \<and> L \<notin> set fr"
    using m [folded A_def] d unfolding distinct.simps distinct_append set_append list.set insert_iff by auto
  then show "last (0 # map sidx as) \<noteq> j" "last (0 # map sidx as) \<noteq> 1"
    "last (0 # map sidx as) \<notin> set (map sidx bs)" "last (0 # map sidx as) \<notin> set fr"
    by (auto simp only: L_def C_def)
qed

subsection \<open>The abstraction of the list as a map\<close>

lemma queue_at_Cons: "queue_at ((j, k, q) # ls) a = (if k = a then q else queue_at ls a)"
  by (auto simp: queue_at_def)

lemma queue_at_Nil [simp]: "queue_at [] a = []"
  by (simp add: queue_at_def)

lemma queue_at_absent: "a \<notin> skey ` set ls \<Longrightarrow> queue_at ls a = []"
  by (induction ls) (auto simp: queue_at_Cons)

lemma queue_at_insert:
  "a \<notin> skey ` set as \<Longrightarrow> queue_at (as @ (j, a, q) # bs) = (queue_at (as @ bs))(a := q)"
  by (induction as) (auto simp: queue_at_Cons fun_eq_iff)

lemma queue_at_in: "x \<in> set (queue_at ls a) \<Longrightarrow> \<exists>j q. (j, a, q) \<in> set ls \<and> x \<in> set q"
  by (induction ls) (fastforce simp: queue_at_Cons split: if_splits)+

lemma queue_at_mem: "distinct (map skey ls) \<Longrightarrow> (j, a, q) \<in> set ls \<Longrightarrow> queue_at ls a = q"
  by (induction ls) (auto simp: queue_at_Cons image_iff)

lemma asl_rep_distinct_keys: "asl_rep s ls fr \<Longrightarrow> distinct (map skey ls)"
  by (auto simp: asl_rep_def semd_struct_def strict_sorted_iff)

lemma asl_rep_queue:
  assumes "asl_rep s ls fr" and "x \<in> set (queue_at ls a)"
  shows "p_semAdd (pcbs s x) = a"
  using assms queue_at_in [OF assms(2)] by (auto simp: asl_rep_def sem_queues_def)

lemma asl_queue: "asl s B \<Longrightarrow> x \<in> set (B a) \<Longrightarrow> p_semAdd (pcbs s x) = a"
  using asl_rep_queue by (auto simp: asl_def)

lemma asl_disjoint: "asl s B \<Longrightarrow> x \<in> set (B a) \<Longrightarrow> x \<in> set (B b) \<Longrightarrow> a = b"
  using asl_queue by metis

lemma asl_distinct: "asl s B \<Longrightarrow> distinct (B a)"
proof -
  assume "asl s B"
  then obtain ls fr where r: "asl_rep s ls fr" and B: "B = queue_at ls" by (auto simp: asl_def)
  show ?thesis
  proof (cases "a \<in> skey ` set ls")
    case True
    then obtain j q where m: "(j, a, q) \<in> set ls" by auto
    then have "queue_at ls a = q" using queue_at_mem asl_rep_distinct_keys [OF r] by blast
    then show ?thesis using m r B by (auto simp: asl_rep_def sem_queues_def procq_def)
  qed (simp add: B queue_at_absent)
qed

text \<open>The number of semaphores in use and the number of free descriptors add up.\<close>

lemma asl_rep_keys: "asl_rep s ls fr \<Longrightarrow> {a. queue_at ls a \<noteq> []} = skey ` set ls"
proof (intro equalityI subsetI)
  fix a assume "a \<in> {a. queue_at ls a \<noteq> []}"
  then show "a \<in> skey ` set ls" using queue_at_absent by blast
next
  fix a assume r: "asl_rep s ls fr" and "a \<in> skey ` set ls"
  then obtain j q where m: "(j, a, q) \<in> set ls" by auto
  then have "queue_at ls a = q" "q \<noteq> []"
    using r queue_at_mem asl_rep_distinct_keys [OF r] by (auto simp: asl_rep_def sem_queues_def)
  then show "a \<in> {a. queue_at ls a \<noteq> []}" by simp
qed

lemma asl_full:
  assumes "asl s B"
  shows "finite {a. B a \<noteq> []}" "card {a. B a \<noteq> []} \<le> MAXPROC"
    "semdFree_h s = None \<longleftrightarrow> card {a. B a \<noteq> []} = MAXPROC"
proof -
  obtain ls fr where r: "asl_rep s ls fr" and B: "B = queue_at ls" using assms by (auto simp: asl_def)
  have c: "card {a. B a \<noteq> []} = length ls"
    using asl_rep_keys [OF r] asl_rep_distinct_keys [OF r] B distinct_card [of "map skey ls"] by simp
  show "finite {a. B a \<noteq> []}" using asl_rep_keys [OF r] B by simp
  have "length ls + length fr = MAXPROC" "semdFree_h s = head_ptr fr"
    using r by (auto simp: asl_rep_def semd_struct_def)
  with c show "card {a. B a \<noteq> []} \<le> MAXPROC"
    "semdFree_h s = None \<longleftrightarrow> card {a. B a \<noteq> []} = MAXPROC" by auto
qed

subsection \<open>insertBlocked\<close>

lemma cut_at_key:
  assumes "semd_struct sm free (as @ (j, a, q) # bs) fr"
  shows "cut_at a as ((j, a, q) # bs)"
  using assms by (auto simp: cut_at_def semd_struct_def sorted_wrt_append)

definition unqueued :: "nat \<Rightarrow> semnode list \<Rightarrow> bool" where
  "unqueued p ls \<longleftrightarrow> (\<forall>n \<in> set ls. p \<notin> set (squeue n))"

lemma insertBlocked_present:
  assumes r: "asl_rep s (as @ (j, a, q) # bs) fr" and p: "unqueued p (as @ (j, a, q) # bs)"
  shows "\<exists>h'. insertBlocked a (Some p) s = Some (False, s\<lparr>pcbs := h',
        semd_table := (semd_table s)(j := (semd_table s j)\<lparr>s_procQ := Some p\<rparr>)\<rparr>) \<and>
     asl_rep (s\<lparr>pcbs := h', semd_table := (semd_table s)(j := (semd_table s j)\<lparr>s_procQ := Some p\<rparr>)\<rparr>)
        (as @ (j, a, q @ [p]) # bs) fr \<and>
     links_only ((pcbs s)(p := (pcbs s p)\<lparr>p_semAdd := a\<rparr>)) h' (insert p (set q))"
proof -
  let ?sm = "semd_table s" and ?L = "last (0 # map sidx as)"
  let ?h1 = "(pcbs s)(p := (pcbs s p)\<lparr>p_semAdd := a\<rparr>)"
  have st: "semd_struct ?sm (semdFree_h s) (as @ (j, a, q) # bs) fr" and hd: "semd_h s = Some 0"
    and qs: "sem_queues (pcbs s) ?sm as" "sem_queues (pcbs s) ?sm bs"
      "procq (pcbs s) (s_procQ (?sm j)) q" "q \<noteq> []" "\<forall>x \<in> set q. p_semAdd (pcbs s x) = a"
    using r by (auto simp: asl_rep_def)
  note dj = semd_struct_distinct [OF st]
  have f: "findSemInActiveList a s = Some (Some ?L)" "s_next (?sm ?L) = Some j"
    using find_cut [OF semd_struct_path [OF st] cut_at_key [OF st]] hd
    by (simp_all add: findSemInActiveList_def)
  have kj: "s_semAdd (?sm j) = a" using semd_struct_keys [OF st, of "(j, a, q)"] by simp
  have pq: "p \<notin> set q" using p by (auto simp: unqueued_def)
  have "procq ?h1 (s_procQ (?sm j)) q" by (rule procq_upd_other [OF qs(3)]) simp_all
  then obtain h' where h': "insertProcQ (s_procQ (?sm j)) (Some p) ?h1 = Some (Some p, h')"
    "procq h' (Some p) (q @ [p])" "links_only ?h1 h' (insert p (set q))"
    using insertProcQ_refines pq by blast
  let ?sm' = "?sm(j := (?sm j)\<lparr>s_procQ := Some p\<rparr>)"
  have "insertBlocked a (Some p) s = Some (False, s\<lparr>pcbs := h', semd_table := ?sm'\<rparr>)"
    using f kj h'(1) by (simp add: insertBlocked_def del: last.simps)
  moreover have "semd_struct ?sm' (semdFree_h s) (as @ (j, a, q @ [p]) # bs) fr"
    by (rule semd_struct_procQ [OF st]) (use st dj in \<open>auto simp: semd_struct_def\<close>)
  moreover have "sem_queues h' ?sm' (as @ (j, a, q @ [p]) # bs)"
  proof -
    have "sem_queues h' ?sm' (as @ bs)"
    proof (rule sem_queues_keep)
      show "sem_queues (pcbs s) ?sm (as @ bs)" using qs(1,2) by simp
      fix n assume n: "n \<in> set (as @ bs)"
      note other = semd_struct_other [OF st n]
      show "s_procQ (?sm' (sidx n)) = s_procQ (?sm (sidx n))" using other(1) by simp
      fix x assume x: "x \<in> set (squeue n)"
      have "p_semAdd (pcbs s x) = skey n" "x \<noteq> p"
        using n x qs(1,2) p by (auto simp: sem_queues_def unqueued_def)
      then have "x \<notin> insert p (set q)" using qs(5) other(2) by auto
      then have "h' x = pcbs s x" using links_only_outside [OF h'(3)] by auto
      then show "same_queue_fields (pcbs s) h' x" by (simp add: same_queue_fields_def)
    qed
    moreover have "\<forall>x \<in> set (q @ [p]). p_semAdd (h' x) = a"
      using links_only_fields(7) [OF h'(3)] qs(5) by auto
    ultimately show ?thesis using h'(2) by simp
  qed
  ultimately show ?thesis using h'(3) hd by (auto simp: asl_rep_def)
qed

lemma semd_struct_free_next:
  assumes "semd_struct sm free ls (f # fr)"
  shows "free = Some f" "s_next (sm f) = head_ptr fr"
  using assms by (cases fr; simp add: semd_struct_def)+

lemma insertBlocked_new:
  assumes r: "asl_rep s (as @ bs) (f # fr)" and c: "cut_at a as bs"
    and new: "a \<notin> skey ` set (as @ bs)" "a \<noteq> MAXADD" and p: "unqueued p (as @ bs)"
  shows "\<exists>h' sm'. insertBlocked a (Some p) s = Some (False, s\<lparr>semdFree_h := head_ptr fr,
        pcbs := h', semd_table := sm'\<rparr>) \<and>
     asl_rep (s\<lparr>semdFree_h := head_ptr fr, pcbs := h', semd_table := sm'\<rparr>) (as @ (f, a, [p]) # bs) fr \<and>
     links_only ((pcbs s)(p := (pcbs s p)\<lparr>p_semAdd := a\<rparr>)) h' {p}"
proof -
  let ?sm = "semd_table s"
  define L where "L = last (0 # map sidx as)"
  define n0 where "n0 = hd (map sidx bs @ [1])"
  let ?h1 = "(pcbs s)(p := (pcbs s p)\<lparr>p_semAdd := a\<rparr>)"
  have st: "semd_struct ?sm (semdFree_h s) (as @ bs) (f # fr)" and hd: "semd_h s = Some 0"
    and qs: "sem_queues (pcbs s) ?sm (as @ bs)"
    using r by (auto simp: asl_rep_def)
  have d: "distinct (0 # 1 # map sidx as @ map sidx bs @ f # fr)" using st by (simp add: semd_struct_def)
  have Lin: "L \<in> set (0 # map sidx as)" unfolding L_def by (rule last_in_set) simp
  have Lf: "L \<noteq> f" "1 \<noteq> L" "1 \<noteq> f" using Lin d by auto
  have find: "findSem_loop (Some 0) a ?sm = Some (Some L)" "s_next (?sm L) = Some n0"
    using find_cut [OF semd_struct_path [OF st] c] by (simp_all add: L_def n0_def)
  have n0: "s_semAdd (?sm n0) \<noteq> a" "n0 \<noteq> f"
  proof -
    show "s_semAdd (?sm n0) \<noteq> a"
      using new semd_struct_keys [OF st] st by (cases bs) (auto simp: n0_def semd_struct_def)
    show "n0 \<noteq> f" using d by (cases bs) (auto simp: n0_def)
  qed
  define sm1 where "sm1 = ?sm(f := (?sm f)\<lparr>s_next := None, s_procQ := None, s_semAdd := 0\<rparr>)"
  have "sem_path sm1 (as @ bs)"
    by (rule sem_path_cong [OF semd_struct_path [OF st]]) (use d in \<open>auto simp: sm1_def\<close>)
  then have find1: "findSem_loop (Some 0) a sm1 = Some (Some L)"
    using find_cut [OF _ c] by (simp add: L_def)
  obtain h' where h': "insertProcQ None (Some p) ?h1 = Some (Some p, h')" "procq h' (Some p) [p]"
    "links_only ?h1 h' {p}"
    using insertProcQ_refines [of ?h1 None "[]" p] by auto
  define sm' where "sm' = ?sm(f := (?sm f)\<lparr>s_semAdd := a, s_next := Some n0, s_procQ := Some p\<rparr>,
                              L := (?sm L)\<lparr>s_next := Some f\<rparr>)"
  have newSemd: "newSemd s = Some (Some f, s\<lparr>semdFree_h := head_ptr fr, semd_table := sm1\<rparr>)"
    using semd_struct_free_next [OF st] by (simp add: newSemd_def sm1_def mkEmptyProcQ_def)
  have sm1: "sm1 L = ?sm L" "sm1 f = (?sm f)\<lparr>s_next := None, s_procQ := None, s_semAdd := 0\<rparr>"
    using Lf by (simp_all add: sm1_def)
  have sm'': "sm1(L := (?sm L)\<lparr>s_next := Some f\<rparr>,
       f := (?sm f)\<lparr>s_semAdd := a, s_next := Some n0, s_procQ := Some p\<rparr>) = sm'"
    using Lf by (auto simp: sm1_def sm'_def fun_eq_iff)
  have "insertBlocked a (Some p) s = Some (False, s\<lparr>semdFree_h := head_ptr fr,
        pcbs := h', semd_table := sm'\<rparr>)"
    using find find1 n0 newSemd h'(1) hd Lf sm1 sm''
    by (simp add: insertBlocked_def findSemInActiveList_def mkEmptyProcQ_def)
  moreover have "semd_struct sm' (head_ptr fr) (as @ (f, a, [p]) # bs) fr"
    by (rule semd_struct_link [OF st c new L_def])
      (use Lf find(2) st in \<open>auto simp: sm'_def semd_struct_def\<close>)
  moreover have "sem_queues h' sm' (as @ bs)"
  proof (rule sem_queues_keep [OF qs])
    fix n assume n: "n \<in> set (as @ bs)"
    have "sidx n \<in> set (map sidx (as @ bs))" using n unfolding set_map by (rule imageI)
    then have "sidx n \<noteq> f" using d by auto
    then show "s_procQ (sm' (sidx n)) = s_procQ (?sm (sidx n))" by (simp add: sm'_def)
    fix x assume "x \<in> set (squeue n)"
    then have "x \<noteq> p" using n p by (auto simp: unqueued_def)
    then have "h' x = pcbs s x" using links_only_outside [OF h'(3)] by auto
    then show "same_queue_fields (pcbs s) h' x" by (simp add: same_queue_fields_def)
  qed
  moreover have "p_semAdd (h' p) = a" using links_only_fields(7) [OF h'(3)] by simp
  ultimately show ?thesis using h' hd Lf
    by (intro exI [of _ h'] exI [of _ sm']) (auto simp: asl_rep_def sm'_def)
qed

lemma insertBlocked_full:
  assumes r: "asl_rep s ls []" and new: "a \<notin> skey ` set ls" "a \<noteq> MAXADD"
  shows "insertBlocked a (Some p) s = Some (True, s)"
proof -
  let ?sm = "semd_table s"
  obtain as bs where ls: "ls = as @ bs" and c: "cut_at a as bs" using cut_exists by blast
  have st: "semd_struct ?sm (semdFree_h s) (as @ bs) []" and hd: "semd_h s = Some 0"
    using r ls by (auto simp: asl_rep_def)
  let ?n = "hd (map sidx bs @ [1])"
  have "s_semAdd (?sm ?n) \<noteq> a"
    using new ls semd_struct_keys [OF st] st by (cases bs) (auto simp: semd_struct_def)
  moreover have "semdFree_h s = None" using st by (simp add: semd_struct_def)
  ultimately show ?thesis
    using find_cut [OF semd_struct_path [OF st] c] hd
    by (simp add: insertBlocked_def findSemInActiveList_def newSemd_def del: last.simps)
qed

subsection \<open>Taking a process out of a queue\<close>

text \<open>The descriptor list after the queue of \<open>j\<close> has become \<open>q\<close>.\<close>

definition requeue :: "semnode list \<Rightarrow> nat \<Rightarrow> u32 \<Rightarrow> nat list \<Rightarrow> semnode list \<Rightarrow> semnode list" where
  "requeue as j a q bs = (if q = [] then as @ bs else as @ (j, a, q) # bs)"

lemma requeue_at:
  assumes "a \<notin> skey ` set (as @ bs)"
  shows "queue_at (requeue as j a q bs) = (queue_at (as @ bs))(a := q)"
proof -
  have "a \<notin> skey ` set as" using assms by auto
  from queue_at_insert [OF this, of j q bs] queue_at_absent [OF assms]
  show ?thesis by (cases "q = []") (auto simp: requeue_def fun_eq_iff)
qed

lemma freeIfEmpty_rep:
  assumes hd: "semd_h s = Some 0"
    and st: "semd_struct (semd_table s) (semdFree_h s) (as @ (j, a, q) # bs) fr"
    and qs: "sem_queues (pcbs s) (semd_table s) (as @ bs)"
    and q: "procq (pcbs s) (s_procQ (semd_table s j)) q" "\<forall>x \<in> set q. p_semAdd (pcbs s x) = a"
  shows "\<exists>sm' f'. freeIfEmpty (Some (last (0 # map sidx as))) s =
       Some (s\<lparr>semdFree_h := f', semd_table := sm'\<rparr>) \<and>
     asl_rep (s\<lparr>semdFree_h := f', semd_table := sm'\<rparr>) (requeue as j a q bs) (if q = [] then j # fr else fr)"
proof -
  let ?sm = "semd_table s"
  define L where "L = last (0 # map sidx as)"
  have nx: "s_next (?sm L) = Some j"
    using find_cut(2) [OF semd_struct_path [OF st] cut_at_key [OF st]] by (simp add: L_def)
  have Lj: "L \<noteq> j" "L \<noteq> 1" using last_path_not [OF st] by (simp_all add: L_def)
  have j1: "j \<noteq> 1" using semd_struct_distinct(1) [OF st] by auto
  show ?thesis
  proof (cases "q = []")
    case False
    then have "freeIfEmpty (Some L) s = Some s"
      using nx q(1) emptyProcQ_procq [OF q(1)] by (simp add: freeIfEmpty_def)
    moreover have "asl_rep s (as @ (j, a, q) # bs) fr"
      using False hd st qs q by (simp add: asl_rep_def)
    ultimately show ?thesis using False
      by (intro exI [of _ ?sm] exI [of _ "semdFree_h s"]) (simp add: L_def requeue_def)
  next
    case True
    define sm' where "sm' = ?sm(L := (?sm L)\<lparr>s_next := s_next (?sm j)\<rparr>,
                                j := (?sm j)\<lparr>s_semAdd := 0, s_procQ := None, s_next := semdFree_h s\<rparr>)"
    have "freeIfEmpty (Some L) s = Some (s\<lparr>semdFree_h := Some j, semd_table := sm'\<rparr>)"
      using nx True q(1) Lj
      by (cases "semdFree_h s") (simp_all add: freeIfEmpty_def freeSemd_def mkEmptyProcQ_def sm'_def Let_def)
    moreover have "semd_struct sm' (Some j) (as @ bs) (j # fr)"
      by (rule semd_struct_unlink [OF st L_def])
        (use Lj j1 st in \<open>auto simp: sm'_def semd_struct_def\<close>)
    moreover have "sem_queues (pcbs s) sm' (as @ bs)"
      by (rule sem_queues_keep [OF qs])
        (use semd_struct_other(1) [OF st] in \<open>auto simp: sm'_def same_queue_fields_def\<close>)
    ultimately show ?thesis using True hd
      by (intro exI [of _ sm'] exI [of _ "Some j"]) (simp add: L_def requeue_def asl_rep_def)
  qed
qed

lemma take_queue:
  assumes r: "asl_rep s (as @ (j, a, q) # bs) fr"
    and h1: "links_only (pcbs s) h1 (set q)" "procq h1 (tail_ptr q') q'" "set q' \<subseteq> set q"
  shows "\<exists>sm' f'. freeIfEmpty (Some (last (0 # map sidx as))) (s\<lparr>pcbs := h1,
         semd_table := (semd_table s)(j := (semd_table s j)\<lparr>s_procQ := tail_ptr q'\<rparr>)\<rparr>) =
       Some (s\<lparr>pcbs := h1, semdFree_h := f', semd_table := sm'\<rparr>) \<and>
     asl_rep (s\<lparr>pcbs := h1, semdFree_h := f', semd_table := sm'\<rparr>)
       (requeue as j a q' bs) (if q' = [] then j # fr else fr)"
proof -
  let ?sm = "semd_table s" and ?sm1 = "(semd_table s)(j := (semd_table s j)\<lparr>s_procQ := tail_ptr q'\<rparr>)"
  let ?s = "s\<lparr>pcbs := h1, semd_table := ?sm1\<rparr>"
  have st: "semd_struct ?sm (semdFree_h s) (as @ (j, a, q) # bs) fr" and hd: "semd_h s = Some 0"
    and qs: "sem_queues (pcbs s) ?sm (as @ bs)" and q: "\<forall>x \<in> set q. p_semAdd (pcbs s x) = a"
    using r by (auto simp: asl_rep_def)
  have "semd_struct ?sm1 (semdFree_h s) (as @ (j, a, q') # bs) fr"
    by (rule semd_struct_procQ [OF st])
      (use st semd_struct_distinct(1) [OF st] in \<open>auto simp: semd_struct_def\<close>)
  moreover have "sem_queues h1 ?sm1 (as @ bs)"
  proof (rule sem_queues_keep [OF qs])
    fix n assume n: "n \<in> set (as @ bs)"
    note other = semd_struct_other [OF st n]
    show "s_procQ (?sm1 (sidx n)) = s_procQ (?sm (sidx n))" using other(1) by simp
    fix x assume "x \<in> set (squeue n)"
    then have "p_semAdd (pcbs s x) = skey n" using n qs by (auto simp: sem_queues_def)
    then have "x \<notin> set q" using q other(2) by auto
    then have "h1 x = pcbs s x" using links_only_outside [OF h1(1)] by auto
    then show "same_queue_fields (pcbs s) h1 x" by (simp add: same_queue_fields_def)
  qed
  moreover have "\<forall>x \<in> set q'. p_semAdd (h1 x) = a"
    using links_only_fields(7) [OF h1(1)] q h1(3) by auto
  ultimately show ?thesis
    using freeIfEmpty_rep [of ?s as j a q' bs fr] hd h1(2) by simp
qed

lemma asl_rep_pcbs:
  assumes "asl_rep s ls fr" and "\<And>a x. x \<in> set (queue_at ls a) \<Longrightarrow> same_queue_fields (pcbs s) h' x"
  shows "asl_rep (s\<lparr>pcbs := h'\<rparr>) ls fr"
proof -
  have "same_queue_fields (pcbs s) h' x" if "n \<in> set ls" "x \<in> set (squeue n)" for n x
  proof (rule assms(2))
    have "(sidx n, skey n, squeue n) \<in> set ls" using that(1) by simp
    from queue_at_mem [OF asl_rep_distinct_keys [OF assms(1)] this] that(2)
    show "x \<in> set (queue_at ls (skey n))" by simp
  qed
  with assms(1) show ?thesis
    by (auto simp: asl_rep_def intro: sem_queues_keep)
qed

text \<open>
  Taking \<open>p\<close> out of its queue and clearing its \<open>p_semAdd\<close>: the tail both \<open>removeBlocked\<close>
  and \<open>outBlocked\<close> end with.
\<close>

lemma take_queue_clear:
  assumes r: "asl_rep s (as @ (j, a, q) # bs) fr"
    and h1: "links_only (pcbs s) h1 (set q)" "procq h1 (tail_ptr q') q'" "set q' \<subseteq> set q"
    and p: "p \<notin> set q'" "p \<in> set q"
  shows "\<exists>sm' f'. freeIfEmpty (Some (last (0 # map sidx as))) (s\<lparr>pcbs := h1,
         semd_table := (semd_table s)(j := (semd_table s j)\<lparr>s_procQ := tail_ptr q'\<rparr>)\<rparr>) =
       Some (s\<lparr>pcbs := h1, semdFree_h := f', semd_table := sm'\<rparr>) \<and>
     asl_rep (s\<lparr>semdFree_h := f', semd_table := sm', pcbs := h1(p := (h1 p)\<lparr>p_semAdd := 0\<rparr>)\<rparr>)
       (requeue as j a q' bs) (if q' = [] then j # fr else fr)"
proof -
  have st: "semd_struct (semd_table s) (semdFree_h s) (as @ (j, a, q) # bs) fr"
    using r by (simp add: asl_rep_def)
  obtain sm' f' where f: "freeIfEmpty (Some (last (0 # map sidx as))) (s\<lparr>pcbs := h1,
         semd_table := (semd_table s)(j := (semd_table s j)\<lparr>s_procQ := tail_ptr q'\<rparr>)\<rparr>) =
       Some (s\<lparr>pcbs := h1, semdFree_h := f', semd_table := sm'\<rparr>)"
    and r': "asl_rep (s\<lparr>pcbs := h1, semdFree_h := f', semd_table := sm'\<rparr>)
       (requeue as j a q' bs) (if q' = [] then j # fr else fr)"
    using take_queue [OF r h1] by blast
  have "p \<notin> set (queue_at (requeue as j a q' bs) b)" for b
  proof
    assume "p \<in> set (queue_at (requeue as j a q' bs) b)"
    then have pb: "p \<in> set (((queue_at (as @ bs))(a := q')) b)"
      using requeue_at [OF semd_struct_distinct(2) [OF st]] by simp
    then have "b \<noteq> a" using p(1) by (auto split: if_splits)
    then have "p \<in> set (queue_at (as @ (j, a, q) # bs) b)"
      using pb queue_at_insert [OF semd_struct_distinct(4) [OF st], of j q bs] by simp
    then have "p_semAdd (pcbs s p) = b" using asl_rep_queue [OF r] by blast
    moreover have "p_semAdd (pcbs s p) = a" using r p(2) by (simp add: asl_rep_def)
    ultimately show False using \<open>b \<noteq> a\<close> by simp
  qed
  then have "asl_rep (s\<lparr>pcbs := h1, semdFree_h := f', semd_table := sm'\<rparr>\<lparr>pcbs := h1(p := (h1 p)\<lparr>p_semAdd := 0\<rparr>)\<rparr>)
       (requeue as j a q' bs) (if q' = [] then j # fr else fr)"
    by (intro asl_rep_pcbs [OF r']) (auto simp: same_queue_fields_def)
  with f show ?thesis by (intro exI [of _ sm'] exI [of _ f']) simp
qed

subsection \<open>The operations on the abstract map\<close>

text \<open>
  \<open>asl_step s s' p v S\<close>: the step changed the descriptors, gave \<open>p\<close> the semaphore
  address \<open>v\<close>, and otherwise at most queue links of elements of \<open>S\<close>.
\<close>

definition asl_step :: "'a asl_state_scheme \<Rightarrow> 'a asl_state_scheme \<Rightarrow> nat \<Rightarrow> u32 \<Rightarrow> nat set \<Rightarrow> bool" where
  "asl_step s s' p v S \<longleftrightarrow>
     s' = s\<lparr>semdFree_h := semdFree_h s', semd_table := semd_table s', pcbs := pcbs s'\<rparr> \<and>
     links_only ((pcbs s)(p := (pcbs s p)\<lparr>p_semAdd := v\<rparr>)) (pcbs s') S"

lemma asl_step_alloc: "asl_step s s' p v S \<Longrightarrow> pcbFree_h s' = pcbFree_h s \<and> processCount s' = processCount s"
proof -
  assume "asl_step s s' p v S"
  then have e: "s' = s\<lparr>semdFree_h := semdFree_h s', semd_table := semd_table s', pcbs := pcbs s'\<rparr>"
    by (simp add: asl_step_def)
  show ?thesis by (rule conjI; subst e; simp)
qed

lemma links_only_semAdd:
  assumes "links_only h h1 S" and "p \<in> S"
  shows "links_only (h(p := (h p)\<lparr>p_semAdd := v\<rparr>)) (h1(p := (h1 p)\<lparr>p_semAdd := v\<rparr>)) S"
proof -
  have "pcb_data ((h1 p)\<lparr>p_semAdd := v\<rparr>) = pcb_data ((h p)\<lparr>p_semAdd := v\<rparr>)"
    using links_only_data [OF assms(1), of p] by (cases "h p"; cases "h1 p") (simp add: pcb_data_def)
  with assms show ?thesis by (auto simp: links_only_def)
qed

lemma asl_rep_at:
  assumes r: "asl_rep s ls fr" and ne: "queue_at ls a \<noteq> []"
  shows "\<exists>as j bs. ls = as @ (j, a, queue_at ls a) # bs"
proof -
  obtain j q where m: "(j, a, q) \<in> set ls" using queue_at_absent [of a ls] ne by fastforce
  moreover have "queue_at ls a = q" using queue_at_mem [OF asl_rep_distinct_keys [OF r] m] .
  ultimately show ?thesis by (metis split_list)
qed

lemma asl_unqueued: "asl_rep s ls fr \<Longrightarrow> (\<And>a. p \<notin> set (queue_at ls a)) \<Longrightarrow> unqueued p ls"
proof (unfold unqueued_def, intro ballI)
  fix n assume "asl_rep s ls fr" and np: "\<And>a. p \<notin> set (queue_at ls a)" and "n \<in> set ls"
  then have "queue_at ls (skey n) = squeue n"
    using queue_at_mem [OF asl_rep_distinct_keys, of s ls fr "sidx n" "skey n" "squeue n"] by simp
  with np show "p \<notin> set (squeue n)" by metis
qed

lemma asl_rep_struct: "asl_rep s ls fr \<Longrightarrow> semd_struct (semd_table s) (semdFree_h s) ls fr"
  by (simp add: asl_rep_def)

lemma insertBlocked_refines:
  assumes A: "asl s B" and p: "\<And>k. p \<notin> set (B k)" and a: "a \<noteq> MAXADD"
    and room: "B a \<noteq> [] \<or> semdFree_h s \<noteq> None"
  shows "\<exists>s'. insertBlocked a (Some p) s = Some (False, s') \<and> asl s' (B(a := B a @ [p])) \<and>
     asl_step s s' p a (insert p (set (B a)))"
proof -
  obtain ls fr where r: "asl_rep s ls fr" and B: "B = queue_at ls" using A by (auto simp: asl_def)
  have u: "unqueued p ls" using asl_unqueued [OF r] p B by simp
  show ?thesis
  proof (cases "B a = []")
    case False
    then obtain as j bs where ls: "ls = as @ (j, a, B a) # bs" using asl_rep_at [OF r] B by metis
    have r': "asl_rep s (as @ (j, a, B a) # bs) fr" and u': "unqueued p (as @ (j, a, B a) # bs)"
      using r u ls by simp_all
    have k: "a \<notin> skey ` set as" using semd_struct_distinct(4) [OF asl_rep_struct [OF r']] .
    have "queue_at (as @ (j, a, B a @ [p]) # bs) = B(a := B a @ [p])"
      using queue_at_insert [OF k, of j _ bs] ls B by (metis fun_upd_upd)
    with insertBlocked_present [OF r' u'] show ?thesis
      by (auto simp: asl_def asl_step_def intro!: exI [of _ "as @ (j, a, B a @ [p]) # bs"])
  next
    case True
    have new: "a \<notin> skey ` set ls"
      using True B asl_rep_keys [OF r] by auto
    obtain as bs where ls: "ls = as @ bs" and c: "cut_at a as bs" using cut_exists by blast
    obtain f fr' where fr: "fr = f # fr'"
      using room True asl_rep_struct [OF r] by (cases fr) (auto simp: semd_struct_def)
    have r': "asl_rep s (as @ bs) (f # fr')" and u': "unqueued p (as @ bs)" "a \<notin> skey ` set (as @ bs)"
      using r u new ls fr by simp_all
    have "a \<notin> skey ` set as" using u'(2) by auto
    from queue_at_insert [OF this, of f "[p]" bs]
    have "queue_at (as @ (f, a, [p]) # bs) = B(a := B a @ [p])" using True ls B by simp
    with insertBlocked_new [OF r' c u'(2) a u'(1)] True show ?thesis
      by (auto simp: asl_def asl_step_def intro!: exI [of _ "as @ (f, a, [p]) # bs"])
  qed
qed

lemma insertBlocked_no_room:
  assumes A: "asl s B" and a: "a \<noteq> MAXADD" and full: "B a = []" "semdFree_h s = None"
  shows "insertBlocked a (Some p) s = Some (True, s)"
proof -
  obtain ls fr where r: "asl_rep s ls fr" and B: "B = queue_at ls" using A by (auto simp: asl_def)
  have "fr = []" using full(2) asl_rep_struct [OF r] by (simp add: semd_struct_def)
  moreover have "a \<notin> skey ` set ls" using full(1) B asl_rep_keys [OF r] by auto
  ultimately show ?thesis using insertBlocked_full r a by blast
qed

lemma removeBlocked_refines:
  assumes A: "asl s B" and Ba: "B a = p # q"
  shows "\<exists>s'. removeBlocked a s = Some (Some p, s') \<and> asl s' (B(a := q)) \<and>
     asl_step s s' p 0 (set (B a))"
proof -
  obtain ls fr where r: "asl_rep s ls fr" and B: "B = queue_at ls" using A by (auto simp: asl_def)
  obtain as j bs where ls: "ls = as @ (j, a, p # q) # bs" using asl_rep_at [OF r, of a] B Ba by auto
  have r': "asl_rep s (as @ (j, a, p # q) # bs) fr" using r ls by simp
  note st = asl_rep_struct [OF r']
  let ?L = "last (0 # map sidx as)" and ?sm = "semd_table s"
  have f: "findSemInActiveList a s = Some (Some ?L)" "s_next (?sm ?L) = Some j" "s_semAdd (?sm j) = a"
    using find_cut [OF semd_struct_path [OF st] cut_at_key [OF st]] r
      semd_struct_keys [OF st, of "(j, a, p # q)"]
    by (simp_all add: findSemInActiveList_def asl_rep_def)
  have pq: "procq (pcbs s) (s_procQ (?sm j)) (p # q)" using r' by (simp add: asl_rep_def)
  then obtain h1 where h1: "removeProcQ (s_procQ (?sm j)) (pcbs s) = Some (Some p, tail_ptr q, h1)"
    "procq h1 (tail_ptr q) q" "links_only (pcbs s) h1 (set (p # q))"
    using removeProcQ_refines by blast
  have sub: "set q \<subseteq> set (p # q)" "p \<notin> set q" "p \<in> set (p # q)" using pq by (auto simp: procq_def)
  then obtain sm' f' where t: "freeIfEmpty (Some ?L) (s\<lparr>pcbs := h1,
         semd_table := ?sm(j := (?sm j)\<lparr>s_procQ := tail_ptr q\<rparr>)\<rparr>) =
       Some (s\<lparr>pcbs := h1, semdFree_h := f', semd_table := sm'\<rparr>)"
    "asl_rep (s\<lparr>semdFree_h := f', semd_table := sm', pcbs := h1(p := (h1 p)\<lparr>p_semAdd := 0\<rparr>)\<rparr>)
       (requeue as j a q bs) (if q = [] then j # fr else fr)"
    using take_queue_clear [OF r' h1(3,2) sub] by blast
  let ?s' = "s\<lparr>semdFree_h := f', semd_table := sm', pcbs := h1(p := (h1 p)\<lparr>p_semAdd := 0\<rparr>)\<rparr>"
  have "removeBlocked a s = Some (Some p, ?s')"
    using f h1(1) t(1) by (simp add: removeBlocked_def del: last.simps)
  moreover have "queue_at (requeue as j a q bs) = B(a := q)"
    using requeue_at [OF semd_struct_distinct(2) [OF st]]
      queue_at_insert [OF semd_struct_distinct(4) [OF st], of j "p # q" bs] ls B by simp
  moreover have "asl_step s ?s' p 0 (set (B a))"
    using links_only_semAdd [OF h1(3), of p 0] Ba by (simp add: asl_step_def)
  ultimately show ?thesis using t(2) by (auto simp: asl_def)
qed

lemma removeBlocked_empty:
  assumes A: "asl s B" and Ba: "B a = []" and a: "a \<noteq> MAXADD"
  shows "removeBlocked a s = Some (None, s)"
proof -
  obtain ls fr where r: "asl_rep s ls fr" and B: "B = queue_at ls" using A by (auto simp: asl_def)
  have new: "a \<notin> skey ` set ls" using Ba B asl_rep_keys [OF r] by auto
  obtain as bs where ls: "ls = as @ bs" and c: "cut_at a as bs" using cut_exists by blast
  have st: "semd_struct (semd_table s) (semdFree_h s) (as @ bs) fr" and hd: "semd_h s = Some 0"
    using r ls by (auto simp: asl_rep_def)
  let ?n = "hd (map sidx bs @ [1])"
  have "s_semAdd (semd_table s ?n) \<noteq> a"
    using new a ls semd_struct_keys [OF st] st by (cases bs) (auto simp: semd_struct_def)
  then show ?thesis using find_cut [OF semd_struct_path [OF st] c] hd
    by (simp add: removeBlocked_def findSemInActiveList_def del: last.simps)
qed

lemma outBlocked_refines:
  assumes A: "asl s B" and p: "p \<in> set (B a)"
  shows "\<exists>s'. outBlocked (Some p) s = Some (Some p, s') \<and> asl s' (B(a := remove1 p (B a))) \<and>
     asl_step s s' p 0 (set (B a))"
proof -
  obtain ls fr where r: "asl_rep s ls fr" and B: "B = queue_at ls" using A by (auto simp: asl_def)
  have "B a \<noteq> []" using p by auto
  then obtain as j bs where ls: "ls = as @ (j, a, B a) # bs" using asl_rep_at [OF r, of a] B by auto
  have r': "asl_rep s (as @ (j, a, B a) # bs) fr" using r ls by simp
  note st = asl_rep_struct [OF r']
  let ?L = "last (0 # map sidx as)" and ?sm = "semd_table s" and ?q = "remove1 p (B a)"
  have pa: "p_semAdd (pcbs s p) = a" using asl_queue [OF A p] .
  have f: "findSemInActiveList a s = Some (Some ?L)" "s_next (?sm ?L) = Some j"
    using find_cut [OF semd_struct_path [OF st] cut_at_key [OF st]] r
    by (simp_all add: findSemInActiveList_def asl_rep_def)
  have pq: "procq (pcbs s) (s_procQ (?sm j)) (B a)" using r' by (simp add: asl_rep_def)
  then obtain h1 where h1: "outProcQ (s_procQ (?sm j)) (Some p) (pcbs s) = Some (Some p, tail_ptr ?q, h1)"
    "procq h1 (tail_ptr ?q) ?q" "links_only (pcbs s) h1 (set (B a))"
    using outProcQ_refines p by blast
  have sub: "set ?q \<subseteq> set (B a)" "p \<notin> set ?q"
    using pq by (auto simp: procq_def set_remove1_subset)
  then obtain sm' f' where t: "freeIfEmpty (Some ?L) (s\<lparr>pcbs := h1,
         semd_table := ?sm(j := (?sm j)\<lparr>s_procQ := tail_ptr ?q\<rparr>)\<rparr>) =
       Some (s\<lparr>pcbs := h1, semdFree_h := f', semd_table := sm'\<rparr>)"
    "asl_rep (s\<lparr>semdFree_h := f', semd_table := sm', pcbs := h1(p := (h1 p)\<lparr>p_semAdd := 0\<rparr>)\<rparr>)
       (requeue as j a ?q bs) (if ?q = [] then j # fr else fr)"
    using take_queue_clear [OF r' h1(3,2) sub p] by blast
  let ?s' = "s\<lparr>semdFree_h := f', semd_table := sm', pcbs := h1(p := (h1 p)\<lparr>p_semAdd := 0\<rparr>)\<rparr>"
  have "outBlocked (Some p) s = Some (Some p, ?s')"
    using f pa h1(1) t(1) by (simp add: outBlocked_def del: last.simps)
  moreover have "queue_at (requeue as j a ?q bs) = B(a := ?q)"
    using requeue_at [OF semd_struct_distinct(2) [OF st]]
      queue_at_insert [OF semd_struct_distinct(4) [OF st], of j "B a" bs] ls B by (metis fun_upd_upd)
  moreover have "asl_step s ?s' p 0 (set (B a))"
    using links_only_semAdd [OF h1(3), of p 0] p by (simp add: asl_step_def)
  ultimately show ?thesis using t(2) by (auto simp: asl_def)
qed

text \<open>The descriptor after the cut: the queue the search ends at.\<close>

lemma find_queue:
  assumes A: "asl s B"
  shows "\<exists>L n q. findSemInActiveList a s = Some (Some L) \<and> s_next (semd_table s L) = Some n \<and>
     procq (pcbs s) (s_procQ (semd_table s n)) q \<and> (q = [] \<or> q = B (s_semAdd (semd_table s n))) \<and>
     (if s_semAdd (semd_table s n) = a \<and> q \<noteq> [] then q = B a else B a = [])"
proof -
  obtain ls fr where r: "asl_rep s ls fr" and B: "B = queue_at ls" using A by (auto simp: asl_def)
  obtain as bs where ls: "ls = as @ bs" and c: "cut_at a as bs" using cut_exists by blast
  have st: "semd_struct (semd_table s) (semdFree_h s) (as @ bs) fr" and hd: "semd_h s = Some 0"
    using r ls by (auto simp: asl_rep_def)
  note f = find_cut [OF semd_struct_path [OF st] c]
  have pres: "a \<in> skey ` set ls \<longleftrightarrow> bs \<noteq> [] \<and> skey (hd bs) = a"
    using cut_present [OF _ c] st ls by (simp add: semd_struct_def)
  have Ba: "B a = [] \<longleftrightarrow> \<not> (bs \<noteq> [] \<and> skey (hd bs) = a)"
    using asl_rep_keys [OF r] B pres by blast
  show ?thesis
  proof (cases bs)
    case Nil
    then show ?thesis using f hd Ba st
      by (intro exI [of _ "last (0 # map sidx as)"] exI [of _ 1] exI [of _ "[]"])
        (simp add: findSemInActiveList_def semd_struct_def)
  next
    case (Cons n bs')
    have n: "n \<in> set ls" "(sidx n, skey n, squeue n) \<in> set ls" using ls Cons by auto
    have q: "squeue n = B (skey n)" "s_semAdd (semd_table s (sidx n)) = skey n"
      using queue_at_mem [OF asl_rep_distinct_keys [OF r] n(2)] B
        semd_struct_keys [OF asl_rep_struct [OF r] n(1)] by simp_all
    have "squeue n \<noteq> []" "procq (pcbs s) (s_procQ (semd_table s (sidx n))) (squeue n)"
      using r n(1) by (auto simp: asl_rep_def sem_queues_def)
    then show ?thesis using f hd Ba q Cons
      by (intro exI [of _ "last (0 # map sidx as)"] exI [of _ "sidx n"] exI [of _ "squeue n"])
        (auto simp: findSemInActiveList_def)
  qed
qed

lemma outBlocked_missing:
  assumes A: "asl s B" and p: "\<And>k. p \<notin> set (B k)"
  shows "outBlocked (Some p) s = Some (None, s)"
proof -
  obtain L n q where f: "findSemInActiveList (p_semAdd (pcbs s p)) s = Some (Some L)"
    "s_next (semd_table s L) = Some n" "procq (pcbs s) (s_procQ (semd_table s n)) q"
    "q = [] \<or> q = B (s_semAdd (semd_table s n))"
    using find_queue [OF A] by metis
  then have "p \<notin> set q" using p by auto
  with f show ?thesis by (simp add: outBlocked_def outProcQ_missing)
qed

lemma headBlocked_refines:
  assumes A: "asl s B"
  shows "headBlocked a s = Some (head_ptr (B a))"
proof -
  obtain L n q where f: "findSemInActiveList a s = Some (Some L)"
    "s_next (semd_table s L) = Some n" "procq (pcbs s) (s_procQ (semd_table s n)) q"
    "if s_semAdd (semd_table s n) = a \<and> q \<noteq> [] then q = B a else B a = []"
    using find_queue [OF A, of a] by metis
  then show ?thesis using emptyProcQ_procq [OF f(3)] headProcQ_refines [OF f(3)]
    by (auto simp: headBlocked_def split: if_splits)
qed

subsection \<open>Initialisation\<close>

lemma initASL_fold:
  "fold initASL_step [2..<2 + n] (sm, None) = (sm', free) \<Longrightarrow>
   free = head_ptr (rev [2..<2 + n]) \<and> slist sm' (rev [2..<2 + n]) \<and>
   (n > 0 \<longrightarrow> s_next (sm' 2) = None) \<and> (\<forall>i. i < 2 \<or> i \<ge> 2 + n \<longrightarrow> sm' i = sm i)"
proof (induction n arbitrary: sm' free)
  case (Suc n)
  obtain sm1 f1 where f: "fold initASL_step [2..<2 + n] (sm, None) = (sm1, f1)" by fastforce
  note IH = Suc.IH [OF f]
  have u: "[2..<2 + Suc n] = [2..<2 + n] @ [2 + n]" by simp
  have "initASL_step (2 + n) (sm1, f1) = (sm', free)"
    using Suc.prems f unfolding u fold_append by simp
  then have step: "sm' = sm1(2 + n := (sm1 (2 + n))\<lparr>s_next := f1\<rparr>)" "free = Some (2 + n)"
    by (auto simp: initASL_step_def Let_def split: if_splits)
  obtain X where X: "X = rev [2..<2 + n]" by blast
  have new: "\<forall>i \<in> set X. i \<noteq> 2 + n" unfolding X set_rev set_upt by auto
  note IH' = IH [folded X]
  have "slist sm' X" using IH' new slist_cong' [of X sm' sm1] step(1) by auto
  then have sl: "slist sm' ((2 + n) # X)" using step(1) IH' by (cases X) auto
  have n2: "s_next (sm' 2) = None" using IH step(1) by (cases n) auto
  have rest: "\<forall>i. i < 2 \<or> i \<ge> 2 + Suc n \<longrightarrow> sm' i = sm i" using IH' step(1) by auto
  have r: "rev [2..<2 + Suc n] = (2 + n) # X" unfolding u X by simp
  show ?case unfolding r using sl n2 rest step(2) by simp
qed simp

lemma initASL_asl: "asl (initASL s) (\<lambda>_. [])"
proof -
  let ?sm0 = "(semd_table s)(0 := \<lparr>s_next = Some 1, s_semAdd = 0, s_procQ = None\<rparr>,
                             1 := \<lparr>s_next = None, s_semAdd = MAXADD, s_procQ = None\<rparr>)"
  obtain sm' free where f: "fold initASL_step [2..<2 + MAXPROC] (?sm0, None) = (sm', free)" by fastforce
  have pos: "0 < MAXPROC" by (simp add: MAXPROC_def)
  note F = initASL_fold [OF f]
  obtain fr where fr: "fr = rev [2..<2 + MAXPROC]" by blast
  have "length fr = MAXPROC" "distinct fr" "0 \<notin> set fr" "1 \<notin> set fr"
    unfolding fr length_rev length_upt distinct_rev set_rev set_upt by auto
  moreover from this have "fr \<noteq> []" using pos by auto
  moreover have "last fr = 2" unfolding fr using pos by (subst last_rev) (rule hd_upt, simp)
  moreover have "sm' 0 = ?sm0 0" "sm' 1 = ?sm0 1" using F by auto
  ultimately have "semd_struct sm' free [] fr"
    using F [folded fr] pos by (simp add: semd_struct_def)
  moreover have "initASL s = s\<lparr>semd_table := sm', semdFree_h := free, semd_h := Some 0\<rparr>"
    using f unfolding initASL_def mkEmptyProcQ_def Let_def by (simp only: add.commute prod.case)
  ultimately have "asl_rep (initASL s) [] fr"
    by (simp add: asl_rep_def)
  then show ?thesis unfolding asl_def by (intro exI conjI) (auto simp: fun_eq_iff)
qed

text \<open>Writes that touch neither the descriptors nor a queue keep the abstraction.\<close>

lemma asl_frame [frame_intros]:
  assumes "asl s B" and "semd_h s' = semd_h s" "semdFree_h s' = semdFree_h s"
    "semd_table s' = semd_table s"
    and "\<And>a x. x \<in> set (B a) \<Longrightarrow> same_queue_fields (pcbs s) (pcbs s') x"
  shows "asl s' B"
proof -
  obtain ls fr where r: "asl_rep s ls fr" and B: "B = queue_at ls" using assms(1) by (auto simp: asl_def)
  have "asl_rep (s\<lparr>pcbs := pcbs s'\<rparr>) ls fr" using asl_rep_pcbs [OF r] assms(5) B by blast
  then have "asl_rep s' ls fr" using assms(2-4) by (simp add: asl_rep_def)
  then show ?thesis using B by (auto simp: asl_def)
qed

subsection \<open>The pool of descriptors\<close>

definition semd_pool :: "'a asl_state_scheme \<Rightarrow> nat list \<Rightarrow> bool" where
  "semd_pool s fr \<longleftrightarrow> semdFree_h s = head_ptr fr \<and> slist (semd_table s) fr \<and> distinct fr \<and>
     (fr \<noteq> [] \<longrightarrow> s_next (semd_table s (last fr)) = None)"

lemma asl_rep_pool: "asl_rep s ls fr \<Longrightarrow> semd_pool s fr"
  by (auto simp: asl_rep_def semd_struct_def semd_pool_def)

lemma semd_pool_Cons:
  "semd_pool s (j # fr) \<longleftrightarrow> semdFree_h s = Some j \<and> s_next (semd_table s j) = head_ptr fr \<and> j \<notin> set fr \<and>
     slist (semd_table s) fr \<and> distinct fr \<and> (fr \<noteq> [] \<longrightarrow> s_next (semd_table s (last fr)) = None)"
  by (cases fr) (auto simp: semd_pool_def)

interpretation semdpool: resource_pool semd_pool newSemd "\<lambda>j. freeSemd (Some j)" "\<lambda>fr j. j # fr" "\<lambda>_. True"
proof
  fix s :: "'a asl_state_scheme" and j fr
  show "newSemd s = Some (None, s)" if "semd_pool s []" using that by (simp add: newSemd_def semd_pool_def)
  show "\<exists>s'. newSemd s = Some (Some j, s') \<and> semd_pool s' fr" if p: "semd_pool s (j # fr)"
  proof -
    let ?sm = "(semd_table s)(j := (semd_table s j)\<lparr>s_next := None, s_procQ := mkEmptyProcQ, s_semAdd := 0\<rparr>)"
    have "slist ?sm fr = slist (semd_table s) fr"
      by (rule slist_cong') (use p in \<open>auto simp: semd_pool_Cons\<close>)
    moreover have "s_next (?sm (last fr)) = s_next (semd_table s (last fr))" if "fr \<noteq> []"
      using p last_in_set [OF that] by (auto simp: semd_pool_Cons)
    ultimately have "semd_pool (s\<lparr>semdFree_h := head_ptr fr, semd_table := ?sm\<rparr>) fr"
      using p by (simp add: semd_pool_Cons) (simp add: semd_pool_def)
    then show ?thesis using p by (simp add: newSemd_def semd_pool_Cons)
  qed
  show "\<exists>s'. freeSemd (Some j) s = Some s' \<and> semd_pool s' (j # fr)" if p: "semd_pool s fr" "j \<notin> set fr"
  proof -
    let ?sm = "(semd_table s)(j := (semd_table s j)\<lparr>s_next := head_ptr fr\<rparr>)"
    have "slist ?sm fr = slist (semd_table s) fr" by (rule slist_cong') (use p in auto)
    moreover have "s_next (?sm (last fr)) = s_next (semd_table s (last fr))" if "fr \<noteq> []"
      using p(2) last_in_set [OF that] by auto
    ultimately have "semd_pool (s\<lparr>semdFree_h := Some j, semd_table := ?sm\<rparr>) (j # fr)"
      using p by (simp add: semd_pool_Cons) (simp add: semd_pool_def)
    then show ?thesis using p by (cases fr) (simp_all add: freeSemd_def semd_pool_def)
  qed
  show "distinct fr" if "semd_pool s fr" using that by (simp add: semd_pool_def)
qed simp_all

subsection \<open>Histories of the list\<close>

text \<open>
  There is always a descriptor for a process of the table that is not blocked: every
  descriptor in use holds at least one other process of the table.
\<close>

lemma asl_room:
  assumes A: "asl s B" and sub: "\<And>a. set (B a) \<subseteq> {0..<MAXPROC} - {c}" and c: "c < MAXPROC"
  shows "semdFree_h s \<noteq> None"
proof -
  let ?A = "{a. B a \<noteq> []}"
  have "inj_on (\<lambda>a. hd (B a)) ?A"
  proof (rule inj_onI)
    fix a b assume ab: "a \<in> ?A" "b \<in> ?A" "hd (B a) = hd (B b)"
    then have "hd (B a) \<in> set (B a)" "hd (B a) \<in> set (B b)"
      by (metis (mono_tags) hd_in_set mem_Collect_eq)+
    then show "a = b" by (rule asl_disjoint [OF A])
  qed
  then have "card ?A = card ((\<lambda>a. hd (B a)) ` ?A)" by (simp add: card_image)
  also have "\<dots> \<le> card ({0..<MAXPROC} - {c})"
  proof (rule card_mono)
    show "(\<lambda>a. hd (B a)) ` ?A \<subseteq> {0..<MAXPROC} - {c}"
    proof
      fix y assume "y \<in> (\<lambda>a. hd (B a)) ` ?A"
      then obtain a where "B a \<noteq> []" "y = hd (B a)" by auto
      then have "y \<in> set (B a)" by simp
      then show "y \<in> {0..<MAXPROC} - {c}" using sub by blast
    qed
  qed simp
  also have "\<dots> < MAXPROC" using c by simp
  finally show ?thesis using asl_full(3) [OF A] by simp
qed

datatype sem_op = Block u32 nat | Wake u32 | Unblock nat

fun asl_history :: "sem_op list \<Rightarrow> 'a asl_state_scheme \<Rightarrow> (pcb_ptr list \<times> 'a asl_state_scheme) option" where
  "asl_history [] s = Some ([], s)"
| "asl_history (Block a p # ops) s = do {
     (full, s) \<leftarrow> insertBlocked a (Some p) s;
     (rs, s) \<leftarrow> asl_history ops s;
     Some ((if full then Some p else None) # rs, s)
   }"
| "asl_history (Wake a # ops) s = do {
     (r, s) \<leftarrow> removeBlocked a s;
     (rs, s) \<leftarrow> asl_history ops s;
     Some (r # rs, s)
   }"
| "asl_history (Unblock p # ops) s = do {
     (r, s) \<leftarrow> outBlocked (Some p) s;
     (rs, s) \<leftarrow> asl_history ops s;
     Some (r # rs, s)
   }"

fun asl_ideal :: "sem_op list \<Rightarrow> (u32 \<Rightarrow> nat list) \<Rightarrow> pcb_ptr list \<Rightarrow> (u32 \<Rightarrow> nat list) \<Rightarrow> bool" where
  "asl_ideal [] B rs B' \<longleftrightarrow> rs = [] \<and> B' = B"
| "asl_ideal (Block a p # ops) B rs B' \<longleftrightarrow> a \<noteq> MAXADD \<and> p < MAXPROC \<and> (\<forall>b. p \<notin> set (B b)) \<and>
     (\<exists>rs'. rs = None # rs' \<and> asl_ideal ops (B(a := B a @ [p])) rs' B')"
| "asl_ideal (Wake a # ops) B rs B' \<longleftrightarrow> a \<noteq> MAXADD \<and>
     (\<exists>rs'. rs = head_ptr (B a) # rs' \<and> asl_ideal ops (B(a := tl (B a))) rs' B')"
| "asl_ideal (Unblock p # ops) B rs B' \<longleftrightarrow>
     (\<exists>rs'. rs = (if \<exists>b. p \<in> set (B b) then Some p else None) # rs' \<and>
        asl_ideal ops (\<lambda>b. remove1 p (B b)) rs' B')"

text \<open>The answers of removeBlocked and outBlocked in every case.\<close>

lemma removeBlocked_answer:
  assumes "asl s B" and "a \<noteq> MAXADD"
  shows "\<exists>s1. removeBlocked a s = Some (head_ptr (B a), s1) \<and> asl s1 (B(a := tl (B a)))"
proof (cases "B a")
  case Nil
  then have "B(a := tl (B a)) = B" by auto
  then show ?thesis using removeBlocked_empty [OF assms(1) Nil assms(2)] assms(1) Nil by simp
next
  case (Cons c q)
  then show ?thesis using removeBlocked_refines [OF assms(1) Cons] by auto
qed

lemma outBlocked_answer:
  assumes "asl s B"
  shows "\<exists>s1. outBlocked (Some p) s = Some (if \<exists>b. p \<in> set (B b) then Some p else None, s1) \<and>
    asl s1 (\<lambda>b. remove1 p (B b))"
proof (cases "\<exists>b. p \<in> set (B b)")
  case True
  then obtain a where a: "p \<in> set (B a)" by blast
  have "p \<notin> set (B b)" if "b \<noteq> a" for b using asl_disjoint [OF assms a, of b] that by auto
  then have "remove1 p (B b) = B b" if "b \<noteq> a" for b using that by (simp add: remove1_idem)
  then have "(\<lambda>b. remove1 p (B b)) = B(a := remove1 p (B a))" by auto
  then show ?thesis using outBlocked_refines [OF assms a] True by auto
next
  case False
  then have "(\<lambda>b. remove1 p (B b)) = B" by (auto simp: remove1_idem)
  then show ?thesis using outBlocked_missing [OF assms, of p] False assms by simp
qed

text \<open>
  C21: The active semaphore list behaves as a map from semaphore addresses to queues.  In
  every history of insertBlocked, removeBlocked and outBlocked in which a process of the
  table is blocked only when it is not blocked already, no call faults or loops, a
  descriptor is always available, every answer is that of the map of queues and the final
  list represents the final map.
\<close>

theorem asl_history_refines:
  assumes "asl s B" and "\<And>a. set (B a) \<subseteq> {0..<MAXPROC}" and "asl_ideal ops B rs B'"
  shows "\<exists>s'. asl_history ops s = Some (rs, s') \<and> asl s' B'"
  using assms
proof (induction ops arbitrary: s B rs)
  case (Cons x ops)
  show ?case
  proof (cases x)
    case (Block a p)
    then obtain rs' where p: "a \<noteq> MAXADD" "p < MAXPROC" "\<And>b. p \<notin> set (B b)" "rs = None # rs'"
      "asl_ideal ops (B(a := B a @ [p])) rs' B'" using Cons.prems(3) by auto
    have "set (B b) \<subseteq> {0..<MAXPROC} - {p}" for b using Cons.prems(2) p(3) by auto
    then have "semdFree_h s \<noteq> None" using asl_room [OF Cons.prems(1) _ p(2)] by blast
    then obtain s1 where s1: "insertBlocked a (Some p) s = Some (False, s1)" "asl s1 (B(a := B a @ [p]))"
      using insertBlocked_refines [OF Cons.prems(1) p(3,1)] by blast
    have "set ((B(a := B a @ [p])) b) \<subseteq> {0..<MAXPROC}" for b using Cons.prems(2) p(2) by simp
    from Cons.IH [OF s1(2) this p(5)] show ?thesis using s1(1) Block p(4) by auto
  next
    case (Wake a)
    then obtain rs' where p: "a \<noteq> MAXADD" "rs = head_ptr (B a) # rs'" "asl_ideal ops (B(a := tl (B a))) rs' B'"
      using Cons.prems(3) by auto
    obtain s1 where s1: "removeBlocked a s = Some (head_ptr (B a), s1)" "asl s1 (B(a := tl (B a)))"
      using removeBlocked_answer [OF Cons.prems(1) p(1)] by blast
    have "set ((B(a := tl (B a))) b) \<subseteq> {0..<MAXPROC}" for b
      using Cons.prems(2) [of b] by (auto dest: in_set_tl)
    from Cons.IH [OF s1(2) this p(3)] show ?thesis using s1(1) Wake p(2) by auto
  next
    case (Unblock p)
    then obtain rs' where p: "rs = (if \<exists>b. p \<in> set (B b) then Some p else None) # rs'"
      "asl_ideal ops (\<lambda>b. remove1 p (B b)) rs' B'" using Cons.prems(3) by auto
    obtain s1 where s1: "outBlocked (Some p) s = Some (if \<exists>b. p \<in> set (B b) then Some p else None, s1)"
      "asl s1 (\<lambda>b. remove1 p (B b))" using outBlocked_answer [OF Cons.prems(1), of p] by blast
    have "set (remove1 p (B b)) \<subseteq> {0..<MAXPROC}" for b
      using Cons.prems(2) [of b] set_remove1_subset [of p "B b"] by blast
    from Cons.IH [OF s1(2) this p(2)] show ?thesis using s1(1) Unblock p(1) by auto
  qed
qed simp

definition asl_example :: asl_state where
  "asl_example = initASL \<lparr>pcbs = (\<lambda>_. zero_pcb), pcbFree_h = None, processCount = 0,
     semd_table = (\<lambda>_. zero_semd), semdFree_h = None, semd_h = None\<rparr>"

theorem asl_history_witness:
  "\<exists>s'. asl_history [Block 8 3, Block 4 1, Block 8 2, Wake 8, Unblock 1, Wake 4, Block 4 3, Wake 8] asl_example =
     Some ([None, None, None, Some 3, Some 1, None, None, Some 2], s') \<and>
     asl s' ((\<lambda>_. [])(4 := [3]))"
proof -
  let ?ops = "[Block 8 3, Block 4 1, Block 8 2, Wake 8, Unblock 1, Wake 4, Block 4 3, Wake 8]"
  have "asl_ideal ?ops (\<lambda>_. []) [None, None, None, Some 3, Some 1, None, None, Some 2] ((\<lambda>_. [])(4 := [3]))"
    by (simp add: MAXADD_def MAXPROC_def fun_eq_iff) (rule exI [of _ 4], simp)
  from asl_history_refines [OF initASL_asl _ this] show ?thesis by (simp add: asl_example_def)
qed

text \<open>
  initASL leaves an empty list with all MAXPROC descriptors free: the descriptors
  can be taken one after the other, and the request after the last one is refused.
\<close>

theorem initASL_pool:
  "\<exists>fr. semd_pool (initASL s) fr \<and> length fr = MAXPROC \<and> asl (initASL s) (\<lambda>_. []) \<and>
     (\<exists>s'. alloc_many newSemd (Suc MAXPROC) (initASL s) = Some (map Some fr @ [None], s'))"
proof -
  obtain ls fr where r: "asl_rep (initASL s) ls fr" and e: "(\<lambda>_. []) = queue_at ls"
    using initASL_asl [of s] by (auto simp: asl_def)
  have "skey ` set ls = {}" using asl_rep_keys [OF r] e by (metis (mono_tags, lifting) empty_Collect_eq)
  then have "length fr = MAXPROC" using asl_rep_struct [OF r] by (simp add: semd_struct_def)
  moreover have "semd_pool (initASL s) fr" by (rule asl_rep_pool [OF r])
  ultimately show ?thesis
    using semdpool.drain [of "initASL s" fr 1] initASL_asl [of s] by auto
qed

end
