(* ===== verification/Pcb_Tree.thy ===== *)
theory Pcb_Tree
  imports Pcb_Queue
begin

text \<open>
  The process tree of \<open>src/pcb.c\<close>.  A process points with \<open>p_child\<close> to the first of its
  children, which form a doubly linked list ended by \<open>NULL\<close> on both sides; every child
  points to its parent.  \<open>kids h r xs\<close> is the abstraction: the children of \<open>r\<close> are
  \<open>xs\<close>, oldest first.  \<open>insertChild\<close> and \<open>removeChild\<close> keep it; \<open>outChild\<close> keeps
  it only when it takes out the last child, which the last section makes precise.
\<close>

subsection \<open>The operations\<close>

definition emptyChild :: "pcb_ptr \<Rightarrow> pcb_heap \<Rightarrow> bool option" where
  "emptyChild p h = do { x \<leftarrow> load h p; Some (p_child x = None) }"

text \<open>\<open>while (iter->p_next_sib != NULL) iter = iter->p_next_sib\<close>.\<close>

partial_function (option) lastSibling :: "pcb_ptr \<Rightarrow> pcb_heap \<Rightarrow> pcb_ptr option" where
  "lastSibling iter h = do {
     x \<leftarrow> load h iter;
     if p_next_sib x \<noteq> None then lastSibling (p_next_sib x) h else Some iter
   }"

definition insertChild :: "pcb_ptr \<Rightarrow> pcb_ptr \<Rightarrow> pcb_heap \<Rightarrow> pcb_heap option" where
  "insertChild prnt p h = do {
     h \<leftarrow> store p (\<lambda>y. y\<lparr>p_prnt := prnt\<rparr>) h;
     h \<leftarrow> store p (\<lambda>y. y\<lparr>p_next_sib := None\<rparr>) h;
     e \<leftarrow> emptyChild prnt h;
     if e then do {
       h \<leftarrow> store prnt (\<lambda>y. y\<lparr>p_child := p\<rparr>) h;
       store p (\<lambda>y. y\<lparr>p_prev_sib := None\<rparr>) h
     } else do {
       x \<leftarrow> load h prnt;
       iter \<leftarrow> lastSibling (p_child x) h;
       h \<leftarrow> store iter (\<lambda>y. y\<lparr>p_next_sib := p\<rparr>) h;
       store p (\<lambda>y. y\<lparr>p_prev_sib := iter\<rparr>) h
     }
   }"

definition unlinkChild :: "pcb_ptr \<Rightarrow> pcb_heap \<Rightarrow> (pcb_ptr \<times> pcb_heap) option" where
  "unlinkChild p h = do {
     h \<leftarrow> store p (\<lambda>y. y\<lparr>p_prnt := None\<rparr>) h;
     x \<leftarrow> load h p;
     h \<leftarrow> (if p_prev_sib x \<noteq> None then do {
             h \<leftarrow> store (p_prev_sib x) (\<lambda>y. y\<lparr>p_next_sib := p_next_sib x\<rparr>) h;
             store p (\<lambda>y. y\<lparr>p_prev_sib := None\<rparr>) h
           } else Some h);
     x \<leftarrow> load h p;
     h \<leftarrow> (if p_next_sib x \<noteq> None then do {
             h \<leftarrow> store (p_next_sib x) (\<lambda>y. y\<lparr>p_prev_sib := p_prev_sib x\<rparr>) h;
             store p (\<lambda>y. y\<lparr>p_next_sib := None\<rparr>) h
           } else Some h);
     Some (p, h)
   }"

definition removeChild :: "pcb_ptr \<Rightarrow> pcb_heap \<Rightarrow> (pcb_ptr \<times> pcb_heap) option" where
  "removeChild p h = do {
     e \<leftarrow> emptyChild p h;
     if e then Some (None, h)
     else do {
       x \<leftarrow> load h p;
       let child = p_child x;
       c \<leftarrow> load h child;
       h \<leftarrow> store p (\<lambda>y. y\<lparr>p_child := p_next_sib c\<rparr>) h;
       (r, h) \<leftarrow> unlinkChild child h;
       Some (child, h)
     }
   }"

definition outChild :: "pcb_ptr \<Rightarrow> pcb_heap \<Rightarrow> (pcb_ptr \<times> pcb_heap) option" where
  "outChild p h = do {
     x \<leftarrow> load h p;
     if p_prnt x = None then Some (None, h)
     else do {
       r \<leftarrow> load h (p_prnt x);
       h \<leftarrow> (if p_child r = p
             then store (p_prnt x) (\<lambda>y. y\<lparr>p_child := p_prev_sib x\<rparr>) h
             else Some h);
       (q, h) \<leftarrow> unlinkChild p h;
       Some (p, h)
     }
   }"

subsection \<open>The abstraction\<close>

abbreviation nsib :: "pcb_heap \<Rightarrow> nat \<Rightarrow> pcb_ptr" where "nsib h x \<equiv> p_next_sib (h x)"
abbreviation psib :: "pcb_heap \<Rightarrow> nat \<Rightarrow> pcb_ptr" where "psib h x \<equiv> p_prev_sib (h x)"

definition kids :: "pcb_heap \<Rightarrow> nat \<Rightarrow> nat list \<Rightarrow> bool" where
  "kids h r xs \<longleftrightarrow> distinct (r # xs) \<and> p_child (h r) = head_ptr xs \<and>
     chained (nsib h) (psib h) xs \<and>
     (xs \<noteq> [] \<longrightarrow> psib h (hd xs) = None \<and> nsib h (last xs) = None) \<and>
     (\<forall>x \<in> set xs. p_prnt (h x) = Some r)"

text \<open>
  \<open>tree_only h h' S\<close>: \<open>h'\<close> differs from \<open>h\<close> at most in the tree fields of the
  elements of \<open>S\<close>.
\<close>

definition pcb_core :: "pcb_t \<Rightarrow> pcb_t" where
  "pcb_core x = x\<lparr>p_prnt := None, p_child := None, p_next_sib := None, p_prev_sib := None\<rparr>"

definition tree_only :: "pcb_heap \<Rightarrow> pcb_heap \<Rightarrow> nat set \<Rightarrow> bool" where
  "tree_only h h' S \<longleftrightarrow>
     (\<forall>x. pcb_core (h' x) = pcb_core (h x) \<and> (x \<notin> S \<longrightarrow> h' x = h x))"

lemma tree_only_refl [simp]: "tree_only h h S"
  by (simp add: tree_only_def)

lemma tree_only_outside: "tree_only h h' S \<Longrightarrow> x \<notin> S \<Longrightarrow> h' x = h x"
  by (simp add: tree_only_def)

lemma tree_only_trans: "tree_only h h' S \<Longrightarrow> tree_only h' h'' T \<Longrightarrow> tree_only h h'' (S \<union> T)"
  by (simp add: tree_only_def)

lemma tree_only_mono: "tree_only h h' S \<Longrightarrow> S \<subseteq> T \<Longrightarrow> tree_only h h' T"
  by (auto simp: tree_only_def)

lemma pcb_core_eqD:
  assumes "pcb_core x = pcb_core y"
  shows "p_next x = p_next y" "p_prev x = p_prev y" "p_s x = p_s y" "p_time x = p_time y"
    "p_semAdd x = p_semAdd y" "p_supportStruct x = p_supportStruct y"
  using assms by (cases x; cases y; simp add: pcb_core_def)+

lemma tree_only_core: "tree_only h h' S \<Longrightarrow> pcb_core (h' x) = pcb_core (h x)"
  by (simp add: tree_only_def)

lemmas tree_only_fields = tree_only_core [THEN pcb_core_eqD(1)]
  tree_only_core [THEN pcb_core_eqD(2)] tree_only_core [THEN pcb_core_eqD(3)]
  tree_only_core [THEN pcb_core_eqD(4)] tree_only_core [THEN pcb_core_eqD(5)]
  tree_only_core [THEN pcb_core_eqD(6)]

lemma procq_tree_only [frame_intros]: "procq h tp xs \<Longrightarrow> tree_only h h' S \<Longrightarrow> procq h' tp xs"
  by (rule procq_frame) (auto simp: tree_only_fields)

lemma kids_frame:
  assumes "kids h r xs" and "p_child (h' r) = p_child (h r)"
    and "\<And>x. x \<in> set xs \<Longrightarrow> p_prnt (h' x) = p_prnt (h x)"
    and "\<And>x. x \<in> set xs \<Longrightarrow> nsib h' x = nsib h x" and "\<And>x. x \<in> set xs \<Longrightarrow> psib h' x = psib h x"
  shows "kids h' r xs"
proof -
  have "chained (nsib h') (psib h') xs = chained (nsib h) (psib h) xs"
    by (rule chained_cong) (auto simp: assms(4,5) dest: in_set_butlastD in_set_tl)
  then show ?thesis using assms by (auto simp: kids_def)
qed

lemma kids_links_only [frame_intros]: "kids h r xs \<Longrightarrow> links_only h h' S \<Longrightarrow> kids h' r xs"
  by (rule kids_frame) (auto simp: links_only_fields)

lemma kids_tree_only [frame_intros]:
  "kids h r xs \<Longrightarrow> tree_only h h' S \<Longrightarrow> r \<notin> S \<Longrightarrow> set xs \<inter> S = {} \<Longrightarrow> kids h' r xs"
  by (rule kids_frame) (auto simp: tree_only_outside disjoint_iff)

lemma emptyChild_kids: "kids h r xs \<Longrightarrow> emptyChild (Some r) h = Some (xs = [])"
  by (auto simp: emptyChild_def kids_def)

subsection \<open>insertChild appends, removeChild takes the oldest\<close>

lemma lastSibling_chain:
  assumes "chained (nsib h) pv xs" and "xs \<noteq> []" and "nsib h (last xs) = None"
  shows "lastSibling (Some (hd xs)) h = Some (Some (last xs))"
  using assms
proof (induction xs)
  case (Cons x xs)
  show ?case
  proof (cases "xs = []")
    case True
    with Cons.prems show ?thesis by (simp add: lastSibling.simps)
  next
    case False
    with Cons have "lastSibling (Some (hd xs)) h = Some (Some (last xs))" "nsib h x = Some (hd xs)"
      by (auto simp: chained_Cons linked_def)
    with False show ?thesis by (subst lastSibling.simps) simp
  qed
qed simp

lemma insertChild_refines:
  assumes k: "kids h r xs" and new: "p \<notin> set xs" "p \<noteq> r"
  shows "\<exists>h'. insertChild (Some r) (Some p) h = Some h' \<and> kids h' r (xs @ [p]) \<and>
     tree_only h h' (insert r (insert p (set xs))) \<and> p_child (h' p) = p_child (h p) \<and>
     p_prnt (h' r) = p_prnt (h r) \<and> nsib h' r = nsib h r \<and> psib h' r = psib h r"
proof (cases "xs = []")
  case True
  then show ?thesis using k new
    by (auto simp: insertChild_def emptyChild_def kids_def tree_only_def pcb_core_def)
next
  case False
  let ?t = "last xs"
  let ?h1 = "h(p := (h p)\<lparr>p_prnt := Some r, p_next_sib := None\<rparr>)"
  let ?h2 = "?h1(?t := (?h1 ?t)\<lparr>p_next_sib := Some p\<rparr>)"
  let ?h' = "?h2(p := (?h2 p)\<lparr>p_prev_sib := Some ?t\<rparr>)"
  have pt: "?t \<noteq> p" "r \<noteq> ?t" using new False k by (auto simp: kids_def)
  have ch: "chained (nsib h) (psib h) xs" and end0: "nsib h ?t = None"
    using k False by (auto simp: kids_def)
  have same: "chained (nsib g) (psib g) xs"
    if "\<And>x. x \<noteq> p \<Longrightarrow> x \<noteq> ?t \<Longrightarrow> nsib g x = nsib h x" "\<And>x. x \<noteq> p \<Longrightarrow> psib g x = psib h x" for g
  proof -
    have "x \<noteq> ?t" if "x \<in> set (butlast xs)" for x
      using that k False distinct_last_butlast [of xs] by (auto simp: kids_def)
    then show ?thesis
      using ch chained_cong [of xs "nsib g" "nsib h" "psib g" "psib h"] that new(1) False
      by (metis in_set_butlastD list.set_sel(2))
  qed
  have "lastSibling (Some (hd xs)) ?h1 = Some (Some ?t)"
    by (rule lastSibling_chain [OF same [of ?h1] False]) (use end0 pt in auto)
  then have "insertChild (Some r) (Some p) h = Some ?h'"
    using k new pt False by (simp add: insertChild_def emptyChild_def kids_def head_ptr_def)
  moreover have "kids ?h' r (xs @ [p])"
  proof -
    have "chained (nsib ?h') (psib ?h') xs" by (rule same) auto
    then have "chained (nsib ?h') (psib ?h') (xs @ [p])"
      using False pt by (auto simp: chained_append linked_def)
    moreover have "psib ?h' (hd xs) = None" "p_child (?h' r) = head_ptr (xs @ [p])"
      using k False new pt by (auto simp: kids_def head_ptr_append)
    ultimately show ?thesis using k new pt False by (auto simp: kids_def)
  qed
  moreover have "tree_only h ?h' (insert r (insert p (set xs)))" "p_child (?h' p) = p_child (h p)"
    using False by (auto simp: tree_only_def pcb_core_def)
  moreover have "p_prnt (?h' r) = p_prnt (h r)" "nsib ?h' r = nsib h r" "psib ?h' r = psib h r"
    using pt new(2) by auto
  ultimately show ?thesis by (intro exI [of _ ?h'] conjI)
qed

lemma removeChild_empty: "kids h r [] \<Longrightarrow> removeChild (Some r) h = Some (None, h)"
  by (simp add: removeChild_def emptyChild_def kids_def)

lemma removeChild_refines:
  assumes k: "kids h r (c # xs)"
  shows "\<exists>h'. removeChild (Some r) h = Some (Some c, h') \<and> kids h' r xs \<and>
     p_prnt (h' c) = None \<and> nsib h' c = None \<and> psib h' c = None \<and> p_child (h' c) = p_child (h c) \<and>
     tree_only h h' (insert r (set (c # xs)))"
proof (cases "xs = []")
  case True
  then show ?thesis using k
    by (auto simp: removeChild_def unlinkChild_def emptyChild_def kids_def tree_only_def pcb_core_def)
next
  case False
  let ?n = "hd xs"
  have k': "r \<noteq> c" "c \<notin> set xs" "r \<notin> set xs" "nsib h c = Some ?n" "psib h c = None"
    "psib h ?n = Some c" "p_child (h r) = Some c" "p_prnt (h c) = Some r"
    using k False by (auto simp: kids_def chained_Cons linked_def)
  have ne: "?n \<noteq> c" "?n \<noteq> r" using k' False by (auto dest: hd_in_set)
  let ?h1 = "h(r := (h r)\<lparr>p_child := Some ?n\<rparr>)"
  let ?h2 = "?h1(c := (?h1 c)\<lparr>p_prnt := None\<rparr>)"
  let ?h3 = "?h2(?n := (?h2 ?n)\<lparr>p_prev_sib := None\<rparr>)"
  let ?h' = "?h3(c := (?h3 c)\<lparr>p_next_sib := None\<rparr>)"
  have "removeChild (Some r) h = Some (Some c, ?h')"
    using k' ne by (simp add: removeChild_def unlinkChild_def emptyChild_def)
  moreover have "kids ?h' r xs"
  proof -
    have d: "distinct xs" and c0: "chained (nsib h) (psib h) xs"
      using k False by (auto simp: kids_def chained_Cons)
    have "chained (nsib ?h') (psib ?h') xs = chained (nsib h) (psib h) xs"
    proof (rule chained_cong)
      show "nsib ?h' x = nsib h x" if "x \<in> set (butlast xs)" for x
        using in_set_butlastD [OF that] k' by auto
      show "psib ?h' x = psib h x" if "x \<in> set (tl xs)" for x
        using that k' d False distinct_hd_tl [of xs] by (auto dest: in_set_tl)
    qed
    with c0 show ?thesis using k k' ne False by (auto simp: kids_def head_ptr_def)
  qed
  moreover have "tree_only h ?h' (insert r (set (c # xs)))"
    using False by (auto simp: tree_only_def pcb_core_def)
  ultimately show ?thesis using k' ne by (intro exI [of _ ?h']) auto
qed

subsection \<open>outChild\<close>

lemma outChild_orphan: "p_prnt (h p) = None \<Longrightarrow> outChild (Some p) h = Some (None, h)"
  by (simp add: outChild_def)

text \<open>Taking out the youngest child (which may be the only one) is correct.\<close>

lemma outChild_last:
  assumes k: "kids h r (xs @ [p])"
  shows "\<exists>h'. outChild (Some p) h = Some (Some p, h') \<and> kids h' r xs \<and>
     p_prnt (h' p) = None \<and> nsib h' p = None \<and> psib h' p = None \<and> p_child (h' p) = p_child (h p) \<and>
     p_prnt (h' r) = p_prnt (h r) \<and> nsib h' r = nsib h r \<and> psib h' r = psib h r \<and>
     tree_only h h' (insert r (set (xs @ [p])))"
proof (cases "xs = []")
  case True
  then show ?thesis using k
    by (auto simp: outChild_def unlinkChild_def kids_def tree_only_def pcb_core_def)
next
  case False
  let ?t = "last xs"
  have k': "r \<noteq> p" "p \<notin> set xs" "r \<notin> set xs" "nsib h p = None" "psib h p = Some ?t"
    "p_prnt (h p) = Some r" "p_child (h r) = Some (hd xs)" "chained (nsib h) (psib h) xs"
    using k False by (auto simp: kids_def chained_append linked_def head_ptr_append head_ptr_def)
  have ne: "?t \<noteq> p" "?t \<noteq> r" "hd xs \<noteq> p" using k' False by (auto dest: last_in_set hd_in_set)
  let ?h1 = "h(p := (h p)\<lparr>p_prnt := None\<rparr>)"
  let ?h2 = "?h1(?t := (?h1 ?t)\<lparr>p_next_sib := None\<rparr>)"
  let ?h' = "?h2(p := (?h2 p)\<lparr>p_prev_sib := None\<rparr>)"
  have "outChild (Some p) h = Some (Some p, ?h')"
    using k' ne by (simp add: outChild_def unlinkChild_def)
  moreover have "kids ?h' r xs"
  proof -
    have d: "distinct xs" using k by (simp add: kids_def)
    have "chained (nsib ?h') (psib ?h') xs = chained (nsib h) (psib h) xs"
      by (rule chained_cong)
        (use k' d False distinct_last_butlast [of xs] in \<open>auto dest: in_set_butlastD in_set_tl\<close>)
    then show ?thesis using k k' ne False by (auto simp: kids_def head_ptr_def)
  qed
  moreover have "tree_only h ?h' (insert r (set (xs @ [p])))"
    using False by (auto simp: tree_only_def pcb_core_def)
  ultimately show ?thesis using k' ne by (intro exI [of _ ?h']) auto
qed

text \<open>
  \<open>outChild\<close> on any block, whatever the tree looks like: it never faults, writes nothing but links of the
  tree, and clears links or copies the previous sibling to the parent.
\<close>

lemma unlinkChild_any:
  "\<exists>h'. unlinkChild (Some p) h = Some (Some p, h') \<and> tree_only h h' UNIV \<and>
     (\<forall>x. p_prnt (h' x) = (if x = p then None else p_prnt (h x))) \<and>
     (\<forall>x. psib h' x = psib h x \<or> psib h' x = None) \<and> (\<forall>x. p_child (h' x) = p_child (h x))"
proof -
  let ?h1 = "h(p := (h p)\<lparr>p_prnt := None\<rparr>)"
  let ?h2 = "case psib h p of None \<Rightarrow> ?h1
    | Some q \<Rightarrow> let g = ?h1(q := (?h1 q)\<lparr>p_next_sib := nsib h p\<rparr>) in g(p := (g p)\<lparr>p_prev_sib := None\<rparr>)"
  let ?h3 = "case nsib ?h2 p of None \<Rightarrow> ?h2
    | Some q \<Rightarrow> let g = ?h2(q := (?h2 q)\<lparr>p_prev_sib := None\<rparr>) in g(p := (g p)\<lparr>p_next_sib := None\<rparr>)"
  have run: "unlinkChild (Some p) h = Some (Some p, ?h3)"
    by (cases "psib h p"; cases "nsib ?h2 p") (simp_all add: unlinkChild_def Let_def)
  have 2: "pcb_core (?h2 x) = pcb_core (h x)" "p_prnt (?h2 x) = (if x = p then None else p_prnt (h x))"
    "psib ?h2 x = psib h x \<or> psib ?h2 x = None" "p_child (?h2 x) = p_child (h x)" for x
    by (cases "psib h p"; simp add: pcb_core_def Let_def)+
  define g where "g = ?h2"
  have 3: "pcb_core (?h3 x) = pcb_core (g x)" "p_prnt (?h3 x) = p_prnt (g x)"
    "psib ?h3 x = psib g x \<or> psib ?h3 x = None" "p_child (?h3 x) = p_child (g x)" for x
    unfolding g_def [symmetric] by (cases "nsib g p"; simp add: pcb_core_def Let_def)+
  have "tree_only h ?h3 UNIV" unfolding tree_only_def using 2(1) 3(1) unfolding g_def by simp
  moreover have "\<forall>x. p_prnt (?h3 x) = (if x = p then None else p_prnt (h x))" using 2(2) 3(2) unfolding g_def by simp
  moreover have "psib ?h3 x = psib h x \<or> psib ?h3 x = None" for x
    using 2(3) [of x] 3(3) [of x] unfolding g_def by fastforce
  moreover have "\<forall>x. p_child (?h3 x) = p_child (h x)" using 2(4) 3(4) unfolding g_def by simp
  ultimately show ?thesis using run by blast
qed

lemma outChild_any:
  "\<exists>h'. outChild (Some p) h = Some (if p_prnt (h p) = None then None else Some p, h') \<and> tree_only h h' UNIV \<and>
     (\<forall>x. x \<noteq> p \<longrightarrow> p_prnt (h' x) = p_prnt (h x)) \<and> (\<forall>x. psib h' x = psib h x \<or> psib h' x = None) \<and>
     (\<forall>x. p_child (h' x) = (if p_prnt (h p) = Some x \<and> p_child (h x) = Some p then psib h p else p_child (h x)))"
proof (cases "p_prnt (h p)")
  case None
  then show ?thesis by (simp add: outChild_orphan)
next
  case (Some r)
  let ?g = "if p_child (h r) = Some p then h(r := (h r)\<lparr>p_child := psib h p\<rparr>) else h"
  obtain h' where h': "unlinkChild (Some p) ?g = Some (Some p, h')" "tree_only ?g h' UNIV"
    "\<And>x. p_prnt (h' x) = (if x = p then None else p_prnt (?g x))"
    "\<And>x. psib h' x = psib ?g x \<or> psib h' x = None" "\<And>x. p_child (h' x) = p_child (?g x)"
    using unlinkChild_any [of p ?g] by blast
  have run: "outChild (Some p) h = Some (Some p, h')"
    using Some h'(1) by (simp add: outChild_def split: if_splits)
  have g: "pcb_core (?g x) = pcb_core (h x)" "p_prnt (?g x) = p_prnt (h x)" "psib ?g x = psib h x"
    "p_child (?g x) = (if p_prnt (h p) = Some x \<and> p_child (h x) = Some p then psib h p else p_child (h x))" for x
    using Some by (simp_all add: pcb_core_def)
  have t: "tree_only h h' UNIV" using h'(2) g(1) by (simp add: tree_only_def)
  have "\<forall>x. x \<noteq> p \<longrightarrow> p_prnt (h' x) = p_prnt (h x)" using h'(3) g(2) by simp
  moreover have "\<forall>x. psib h' x = psib h x \<or> psib h' x = None" using h'(4) unfolding g(3) by blast
  moreover have "\<forall>x. p_child (h' x) = (if p_prnt (h p) = Some x \<and> p_child (h x) = Some p then psib h p else p_child (h x))"
    using h'(5) unfolding g(4) by blast
  ultimately show ?thesis using run t Some by (intro exI [of _ h']) simp
qed

text \<open>\<open>outChild\<close> writes \<open>p_child\<close> of the parent only.\<close>

lemma outChild_child:
  assumes "outChild (Some p) h = Some (q, h')" and "p_prnt (h p) = Some r" and "x \<noteq> r"
  shows "p_child (h' x) = p_child (h x)"
  using assms
  by (cases "p_child (h r) = Some p")
    (auto simp: outChild_def unlinkChild_def Let_def split: if_splits)

text \<open>
  Taking out the oldest of several children stores \<open>p->p_prev_sib\<close>, which is \<open>NULL\<close>, as
  the parent's first child: the parent has no children any more, while each of the
  others still names it as its parent.
\<close>

lemma outChild_first:
  assumes k: "kids h r (p # x # xs)"
  shows "\<exists>h'. outChild (Some p) h = Some (Some p, h') \<and> p_child (h' r) = None \<and>
     (\<forall>y \<in> set (x # xs). p_prnt (h' y) = Some r) \<and> chained (nsib h') (psib h') (x # xs) \<and>
     p_prnt (h' p) = None \<and> nsib h' p = None \<and> psib h' p = None \<and>
     tree_only h h' {r, p, x}"
proof -
  have k': "r \<noteq> p" "p \<noteq> x" "r \<noteq> x" "p \<notin> set xs" "r \<notin> set xs" "x \<notin> set xs" "nsib h p = Some x"
    "psib h p = None" "psib h x = Some p" "p_prnt (h p) = Some r" "p_child (h r) = Some p"
    "chained (nsib h) (psib h) (x # xs)"
    using k by (auto simp: kids_def chained_Cons linked_def)
  let ?h1 = "h(r := (h r)\<lparr>p_child := None\<rparr>)"
  let ?h2 = "?h1(p := (?h1 p)\<lparr>p_prnt := None\<rparr>)"
  let ?h3 = "?h2(x := (?h2 x)\<lparr>p_prev_sib := None\<rparr>)"
  let ?h' = "?h3(p := (?h3 p)\<lparr>p_next_sib := None\<rparr>)"
  have "outChild (Some p) h = Some (Some p, ?h')"
    using k' by (simp add: outChild_def unlinkChild_def)
  moreover have "chained (nsib ?h') (psib ?h') (x # xs) = chained (nsib h) (psib h) (x # xs)"
  proof (rule chained_cong)
    show "nsib ?h' y = nsib h y" if "y \<in> set (butlast (x # xs))" for y
      using in_set_butlastD [OF that] k' by auto
    show "psib ?h' y = psib h y" if "y \<in> set (tl (x # xs))" for y
      using that k' by auto
  qed
  moreover have "\<forall>y \<in> set (x # xs). p_prnt (?h' y) = Some r"
    using k k' by (auto simp: kids_def)
  moreover have "tree_only h ?h' {r, p, x}"
    by (auto simp: tree_only_def pcb_core_def)
  ultimately show ?thesis using k' by (intro exI [of _ ?h']) auto
qed

text \<open>
  Taking out a middle child links its neighbours forwards, but the younger one gets
  \<open>NULL\<close> for its back pointer, because \<open>unlinkChild\<close> has cleared \<open>p_prev_sib\<close> of the
  leaving child before it copies it.
\<close>

lemma outChild_middle:
  assumes k: "kids h r (as @ p # x # bs)" and ne: "as \<noteq> []"
  shows "\<exists>h'. outChild (Some p) h = Some (Some p, h') \<and> nsib h' (last as) = Some x \<and>
     psib h' x = None \<and> nsib h' x = nsib h x \<and> p_prnt (h' x) = Some r \<and>
     p_child (h' r) = Some (hd as) \<and> p_prnt (h' p) = None \<and> nsib h' p = None \<and> psib h' p = None \<and>
     tree_only h h' {last as, p, x}"
proof -
  let ?t = "last as"
  have k': "r \<noteq> p" "p \<noteq> x" "r \<noteq> x" "?t \<noteq> p" "?t \<noteq> x" "?t \<noteq> r" "hd as \<noteq> p"
    "nsib h p = Some x" "psib h p = Some ?t" "p_prnt (h p) = Some r" "p_prnt (h x) = Some r"
    "p_child (h r) = Some (hd as)"
    using k ne by (auto simp: kids_def chained_append chained_Cons linked_def head_ptr_append head_ptr_def
        dest: last_in_set hd_in_set)
  let ?h1 = "h(p := (h p)\<lparr>p_prnt := None\<rparr>)"
  let ?h2 = "?h1(?t := (?h1 ?t)\<lparr>p_next_sib := Some x\<rparr>)"
  let ?h3 = "?h2(p := (?h2 p)\<lparr>p_prev_sib := None\<rparr>)"
  let ?h4 = "?h3(x := (?h3 x)\<lparr>p_prev_sib := None\<rparr>)"
  let ?h' = "?h4(p := (?h4 p)\<lparr>p_next_sib := None\<rparr>)"
  have "outChild (Some p) h = Some (Some p, ?h')"
    using k' by (simp add: outChild_def unlinkChild_def)
  moreover have "tree_only h ?h' {?t, p, x}"
    by (auto simp: tree_only_def pcb_core_def)
  ultimately show ?thesis using k' by (intro exI [of _ ?h']) auto
qed

lemma outChild_middle_breaks:
  assumes "kids h r (as @ p # x # bs)" and "as \<noteq> []" and "outChild (Some p) h = Some (q, h')"
  shows "\<not> kids h' r (as @ x # bs)"
proof
  assume "kids h' r (as @ x # bs)"
  then have "psib h' x = Some (last as)"
    using assms(2) by (auto simp: kids_def chained_append linked_def)
  moreover have "psib h' x = None" using outChild_middle [OF assms(1,2)] assms(3) by auto
  ultimately show False by simp
qed

text \<open>
  The damage shows at the next \<open>outChild\<close> of that neighbour: the sibling before it keeps
  pointing to it, and the siblings after it are cut off.
\<close>

lemma outChild_twice:
  assumes k: "kids h r (as @ p # x # y # bs)" and ne: "as \<noteq> []"
  shows "\<exists>h' h''. outChild (Some p) h = Some (Some p, h') \<and>
     outChild (Some x) h' = Some (Some x, h'') \<and>
     nsib h'' (last as) = Some x \<and> nsib h'' x = None \<and> p_prnt (h'' x) = None \<and>
     p_prnt (h'' y) = Some r"
proof -
  obtain h' where h': "outChild (Some p) h = Some (Some p, h')" "nsib h' (last as) = Some x"
    "psib h' x = None" "nsib h' x = nsib h x" "p_prnt (h' x) = Some r"
    "p_child (h' r) = Some (hd as)" "tree_only h h' {last as, p, x}"
    using outChild_middle [OF k ne] by blast
  have k': "nsib h x = Some y" "y \<noteq> x" "last as \<noteq> x" "last as \<noteq> y" "r \<noteq> x" "hd as \<noteq> x"
    "p_prnt (h y) = Some r" "y \<notin> {last as, p, x}"
    using k ne by (auto simp: kids_def chained_append chained_Cons linked_def
        dest: last_in_set hd_in_set)
  then have "p_prnt (h' y) = Some r" using tree_only_outside [OF h'(7)] by auto
  with h' k' show ?thesis
    by (auto simp: outChild_def unlinkChild_def)
qed

subsection \<open>The children as a first-in first-out list\<close>

text \<open>
  Adopting and losing children satisfies the contract \<open>fifo\<close> (but not \<open>fifo_queue\<close>:
  \<open>outChild\<close> does not remove an arbitrary child).
\<close>

definition adopt :: "nat \<Rightarrow> unit \<Rightarrow> nat \<Rightarrow> pcb_heap \<Rightarrow> (unit \<times> pcb_heap) option" where
  "adopt r u p h = map_option (Pair u) (insertChild (Some r) (Some p) h)"

definition orphan :: "nat \<Rightarrow> unit \<Rightarrow> pcb_heap \<Rightarrow> (pcb_ptr \<times> unit \<times> pcb_heap) option" where
  "orphan r u h = map_option (\<lambda>(c, h). (c, u, h)) (removeChild (Some r) h)"

interpretation kidq: fifo "\<lambda>h (u :: unit) xs. kids h r xs" "adopt r" "orphan r" "\<lambda>p. p \<noteq> r"
  "\<lambda>h h' D. tree_only h h' (insert r D)" for r
proof
  fix h :: pcb_heap and u :: unit and xs p
  assume k: "kids h r xs"
  show "\<exists>u' h'. adopt r u p h = Some (u', h') \<and> kids h' r (xs @ [p]) \<and> tree_only h h' (insert r (insert p (set xs)))"
    if "p \<notin> set xs" "p \<noteq> r"
    using insertChild_refines [OF k that] by (auto simp: adopt_def)
  show "\<exists>u' h'. orphan r u h = Some (head_ptr xs, u', h') \<and> kids h' r (tl xs) \<and> tree_only h h' (insert r (set xs))"
  proof (cases xs)
    case Nil
    then show ?thesis using removeChild_empty [of h r] k by (simp add: orphan_def)
  next
    case (Cons c cs)
    then show ?thesis using removeChild_refines [of h r c cs] k by (auto simp: orphan_def)
  qed
next
  fix h h' h'' :: pcb_heap and D E
  show "tree_only h h (insert r {})" by simp
  show "tree_only h h'' (insert r (D \<union> E))" if "tree_only h h' (insert r D)" "tree_only h' h'' (insert r E)"
    using tree_only_trans [OF that] by (simp add: Un_insert_right)
  show "tree_only h h' (insert r E)" if "tree_only h h' (insert r D)" "D \<subseteq> E"
    by (rule tree_only_mono [OF that(1)]) (use that(2) in auto)
qed

text \<open>
  The children of a process are kept in birth order: inserting any number of new
  children and then removing until the list is exhausted yields the old children, then the
  new ones, in the order of insertion, then NULL; only tree links of the parent and of these
  children are written.
\<close>

theorem children_fifo:
  assumes "kids h r xs" and "distinct (r # xs @ ps)"
  shows "\<exists>h1 h2. feed (adopt r) ps () h = Some ((), h1) \<and> kids h1 r (xs @ ps) \<and>
    drain_n (orphan r) (length (xs @ ps) + n) () h1 = Some (map Some (xs @ ps) @ replicate n None, (), h2) \<and>
    kids h2 r [] \<and> emptyChild (Some r) h2 = Some True \<and> tree_only h h2 (insert r (set (xs @ ps)))"
proof -
  have "p \<noteq> r" if "p \<in> set ps" for p using assms(2) that by auto
  with kidq.first_in_first_out [OF assms(1), where ps = ps and n = n and q = "()"] assms(2) show ?thesis
    using emptyChild_kids by fastforce
qed

theorem children_fifo_witness:
  "\<exists>h1 h2. feed (adopt 0) [3, 1, 2] () (\<lambda>_. zero_pcb) = Some ((), h1) \<and> kids h1 0 [3, 1, 2] \<and>
    drain_n (orphan 0) 4 () h1 = Some ([Some 3, Some 1, Some 2, None], (), h2)"
proof -
  have "kids (\<lambda>_. zero_pcb) 0 []" by (simp add: kids_def zero_pcb_def)
  from children_fifo [OF this, of "[3, 1, 2]" 1] show ?thesis by (auto simp: numeral_eq_Suc)
qed

text \<open>
  outChild is right for the youngest child (also when it is the only one): the child is
  detached with its own children kept, the other children stay, in order, and nothing outside
  the family is written.
\<close>

theorem outChild_youngest:
  assumes "kids h r (xs @ [p])"
  shows "\<exists>h'. outChild (Some p) h = Some (Some p, h') \<and> kids h' r xs \<and>
    p_prnt (h' p) = None \<and> nsib h' p = None \<and> psib h' p = None \<and> p_child (h' p) = p_child (h p) \<and>
    tree_only h h' (insert r (set (xs @ [p])))"
  using outChild_last [OF assms] by blast

text \<open>A parent 0 with the children 1, 2, 3 and 4.\<close>

definition family :: pcb_heap where
  "family = (\<lambda>_. zero_pcb)(
     0 := zero_pcb\<lparr>p_child := Some 1\<rparr>,
     1 := zero_pcb\<lparr>p_prnt := Some 0, p_next_sib := Some 2\<rparr>,
     2 := zero_pcb\<lparr>p_prnt := Some 0, p_prev_sib := Some 1, p_next_sib := Some 3\<rparr>,
     3 := zero_pcb\<lparr>p_prnt := Some 0, p_prev_sib := Some 2, p_next_sib := Some 4\<rparr>,
     4 := zero_pcb\<lparr>p_prnt := Some 0, p_prev_sib := Some 3\<rparr>)"

lemma family_kids: "kids family 0 [1, 2, 3, 4]"
  by (simp add: kids_def family_def zero_pcb_def chained_Cons linked_def chained_def)

theorem outChild_youngest_witness:
  "\<exists>h'. outChild (Some 4) family = Some (Some 4, h') \<and> kids h' 0 [1, 2, 3]"
  using outChild_youngest [of family 0 "[1, 2, 3]" 4] family_kids by auto

text \<open>
  C35: outChild of the first of several children loses its siblings: the parent is left with
  no first child although the siblings still name it as their parent, so later walks from
  the parent (emptyChild, removeChild) do not see them.
\<close>

theorem outChild_loses_siblings:
  assumes "kids h r (p # x # xs)"
  shows "\<exists>h'. outChild (Some p) h = Some (Some p, h') \<and> emptyChild (Some r) h' = Some True \<and>
    removeChild (Some r) h' = Some (None, h') \<and> (\<forall>y \<in> set (x # xs). p_prnt (h' y) = Some r) \<and>
    \<not> kids h' r (x # xs)"
proof -
  obtain h' where h': "outChild (Some p) h = Some (Some p, h')" "p_child (h' r) = None"
    "\<forall>y \<in> set (x # xs). p_prnt (h' y) = Some r"
    using outChild_first [OF assms] by blast
  then show ?thesis by (auto simp: emptyChild_def removeChild_def kids_def)
qed

theorem outChild_loses_siblings_witness:
  "\<exists>h'. outChild (Some 1) family = Some (Some 1, h') \<and> emptyChild (Some 0) h' = Some True \<and>
     p_prnt (h' 3) = Some 0"
  using outChild_loses_siblings [OF family_kids] by auto

text \<open>
  outChild of a middle child gives the next sibling a NULL back pointer, and a second
  outChild, of that sibling, leaves the sibling before it pointing at the removed block and
  cuts off the younger ones.
\<close>

theorem outChild_middle_damage:
  assumes "kids h r (as @ p # x # y # bs)" and "as \<noteq> []"
  shows "\<exists>h' h''. outChild (Some p) h = Some (Some p, h') \<and> psib h' x = None \<and>
    \<not> kids h' r (as @ x # y # bs) \<and> outChild (Some x) h' = Some (Some x, h'') \<and>
    nsib h'' (last as) = Some x \<and> p_prnt (h'' x) = None \<and> nsib h'' x = None \<and> p_prnt (h'' y) = Some r"
proof -
  obtain h' h'' where h: "outChild (Some p) h = Some (Some p, h')" "outChild (Some x) h' = Some (Some x, h'')"
    "nsib h'' (last as) = Some x" "nsib h'' x = None" "p_prnt (h'' x) = None" "p_prnt (h'' y) = Some r"
    using outChild_twice [OF assms] by blast
  moreover have "psib h' x = None" using outChild_middle [OF assms] h(1) by auto
  moreover have "\<not> kids h' r (as @ x # y # bs)" by (rule outChild_middle_breaks [OF assms h(1)])
  ultimately show ?thesis by blast
qed

theorem outChild_middle_damage_witness:
  "\<exists>h' h''. outChild (Some 2) family = Some (Some 2, h') \<and> outChild (Some 3) h' = Some (Some 3, h'') \<and>
     nsib h'' 1 = Some 3 \<and> p_prnt (h'' 3) = None"
  using outChild_middle_damage [of family 0 "[1]" 2 3 4 "[]"] family_kids by auto

end
