(* ===== verification/Umps.thy ===== *)
theory Umps
  imports Pandos_Types
begin

text \<open>
  The uMPS3 platform.  The kernel is compiled against the uMPS3 headers and libraries
  (\<open>umps3/umps/*.h\<close>, \<open>libumps\<close>), which are not part of the repository.  What the
  code uses of them is a parameter of the model: the record \<open>umps\<close> holds the
  constants and macros, and also the addresses the linker gives to the kernel's static
  objects.  \<open>umps_doc\<close> says what the uMPS3 documentation promises of them; the
  theorems that depend on it name it as a hypothesis.  \<open>umps3\<close> is one instance, used to
  evaluate concrete runs.
\<close>

record umps =
  STATE_GPR_LEN :: nat
  ix_v0 :: nat
  ix_a0 :: nat
  ix_a1 :: nat
  ix_a2 :: nat
  ix_a3 :: nat
  ix_t9 :: nat
  ix_sp :: nat
  EXC_INT :: u32
  EXC_MOD :: u32
  EXC_TLBL :: u32
  EXC_TLBS :: u32
  EXC_ADEL :: u32
  EXC_ADES :: u32
  EXC_IBE :: u32
  EXC_DBE :: u32
  EXC_SYS :: u32
  EXC_BP :: u32
  EXC_RI :: u32
  EXC_CPU :: u32
  EXC_OV :: u32
  CAUSE_GET_EXCCODE :: "u32 \<Rightarrow> u32"
  CAUSE_IP_MASK :: u32
  CAUSE_IP :: "u32 \<Rightarrow> u32"
  DISKINT :: u32
  FLASHINT :: u32
  NETWINT :: u32
  PRNTINT :: u32
  TERMINT :: u32
  DEVPERINT :: nat
  READY :: u32
  ACK :: u32
  adr_deviceSemaphores :: u32
  adr_uTLB_RefillHandler :: u32
  adr_handleExceptions :: u32
  adr_test_phase_3 :: u32
  RAMTOP :: u32

definition umps_regs :: "umps \<Rightarrow> bool" where
  "umps_regs U \<longleftrightarrow>
     distinct [ix_v0 U, ix_a0 U, ix_a1 U, ix_a2 U, ix_a3 U, ix_t9 U, ix_sp U] \<and>
     (\<forall>i \<in> {ix_v0 U, ix_a0 U, ix_a1 U, ix_a2 U, ix_a3 U, ix_t9 U, ix_sp U}. i < STATE_GPR_LEN U)"

definition umps_codes :: "umps \<Rightarrow> bool" where
  "umps_codes U \<longleftrightarrow>
     EXC_INT U = 0 \<and> EXC_MOD U = 1 \<and> EXC_TLBL U = 2 \<and> EXC_TLBS U = 3 \<and> EXC_ADEL U = 4 \<and>
     EXC_ADES U = 5 \<and> EXC_IBE U = 6 \<and> EXC_DBE U = 7 \<and> EXC_SYS U = 8 \<and> EXC_BP U = 9 \<and>
     EXC_RI U = 10 \<and> EXC_CPU U = 11 \<and> EXC_OV U = 12 \<and>
     (\<forall>c. CAUSE_GET_EXCCODE U c = drop_bit 2 c AND 31) \<and>
     CAUSE_IP_MASK U = 0xFF00 \<and> (\<forall>n. CAUSE_IP U n = push_bit (unat n) 0x100)"

definition umps_devices :: "umps \<Rightarrow> bool" where
  "umps_devices U \<longleftrightarrow> DISKINT U = 3 \<and> FLASHINT U = 4 \<and> NETWINT U = 5 \<and> PRNTINT U = 6 \<and>
     TERMINT U = 7 \<and> DEVPERINT U = 8 \<and> READY U = 1 \<and> ACK U = 1"

text \<open>The documentation's promises, and a placement of the semaphores that does not wrap.\<close>

definition umps_doc :: "umps \<Rightarrow> bool" where
  "umps_doc U \<longleftrightarrow> umps_regs U \<and> umps_codes U \<and> umps_devices U \<and>
     0 < unat (adr_deviceSemaphores U) \<and> unat (adr_deviceSemaphores U) + 4 * 49 < 0x7FFFFFFF"

definition umps3 :: umps where
  "umps3 = \<lparr>STATE_GPR_LEN = 29, ix_v0 = 1, ix_a0 = 3, ix_a1 = 4, ix_a2 = 5, ix_a3 = 6,
     ix_t9 = 24, ix_sp = 26,
     EXC_INT = 0, EXC_MOD = 1, EXC_TLBL = 2, EXC_TLBS = 3, EXC_ADEL = 4, EXC_ADES = 5,
     EXC_IBE = 6, EXC_DBE = 7, EXC_SYS = 8, EXC_BP = 9, EXC_RI = 10, EXC_CPU = 11, EXC_OV = 12,
     CAUSE_GET_EXCCODE = (\<lambda>c. drop_bit 2 c AND 31), CAUSE_IP_MASK = 0xFF00,
     CAUSE_IP = (\<lambda>n. push_bit (unat n) 0x100),
     DISKINT = 3, FLASHINT = 4, NETWINT = 5, PRNTINT = 6, TERMINT = 7, DEVPERINT = 8,
     READY = 1, ACK = 1, adr_deviceSemaphores = 0x20010000,
     adr_uTLB_RefillHandler = 0x20004000, adr_handleExceptions = 0x20005000,
     adr_test_phase_3 = 0x20006000, RAMTOP = 0x20080000\<rparr>"

lemma umps3_doc: "umps_doc umps3"
  by (simp add: umps_doc_def umps_regs_def umps_codes_def umps_devices_def umps3_def)

lemmas umps_doc_defs = umps_doc_def umps_regs_def umps_codes_def umps_devices_def

subsection \<open>Named registers\<close>

definition reg_v0 :: "umps \<Rightarrow> state_t \<Rightarrow> u32" where "reg_v0 U st = gpr st (ix_v0 U)"
definition reg_a0 :: "umps \<Rightarrow> state_t \<Rightarrow> u32" where "reg_a0 U st = gpr st (ix_a0 U)"
definition reg_a1 :: "umps \<Rightarrow> state_t \<Rightarrow> u32" where "reg_a1 U st = gpr st (ix_a1 U)"
definition reg_a2 :: "umps \<Rightarrow> state_t \<Rightarrow> u32" where "reg_a2 U st = gpr st (ix_a2 U)"
definition reg_a3 :: "umps \<Rightarrow> state_t \<Rightarrow> u32" where "reg_a3 U st = gpr st (ix_a3 U)"

definition set_gpr :: "nat \<Rightarrow> u32 \<Rightarrow> state_t \<Rightarrow> state_t" where
  "set_gpr i v st = st\<lparr>gpr := (gpr st)(i := v)\<rparr>"

lemmas reg_defs = reg_v0_def reg_a0_def reg_a1_def reg_a2_def reg_a3_def

lemma set_gpr_simps [simp]:
  "gpr (set_gpr i v st) i = v" "i \<noteq> j \<Longrightarrow> gpr (set_gpr i v st) j = gpr st j"
  "pc_epc (set_gpr i v st) = pc_epc st" "status (set_gpr i v st) = status st"
  "cause (set_gpr i v st) = cause st" "entry_hi (set_gpr i v st) = entry_hi st"
  "hi (set_gpr i v st) = hi st" "lo (set_gpr i v st) = lo st"
  by (simp_all add: set_gpr_def)

subsection \<open>copyState (stateUtil.c)\<close>

definition copyState_step :: "state_t \<Rightarrow> nat \<Rightarrow> state_t \<Rightarrow> state_t" where
  "copyState_step src i dest = dest\<lparr>gpr := (gpr dest)(i := gpr src i)\<rparr>"

definition copyState :: "umps \<Rightarrow> state_t \<Rightarrow> state_t \<Rightarrow> state_t" where
  "copyState U src dest =
     (let dest = fold (copyState_step src) [0..<STATE_GPR_LEN U] dest;
          dest = dest\<lparr>entry_hi := entry_hi src\<rparr>;
          dest = dest\<lparr>pc_epc := pc_epc src\<rparr>;
          dest = dest\<lparr>cause := cause src\<rparr>;
          dest = dest\<lparr>status := status src\<rparr>;
          dest = dest\<lparr>hi := hi src\<rparr>
      in dest\<lparr>lo := lo src\<rparr>)"

lemma copyState_fold:
  "fold (copyState_step src) [0..<n] dest = dest\<lparr>gpr := (\<lambda>i. if i < n then gpr src i else gpr dest i)\<rparr>"
  by (induction n) (auto simp: copyState_step_def less_Suc_eq fun_eq_iff)

lemma copyState_eq:
  "copyState U src dest = src\<lparr>gpr := (\<lambda>i. if i < STATE_GPR_LEN U then gpr src i else gpr dest i)\<rparr>"
  by (rule state_t.equality) (simp_all add: copyState_def copyState_fold)

lemma copyState_simps [simp]:
  "entry_hi (copyState U src dest) = entry_hi src" "pc_epc (copyState U src dest) = pc_epc src"
  "cause (copyState U src dest) = cause src" "status (copyState U src dest) = status src"
  "hi (copyState U src dest) = hi src" "lo (copyState U src dest) = lo src"
  "i < STATE_GPR_LEN U \<Longrightarrow> gpr (copyState U src dest) i = gpr src i"
  by (simp_all add: copyState_eq)

lemma copyState_regs:
  assumes "umps_regs U"
  shows "reg_v0 U (copyState U src dest) = reg_v0 U src" "reg_a0 U (copyState U src dest) = reg_a0 U src"
    "reg_a1 U (copyState U src dest) = reg_a1 U src" "reg_a2 U (copyState U src dest) = reg_a2 U src"
    "reg_a3 U (copyState U src dest) = reg_a3 U src"
  using assms by (simp_all add: umps_regs_def reg_defs)

end
