(* ===== verification/Nucleus.thy ===== *)
theory Nucleus
  imports Asl Pcb_Tree Umps
begin

text \<open>
  The globals of the nucleus (\<open>src/init.c\<close>), the devices and processor registers it
  reads and writes, and the ways a kernel path ends.

  A kernel path never returns to its caller: it ends by loading a processor state
  (\<open>LDST\<close>, \<open>LDCXT\<close>), by stopping the machine (\<open>HALT\<close>, \<open>PANIC\<close>), by waiting for
  an interrupt (\<open>WAIT\<close>) or by raising a nested system call (\<open>SYSCALL\<close>).  These
  calls into \<open>libumps\<close> are the constructors of \<open>outcome\<close>; code after them is not
  reached, except that a handler whose switch has no matching case really returns
  (\<open>RETURN\<close>).

  Reading the clock gives a new value every time: the successive results of \<open>STCK\<close>
  and of \<open>getTIMER\<close> are two input sequences with a position.
\<close>

datatype outcome =
    LDST state_t
  | LDCXT u32 u32 u32
  | HALT
  | PANIC
  | WAIT
  | SYSCALL u32 u32 u32 u32
  | RETURN

record dtpreg_t =
  dtp_status :: u32
  dtp_command :: u32
  dtp_data0 :: u32

record termreg_t =
  recv_status :: u32
  recv_command :: u32
  transm_status :: u32
  transm_command :: u32

record devreg_t =
  dev_dtp :: dtpreg_t
  dev_term :: termreg_t

record passupvector_t =
  tlb_refill_handler :: u32
  tlb_refill_stackPtr :: u32
  exception_handler :: u32
  exception_stackPtr :: u32

record hw =
  CAUSE :: u32
  STATUS :: u32
  tod_in :: "nat \<Rightarrow> u32"
  tod_ix :: nat
  timer_in :: "nat \<Rightarrow> u32"
  timer_ix :: nat
  timer_out :: u32
  ldit_out :: u32
  timescale :: u32
  dev_bitmap :: "u32 \<Rightarrow> u32"
  dev_regs :: "u32 \<Rightarrow> u32 \<Rightarrow> devreg_t"
  PASSUPVECTOR :: passupvector_t

record nuc_state = asl_state +
  readyQueue :: pcb_ptr
  currentProcess :: pcb_ptr
  softBlockedCount :: u32
  startT :: u32
  stopT :: u32
  globalStartT :: u32
  mutex :: u32
  ints :: "u32 \<Rightarrow> u32"
  states :: "u32 \<Rightarrow> state_t"
  supports :: "u32 \<Rightarrow> support_t"
  hardware :: hw

definition BIOSDATAPAGE :: u32 where "BIOSDATAPAGE = 0x0FFFF000"
definition DEVICE_NUM :: u32 where "DEVICE_NUM = 49"

subsection \<open>Access to memory and registers\<close>

definition load_int :: "u32 \<Rightarrow> nuc_state \<Rightarrow> u32 option" where
  "load_int a s = (if a = 0 then None else Some (ints s a))"

definition store_int :: "u32 \<Rightarrow> u32 \<Rightarrow> nuc_state \<Rightarrow> nuc_state option" where
  "store_int a v s = (if a = 0 then None else Some (s\<lparr>ints := (ints s)(a := v)\<rparr>))"

definition load_state :: "u32 \<Rightarrow> nuc_state \<Rightarrow> state_t option" where
  "load_state a s = (if a = 0 then None else Some (states s a))"

definition load_supp :: "u32 \<Rightarrow> nuc_state \<Rightarrow> support_t option" where
  "load_supp a s = (if a = 0 then None else Some (supports s a))"

definition store_supp :: "u32 \<Rightarrow> support_t \<Rightarrow> nuc_state \<Rightarrow> nuc_state option" where
  "store_supp a v s = (if a = 0 then None else Some (s\<lparr>supports := (supports s)(a := v)\<rparr>))"

text \<open>\<open>&deviceSemaphores[i]\<close>; an index outside the array is undefined.\<close>

definition devSem :: "umps \<Rightarrow> u32 \<Rightarrow> u32 option" where
  "devSem U i = (if i < DEVICE_NUM then Some (adr_deviceSemaphores U + 4 * i) else None)"

definition clockSemaphore :: "umps \<Rightarrow> u32" where
  "clockSemaphore U = adr_deviceSemaphores U + 4 * (DEVICE_NUM - 1)"

definition read_tod :: "nuc_state \<Rightarrow> u32 \<times> nuc_state" where
  "read_tod s = (let w = hardware s in (tod_in w (tod_ix w), s\<lparr>hardware := w\<lparr>tod_ix := Suc (tod_ix w)\<rparr>\<rparr>))"

definition getTIMER :: "nuc_state \<Rightarrow> u32 \<times> nuc_state" where
  "getTIMER s = (let w = hardware s in (timer_in w (timer_ix w), s\<lparr>hardware := w\<lparr>timer_ix := Suc (timer_ix w)\<rparr>\<rparr>))"

definition setTIMER :: "u32 \<Rightarrow> nuc_state \<Rightarrow> nuc_state" where
  "setTIMER t s = s\<lparr>hardware := (hardware s)\<lparr>timer_out := t\<rparr>\<rparr>"

definition setSTATUS :: "u32 \<Rightarrow> nuc_state \<Rightarrow> nuc_state" where
  "setSTATUS v s = s\<lparr>hardware := (hardware s)\<lparr>STATUS := v\<rparr>\<rparr>"

definition LDIT :: "u32 \<Rightarrow> nuc_state \<Rightarrow> nuc_state" where
  "LDIT t s = s\<lparr>hardware := (hardware s)\<lparr>ldit_out := t\<rparr>\<rparr>"

lemmas hw_defs = read_tod_def getTIMER_def setTIMER_def setSTATUS_def LDIT_def

text \<open>A write to a field of \<open>*p\<close> in the global heap of process control blocks.\<close>

definition upd_pcb :: "pcb_ptr \<Rightarrow> (pcb_t \<Rightarrow> pcb_t) \<Rightarrow> nuc_state \<Rightarrow> nuc_state option" where
  "upd_pcb p f s = do { h \<leftarrow> store p f (pcbs s); Some (s\<lparr>pcbs := h\<rparr>) }"

lemma upd_pcb_Some [simp]: "upd_pcb (Some p) f s = Some (s\<lparr>pcbs := (pcbs s)(p := f (pcbs s p))\<rparr>)"
  and upd_pcb_None [simp]: "upd_pcb None f s = None"
  by (simp_all add: upd_pcb_def)

subsection \<open>The ready queue\<close>

text \<open>
  \<open>insertProcQ(&readyQueue, p)\<close>, \<open>removeProcQ(&readyQueue)\<close> and
  \<open>outProcQ(&readyQueue, p)\<close>: the global variable is passed by reference.
\<close>

definition insertReady :: "pcb_ptr \<Rightarrow> nuc_state \<Rightarrow> nuc_state option" where
  "insertReady p s = do {
     (tq, h) \<leftarrow> insertProcQ (readyQueue s) p (pcbs s);
     Some (s\<lparr>readyQueue := tq, pcbs := h\<rparr>)
   }"

definition removeReady :: "nuc_state \<Rightarrow> (pcb_ptr \<times> nuc_state) option" where
  "removeReady s = do {
     (p, tq, h) \<leftarrow> removeProcQ (readyQueue s) (pcbs s);
     Some (p, s\<lparr>readyQueue := tq, pcbs := h\<rparr>)
   }"

definition outReady :: "pcb_ptr \<Rightarrow> nuc_state \<Rightarrow> (pcb_ptr \<times> nuc_state) option" where
  "outReady p s = do {
     (r, tq, h) \<leftarrow> outProcQ (readyQueue s) p (pcbs s);
     Some (r, s\<lparr>readyQueue := tq, pcbs := h\<rparr>)
   }"

subsection \<open>scheduler.c\<close>

definition loadProcess :: "pcb_ptr \<Rightarrow> nuc_state \<Rightarrow> (outcome \<times> nuc_state) option" where
  "loadProcess current s = do {
     let s = s\<lparr>currentProcess := current\<rparr>;
     x \<leftarrow> load (pcbs s) (currentProcess s);
     Some (LDST (p_s x), s)
   }"

definition setStatusForWaiting :: "nuc_state \<Rightarrow> nuc_state" where
  "setStatusForWaiting s =
     (let s = setTIMER 0xFFFFFFFF s;
          newState = ALLOFF OR IECON OR IMON
      in setSTATUS newState s)"

definition updateTimeAndSwitch :: "pcb_ptr \<Rightarrow> u32 \<Rightarrow> nuc_state \<Rightarrow> (outcome \<times> nuc_state) option" where
  "updateTimeAndSwitch p time s =
     (let (t, s) = read_tod s;
          s = s\<lparr>startT := t\<rparr>;
          s = setTIMER time s
      in loadProcess p s)"

definition scheduler :: "nuc_state \<Rightarrow> (outcome \<times> nuc_state) option" where
  "scheduler s = do {
     (p, s) \<leftarrow> removeReady s;
     if p \<noteq> None then updateTimeAndSwitch p TIMESLICE s
     else if processCount s = 0 then Some (HALT, s)
     else if sint (softBlockedCount s) > 0 then
       (let s = s\<lparr>currentProcess := None\<rparr>;
            s = setStatusForWaiting s
        in Some (WAIT, s))
     else Some (PANIC, s)
   }"

subsection \<open>The invariant of the nucleus\<close>

text \<open>
  \<open>kview\<close> is what the nucleus promises, without pointers: the free process control
  blocks, the ready processes and the processes blocked on each semaphore, each in
  the order they will be taken, and the processes in no list (the running one, and
  one on its way from a list to another).
\<close>

record kview =
  kfree :: "nat list"
  kready :: "nat list"
  kblocked :: "u32 \<Rightarrow> nat list"
  kheld :: "nat list"

definition unblocked :: "kview \<Rightarrow> nat list" where
  "unblocked k = kfree k @ kready k @ kheld k"

text \<open>Every process control block is in exactly one place.\<close>

definition kpartition :: "kview \<Rightarrow> bool" where
  "kpartition k \<longleftrightarrow> distinct (unblocked k) \<and>
     (\<forall>a. set (kblocked k a) \<inter> set (unblocked k) = {}) \<and>
     set (unblocked k) \<union> (\<Union>a. set (kblocked k a)) = {0..<MAXPROC} \<and> kblocked k 0 = []"

definition kinv :: "nuc_state \<Rightarrow> kview \<Rightarrow> bool" where
  "kinv s k \<longleftrightarrow> free_list s (kfree k) \<and> procq (pcbs s) (readyQueue s) (kready k) \<and>
     asl s (kblocked k) \<and> kpartition k \<and>
     processCount s = of_nat (MAXPROC - length (kfree k)) \<and>
     (\<forall>x \<in> set (unblocked k). p_semAdd (pcbs s x) = 0)"

text \<open>
  \<open>kframe s s' D\<close>: only the lists changed from \<open>s\<close> to \<open>s'\<close>; the contents of the
  processes outside \<open>D\<close> (state, time, support structure, place in the tree) did not.
\<close>

definition pcb_user :: "pcb_t \<Rightarrow> pcb_t" where
  "pcb_user x = x\<lparr>p_next := None, p_prev := None, p_semAdd := 0\<rparr>"

definition kframe :: "nuc_state \<Rightarrow> nuc_state \<Rightarrow> nat set \<Rightarrow> bool" where
  "kframe s s' D \<longleftrightarrow>
     semd_h s' = semd_h s \<and> currentProcess s' = currentProcess s \<and>
     softBlockedCount s' = softBlockedCount s \<and> startT s' = startT s \<and> stopT s' = stopT s \<and>
     globalStartT s' = globalStartT s \<and> mutex s' = mutex s \<and> ints s' = ints s \<and>
     states s' = states s \<and> supports s' = supports s \<and> hardware s' = hardware s \<and>
     (\<forall>x. x \<notin> D \<longrightarrow> pcb_user (pcbs s' x) = pcb_user (pcbs s x))"

lemma kframe_refl [simp]: "kframe s s D"
  by (simp add: kframe_def)

lemma kframe_globals:
  assumes "kframe s s' D"
  shows "semd_h s' = semd_h s" "currentProcess s' = currentProcess s"
    "softBlockedCount s' = softBlockedCount s" "startT s' = startT s" "stopT s' = stopT s"
    "globalStartT s' = globalStartT s" "mutex s' = mutex s" "ints s' = ints s"
    "states s' = states s" "supports s' = supports s" "hardware s' = hardware s"
  using assms by (simp_all add: kframe_def)

lemma kframe_user: "kframe s s' D \<Longrightarrow> x \<notin> D \<Longrightarrow> pcb_user (pcbs s' x) = pcb_user (pcbs s x)"
  by (simp add: kframe_def)

lemma pcb_user_eqD:
  assumes "pcb_user x = pcb_user y"
  shows "p_prnt x = p_prnt y" "p_child x = p_child y" "p_next_sib x = p_next_sib y"
    "p_prev_sib x = p_prev_sib y" "p_s x = p_s y" "p_time x = p_time y"
    "p_supportStruct x = p_supportStruct y"
  using assms by (cases x; cases y; simp add: pcb_user_def)+

lemma kframe_p_s: "kframe s s' D \<Longrightarrow> x \<notin> D \<Longrightarrow> p_s (pcbs s' x) = p_s (pcbs s x)"
  using kframe_user pcb_user_eqD(5) by blast

lemma pcb_user_data: "pcb_data x = pcb_data y \<Longrightarrow> pcb_user x = pcb_user y"
  by (cases x; cases y) (simp add: pcb_data_def pcb_user_def)

lemma kframe_trans:
  assumes "kframe s s' D" and "kframe s' s'' E"
  shows "kframe s s'' (D \<union> E)"
  using assms by (simp add: kframe_def)

lemma kinv_frame [frame_intros]:
  assumes "kinv s k" and "pcbFree_h s' = pcbFree_h s" "processCount s' = processCount s"
    "readyQueue s' = readyQueue s" "semd_h s' = semd_h s" "semdFree_h s' = semdFree_h s"
    "semd_table s' = semd_table s"
    and same: "\<And>x. same_queue_fields (pcbs s) (pcbs s') x"
  shows "kinv s' k"
proof -
  have f: "p_next (pcbs s' x) = p_next (pcbs s x)" "p_prev (pcbs s' x) = p_prev (pcbs s x)"
    "p_semAdd (pcbs s' x) = p_semAdd (pcbs s x)" for x
    using same [of x] by (simp_all add: same_queue_fields_def)
  have "free_list s' (kfree k)" "procq (pcbs s') (readyQueue s) (kready k)" "asl s' (kblocked k)"
    using assms f by (auto simp: kinv_def intro: free_list_frame procq_frame asl_frame)
  with assms f show ?thesis by (simp add: kinv_def)
qed

end
