(* ===== verification/Nucleus_Moves.thy ===== *)
theory Nucleus_Moves
  imports Nucleus
begin

text \<open>
  The moves of a process control block between the lists of the nucleus, each as one
  lemma over \<open>kinv\<close>: the concrete operation succeeds, the lists change as the name
  says, and nothing else does (\<open>kframe\<close>).  The handlers are sequences of these moves.
\<close>

subsection \<open>The partition\<close>

lemma kpartition_same:
  assumes "kpartition k" and "mset (unblocked k') = mset (unblocked k)" and "kblocked k' = kblocked k"
  shows "kpartition k'"
  using assms mset_eq_imp_distinct_iff [OF assms(2)] mset_eq_setD [OF assms(2)]
  by (simp add: kpartition_def)

lemma kpartition_block:
  assumes "kpartition k" and m: "mset (unblocked k) = add_mset c (mset (unblocked k'))"
    and B: "kblocked k' = (kblocked k)(a := kblocked k a @ [c])" and a: "a \<noteq> 0"
  shows "kpartition k'"
proof -
  have d: "distinct (unblocked k)" using assms(1) by (simp add: kpartition_def)
  have m': "mset (unblocked k) = mset (c # unblocked k')" using m by simp
  have s: "set (unblocked k) = insert c (set (unblocked k'))" "distinct (unblocked k')" "c \<notin> set (unblocked k')"
    using mset_eq_setD [OF m'] mset_eq_imp_distinct_iff [OF m'] d by auto
  have U: "(\<Union>b. set (kblocked k' b)) = insert c (\<Union>b. set (kblocked k b))"
    using B by (auto split: if_splits)
  have dis: "\<forall>b. set (kblocked k b) \<inter> set (unblocked k) = {}" "kblocked k 0 = []"
    "set (unblocked k) \<union> (\<Union>b. set (kblocked k b)) = {0..<MAXPROC}"
    using assms(1) by (auto simp: kpartition_def)
  have "set (unblocked k') \<union> (\<Union>b. set (kblocked k' b)) = {0..<MAXPROC}"
    unfolding U using s(1) dis(3) by auto
  moreover have "\<forall>b. set (kblocked k' b) \<inter> set (unblocked k') = {}"
    using B dis(1) s by auto
  ultimately show ?thesis using s B a dis(2) by (simp add: kpartition_def)
qed

lemma kpartition_unblock:
  assumes "kpartition k" and m: "mset (unblocked k') = add_mset c (mset (unblocked k))"
    and c: "c \<in> set (kblocked k a)" and only: "\<And>b. c \<in> set (kblocked k b) \<Longrightarrow> b = a"
    and B: "kblocked k' = (kblocked k)(a := q)" and q: "set q = set (kblocked k a) - {c}"
  shows "kpartition k'"
proof -
  have dis: "\<forall>b. set (kblocked k b) \<inter> set (unblocked k) = {}" "kblocked k 0 = []" "distinct (unblocked k)"
    "set (unblocked k) \<union> (\<Union>b. set (kblocked k b)) = {0..<MAXPROC}"
    using assms(1) by (auto simp: kpartition_def)
  have m': "mset (unblocked k') = mset (c # unblocked k)" using m by simp
  have cn: "c \<notin> set (unblocked k)" using c dis(1) by auto
  have s: "set (unblocked k') = insert c (set (unblocked k))" "distinct (unblocked k')"
    using mset_eq_setD [OF m'] mset_eq_imp_distinct_iff [OF m'] dis(3) cn by auto
  have "insert c (\<Union>b. set (kblocked k' b)) = (\<Union>b. set (kblocked k b))"
    using B q c by (auto split: if_splits)
  then have "set (unblocked k') \<union> (\<Union>b. set (kblocked k' b)) = {0..<MAXPROC}"
    using s(1) dis(4) by auto
  moreover have "\<forall>b. set (kblocked k' b) \<inter> set (unblocked k') = {}"
    using B dis(1) s(1) only q by auto
  moreover have "a \<noteq> 0" using c dis(2) by auto
  ultimately show ?thesis using s B dis(2) by (simp add: kpartition_def)
qed

lemma kinvD:
  assumes "kinv s k"
  shows "free_list s (kfree k)" "procq (pcbs s) (readyQueue s) (kready k)" "asl s (kblocked k)"
    "kpartition k" "processCount s = of_nat (MAXPROC - length (kfree k))"
    "x \<in> set (unblocked k) \<Longrightarrow> p_semAdd (pcbs s x) = 0"
    "x \<in> set (unblocked k) \<Longrightarrow> x \<notin> set (kblocked k a)" "distinct (unblocked k)"
    "x \<in> set (unblocked k) \<Longrightarrow> x < MAXPROC" "x \<in> set (kblocked k a) \<Longrightarrow> x < MAXPROC"
    "kblocked k 0 = []"
proof -
  have p: "kpartition k" using assms by (simp add: kinv_def)
  show "free_list s (kfree k)" "procq (pcbs s) (readyQueue s) (kready k)" "asl s (kblocked k)"
    "kpartition k" "processCount s = of_nat (MAXPROC - length (kfree k))"
    "x \<in> set (unblocked k) \<Longrightarrow> p_semAdd (pcbs s x) = 0"
    using assms by (auto simp: kinv_def)
  show "x \<in> set (unblocked k) \<Longrightarrow> x \<notin> set (kblocked k a)" "distinct (unblocked k)" "kblocked k 0 = []"
    using p by (auto simp: kpartition_def)
  have "set (unblocked k) \<union> (\<Union>b. set (kblocked k b)) = {0..<MAXPROC}"
    using p by (simp add: kpartition_def)
  then show "x \<in> set (unblocked k) \<Longrightarrow> x < MAXPROC" "x \<in> set (kblocked k a) \<Longrightarrow> x < MAXPROC"
    by (auto simp: set_eq_iff)
qed

lemma kinv_free_le: "kinv s k \<Longrightarrow> length (kfree k) \<le> MAXPROC"
proof -
  assume k: "kinv s k"
  have "distinct (kfree k)" using kinvD(8) [OF k] by (simp add: unblocked_def)
  moreover have "set (kfree k) \<subseteq> {0..<MAXPROC}" using kinvD(9) [OF k] by (auto simp: unblocked_def)
  ultimately show ?thesis by (rule length_le_of_subset_upt)
qed

text \<open>A step that only changes queue links of elements outside the blocked queues.\<close>

lemma asl_links_only:
  assumes "asl s B" and "links_only (pcbs s) (pcbs s') S" and "\<And>a. set (B a) \<inter> S = {}"
    and "semd_h s' = semd_h s" "semdFree_h s' = semdFree_h s" "semd_table s' = semd_table s"
  shows "asl s' B"
  by (rule asl_frame [OF assms(1,4,5,6)])
    (use assms(2,3) in \<open>auto simp: same_queue_fields_def links_only_outside disjoint_iff\<close>)

subsection \<open>The ready queue\<close>

lemma kinv_insertReady:
  assumes k: "kinv s k" and p: "p \<in> set (kheld k)"
  shows "\<exists>s'. insertReady (Some p) s = Some s' \<and>
     kinv s' (k\<lparr>kready := kready k @ [p], kheld := remove1 p (kheld k)\<rparr>) \<and> kframe s s' {}"
proof -
  let ?k' = "k\<lparr>kready := kready k @ [p], kheld := remove1 p (kheld k)\<rparr>"
  note K = kinvD [OF k]
  have u: "p \<in> set (unblocked k)" "p \<notin> set (kready k)" "p \<notin> set (kfree k)"
    using p K(8) by (auto simp: unblocked_def)
  obtain h' where h': "insertProcQ (readyQueue s) (Some p) (pcbs s) = Some (Some p, h')"
    "procq h' (Some p) (kready k @ [p])" "links_only (pcbs s) h' (insert p (set (kready k)))"
    using insertProcQ_refines [OF K(2) u(2)] by blast
  let ?s' = "s\<lparr>readyQueue := Some p, pcbs := h'\<rparr>"
  have d: "set (kfree k) \<inter> insert p (set (kready k)) = {}"
    using K(8) u by (auto simp: unblocked_def)
  have "free_list ?s' (kfree k)"
    by (rule free_list_links_only [OF K(1)]) (use h'(3) d in auto)
  moreover have "asl ?s' (kblocked k)"
    by (rule asl_links_only [OF K(3)]) (use h'(3) K(7) u in \<open>auto simp: unblocked_def\<close>)
  moreover have "kpartition ?k'"
    by (rule kpartition_same [OF K(4)]) (use p in \<open>simp_all add: unblocked_def\<close>)
  moreover have "\<forall>x \<in> set (unblocked ?k'). p_semAdd (h' x) = 0"
    using K(6) u links_only_fields(7) [OF h'(3)] by (auto simp: unblocked_def dest: in_set_remove1)
  ultimately have "kinv ?s' ?k'" using h'(2) K(5) by (simp add: kinv_def)
  moreover have "kframe s ?s' {}"
    using pcb_user_data [OF links_only_data [OF h'(3)]] by (simp add: kframe_def)
  moreover have "insertReady (Some p) s = Some ?s'" using h'(1) by (simp add: insertReady_def)
  ultimately show ?thesis by blast
qed

lemma kinv_removeReady_empty:
  "kinv s k \<Longrightarrow> kready k = [] \<Longrightarrow> removeReady s = Some (None, s)"
  using removeProcQ_empty [of "pcbs s" "readyQueue s"] kinvD(2) [of s k]
  by (simp add: removeReady_def)

lemma kinv_removeReady:
  assumes k: "kinv s k" and p: "kready k = p # rs"
  shows "\<exists>s'. removeReady s = Some (Some p, s') \<and>
     kinv s' (k\<lparr>kready := rs, kheld := p # kheld k\<rparr>) \<and> kframe s s' {}"
proof -
  let ?k' = "k\<lparr>kready := rs, kheld := p # kheld k\<rparr>"
  note K = kinvD [OF k]
  obtain h' where h': "removeProcQ (readyQueue s) (pcbs s) = Some (Some p, tail_ptr rs, h')"
    "procq h' (tail_ptr rs) rs" "links_only (pcbs s) h' (set (p # rs))"
    using removeProcQ_refines [of "pcbs s" "readyQueue s" p rs] K(2) p by auto
  let ?s' = "s\<lparr>readyQueue := tail_ptr rs, pcbs := h'\<rparr>"
  have "free_list ?s' (kfree k)"
    by (rule free_list_links_only [OF K(1)]) (use h'(3) K(8) p in \<open>auto simp: unblocked_def\<close>)
  moreover have "asl ?s' (kblocked k)"
    by (rule asl_links_only [OF K(3)]) (use h'(3) K(7) p in \<open>auto simp: unblocked_def\<close>)
  moreover have "kpartition ?k'"
    by (rule kpartition_same [OF K(4)]) (use p in \<open>simp_all add: unblocked_def\<close>)
  moreover have "\<forall>x \<in> set (unblocked ?k'). p_semAdd (h' x) = 0"
    using K(6) p links_only_fields(7) [OF h'(3)] by (auto simp: unblocked_def)
  ultimately have "kinv ?s' ?k'" using h'(2) K(5) by (simp add: kinv_def)
  moreover have "kframe s ?s' {}"
    using pcb_user_data [OF links_only_data [OF h'(3)]] by (simp add: kframe_def)
  moreover have "removeReady s = Some (Some p, ?s')" using h'(1) by (simp add: removeReady_def)
  ultimately show ?thesis by blast
qed

lemma kinv_outReady:
  assumes k: "kinv s k" and p: "p \<in> set (kready k)"
  shows "\<exists>s'. outReady (Some p) s = Some (Some p, s') \<and>
     kinv s' (k\<lparr>kready := remove1 p (kready k), kheld := p # kheld k\<rparr>) \<and> kframe s s' {}"
proof -
  let ?rs = "remove1 p (kready k)"
  let ?k' = "k\<lparr>kready := ?rs, kheld := p # kheld k\<rparr>"
  note K = kinvD [OF k]
  obtain h' where h': "outProcQ (readyQueue s) (Some p) (pcbs s) = Some (Some p, tail_ptr ?rs, h')"
    "procq h' (tail_ptr ?rs) ?rs" "links_only (pcbs s) h' (set (kready k))"
    using outProcQ_refines [OF K(2) p] by blast
  let ?s' = "s\<lparr>readyQueue := tail_ptr ?rs, pcbs := h'\<rparr>"
  have "free_list ?s' (kfree k)"
    by (rule free_list_links_only [OF K(1)]) (use h'(3) K(8) in \<open>auto simp: unblocked_def\<close>)
  moreover have "asl ?s' (kblocked k)"
    by (rule asl_links_only [OF K(3)]) (use h'(3) K(7) in \<open>auto simp: unblocked_def\<close>)
  moreover have "kpartition ?k'"
    by (rule kpartition_same [OF K(4)]) (use p in \<open>simp_all add: unblocked_def\<close>)
  moreover have "\<forall>x \<in> set (unblocked ?k'). p_semAdd (h' x) = 0"
    using K(6) p links_only_fields(7) [OF h'(3)] by (auto simp: unblocked_def dest: in_set_remove1)
  ultimately have "kinv ?s' ?k'" using h'(2) K(5) by (simp add: kinv_def)
  moreover have "kframe s ?s' {}"
    using pcb_user_data [OF links_only_data [OF h'(3)]] by (simp add: kframe_def)
  moreover have "outReady (Some p) s = Some (Some p, ?s')" using h'(1) by (simp add: outReady_def)
  ultimately show ?thesis by blast
qed

lemma kinv_outReady_missing:
  assumes k: "kinv s k" and p: "p \<notin> set (kready k)"
  shows "outReady (Some p) s = Some (None, s)"
  using outProcQ_missing [OF kinvD(2) [OF k] p] by (simp add: outReady_def)

subsection \<open>The blocked processes\<close>

lemma asl_step_frame:
  fixes s s' :: nuc_state
  assumes "asl_step s s' p v S"
  shows "kframe s s' {}" "readyQueue s' = readyQueue s" "pcbFree_h s' = pcbFree_h s"
    "processCount s' = processCount s" "p_semAdd (pcbs s' x) = (if x = p then v else p_semAdd (pcbs s x))"
    "x \<notin> S \<Longrightarrow> p_next (pcbs s' x) = p_next (pcbs s x)"
    "x \<notin> S \<Longrightarrow> p_prev (pcbs s' x) = p_prev (pcbs s x)"
proof -
  have e: "s' = s\<lparr>semdFree_h := semdFree_h s', semd_table := semd_table s', pcbs := pcbs s'\<rparr>"
    and l: "links_only ((pcbs s)(p := (pcbs s p)\<lparr>p_semAdd := v\<rparr>)) (pcbs s') S"
    using assms by (simp_all add: asl_step_def)
  have g: "semd_h s' = semd_h s \<and> currentProcess s' = currentProcess s \<and>
     softBlockedCount s' = softBlockedCount s \<and> startT s' = startT s \<and> stopT s' = stopT s \<and>
     globalStartT s' = globalStartT s \<and> mutex s' = mutex s \<and> ints s' = ints s \<and>
     states s' = states s \<and> supports s' = supports s \<and> hardware s' = hardware s \<and>
     readyQueue s' = readyQueue s \<and> pcbFree_h s' = pcbFree_h s \<and> processCount s' = processCount s"
    by (intro conjI; subst e; simp)
  have "pcb_user (pcbs s' y) = pcb_user (pcbs s y)" for y
  proof -
    have "pcb_user (pcbs s' y) = pcb_user (((pcbs s)(p := (pcbs s p)\<lparr>p_semAdd := v\<rparr>)) y)"
      by (rule pcb_user_data) (rule links_only_data [OF l])
    also have "\<dots> = pcb_user (pcbs s y)" by (simp add: pcb_user_def)
    finally show ?thesis .
  qed
  with g show "kframe s s' {}" by (simp add: kframe_def)
  show "readyQueue s' = readyQueue s" "pcbFree_h s' = pcbFree_h s" "processCount s' = processCount s"
    using g by simp_all
  show "p_semAdd (pcbs s' x) = (if x = p then v else p_semAdd (pcbs s x))"
    using links_only_fields(7) [OF l, of x] by simp
  show "x \<notin> S \<Longrightarrow> p_next (pcbs s' x) = p_next (pcbs s x)"
    "x \<notin> S \<Longrightarrow> p_prev (pcbs s' x) = p_prev (pcbs s x)"
    using links_only_outside [OF l, of x] by simp_all
qed

text \<open>What an \<open>asl_step\<close> leaves of the invariant, when it works on blocked processes and \<open>p\<close>.\<close>

lemma asl_step_lists:
  assumes k: "kinv s k" and st: "asl_step s s' p v S" and S: "S \<subseteq> insert p (\<Union>a. set (kblocked k a))"
    and p: "p \<notin> set (kfree k)" "p \<notin> set (kready k)"
  shows "free_list s' (kfree k)" "procq (pcbs s') (readyQueue s') (kready k)"
    "processCount s' = of_nat (MAXPROC - length (kfree k))"
proof -
  note K = kinvD [OF k] and F = asl_step_frame [OF st]
  have out: "x \<notin> S" if "x \<in> set (kfree k) \<union> set (kready k)" for x
    using that S p K(7) by (auto simp: unblocked_def)
  show "free_list s' (kfree k)"
    by (rule free_list_frame [OF K(1)]) (use F out in auto)
  have "procq (pcbs s') (readyQueue s) (kready k)"
    by (rule procq_frame [OF K(2)]) (use F out in auto)
  then show "procq (pcbs s') (readyQueue s') (kready k)" using F(2) by simp
  show "processCount s' = of_nat (MAXPROC - length (kfree k))" using F(4) K(5) by simp
qed

text \<open>A process that is not blocked leaves room in the descriptor table.\<close>

lemma kinv_room:
  assumes k: "kinv s k" and c: "c \<in> set (unblocked k)"
  shows "semdFree_h s \<noteq> None"
proof -
  note K = kinvD [OF k]
  have "set (kblocked k a) \<subseteq> {0..<MAXPROC} - {c}" for a using K(7) [OF c] K(10) by auto
  then show ?thesis by (rule asl_room [OF K(3) _ K(9) [OF c]])
qed

lemma kinv_insertBlocked:
  assumes k: "kinv s k" and p: "p \<in> set (kheld k)" and a: "a \<noteq> 0" "a \<noteq> MAXADD"
  shows "\<exists>s'. insertBlocked a (Some p) s = Some (False, s') \<and>
     kinv s' (k\<lparr>kblocked := (kblocked k)(a := kblocked k a @ [p]), kheld := remove1 p (kheld k)\<rparr>) \<and>
     kframe s s' {}"
proof -
  let ?k' = "k\<lparr>kblocked := (kblocked k)(a := kblocked k a @ [p]), kheld := remove1 p (kheld k)\<rparr>"
  note K = kinvD [OF k]
  have u: "p \<in> set (unblocked k)" "p \<notin> set (kready k)" "p \<notin> set (kfree k)"
    using p K(8) by (auto simp: unblocked_def)
  obtain s' where s': "insertBlocked a (Some p) s = Some (False, s')"
    "asl s' (kblocked ?k')" "asl_step s s' p a (insert p (set (kblocked k a)))"
    using insertBlocked_refines [OF K(3) K(7) [OF u(1)] a(2)] kinv_room [OF k u(1)] by auto
  have "insert p (set (kblocked k a)) \<subseteq> insert p (\<Union>b. set (kblocked k b))" by auto
  note L = asl_step_lists [OF k s'(3) this u(3,2)]
  have "kpartition ?k'"
    by (rule kpartition_block [OF K(4), where c = p and a = a]) (use p a in \<open>simp_all add: unblocked_def\<close>)
  moreover have "\<forall>x \<in> set (unblocked ?k'). p_semAdd (pcbs s' x) = 0"
  proof
    fix x assume x: "x \<in> set (unblocked ?k')"
    have "p \<notin> set (unblocked ?k')" using u K(8) by (auto simp: unblocked_def)
    then have "x \<noteq> p" using x by auto
    moreover have "x \<in> set (unblocked k)" using x by (auto simp: unblocked_def dest: in_set_remove1)
    ultimately show "p_semAdd (pcbs s' x) = 0"
      using asl_step_frame(5) [OF s'(3), of x] K(6) by simp
  qed
  ultimately have "kinv s' ?k'" using L s'(2) by (simp add: kinv_def)
  with s'(1) asl_step_frame(1) [OF s'(3)] show ?thesis by blast
qed

lemma kinv_removeBlocked_empty:
  "kinv s k \<Longrightarrow> kblocked k a = [] \<Longrightarrow> a \<noteq> MAXADD \<Longrightarrow> removeBlocked a s = Some (None, s)"
  by (rule removeBlocked_empty [OF kinvD(3)])

text \<open>Common part of \<open>removeBlocked\<close> and \<open>outBlocked\<close>.\<close>

lemma kinv_taken:
  assumes k: "kinv s k" and p: "p \<in> set (kblocked k a)"
    and st: "asl s' ((kblocked k)(a := q))" "asl_step s s' p 0 (set (kblocked k a))"
    and q: "set q = set (kblocked k a) - {p}"
  shows "kinv s' (k\<lparr>kblocked := (kblocked k)(a := q), kheld := p # kheld k\<rparr>)" "kframe s s' {}"
proof -
  let ?k' = "k\<lparr>kblocked := (kblocked k)(a := q), kheld := p # kheld k\<rparr>"
  note K = kinvD [OF k]
  have pu: "p \<notin> set (unblocked k)" using K(7) p by auto
  then have pf: "p \<notin> set (kfree k)" "p \<notin> set (kready k)" by (auto simp: unblocked_def)
  have "set (kblocked k a) \<subseteq> insert p (\<Union>b. set (kblocked k b))" by auto
  note L = asl_step_lists [OF k st(2) this pf]
  have "kpartition ?k'"
  proof (rule kpartition_unblock [OF K(4) _ p])
    show "b = a" if "p \<in> set (kblocked k b)" for b using asl_disjoint [OF K(3)] that p by blast
  qed (use q in \<open>simp_all add: unblocked_def\<close>)
  moreover have "\<forall>x \<in> set (unblocked ?k'). p_semAdd (pcbs s' x) = 0"
    using asl_step_frame(5) [OF st(2)] K(6) by (auto simp: unblocked_def)
  ultimately show "kinv s' ?k'" using L st(1) by (simp add: kinv_def)
  show "kframe s s' {}" by (rule asl_step_frame(1) [OF st(2)])
qed

lemma kinv_removeBlocked:
  assumes k: "kinv s k" and p: "kblocked k a = p # q"
  shows "\<exists>s'. removeBlocked a s = Some (Some p, s') \<and>
     kinv s' (k\<lparr>kblocked := (kblocked k)(a := q), kheld := p # kheld k\<rparr>) \<and> kframe s s' {}"
proof -
  have d: "distinct (p # q)" using asl_distinct [OF kinvD(3) [OF k], of a] p by simp
  obtain s' where s': "removeBlocked a s = Some (Some p, s')" "asl s' ((kblocked k)(a := q))"
    "asl_step s s' p 0 (set (kblocked k a))"
    using removeBlocked_refines [OF kinvD(3) [OF k] p] by blast
  have m: "p \<in> set (kblocked k a)" "set q = set (kblocked k a) - {p}" using d p by auto
  show ?thesis using s'(1) kinv_taken [OF k m(1) s'(2,3) m(2)] by blast
qed

lemma kinv_outBlocked:
  assumes k: "kinv s k" and p: "p \<in> set (kblocked k a)"
  shows "\<exists>s'. outBlocked (Some p) s = Some (Some p, s') \<and>
     kinv s' (k\<lparr>kblocked := (kblocked k)(a := remove1 p (kblocked k a)), kheld := p # kheld k\<rparr>) \<and>
     kframe s s' {}"
proof -
  have d: "distinct (kblocked k a)" using asl_distinct [OF kinvD(3) [OF k]] .
  obtain s' where s': "outBlocked (Some p) s = Some (Some p, s')"
    "asl s' ((kblocked k)(a := remove1 p (kblocked k a)))" "asl_step s s' p 0 (set (kblocked k a))"
    using outBlocked_refines [OF kinvD(3) [OF k] p] by blast
  have "set (remove1 p (kblocked k a)) = set (kblocked k a) - {p}" using d by simp
  with s'(1) kinv_taken [OF k p s'(2,3)] show ?thesis by blast
qed

lemma kinv_outBlocked_missing:
  "kinv s k \<Longrightarrow> (\<And>a. p \<notin> set (kblocked k a)) \<Longrightarrow> outBlocked (Some p) s = Some (None, s)"
  by (rule outBlocked_missing [OF kinvD(3)])

subsection \<open>Allocation and release\<close>

lemma kinv_alloc_empty: "kinv s k \<Longrightarrow> kfree k = [] \<Longrightarrow> allocPcb s = Some (None, s)"
  using allocPcb_empty [of s] kinvD(1) [of s k] by simp

lemma kinv_alloc:
  assumes k: "kinv s k" and p: "kfree k = p # fs"
  shows "\<exists>s'. allocPcb s = Some (Some p, s') \<and> kinv s' (k\<lparr>kfree := fs, kheld := p # kheld k\<rparr>) \<and>
     kframe s s' {p} \<and> pcbs s' p = reset_pcb (pcbs s p)"
proof -
  let ?k' = "k\<lparr>kfree := fs, kheld := p # kheld k\<rparr>"
  note K = kinvD [OF k]
  have fl: "free_list s (p # fs)" using K(1) p by simp
  obtain h' where h': "allocPcb s = Some (Some p, s\<lparr>pcbFree_h := head_ptr fs, pcbs := h',
             processCount := processCount s + 1\<rparr>)"
     "free_list (s\<lparr>pcbFree_h := head_ptr fs, pcbs := h', processCount := processCount s + 1\<rparr>) fs"
     "h' p = reset_pcb (pcbs s p)"
    and out: "\<And>x. x \<notin> set (p # fs) \<Longrightarrow> h' x = pcbs s x"
    and dat: "\<And>x. x \<noteq> p \<Longrightarrow> pcb_data (h' x) = pcb_data (pcbs s x)"
    using allocPcb_refines [OF fl] by blast
  let ?s' = "s\<lparr>pcbFree_h := head_ptr fs, pcbs := h', processCount := processCount s + 1\<rparr>"
  have "h' x = pcbs s x" if "x \<in> set (kready k)" for x
    by (rule out) (use that K(8) p in \<open>auto simp: unblocked_def\<close>)
  then have q: "procq h' (readyQueue s) (kready k)"
    by (intro procq_frame [OF K(2)]) auto
  have b: "asl ?s' (kblocked k)"
  proof (rule asl_frame [OF K(3)])
    fix a x assume "x \<in> set (kblocked k a)"
    then have "x \<notin> set (p # fs)" using K(7) [of x a] p by (auto simp: unblocked_def)
    then show "same_queue_fields (pcbs s) (pcbs ?s') x" using out by (simp add: same_queue_fields_def)
  qed simp_all
  have part: "kpartition ?k'"
    by (rule kpartition_same [OF K(4)]) (use p in \<open>simp_all add: unblocked_def\<close>)
  have "length (kfree k) \<le> MAXPROC" by (rule kinv_free_le [OF k])
  then have "MAXPROC - length fs = Suc (MAXPROC - length (kfree k))" using p by simp
  then have pc: "processCount s + 1 = of_nat (MAXPROC - length fs)" using K(5) by simp
  have "p_semAdd (h' x) = 0" if "x \<in> set (unblocked ?k')" for x
  proof -
    have "x \<in> set (unblocked k)" using that p by (auto simp: unblocked_def)
    then have "p_semAdd (pcbs s x) = 0" by (rule K(6))
    moreover have "p_semAdd (h' x) = p_semAdd (pcbs s x)"
    proof (cases "x = p")
      case True
      then show ?thesis using h'(3) by simp
    next
      case False
      then show ?thesis by (rule dat [THEN pcb_data_eqD(7)])
    qed
    ultimately show ?thesis by simp
  qed
  with h'(2) q b part pc have "kinv ?s' ?k'" by (simp add: kinv_def)
  moreover have "kframe s ?s' {p}" using pcb_user_data [OF dat] by (simp add: kframe_def)
  ultimately show ?thesis using h'(1,3) by auto
qed

lemma kinv_free:
  assumes k: "kinv s k" and p: "p \<in> set (kheld k)"
  shows "\<exists>s'. freePcb (Some p) s = Some s' \<and>
     kinv s' (k\<lparr>kfree := kfree k @ [p], kheld := remove1 p (kheld k)\<rparr>) \<and> kframe s s' {}"
proof -
  let ?k' = "k\<lparr>kfree := kfree k @ [p], kheld := remove1 p (kheld k)\<rparr>"
  note K = kinvD [OF k]
  have u: "p \<in> set (unblocked k)" "p \<notin> set (kready k)" "p \<notin> set (kfree k)"
    using p K(8) by (auto simp: unblocked_def)
  obtain h' where h': "freePcb (Some p) s = Some (s\<lparr>pcbFree_h := head_ptr (kfree k @ [p]), pcbs := h',
             processCount := processCount s - 1\<rparr>)"
     "free_list (s\<lparr>pcbFree_h := head_ptr (kfree k @ [p]), pcbs := h',
             processCount := processCount s - 1\<rparr>) (kfree k @ [p])"
     "links_only (pcbs s) h' (insert p (set (kfree k)))"
    using freePcb_refines [OF K(1) u(3)] by blast
  let ?s' = "s\<lparr>pcbFree_h := head_ptr (kfree k @ [p]), pcbs := h', processCount := processCount s - 1\<rparr>"
  have "procq h' (readyQueue s) (kready k)"
    by (rule procq_links_only [OF K(2) h'(3)]) (use K(8) u in \<open>auto simp: unblocked_def\<close>)
  moreover have "asl ?s' (kblocked k)"
    by (rule asl_links_only [OF K(3)]) (use h'(3) K(7) u in \<open>auto simp: unblocked_def\<close>)
  moreover have part: "kpartition ?k'"
    by (rule kpartition_same [OF K(4)]) (use p in \<open>simp_all add: unblocked_def\<close>)
  moreover have "processCount s - 1 = of_nat (MAXPROC - length (kfree k @ [p]))"
  proof -
    have "distinct (kfree k @ [p])" "set (kfree k @ [p]) \<subseteq> {0..<MAXPROC}"
      using K(8) K(9) u by (auto simp: unblocked_def)
    then have "length (kfree k @ [p]) \<le> MAXPROC" by (rule length_le_of_subset_upt)
    then have "MAXPROC - length (kfree k) = Suc (MAXPROC - length (kfree k @ [p]))" by simp
    then show ?thesis using K(5) by simp
  qed
  moreover have "\<forall>x \<in> set (unblocked ?k'). p_semAdd (h' x) = 0"
    using K(6) u links_only_fields(7) [OF h'(3)] by (auto simp: unblocked_def dest: in_set_remove1)
  ultimately have "kinv ?s' ?k'" using h'(2) by (simp add: kinv_def)
  moreover have "kframe s ?s' {}"
    using pcb_user_data [OF links_only_data [OF h'(3)]] by (simp add: kframe_def)
  ultimately show ?thesis using h'(1) by blast
qed

end
