(* ===== verification/Nuc_Syscalls.thy ===== *)
theory Nuc_Syscalls
  imports Nucleus_Moves
begin

text \<open>
  The system calls of the nucleus (\<open>src/nucleousSystemCalls.c\<close>), with
  \<open>passupOrDie\<close> (\<open>src/exceptions.c\<close>) and \<open>getSemIndex\<close> (\<open>src/interrupts.c\<close>), which
  they call.  Each handler is a function from the state of the nucleus at its entry to
  the way the path ends and the state it leaves; \<open>currentProcess->p_s\<close> is read and
  written through \<open>upd_pcb\<close> and \<open>load\<close>.
\<close>

subsection \<open>Helpers of the handlers\<close>

definition curProc :: "nuc_state \<Rightarrow> pcb_t option" where
  "curProc s = load (pcbs s) (currentProcess s)"

text \<open>\<open>currentProcess->p_s.reg_v0 = v\<close>.\<close>

definition set_v0 :: "umps \<Rightarrow> u32 \<Rightarrow> nuc_state \<Rightarrow> nuc_state option" where
  "set_v0 U v s = upd_pcb (currentProcess s) (\<lambda>y. y\<lparr>p_s := set_gpr (ix_v0 U) v (p_s y)\<rparr>) s"

definition passupOrDie :: "umps \<Rightarrow> nat \<Rightarrow> nuc_state \<Rightarrow> (outcome \<times> nuc_state) option" where
  "passupOrDie U exceptionType s = do {
     c \<leftarrow> curProc s;
     if p_supportStruct c \<noteq> 0 then do {
       sp \<leftarrow> load_supp (p_supportStruct c) s;
       st \<leftarrow> load_state BIOSDATAPAGE s;
       let sp = sp\<lparr>sup_exceptState := (sup_exceptState sp)(exceptionType :=
                     copyState U st (sup_exceptState sp exceptionType))\<rparr>;
       s \<leftarrow> store_supp (p_supportStruct c) sp s;
       let x = sup_exceptContext sp exceptionType;
       Some (LDCXT (stackPtr x) (ctx_status x) (pc x), s)
     } else Some (SYSCALL TERMPROCESS 0 0 0, s)
   }"

text \<open>
  \<open>getSemIndex\<close>: the index of the semaphore of a device.  \<open>None\<close> is the
  \<open>default\<close> case, which calls \<open>PANIC\<close>.
\<close>

definition INTERTIMEINT :: u32 where "INTERTIMEINT = 2"
definition PLTINT :: u32 where "PLTINT = 1"

definition getSemIndex :: "umps \<Rightarrow> u32 \<Rightarrow> u32 \<Rightarrow> u32 \<Rightarrow> u32 option" where
  "getSemIndex U interruptLine deviceNo termIsRECV =
     (if interruptLine = INTERTIMEINT then Some (DEVICE_NUM - 1)
      else if interruptLine = DISKINT U \<or> interruptLine = FLASHINT U \<or>
              interruptLine = NETWINT U \<or> interruptLine = PRNTINT U
        then Some ((interruptLine - DISKINT U) * 8 + deviceNo)
      else if interruptLine = TERMINT U then
        (if termIsRECV \<noteq> 0 then Some ((interruptLine - DISKINT U) * 8 + deviceNo)
         else Some ((interruptLine - DISKINT U + 1) * 8 + deviceNo))
      else None)"

definition blockCurrentProcessAt :: "u32 \<Rightarrow> nuc_state \<Rightarrow> nuc_state option" where
  "blockCurrentProcessAt sem s = do {
     let (t, s) = read_tod s;
     s \<leftarrow> upd_pcb (currentProcess s) (\<lambda>y. y\<lparr>p_time := p_time y + (t - startT s)\<rparr>) s;
     (full, s) \<leftarrow> insertBlocked sem (currentProcess s) s;
     Some (s\<lparr>currentProcess := None\<rparr>)
   }"

subsection \<open>SYS1: create a process\<close>

definition create_Process :: "umps \<Rightarrow> nuc_state \<Rightarrow> (outcome \<times> nuc_state) option" where
  "create_Process U s = do {
     (tmp, s) \<leftarrow> allocPcb s;
     s \<leftarrow> (if tmp = None then set_v0 U (- 1) s
           else do {
             c \<leftarrow> curProc s;
             src \<leftarrow> load_state (reg_a1 U (p_s c)) s;
             s \<leftarrow> upd_pcb tmp (\<lambda>y. y\<lparr>p_s := copyState U src (p_s y)\<rparr>) s;
             c \<leftarrow> curProc s;
             let supportData = reg_a2 U (p_s c);
             s \<leftarrow> (if supportData \<noteq> 0
                   then upd_pcb tmp (\<lambda>y. y\<lparr>p_supportStruct := supportData\<rparr>) s else Some s);
             s \<leftarrow> insertReady tmp s;
             h \<leftarrow> insertChild (currentProcess s) tmp (pcbs s);
             set_v0 U 0 (s\<lparr>pcbs := h\<rparr>)
           });
     loadProcess (currentProcess s) s
   }"

subsection \<open>SYS2: terminate a process and its progeny\<close>

text \<open>
  The end of \<open>terminate_Process_rec\<close>: the process leaves the queue it is in and is freed.
\<close>

definition release_process :: "pcb_ptr \<Rightarrow> nuc_state \<Rightarrow> nuc_state option" where
  "release_process current s = do {
     x \<leftarrow> load (pcbs s) current;
     s \<leftarrow> (if p_semAdd x \<noteq> 0 then do {
             v \<leftarrow> load_int (p_semAdd x) s;
             s \<leftarrow> store_int (p_semAdd x) (v + 1) s;
             (r, s) \<leftarrow> outBlocked current s;
             Some s
           } else do {
             (r, s) \<leftarrow> outReady current s;
             Some s
           });
     freePcb current s
   }"

text \<open>
  The loop \<open>while (!emptyChild(current)) terminate_Process_rec(removeChild(current))\<close>, with
  the body of the recursive call written out (\<open>terminate_loop_unfold\<close> folds it back):
  one recursive function in place of a loop and a recursion that call each other.
\<close>

partial_function (option) terminate_loop :: "pcb_ptr \<Rightarrow> nuc_state \<Rightarrow> nuc_state option" where
  "terminate_loop current s = do {
     e \<leftarrow> emptyChild current (pcbs s);
     if e then Some s
     else do {
       (child, h) \<leftarrow> removeChild current (pcbs s);
       s \<leftarrow> (if child = None then Some (s\<lparr>pcbs := h\<rparr>)
             else do {
               (r, h) \<leftarrow> outChild child h;
               s \<leftarrow> terminate_loop child (s\<lparr>pcbs := h\<rparr>);
               release_process child s
             });
       terminate_loop current s
     }
   }"

definition terminate_Process_rec :: "pcb_ptr \<Rightarrow> nuc_state \<Rightarrow> nuc_state option" where
  "terminate_Process_rec current s =
     (if current = None then Some s
      else do {
        (r, h) \<leftarrow> outChild current (pcbs s);
        s \<leftarrow> terminate_loop current (s\<lparr>pcbs := h\<rparr>);
        release_process current s
      })"

lemma terminate_loop_unfold:
  "terminate_loop current s = do {
     e \<leftarrow> emptyChild current (pcbs s);
     if e then Some s
     else do {
       (child, h) \<leftarrow> removeChild current (pcbs s);
       s \<leftarrow> terminate_Process_rec child (s\<lparr>pcbs := h\<rparr>);
       terminate_loop current s
     }
   }"
  by (subst terminate_loop.simps) (simp add: terminate_Process_rec_def split: prod.split cong: if_cong)

definition terminate_Process :: "pcb_ptr \<Rightarrow> nuc_state \<Rightarrow> (outcome \<times> nuc_state) option" where
  "terminate_Process current s = do {
     s \<leftarrow> terminate_Process_rec current s;
     scheduler s
   }"

subsection \<open>SYS3 and SYS4: semaphores\<close>

definition passeren :: "umps \<Rightarrow> nuc_state \<Rightarrow> (outcome \<times> nuc_state) option" where
  "passeren U s = do {
     c \<leftarrow> curProc s;
     let s = s\<lparr>mutex := reg_a1 U (p_s c)\<rparr>;
     v \<leftarrow> load_int (mutex s) s;
     s \<leftarrow> store_int (mutex s) (v - 1) s;
     v \<leftarrow> load_int (mutex s) s;
     if sint v < 0 then do {
       s \<leftarrow> blockCurrentProcessAt (mutex s) s;
       scheduler s
     } else loadProcess (currentProcess s) s
   }"

definition verhogen :: "umps \<Rightarrow> nuc_state \<Rightarrow> (outcome \<times> nuc_state) option" where
  "verhogen U s = do {
     c \<leftarrow> curProc s;
     let s = s\<lparr>mutex := reg_a1 U (p_s c)\<rparr>;
     v \<leftarrow> load_int (mutex s) s;
     s \<leftarrow> store_int (mutex s) (v + 1) s;
     (tmp, s) \<leftarrow> removeBlocked (mutex s) s;
     s \<leftarrow> (if tmp \<noteq> None then insertReady tmp s else Some s);
     loadProcess (currentProcess s) s
   }"

subsection \<open>SYS5 to SYS8\<close>

definition wait_For_IO :: "umps \<Rightarrow> nuc_state \<Rightarrow> (outcome \<times> nuc_state) option" where
  "wait_For_IO U s = do {
     c \<leftarrow> curProc s;
     let lineNumber = reg_a1 U (p_s c);
     let deviceNumber = reg_a2 U (p_s c);
     case getSemIndex U lineNumber deviceNumber (reg_a3 U (p_s c)) of
       None \<Rightarrow> Some (PANIC, s)
     | Some deviceIndex \<Rightarrow> do {
         sem \<leftarrow> devSem U deviceIndex;
         v \<leftarrow> load_int sem s;
         s \<leftarrow> store_int sem (v - 1) s;
         s \<leftarrow> blockCurrentProcessAt sem (s\<lparr>softBlockedCount := softBlockedCount s + 1\<rparr>);
         scheduler s
       }
   }"

definition get_Cpu_Time :: "umps \<Rightarrow> nuc_state \<Rightarrow> (outcome \<times> nuc_state) option" where
  "get_Cpu_Time U s = do {
     let (t, s) = read_tod s;
     s \<leftarrow> upd_pcb (currentProcess s) (\<lambda>y. y\<lparr>p_time := p_time y + (t - startT s)\<rparr>) s;
     c \<leftarrow> curProc s;
     s \<leftarrow> set_v0 U (p_time c) s;
     let s = s\<lparr>startT := t\<rparr>;
     loadProcess (currentProcess s) s
   }"

definition wait_For_Clock :: "umps \<Rightarrow> nuc_state \<Rightarrow> (outcome \<times> nuc_state) option" where
  "wait_For_Clock U s = do {
     v \<leftarrow> load_int (clockSemaphore U) s;
     s \<leftarrow> store_int (clockSemaphore U) (v - 1) s;
     v \<leftarrow> load_int (clockSemaphore U) s;
     if sint v < 0 then do {
       s \<leftarrow> blockCurrentProcessAt (clockSemaphore U) (s\<lparr>softBlockedCount := softBlockedCount s + 1\<rparr>);
       scheduler s
     } else loadProcess (currentProcess s) s
   }"

definition get_support_data :: "umps \<Rightarrow> nuc_state \<Rightarrow> (outcome \<times> nuc_state) option" where
  "get_support_data U s = do {
     c \<leftarrow> curProc s;
     s \<leftarrow> set_v0 U (p_supportStruct c) s;
     loadProcess (currentProcess s) s
   }"

subsection \<open>The dispatcher\<close>

definition handleNucleousSystemcalls :: "umps \<Rightarrow> nuc_state \<Rightarrow> (outcome \<times> nuc_state) option" where
  "handleNucleousSystemcalls U s = do {
     systemState \<leftarrow> load_state BIOSDATAPAGE s;
     let currentSyscall = reg_a0 U systemState;
     if status systemState AND USERPON \<noteq> 0 then passupOrDie U GENERALEXCEPT s
     else do {
       s \<leftarrow> upd_pcb (currentProcess s) (\<lambda>y. y\<lparr>p_s := copyState U systemState (p_s y)\<rparr>) s;
       s \<leftarrow> upd_pcb (currentProcess s) (\<lambda>y. y\<lparr>p_s := (p_s y)\<lparr>pc_epc := pc_epc (p_s y) + 4\<rparr>\<rparr>) s;
       if currentSyscall = CREATEPROCESS then create_Process U s
       else if currentSyscall = TERMPROCESS then terminate_Process (currentProcess s) s
       else if currentSyscall = PASSEREN then passeren U s
       else if currentSyscall = VERHOGEN then verhogen U s
       else if currentSyscall = IOWAIT then wait_For_IO U s
       else if currentSyscall = GETTIME then get_Cpu_Time U s
       else if currentSyscall = CLOCKWAIT then wait_For_Clock U s
       else if currentSyscall = GETSUPPORTPTR then get_support_data U s
       else passupOrDie U GENERALEXCEPT s
     }
   }"

end
