(* ===== verification/Nuc_Paths.thy ===== *)
theory Nuc_Paths
  imports Nuc_Syscalls
begin

text \<open>
  The scheduler and the system calls on the abstract view of the nucleus: what each of
  them does to the queues, for every branch.  \<open>at_entry s k c\<close> is the state in which a
  handler is entered from a running process \<open>c\<close>; \<open>path_end\<close> says what a path leaves
  behind for each way it can end.
\<close>

subsection \<open>The invariant under updates outside the queues\<close>

lemma kinv_globals [simp]:
  "kinv (s\<lparr>currentProcess := c\<rparr>) k = kinv s k"
  "kinv (s\<lparr>softBlockedCount := n\<rparr>) k = kinv s k"
  "kinv (s\<lparr>startT := t\<rparr>) k = kinv s k"
  "kinv (s\<lparr>stopT := t\<rparr>) k = kinv s k"
  "kinv (s\<lparr>globalStartT := t\<rparr>) k = kinv s k"
  "kinv (s\<lparr>mutex := m\<rparr>) k = kinv s k"
  "kinv (s\<lparr>ints := I\<rparr>) k = kinv s k"
  "kinv (s\<lparr>states := S\<rparr>) k = kinv s k"
  "kinv (s\<lparr>supports := P\<rparr>) k = kinv s k"
  "kinv (s\<lparr>hardware := w\<rparr>) k = kinv s k"
  by (rule iffI; erule kinv_frame; simp add: same_queue_fields_def)+

lemma kinv_upd_pcb [simp]:
  assumes "pcbs s = h" "p_next y = p_next (h x)" "p_prev y = p_prev (h x)" "p_semAdd y = p_semAdd (h x)"
  shows "kinv (s\<lparr>pcbs := h(x := y)\<rparr>) k = kinv s k"
  by (rule iffI; erule kinv_frame; simp add: same_queue_fields_def assms)

lemma kinv_tree_only:
  assumes "kinv s k" and "tree_only (pcbs s) h D"
  shows "kinv (s\<lparr>pcbs := h\<rparr>) k"
  by (rule kinv_frame [OF assms(1)]) (simp_all add: same_queue_fields_def tree_only_fields [OF assms(2)])

lemma hw_globals [simp]:
  "pcbs (setTIMER t s) = pcbs s" "readyQueue (setTIMER t s) = readyQueue s"
  "currentProcess (setTIMER t s) = currentProcess s" "ints (setTIMER t s) = ints s"
  "processCount (setTIMER t s) = processCount s" "softBlockedCount (setTIMER t s) = softBlockedCount s"
  "startT (setTIMER t s) = startT s" "timer_out (hardware (setTIMER t s)) = t"
  "states (setTIMER t s) = states s" "supports (setTIMER t s) = supports s"
  "tod_in (hardware (setTIMER t s)) = tod_in (hardware s)" "tod_ix (hardware (setTIMER t s)) = tod_ix (hardware s)"
  "kinv (setTIMER t s) k = kinv s k"
  "currentProcess (setSTATUS t s) = currentProcess s" "pcbs (setSTATUS t s) = pcbs s"
  "ints (setSTATUS t s) = ints s" "softBlockedCount (setSTATUS t s) = softBlockedCount s"
  "processCount (setSTATUS t s) = processCount s" "supports (setSTATUS t s) = supports s"
  "STATUS (hardware (setSTATUS t s)) = t" "timer_out (hardware (setSTATUS t s)) = timer_out (hardware s)"
  "kinv (setSTATUS t s) k = kinv s k"
  by (simp_all add: setTIMER_def setSTATUS_def)

text \<open>The clock of the machine: its frequency and its readings.\<close>

definition hw_clock :: "nuc_state \<Rightarrow> u32 \<times> (nat \<Rightarrow> u32)" where
  "hw_clock s = (timescale (hardware s), tod_in (hardware s))"

lemma hw_clock_simps [simp]:
  "hw_clock (setTIMER t s) = hw_clock s" "hw_clock (setSTATUS t s) = hw_clock s"
  by (simp_all add: hw_clock_def setTIMER_def setSTATUS_def)

subsection \<open>States between paths\<close>

definition at_entry :: "nuc_state \<Rightarrow> kview \<Rightarrow> nat \<Rightarrow> bool" where
  "at_entry s k c \<longleftrightarrow> kinv s k \<and> currentProcess s = Some c \<and> kheld k = [c]"

definition path_end :: "outcome \<Rightarrow> nuc_state \<Rightarrow> kview \<Rightarrow> bool" where
  "path_end out s k \<longleftrightarrow> kinv s k \<and>
     (case out of
        LDST st \<Rightarrow> (\<exists>c. currentProcess s = Some c \<and> kheld k = [c] \<and> st = p_s (pcbs s c))
      | LDCXT a b d \<Rightarrow> (\<exists>c. currentProcess s = Some c \<and> kheld k = [c])
      | SYSCALL n a b d \<Rightarrow> (\<exists>c. currentProcess s = Some c \<and> kheld k = [c])
      | RETURN \<Rightarrow> (\<exists>c. currentProcess s = Some c \<and> kheld k = [c])
      | WAIT \<Rightarrow> currentProcess s = None \<and> kheld k = [] \<and> kready k = [] \<and>
           sint (softBlockedCount s) > 0 \<and> processCount s \<noteq> 0
      | HALT \<Rightarrow> kheld k = [] \<and> kready k = [] \<and> processCount s = 0
      | PANIC \<Rightarrow> True)"

lemma at_entryD:
  assumes "at_entry s k c"
  shows "kinv s k" "currentProcess s = Some c" "kheld k = [c]" "c \<in> set (kheld k)" "c \<in> set (unblocked k)"
    "c < MAXPROC" "p_semAdd (pcbs s c) = 0"
  using assms kinvD(6,9) [of s k c] by (auto simp: at_entry_def unblocked_def)

lemma loadProcess_entry:
  assumes "at_entry s k c"
  shows "loadProcess (Some c) s = Some (LDST (p_s (pcbs s c)), s)" "path_end (LDST (p_s (pcbs s c))) s k"
  using at_entryD(1-3) [OF assms] by (simp_all add: loadProcess_def path_end_def)

subsection \<open>The scheduler\<close>

lemma processCount_zero:
  assumes "kinv s k"
  shows "processCount s = 0 \<longleftrightarrow> length (kfree k) = MAXPROC"
proof -
  have le: "length (kfree k) \<le> MAXPROC" by (rule kinv_free_le [OF assms])
  define n where "n = MAXPROC - length (kfree k)"
  have n: "n < 2 ^ 32" by (simp add: n_def MAXPROC_def)
  have "processCount s = of_nat n" using kinvD(5) [OF assms] by (simp add: n_def)
  then have "processCount s = 0 \<longleftrightarrow> n = 0"
    using n by (auto simp: word_of_nat_eq_0_iff dest: dvd_imp_le)
  with le show ?thesis by (auto simp: n_def)
qed

lemma scheduler_dispatch:
  assumes k: "kinv s k" and h: "kheld k = []" and r: "kready k = p # rs"
  shows "\<exists>s'. scheduler s = Some (LDST (p_s (pcbs s p)), s') \<and>
     path_end (LDST (p_s (pcbs s p))) s' (k\<lparr>kready := rs, kheld := [p]\<rparr>) \<and> currentProcess s' = Some p \<and>
     hardware s' = (hardware s)\<lparr>tod_ix := Suc (tod_ix (hardware s)), timer_out := TIMESLICE\<rparr> \<and> startT s' = tod_in (hardware s) (tod_ix (hardware s)) \<and>
     ints s' = ints s \<and> softBlockedCount s' = softBlockedCount s \<and> supports s' = supports s \<and> states s' = states s \<and>
     (\<forall>x. pcb_user (pcbs s' x) = pcb_user (pcbs s x))"
proof -
  obtain s1 where s1: "removeReady s = Some (Some p, s1)"
    "kinv s1 (k\<lparr>kready := rs, kheld := p # kheld k\<rparr>)" "kframe s s1 {}"
    using kinv_removeReady [OF k r] by blast
  have f: "p_s (pcbs s1 p) = p_s (pcbs s p)" "hardware s1 = hardware s" "ints s1 = ints s"
    "softBlockedCount s1 = softBlockedCount s" "supports s1 = supports s" "states s1 = states s"
    "pcb_user (pcbs s1 x) = pcb_user (pcbs s x)" for x
    using kframe_p_s [OF s1(3)] kframe_globals [OF s1(3)] kframe_user [OF s1(3)] by simp_all
  show ?thesis
    using s1(1,2) f h
    by (simp add: scheduler_def updateTimeAndSwitch_def read_tod_def setTIMER_def loadProcess_def
        path_end_def Let_def)
qed

lemma scheduler_idle:
  assumes k: "kinv s k" and r: "kready k = []"
  shows "scheduler s =
     (if processCount s = 0 then Some (HALT, s)
      else if sint (softBlockedCount s) > 0
      then Some (WAIT, setSTATUS (ALLOFF OR IECON OR IMON) (setTIMER 0xFFFFFFFF (s\<lparr>currentProcess := None\<rparr>)))
      else Some (PANIC, s))"
  using kinv_removeReady_empty [OF k r] by (simp add: scheduler_def setStatusForWaiting_def Let_def)

text \<open>The scheduler never faults, and what it leaves is a state between paths.\<close>

lemma scheduler_safe:
  assumes k: "kinv s k" and h: "kheld k = []"
  shows "\<exists>out s' k'. scheduler s = Some (out, s') \<and> path_end out s' k' \<and>
     kfree k' = kfree k \<and> kblocked k' = kblocked k \<and> kready k = kheld k' @ kready k' \<and>
     ints s' = ints s \<and> softBlockedCount s' = softBlockedCount s \<and> supports s' = supports s \<and>
     (\<forall>x. pcb_user (pcbs s' x) = pcb_user (pcbs s x))"
proof (cases "kready k")
  case Nil
  then show ?thesis using k h by (simp add: scheduler_idle path_end_def) force
next
  case (Cons p rs)
  from scheduler_dispatch [OF k h Cons] obtain s' where
    "scheduler s = Some (LDST (p_s (pcbs s p)), s')"
    "path_end (LDST (p_s (pcbs s p))) s' (k\<lparr>kready := rs, kheld := [p]\<rparr>)"
    "ints s' = ints s" "softBlockedCount s' = softBlockedCount s" "supports s' = supports s"
    "\<forall>x. pcb_user (pcbs s' x) = pcb_user (pcbs s x)" by blast
  then show ?thesis using Cons by force
qed

text \<open>What the scheduler chooses: the first ready process; without one HALT, WAIT or PANIC.\<close>

definition next_run :: "pcb_heap \<Rightarrow> nat list \<Rightarrow> nat list \<Rightarrow> u32 \<Rightarrow> outcome" where
  "next_run h ready free soft = (case ready of p # rs \<Rightarrow> LDST (p_s (h p))
     | [] \<Rightarrow> if length free = MAXPROC then HALT else if sint soft > 0 then WAIT else PANIC)"

lemma scheduler_out:
  assumes "kinv s k" and "kheld k = []" and "scheduler s = Some (out, s')"
  shows "out = next_run (pcbs s) (kready k) (kfree k) (softBlockedCount s)"
proof (cases "kready k")
  case Nil
  then show ?thesis using scheduler_idle [OF assms(1) Nil] processCount_zero [OF assms(1)] assms(3)
    by (auto simp: next_run_def split: if_splits)
next
  case (Cons p rs)
  then show ?thesis using scheduler_dispatch [OF assms(1,2) Cons] assms(3) by (auto simp: next_run_def)
qed

lemma next_run_cong:
  "(\<And>p. p \<in> set ready \<Longrightarrow> p_s (h p) = p_s (g p)) \<Longrightarrow> next_run h ready free soft = next_run g ready free soft"
  by (simp add: next_run_def split: list.split)

subsection \<open>Blocking the current process\<close>

lemma at_entry_globals [simp]:
  "at_entry (s\<lparr>softBlockedCount := n\<rparr>) k c = at_entry s k c"
  "at_entry (s\<lparr>startT := t\<rparr>) k c = at_entry s k c"
  "at_entry (s\<lparr>stopT := t\<rparr>) k c = at_entry s k c"
  "at_entry (s\<lparr>mutex := m\<rparr>) k c = at_entry s k c"
  "at_entry (s\<lparr>ints := I\<rparr>) k c = at_entry s k c"
  "at_entry (s\<lparr>supports := P\<rparr>) k c = at_entry s k c"
  "at_entry (s\<lparr>hardware := w\<rparr>) k c = at_entry s k c"
  by (simp_all add: at_entry_def)

lemma at_entry_upd [simp]:
  assumes "pcbs s = h" "p_next y = p_next (h x)" "p_prev y = p_prev (h x)" "p_semAdd y = p_semAdd (h x)"
  shows "at_entry (s\<lparr>pcbs := h(x := y)\<rparr>) k c = at_entry s k c"
  by (simp add: at_entry_def kinv_upd_pcb [OF assms])

text \<open>
  \<open>charge s c\<close> is the heap after the time since \<open>startT\<close> is added to the account of
  \<open>c\<close>; the clock is read once.
\<close>

definition charge :: "nuc_state \<Rightarrow> nat \<Rightarrow> pcb_heap" where
  "charge s c = (pcbs s)(c := (pcbs s c)\<lparr>p_time := p_time (pcbs s c) +
     (tod_in (hardware s) (tod_ix (hardware s)) - startT s)\<rparr>)"

lemma charge_globals [simp]:
  "charge (s\<lparr>softBlockedCount := n\<rparr>) c = charge s c" "charge (s\<lparr>mutex := m\<rparr>) c = charge s c"
  "charge (s\<lparr>ints := I\<rparr>) c = charge s c"
  by (simp_all add: charge_def)

lemma charge_fields [simp]:
  "p_s (charge s c x) = p_s (pcbs s x)" "p_prnt (charge s c x) = p_prnt (pcbs s x)"
  "p_child (charge s c x) = p_child (pcbs s x)" "p_next_sib (charge s c x) = p_next_sib (pcbs s x)"
  "p_prev_sib (charge s c x) = p_prev_sib (pcbs s x)"
  "p_supportStruct (charge s c x) = p_supportStruct (pcbs s x)"
  by (simp_all add: charge_def)

lemma blockCurrentProcessAt_correct:
  assumes e: "at_entry s k c" and a: "a \<noteq> 0" "a \<noteq> MAXADD"
  shows "\<exists>s'. blockCurrentProcessAt a s = Some s' \<and>
     kinv s' (k\<lparr>kblocked := (kblocked k)(a := kblocked k a @ [c]), kheld := []\<rparr>) \<and>
     currentProcess s' = None \<and> ints s' = ints s \<and> softBlockedCount s' = softBlockedCount s \<and>
     supports s' = supports s \<and> states s' = states s \<and> hw_clock s' = hw_clock s \<and>
     (\<forall>x. pcb_user (pcbs s' x) = pcb_user (charge s c x))"
proof -
  let ?s1 = "(snd (read_tod s))\<lparr>pcbs := charge s c\<rparr>"
  note E = at_entryD [OF e]
  have "kinv ?s1 k" using E(1) by (simp add: read_tod_def charge_def Let_def)
  from kinv_insertBlocked [OF this E(4) a] E(3) obtain s2 where
    s2: "insertBlocked a (Some c) ?s1 = Some (False, s2)"
    "kinv s2 (k\<lparr>kblocked := (kblocked k)(a := kblocked k a @ [c]), kheld := []\<rparr>)" "kframe ?s1 s2 {}"
    by auto
  have "blockCurrentProcessAt a s = Some (s2\<lparr>currentProcess := None\<rparr>)"
    using E(2) s2(1) by (simp add: blockCurrentProcessAt_def read_tod_def charge_def Let_def)
  with s2(2) kframe_globals [OF s2(3)] kframe_user [OF s2(3)] show ?thesis
    by (simp add: read_tod_def hw_clock_def Let_def)
qed

lemma block_and_schedule:
  assumes e: "at_entry s k c" and a: "a \<noteq> 0" "a \<noteq> MAXADD"
  shows "\<exists>out s' k'. blockCurrentProcessAt a s \<bind> scheduler = Some (out, s') \<and> path_end out s' k' \<and>
     kfree k' = kfree k \<and> ints s' = ints s \<and> supports s' = supports s \<and>
     softBlockedCount s' = softBlockedCount s \<and>
     kblocked k' = (kblocked k)(a := kblocked k a @ [c]) \<and> kready k = kheld k' @ kready k' \<and>
     (\<forall>x. pcb_user (pcbs s' x) = pcb_user (charge s c x))"
proof -
  obtain s1 where s1: "blockCurrentProcessAt a s = Some s1"
    "kinv s1 (k\<lparr>kblocked := (kblocked k)(a := kblocked k a @ [c]), kheld := []\<rparr>)"
    "ints s1 = ints s" "softBlockedCount s1 = softBlockedCount s" "supports s1 = supports s"
    "\<And>x. pcb_user (pcbs s1 x) = pcb_user (charge s c x)"
    using blockCurrentProcessAt_correct [OF assms] by blast
  from scheduler_safe [OF s1(2)] obtain out s' k' where "scheduler s1 = Some (out, s')"
    "path_end out s' k'" "kfree k' = kfree k" "kblocked k' = (kblocked k)(a := kblocked k a @ [c])"
    "kready k = kheld k' @ kready k'" "ints s' = ints s1" "softBlockedCount s' = softBlockedCount s1"
    "supports s' = supports s1" "\<And>x. pcb_user (pcbs s' x) = pcb_user (pcbs s1 x)" by auto
  with s1 show ?thesis by (intro exI [of _ out] exI [of _ s'] exI [of _ k']) simp
qed

end
