(* ===== verification/Pcb_Family.thy ===== *)
theory Pcb_Family
  imports Pcb_Tree
begin

text \<open>
  The children of a process as \<open>src/pcb.c\<close> leaves them once \<open>outChild\<close> has taken a child out of
  the middle.  The list that starts at \<open>p_child\<close> and follows \<open>p_next_sib\<close> is still right, but the
  child after the one that left has lost its \<open>p_prev_sib\<close>.  \<open>brood h r xs\<close> is \<open>kids h r xs\<close>
  without the promise that every back pointer is set: it is \<open>None\<close> or right.  \<open>insertChild\<close> and
  \<open>removeChild\<close> keep it, and the last section says exactly what \<open>outChild\<close> writes, in any heap.
\<close>

subsection \<open>The list of siblings\<close>

fun sibs :: "pcb_ptr \<Rightarrow> pcb_heap \<Rightarrow> nat list \<Rightarrow> bool" where
  "sibs w h [] = True"
| "sibs w h (x # xs) \<longleftrightarrow> nsib h x = head_ptr xs \<and> (psib h x = None \<or> psib h x = w) \<and> sibs (Some x) h xs"

definition brood :: "pcb_heap \<Rightarrow> nat \<Rightarrow> nat list \<Rightarrow> bool" where
  "brood h r xs \<longleftrightarrow> distinct (r # xs) \<and> p_child (h r) = head_ptr xs \<and> sibs None h xs \<and>
     (\<forall>x \<in> set xs. p_prnt (h x) = Some r)"

lemma sibs_cong:
  assumes "\<And>x. x \<in> set xs \<Longrightarrow> nsib h' x = nsib h x \<and> psib h' x = psib h x"
  shows "sibs w h' xs = sibs w h xs"
  using assms by (induction w h xs rule: sibs.induct) auto

lemma kids_brood: "kids h r xs \<Longrightarrow> brood h r xs"
proof -
  have "chained (nsib h) (psib h) ys \<Longrightarrow> nsib h (last ys) = None \<Longrightarrow> psib h (hd ys) = w \<Longrightarrow> sibs w h ys" for w ys
    by (induction ys arbitrary: w) (auto simp: chained_Cons linked_def head_ptr_def)
  then show "kids h r xs \<Longrightarrow> brood h r xs" by (cases "xs = []") (auto simp: kids_def brood_def)
qed

lemma brood_Nil: "brood h r [] \<longleftrightarrow> p_child (h r) = None"
  by (simp add: brood_def)

lemma brood_frame:
  assumes "brood h r xs" and "p_child (h' r) = p_child (h r)"
    and "\<And>x. x \<in> set xs \<Longrightarrow> p_prnt (h' x) = p_prnt (h x) \<and> nsib h' x = nsib h x \<and> psib h' x = psib h x"
  shows "brood h' r xs"
  using assms sibs_cong [of xs h' h None] by (simp add: brood_def)

lemma sibs_append:
  "sibs w h (as @ c # bs) \<longleftrightarrow>
     (if as = [] then psib h c = None \<or> psib h c = w
      else sibs w (h(last as := (h (last as))\<lparr>p_next_sib := None\<rparr>)) as \<and> nsib h (last as) = Some c \<and>
        (psib h c = None \<or> psib h c = Some (last as))) \<and> nsib h c = head_ptr bs \<and> sibs (Some c) h bs"
  if "distinct as"
  using that
proof (induction as arbitrary: w)
  case (Cons a as)
  show ?case
  proof (cases "as = []")
    case False
    let ?h = "h(last as := (h (last as))\<lparr>p_next_sib := None\<rparr>)"
    have a: "a \<noteq> last as" using Cons.prems False by auto
    have "head_ptr (as @ c # bs) = head_ptr as" using False by (simp add: head_ptr_append)
    then have "sibs w h ((a # as) @ c # bs) \<longleftrightarrow>
      nsib h a = head_ptr as \<and> (psib h a = None \<or> psib h a = w) \<and> sibs (Some a) h (as @ c # bs)" by simp
    with Cons.IH [of "Some a"] Cons.prems False a show ?thesis by auto
  qed auto
qed auto

text \<open>Following \<open>p_next_sib\<close> stays inside the list, and only its first element has no predecessor.\<close>

lemma sibs_next: "sibs w h xs \<Longrightarrow> x \<in> set xs \<Longrightarrow> nsib h x = Some y \<Longrightarrow> y \<in> set (tl xs)"
proof (induction w h xs rule: sibs.induct)
  case (2 w h a xs)
  show ?case
  proof (cases "x = a")
    case True
    then show ?thesis using 2 by (cases xs) auto
  next
    case False
    then have "y \<in> set (tl xs)" using 2 by auto
    then show ?thesis by (cases xs) auto
  qed
qed simp

lemma sibs_prev: "sibs w h xs \<Longrightarrow> y \<in> set (tl xs) \<Longrightarrow> \<exists>x \<in> set xs. nsib h x = Some y"
proof (induction w h xs rule: sibs.induct)
  case (2 w h a xs)
  then obtain b ys where xs: "xs = b # ys" by (cases xs) auto
  show ?case
  proof (cases "y = b")
    case True
    then show ?thesis using 2(2) xs by auto
  next
    case False
    then show ?thesis using 2 xs by auto
  qed
qed simp

lemma sibs_lastSibling:
  "sibs w h xs \<Longrightarrow> xs \<noteq> [] \<Longrightarrow> lastSibling (Some (hd xs)) h = Some (Some (last xs))"
proof (induction w h xs rule: sibs.induct)
  case (2 w h x xs)
  show ?case
  proof (cases "xs = []")
    case True
    with 2 show ?thesis by (simp add: lastSibling.simps)
  next
    case False
    with 2 have "nsib h x = Some (hd xs)" "lastSibling (Some (hd xs)) h = Some (Some (last xs))"
      by (auto simp: head_ptr_def)
    with False show ?thesis by (subst lastSibling.simps) simp
  qed
qed simp

lemma sibs_last: "sibs w h xs \<Longrightarrow> xs \<noteq> [] \<Longrightarrow> nsib h (last xs) = None"
  by (induction w h xs rule: sibs.induct) auto

text \<open>The list after an element that is not the first has left it.\<close>

lemma sibs_drop:
  assumes s: "sibs w h (as @ c # bs)" and d: "distinct (as @ c # bs)" and as: "as \<noteq> []"
    and h': "\<And>x. x \<in> set (as @ bs) \<Longrightarrow> nsib h' x = (if x = last as then nsib h c else nsib h x)"
    "\<And>x. x \<in> set (as @ bs) \<Longrightarrow> psib h' x = (if bs \<noteq> [] \<and> x = hd bs then None else psib h x)"
  shows "sibs w h' (as @ bs)"
proof -
  let ?cut = "\<lambda>g. g(last as := (g (last as))\<lparr>p_next_sib := None\<rparr>)"
  have da: "distinct as" and la: "last as \<in> set as" using d as by auto
  have S: "sibs w (?cut h) as" "nsib h c = head_ptr bs" "sibs (Some c) h bs"
    using s as by (simp_all add: sibs_append [OF da])
  have "x \<noteq> hd bs" if "x \<in> set as" "bs \<noteq> []" for x using d that hd_in_set [of bs] by auto
  then have A: "sibs w (?cut h') as"
    using S(1) h' d as by (subst sibs_cong [of as _ "?cut h"]) auto
  show ?thesis
  proof (cases bs)
    case Nil
    have "sibs w h' as" using A h'(1) [of "last as"] S(2) Nil la by (subst sibs_cong [of as _ "?cut h'"]) auto
    then show ?thesis using Nil by simp
  next
    case (Cons b ys)
    have b: "b \<noteq> last as" "b \<notin> set ys" "last as \<notin> set ys" "b \<notin> set as" using d la Cons by auto
    have "sibs (Some b) h' ys" using S(3) h' b Cons by (subst sibs_cong [of ys _ h]) auto
    then show ?thesis
      using A S h' [of b] h'(1) [of "last as"] la b Cons as by (simp add: sibs_append [OF da])
  qed
qed

lemma emptyChild_brood: "brood h r xs \<Longrightarrow> emptyChild (Some r) h = Some (xs = [])"
  by (auto simp: emptyChild_def brood_def)

subsection \<open>insertChild and removeChild\<close>

text \<open>\<open>p\<close> has joined the children \<open>xs\<close> of \<open>r\<close>; of the other links only the one to \<open>p\<close> is written.\<close>

definition adopted :: "pcb_heap \<Rightarrow> pcb_heap \<Rightarrow> nat \<Rightarrow> nat list \<Rightarrow> nat \<Rightarrow> bool" where
  "adopted h h' r xs p \<longleftrightarrow> brood h' r (xs @ [p]) \<and>
     (\<forall>x. nsib h' x = (if x = p then None else if xs \<noteq> [] \<and> x = last xs then Some p else nsib h x)) \<and>
     psib h' p = (if xs = [] then None else Some (last xs)) \<and>
     (\<forall>x. x \<noteq> p \<longrightarrow> p_prnt (h' x) = p_prnt (h x) \<and> psib h' x = psib h x \<and> (x \<noteq> r \<longrightarrow> p_child (h' x) = p_child (h x)))"

lemma adopted_frame:
  assumes "adopted h h' r xs p"
    and "\<And>x. x \<noteq> p \<Longrightarrow> p_prnt (h x) = p_prnt (g x) \<and> p_child (h x) = p_child (g x) \<and> nsib h x = nsib g x \<and> psib h x = psib g x"
    and "\<And>x. p_prnt (g' x) = p_prnt (h' x) \<and> p_child (g' x) = p_child (h' x) \<and> nsib g' x = nsib h' x \<and> psib g' x = psib h' x"
  shows "adopted g g' r xs p"
proof -
  have "brood g' r (xs @ [p])" using assms(1,3) brood_frame [of h' r "xs @ [p]" g'] by (simp add: adopted_def)
  then show ?thesis using assms by (simp add: adopted_def)
qed

lemma adoptedD:
  assumes "adopted h h' r xs p"
  shows "brood h' r (xs @ [p])" "nsib h' p = None" "x \<noteq> p \<Longrightarrow> p_prnt (h' x) = p_prnt (h x)"
    "x \<noteq> p \<Longrightarrow> psib h' x = psib h x" "x \<noteq> p \<Longrightarrow> x \<notin> set xs \<Longrightarrow> nsib h' x = nsib h x"
    "x \<noteq> p \<Longrightarrow> x \<noteq> r \<Longrightarrow> p_child (h' x) = p_child (h x)"
  using assms by (auto simp: adopted_def)

lemma insertChild_brood:
  assumes k: "brood h r xs" and new: "p \<notin> set xs" "p \<noteq> r"
  shows "\<exists>h'. insertChild (Some r) (Some p) h = Some h' \<and> adopted h h' r xs p \<and>
     p_child (h' p) = p_child (h p) \<and> tree_only h h' (insert r (insert p (set xs)))"
proof (cases "xs = []")
  case True
  then show ?thesis using k new
    by (auto simp: insertChild_def emptyChild_def adopted_def brood_def tree_only_def pcb_core_def)
next
  case False
  let ?t = "last xs"
  let ?h1 = "h(p := (h p)\<lparr>p_prnt := Some r, p_next_sib := None\<rparr>)"
  let ?h2 = "?h1(?t := (?h1 ?t)\<lparr>p_next_sib := Some p\<rparr>)"
  let ?h' = "?h2(p := (?h2 p)\<lparr>p_prev_sib := Some ?t\<rparr>)"
  have pt: "?t \<noteq> p" "r \<noteq> ?t" "distinct xs" "sibs None h xs" using new False k by (auto simp: brood_def)
  have same: "sibs None ?h1 xs" using pt(4) new(1) by (subst sibs_cong [of xs ?h1 h]) auto
  have "lastSibling (Some (hd xs)) ?h1 = Some (Some ?t)" by (rule sibs_lastSibling [OF same False])
  then have run: "insertChild (Some r) (Some p) h = Some ?h'"
    using k new pt False by (simp add: insertChild_def emptyChild_def brood_def head_ptr_def)
  have "nsib h ?t = None" using sibs_append [of "butlast xs" None h ?t "[]"] pt False by (simp add: distinct_butlast)
  then have "sibs None (?h'(?t := (?h' ?t)\<lparr>p_next_sib := None\<rparr>)) xs"
    using pt new(1) by (subst sibs_cong [of xs _ h]) auto
  then have "sibs None ?h' (xs @ [p])" using pt False by (simp add: sibs_append)
  then have "brood ?h' r (xs @ [p])" using k new pt False by (auto simp: brood_def head_ptr_append)
  moreover have "tree_only h ?h' (insert r (insert p (set xs)))" using False by (auto simp: tree_only_def pcb_core_def)
  ultimately show ?thesis using run pt new(2) False by (intro exI [of _ ?h']) (auto simp: adopted_def)
qed

lemma removeChild_brood:
  assumes k: "brood h r (c # xs)"
  shows "\<exists>h'. removeChild (Some r) h = Some (Some c, h') \<and> brood h' r xs \<and> p_prnt (h' c) = None \<and>
     tree_only h h' (insert r (set (c # xs)))"
proof (cases "xs = []")
  case True
  then show ?thesis using k
    by (auto simp: removeChild_def unlinkChild_def emptyChild_def brood_def tree_only_def pcb_core_def)
next
  case False
  then obtain n ys where xs: "xs = n # ys" by (cases xs) auto
  have k': "r \<noteq> c" "c \<notin> set xs" "r \<notin> set xs" "nsib h c = Some n" "psib h c = None" "n \<noteq> c" "n \<noteq> r"
    "p_child (h r) = Some c" "p_prnt (h c) = Some r" "sibs (Some c) h xs" "distinct xs"
    using k by (auto simp: brood_def xs)
  let ?h1 = "h(r := (h r)\<lparr>p_child := Some n\<rparr>)"
  let ?h2 = "?h1(c := (?h1 c)\<lparr>p_prnt := None\<rparr>)"
  let ?h3 = "?h2(n := (?h2 n)\<lparr>p_prev_sib := None\<rparr>)"
  let ?h' = "?h3(c := (?h3 c)\<lparr>p_next_sib := None\<rparr>)"
  have run: "removeChild (Some r) h = Some (Some c, ?h')"
    using k' by (simp add: removeChild_def unlinkChild_def emptyChild_def)
  have "sibs (Some n) ?h' ys = sibs (Some n) h ys"
    by (rule sibs_cong) (use k' in \<open>auto simp: xs\<close>)
  then have "sibs None ?h' xs" using k' by (auto simp: xs)
  then have "brood ?h' r xs" using k k' by (auto simp: brood_def xs)
  moreover have "tree_only h ?h' (insert r (set (c # xs)))" by (auto simp: tree_only_def pcb_core_def xs)
  ultimately show ?thesis using run k' by (intro exI [of _ ?h']) auto
qed

subsection \<open>outChild in any heap\<close>

text \<open>
  Everything that \<open>unlinkChild\<close> and \<open>outChild\<close> write, for any values of the pointers: the
  sibling before \<open>p\<close> gets \<open>p\<close>'s next sibling, the sibling after \<open>p\<close> gets \<open>NULL\<close>, and a parent whose
  first child is \<open>p\<close> gets \<open>p\<close>'s previous sibling as first child.
\<close>

lemma unlinkChild_links:
  "\<exists>h'. unlinkChild (Some p) h = Some (Some p, h') \<and> tree_only h h' UNIV \<and>
     (\<forall>x. p_prnt (h' x) = (if x = p then None else p_prnt (h x))) \<and>
     (\<forall>x. nsib h' x = (if x = p then None else if psib h p = Some x then nsib h p else nsib h x)) \<and>
     (\<forall>x. psib h' x = (if x = p \<or> nsib h p = Some x then None else psib h x)) \<and>
     (\<forall>x. p_child (h' x) = p_child (h x))"
  by (cases "psib h p"; cases "nsib h p") (auto simp: unlinkChild_def tree_only_def pcb_core_def Let_def)

lemma outChild_links:
  assumes "p_prnt (h p) = Some r"
  shows "\<exists>h'. outChild (Some p) h = Some (Some p, h') \<and> tree_only h h' UNIV \<and>
     (\<forall>x. p_prnt (h' x) = (if x = p then None else p_prnt (h x))) \<and>
     (\<forall>x. nsib h' x = (if x = p then None else if psib h p = Some x then nsib h p else nsib h x)) \<and>
     (\<forall>x. psib h' x = (if x = p \<or> nsib h p = Some x then None else psib h x)) \<and>
     (\<forall>x. p_child (h' x) = (if x = r \<and> p_child (h x) = Some p then psib h p else p_child (h x)))"
proof -
  let ?g = "if p_child (h r) = Some p then h(r := (h r)\<lparr>p_child := psib h p\<rparr>) else h"
  obtain h' where h': "unlinkChild (Some p) ?g = Some (Some p, h')" "tree_only ?g h' UNIV"
    "\<And>x. p_prnt (h' x) = (if x = p then None else p_prnt (?g x))"
    "\<And>x. nsib h' x = (if x = p then None else if psib ?g p = Some x then nsib ?g p else nsib ?g x)"
    "\<And>x. psib h' x = (if x = p \<or> nsib ?g p = Some x then None else psib ?g x)"
    "\<And>x. p_child (h' x) = p_child (?g x)"
    using unlinkChild_links [of p ?g] by blast
  have run: "outChild (Some p) h = Some (Some p, h')"
    using assms h'(1) by (simp add: outChild_def split: if_splits)
  have g: "p_prnt (?g x) = p_prnt (h x)" "nsib ?g x = nsib h x" "psib ?g x = psib h x" "pcb_core (?g x) = pcb_core (h x)"
    "p_child (?g x) = (if x = r \<and> p_child (h x) = Some p then psib h p else p_child (h x))" for x
    by (auto simp: pcb_core_def)
  show ?thesis
    using run h'(2) h'(3-6) [unfolded g] g(4) by (intro exI [of _ h']) (simp add: tree_only_def)
qed

subsection \<open>Why a back pointer matters\<close>

text \<open>\<open>leads h as c\<close>: from the first of \<open>as\<close> the next siblings lead through \<open>as\<close> to \<open>c\<close>.\<close>

fun leads :: "pcb_heap \<Rightarrow> nat list \<Rightarrow> nat \<Rightarrow> bool" where
  "leads h [] c = True"
| "leads h (a # as) c \<longleftrightarrow> nsib h a = Some (hd (as @ [c])) \<and> leads h as c"

lemma sibs_leads: "sibs w h (as @ c # bs) \<Longrightarrow> leads h as c"
  by (induction as arbitrary: w) (auto simp: head_ptr_def hd_append)

lemma leads_redirect:
  assumes "leads h as c" and "distinct as"
    and "\<And>x. x \<in> set as \<Longrightarrow> nsib h' x = (if x = last as then Some d else nsib h x)"
  shows "leads h' as d"
  using assms
proof (induction as)
  case (Cons a as)
  show ?case
  proof (cases "as = []")
    case True
    then show ?thesis using Cons.prems(3) [of a] by simp
  next
    case False
    then have "leads h' as d" using Cons by simp
    moreover have "nsib h' a = nsib h a" using Cons.prems(2,3) False by auto
    ultimately show ?thesis using Cons.prems(1) False by (simp add: hd_append)
  qed
qed simp

lemma leads_cong: "leads h as c \<Longrightarrow> (\<And>x. x \<in> set as \<Longrightarrow> nsib h' x = nsib h x) \<Longrightarrow> leads h' as c"
  by (induction as) simp_all

lemma leads_lastSibling: "leads h as c \<Longrightarrow> lastSibling (Some (hd (as @ [c]))) h = lastSibling (Some c) h"
  by (induction as) (simp_all add: lastSibling.simps [of "Some (a :: nat)" for a])

lemma lastSibling_loop:
  assumes "nsib h x = Some x"
  shows "lastSibling (Some x) h = None"
proof -
  have "lastSibling it g = Some y \<Longrightarrow> it = Some x \<and> g = h \<longrightarrow> False" for it g y
    by (rule lastSibling.raw_induct [of "\<lambda>it g y. it = Some x \<and> g = h \<longrightarrow> False"])
      (fastforce simp: assms split: if_splits)
  then show ?thesis by (cases "lastSibling (Some x) h") auto
qed

text \<open>
  C24: What the lost back pointer leads to.  When two siblings that follow each other, neither of them the first child, end one
  after the other, the second leaves the sibling before them pointing to its block.  Once this block
  is a child of the same parent again, whatever it held when it was reused, it is its own next sibling, and the next
  insertChild for this parent never ends: the next SYS1 of the parent hangs the nucleus.
\<close>

theorem reused_sibling_loops:
  assumes "kids h r (as @ p # x # bs)" and "as \<noteq> []" and "q \<notin> set (r # as @ [x])"
  shows "\<exists>h1 h2 h3. outChild (Some p) h = Some (Some p, h1) \<and> outChild (Some x) h1 = Some (Some x, h2) \<and>
    insertChild (Some r) (Some x) (h2(x := y)) = Some h3 \<and> nsib h3 x = Some x \<and>
    insertChild (Some r) (Some q) h3 = None"
proof -
  have k: "distinct (r # as @ p # x # bs)" "p_child (h r) = Some (hd as)" "leads h as p" "nsib h p = Some x"
    "psib h p = Some (last as)" "p_prnt (h p) = Some r" "p_prnt (h x) = Some r"
    using assms(1,2) sibs_leads [of None h as p "x # bs"] kids_brood [OF assms(1)]
    by (auto simp: kids_def brood_def head_ptr_append head_ptr_def chained_append chained_Cons linked_def)
  have hd: "hd as \<in> set as" using assms(2) by simp
  obtain h1 where h1: "outChild (Some p) h = Some (Some p, h1)"
    "\<And>z. p_prnt (h1 z) = (if z = p then None else p_prnt (h z))"
    "\<And>z. nsib h1 z = (if z = p then None else if psib h p = Some z then nsib h p else nsib h z)"
    "\<And>z. psib h1 z = (if z = p \<or> nsib h p = Some z then None else psib h z)"
    "\<And>z. p_child (h1 z) = (if z = r \<and> p_child (h z) = Some p then psib h p else p_child (h z))"
    using outChild_links [of h p r, OF k(6)] by blast
  have x1: "p_prnt (h1 x) = Some r" using h1(2) k(1,7) by auto
  obtain h2 where h2: "outChild (Some x) h1 = Some (Some x, h2)"
    "\<And>z. nsib h2 z = (if z = x then None else if psib h1 x = Some z then nsib h1 x else nsib h1 z)"
    "\<And>z. p_child (h2 z) = (if z = r \<and> p_child (h1 z) = Some x then psib h1 x else p_child (h1 z))"
    using outChild_links [of h1 x r, OF x1] by blast
  have L2: "leads h2 as x"
    by (rule leads_redirect [OF k(3)]) (use k(1,4,5) h1(3,4) h2(2) in auto)
  have c2: "p_child (h2 r) = Some (hd as)" using h1(5) h2(3) k(1,2) hd by auto
  let ?g = "h2(x := y\<lparr>p_prnt := Some r, p_next_sib := None\<rparr>)"
  let ?h3 = "h2(x := y\<lparr>p_prnt := Some r, p_next_sib := Some x, p_prev_sib := Some x\<rparr>)"
  have out: "z \<noteq> x" "z \<noteq> q" if "z \<in> set as" for z using that k(1) assms(3) by auto
  have "lastSibling (Some (hd (as @ [x]))) ?g = Some (Some x)"
    using leads_lastSibling [OF leads_cong [OF L2, of ?g]] out by (simp add: lastSibling.simps)
  then have run: "insertChild (Some r) (Some x) (h2(x := y)) = Some ?h3"
    using c2 k(1) assms(2) by (simp add: insertChild_def emptyChild_def hd_append)
  let ?g' = "?h3(q := (?h3 q)\<lparr>p_prnt := Some r, p_next_sib := None\<rparr>)"
  have "lastSibling (Some (hd (as @ [x]))) ?g' = None"
    using leads_lastSibling [OF leads_cong [OF L2, of ?g']] out lastSibling_loop [of ?g' x] assms(3) by simp
  then have "insertChild (Some r) (Some q) ?h3 = None"
    using c2 k(1) assms(2,3) by (simp add: insertChild_def emptyChild_def hd_append)
  with h1(1) h2(1) run show ?thesis by (intro exI [of _ h1] exI [of _ h2] exI [of _ ?h3]) simp
qed

theorem reused_sibling_loops_witness:
  "\<exists>h1 h2 h3. outChild (Some 2) family = Some (Some 2, h1) \<and> outChild (Some 3) h1 = Some (Some 3, h2) \<and>
    insertChild (Some 0) (Some 3) (h2(3 := zero_pcb)) = Some h3 \<and> insertChild (Some 0) (Some 5) h3 = None"
  using reused_sibling_loops [of family 0 "[1]" 2 3 "[4]" 5 zero_pcb] family_kids by auto

end
