(* ===== verification/Sys_Lemmas.thy ===== *)
theory Sys_Lemmas
  imports Nuc_Paths Pcb_Family
begin

text \<open>
  What every system call of the nucleus does to the abstract view, on every branch.
  \<open>sem_addr\<close> are the addresses the semaphore list can hold: the list is searched up to a
  sentinel with key \<open>MAXADD\<close>, and \<open>0\<close> marks a process that is not blocked.
\<close>

definition sem_addr :: "u32 \<Rightarrow> bool" where
  "sem_addr a \<longleftrightarrow> a \<noteq> 0 \<and> a \<noteq> MAXADD"

lemma curProc_entry: "at_entry s k c \<Longrightarrow> curProc s = Some (pcbs s c)"
  by (simp add: curProc_def at_entryD)

subsection \<open>SYS3 and SYS4\<close>

lemma passeren_spec:
  assumes e: "at_entry s k c" and a: "a = reg_a1 U (p_s (pcbs s c))" "sem_addr a"
    and v: "v = ints s a - 1"
  shows "\<exists>out s' k'. passeren U s = Some (out, s') \<and> path_end out s' k' \<and> kfree k' = kfree k \<and>
     ints s' = (ints s)(a := v) \<and> supports s' = supports s \<and> softBlockedCount s' = softBlockedCount s \<and>
     (if sint v < 0
      then kblocked k' = (kblocked k)(a := kblocked k a @ [c]) \<and> kready k = kheld k' @ kready k' \<and>
        (\<forall>x. pcb_user (pcbs s' x) = pcb_user (charge s c x))
      else k' = k \<and> pcbs s' = pcbs s \<and> out = LDST (p_s (pcbs s c)))"
proof -
  let ?s1 = "s\<lparr>mutex := a, ints := (ints s)(a := v)\<rparr>"
  have a': "a \<noteq> 0" "a \<noteq> MAXADD" using a(2) by (simp_all add: sem_addr_def)
  have e1: "at_entry ?s1 k c" using e by simp
  have run: "passeren U s = (if sint v < 0 then blockCurrentProcessAt a ?s1 \<bind> scheduler
      else loadProcess (Some c) ?s1)"
    using a(1) a' at_entryD(2) [OF e]
    by (simp add: passeren_def curProc_entry [OF e] load_int_def store_int_def v Let_def)
  show ?thesis
  proof (cases "sint v < 0")
    case True
    from block_and_schedule [OF e1 a'] show ?thesis by (simp add: run True)
  next
    case False
    with loadProcess_entry [OF e1] show ?thesis by (simp add: run)
  qed
qed

lemma verhogen_spec:
  assumes e: "at_entry s k c" and a: "a = reg_a1 U (p_s (pcbs s c))" "sem_addr a"
  shows "\<exists>s' k'. verhogen U s = Some (LDST (p_s (pcbs s c)), s') \<and>
     path_end (LDST (p_s (pcbs s c))) s' k' \<and> currentProcess s' = Some c \<and>
     ints s' = (ints s)(a := ints s a + 1) \<and> softBlockedCount s' = softBlockedCount s \<and>
     supports s' = supports s \<and> states s' = states s \<and> hardware s' = hardware s \<and>
     (\<forall>x. pcb_user (pcbs s' x) = pcb_user (pcbs s x)) \<and>
     k' = (case kblocked k a of [] \<Rightarrow> k
           | p # q \<Rightarrow> k\<lparr>kblocked := (kblocked k)(a := q), kready := kready k @ [p]\<rparr>)"
proof -
  let ?s1 = "s\<lparr>mutex := a, ints := (ints s)(a := ints s a + 1)\<rparr>"
  have a': "a \<noteq> 0" "a \<noteq> MAXADD" using a(2) by (simp_all add: sem_addr_def)
  have e1: "at_entry ?s1 k c" using e by simp
  note E = at_entryD [OF e1]
  have run: "verhogen U s = do { (tmp, s) \<leftarrow> removeBlocked a ?s1;
       s \<leftarrow> (if tmp \<noteq> None then insertReady tmp s else Some s);
       loadProcess (currentProcess s) s }"
    using a(1) a' at_entryD(2) [OF e]
    by (simp add: verhogen_def curProc_entry [OF e] load_int_def store_int_def Let_def)
  show ?thesis
  proof (cases "kblocked k a")
    case Nil
    from kinv_removeBlocked_empty [OF E(1) Nil a'(2)] loadProcess_entry [OF e1] E(2) Nil
    show ?thesis by (simp add: run)
  next
    case (Cons p q)
    obtain s2 where s2: "removeBlocked a ?s1 = Some (Some p, s2)"
      "kinv s2 (k\<lparr>kblocked := (kblocked k)(a := q), kheld := p # kheld k\<rparr>)" "kframe ?s1 s2 {}"
      using kinv_removeBlocked [OF E(1) Cons] by blast
    obtain s3 where s3: "insertReady (Some p) s2 = Some s3"
      "kinv s3 (k\<lparr>kblocked := (kblocked k)(a := q), kready := kready k @ [p]\<rparr>)" "kframe s2 s3 {}"
      using kinv_insertReady [OF s2(2), of p] by auto
    have F: "kframe ?s1 s3 {}" using kframe_trans [OF s2(3) s3(3)] by simp
    have c3: "currentProcess s3 = Some c" "p_s (pcbs s3 c) = p_s (pcbs s c)"
      using kframe_globals(2) [OF F] E(2) kframe_p_s [OF F, of c] by simp_all
    have "verhogen U s = Some (LDST (p_s (pcbs s c)), s3)"
      using s2(1) s3(1) c3 by (simp add: run loadProcess_def Let_def)
    with s3(2) c3 E(3) Cons kframe_globals [OF F] kframe_user [OF F] show ?thesis
      by (simp add: path_end_def)
  qed
qed

subsection \<open>SYS5 and SYS7\<close>

lemma wait_For_IO_spec:
  assumes e: "at_entry s k c"
    and i: "getSemIndex U (reg_a1 U (p_s (pcbs s c))) (reg_a2 U (p_s (pcbs s c))) (reg_a3 U (p_s (pcbs s c))) = Some i"
    and a: "devSem U i = Some a" "sem_addr a"
  shows "\<exists>out s' k'. wait_For_IO U s = Some (out, s') \<and> path_end out s' k' \<and> kfree k' = kfree k \<and>
     ints s' = (ints s)(a := ints s a - 1) \<and> supports s' = supports s \<and>
     softBlockedCount s' = softBlockedCount s + 1 \<and> kblocked k' = (kblocked k)(a := kblocked k a @ [c]) \<and>
     kready k = kheld k' @ kready k' \<and>
     (\<forall>x. pcb_user (pcbs s' x) = pcb_user (charge s c x))"
proof -
  let ?s1 = "s\<lparr>ints := (ints s)(a := ints s a - 1), softBlockedCount := softBlockedCount s + 1\<rparr>"
  have a': "a \<noteq> 0" "a \<noteq> MAXADD" using a(2) by (simp_all add: sem_addr_def)
  have e1: "at_entry ?s1 k c" using e by simp
  have run: "wait_For_IO U s = blockCurrentProcessAt a ?s1 \<bind> scheduler"
    using a(1) a' i by (simp add: wait_For_IO_def curProc_entry [OF e] load_int_def store_int_def Let_def)
  from block_and_schedule [OF e1 a'] show ?thesis by (simp add: run)
qed

lemma wait_For_Clock_spec:
  assumes e: "at_entry s k c" and a: "sem_addr (clockSemaphore U)"
    and v: "v = ints s (clockSemaphore U) - 1"
  shows "\<exists>out s' k'. wait_For_Clock U s = Some (out, s') \<and> path_end out s' k' \<and> kfree k' = kfree k \<and>
     ints s' = (ints s)(clockSemaphore U := v) \<and> supports s' = supports s \<and>
     (if sint v < 0
      then softBlockedCount s' = softBlockedCount s + 1 \<and>
        kblocked k' = (kblocked k)(clockSemaphore U := kblocked k (clockSemaphore U) @ [c]) \<and>
        kready k = kheld k' @ kready k' \<and>
        (\<forall>x. pcb_user (pcbs s' x) = pcb_user (charge s c x))
      else softBlockedCount s' = softBlockedCount s \<and> k' = k \<and> pcbs s' = pcbs s \<and>
        out = LDST (p_s (pcbs s c)))"
proof -
  let ?a = "clockSemaphore U"
  let ?s1 = "s\<lparr>ints := (ints s)(?a := v)\<rparr>"
  let ?s2 = "s\<lparr>ints := (ints s)(?a := v), softBlockedCount := softBlockedCount s + 1\<rparr>"
  have a': "?a \<noteq> 0" "?a \<noteq> MAXADD" using a by (simp_all add: sem_addr_def)
  have e1: "at_entry ?s1 k c" "at_entry ?s2 k c" using e by simp_all
  have run: "wait_For_Clock U s = (if sint v < 0 then blockCurrentProcessAt ?a ?s2 \<bind> scheduler
      else loadProcess (Some c) ?s1)"
    using a' at_entryD(2) [OF e] by (simp add: wait_For_Clock_def load_int_def store_int_def v Let_def)
  show ?thesis
  proof (cases "sint v < 0")
    case True
    from block_and_schedule [OF e1(2) a'] show ?thesis by (simp add: run True)
  next
    case False
    with loadProcess_entry [OF e1(1)] show ?thesis by (simp add: run)
  qed
qed

subsection \<open>SYS6 and SYS8\<close>

lemma set_v0_entry:
  "at_entry s k c \<Longrightarrow> set_v0 U v s =
     Some (s\<lparr>pcbs := (pcbs s)(c := (pcbs s c)\<lparr>p_s := set_gpr (ix_v0 U) v (p_s (pcbs s c))\<rparr>)\<rparr>)"
  by (simp add: set_v0_def at_entryD)

lemma get_Cpu_Time_spec:
  assumes e: "at_entry s k c"
    and t: "t = tod_in (hardware s) (tod_ix (hardware s))" "d = p_time (pcbs s c) + (t - startT s)"
  shows "\<exists>s'. get_Cpu_Time U s = Some (LDST (set_gpr (ix_v0 U) d (p_s (pcbs s c))), s') \<and>
     path_end (LDST (set_gpr (ix_v0 U) d (p_s (pcbs s c)))) s' k \<and> startT s' = t \<and>
     p_time (pcbs s' c) = d \<and> ints s' = ints s \<and> supports s' = supports s \<and>
     softBlockedCount s' = softBlockedCount s \<and> states s' = states s \<and> currentProcess s' = Some c \<and>
     hardware s' = (hardware s)\<lparr>tod_ix := Suc (tod_ix (hardware s))\<rparr> \<and> (\<forall>x. x \<noteq> c \<longrightarrow> pcbs s' x = pcbs s x) \<and>
     pcb_core ((pcbs s' c)\<lparr>p_s := p_s (pcbs s c), p_time := p_time (pcbs s c)\<rparr>) = pcb_core (pcbs s c)"
proof -
  note E = at_entryD [OF e]
  have "at_entry (snd (read_tod s)) k c" using e by (simp add: read_tod_def Let_def)
  then show ?thesis using E
    by (simp add: get_Cpu_Time_def read_tod_def set_v0_def curProc_def loadProcess_def path_end_def t
        pcb_core_def Let_def)
qed

lemma get_support_data_spec:
  assumes e: "at_entry s k c"
  shows "\<exists>s'. get_support_data U s =
       Some (LDST (set_gpr (ix_v0 U) (p_supportStruct (pcbs s c)) (p_s (pcbs s c))), s') \<and>
     path_end (LDST (set_gpr (ix_v0 U) (p_supportStruct (pcbs s c)) (p_s (pcbs s c)))) s' k \<and>
     s' = s\<lparr>pcbs := pcbs s'\<rparr> \<and> (\<forall>x. x \<noteq> c \<longrightarrow> pcbs s' x = pcbs s x) \<and>
     pcbs s' c = (pcbs s c)\<lparr>p_s := set_gpr (ix_v0 U) (p_supportStruct (pcbs s c)) (p_s (pcbs s c))\<rparr>"
  using at_entryD(1-3) [OF e]
  by (simp add: get_support_data_def curProc_entry [OF e] set_v0_entry [OF e] loadProcess_def path_end_def)

subsection \<open>Passing an exception up\<close>

lemma passupOrDie_die:
  assumes e: "at_entry s k c" and "p_supportStruct (pcbs s c) = 0"
  shows "passupOrDie U x s = Some (SYSCALL TERMPROCESS 0 0 0, s)"
  by (simp add: passupOrDie_def curProc_entry [OF e] assms(2))

lemma passupOrDie_up:
  assumes e: "at_entry s k c" and a: "a = p_supportStruct (pcbs s c)" "a \<noteq> 0"
    and sp: "sp = supports s a"
  shows "passupOrDie U x s =
     Some (LDCXT (stackPtr (sup_exceptContext sp x)) (ctx_status (sup_exceptContext sp x))
                 (pc (sup_exceptContext sp x)),
       s\<lparr>supports := (supports s)(a := sp\<lparr>sup_exceptState := (sup_exceptState sp)(x :=
          copyState U (states s BIOSDATAPAGE) (sup_exceptState sp x))\<rparr>)\<rparr>)"
  using a by (simp add: passupOrDie_def curProc_entry [OF e] load_supp_def load_state_def store_supp_def
      BIOSDATAPAGE_def sp Let_def)

subsection \<open>SYS1\<close>

lemma create_Process_full:
  assumes e: "at_entry s k c" and f: "kfree k = []"
  shows "\<exists>s'. create_Process U s = Some (LDST (set_gpr (ix_v0 U) (- 1) (p_s (pcbs s c))), s') \<and>
     path_end (LDST (set_gpr (ix_v0 U) (- 1) (p_s (pcbs s c)))) s' k \<and>
     s' = s\<lparr>pcbs := pcbs s'\<rparr> \<and> (\<forall>x. x \<noteq> c \<longrightarrow> pcbs s' x = pcbs s x) \<and>
     pcbs s' c = (pcbs s c)\<lparr>p_s := set_gpr (ix_v0 U) (- 1) (p_s (pcbs s c))\<rparr>"
  using kinv_alloc_empty [OF _ f] at_entryD(1-3) [OF e]
  by (simp add: create_Process_def set_v0_entry [OF e] loadProcess_def path_end_def)

lemma brood_user:
  assumes "brood h r xs" and "\<And>x. x \<in> insert r (set xs) \<Longrightarrow> pcb_user (h' x) = pcb_user (h x)"
  shows "brood h' r xs"
  by (rule brood_frame [OF assms(1)]) (simp_all add: pcb_user_eqD [OF assms(2)])

lemma create_Process_alloc:
  assumes e: "at_entry s k c" and f: "kfree k = p # fs" and a1: "reg_a1 U (p_s (pcbs s c)) \<noteq> 0"
    and kd: "brood (pcbs s) c xs" "p \<notin> set xs"
    and new: "new = copyState U (states s (reg_a1 U (p_s (pcbs s c)))) (p_s (pcbs s p))"
    and st: "st = set_gpr (ix_v0 U) 0 (p_s (pcbs s c))"
  shows "\<exists>s'. create_Process U s = Some (LDST st, s') \<and>
     path_end (LDST st) s' (k\<lparr>kfree := fs, kready := kready k @ [p]\<rparr>) \<and> currentProcess s' = Some c \<and>
     ints s' = ints s \<and> states s' = states s \<and> supports s' = supports s \<and> softBlockedCount s' = softBlockedCount s \<and>
     p_s (pcbs s' p) = new \<and> p_supportStruct (pcbs s' p) = reg_a2 U (p_s (pcbs s c)) \<and>
     p_time (pcbs s' p) = 0 \<and> p_child (pcbs s' p) = None \<and> adopted (pcbs s) (pcbs s') c xs p \<and>
     (\<forall>x. x \<noteq> c \<longrightarrow> x \<noteq> p \<longrightarrow> p_s (pcbs s' x) = p_s (pcbs s x) \<and> p_child (pcbs s' x) = p_child (pcbs s x) \<and>
        p_supportStruct (pcbs s' x) = p_supportStruct (pcbs s x)) \<and>
     (\<forall>x. x \<notin> insert c (insert p (set xs)) \<longrightarrow> pcb_user (pcbs s' x) = pcb_user (pcbs s x))"
proof -
  let ?a1 = "reg_a1 U (p_s (pcbs s c))" and ?a2 = "reg_a2 U (p_s (pcbs s c))"
  note E = at_entryD [OF e]
  have cp: "c \<noteq> p" using kinvD(8) [OF E(1)] f E(3) by (auto simp: unblocked_def)
  obtain s1 where s1: "allocPcb s = Some (Some p, s1)" "kinv s1 (k\<lparr>kfree := fs, kheld := [p, c]\<rparr>)"
    "kframe s s1 {p}" "pcbs s1 p = reset_pcb (pcbs s p)"
    using kinv_alloc [OF E(1) f] E(3) by auto
  note G1 = kframe_globals [OF s1(3)] and P1 = kframe_p_s [OF s1(3)] and U1 = kframe_user [OF s1(3)]
  let ?y = "(pcbs s1 p)\<lparr>p_s := new, p_supportStruct := ?a2\<rparr>"
  let ?s2 = "s1\<lparr>pcbs := (pcbs s1)(p := ?y)\<rparr>"
  have "kinv ?s2 (k\<lparr>kfree := fs, kheld := [p, c]\<rparr>)" using s1(2) by simp
  from kinv_insertReady [OF this, of p] obtain s3 where s3: "insertReady (Some p) ?s2 = Some s3"
    "kinv s3 (k\<lparr>kfree := fs, kready := kready k @ [p], kheld := [c]\<rparr>)" "kframe ?s2 s3 {}" by auto
  note G3 = kframe_globals [OF s3(3)] and U3 = kframe_user [OF s3(3)]
  have u3: "pcb_user (pcbs s3 x) = pcb_user (if x = p then ?y else pcbs s1 x)" for x
    using U3 [of x] by simp
  have u: "x \<noteq> p \<Longrightarrow> pcb_user (pcbs s3 x) = pcb_user (pcbs s x)" for x
    using u3 [of x] U1 [of x] by simp
  have "x \<noteq> p" if "x \<in> insert c (set xs)" for x using that cp kd(2) by auto
  then have "brood (pcbs s3) c xs" by (intro brood_user [OF kd(1)] u)
  from insertChild_brood [OF this kd(2)] cp obtain h where
    h: "insertChild (Some c) (Some p) (pcbs s3) = Some h" "adopted (pcbs s3) h c xs p"
    "tree_only (pcbs s3) h (insert c (insert p (set xs)))" "p_child (h p) = p_child (pcbs s3 p)" by blast
  note T = tree_only_fields [OF h(3)]
  let ?s4 = "s3\<lparr>pcbs := h\<rparr>"
  have k4: "kinv ?s4 (k\<lparr>kfree := fs, kready := kready k @ [p], kheld := [c]\<rparr>)"
    by (rule kinv_tree_only [OF s3(2) h(3)])
  have c4: "currentProcess s3 = Some c" using G3 G1 E(2) by simp
  have e4: "at_entry ?s4 (k\<lparr>kfree := fs, kready := kready k @ [p], kheld := [c]\<rparr>) c"
    using k4 c4 by (simp add: at_entry_def)
  have ps: "p_s (h c) = p_s (pcbs s c)" using T(3) [of c] pcb_user_eqD(5) [OF u [OF cp]] by simp
  let ?h' = "h(c := (h c)\<lparr>p_s := st\<rparr>)"
  have k': "k\<lparr>kfree := fs, kready := kready k @ [p], kheld := [c]\<rparr> = k\<lparr>kfree := fs, kready := kready k @ [p]\<rparr>"
    using E(3) by simp
  have "p_s (pcbs s1 p) = p_s (pcbs s p)" "p_supportStruct (pcbs s1 p) = 0" using s1(4) by simp_all
  then have no: "?y = (pcbs s1 p)\<lparr>p_s := new\<rparr>" if "?a2 = 0" using that by (cases "pcbs s1 p") simp
  have s3': "insertReady (Some p) (s1\<lparr>pcbs := (pcbs s1)(p := (pcbs s1 p)\<lparr>p_s := new\<rparr>)\<rparr>) = Some s3"
    if "?a2 = 0" using s3(1) unfolding no [OF that] .
  have "create_Process U s = Some (LDST st, s3\<lparr>pcbs := ?h'\<rparr>)"
    using s1(4) s3' s1(1) E(2) G1 a1 s3(1) h(1) c4 ps P1 [of c] cp set_v0_entry [OF e4, of U 0]
    by (simp add: create_Process_def curProc_def load_state_def loadProcess_def st new upd_pcb_def Let_def)
  moreover have "p_s (?h' p) = new" "p_supportStruct (?h' p) = ?a2" "p_time (?h' p) = 0" "p_child (?h' p) = None"
    using T pcb_user_eqD [OF u3 [of p]] s1(4) cp h(4) by auto
  moreover have "adopted (pcbs s) ?h' c xs p"
    by (rule adopted_frame [OF h(2)]) (simp_all add: pcb_user_eqD [OF u])
  moreover have "x \<noteq> c \<longrightarrow> x \<noteq> p \<longrightarrow> p_s (?h' x) = p_s (pcbs s x) \<and> p_child (?h' x) = p_child (pcbs s x) \<and>
      p_supportStruct (?h' x) = p_supportStruct (pcbs s x)" for x
    using T [of x] pcb_user_eqD(2,5,7) [OF u [of x]] adoptedD(6) [OF h(2), of x] by auto
  moreover have "x \<notin> insert c (insert p (set xs)) \<longrightarrow> pcb_user (?h' x) = pcb_user (pcbs s x)" for x
    using tree_only_outside [OF h(3), of x] u [of x] by auto
  moreover have "path_end (LDST st) (s3\<lparr>pcbs := ?h'\<rparr>) (k\<lparr>kfree := fs, kready := kready k @ [p]\<rparr>)"
    using kinv_frame [OF k4, of "s3\<lparr>pcbs := ?h'\<rparr>"] c4 E(3)
    by (simp add: path_end_def k' same_queue_fields_def)
  ultimately show ?thesis using G1 G3 c4 by auto
qed

end
