(* ===== verification/Sys_Terminate.thy ===== *)
theory Sys_Terminate
  imports Sys_Lemmas
begin

text \<open>
  SYS2: \<open>terminate_Process_rec\<close> ends and frees exactly the progeny of a process.  The
  progeny is a tree (\<open>ptree\<close>); \<open>nodes\<close> lists it in the order in which the code frees it,
  every child before its parent.  The proof goes by induction on the tree, with an inner
  induction on the list of children for the loop.
\<close>

subsection \<open>Trees of processes\<close>

datatype ptree = Proc (root: nat) (subtrees: "ptree list")

fun nodes :: "ptree \<Rightarrow> nat list" where
  "nodes (Proc r ts) = concat (map nodes ts) @ [r]"

fun tree_at :: "pcb_heap \<Rightarrow> ptree \<Rightarrow> bool" where
  "tree_at h (Proc r ts) \<longleftrightarrow> brood h r (map root ts) \<and> (\<forall>t \<in> set ts. tree_at h t)"

lemma root_in_nodes [simp]: "root t \<in> set (nodes t)"
  by (cases t) simp

lemma tree_at_frame:
  assumes "tree_at h t" and "distinct (nodes t)"
    and "\<And>x. x \<in> set (nodes t) \<Longrightarrow> p_child (h' x) = p_child (h x)"
    and "\<And>x. x \<in> set (nodes t) \<Longrightarrow> x \<noteq> root t \<Longrightarrow>
           p_prnt (h' x) = p_prnt (h x) \<and> nsib h' x = nsib h x \<and> psib h' x = psib h x"
  shows "tree_at h' t"
  using assms
proof (induction t)
  case (Proc r ts)
  have r: "r \<notin> set (nodes t)" if "t \<in> set ts" for t using Proc.prems(2) that by auto
  have sub: "x \<in> set (nodes (Proc r ts))" if "t \<in> set ts" "x \<in> set (nodes t)" for t x using that by auto
  have "brood h' r (map root ts)"
  proof (rule brood_frame)
    show "brood h r (map root ts)" using Proc.prems(1) by simp
    show "p_child (h' r) = p_child (h r)" using Proc.prems(3) [of r] by simp
    fix x assume "x \<in> set (map root ts)"
    then obtain t where t: "t \<in> set ts" "x = root t" by auto
    have "x \<in> set (nodes t)" using t(2) by simp
    with sub [OF t(1)] r [OF t(1)] have "x \<in> set (nodes (Proc r ts))" "x \<noteq> root (Proc r ts)" by auto
    from Proc.prems(4) [OF this]
    show "p_prnt (h' x) = p_prnt (h x) \<and> nsib h' x = nsib h x \<and> psib h' x = psib h x" .
  qed
  moreover have "tree_at h' t" if t: "t \<in> set ts" for t
  proof (rule Proc.IH [OF t])
    show "tree_at h t" using Proc.prems(1) t by simp
    show "distinct (nodes t)" using Proc.prems(2) t by (simp add: distinct_concat_iff)
    show "p_child (h' x) = p_child (h x)" if "x \<in> set (nodes t)" for x
      using Proc.prems(3) sub [OF t that] .
    show "p_prnt (h' x) = p_prnt (h x) \<and> nsib h' x = nsib h x \<and> psib h' x = psib h x"
      if "x \<in> set (nodes t)" for x
      using Proc.prems(4) [OF sub [OF t that]] r [OF t] that by auto
  qed
  ultimately show ?case by simp
qed

lemma tree_at_user:
  assumes "tree_at h t" "distinct (nodes t)" and "\<And>x. x \<in> set (nodes t) \<Longrightarrow> pcb_user (h' x) = pcb_user (h x)"
  shows "tree_at h' t"
  by (rule tree_at_frame [OF assms(1,2)]) (simp_all add: pcb_user_eqD [OF assms(3)])

text \<open>\<open>removeChild\<close> writes \<open>p_child\<close> of the parent only.\<close>

lemma removeChild_child:
  assumes "removeChild (Some r) h = Some (q, h')" and "x \<noteq> r"
  shows "p_child (h' x) = p_child (h x)"
  using assms
  by (cases "p_child (h r)")
    (auto simp: removeChild_def emptyChild_def unlinkChild_def Let_def split: if_splits)

subsection \<open>Releasing one process\<close>

text \<open>The view after the processes of \<open>xs\<close> were freed in that order.\<close>

definition reaped :: "nat list \<Rightarrow> kview \<Rightarrow> kview" where
  "reaped xs k = k\<lparr>kfree := kfree k @ xs, kready := filter (\<lambda>y. y \<notin> set xs) (kready k),
     kblocked := (\<lambda>a. filter (\<lambda>y. y \<notin> set xs) (kblocked k a)),
     kheld := filter (\<lambda>y. y \<notin> set xs) (kheld k)\<rparr>"

lemma reaped_Nil [simp]: "reaped [] k = k"
  by (simp add: reaped_def)

lemma reaped_append: "reaped ys (reaped xs k) = reaped (xs @ ys) k"
  by (simp add: reaped_def conj_commute)

lemma reaped_simps [simp]:
  "kfree (reaped xs k) = kfree k @ xs" "kready (reaped xs k) = filter (\<lambda>y. y \<notin> set xs) (kready k)"
  "kblocked (reaped xs k) a = filter (\<lambda>y. y \<notin> set xs) (kblocked k a)"
  "kheld (reaped xs k) = filter (\<lambda>y. y \<notin> set xs) (kheld k)"
  by (simp_all add: reaped_def)

text \<open>
  \<open>reap_frame s s' k k' D\<close>: a killed process gives its unit back to the semaphore it
  was blocked on, so value plus number of waiting processes is constant; nothing else
  changed but the lists and the processes in \<open>D\<close>.
\<close>

definition reap_frame :: "nuc_state \<Rightarrow> nuc_state \<Rightarrow> kview \<Rightarrow> kview \<Rightarrow> nat set \<Rightarrow> bool" where
  "reap_frame s s' k k' D \<longleftrightarrow> kframe (s\<lparr>ints := ints s'\<rparr>) s' D \<and>
     (\<forall>a. ints s' a + of_nat (length (kblocked k' a)) = ints s a + of_nat (length (kblocked k a)))"

lemma reap_frame_trans:
  assumes "reap_frame s s' k k' D" "reap_frame s' s'' k' k'' E"
  shows "reap_frame s s'' k k'' (D \<union> E)"
  using assms by (simp add: reap_frame_def kframe_def)

lemma reap_frame_mono: "reap_frame s s' k k' D \<Longrightarrow> D \<subseteq> E \<Longrightarrow> reap_frame s s' k k' E"
  by (auto simp: reap_frame_def kframe_def)

lemma reap_frame_user: "reap_frame s s' k k' D \<Longrightarrow> x \<notin> D \<Longrightarrow> pcb_user (pcbs s' x) = pcb_user (pcbs s x)"
  by (auto simp: reap_frame_def kframe_def)

lemma filter_one: "distinct xs \<Longrightarrow> filter (\<lambda>y. y \<noteq> x) xs = remove1 x xs"
  by (simp add: distinct_remove1_removeAll removeAll_filter_not_eq) (metis (mono_tags, lifting))

lemma reaped_one:
  assumes "kinv s k"
  shows "reaped [x] k = k\<lparr>kfree := kfree k @ [x], kready := remove1 x (kready k),
     kblocked := (\<lambda>a. remove1 x (kblocked k a)), kheld := remove1 x (kheld k)\<rparr>"
  using kinvD(8) [OF assms] asl_distinct [OF kinvD(3) [OF assms]]
  by (simp add: reaped_def filter_one unblocked_def)

lemma process_place:
  assumes "kinv s k" "x < MAXPROC" "x \<notin> set (kfree k)"
  obtains (held) "x \<in> set (kheld k)" | (ready) "x \<in> set (kready k)"
    | (blocked) a where "x \<in> set (kblocked k a)" "a \<noteq> 0" "p_semAdd (pcbs s x) = a"
proof -
  have "x \<in> set (unblocked k) \<union> (\<Union>a. set (kblocked k a))"
    using kinvD(4) [OF assms(1)] assms(2) by (simp add: kpartition_def)
  then consider "x \<in> set (kheld k)" | "x \<in> set (kready k)" | a where "x \<in> set (kblocked k a)"
    using assms(3) by (auto simp: unblocked_def)
  then show ?thesis
  proof cases
    case (3 a)
    have "a \<noteq> 0" using 3 kinvD(11) [OF assms(1)] by (cases "a = 0") auto
    then show ?thesis using blocked 3 asl_queue [OF kinvD(3) [OF assms(1)] 3] by blast
  qed (use held ready in auto)
qed

text \<open>The common end of the three cases: the process is held and freed.\<close>

lemma release_held:
  assumes k: "kinv s k" and x: "x \<in> set (kheld k)"
  shows "\<exists>s'. freePcb (Some x) s = Some s' \<and> kinv s' (reaped [x] k) \<and> kframe s s' {}"
proof -
  have "x \<notin> set (kready k)" "x \<notin> set (kblocked k a)" for a
    using x kinvD(7,8) [OF k] by (auto simp: unblocked_def)
  then have "reaped [x] k = k\<lparr>kfree := kfree k @ [x], kheld := remove1 x (kheld k)\<rparr>"
    by (simp add: reaped_one [OF k] remove1_idem)
  with kinv_free [OF k x] show ?thesis by simp
qed

lemma release_process_reaps:
  assumes k: "kinv s k" and x: "x < MAXPROC" "x \<notin> set (kfree k)"
  shows "\<exists>s'. release_process (Some x) s = Some s' \<and> kinv s' (reaped [x] k) \<and>
     reap_frame s s' k (reaped [x] k) {}"
proof -
  note K = kinvD [OF k]
  have dB: "distinct (kblocked k a)" for a by (rule asl_distinct [OF K(3)])
  from k x show ?thesis
  proof (cases rule: process_place)
    case held
    have u: "x \<in> set (unblocked k)" "x \<notin> set (kready k)" "x \<notin> set (kblocked k a)" for a
      using held K(7,8) by (auto simp: unblocked_def)
    obtain s' where s': "freePcb (Some x) s = Some s'" "kinv s' (reaped [x] k)" "kframe s s' {}"
      using release_held [OF k held] by blast
    have "release_process (Some x) s = Some s'"
      using s'(1) K(6) [OF u(1)] kinv_outReady_missing [OF k u(2)] by (simp add: release_process_def)
    moreover have "reap_frame s s' k (reaped [x] k) {}"
      using s'(3) u(3) by (simp add: reap_frame_def kframe_def reaped_one [OF k] remove1_idem)
    ultimately show ?thesis using s'(2) by blast
  next
    case ready
    have u: "x \<in> set (unblocked k)" "x \<notin> set (kblocked k a)" "x \<notin> set (kheld k)" for a
      using ready K(7,8) by (auto simp: unblocked_def)
    let ?k1 = "k\<lparr>kready := remove1 x (kready k), kheld := x # kheld k\<rparr>"
    obtain s1 where s1: "outReady (Some x) s = Some (Some x, s1)" "kinv s1 ?k1" "kframe s s1 {}"
      using kinv_outReady [OF k ready] by blast
    obtain s' where s': "freePcb (Some x) s1 = Some s'" "kinv s' (reaped [x] ?k1)" "kframe s1 s' {}"
      using release_held [OF s1(2)] by auto
    have e: "reaped [x] ?k1 = reaped [x] k"
      using u K(8) by (simp add: reaped_one [OF k] reaped_one [OF s1(2)] remove1_idem unblocked_def)
    have "release_process (Some x) s = Some s'"
      using s1(1) s'(1) K(6) [OF u(1)] by (simp add: release_process_def)
    moreover have "reap_frame s s' k (reaped [x] k) {}"
      using kframe_trans [OF s1(3) s'(3)] u(2)
      by (simp add: reap_frame_def kframe_def reaped_one [OF k] remove1_idem)
    ultimately show ?thesis using s'(2) e by auto
  next
    case (blocked a)
    have u: "x \<notin> set (unblocked k)" "x \<notin> set (kready k)" "x \<notin> set (kheld k)"
      using blocked K(7) by (auto simp: unblocked_def)
    have other: "x \<notin> set (kblocked k b)" if "b \<noteq> a" for b
      using asl_disjoint [OF K(3) blocked(1)] that by blast
    let ?s0 = "s\<lparr>ints := (ints s)(a := ints s a + 1)\<rparr>"
    let ?k1 = "k\<lparr>kblocked := (kblocked k)(a := remove1 x (kblocked k a)), kheld := x # kheld k\<rparr>"
    have "kinv ?s0 k" using k by simp
    from kinv_outBlocked [OF this blocked(1)] obtain s1 where
      s1: "outBlocked (Some x) ?s0 = Some (Some x, s1)" "kinv s1 ?k1" "kframe ?s0 s1 {}" by blast
    obtain s' where s': "freePcb (Some x) s1 = Some s'" "kinv s' (reaped [x] ?k1)" "kframe s1 s' {}"
      using release_held [OF s1(2)] by auto
    have "(\<lambda>b. remove1 x (((kblocked k)(a := remove1 x (kblocked k a))) b)) = (\<lambda>b. remove1 x (kblocked k b))"
      using dB [of a] by (auto simp: fun_eq_iff remove1_idem)
    then have e: "reaped [x] ?k1 = reaped [x] k"
      using u by (simp add: reaped_one [OF k] reaped_one [OF s1(2)] remove1_idem)
    have "release_process (Some x) s = Some s'"
      using s1(1) s'(1) blocked(2,3) by (simp add: release_process_def load_int_def store_int_def)
    moreover have F: "kframe ?s0 s' {}" using kframe_trans [OF s1(3) s'(3)] by simp
    moreover have len: "length (kblocked k a) = Suc (length (remove1 x (kblocked k a)))"
      using blocked(1) by (simp add: length_remove1) (metis Suc_pred length_pos_if_in_set)
    have "reap_frame s s' k (reaped [x] k) {}"
      using F other len
      by (auto simp: reap_frame_def kframe_def reaped_one [OF k] remove1_idem)
    ultimately show ?thesis using s'(2) e by auto
  qed
qed

subsection \<open>The recursion\<close>

text \<open>The processes of \<open>xs\<close> are distinct and allocated.\<close>

definition doomed :: "nuc_state \<Rightarrow> kview \<Rightarrow> nat list \<Rightarrow> bool" where
  "doomed s k xs \<longleftrightarrow> kinv s k \<and> distinct xs \<and> set xs \<subseteq> {0..<MAXPROC} - set (kfree k)"

definition reaps :: "nuc_state option \<Rightarrow> nuc_state \<Rightarrow> kview \<Rightarrow> nat list \<Rightarrow> nat set \<Rightarrow> bool" where
  "reaps r s k xs D \<longleftrightarrow> (\<exists>s'. r = Some s' \<and> kinv s' (reaped xs k) \<and> reap_frame s s' k (reaped xs k) D)"

definition rec_reaps :: "ptree \<Rightarrow> bool" where
  "rec_reaps t \<longleftrightarrow> (\<forall>s k. tree_at (pcbs s) t \<longrightarrow> p_prnt (pcbs s (root t)) = None \<longrightarrow>
     doomed s k (nodes t) \<longrightarrow>
     reaps (terminate_Process_rec (Some (root t)) s) s k (nodes t) (set (nodes t)))"

lemma reaps_seq:
  assumes "reap_frame s s1 k k D" and "reaps r s1 k xs E" and "r = Some s2"
    and "reaps r' s2 (reaped xs k) ys F" and "D \<union> E \<union> F \<subseteq> G"
  shows "reaps r' s k (xs @ ys) G"
proof -
  have "reap_frame s1 s2 k (reaped xs k) E" using assms(2,3) by (simp add: reaps_def)
  from reap_frame_trans [OF assms(1) this]
  have F1: "reap_frame s s2 k (reaped xs k) (D \<union> E)" .
  obtain s3 where s3: "r' = Some s3" "kinv s3 (reaped (xs @ ys) k)"
    "reap_frame s2 s3 (reaped xs k) (reaped (xs @ ys) k) F"
    using assms(4) by (auto simp: reaps_def reaped_append)
  from reap_frame_mono [OF reap_frame_trans [OF F1 s3(3)] assms(5)] s3(1,2)
  show ?thesis by (auto simp: reaps_def)
qed

lemma nodes_disjoint:
  assumes "distinct (concat (map nodes ts))" "t \<in> set ts" "u \<in> set ts" "x \<in> set (nodes t)" "x \<in> set (nodes u)"
  shows "t = u"
  using assms by (induction ts) auto

lemma terminate_loop_reaps:
  assumes "\<And>t. t \<in> set ts \<Longrightarrow> rec_reaps t"
    and "brood (pcbs s) r (map root ts)" and "\<And>t. t \<in> set ts \<Longrightarrow> tree_at (pcbs s) t"
    and "doomed s k (concat (map nodes ts))" and "r \<notin> set (concat (map nodes ts))"
  shows "reaps (terminate_loop (Some r) s) s k (concat (map nodes ts)) (insert r (set (concat (map nodes ts))))"
  using assms
proof (induction ts arbitrary: s k)
  case Nil
  then have "terminate_loop (Some r) s = Some s"
    using emptyChild_brood [of "pcbs s" r "[]"] by (subst terminate_loop_unfold) simp
  with Nil.prems(4) show ?case by (simp add: reaps_def doomed_def reap_frame_def)
next
  case (Cons t ts)
  let ?N = "concat (map nodes ts)" and ?t = "root t"
  have D: "kinv s k" "distinct (nodes t)" "distinct ?N" "set (nodes t) \<inter> set ?N = {}"
    "set (nodes t) \<union> set ?N \<subseteq> {0..<MAXPROC} - set (kfree k)" "r \<notin> set (nodes t)" "r \<notin> set ?N"
    using Cons.prems(4,5) by (auto simp: doomed_def)
  have dt: "distinct (nodes t')" if "t' \<in> set ts" for t' using D(3) that by (simp add: distinct_concat_iff)
  have inN: "set (nodes t') \<subseteq> set ?N" if "t' \<in> set ts" for t' using that by auto
  have roots: "set (map root ts) \<subseteq> set ?N"
  proof
    fix x assume "x \<in> set (map root ts)"
    then obtain u where "u \<in> set ts" "x = root u" by auto
    then show "x \<in> set ?N" using inN [of u] root_in_nodes [of u] by blast
  qed
  obtain h where h: "removeChild (Some r) (pcbs s) = Some (Some ?t, h)" "brood h r (map root ts)"
    "p_prnt (h ?t) = None" "tree_only (pcbs s) h (insert r (set (map root (t # ts))))"
    using removeChild_brood [of "pcbs s" r ?t "map root ts"] Cons.prems(2) by auto
  let ?s1 = "s\<lparr>pcbs := h\<rparr>"
  have k1: "kinv ?s1 k" by (rule kinv_tree_only [OF D(1) h(4)])
  have tree1: "tree_at h t'" if t': "t' \<in> set (t # ts)" for t'
  proof (rule tree_at_frame)
    show "tree_at (pcbs s) t'" by (rule Cons.prems(3) [OF t'])
    show "distinct (nodes t')" using t' dt D(2) by auto
    fix x assume x: "x \<in> set (nodes t')"
    have xr: "x \<noteq> r" using x t' inN D(6,7) by auto
    then show "p_child (h x) = p_child (pcbs s x)" by (rule removeChild_child [OF h(1)])
    assume "x \<noteq> root t'"
    moreover have "x = root t'" if "x = root u" "u \<in> set (t # ts)" for u
    proof -
      have "x \<in> set (nodes u)" using that(1) by simp
      moreover have "distinct (concat (map nodes (t # ts)))" using Cons.prems(4) unfolding doomed_def by blast
      ultimately have "u = t'" using nodes_disjoint that(2) t' x by blast
      then show ?thesis using that(1) by simp
    qed
    ultimately have "x \<notin> insert r (set (map root (t # ts)))" using xr by auto
    then show "p_prnt (h x) = p_prnt (pcbs s x) \<and> nsib h x = nsib (pcbs s) x \<and> psib h x = psib (pcbs s) x"
      using tree_only_outside [OF h(4)] by simp
  qed
  have "doomed ?s1 k (nodes t)" using k1 D(2,5) by (simp add: doomed_def)
  with Cons.prems(1) [of t] tree1 [of t] h(3)
  have r1: "reaps (terminate_Process_rec (Some ?t) ?s1) ?s1 k (nodes t) (set (nodes t))"
    by (simp add: rec_reaps_def)
  then obtain s2 where s2: "terminate_Process_rec (Some ?t) ?s1 = Some s2" "kinv s2 (reaped (nodes t) k)"
    "reap_frame ?s1 s2 k (reaped (nodes t) k) (set (nodes t))" by (auto simp: reaps_def)
  have user: "pcb_user (pcbs s2 x) = pcb_user (h x)" if "x \<in> insert r (set ?N)" for x
    using reap_frame_user [OF s2(3), of x] that D(4,6) by auto
  have "brood (pcbs s2) r (map root ts)" by (rule brood_user [OF h(2)]) (use user roots in auto)
  moreover have "tree_at (pcbs s2) t'" if "t' \<in> set ts" for t'
    by (rule tree_at_user [OF tree1 dt [OF that]]) (use that user inN in auto)
  moreover have "doomed s2 (reaped (nodes t) k) ?N" using s2(2) D(3,4,5) by (auto simp: doomed_def)
  ultimately have r2: "reaps (terminate_loop (Some r) s2) s2 (reaped (nodes t) k) ?N (insert r (set ?N))"
    by (intro Cons.IH Cons.prems(1)) (use D(7) in auto)
  have e: "terminate_loop (Some r) s = terminate_loop (Some r) s2"
    using emptyChild_brood [OF Cons.prems(2)] h(1) s2(1) by (subst terminate_loop_unfold) simp
  have F: "reap_frame s ?s1 k k (insert r (set (map root (t # ts))))"
    using tree_only_outside [OF h(4)] by (simp add: reap_frame_def kframe_def)
  have sub: "insert r (set (map root (t # ts))) \<union> set (nodes t) \<union> insert r (set ?N)
      \<subseteq> insert r (set (concat (map nodes (t # ts))))" using roots root_in_nodes [of t] by auto
  from reaps_seq [OF F r1 s2(1) r2 sub] show ?case by (simp add: e)
qed

lemma release_reaps:
  assumes "doomed s k [x]"
  shows "reaps (release_process (Some x) s) s k [x] {x}"
proof -
  obtain s' where s': "release_process (Some x) s = Some s'" "kinv s' (reaped [x] k)"
    "reap_frame s s' k (reaped [x] k) {}"
    using release_process_reaps [of s k x] assms by (auto simp: doomed_def)
  then show ?thesis using reap_frame_mono [OF s'(3), of "{x}"] by (simp add: reaps_def)
qed

lemma rec_reaps_all: "rec_reaps t"
proof (induction t)
  case (Proc r ts)
  let ?N = "concat (map nodes ts)"
  show ?case unfolding rec_reaps_def
  proof (intro allI impI)
    fix s k
    assume tr: "tree_at (pcbs s) (Proc r ts)" and orphan: "p_prnt (pcbs s (root (Proc r ts))) = None"
      and d: "doomed s k (nodes (Proc r ts))"
    have d': "doomed s k ?N" "r \<notin> set ?N" "r < MAXPROC" "r \<notin> set (kfree k)"
      using d by (auto simp: doomed_def)
    have L: "reaps (terminate_loop (Some r) s) s k ?N (insert r (set ?N))"
      using terminate_loop_reaps [of ts s r k] Proc.IH tr d'(1,2) by simp
    then obtain s1 where s1: "terminate_loop (Some r) s = Some s1" "kinv s1 (reaped ?N k)"
      by (auto simp: reaps_def)
    have "doomed s1 (reaped ?N k) [r]" using s1(2) d' by (auto simp: doomed_def)
    from release_reaps [OF this]
    have R: "reaps (release_process (Some r) s1) s1 (reaped ?N k) [r] {r}" .
    have "terminate_Process_rec (Some r) s = release_process (Some r) s1"
      using outChild_orphan [of "pcbs s" r] orphan s1(1) by (simp add: terminate_Process_rec_def)
    then show "reaps (terminate_Process_rec (Some (root (Proc r ts))) s) s k (nodes (Proc r ts))
        (set (nodes (Proc r ts)))"
      using reaps_seq [OF _ L s1(1) R, of s "{}" "set (nodes (Proc r ts))"] by (auto simp: reap_frame_def)
  qed
qed

text \<open>
  A process without a parent needs no taking out of a list of children.
\<close>

lemma terminate_Process_rec_root:
  assumes "tree_at (pcbs s) t" "p_prnt (pcbs s (root t)) = None" "doomed s k (nodes t)"
  shows "reaps (terminate_Process_rec (Some (root t)) s) s k (nodes t) (set (nodes t))"
  using rec_reaps_all assms unfolding rec_reaps_def by blast

lemma terminate_Process_rec_outChild:
  assumes "outChild (Some r) (pcbs s) = Some (q, h)" "p_prnt (h r) = None"
  shows "terminate_Process_rec (Some r) s = terminate_Process_rec (Some r) (s\<lparr>pcbs := h\<rparr>)"
  using outChild_orphan [of h r] assms by (simp add: terminate_Process_rec_def)

end
