(* ===== verification/Interrupts.thy ===== *)
theory Interrupts
  imports Nuc_Syscalls
begin

text \<open>
  The interrupt handlers (\<open>src/interrupts.c\<close>) and the exception dispatcher
  (\<open>src/exceptions.c\<close>).

  A device register is found by its interrupt line and its number, as
  \<open>DEV_REG_ADDR\<close> does; a number outside \<open>0..<DEVPERINT\<close> is an access outside the
  device's registers and is undefined (\<open>None\<close>).  A handler that can both end the path and
  come back to its caller gives \<open>Some out\<close> or \<open>None\<close> as the first component of its result.
\<close>

subsection \<open>Devices\<close>

definition dev_at :: "umps \<Rightarrow> u32 \<Rightarrow> u32 \<Rightarrow> nuc_state \<Rightarrow> devreg_t option" where
  "dev_at U line no s = (if unat no < DEVPERINT U then Some (dev_regs (hardware s) line no) else None)"

definition dev_put :: "u32 \<Rightarrow> u32 \<Rightarrow> devreg_t \<Rightarrow> nuc_state \<Rightarrow> nuc_state" where
  "dev_put line no d s =
     (let r = dev_regs (hardware s)
      in s\<lparr>hardware := (hardware s)\<lparr>dev_regs := r(line := (r line)(no := d))\<rparr>\<rparr>)"

definition terminalIsRECV :: "umps \<Rightarrow> termreg_t \<Rightarrow> u32" where
  "terminalIsRECV U dev = (if recv_status dev \<noteq> READY U then 1 else 0)"

definition getTermStatus :: "umps \<Rightarrow> termreg_t \<Rightarrow> u32" where
  "getTermStatus U dev = (if terminalIsRECV U dev \<noteq> 0 then recv_status dev else transm_status dev)"

definition acknowledgeDTPInterrupt :: "umps \<Rightarrow> dtpreg_t \<Rightarrow> dtpreg_t" where
  "acknowledgeDTPInterrupt U dev = dev\<lparr>dtp_command := ACK U\<rparr>"

definition acknowledgeTermInterrupt :: "umps \<Rightarrow> termreg_t \<Rightarrow> termreg_t" where
  "acknowledgeTermInterrupt U dev =
     (if terminalIsRECV U dev \<noteq> 0 then dev\<lparr>recv_command := ACK U\<rparr> else dev\<lparr>transm_command := ACK U\<rparr>)"

text \<open>The loop over the bitmap of a line: the first bit set from \<open>i\<close> on, or \<open>-1\<close>.\<close>

fun deviceNo_loop :: "u32 \<Rightarrow> nat list \<Rightarrow> u32" where
  "deviceNo_loop bitmap [] = - 1"
| "deviceNo_loop bitmap (i # is) =
     (if drop_bit i bitmap AND 1 = 1 then of_nat i else deviceNo_loop bitmap is)"

definition getDeviceNoFromLine :: "umps \<Rightarrow> u32 \<Rightarrow> nuc_state \<Rightarrow> u32" where
  "getDeviceNoFromLine U interruptLine s =
     deviceNo_loop (dev_bitmap (hardware s) interruptLine) [0..<DEVPERINT U]"

definition disable_interrupts :: "nuc_state \<Rightarrow> nuc_state" where
  "disable_interrupts s = setSTATUS (STATUS (hardware s) AND DISABLEINTS) s"

definition enable_interrupts :: "nuc_state \<Rightarrow> nuc_state" where
  "enable_interrupts s = setSTATUS (STATUS (hardware s) OR NOT DISABLEINTS) s"

subsection \<open>The handlers\<close>

text \<open>The V operation on the semaphore of a device.\<close>

definition releaseSemAndUpdateStatus :: "umps \<Rightarrow> u32 \<Rightarrow> u32 \<Rightarrow> nuc_state \<Rightarrow> nuc_state option" where
  "releaseSemAndUpdateStatus U deviceNo st s = do {
     let s = s\<lparr>softBlockedCount := softBlockedCount s - 1\<rparr>;
     sem \<leftarrow> devSem U deviceNo;
     v \<leftarrow> load_int sem s;
     if sint v \<le> 0 then do {
       (tmp, s) \<leftarrow> removeBlocked sem s;
       if tmp \<noteq> None then do {
         s \<leftarrow> upd_pcb tmp (\<lambda>y. y\<lparr>p_s := set_gpr (ix_v0 U) st (p_s y)\<rparr>) s;
         s \<leftarrow> insertReady tmp s;
         v \<leftarrow> load_int sem s;
         store_int sem (v + 1) s
       } else Some s
     } else Some s
   }"

definition handleDeviceInterrupt :: "umps \<Rightarrow> u32 \<Rightarrow> nuc_state \<Rightarrow> (outcome option \<times> nuc_state) option" where
  "handleDeviceInterrupt U interruptLine s = do {
     let deviceNo = getDeviceNoFromLine U interruptLine s;
     dev \<leftarrow> dev_at U interruptLine deviceNo s;
     let (recv, savedStatus, dev) =
       (if interruptLine = TERMINT U
        then (terminalIsRECV U (dev_term dev), getTermStatus U (dev_term dev),
              dev\<lparr>dev_term := acknowledgeTermInterrupt U (dev_term dev)\<rparr>)
        else (0, dtp_status (dev_dtp dev), dev\<lparr>dev_dtp := acknowledgeDTPInterrupt U (dev_dtp dev)\<rparr>));
     let s = dev_put interruptLine deviceNo dev s;
     case getSemIndex U interruptLine deviceNo recv of
       None \<Rightarrow> Some (Some PANIC, s)
     | Some semIndex \<Rightarrow> do {
         s \<leftarrow> releaseSemAndUpdateStatus U semIndex savedStatus s;
         let (t, s) = getTIMER s;
         Some (None, s\<lparr>startT := t\<rparr>)
       }
   }"

text \<open>The loop of \<open>handleIntervalTimerInterrupt\<close>: every process waiting for the clock is woken.\<close>

partial_function (option) wake_clock_loop :: "umps \<Rightarrow> pcb_ptr \<Rightarrow> nuc_state \<Rightarrow> nuc_state option" where
  "wake_clock_loop U tmp s =
     (if tmp = None then Some s
      else do {
        s \<leftarrow> insertReady tmp s;
        let s = s\<lparr>softBlockedCount := softBlockedCount s - 1\<rparr>;
        (tmp, s) \<leftarrow> removeBlocked (clockSemaphore U) s;
        wake_clock_loop U tmp s
      })"

definition handleIntervalTimerInterrupt :: "umps \<Rightarrow> nuc_state \<Rightarrow> nuc_state option" where
  "handleIntervalTimerInterrupt U s = do {
     let s = LDIT 100000 s;
     (tmp, s) \<leftarrow> removeBlocked (clockSemaphore U) s;
     s \<leftarrow> wake_clock_loop U tmp s;
     store_int (clockSemaphore U) 0 s
   }"

definition handlePLTInterrupt :: "umps \<Rightarrow> u32 \<Rightarrow> nuc_state \<Rightarrow> (outcome \<times> nuc_state) option" where
  "handlePLTInterrupt U stop s = do {
     let s = setTIMER (5000 * timescale (hardware s)) s;
     if currentProcess s \<noteq> None then do {
       s \<leftarrow> upd_pcb (currentProcess s) (\<lambda>y. y\<lparr>p_time := p_time y + (stop - startT s)\<rparr>) s;
       st \<leftarrow> load_state BIOSDATAPAGE s;
       s \<leftarrow> upd_pcb (currentProcess s) (\<lambda>y. y\<lparr>p_s := copyState U st (p_s y)\<rparr>) s;
       s \<leftarrow> insertReady (currentProcess s) s;
       scheduler s
     } else Some (PANIC, s)
   }"

definition interrupt_pending :: "umps \<Rightarrow> u32 \<Rightarrow> u32 \<Rightarrow> bool" where
  "interrupt_pending U cau line \<longleftrightarrow> cau AND CAUSE_IP U line \<noteq> 0"

text \<open>
  The two halves of \<open>handleInterrupts\<close>: the handler of the pending interrupt with the
  highest priority, and the return to the interrupted process or to the scheduler.
\<close>

definition dispatch_interrupt :: "umps \<Rightarrow> u32 \<Rightarrow> nuc_state \<Rightarrow> (outcome option \<times> nuc_state) option" where
  "dispatch_interrupt U cau s =
     (if cau AND CAUSE_IP_MASK U \<noteq> 0 then
        (if interrupt_pending U cau PLTINT then
           map_option (\<lambda>(out, s). (Some out, s)) (handlePLTInterrupt U (stopT s) s)
         else if interrupt_pending U cau INTERTIMEINT then
           map_option (Pair None) (handleIntervalTimerInterrupt U s)
         else if interrupt_pending U cau (DISKINT U) then handleDeviceInterrupt U (DISKINT U) s
         else if interrupt_pending U cau (FLASHINT U) then handleDeviceInterrupt U (FLASHINT U) s
         else if interrupt_pending U cau (NETWINT U) then handleDeviceInterrupt U (NETWINT U) s
         else if interrupt_pending U cau (PRNTINT U) then handleDeviceInterrupt U (PRNTINT U) s
         else if interrupt_pending U cau (TERMINT U) then handleDeviceInterrupt U (TERMINT U) s
         else Some (None, s))
      else Some (None, s))"

definition resume_interrupted :: "umps \<Rightarrow> u32 \<Rightarrow> nuc_state \<Rightarrow> (outcome \<times> nuc_state) option" where
  "resume_interrupted U timeLeft s =
     (if currentProcess s \<noteq> None then do {
        s \<leftarrow> upd_pcb (currentProcess s) (\<lambda>y. y\<lparr>p_time := p_time y + (stopT s - startT s)\<rparr>) s;
        st \<leftarrow> load_state BIOSDATAPAGE s;
        s \<leftarrow> upd_pcb (currentProcess s) (\<lambda>y. y\<lparr>p_s := copyState U st (p_s y)\<rparr>) s;
        updateTimeAndSwitch (currentProcess s) timeLeft s
      } else scheduler s)"

definition handleInterrupts :: "umps \<Rightarrow> nuc_state \<Rightarrow> (outcome \<times> nuc_state) option" where
  "handleInterrupts U s = do {
     let (timeLeft, s) = getTIMER s;
     let cau = CAUSE (hardware s);
     let (t, s) = read_tod s;
     let s = s\<lparr>stopT := t\<rparr>;
     (out, s) \<leftarrow> dispatch_interrupt U cau s;
     case out of Some out \<Rightarrow> Some (out, s) | None \<Rightarrow> resume_interrupted U timeLeft s
   }"

subsection \<open>exceptions.c\<close>

definition TLBExceptionHandler :: "umps \<Rightarrow> nuc_state \<Rightarrow> (outcome \<times> nuc_state) option" where
  "TLBExceptionHandler U s = passupOrDie U PGFAULTEXCEPT s"

definition handleExceptions :: "umps \<Rightarrow> nuc_state \<Rightarrow> (outcome \<times> nuc_state) option" where
  "handleExceptions U s =
     (let cau = CAUSE (hardware s);
          excCode = CAUSE_GET_EXCCODE U cau
      in if excCode = EXC_INT U then handleInterrupts U s
         else if excCode = EXC_MOD U \<or> excCode = EXC_TLBL U \<or> excCode = EXC_TLBS U
           then TLBExceptionHandler U s
         else if excCode = EXC_ADEL U \<or> excCode = EXC_ADES U \<or> excCode = EXC_IBE U \<or>
                 excCode = EXC_DBE U then passupOrDie U GENERALEXCEPT s
         else if excCode = EXC_SYS U then handleNucleousSystemcalls U s
         else if excCode = EXC_BP U \<or> excCode = EXC_RI U \<or> excCode = EXC_CPU U \<or>
                 excCode = EXC_OV U then passupOrDie U GENERALEXCEPT s
         else Some (RETURN, s))"

end
