(* ===== verification/Int_Lemmas.thy ===== *)
theory Int_Lemmas
  imports Interrupts Sys_Lemmas
begin

text \<open>
  What every interrupt handler does to the abstract view of the nucleus.  \<open>between s k\<close> is
  the state in which an interrupt arrives: a process is running, or the processor waits.
\<close>

definition between :: "nuc_state \<Rightarrow> kview \<Rightarrow> bool" where
  "between s k \<longleftrightarrow> kinv s k \<and> kheld k = (case currentProcess s of None \<Rightarrow> [] | Some c \<Rightarrow> [c])"

lemma between_globals [simp]:
  "between (s\<lparr>softBlockedCount := n\<rparr>) k = between s k"
  "between (s\<lparr>startT := t\<rparr>) k = between s k"
  "between (s\<lparr>stopT := t\<rparr>) k = between s k"
  "between (s\<lparr>ints := I\<rparr>) k = between s k"
  "between (s\<lparr>supports := P\<rparr>) k = between s k"
  "between (s\<lparr>hardware := w\<rparr>) k = between s k"
  by (simp_all add: between_def)

lemma between_entry: "between s k \<Longrightarrow> currentProcess s = Some c \<Longrightarrow> at_entry s k c"
  by (simp add: between_def at_entry_def)

text \<open>The process tree, and the queue position of every process, are not written.\<close>

definition same_tree :: "pcb_heap \<Rightarrow> pcb_heap \<Rightarrow> bool" where
  "same_tree h h' \<longleftrightarrow> (\<forall>x. p_prnt (h' x) = p_prnt (h x) \<and> p_child (h' x) = p_child (h x) \<and>
     p_next_sib (h' x) = p_next_sib (h x) \<and> p_prev_sib (h' x) = p_prev_sib (h x) \<and>
     p_supportStruct (h' x) = p_supportStruct (h x))"

lemma same_tree_refl [simp]: "same_tree h h"
  by (simp add: same_tree_def)

lemma same_tree_trans: "same_tree h h' \<Longrightarrow> same_tree h' h'' \<Longrightarrow> same_tree h h''"
  by (simp add: same_tree_def)

lemma same_tree_user: "(\<And>x. pcb_user (h' x) = pcb_user (h x)) \<Longrightarrow> same_tree h h'"
  unfolding same_tree_def by (intro allI conjI) (auto dest: pcb_user_eqD)

lemma same_tree_charge [simp]: "same_tree (pcbs s) (charge s c)"
  by (simp add: same_tree_def)

lemma same_tree_upd [simp]: "same_tree h (h(x := (h x)\<lparr>p_s := st\<rparr>))" "same_tree h (h(x := (h x)\<lparr>p_time := t\<rparr>))"
  "same_tree h (h(x := (h x)\<lparr>p_time := t, p_s := st\<rparr>))"
  by (simp_all add: same_tree_def)

subsection \<open>The interval timer\<close>

lemma wake_clock_loop_spec:
  assumes "kinv s k" and "kheld k = p # H" and "kblocked k (clockSemaphore U) = q"
    and a: "clockSemaphore U \<noteq> MAXADD"
  shows "\<exists>s'. wake_clock_loop U (Some p) s = Some s' \<and>
     kinv s' (k\<lparr>kready := kready k @ p # q, kblocked := (kblocked k)(clockSemaphore U := []), kheld := H\<rparr>) \<and>
     kframe (s\<lparr>softBlockedCount := softBlockedCount s - of_nat (Suc (length q))\<rparr>) s' {}"
  using assms(1-3)
proof (induction q arbitrary: s k p)
  case Nil
  let ?a = "clockSemaphore U"
  obtain s1 where s1: "insertReady (Some p) s = Some s1"
    "kinv s1 (k\<lparr>kready := kready k @ [p], kheld := H\<rparr>)" "kframe s s1 {}"
    using kinv_insertReady [OF Nil(1), of p] Nil(2) by auto
  let ?s2 = "s1\<lparr>softBlockedCount := softBlockedCount s1 - 1\<rparr>"
  have "kinv ?s2 (k\<lparr>kready := kready k @ [p], kheld := H\<rparr>)" using s1(2) by simp
  from kinv_removeBlocked_empty [OF this, of ?a] Nil(3) a
  have "removeBlocked ?a ?s2 = Some (None, ?s2)" by simp
  then have "wake_clock_loop U (Some p) s = Some ?s2"
    using s1(1) by (simp add: wake_clock_loop.simps)
  moreover have "(kblocked k)(?a := []) = kblocked k" using Nil(3) by auto
  ultimately show ?case using s1(2,3) by (simp add: kframe_def)
next
  case (Cons c q)
  let ?a = "clockSemaphore U"
  obtain s1 where s1: "insertReady (Some p) s = Some s1"
    "kinv s1 (k\<lparr>kready := kready k @ [p], kheld := H\<rparr>)" "kframe s s1 {}"
    using kinv_insertReady [OF Cons(2), of p] Cons(3) by auto
  let ?s2 = "s1\<lparr>softBlockedCount := softBlockedCount s1 - 1\<rparr>"
  let ?k3 = "k\<lparr>kready := kready k @ [p], kblocked := (kblocked k)(?a := q), kheld := c # H\<rparr>"
  have "kinv ?s2 (k\<lparr>kready := kready k @ [p], kheld := H\<rparr>)" using s1(2) by simp
  from kinv_removeBlocked [OF this, of ?a c q] Cons(4) obtain s3 where
    s3: "removeBlocked ?a ?s2 = Some (Some c, s3)" "kinv s3 ?k3" "kframe ?s2 s3 {}" by auto
  let ?k' = "?k3\<lparr>kready := kready ?k3 @ c # q, kblocked := (kblocked ?k3)(?a := []), kheld := H\<rparr>"
  have k': "?k' = k\<lparr>kready := kready k @ p # c # q, kblocked := (kblocked k)(?a := []), kheld := H\<rparr>"
    by simp
  have pre: "kheld ?k3 = c # H" "kblocked ?k3 ?a = q" by simp_all
  obtain s' where s': "wake_clock_loop U (Some c) s3 = Some s'" "kinv s' ?k'"
    "kframe (s3\<lparr>softBlockedCount := softBlockedCount s3 - of_nat (Suc (length q))\<rparr>) s' {}"
    using Cons.IH [OF s3(2) pre] by blast
  have "wake_clock_loop U (Some p) s = Some s'"
    using s1(1) s3(1) s'(1) by (subst wake_clock_loop.simps) simp
  moreover have F: "kframe (s\<lparr>softBlockedCount := softBlockedCount s'\<rparr>) s' {}"
    using s1(3) s3(3) s'(3) by (simp add: kframe_def)
  have soft: "softBlockedCount s' = softBlockedCount s - of_nat (Suc (length (c # q)))"
    using kframe_globals(3) [OF s1(3)] kframe_globals(3) [OF s3(3)] kframe_globals(3) [OF s'(3)] by simp
  ultimately show ?case using s'(2) F unfolding k' soft by blast
qed

lemma handleIntervalTimerInterrupt_spec:
  assumes k: "kinv s k" and a: "clockSemaphore U \<noteq> 0" "clockSemaphore U \<noteq> MAXADD"
  shows "\<exists>s'. handleIntervalTimerInterrupt U s = Some s' \<and>
     kinv s' (k\<lparr>kready := kready k @ kblocked k (clockSemaphore U),
       kblocked := (kblocked k)(clockSemaphore U := [])\<rparr>) \<and>
     kframe (s\<lparr>softBlockedCount := softBlockedCount s - of_nat (length (kblocked k (clockSemaphore U))),
       ints := (ints s)(clockSemaphore U := 0), hardware := (hardware s)\<lparr>ldit_out := 100000\<rparr>\<rparr>) s' {}"
proof -
  let ?a = "clockSemaphore U" and ?s1 = "LDIT 100000 s"
  have k1: "kinv ?s1 k" using k by (simp add: LDIT_def)
  show ?thesis
  proof (cases "kblocked k ?a")
    case Nil
    from kinv_removeBlocked_empty [OF k1 Nil a(2)]
    have "handleIntervalTimerInterrupt U s = Some (?s1\<lparr>ints := (ints s)(?a := 0)\<rparr>)"
      using a(1) by (simp add: handleIntervalTimerInterrupt_def wake_clock_loop.simps store_int_def Let_def LDIT_def)
    moreover have "(kblocked k)(?a := []) = kblocked k" using Nil by auto
    ultimately show ?thesis using k1 Nil by (simp add: kframe_def LDIT_def)
  next
    case (Cons p q)
    obtain s2 where s2: "removeBlocked ?a ?s1 = Some (Some p, s2)"
      "kinv s2 (k\<lparr>kblocked := (kblocked k)(?a := q), kheld := p # kheld k\<rparr>)" "kframe ?s1 s2 {}"
      using kinv_removeBlocked [OF k1 Cons] by blast
    from wake_clock_loop_spec [OF s2(2), of p "kheld k" U q] a(2) obtain s3 where
      s3: "wake_clock_loop U (Some p) s2 = Some s3"
        "kinv s3 (k\<lparr>kready := kready k @ p # q, kblocked := (kblocked k)(?a := [])\<rparr>)"
        "kframe (s2\<lparr>softBlockedCount := softBlockedCount s2 - of_nat (Suc (length q))\<rparr>) s3 {}"
      by auto
    have "handleIntervalTimerInterrupt U s = Some (s3\<lparr>ints := (ints s3)(?a := 0)\<rparr>)"
      using a(1) s2(1) s3(1) by (simp add: handleIntervalTimerInterrupt_def store_int_def Let_def)
    with s3(2) s2(3) s3(3) Cons show ?thesis by (simp add: kframe_def LDIT_def)
  qed
qed

subsection \<open>Devices\<close>

text \<open>What a handler that comes back leaves unchanged.\<close>

definition iframe :: "nuc_state \<Rightarrow> nuc_state \<Rightarrow> bool" where
  "iframe s s' \<longleftrightarrow> currentProcess s' = currentProcess s \<and> supports s' = supports s \<and>
     states s' = states s \<and> stopT s' = stopT s \<and> same_tree (pcbs s) (pcbs s')"

lemma iframe_kframe:
  assumes "kframe (s\<lparr>softBlockedCount := n, ints := I, hardware := w\<rparr>) s' {}"
  shows "iframe s s'"
  using assms same_tree_user [of "pcbs s'" "pcbs s"] by (simp add: iframe_def kframe_def)

text \<open>
  \<open>woke U st a s k s' k'\<close>: the V operation on the semaphore of a device.  When the
  semaphore is not positive and a process waits, the first one gets the status \<open>st\<close> in
  \<open>v0\<close>, becomes ready, and the semaphore is incremented; otherwise nothing changes.
\<close>

definition woke :: "umps \<Rightarrow> u32 \<Rightarrow> u32 \<Rightarrow> nuc_state \<Rightarrow> kview \<Rightarrow> nuc_state \<Rightarrow> kview \<Rightarrow> bool" where
  "woke U st a s k s' k' \<longleftrightarrow> kfree k' = kfree k \<and> kheld k' = kheld k \<and>
     (if sint (ints s a) \<le> 0 \<and> kblocked k a \<noteq> []
      then kblocked k' = (kblocked k)(a := tl (kblocked k a)) \<and> kready k' = kready k @ [hd (kblocked k a)] \<and>
        ints s' = (ints s)(a := ints s a + 1) \<and>
        p_s (pcbs s' (hd (kblocked k a))) = set_gpr (ix_v0 U) st (p_s (pcbs s (hd (kblocked k a)))) \<and>
        (\<forall>x. x \<noteq> hd (kblocked k a) \<longrightarrow> p_s (pcbs s' x) = p_s (pcbs s x))
      else k' = k \<and> ints s' = ints s \<and> pcbs s' = pcbs s)"

lemma woke_cong:
  "ints s = ints t \<Longrightarrow> pcbs s = pcbs t \<Longrightarrow> ints s' = ints t' \<Longrightarrow> pcbs s' = pcbs t' \<Longrightarrow>
   woke U st a s k s' k' = woke U st a t k t' k'"
  by (simp add: woke_def)

lemma releaseSem_spec:
  assumes k: "kinv s k" and a: "devSem U i = Some a" "sem_addr a"
  shows "\<exists>s' k'. releaseSemAndUpdateStatus U i st s = Some s' \<and> kinv s' k' \<and>
     softBlockedCount s' = softBlockedCount s - 1 \<and> iframe s s' \<and> hardware s' = hardware s \<and>
     woke U st a s k s' k'"
proof -
  have a': "a \<noteq> 0" "a \<noteq> MAXADD" using a(2) by (simp_all add: sem_addr_def)
  let ?s1 = "s\<lparr>softBlockedCount := softBlockedCount s - 1\<rparr>"
  have k1: "kinv ?s1 k" using k by simp
  consider "\<not> sint (ints s a) \<le> 0" | "sint (ints s a) \<le> 0" "kblocked k a = []"
    | c q where "sint (ints s a) \<le> 0" "kblocked k a = c # q" by (cases "kblocked k a") auto
  then show ?thesis
  proof cases
    case 1
    then show ?thesis using k1 a a'
      by (intro exI [of _ ?s1] exI [of _ k])
        (simp add: releaseSemAndUpdateStatus_def load_int_def iframe_def woke_def Let_def)
  next
    case 2
    then show ?thesis using k1 a a' kinv_removeBlocked_empty [OF k1 2(2) a'(2)]
      by (intro exI [of _ ?s1] exI [of _ k])
        (simp add: releaseSemAndUpdateStatus_def load_int_def iframe_def woke_def Let_def)
  next
    case (3 c q)
    let ?k2 = "k\<lparr>kblocked := (kblocked k)(a := q), kheld := c # kheld k\<rparr>"
    obtain s2 where s2: "removeBlocked a ?s1 = Some (Some c, s2)" "kinv s2 ?k2" "kframe ?s1 s2 {}"
      using kinv_removeBlocked [OF k1 3(2)] by blast
    let ?s3 = "s2\<lparr>pcbs := (pcbs s2)(c := (pcbs s2 c)\<lparr>p_s := set_gpr (ix_v0 U) st (p_s (pcbs s2 c))\<rparr>)\<rparr>"
    have "kinv ?s3 ?k2" using s2(2) by simp
    from kinv_insertReady [OF this, of c] obtain s4 where s4: "insertReady (Some c) ?s3 = Some s4"
      "kinv s4 (?k2\<lparr>kready := kready k @ [c], kheld := kheld k\<rparr>)" "kframe ?s3 s4 {}" by auto
    let ?s5 = "s4\<lparr>ints := (ints s)(a := ints s a + 1)\<rparr>" and ?k5 = "?k2\<lparr>kready := kready k @ [c], kheld := kheld k\<rparr>"
    note G2 = kframe_globals [OF s2(3)] and G4 = kframe_globals [OF s4(3)]
    have ps: "p_s (pcbs s4 x) = (if x = c then set_gpr (ix_v0 U) st (p_s (pcbs s c)) else p_s (pcbs s x))" for x
      using kframe_p_s [OF s4(3), of x] kframe_p_s [OF s2(3), of x] by (cases "x = c") simp_all
    have "same_tree (pcbs s) (pcbs s2)" using kframe_user [OF s2(3)] by (auto intro: same_tree_user)
    moreover have "same_tree (pcbs ?s3) (pcbs s4)" using kframe_user [OF s4(3)] by (auto intro: same_tree_user)
    ultimately have T: "same_tree (pcbs s) (pcbs s4)" by (simp add: same_tree_def)
    have "releaseSemAndUpdateStatus U i st s = Some ?s5"
      using 3(1) a a' s2(1) s4(1) G2 G4
      by (simp add: releaseSemAndUpdateStatus_def load_int_def store_int_def Let_def)
    with s4(2) G2 G4 ps T 3 show ?thesis
      by (intro exI [of _ ?s5] exI [of _ ?k5]) (simp add: iframe_def woke_def)
  qed
qed

lemma devSem_doc:
  assumes "umps_doc U" and "i < 49"
  shows "devSem U i = Some (adr_deviceSemaphores U + 4 * i)" "sem_addr (adr_deviceSemaphores U + 4 * i)"
    "unat (adr_deviceSemaphores U + 4 * i) = unat (adr_deviceSemaphores U) + 4 * unat i"
proof -
  have i: "unat i < 49" using assms(2) by (simp add: word_less_nat_alt)
  have b: "0 < unat (adr_deviceSemaphores U)" "unat (adr_deviceSemaphores U) + 4 * 49 < 0x7FFFFFFF"
    using assms(1) by (simp_all add: umps_doc_def)
  have "unat (4 * i) = 4 * unat i" using i by (simp add: unat_word_ariths)
  then show u: "unat (adr_deviceSemaphores U + 4 * i) = unat (adr_deviceSemaphores U) + 4 * unat i"
    using i b by (simp add: unat_word_ariths)
  show "devSem U i = Some (adr_deviceSemaphores U + 4 * i)"
    using assms(2) by (simp add: devSem_def DEVICE_NUM_def)
  have "unat (adr_deviceSemaphores U + 4 * i) \<noteq> 0" "unat (adr_deviceSemaphores U + 4 * i) \<noteq> unat MAXADD"
    using u i b by (simp_all add: MAXADD_def)
  then show "sem_addr (adr_deviceSemaphores U + 4 * i)" by (auto simp: sem_addr_def)
qed

subsection \<open>Finding the device\<close>

lemma deviceNo_loop_cases:
  "deviceNo_loop b is = (case filter (\<lambda>i. drop_bit i b AND 1 = 1) is of [] \<Rightarrow> - 1 | i # _ \<Rightarrow> of_nat i)"
  by (induction "is") auto

lemma getDeviceNo_found:
  assumes U: "umps_devices U" and i: "i < 8" "drop_bit i (dev_bitmap (hardware s) line) AND 1 = 1"
  obtains n where "n \<le> i" "getDeviceNoFromLine U line s = of_nat n"
    "drop_bit n (dev_bitmap (hardware s) line) AND 1 = 1"
    "\<And>j. j < n \<Longrightarrow> drop_bit j (dev_bitmap (hardware s) line) AND 1 \<noteq> 1"
proof -
  let ?P = "\<lambda>i. drop_bit i (dev_bitmap (hardware s) line) AND 1 = 1"
  define n where "n = (LEAST j. ?P j)"
  have n: "?P n" "n \<le> i" "\<And>j. j < n \<Longrightarrow> \<not> ?P j"
    unfolding n_def using i(2) by (auto intro: LeastI Least_le dest: not_less_Least)
  have sp: "[0..<8] = [0..<n] @ n # [Suc n..<8]"
    using n(2) i(1) upt_add_eq_append [of 0 n "8 - n"] upt_conv_Cons [of n 8] by simp
  have "filter ?P [0..<n] = []" using n(3) by (auto simp: filter_empty_conv)
  then have "getDeviceNoFromLine U line s = of_nat n"
    using U n(1) unfolding getDeviceNoFromLine_def deviceNo_loop_cases umps_devices_def
    by (simp add: sp del: upt_rec_numeral)
  with n that show ?thesis by blast
qed

lemma getSemIndex_device:
  assumes U: "umps_devices U" and l: "3 \<le> line" "line \<le> 7" and no: "no < 8"
  shows "\<exists>i. getSemIndex U line no r = Some i \<and> i < 48 \<and>
     unat i = (unat line - 3 + (if line = 7 \<and> r = 0 then 1 else 0)) * 8 + unat no"
proof -
  have "line \<in> {3, 4, 5, 6, 7}"
  proof -
    have "unat line \<in> {3, 4, 5, 6, 7}" using l by (auto simp: word_le_nat_alt)
    then show ?thesis by (auto simp: word_unat_eq_iff)
  qed
  moreover have "unat no < 8" using no by (simp add: word_less_nat_alt)
  ultimately show ?thesis using U
    by (auto simp: getSemIndex_def umps_devices_def INTERTIMEINT_def word_less_nat_alt unat_word_ariths)
qed

subsection \<open>The device handler\<close>

definition dev_recv :: "umps \<Rightarrow> u32 \<Rightarrow> devreg_t \<Rightarrow> u32" where
  "dev_recv U line d = (if line = TERMINT U then terminalIsRECV U (dev_term d) else 0)"

definition dev_status :: "umps \<Rightarrow> u32 \<Rightarrow> devreg_t \<Rightarrow> u32" where
  "dev_status U line d = (if line = TERMINT U then getTermStatus U (dev_term d) else dtp_status (dev_dtp d))"

definition dev_acked :: "umps \<Rightarrow> u32 \<Rightarrow> devreg_t \<Rightarrow> devreg_t" where
  "dev_acked U line d = (if line = TERMINT U then d\<lparr>dev_term := acknowledgeTermInterrupt U (dev_term d)\<rparr>
     else d\<lparr>dev_dtp := acknowledgeDTPInterrupt U (dev_dtp d)\<rparr>)"

lemma handleDeviceInterrupt_unfold:
  assumes "n = getDeviceNoFromLine U line s" "unat n < DEVPERINT U" "d = dev_regs (hardware s) line n"
    and "getSemIndex U line n (dev_recv U line d) = Some i"
  shows "handleDeviceInterrupt U line s = do {
     s \<leftarrow> releaseSemAndUpdateStatus U i (dev_status U line d) (dev_put line n (dev_acked U line d) s);
     let (t, s) = getTIMER s;
     Some (None, s\<lparr>startT := t\<rparr>)
   }"
  using assms by (auto simp: handleDeviceInterrupt_def dev_at_def dev_recv_def dev_status_def dev_acked_def Let_def)

lemma dev_put_globals [simp]:
  "kinv (dev_put line n d s) k = kinv s k" "ints (dev_put line n d s) = ints s" "pcbs (dev_put line n d s) = pcbs s"
  "softBlockedCount (dev_put line n d s) = softBlockedCount s" "supports (dev_put line n d s) = supports s"
  "currentProcess (dev_put line n d s) = currentProcess s" "states (dev_put line n d s) = states s"
  "stopT (dev_put line n d s) = stopT s"
  "dev_regs (hardware (dev_put line n d s)) = (dev_regs (hardware s))(line := (dev_regs (hardware s) line)(n := d))"
  by (simp_all add: dev_put_def Let_def)

lemma handleDeviceInterrupt_spec:
  assumes k: "kinv s k" and U: "umps_doc U" and l: "3 \<le> line" "line \<le> 7"
    and i: "i < 8" "drop_bit i (dev_bitmap (hardware s) line) AND 1 = 1"
    and n: "n = getDeviceNoFromLine U line s" and d: "d = dev_regs (hardware s) line n"
  shows "\<exists>j a s' k'. getSemIndex U line n (dev_recv U line d) = Some j \<and> j < 48 \<and>
     devSem U j = Some a \<and> unat n \<le> i \<and>
     handleDeviceInterrupt U line s = Some (None, s') \<and> kinv s' k' \<and> iframe s s' \<and>
     softBlockedCount s' = softBlockedCount s - 1 \<and> dev_regs (hardware s') line n = dev_acked U line d \<and>
     startT s' = timer_in (hardware s) (timer_ix (hardware s)) \<and> hw_clock s' = hw_clock s \<and>
     woke U (dev_status U line d) a s k s' k'"
proof -
  have U': "umps_devices U" using U by (simp add: umps_doc_def)
  obtain m where m: "m \<le> i" "n = of_nat m" using getDeviceNo_found [OF U' i] n by metis
  have un: "unat n = m" using m i(1) by (simp add: take_bit_nat_eq_self_iff unat_of_nat take_bit_nat_def)
  then have n8: "n < 8" "unat n < DEVPERINT U" using m(1) i(1) U'
    by (simp_all add: word_less_nat_alt umps_devices_def)
  obtain j where j: "getSemIndex U line n (dev_recv U line d) = Some j" "j < 48"
    using getSemIndex_device [OF U' l n8(1)] by blast
  let ?a = "adr_deviceSemaphores U + 4 * j" and ?s1 = "dev_put line n (dev_acked U line d) s"
  have "j < 49" using j(2) by (simp add: word_less_nat_alt)
  note D = devSem_doc [OF U this]
  have k1: "kinv ?s1 k" using k by simp
  obtain s2 k' where r: "releaseSemAndUpdateStatus U j (dev_status U line d) ?s1 = Some s2" "kinv s2 k'"
    "softBlockedCount s2 = softBlockedCount ?s1 - 1" "iframe ?s1 s2" "hardware s2 = hardware ?s1"
    "woke U (dev_status U line d) ?a ?s1 k s2 k'"
    using releaseSem_spec [OF k1 D(1,2)] by blast
  let ?s3 = "s2\<lparr>hardware := (hardware s2)\<lparr>timer_ix := Suc (timer_ix (hardware s2))\<rparr>,
     startT := timer_in (hardware s) (timer_ix (hardware s))\<rparr>"
  have "timer_in (hardware s2) (timer_ix (hardware s2)) = timer_in (hardware s) (timer_ix (hardware s))"
    using r(5) by (simp add: dev_put_def Let_def)
  then have "handleDeviceInterrupt U line s = Some (None, ?s3)"
    unfolding handleDeviceInterrupt_unfold [OF n n8(2) d j(1)] using r(1) by (simp add: getTIMER_def Let_def)
  moreover have "iframe s ?s3" using r(4) by (simp add: iframe_def)
  moreover have "dev_regs (hardware ?s3) line n = dev_acked U line d" using r(5) by simp
  moreover have "kinv ?s3 k'" "unat n \<le> i" using r(2) un m(1) by simp_all
  moreover have "hw_clock ?s3 = hw_clock s" using r(5) by (simp add: dev_put_def hw_clock_def Let_def)
  moreover have "woke U (dev_status U line d) ?a s k ?s3 k'"
    using r(6) woke_cong [of s ?s1 ?s3 s2] by simp
  ultimately show ?thesis using j D(1) r(3)
    by (intro exI [of _ j] exI [of _ ?a] exI [of _ ?s3] exI [of _ k']) simp
qed

subsection \<open>The dispatcher of the interrupts\<close>

lemma handlePLTInterrupt_spec:
  assumes e: "at_entry s k c"
  shows "\<exists>p s'. handlePLTInterrupt U stop s = Some (LDST (p_s (pcbs s' p)), s') \<and>
     path_end (LDST (p_s (pcbs s' p))) s' (k\<lparr>kready := tl (kready k @ [c]), kheld := [p]\<rparr>) \<and>
     p = hd (kready k @ [c]) \<and> currentProcess s' = Some p \<and> timer_out (hardware s') = TIMESLICE \<and>
     p_s (pcbs s' c) = copyState U (states s BIOSDATAPAGE) (p_s (pcbs s c)) \<and>
     p_time (pcbs s' c) = p_time (pcbs s c) + (stop - startT s) \<and>
     (\<forall>x. x \<noteq> c \<longrightarrow> pcb_user (pcbs s' x) = pcb_user (pcbs s x)) \<and>
     same_tree (pcbs s) (pcbs s') \<and> ints s' = ints s \<and> supports s' = supports s \<and>
     softBlockedCount s' = softBlockedCount s"
proof -
  note E = at_entryD [OF e]
  let ?s0 = "setTIMER (5000 * timescale (hardware s)) s"
  let ?y = "(pcbs s c)\<lparr>p_time := p_time (pcbs s c) + (stop - startT s),
     p_s := copyState U (states s BIOSDATAPAGE) (p_s (pcbs s c))\<rparr>"
  let ?s1 = "?s0\<lparr>pcbs := (pcbs s)(c := ?y)\<rparr>"
  have k1: "kinv ?s1 k" using E(1) by simp
  obtain s2 where s2: "insertReady (Some c) ?s1 = Some s2"
    "kinv s2 (k\<lparr>kready := kready k @ [c], kheld := []\<rparr>)" "kframe ?s1 s2 {}"
    using kinv_insertReady [OF k1 E(4)] E(3) by auto
  note G2 = kframe_globals [OF s2(3)]
  obtain p ps where p: "kready k @ [c] = p # ps" by (cases "kready k @ [c]") auto
  obtain s' where s': "scheduler s2 = Some (LDST (p_s (pcbs s2 p)), s')"
    "path_end (LDST (p_s (pcbs s2 p))) s' (k\<lparr>kready := ps, kheld := [p]\<rparr>)" "currentProcess s' = Some p"
    "hardware s' = (hardware s2)\<lparr>tod_ix := Suc (tod_ix (hardware s2)), timer_out := TIMESLICE\<rparr>"
    "ints s' = ints s2" "softBlockedCount s' = softBlockedCount s2" "supports s' = supports s2"
    "\<And>x. pcb_user (pcbs s' x) = pcb_user (pcbs s2 x)"
    using scheduler_dispatch [OF s2(2), of p ps] p by auto
  have us: "pcb_user (pcbs s' x) = pcb_user (if x = c then ?y else pcbs s x)" for x
    using s'(8) [of x] kframe_user [OF s2(3), of x] by auto
  have "currentProcess ?s0 = Some c" using E(2) by simp
  then have "handlePLTInterrupt U stop s = Some (LDST (p_s (pcbs s2 p)), s')"
    using s2(1) s'(1) by (simp add: handlePLTInterrupt_def load_state_def BIOSDATAPAGE_def setTIMER_def Let_def)
  moreover have "p_s (pcbs s2 p) = p_s (pcbs s' p)" using pcb_user_eqD(5) [OF s'(8)] by simp
  moreover have "same_tree (pcbs s) (pcbs s')"
  proof -
    have "same_tree ((pcbs s)(c := ?y)) (pcbs s')" by (rule same_tree_user) (use us in auto)
    then show ?thesis by (simp add: same_tree_def)
  qed
  moreover have "\<forall>x. x \<noteq> c \<longrightarrow> pcb_user (pcbs s' x) = pcb_user (pcbs s x)" using us by simp
  ultimately show ?thesis
    using s'(1-7) p G2 pcb_user_eqD(5,6) [OF us [of c]]
    by (intro exI [of _ p] exI [of _ s']) simp
qed

text \<open>The documentation promises that a pending device line has a device that interrupts.\<close>

definition devices_ok :: "umps \<Rightarrow> nuc_state \<Rightarrow> bool" where
  "devices_ok U s \<longleftrightarrow> (\<forall>line. 3 \<le> line \<longrightarrow> line \<le> 7 \<longrightarrow> interrupt_pending U (CAUSE (hardware s)) line \<longrightarrow>
     (\<exists>i < 8. drop_bit i (dev_bitmap (hardware s) line) AND 1 = 1))"

lemma resume_running:
  assumes e: "at_entry s k c"
  shows "\<exists>s'. resume_interrupted U left s = Some (LDST (copyState U (states s BIOSDATAPAGE) (p_s (pcbs s c))), s') \<and>
     path_end (LDST (copyState U (states s BIOSDATAPAGE) (p_s (pcbs s c)))) s' k \<and>
     same_tree (pcbs s) (pcbs s') \<and> supports s' = supports s \<and> ints s' = ints s \<and>
     currentProcess s' = Some c \<and> timer_out (hardware s') = left \<and> softBlockedCount s' = softBlockedCount s \<and>
     p_time (pcbs s' c) = p_time (pcbs s c) + (stopT s - startT s) \<and>
     (\<forall>x. x \<noteq> c \<longrightarrow> pcbs s' x = pcbs s x)"
proof -
  note E = at_entryD [OF e]
  let ?h = "(pcbs s)(c := (pcbs s c)\<lparr>p_time := p_time (pcbs s c) + (stopT s - startT s),
    p_s := copyState U (states s BIOSDATAPAGE) (p_s (pcbs s c))\<rparr>)"
  let ?s' = "s\<lparr>pcbs := ?h, startT := tod_in (hardware s) (tod_ix (hardware s)),
    hardware := (hardware s)\<lparr>tod_ix := Suc (tod_ix (hardware s)), timer_out := left\<rparr>\<rparr>"
  have "resume_interrupted U left s = Some (LDST (copyState U (states s BIOSDATAPAGE) (p_s (pcbs s c))), ?s')"
    using E(2) by (simp add: resume_interrupted_def load_state_def BIOSDATAPAGE_def updateTimeAndSwitch_def read_tod_def
        setTIMER_def loadProcess_def Let_def)
  moreover have "kinv ?s' k" using E(1) by (rule kinv_frame) (simp_all add: same_queue_fields_def)
  ultimately show ?thesis using E(2,3) by (simp add: path_end_def)
qed

lemma resume_safe:
  assumes b: "between s k"
  shows "\<exists>out s' k'. resume_interrupted U left s = Some (out, s') \<and> path_end out s' k' \<and> kfree k' = kfree k \<and>
     kblocked k' = kblocked k \<and> same_tree (pcbs s) (pcbs s') \<and> supports s' = supports s \<and> ints s' = ints s \<and>
     softBlockedCount s' = softBlockedCount s"
proof (cases "currentProcess s")
  case None
  then have "kinv s k" "kheld k = []" using b by (simp_all add: between_def)
  from scheduler_safe [OF this] obtain out s' k' where r: "scheduler s = Some (out, s')" "path_end out s' k'"
    "kfree k' = kfree k" "kblocked k' = kblocked k" "ints s' = ints s" "softBlockedCount s' = softBlockedCount s"
    "supports s' = supports s" and u: "\<And>x. pcb_user (pcbs s' x) = pcb_user (pcbs s x)" by blast
  have "same_tree (pcbs s) (pcbs s')" by (rule same_tree_user) (rule u)
  with r None show ?thesis unfolding resume_interrupted_def by auto
next
  case (Some c)
  from resume_running [OF between_entry [OF b Some], of U left] show ?thesis by auto
qed

lemma handleDevice_between:
  assumes b: "between s k" and U: "umps_doc U" and dev: "devices_ok U s"
    and l: "3 \<le> line" "line \<le> 7" "interrupt_pending U (CAUSE (hardware s)) line"
  shows "\<exists>s' k'. handleDeviceInterrupt U line s = Some (None, s') \<and> between s' k' \<and> iframe s s' \<and> kfree k' = kfree k"
proof -
  obtain i where i: "i < 8" "drop_bit i (dev_bitmap (hardware s) line) AND 1 = 1"
    using dev l by (auto simp: devices_ok_def)
  have "kinv s k" using b by (simp add: between_def)
  from handleDeviceInterrupt_spec [OF this U l(1,2) i refl refl] obtain s' k' a st where
    "handleDeviceInterrupt U line s = Some (None, s')" "kinv s' k'" "iframe s s'" "woke U st a s k s' k'" by blast
  with b show ?thesis by (auto simp: between_def iframe_def woke_def)
qed

lemma dispatch_interrupt_safe:
  assumes b: "between s k" and U: "umps_doc U" and dev: "devices_ok U s"
  shows "\<exists>out s' k'. dispatch_interrupt U (CAUSE (hardware s)) s = Some (out, s') \<and> kfree k' = kfree k \<and>
     same_tree (pcbs s) (pcbs s') \<and> supports s' = supports s \<and>
     (case out of None \<Rightarrow> between s' k' | Some out \<Rightarrow> path_end out s' k')"
proof -
  let ?c = "CAUSE (hardware s)"
  have lines: "DISKINT U = 3" "FLASHINT U = 4" "NETWINT U = 5" "PRNTINT U = 6" "TERMINT U = 7"
    using U by (simp_all add: umps_doc_def umps_devices_def)
  note D = handleDevice_between [OF b U dev]
  define Q where "Q r \<longleftrightarrow> (\<exists>out s' k'. r = Some (out, s') \<and> kfree k' = kfree k \<and>
     same_tree (pcbs s) (pcbs s') \<and> supports s' = supports s \<and>
     (case out of None \<Rightarrow> between s' k' | Some out \<Rightarrow> path_end out s' k'))" for r
  have dl: "Q (handleDeviceInterrupt U line s)" if "3 \<le> line" "line \<le> 7" "interrupt_pending U ?c line" for line
    using D [OF that] unfolding Q_def by (fastforce simp: iframe_def)
  have idle: "Q (Some (None, s))" using b unfolding Q_def by auto
  consider "?c AND CAUSE_IP_MASK U = 0" | "?c AND CAUSE_IP_MASK U \<noteq> 0" "interrupt_pending U ?c PLTINT"
    | "?c AND CAUSE_IP_MASK U \<noteq> 0" "\<not> interrupt_pending U ?c PLTINT" "interrupt_pending U ?c INTERTIMEINT"
    | "?c AND CAUSE_IP_MASK U \<noteq> 0" "\<not> interrupt_pending U ?c PLTINT" "\<not> interrupt_pending U ?c INTERTIMEINT"
    by blast
  then show ?thesis
  proof cases
    case 1
    then show ?thesis using b by (simp add: dispatch_interrupt_def) blast
  next
    case 2
    show ?thesis
    proof (cases "currentProcess s")
      case None
      let ?s = "setTIMER (5000 * timescale (hardware s)) s"
      have "dispatch_interrupt U ?c s = Some (Some PANIC, ?s)"
        using 2 None by (simp add: dispatch_interrupt_def handlePLTInterrupt_def Let_def)
      then show ?thesis using b by (intro exI [of _ "Some PANIC"] exI [of _ ?s] exI [of _ k])
        (simp add: between_def path_end_def)
    next
      case (Some c)
      from handlePLTInterrupt_spec [OF between_entry [OF b Some], of U "stopT s"] obtain p s' where
        "handlePLTInterrupt U (stopT s) s = Some (LDST (p_s (pcbs s' p)), s')"
        "path_end (LDST (p_s (pcbs s' p))) s' (k\<lparr>kready := tl (kready k @ [c]), kheld := [p]\<rparr>)"
        "same_tree (pcbs s) (pcbs s')" "supports s' = supports s" by blast
      then show ?thesis using 2
        by (intro exI [of _ "Some (LDST (p_s (pcbs s' p)))"] exI [of _ s']
            exI [of _ "k\<lparr>kready := tl (kready k @ [c]), kheld := [p]\<rparr>"]) (simp add: dispatch_interrupt_def)
    qed
  next
    case 3
    have "49 - 1 = (48 :: u32)" "clockSemaphore U = adr_deviceSemaphores U + 4 * 48"
      by (simp_all add: clockSemaphore_def DEVICE_NUM_def)
    then have a: "clockSemaphore U \<noteq> 0" "clockSemaphore U \<noteq> MAXADD"
      using devSem_doc(2) [OF U, of 48] by (simp_all add: sem_addr_def)
    have "kinv s k" using b by (simp add: between_def)
    from handleIntervalTimerInterrupt_spec [OF this a] obtain s' where
      s': "handleIntervalTimerInterrupt U s = Some s'"
      "kinv s' (k\<lparr>kready := kready k @ kblocked k (clockSemaphore U),
         kblocked := (kblocked k)(clockSemaphore U := [])\<rparr>)"
      "kframe (s\<lparr>softBlockedCount := softBlockedCount s - of_nat (length (kblocked k (clockSemaphore U))),
         ints := (ints s)(clockSemaphore U := 0), hardware := (hardware s)\<lparr>ldit_out := 100000\<rparr>\<rparr>) s' {}" by blast
    note F = iframe_kframe [OF s'(3)]
    from b F s'(2) have "between s' (k\<lparr>kready := kready k @ kblocked k (clockSemaphore U),
         kblocked := (kblocked k)(clockSemaphore U := [])\<rparr>)" by (simp add: between_def iframe_def)
    moreover have "dispatch_interrupt U ?c s = Some (None, s')" using 3 s'(1) by (simp add: dispatch_interrupt_def)
    ultimately show ?thesis using F
      by (intro exI [of _ None] exI [of _ s'] exI [of _ "k\<lparr>kready := kready k @ kblocked k (clockSemaphore U),
         kblocked := (kblocked k)(clockSemaphore U := [])\<rparr>"]) (simp add: iframe_def)
  next
    case 4
    then have "dispatch_interrupt U ?c s =
      (if interrupt_pending U ?c 3 then handleDeviceInterrupt U 3 s
       else if interrupt_pending U ?c 4 then handleDeviceInterrupt U 4 s
       else if interrupt_pending U ?c 5 then handleDeviceInterrupt U 5 s
       else if interrupt_pending U ?c 6 then handleDeviceInterrupt U 6 s
       else if interrupt_pending U ?c 7 then handleDeviceInterrupt U 7 s
       else Some (None, s))" by (simp add: dispatch_interrupt_def lines)
    moreover have "Q \<dots>" using dl [of 3] dl [of 4] dl [of 5] dl [of 6] dl [of 7] idle by simp
    ultimately show ?thesis unfolding Q_def by simp
  qed
qed

lemma handleInterrupts_safe:
  assumes b: "between s k" and U: "umps_doc U" and dev: "devices_ok U s"
  shows "\<exists>out s' k'. handleInterrupts U s = Some (out, s') \<and> path_end out s' k' \<and> kfree k' = kfree k \<and>
     same_tree (pcbs s) (pcbs s') \<and> supports s' = supports s"
proof -
  define s1 where "s1 = (snd (read_tod (snd (getTIMER s))))\<lparr>stopT := tod_in (hardware s) (tod_ix (hardware s))\<rparr>"
  let ?left = "timer_in (hardware s) (timer_ix (hardware s))"
  have b1: "between s1 k" and d1: "devices_ok U s1" and c1: "CAUSE (hardware s1) = CAUSE (hardware s)"
    and p1: "pcbs s1 = pcbs s" "supports s1 = supports s"
    using b dev by (simp_all add: s1_def read_tod_def getTIMER_def devices_ok_def Let_def)
  have run: "handleInterrupts U s = do {
     (out, s) \<leftarrow> dispatch_interrupt U (CAUSE (hardware s)) s1;
     case out of Some out \<Rightarrow> Some (out, s) | None \<Rightarrow> resume_interrupted U ?left s }"
    by (simp add: handleInterrupts_def s1_def getTIMER_def read_tod_def Let_def)
  obtain out s2 k2 where d: "dispatch_interrupt U (CAUSE (hardware s)) s1 = Some (out, s2)" "kfree k2 = kfree k"
    "same_tree (pcbs s) (pcbs s2)" "supports s2 = supports s"
    "case out of None \<Rightarrow> between s2 k2 | Some out \<Rightarrow> path_end out s2 k2"
    using dispatch_interrupt_safe [OF b1 U d1] c1 p1 by auto
  show ?thesis
  proof (cases out)
    case None
    then have "between s2 k2" using d(5) by simp
    from resume_safe [OF this, of U ?left] obtain out' s' k' where
      "resume_interrupted U ?left s2 = Some (out', s')" "path_end out' s' k'" "kfree k' = kfree k2"
      "same_tree (pcbs s2) (pcbs s')" "supports s' = supports s2" by blast
    moreover note same_tree_trans [OF d(3) this(4)]
    ultimately show ?thesis using d None by (auto simp: run)
  next
    case (Some o1)
    then show ?thesis using d by (auto simp: run)
  qed
qed

end
