(* ===== verification/Forest.thy ===== *)
theory Forest
  imports Sys_Terminate Int_Lemmas
begin

text \<open>
  The process tree as a whole.  \<open>forest h L C d\<close>: among the live processes \<open>L\<close>, \<open>C r\<close> are
  the children of \<open>r\<close>, as the list from \<open>p_child\<close> over \<open>p_next_sib\<close> gives them; nobody is in two such
  lists; and the depth \<open>d\<close> grows from parent to child.  A process in no list is a root, or a child
  that its parent lost when \<open>outChild\<close> took out the first of its children; such a child still
  names its parent.  \<open>siblings\<close> says what the sibling links of all of them obey.  System calls keep
  all this: SYS1 adds a leaf, SYS2 removes a whole subtree.
\<close>

definition siblings :: "pcb_heap \<Rightarrow> nat set \<Rightarrow> (nat \<Rightarrow> nat list) \<Rightarrow> bool" where
  "siblings h L C \<longleftrightarrow>
     (\<forall>x \<in> L. \<forall>y. nsib h x = Some y \<longrightarrow> y \<in> L \<and> (psib h y = None \<or> psib h y = Some x) \<and>
        p_prnt (h x) \<noteq> None \<and> p_prnt (h y) = p_prnt (h x) \<and> (\<forall>r \<in> L. head_ptr (C r) \<noteq> Some y)) \<and>
     (\<forall>y \<in> L. \<forall>x. psib h y = Some x \<longrightarrow> x \<in> L \<and> nsib h x = Some y) \<and>
     (\<forall>x \<in> L. \<forall>x' \<in> L. \<forall>y. nsib h x = Some y \<longrightarrow> nsib h x' = Some y \<longrightarrow> x = x')"

definition forest :: "pcb_heap \<Rightarrow> nat set \<Rightarrow> (nat \<Rightarrow> nat list) \<Rightarrow> (nat \<Rightarrow> nat) \<Rightarrow> bool" where
  "forest h L C d \<longleftrightarrow> finite L \<and>
     (\<forall>r \<in> L. brood h r (C r) \<and> set (C r) \<subseteq> L \<and> (\<forall>x \<in> set (C r). d r < d x)) \<and>
     (\<forall>r \<in> L. \<forall>r' \<in> L. \<forall>x. x \<in> set (C r) \<longrightarrow> x \<in> set (C r') \<longrightarrow> r = r') \<and> siblings h L C"

lemma siblingsD:
  assumes "siblings h L C" and "x \<in> L" and "nsib h x = Some y"
  shows "y \<in> L" "psib h y = None \<or> psib h y = Some x" "p_prnt (h x) \<noteq> None" "p_prnt (h y) = p_prnt (h x)"
    "r \<in> L \<Longrightarrow> head_ptr (C r) \<noteq> Some y" "x' \<in> L \<Longrightarrow> nsib h x' = Some y \<Longrightarrow> x' = x"
  using assms unfolding siblings_def by blast+

lemma siblings_prev: "siblings h L C \<Longrightarrow> y \<in> L \<Longrightarrow> psib h y = Some x \<Longrightarrow> x \<in> L \<and> nsib h x = Some y"
  unfolding siblings_def by blast

lemma siblingsI:
  assumes "\<And>x y. x \<in> L \<Longrightarrow> nsib h x = Some y \<Longrightarrow> y \<in> L \<and> (psib h y = None \<or> psib h y = Some x) \<and>
      p_prnt (h x) \<noteq> None \<and> p_prnt (h y) = p_prnt (h x)"
    and "\<And>x y r. x \<in> L \<Longrightarrow> nsib h x = Some y \<Longrightarrow> r \<in> L \<Longrightarrow> head_ptr (C r) \<noteq> Some y"
    and "\<And>x y. y \<in> L \<Longrightarrow> psib h y = Some x \<Longrightarrow> x \<in> L \<and> nsib h x = Some y"
    and "\<And>x x' y. x \<in> L \<Longrightarrow> x' \<in> L \<Longrightarrow> nsib h x = Some y \<Longrightarrow> nsib h x' = Some y \<Longrightarrow> x = x'"
  shows "siblings h L C"
  unfolding siblings_def using assms by blast

lemma forestD:
  assumes "forest h L C d"
  shows "finite L" "r \<in> L \<Longrightarrow> brood h r (C r)" "r \<in> L \<Longrightarrow> x \<in> set (C r) \<Longrightarrow> x \<in> L"
    "r \<in> L \<Longrightarrow> x \<in> set (C r) \<Longrightarrow> d r < d x" "r \<in> L \<Longrightarrow> distinct (C r)"
    "r \<in> L \<Longrightarrow> r' \<in> L \<Longrightarrow> x \<in> set (C r) \<Longrightarrow> x \<in> set (C r') \<Longrightarrow> r = r'" "siblings h L C"
    "r \<in> L \<Longrightarrow> sibs None h (C r)" "r \<in> L \<Longrightarrow> p_child (h r) = head_ptr (C r)"
    "r \<in> L \<Longrightarrow> x \<in> set (C r) \<Longrightarrow> p_prnt (h x) = Some r"
  using assms by (auto simp: forest_def brood_def)

lemma forestI:
  assumes "finite L" and "\<And>r. r \<in> L \<Longrightarrow> brood h r (C r)"
    and "\<And>r. r \<in> L \<Longrightarrow> set (C r) \<subseteq> L" and "\<And>r x. r \<in> L \<Longrightarrow> x \<in> set (C r) \<Longrightarrow> d r < d x"
    and "\<And>r r' x. r \<in> L \<Longrightarrow> r' \<in> L \<Longrightarrow> x \<in> set (C r) \<Longrightarrow> x \<in> set (C r') \<Longrightarrow> r = r'"
    and "siblings h L C"
  shows "forest h L C d"
  unfolding forest_def
proof (intro conjI ballI allI impI)
  show "x = y" if "x \<in> L" "y \<in> L" "z \<in> set (C x)" "z \<in> set (C y)" for x y z using assms(5) that .
qed (use assms in auto)

lemma forest_same_tree:
  assumes "forest h L C d" and "same_tree h h'"
  shows "forest h' L C d"
proof -
  have "brood h' r (C r)" if "r \<in> L" for r
    by (rule brood_frame [OF forestD(2) [OF assms(1) that]]) (use assms(2) in \<open>auto simp: same_tree_def\<close>)
  moreover have "siblings h' L C = siblings h L C" using assms(2) by (simp add: siblings_def same_tree_def)
  ultimately show ?thesis using assms(1) by (simp add: forest_def)
qed

lemma forest_cong:
  assumes "forest h L C d" and "\<And>r. r \<in> L \<Longrightarrow> C' r = C r"
  shows "forest h L C' d"
proof -
  have "siblings h L C' = siblings h L C" using assms(2) by (simp add: siblings_def)
  then show ?thesis using assms by (simp add: forest_def)
qed

text \<open>One process and no children, as after the start.\<close>

lemma forest_single:
  assumes "p_child (h r) = None" "nsib h r = None" "psib h r = None"
  shows "forest h {r} (\<lambda>_. []) d"
  by (rule forestI) (use assms in \<open>auto simp: brood_Nil intro!: siblingsI\<close>)

text \<open>The successor of a child is a child of the same process, and so is its predecessor.\<close>

lemma forest_next: "forest h L C d \<Longrightarrow> r \<in> L \<Longrightarrow> x \<in> set (C r) \<Longrightarrow> nsib h x = Some y \<Longrightarrow> y \<in> set (C r)"
  by (rule in_set_tl [OF sibs_next [OF forestD(8)]])

lemma forest_prev:
  assumes f: "forest h L C d" and r: "r \<in> L" "y \<in> set (C r)" and x: "x \<in> L" "nsib h x = Some y"
  shows "x \<in> set (C r)"
proof -
  note S = forestD(7) [OF f]
  have "head_ptr (C r) \<noteq> Some y" by (rule siblingsD(5) [OF S x r(1)])
  then have "y \<in> set (tl (C r))" using r(2) by (cases "C r") auto
  then obtain x' where x': "x' \<in> set (C r)" "nsib h x' = Some y" using sibs_prev [OF forestD(8) [OF f r(1)]] by blast
  have "x' = x" by (rule siblingsD(6) [OF S x forestD(3) [OF f r(1) x'(1)] x'(2)])
  with x'(1) show ?thesis by simp
qed

text \<open>A process without a parent has no sibling.\<close>

lemma forest_alone:
  assumes f: "forest h L C d" and x: "x \<in> L" "p_prnt (h x) = None"
  shows "nsib h x = None" "psib h x = None" "y \<in> L \<Longrightarrow> nsib h y \<noteq> Some x" "r \<in> L \<Longrightarrow> x \<notin> set (C r)"
proof -
  note S = forestD(7) [OF f]
  show "nsib h x = None" using siblingsD(3) [OF S x(1)] x(2) by (cases "nsib h x") auto
  show no: "nsib h y \<noteq> Some x" if "y \<in> L" for y using siblingsD(3,4) [OF S that, of x] x(2) by auto
  show "psib h x = None" using siblings_prev [OF S x(1)] no by (cases "psib h x") auto
  show "x \<notin> set (C r)" if "r \<in> L" using forestD(10) [OF f that, of x] x(2) by auto
qed

subsection \<open>The tree below a process\<close>

text \<open>\<open>grown C t\<close>: the tree \<open>t\<close> is the one that the children \<open>C\<close> span.\<close>

fun grown :: "(nat \<Rightarrow> nat list) \<Rightarrow> ptree \<Rightarrow> bool" where
  "grown C (Proc r ts) \<longleftrightarrow> C r = map root ts \<and> (\<forall>t \<in> set ts. grown C t)"

lemma grown_closed: "grown C t \<Longrightarrow> y \<in> set (nodes t) \<Longrightarrow> set (C y) \<subseteq> set (nodes t)"
proof (induction t)
  case (Proc r ts)
  show ?case
  proof (cases "y = r")
    case True
    show ?thesis
    proof
      fix x assume "x \<in> set (C y)"
      then obtain t where "t \<in> set ts" "x = root t" using Proc.prems(1) True by auto
      then have "\<exists>t \<in> set ts. x \<in> set (nodes t)" using root_in_nodes by blast
      then show "x \<in> set (nodes (Proc r ts))" by simp
    qed
  next
    case False
    then obtain t where t: "t \<in> set ts" "y \<in> set (nodes t)" using Proc.prems(2) by auto
    then show ?thesis using Proc.IH [OF t(1)] Proc.prems(1) by fastforce
  qed
qed

lemma grown_parent: "grown C t \<Longrightarrow> x \<in> set (nodes t) \<Longrightarrow> x \<noteq> root t \<Longrightarrow> \<exists>y \<in> set (nodes t). x \<in> set (C y)"
proof (induction t)
  case (Proc r ts)
  then obtain t where t: "t \<in> set ts" "x \<in> set (nodes t)" by auto
  show ?case
  proof (cases "x = root t")
    case True
    then have "x \<in> set (C r)" using t(1) Proc.prems(1) by auto
    then show ?thesis by auto
  next
    case False
    then show ?thesis using Proc.IH [OF t(1) _ t(2)] Proc.prems(1) t(1) by fastforce
  qed
qed

lemma grown_in:
  assumes f: "forest h L C d"
  shows "grown C t \<Longrightarrow> root t \<in> L \<Longrightarrow> set (nodes t) \<subseteq> L \<and> (\<forall>x \<in> set (nodes t). d (root t) \<le> d x) \<and> tree_at h t"
proof (induction t)
  case (Proc r ts)
  have sub: "root t \<in> L" "d r < d (root t)" if "t \<in> set ts" for t
    using forestD(3,4) [OF f, of r "root t"] Proc.prems that by auto
  have IH: "set (nodes t) \<subseteq> L \<and> (\<forall>x \<in> set (nodes t). d (root t) \<le> d x) \<and> tree_at h t" if "t \<in> set ts" for t
    using Proc.IH [OF that] Proc.prems(1) sub(1) [OF that] that by simp
  have "d r \<le> d x" if "t \<in> set ts" "x \<in> set (nodes t)" for x t
    using IH [OF that(1)] sub(2) [OF that(1)] that(2) by fastforce
  moreover have "brood h r (map root ts)" using forestD(2) [OF f, of r] Proc.prems by simp
  moreover have "set (nodes t) \<subseteq> L" "tree_at h t" if "t \<in> set ts" for t using IH [OF that] by simp_all
  ultimately show ?case using Proc.prems(2) by (auto simp: UN_subset_iff)
qed

lemma grown_root_once:
  assumes f: "forest h L C d" and g: "grown C t" "root t \<in> L" and y: "y \<in> set (nodes t)"
  shows "root t \<notin> set (C y)"
  using grown_in [OF f g] y forestD(4) [OF f, of y "root t"] by fastforce

text \<open>The trees below two children of one process share nothing.\<close>

lemma grown_disjoint:
  assumes f: "forest h L C d" and g: "grown C t" "grown C u" and r: "r \<in> L" "root t \<in> set (C r)" "root u \<in> set (C r)"
    and ne: "root t \<noteq> root u"
  shows "set (nodes t) \<inter> set (nodes u) = {}"
proof (rule ccontr)
  assume "set (nodes t) \<inter> set (nodes u) \<noteq> {}"
  then obtain x where x: "x \<in> set (nodes t) \<inter> set (nodes u)"
    and least: "\<And>y. y \<in> set (nodes t) \<inter> set (nodes u) \<Longrightarrow> d x \<le> d y"
    using ex_has_least_nat [of "\<lambda>y. y \<in> set (nodes t) \<inter> set (nodes u)" _ d] by blast
  have L: "root t \<in> L" "root u \<in> L" using forestD(3) [OF f r(1)] r(2,3) by auto
  note T = grown_in [OF f g(1) L(1)] and V = grown_in [OF f g(2) L(2)]
  have no: "root v \<notin> set (nodes w)" if v: "grown C v" "root v \<in> set (C r)" and w: "grown C w" "root w \<in> set (C r)"
    and vw: "root v \<noteq> root w" for v w
  proof
    assume m: "root v \<in> set (nodes w)"
    have Lw: "root w \<in> L" using forestD(3) [OF f r(1) w(2)] .
    obtain y where y: "y \<in> set (nodes w)" "root v \<in> set (C y)" using grown_parent [OF w(1) m] vw by blast
    have "y \<in> L" using grown_in [OF f w(1) Lw] y(1) by auto
    then have "y = r" using forestD(6) [OF f _ r(1) y(2) v(2)] by blast
    then have "d (root w) \<le> d r" using grown_in [OF f w(1) Lw] y(1) by auto
    moreover have "d r < d (root w)" by (rule forestD(4) [OF f r(1) w(2)])
    ultimately show False by simp
  qed
  have "x \<noteq> root t" "x \<noteq> root u" using no [OF g(1) r(2) g(2) r(3) ne] no [OF g(2) r(3) g(1) r(2)] ne x by auto
  then obtain y z where y: "y \<in> set (nodes t)" "x \<in> set (C y)" and z: "z \<in> set (nodes u)" "x \<in> set (C z)"
    using grown_parent [OF g(1), of x] grown_parent [OF g(2), of x] x by blast
  have "y = z" using forestD(6) [OF f _ _ y(2) z(2)] T V y(1) z(1) by blast
  then have "d x \<le> d y" using least y(1) z(1) by auto
  moreover have "d y < d x" using forestD(4) [OF f _ y(2)] T y(1) by auto
  ultimately show False by simp
qed

lemma grown_distinct:
  assumes f: "forest h L C d"
  shows "grown C t \<Longrightarrow> root t \<in> L \<Longrightarrow> distinct (nodes t)"
proof (induction t)
  case (Proc r ts)
  have g: "\<And>t. t \<in> set ts \<Longrightarrow> grown C t" and c: "C r = map root ts" using Proc.prems(1) by auto
  have rL: "r \<in> L" using Proc.prems(2) by simp
  have L: "root t \<in> L" "root t \<in> set (C r)" if "t \<in> set ts" for t using forestD(3) [OF f rL, of "root t"] c that by auto
  have inj: "distinct (map root ts)" using forestD(5) [OF f rL] c by simp
  have each: "distinct (nodes t)" if "t \<in> set ts" for t using Proc.IH [OF that g [OF that] L(1) [OF that]] .
  have r: "r \<notin> set (nodes t)" if "t \<in> set ts" for t
  proof
    assume "r \<in> set (nodes t)"
    then have "d (root t) \<le> d r" using grown_in [OF f g [OF that] L(1) [OF that]] by auto
    moreover have "d r < d (root t)" by (rule forestD(4) [OF f rL L(2) [OF that]])
    ultimately show False by simp
  qed
  have "distinct (concat (map nodes us))" if "set us \<subseteq> set ts" "distinct (map root us)" for us
    using that
  proof (induction us)
    case (Cons u us)
    have "set (nodes u) \<inter> set (nodes v) = {}" if v: "v \<in> set us" for v
    proof (rule grown_disjoint [OF f g g rL])
      show "u \<in> set ts" "v \<in> set ts" using Cons.prems(1) v by auto
      then show "root u \<in> set (C r)" "root v \<in> set (C r)" using L(2) by blast+
      show "root u \<noteq> root v" using Cons.prems(2) v by auto
    qed
    then show ?case using Cons each by (auto simp: disjoint_iff)
  qed simp
  from this [of ts] inj r show ?case by auto
qed

lemma grown_exists:
  assumes f: "forest h L C d"
  shows "r \<in> L \<Longrightarrow> \<exists>t. root t = r \<and> grown C t"
proof (induction "Max (d ` L) - d r" arbitrary: r rule: less_induct)
  case less
  have "\<exists>t. root t = x \<and> grown C t" if x: "x \<in> set (C r)" for x
  proof (rule less.hyps)
    show "x \<in> L" by (rule forestD(3) [OF f less.prems x])
    then have "d x \<le> Max (d ` L)" using forestD(1) [OF f] by simp
    with forestD(4) [OF f less.prems x] show "Max (d ` L) - d x < Max (d ` L) - d r" by simp
  qed
  then obtain T where T: "\<And>x. x \<in> set (C r) \<Longrightarrow> root (T x) = x \<and> grown C (T x)" by metis
  have "map root (map T (C r)) = C r" using T by (simp add: map_idI)
  then have "grown C (Proc r (map T (C r)))" using T by simp
  then show ?case by (metis ptree.sel(1))
qed

text \<open>The tree below a live process, with everything SYS2 needs of it.\<close>

lemma forest_tree:
  assumes f: "forest h L C d" and r: "r \<in> L"
  obtains t where "root t = r" "grown C t" "tree_at h t" "distinct (nodes t)" "set (nodes t) \<subseteq> L"
    "\<And>y. y \<in> set (nodes t) \<Longrightarrow> set (C y) \<subseteq> set (nodes t)"
proof -
  obtain t where t: "root t = r" "grown C t" using grown_exists [OF f r] by blast
  have rt: "root t \<in> L" using t(1) r by simp
  show ?thesis
    using that [OF t] grown_in [OF f t(2) rt] grown_distinct [OF f t(2) rt] grown_closed [OF t(2)] by blast
qed

subsection \<open>SYS1 and SYS2 keep the forest\<close>

lemma forest_create:
  assumes f: "forest h L C d" and c: "c \<in> L" and p: "p \<notin> L"
    and ad: "adopted h h' c (C c) p" and pc: "p_child (h' p) = None"
  shows "forest h' (insert p L) (C(c := C c @ [p], p := [])) (d(p := d c + 1))"
proof -
  let ?C = "C(c := C c @ [p], p := [])"
  note A = adoptedD [OF ad] and S = forestD(7) [OF f]
  have cp: "c \<noteq> p" using c p by auto
  have K: "brood h' r (?C r)" if rL: "r \<in> insert p L" for r
  proof -
    consider "r = p" | "r = c" | "r \<in> L" "r \<noteq> p" "r \<noteq> c" using rL by auto
    then show ?thesis
    proof cases
      case 1
      then show ?thesis using pc by (simp add: brood_Nil)
    next
      case 2
      then show ?thesis using A(1) cp by simp
    next
      case 3
      have out: "x \<noteq> p" "x \<notin> set (C c)" if "x \<in> set (C r)" for x
        using that forestD(3) [OF f 3(1)] p forestD(6) [OF f 3(1) c that] 3(3) by auto
      have "brood h' r (C r)"
        by (rule brood_frame [OF forestD(2) [OF f 3(1)]]) (use A out 3 in auto)
      with 3 show ?thesis by simp
    qed
  qed
  have D: "(d(p := d c + 1)) r < (d(p := d c + 1)) x" if "r \<in> insert p L" "x \<in> set (?C r)" for r x
    using that forestD(3,4) [OF f, of r x] p cp by (auto split: if_splits)
  have sub: "set (?C r) \<subseteq> insert p L" if "r \<in> insert p L" for r
    using that forestD(3) [OF f, of r] by (auto split: if_splits)
  have once: "r = r'" if "r \<in> insert p L" "r' \<in> insert p L" "x \<in> set (?C r)" "x \<in> set (?C r')" for r r' x
    using that forestD(3,6) [OF f, of r] forestD(3) [OF f, of r' x] p c by (auto split: if_splits)
  have last: "last (C c) \<in> L" "nsib h (last (C c)) = None" "last (C c) \<in> set (C c)" if "C c \<noteq> []"
    using that forestD(3) [OF f c] sibs_last [OF forestD(8) [OF f c]] by auto
  have heads: "head_ptr (?C r) = Some y \<Longrightarrow> y = p \<and> C c = [] \<or> y \<in> L \<and> r \<in> L \<and> head_ptr (C r) = Some y"
    if "r \<in> insert p L" for r y
    using that forestD(3) [OF f, of r y] c cp by (auto simp: head_ptr_append head_ptr_def split: if_splits)
  have N: "nsib h' x = (if x = p then None else if C c \<noteq> [] \<and> x = last (C c) then Some p else nsib h x)"
    and P: "psib h' p = (if C c = [] then None else Some (last (C c)))" for x
    using ad by (simp_all add: adopted_def)
  have prp: "p_prnt (h' p) = Some c" using A(1) by (simp add: brood_def)
  have step: "x \<noteq> p \<and> (C c \<noteq> [] \<and> x = last (C c) \<and> y = p \<or> x \<in> L \<and> nsib h x = Some y \<and> y \<in> L \<and> y \<noteq> p)"
    if "x \<in> insert p L" "nsib h' x = Some y" for x y
    using that siblingsD(1) [OF S, of x y] p unfolding N by (auto split: if_splits)
  have "siblings h' (insert p L) ?C"
  proof (rule siblingsI)
    fix x y assume x: "x \<in> insert p L" "nsib h' x = Some y"
    show "y \<in> insert p L \<and> (psib h' y = None \<or> psib h' y = Some x) \<and> p_prnt (h' x) \<noteq> None \<and> p_prnt (h' y) = p_prnt (h' x)"
    proof (cases "y = p")
      case True
      then show ?thesis using step [OF x] P prp A(3) [of x] forestD(10) [OF f c] last by auto
    next
      case False
      then have "x \<noteq> p" "x \<in> L" "nsib h x = Some y" "y \<in> L" using step [OF x] by auto
      then show ?thesis using siblingsD(1-4) [OF S, of x y] A(3,4) False by simp
    qed
    show "head_ptr (?C r) \<noteq> Some y" if r: "r \<in> insert p L" for r
      using heads [OF r, of y] step [OF x] siblingsD(5) [OF S, of x y r] p by blast
  next
    fix x y assume y: "y \<in> insert p L" "psib h' y = Some x"
    show "x \<in> insert p L \<and> nsib h' x = Some y"
    proof (cases "y = p")
      case True
      then show ?thesis using y P last p unfolding N by (auto split: if_splits)
    next
      case False
      then have "x \<in> L" "nsib h x = Some y" using siblings_prev [OF S, of y x] y A(4) by auto
      then show ?thesis using last p unfolding N by auto
    qed
  next
    fix x x' y assume x: "x \<in> insert p L" "x' \<in> insert p L" "nsib h' x = Some y" "nsib h' x' = Some y"
    show "x = x'" using step [OF x(1,3)] step [OF x(2,4)] siblingsD(6) [OF S, of x' y x] by blast
  qed
  note sib = this
  show ?thesis by (rule forestI [OF _ K sub D once sib]) (use forestD(1) [OF f] in simp)
qed

text \<open>Removing the subtree of a process without a parent.\<close>

lemma forest_prune:
  assumes f: "forest h L C d" and t: "grown C t" "root t \<in> L" and orphan: "p_prnt (h (root t)) = None"
    and user: "\<And>x. x \<notin> set (nodes t) \<Longrightarrow> pcb_user (h' x) = pcb_user (h x)"
  shows "forest h' (L - set (nodes t)) C d"
proof -
  let ?N = "set (nodes t)"
  note S = forestD(7) [OF f] and al = forest_alone [OF f t(2) orphan]
  have NL: "?N \<subseteq> L" using grown_in [OF f t] by blast
  have up: "\<exists>y \<in> ?N. x \<in> set (C y)" if "x \<in> ?N" "x \<noteq> root t" for x using grown_parent [OF t(1) that] .
  have out: "x \<notin> ?N" if "q \<in> L - ?N" "x \<in> set (C q)" for q x
  proof
    assume x: "x \<in> ?N"
    have "x \<noteq> root t" using al(4) that by auto
    then obtain y where y: "y \<in> ?N" "x \<in> set (C y)" using up x by blast
    have "y = q" using forestD(6) [OF f _ _ y(2)] NL y(1) that by blast
    with y that show False by simp
  qed
  have stay: "y \<notin> ?N" if x: "x \<in> L - ?N" "nsib h x = Some y" for x y
  proof
    assume y: "y \<in> ?N"
    have "y \<noteq> root t" using al(3) x by auto
    then obtain z where z: "z \<in> ?N" "y \<in> set (C z)" using up y by blast
    have "x \<in> set (C z)" using forest_prev [OF f _ z(2) _ x(2)] z(1) NL x(1) by blast
    then show False using grown_closed [OF t(1) z(1)] x(1) by blast
  qed
  have before: "x \<notin> ?N" if y: "y \<in> L - ?N" "nsib h x = Some y" for x y
  proof
    assume x: "x \<in> ?N"
    have "x \<noteq> root t" using al(1) y by auto
    then obtain z where z: "z \<in> ?N" "x \<in> set (C z)" using up x by blast
    have "y \<in> set (C z)" using forest_next [OF f _ z(2) y(2)] z(1) NL by blast
    then show False using grown_closed [OF t(1) z(1)] y(1) by blast
  qed
  have K: "brood h' q (C q)" if "q \<in> L - ?N" for q
    by (rule brood_user [OF forestD(2) [OF f]]) (use that out [OF that] user in auto)
  have sub: "set (C q) \<subseteq> L - ?N" if "q \<in> L - ?N" for q
    using out [OF that] forestD(3) [OF f, of q] that by auto
  have u: "nsib h' x = nsib h x" "psib h' x = psib h x" "p_prnt (h' x) = p_prnt (h x)" if "x \<in> L - ?N" for x
    using pcb_user_eqD [OF user [of x]] that by auto
  have "siblings h' (L - ?N) C"
  proof (rule siblingsI)
    fix x y assume "x \<in> L - ?N" "nsib h' x = Some y"
    then have x: "x \<in> L - ?N" "x \<in> L" "nsib h x = Some y" using u by auto
    then have y: "y \<in> L - ?N" using stay siblingsD(1) [OF S x(2,3)] by blast
    show "y \<in> L - ?N \<and> (psib h' y = None \<or> psib h' y = Some x) \<and> p_prnt (h' x) \<noteq> None \<and> p_prnt (h' y) = p_prnt (h' x)"
      using siblingsD(2-4) [OF S x(2,3)] u x(1) y by simp
    show "head_ptr (C r) \<noteq> Some y" if "r \<in> L - ?N" for r using siblingsD(5) [OF S x(2,3)] that by blast
  next
    fix x y assume "y \<in> L - ?N" "psib h' y = Some x"
    then have y: "y \<in> L - ?N" "y \<in> L" "psib h y = Some x" using u by auto
    have x: "x \<in> L" "nsib h x = Some y" using siblings_prev [OF S y(2,3)] by blast+
    then have "x \<in> L - ?N" using before [OF y(1)] by blast
    then show "x \<in> L - ?N \<and> nsib h' x = Some y" using u x by simp
  next
    fix x x' y assume x: "x \<in> L - ?N" "x' \<in> L - ?N" "nsib h' x = Some y" "nsib h' x' = Some y"
    then show "x = x'" using siblingsD(6) [OF S, of x' y x] u by simp
  qed
  moreover have "finite (L - ?N)" "\<And>q x. q \<in> L - ?N \<Longrightarrow> x \<in> set (C q) \<Longrightarrow> d q < d x"
    "\<And>q q' x. q \<in> L - ?N \<Longrightarrow> q' \<in> L - ?N \<Longrightarrow> x \<in> set (C q) \<Longrightarrow> x \<in> set (C q') \<Longrightarrow> q = q'"
    using forestD(1,4,6) [OF f] by auto
  ultimately show ?thesis using K sub by (intro forestI)
qed

text \<open>
  Detaching a process.  When it is the first child of its parent, the parent loses all its children;
  otherwise only this one leaves the list.
\<close>

definition detached :: "nat \<Rightarrow> (nat \<Rightarrow> nat list) \<Rightarrow> nat \<Rightarrow> nat list" where
  "detached c C q = (if c \<notin> set (C q) then C q else if hd (C q) = c then [] else remove1 c (C q))"

lemma detached_props:
  "set (detached c C q) \<subseteq> set (C q)" "distinct (C q) \<Longrightarrow> c \<notin> set (detached c C q)"
  "head_ptr (detached c C q) = Some y \<Longrightarrow> head_ptr (C q) = Some y"
  "c \<notin> set (C q) \<Longrightarrow> detached c C q = C q"
  using set_remove1_subset [of c "C q"] by (auto simp: detached_def head_ptr_def split: if_splits; cases "C q"; auto)+

lemma forest_outChild:
  assumes f: "forest h L C d" and c: "c \<in> L" "p_prnt (h c) = Some r"
    and ok: "\<And>y. y \<in> L \<Longrightarrow> nsib h y = Some c \<Longrightarrow> psib h c = Some y"
  shows "\<exists>h'. outChild (Some c) h = Some (Some c, h') \<and> forest h' L (detached c C) d \<and> p_prnt (h' c) = None \<and>
    tree_only h h' UNIV"
proof -
  note S = forestD(7) [OF f]
  obtain h' where run: "outChild (Some c) h = Some (Some c, h')" "tree_only h h' UNIV"
    and R: "\<And>x. p_prnt (h' x) = (if x = c then None else p_prnt (h x))"
    and N: "\<And>x. nsib h' x = (if x = c then None else if psib h c = Some x then nsib h c else nsib h x)"
    and P: "\<And>x. psib h' x = (if x = c \<or> nsib h c = Some x then None else psib h x)"
    and H: "\<And>x. p_child (h' x) = (if x = r \<and> p_child (h x) = Some c then psib h c else p_child (h x))"
    using outChild_links [of h c r, OF c(2)] by blast
  have pv: "x \<in> L \<and> nsib h x = Some c" if "psib h c = Some x" for x using siblings_prev [OF S c(1) that] .
  have K: "brood h' q (detached c C q)" if q: "q \<in> L" for q
  proof -
    have B: "distinct (q # C q)" "p_child (h q) = head_ptr (C q)" "sibs None h (C q)" "\<And>x. x \<in> set (C q) \<Longrightarrow> p_prnt (h x) = Some q"
      using forestD(2) [OF f q] by (auto simp: brood_def)
    consider (out) "c \<notin> set (C q)" | (first) "c \<in> set (C q)" "hd (C q) = c" | (later) "c \<in> set (C q)" "hd (C q) \<noteq> c" by blast
    then show ?thesis
    proof cases
      case out
      have x: "x \<noteq> c" "psib h c \<noteq> Some x" "nsib h c \<noteq> Some x" if "x \<in> set (C q)" for x
        using that out pv [of x] forest_next [OF f q that, of c] forest_prev [OF f q that c(1)] by auto
      have "p_child (h q) \<noteq> Some c" using B(2) out by (cases "C q") auto
      then have "brood h' q (C q)"
        by (intro brood_frame [OF forestD(2) [OF f q]]) (use H R N P x in auto)
      with out show ?thesis by (simp add: detached_props)
    next
      case first
      then obtain ys where ys: "C q = c # ys" by (cases "C q") auto
      have "r = q" using B(4) [of c] c(2) first(1) by simp
      then have "p_child (h' q) = None" using H B(2,3) ys by simp
      with first show ?thesis by (simp add: detached_def brood_Nil)
    next
      case later
      obtain as bs where s: "C q = as @ c # bs" using later(1) by (meson split_list)
      have as: "as \<noteq> []" using later(2) s by (cases as) auto
      have dist: "distinct (as @ c # bs)" and da: "distinct as" using B(1) s by auto
      have l: "nsib h (last as) = Some c" "nsib h c = head_ptr bs" using B(3) as by (simp_all add: s sibs_append [OF da])
      have "last as \<in> L" using forestD(3) [OF f q] s as by auto
      then have pc: "psib h c = Some (last as)" using ok l(1) by blast
      have e: "detached c C q = as @ bs" using later dist s by (simp add: detached_def remove1_append)
      have "sibs None h' (as @ bs)"
        by (rule sibs_drop [OF B(3) [unfolded s] dist as])
          (use N P pc l(2) dist in \<open>auto simp: head_ptr_def split: if_splits\<close>)
      moreover have "p_child (h' q) = head_ptr (as @ bs)"
        using H [of q] B(2) later(2) as s by (auto simp: head_ptr_def)
      ultimately show ?thesis using B(1,4) R dist by (auto simp: e s brood_def)
    qed
  qed
  have link: "x \<noteq> c \<and> y \<noteq> c \<and> (psib h c = Some x \<and> nsib h c = Some y \<or> psib h c \<noteq> Some x \<and> nsib h x = Some y)"
    if x: "x \<in> L" "nsib h' x = Some y" for x y
  proof -
    have xc: "x \<noteq> c" using x(2) N by auto
    show ?thesis
    proof (cases "psib h c = Some x")
      case True
      then have y: "nsib h c = Some y" using x(2) N xc by simp
      have "y \<noteq> c" using siblingsD(6) [OF S c(1) y x(1)] pv [OF True] xc by auto
      with True y xc show ?thesis by simp
    next
      case False
      then have y: "nsib h x = Some y" using x(2) N xc by simp
      have "y \<noteq> c" using ok [OF x(1)] y False by auto
      with False y xc show ?thesis by simp
    qed
  qed
  have "siblings h' L (detached c C)"
  proof (rule siblingsI)
    fix x y assume x: "x \<in> L" "nsib h' x = Some y"
    from link [OF x] consider (cut) "x \<noteq> c" "y \<noteq> c" "psib h c = Some x" "nsib h c = Some y"
      | (old) "x \<noteq> c" "y \<noteq> c" "nsib h x = Some y" by blast
    then show "y \<in> L \<and> (psib h' y = None \<or> psib h' y = Some x) \<and> p_prnt (h' x) \<noteq> None \<and> p_prnt (h' y) = p_prnt (h' x)"
    proof cases
      case cut
      then show ?thesis using siblingsD(1,3,4) [OF S c(1) cut(4)] siblingsD(3,4) [OF S x(1), of c] pv [OF cut(3)] R P by simp
    next
      case old
      then show ?thesis using siblingsD(1-4) [OF S x(1) old(3)] R P by auto
    qed
    show "head_ptr (detached c C q) \<noteq> Some y" if "q \<in> L" for q
      using detached_props(3) [of c C q y] link [OF x] siblingsD(5) [OF S c(1) _ that] siblingsD(5) [OF S x(1) _ that] by blast
  next
    fix x y assume y: "y \<in> L" "psib h' y = Some x"
    then have "y \<noteq> c" "nsib h c \<noteq> Some y" "psib h y = Some x" using P by (auto split: if_splits)
    moreover from this have "x \<in> L" "nsib h x = Some y" using siblings_prev [OF S y(1)] by auto
    moreover from calculation have "x \<noteq> c" "psib h c \<noteq> Some x" using pv [of x] by auto
    ultimately show "x \<in> L \<and> nsib h' x = Some y" using N by simp
  next
    fix x x' y assume x: "x \<in> L" "x' \<in> L" "nsib h' x = Some y" "nsib h' x' = Some y"
    then show "x = x'" using link [OF x(1,3)] link [OF x(2,4)] siblingsD(6) [OF S c(1), of y] siblingsD(6) [OF S x(2), of y x] x(1,2) by auto
  qed
  note sib = this
  have sub: "set (detached c C q) \<subseteq> L" "x \<in> set (detached c C q) \<Longrightarrow> d q < d x" if "q \<in> L" for q x
    using detached_props(1) [of c C q] forestD(3,4) [OF f that] by blast+
  have "forest h' L (detached c C) d"
  proof (rule forestI [OF forestD(1) [OF f] K sub _ sib])
    show "q = q'" if "q \<in> L" "q' \<in> L" "x \<in> set (detached c C q)" "x \<in> set (detached c C q')" for q q' x
      using that detached_props(1) [of c C q] detached_props(1) [of c C q'] forestD(6) [OF f that(1,2)] by blast
  qed
  with run R show ?thesis by auto
qed

end
