(* ===== verification/Init.thy ===== *)
theory Init
  imports Interrupts
begin

text \<open>
  The start of the kernel (\<open>src/init.c\<close>): \<open>main\<close>, the first process and the
  pass up vector.  \<open>boot_globals\<close> are the values C gives to the static objects of the
  kernel before \<open>main\<close> runs.
\<close>

definition NUCLEUS_STACKPAGE_TOP :: u32 where "NUCLEUS_STACKPAGE_TOP = 0x20001000"

definition initPassupVector :: "umps \<Rightarrow> nuc_state \<Rightarrow> nuc_state" where
  "initPassupVector U s =
     (let v = PASSUPVECTOR (hardware s);
          v = v\<lparr>tlb_refill_handler := adr_uTLB_RefillHandler U\<rparr>;
          v = v\<lparr>tlb_refill_stackPtr := NUCLEUS_STACKPAGE_TOP\<rparr>;
          v = v\<lparr>exception_handler := adr_handleExceptions U\<rparr>;
          v = v\<lparr>exception_stackPtr := NUCLEUS_STACKPAGE_TOP\<rparr>
      in s\<lparr>hardware := (hardware s)\<lparr>PASSUPVECTOR := v\<rparr>\<rparr>)"

definition loadIntervalTimer :: "u32 \<Rightarrow> nuc_state \<Rightarrow> nuc_state" where
  "loadIntervalTimer timeInMicroSecs s = LDIT timeInMicroSecs s"

definition first_state :: "umps \<Rightarrow> state_t \<Rightarrow> state_t" where
  "first_state U st =
     (let st = set_gpr (ix_t9 U) (adr_test_phase_3 U) st;
          st = st\<lparr>pc_epc := gpr st (ix_t9 U)\<rparr>;
          st = st\<lparr>status := ALLOFF OR IECON OR IMON OR TEBITON\<rparr>
      in set_gpr (ix_sp U) (RAMTOP U) st)"

text \<open>The result \<open>None\<close> in the first component stands for the call of \<open>PANIC\<close>.\<close>

definition initFirstProcess :: "umps \<Rightarrow> nuc_state \<Rightarrow> (pcb_ptr \<times> nuc_state) option" where
  "initFirstProcess U s = do {
     (firstProcess, s) \<leftarrow> allocPcb s;
     if firstProcess \<noteq> None then do {
       s \<leftarrow> upd_pcb firstProcess (\<lambda>y. y\<lparr>p_s := first_state U (p_s y)\<rparr>) s;
       s \<leftarrow> upd_pcb firstProcess (\<lambda>y. y\<lparr>p_time := 0, p_semAdd := 0, p_supportStruct := 0\<rparr>) s;
       s \<leftarrow> insertReady firstProcess s;
       Some (firstProcess, s)
     } else Some (None, s)
   }"

definition main :: "umps \<Rightarrow> nuc_state \<Rightarrow> (outcome \<times> nuc_state) option" where
  "main U s = do {
     let s = initPassupVector U s;
     let s = initPcbs s;
     let s = initASL s;
     let s = s\<lparr>currentProcess := None\<rparr>;
     let s = s\<lparr>readyQueue := mkEmptyProcQ\<rparr>;
     s \<leftarrow> store_int (clockSemaphore U) 0 s;
     let s = loadIntervalTimer 100000 s;
     (p, s) \<leftarrow> initFirstProcess U s;
     if p = None then Some (PANIC, s) else scheduler s
   }"

definition boot_globals :: "nuc_state \<Rightarrow> bool" where
  "boot_globals s \<longleftrightarrow> pcbs s = (\<lambda>_. zero_pcb) \<and> processCount s = 0 \<and> softBlockedCount s = 0 \<and>
     readyQueue s = None \<and> currentProcess s = None \<and> globalStartT s = 0 \<and> startT s = 0"

end
