(* ===== verification/Boot.thy ===== *)
theory Boot
  imports Init Nuc_Paths
begin

text \<open>
  The state of the kernel after its start.  \<open>kinv_boot\<close> is the base of every invariant:
  \<open>initPcbs\<close> and \<open>initASL\<close> put all process control blocks on the free list and make the
  semaphore list empty.  \<open>main_spec\<close> is the whole of \<open>main\<close>: it dispatches the first process.
\<close>

definition kboot :: kview where
  "kboot = \<lparr>kfree = [0..<MAXPROC], kready = [], kblocked = (\<lambda>_. []), kheld = []\<rparr>"

lemma initPcbs_data: "pcb_data (pcbs (initPcbs s) x) = pcb_data (pcbs s x)"
proof -
  have "pcb_data (fold initPcbs_step is h x) = pcb_data (h x)" for "is" h
    by (induction "is" arbitrary: h) (simp_all add: initPcbs_step_def pcb_data_def Let_def)
  then show ?thesis by (simp add: initPcbs_def)
qed

lemma initPcbs_globals [simp]:
  "processCount (initPcbs s) = processCount s" "pcbFree_h (initPcbs s) = Some 0"
  by (simp_all add: initPcbs_def)

lemma initASL_pcbs [simp]:
  "pcbs (initASL s) = pcbs s" "pcbFree_h (initASL s) = pcbFree_h s" "processCount (initASL s) = processCount s"
  by (simp_all add: initASL_def Let_def split: prod.split)

lemma kinv_boot:
  assumes b: "boot_globals s" and t: "pcbs t = pcbs s" "processCount t = processCount s"
  shows "kinv ((initASL (initPcbs t))\<lparr>readyQueue := None\<rparr>) kboot"
proof -
  let ?s = "(initASL (initPcbs t))\<lparr>readyQueue := None\<rparr>"
  have "free_list ?s [0..<MAXPROC]"
    using initPcbs_free_list [of t] by (simp add: free_list_def)
  moreover have "asl ?s (\<lambda>_. [])"
    by (rule asl_frame [OF initASL_asl [of "initPcbs t"]]) simp_all
  moreover have "p_semAdd (pcbs (initPcbs t) x) = 0" for x
    using pcb_data_eqD [OF initPcbs_data [of t x]] b t by (simp add: boot_globals_def zero_pcb_def)
  ultimately show ?thesis using b t
    by (simp add: kinv_def kboot_def kpartition_def unblocked_def boot_globals_def)
qed

lemma kinv_boot_main:
  assumes "boot_globals s"
  shows "kinv ((initASL (initPcbs (initPassupVector U s)))\<lparr>currentProcess := None, readyQueue := mkEmptyProcQ,
     ints := I, hardware := w\<rparr>) kboot"
proof -
  have "kinv ((initASL (initPcbs (initPassupVector U s)))\<lparr>readyQueue := None\<rparr>) kboot"
    by (rule kinv_boot [OF assms]) (simp_all add: initPassupVector_def Let_def)
  then show ?thesis by (rule kinv_frame) (simp_all add: mkEmptyProcQ_def same_queue_fields_def)
qed

lemma main_spec:
  assumes b: "boot_globals s" and a: "clockSemaphore U \<noteq> 0"
  shows "\<exists>s'. main U s = Some (LDST (first_state U zero_state), s') \<and>
     path_end (LDST (first_state U zero_state)) s' (kboot\<lparr>kfree := [1..<MAXPROC], kheld := [0]\<rparr>) \<and>
     currentProcess s' = Some 0 \<and> p_supportStruct (pcbs s' 0) = 0 \<and> p_time (pcbs s' 0) = 0 \<and>
     ints s' = (ints s)(clockSemaphore U := 0) \<and> softBlockedCount s' = 0 \<and> ldit_out (hardware s') = 100000 \<and>
     timer_out (hardware s') = TIMESLICE \<and>
     PASSUPVECTOR (hardware s') = \<lparr>tlb_refill_handler = adr_uTLB_RefillHandler U,
       tlb_refill_stackPtr = NUCLEUS_STACKPAGE_TOP, exception_handler = adr_handleExceptions U,
       exception_stackPtr = NUCLEUS_STACKPAGE_TOP\<rparr> \<and>
     (\<forall>x. p_prnt (pcbs s' x) = None \<and> p_child (pcbs s' x) = None \<and> nsib (pcbs s') x = None \<and> psib (pcbs s') x = None)"
proof -
  define s0 where "s0 = initASL (initPcbs (initPassupVector U s))"
  define v where "v = \<lparr>tlb_refill_handler = adr_uTLB_RefillHandler U,
       tlb_refill_stackPtr = NUCLEUS_STACKPAGE_TOP, exception_handler = adr_handleExceptions U,
       exception_stackPtr = NUCLEUS_STACKPAGE_TOP\<rparr>"
  let ?I = "(ints s0)(clockSemaphore U := 0)" and ?w = "(hardware s0)\<lparr>ldit_out := 100000\<rparr>"
  let ?s1 = "s0\<lparr>currentProcess := None, readyQueue := mkEmptyProcQ, ints := ?I, hardware := ?w\<rparr>"
  let ?k0 = "kboot\<lparr>kfree := [1..<MAXPROC], kheld := [0]\<rparr>"
  have k1: "kinv ?s1 kboot" unfolding s0_def by (rule kinv_boot_main [OF b])
  have f0: "kfree kboot = 0 # [1..<MAXPROC]" by (simp add: kboot_def MAXPROC_def upt_conv_Cons)
  obtain s2 where s2: "allocPcb ?s1 = Some (Some 0, s2)" "kinv s2 ?k0" "kframe ?s1 s2 {0}"
    "pcbs s2 0 = reset_pcb (pcbs ?s1 0)"
    using kinv_alloc [OF k1 f0] by (auto simp: kboot_def)
  have old: "pcb_user (pcbs s0 x) = zero_pcb" for x
    using pcb_user_data [OF initPcbs_data [of "initPassupVector U s" x]] b
    by (simp add: s0_def initPassupVector_def boot_globals_def zero_pcb_def pcb_user_def Let_def)
  have ps: "p_s (pcbs s2 0) = zero_state"
    using s2(4) pcb_user_eqD(5) [of "pcbs s0 0" zero_pcb] old [of 0]
    by (simp add: zero_pcb_def pcb_user_def)
  let ?y = "(pcbs s2 0)\<lparr>p_s := first_state U zero_state, p_time := 0, p_semAdd := 0, p_supportStruct := 0\<rparr>"
  let ?s3 = "s2\<lparr>pcbs := (pcbs s2)(0 := ?y)\<rparr>"
  have "p_semAdd (pcbs s2 0) = 0" using kinvD(6) [OF s2(2)] by (simp add: unblocked_def kboot_def)
  then have "kinv ?s3 ?k0" using s2(2) by simp
  from kinv_insertReady [OF this, of 0] obtain s4 where s4: "insertReady (Some 0) ?s3 = Some s4"
    "kinv s4 (kboot\<lparr>kfree := [1..<MAXPROC], kready := [0], kheld := []\<rparr>)" "kframe ?s3 s4 {}"
    by (auto simp: kboot_def)
  note G2 = kframe_globals [OF s2(3)] and G4 = kframe_globals [OF s4(3)]
  have U4: "pcb_user (pcbs s4 x) = pcb_user (if x = 0 then ?y else pcbs s0 x)" for x
    using kframe_user [OF s4(3), of x] kframe_user [OF s2(3), of x] by auto
  have ps4: "p_s (pcbs s4 0) = first_state U zero_state"
    using pcb_user_eqD(5) [OF U4 [of 0]] by simp
  obtain s' where s': "scheduler s4 = Some (LDST (first_state U zero_state), s')"
    "path_end (LDST (first_state U zero_state)) s' ?k0" "currentProcess s' = Some 0"
    "hardware s' = (hardware s4)\<lparr>tod_ix := Suc (tod_ix (hardware s4)), timer_out := TIMESLICE\<rparr>"
    "ints s' = ints s4" "softBlockedCount s' = softBlockedCount s4"
    "\<And>x. pcb_user (pcbs s' x) = pcb_user (pcbs s4 x)"
    using scheduler_dispatch [OF s4(2), of 0 "[]"] ps4 by (auto simp: kboot_def)
  have "initFirstProcess U ?s1 = Some (Some 0, s4)"
    using s2(1) s4(1) ps by (simp add: initFirstProcess_def)
  then have "main U s = Some (LDST (first_state U zero_state), s')"
    using a s'(1) by (simp add: main_def store_int_def loadIntervalTimer_def LDIT_def s0_def [symmetric] Let_def)
  moreover have "p_prnt (pcbs s' x) = None \<and> p_child (pcbs s' x) = None \<and> nsib (pcbs s') x = None \<and> psib (pcbs s') x = None" for x
    using pcb_user_eqD(1-4) [OF trans [OF s'(7) U4], of x] pcb_user_eqD(1-4) [of "pcbs s0 x" zero_pcb] old [of x]
      s2(4) by (auto simp: zero_pcb_def pcb_user_def)
  moreover have "p_supportStruct (pcbs s' 0) = 0" "p_time (pcbs s' 0) = 0"
    using pcb_user_eqD(6,7) [OF trans [OF s'(7) U4], of 0] by simp_all
  moreover have "softBlockedCount s0 = 0" "PASSUPVECTOR (hardware s0) = v" "ints s0 = ints s"
    using b by (simp_all add: s0_def initASL_def initPcbs_def initPassupVector_def boot_globals_def v_def
      Let_def split: prod.split)
  ultimately show ?thesis using s'(2-6) G2 G4 by (auto simp: v_def)
qed

end
