(* ===== verification/Kernel.thy ===== *)
theory Kernel
  imports Forest Boot
begin

text \<open>
  The nucleus as a machine.  A state of the machine is the way the last kernel path ended
  together with the globals; a step is the exception that comes next, with whatever the
  processes and the devices did in between, and the path of \<open>handleExceptions\<close>.  The
  invariant is the partition of the process control blocks over the lists together with the
  process forest.
\<close>

definition live :: "kview \<Rightarrow> nat set" where
  "live k = {0..<MAXPROC} - set (kfree k)"

text \<open>
  The processes SYS2 takes out of the tree without leaving a pointer to them behind: a process without
  a parent, one that still has its back pointer, and one that is nobody's next sibling.  The others have lost their
  back pointer to \<open>unlinkChild\<close> when the sibling before them ended: \<open>outChild\<close> would leave the sibling before
  that one pointing to the freed block (\<open>outChild_middle_damage\<close>).
\<close>

definition killable :: "pcb_heap \<Rightarrow> nat \<Rightarrow> bool" where
  "killable h c \<longleftrightarrow> p_prnt (h c) = None \<or> psib h c \<noteq> None \<or> (\<forall>y < MAXPROC. nsib h y \<noteq> Some c)"

lemma killable_forest:
  assumes f: "forest h L C d" and c: "c \<in> L" "p_prnt (h c) \<noteq> None" and kl: "killable h c" and L: "L \<subseteq> {0..<MAXPROC}"
    and y: "y \<in> L" "nsib h y = Some c"
  shows "psib h c = Some y"
  using siblingsD(2) [OF forestD(7) [OF f] y] kl c(2) y L by (fastforce simp: killable_def)

subsection \<open>SYS2\<close>

lemma reaped_held:
  assumes "at_entry s k c" "c \<in> set xs"
  shows "kheld (reaped xs k) = []"
  using at_entryD(3) [OF assms(1)] assms(2) by simp

lemma live_reaped: "live (reaped xs k) = live k - set xs"
  by (auto simp: live_def)

lemma forest_user:
  assumes "forest h L C d" and "\<And>x. pcb_user (h' x) = pcb_user (h x)"
  shows "forest h' L C d"
  by (rule forest_same_tree [OF assms(1) same_tree_user [OF assms(2)]])

text \<open>The end of \<open>terminate_Process\<close> for a process without a parent.\<close>

lemma terminate_Process_root:
  assumes e: "at_entry s k c" and f: "forest (pcbs s) (live k) C d"
    and orphan: "p_prnt (pcbs s c) = None"
    and t: "root t = c" "grown C t"
  shows "\<exists>out s' k'. terminate_Process (Some c) s = Some (out, s') \<and> path_end out s' k' \<and>
     forest (pcbs s') (live k') C d \<and> kfree k' = kfree k @ nodes t \<and>
     (\<forall>a. kblocked k' a = filter (\<lambda>x. x \<notin> set (nodes t)) (kblocked k a)) \<and>
     kheld k' @ kready k' = filter (\<lambda>x. x \<notin> set (nodes t)) (kready k) \<and>
     (\<forall>a. ints s' a + of_nat (length (kblocked k' a)) = ints s a + of_nat (length (kblocked k a))) \<and>
     softBlockedCount s' = softBlockedCount s \<and> supports s' = supports s \<and>
     out = next_run (pcbs s) (filter (\<lambda>x. x \<notin> set (nodes t)) (kready k)) (kfree k @ nodes t) (softBlockedCount s)"
proof -
  note E = at_entryD [OF e]
  have cL: "c \<in> live k" using E(3,6) kinvD(8) [OF E(1)] by (auto simp: live_def unblocked_def)
  have rt: "root t \<in> live k" using t(1) cL by simp
  note G = grown_in [OF f t(2) rt] and D = grown_distinct [OF f t(2) rt]
  have dm: "doomed s k (nodes t)" using E(1) D G by (simp add: doomed_def live_def)
  obtain s1 where s1: "terminate_Process_rec (Some c) s = Some s1" "kinv s1 (reaped (nodes t) k)"
    "reap_frame s s1 k (reaped (nodes t) k) (set (nodes t))"
    using terminate_Process_rec_root [of s t, OF _ _ dm] G orphan t(1) by (auto simp: reaps_def)
  have cn: "c \<in> set (nodes t)" using root_in_nodes [of t] t(1) by simp
  have held: "kheld (reaped (nodes t) k) = []" using reaped_held [OF e cn] .
  have f1: "forest (pcbs s1) (live k - set (nodes t)) C d"
    by (rule forest_prune [OF f t(2) rt]) (use orphan t(1) reap_frame_user [OF s1(3)] in auto)
  obtain out s' k' where s': "scheduler s1 = Some (out, s')" "path_end out s' k'"
    "kfree k' = kfree (reaped (nodes t) k)" "kblocked k' = kblocked (reaped (nodes t) k)"
    "kready (reaped (nodes t) k) = kheld k' @ kready k'" "ints s' = ints s1"
    "softBlockedCount s' = softBlockedCount s1" "supports s' = supports s1"
    "\<And>x. pcb_user (pcbs s' x) = pcb_user (pcbs s1 x)"
    using scheduler_safe [OF s1(2) held] by blast
  have "live k' = live k - set (nodes t)" using s'(3) by (auto simp: live_def)
  then have "forest (pcbs s') (live k') C d" using forest_user [OF f1 s'(9)] by simp
  moreover have "softBlockedCount s' = softBlockedCount s" "supports s' = supports s"
    using s1(3) s'(7,8) by (simp_all add: reap_frame_def kframe_def)
  moreover have "ints s' a + of_nat (length (kblocked k' a)) = ints s a + of_nat (length (kblocked k a))" for a
    using s1(3) unfolding reap_frame_def s'(4,6) by blast
  moreover have "terminate_Process (Some c) s = Some (out, s')"
    using s1(1) s'(1) by (simp add: terminate_Process_def)
  moreover have "p_s (pcbs s1 x) = p_s (pcbs s x)" if "x \<notin> set (nodes t)" for x
    using pcb_user_eqD(5) [OF reap_frame_user [OF s1(3) that]] .
  then have "out = next_run (pcbs s) (filter (\<lambda>x. x \<notin> set (nodes t)) (kready k)) (kfree k @ nodes t) (softBlockedCount s)"
    using scheduler_out [OF s1(2) held s'(1)] s1(3)
    by (subst next_run_cong [where g = "pcbs s1"]) (auto simp: reap_frame_def kframe_def)
  moreover have "kfree k' = kfree k @ nodes t" "kheld k' @ kready k' = filter (\<lambda>x. x \<notin> set (nodes t)) (kready k)"
    "kblocked k' a = filter (\<lambda>x. x \<notin> set (nodes t)) (kblocked k a)" for a
    using s'(3,4,5) by simp_all
  ultimately show ?thesis using s'(2) by blast
qed

lemma grown_cong:
  assumes "\<And>x. x \<in> set (nodes t) \<Longrightarrow> C x = C' x"
  shows "grown C t = grown C' t"
  using assms
proof (induction t)
  case (Proc r ts)
  have "grown C t = grown C' t" if "t \<in> set ts" for t
    by (rule Proc.IH [OF that]) (use Proc.prems that in auto)
  moreover have "C r = C' r" using Proc.prems by simp
  ultimately show ?case by simp
qed

lemma terminate_Process_spec:
  assumes e: "at_entry s k c" and f: "forest (pcbs s) (live k) C d" and kl: "killable (pcbs s) c"
  shows "\<exists>t out s' k'. root t = c \<and> grown C t \<and> terminate_Process (Some c) s = Some (out, s') \<and>
     path_end out s' k' \<and> forest (pcbs s') (live k') (detached c C) d \<and> kfree k' = kfree k @ nodes t \<and>
     (\<forall>a. kblocked k' a = filter (\<lambda>x. x \<notin> set (nodes t)) (kblocked k a)) \<and>
     kheld k' @ kready k' = filter (\<lambda>x. x \<notin> set (nodes t)) (kready k) \<and>
     (\<forall>a. ints s' a + of_nat (length (kblocked k' a)) = ints s a + of_nat (length (kblocked k a))) \<and>
     softBlockedCount s' = softBlockedCount s \<and> supports s' = supports s \<and>
     out = next_run (pcbs s) (filter (\<lambda>x. x \<notin> set (nodes t)) (kready k)) (kfree k @ nodes t) (softBlockedCount s)"
proof -
  note E = at_entryD [OF e]
  have cL: "c \<in> live k" using E(3,6) kinvD(8) [OF E(1)] by (auto simp: live_def unblocked_def)
  show ?thesis
  proof (cases "p_prnt (pcbs s c)")
    case None
    have "detached c C q = C q" if "q \<in> live k" for q
      by (rule detached_props(4)) (rule forest_alone(4) [OF f cL None that])
    with f have f': "forest (pcbs s) (live k) (detached c C) d" by (rule forest_cong)
    obtain u where u: "root u = c" "grown (detached c C) u" using grown_exists [OF f' cL] by blast
    have "detached c C x = C x" if "x \<in> set (nodes u)" for x
      using grown_in [OF f' u(2)] u(1) cL that \<open>\<And>q. q \<in> live k \<Longrightarrow> detached c C q = C q\<close> by blast
    then have "grown C u" using grown_cong [of u "detached c C" C] u(2) by blast
    with terminate_Process_root [OF e f' None u] u(1) show ?thesis by blast
  next
    case (Some r)
    have "live k \<subseteq> {0..<MAXPROC}" by (auto simp: live_def)
    then have "psib (pcbs s) c = Some y" if "y \<in> live k" "nsib (pcbs s) y = Some c" for y
      using killable_forest [OF f cL _ kl _ that] Some by simp
    then obtain h where h: "outChild (Some c) (pcbs s) = Some (Some c, h)" "forest h (live k) (detached c C) d"
      "p_prnt (h c) = None" "tree_only (pcbs s) h UNIV"
      using forest_outChild [OF f cL Some] by blast
    let ?s = "s\<lparr>pcbs := h\<rparr>" and ?C = "detached c C"
    have e1: "at_entry ?s k c" using kinv_tree_only [OF E(1) h(4)] E(2,3) by (simp add: at_entry_def)
    have f1: "forest (pcbs ?s) (live k) ?C d" using h(2) by simp
    have no: "p_prnt (pcbs ?s c) = None" using h(3) by simp
    obtain t where t: "root t = c" "grown ?C t" using grown_exists [OF f1 cL] by blast
    have rt: "root t \<in> live k" using t(1) cL by simp
    have "?C x = C x" if x: "x \<in> set (nodes t)" for x
    proof -
      have "d c \<le> d x" "x \<in> live k" using grown_in [OF f1 t(2) rt] x t(1) by auto
      then have "c \<notin> set (C x)" using forestD(4) [OF f, of x c] by auto
      then show ?thesis by (rule detached_props)
    qed
    then have "grown C t" using grown_cong [of t ?C C] t(2) by blast
    moreover have "terminate_Process (Some c) s = terminate_Process (Some c) ?s"
      using terminate_Process_rec_outChild [OF h(1,3)] by (simp add: terminate_Process_def)
    moreover have "next_run h rs fs n = next_run (pcbs s) rs fs n" for rs fs n
      by (rule next_run_cong) (rule tree_only_fields(3) [OF h(4)])
    moreover note R = terminate_Process_root [OF e1 f1 no t]
    ultimately show ?thesis using t(1) R by simp blast
  qed
qed

subsection \<open>Every path ends in a state between paths\<close>

definition kernel_inv :: "outcome \<Rightarrow> nuc_state \<Rightarrow> bool" where
  "kernel_inv out s \<longleftrightarrow> (\<exists>k C d. path_end out s k \<and> forest (pcbs s) (live k) C d)"

definition goes_on :: "(outcome \<times> nuc_state) option \<Rightarrow> bool" where
  "goes_on r \<longleftrightarrow> (\<exists>out s. r = Some (out, s) \<and> kernel_inv out s)"

lemma goes_onI: "r = Some (out, s) \<Longrightarrow> path_end out s k \<Longrightarrow> forest (pcbs s) (live k) C d \<Longrightarrow> goes_on r"
  unfolding goes_on_def kernel_inv_def by blast

lemma live_cong: "kfree k' = kfree k \<Longrightarrow> live k' = live k"
  by (simp add: live_def)

lemma entry_live: "at_entry s k c \<Longrightarrow> c \<in> live k"
  using at_entryD(3,6) [of s k c] kinvD(8) [OF at_entryD(1), of s k c] by (auto simp: live_def unblocked_def)

lemma goes_on_same:
  assumes "r = Some (out, s')" "path_end out s' k'" "kfree k' = kfree k"
    and "forest (pcbs s) (live k) C d" "same_tree (pcbs s) (pcbs s')"
  shows "goes_on r"
  using goes_onI [OF assms(1,2)] forest_same_tree [OF assms(4,5)] live_cong [OF assms(3)] by metis

lemma passeren_goes_on:
  assumes e: "at_entry s k c" and f: "forest (pcbs s) (live k) C d" and a: "sem_addr (reg_a1 U (p_s (pcbs s c)))"
  shows "goes_on (passeren U s)"
proof -
  define v where "v = ints s (reg_a1 U (p_s (pcbs s c))) - 1"
  obtain out s' k' where p: "passeren U s = Some (out, s')" "path_end out s' k'" "kfree k' = kfree k"
    and c: "if sint v < 0 then \<forall>x. pcb_user (pcbs s' x) = pcb_user (charge s c x) else pcbs s' = pcbs s"
    using passeren_spec [OF e refl a v_def] by (metis (no_types, lifting))
  have "same_tree (pcbs s) (pcbs s')"
  proof (cases "sint v < 0")
    case True
    then have "same_tree (charge s c) (pcbs s')" using c by (intro same_tree_user) simp
    then show ?thesis by (rule same_tree_trans [OF same_tree_charge])
  qed (use c in simp)
  with goes_on_same [OF p f] show ?thesis by blast
qed

lemma verhogen_goes_on:
  assumes e: "at_entry s k c" and f: "forest (pcbs s) (live k) C d" and a: "sem_addr (reg_a1 U (p_s (pcbs s c)))"
  shows "goes_on (verhogen U s)"
proof -
  obtain s' k' where p: "verhogen U s = Some (LDST (p_s (pcbs s c)), s')" "path_end (LDST (p_s (pcbs s c))) s' k'"
    "\<And>x. pcb_user (pcbs s' x) = pcb_user (pcbs s x)"
    and k': "k' = (case kblocked k (reg_a1 U (p_s (pcbs s c))) of [] \<Rightarrow> k
           | p # q \<Rightarrow> k\<lparr>kblocked := (kblocked k)(reg_a1 U (p_s (pcbs s c)) := q), kready := kready k @ [p]\<rparr>)"
    using verhogen_spec [OF e refl a] by blast
  have "kfree k' = kfree k" unfolding k' by (simp split: list.split)
  from goes_on_same [OF p(1,2) this f same_tree_user] p(3) show ?thesis by blast
qed

lemma wait_For_IO_goes_on:
  assumes e: "at_entry s k c" and f: "forest (pcbs s) (live k) C d" and U: "umps_doc U"
    and i: "getSemIndex U (reg_a1 U (p_s (pcbs s c))) (reg_a2 U (p_s (pcbs s c))) (reg_a3 U (p_s (pcbs s c))) = Some i" "i < 49"
  shows "goes_on (wait_For_IO U s)"
proof -
  obtain out s' k' where p: "wait_For_IO U s = Some (out, s')" "path_end out s' k'" "kfree k' = kfree k"
    "\<And>x. pcb_user (pcbs s' x) = pcb_user (charge s c x)"
    using wait_For_IO_spec [OF e i(1) devSem_doc(1,2) [OF U i(2)]] by blast
  have "same_tree (charge s c) (pcbs s')" by (rule same_tree_user) (rule p(4))
  from goes_on_same [OF p(1-3) f same_tree_trans [OF same_tree_charge this]] show ?thesis .
qed

lemma clock_addr: "umps_doc U \<Longrightarrow> sem_addr (clockSemaphore U)"
  using devSem_doc(2) [of U 48] by (simp add: clockSemaphore_def DEVICE_NUM_def)

lemma wait_For_Clock_goes_on:
  assumes e: "at_entry s k c" and f: "forest (pcbs s) (live k) C d" and U: "umps_doc U"
  shows "goes_on (wait_For_Clock U s)"
proof -
  define v where "v = ints s (clockSemaphore U) - 1"
  obtain out s' k' where p: "wait_For_Clock U s = Some (out, s')" "path_end out s' k'" "kfree k' = kfree k"
    and c: "if sint v < 0 then \<forall>x. pcb_user (pcbs s' x) = pcb_user (charge s c x) else pcbs s' = pcbs s"
    using wait_For_Clock_spec [OF e clock_addr [OF U] v_def] by (metis (no_types, lifting))
  have "same_tree (pcbs s) (pcbs s')"
  proof (cases "sint v < 0")
    case True
    then have "same_tree (charge s c) (pcbs s')" using c by (intro same_tree_user) simp
    then show ?thesis by (rule same_tree_trans [OF same_tree_charge])
  qed (use c in simp)
  with goes_on_same [OF p f] show ?thesis by blast
qed

lemma get_Cpu_Time_goes_on:
  assumes e: "at_entry s k c" and f: "forest (pcbs s) (live k) C d"
  shows "goes_on (get_Cpu_Time U s)"
  using at_entryD(1-3) [OF e] get_Cpu_Time_spec [OF e refl refl, of U]
  by (auto intro!: goes_on_same [OF _ _ refl f] simp: get_Cpu_Time_def set_v0_def read_tod_def curProc_def
      loadProcess_def same_tree_def Let_def)

lemma get_support_data_goes_on:
  assumes e: "at_entry s k c" and f: "forest (pcbs s) (live k) C d"
  shows "goes_on (get_support_data U s)"
proof -
  obtain s' st where p: "get_support_data U s = Some (LDST st, s')" "path_end (LDST st) s' k"
    "\<And>x. x \<noteq> c \<Longrightarrow> pcbs s' x = pcbs s x" "pcbs s' c = (pcbs s c)\<lparr>p_s := st\<rparr>"
    using get_support_data_spec [OF e, of U] by blast
  have "same_tree (pcbs s) (pcbs s')" unfolding same_tree_def using p(3,4) by (metis pcb_t.select_convs pcb_t.surjective pcb_t.update_convs(7))
  from goes_on_same [OF p(1,2) refl f this] show ?thesis .
qed

lemma create_Process_goes_on:
  assumes e: "at_entry s k c" and f: "forest (pcbs s) (live k) C d" and a1: "reg_a1 U (p_s (pcbs s c)) \<noteq> 0"
  shows "goes_on (create_Process U s)"
proof (cases "kfree k")
  case Nil
  obtain s' st where p: "create_Process U s = Some (LDST st, s')" "path_end (LDST st) s' k"
    "\<And>x. x \<noteq> c \<Longrightarrow> pcbs s' x = pcbs s x" "pcbs s' c = (pcbs s c)\<lparr>p_s := st\<rparr>"
    using create_Process_full [OF e Nil, of U] by blast
  have "pcbs s' = (pcbs s)(c := (pcbs s c)\<lparr>p_s := st\<rparr>)" using p(3,4) by auto
  then have "same_tree (pcbs s) (pcbs s')" by simp
  from goes_on_same [OF p(1,2) refl f this] show ?thesis .
next
  case (Cons p fs)
  note E = at_entryD [OF e]
  have cL: "c \<in> live k" by (rule entry_live [OF e])
  have pL: "p \<notin> live k" using Cons by (simp add: live_def)
  have kd: "brood (pcbs s) c (C c)" "p \<notin> set (C c)"
    using forestD(2) [OF f cL] forestD(3) [OF f cL, of p] pL by auto
  let ?k' = "k\<lparr>kfree := fs, kready := kready k @ [p]\<rparr>"
  obtain s' st where s': "create_Process U s = Some (LDST st, s')" "path_end (LDST st) s' ?k'"
    "p_child (pcbs s' p) = None" "adopted (pcbs s) (pcbs s') c (C c) p"
    using create_Process_alloc [OF e Cons a1 kd refl refl] by blast
  have "p < MAXPROC" "p \<notin> set fs"
    using kinvD(8,9) [OF E(1)] Cons by (auto simp: unblocked_def)
  then have L: "live ?k' = insert p (live k)" using Cons by (auto simp: live_def)
  from forest_create [OF f cL pL s'(4,3)]
  have "forest (pcbs s') (live ?k') (C(c := C c @ [p], p := [])) (d(p := d c + 1))" unfolding L .
  from goes_onI [OF s'(1,2) this] show ?thesis .
qed

lemma terminate_Process_goes_on:
  assumes "at_entry s k c" and "forest (pcbs s) (live k) C d" and "killable (pcbs s) c"
  shows "goes_on (terminate_Process (Some c) s)"
  using terminate_Process_spec [OF assms] by (metis goes_onI)

lemma passupOrDie_goes_on:
  assumes e: "at_entry s k c" and f: "forest (pcbs s) (live k) C d"
  shows "goes_on (passupOrDie U x s)"
proof (cases "p_supportStruct (pcbs s c) = 0")
  case True
  from goes_on_same [OF passupOrDie_die [OF e True] _ refl f] at_entryD [OF e]
  show ?thesis by (simp add: path_end_def)
next
  case False
  from goes_on_same [OF passupOrDie_up [OF e refl False refl] _ refl f] at_entryD [OF e]
  show ?thesis by (simp add: path_end_def)
qed

subsection \<open>The dispatchers\<close>

text \<open>The state of the calling process when the handler of its system call starts.\<close>

definition sys_state :: "umps \<Rightarrow> nuc_state \<Rightarrow> nat \<Rightarrow> state_t" where
  "sys_state U s c = (copyState U (states s BIOSDATAPAGE) (p_s (pcbs s c)))\<lparr>pc_epc := pc_epc (states s BIOSDATAPAGE) + 4\<rparr>"

definition sys_entry :: "umps \<Rightarrow> nuc_state \<Rightarrow> nat \<Rightarrow> nuc_state" where
  "sys_entry U s c = s\<lparr>pcbs := (pcbs s)(c := (pcbs s c)\<lparr>p_s := sys_state U s c\<rparr>)\<rparr>"

lemma sys_state_regs:
  assumes "umps_regs U"
  shows "reg_a1 U (sys_state U s c) = reg_a1 U (states s BIOSDATAPAGE)"
    "reg_a2 U (sys_state U s c) = reg_a2 U (states s BIOSDATAPAGE)"
    "reg_a3 U (sys_state U s c) = reg_a3 U (states s BIOSDATAPAGE)"
  using copyState_regs [OF assms] by (simp_all add: sys_state_def reg_defs)

lemma sys_entry_simps [simp]:
  "p_s (pcbs (sys_entry U s c) c) = sys_state U s c" "currentProcess (sys_entry U s c) = currentProcess s"
  "ints (sys_entry U s c) = ints s" "supports (sys_entry U s c) = supports s" "states (sys_entry U s c) = states s"
  "softBlockedCount (sys_entry U s c) = softBlockedCount s" "hardware (sys_entry U s c) = hardware s"
  "same_tree (pcbs s) (pcbs (sys_entry U s c))" "at_entry (sys_entry U s c) k c' = at_entry s k c'"
  by (simp_all add: sys_entry_def)

lemma handleNucleousSystemcalls_user:
  assumes "status (states s BIOSDATAPAGE) AND USERPON \<noteq> 0"
  shows "handleNucleousSystemcalls U s = passupOrDie U GENERALEXCEPT s"
  using assms by (simp add: handleNucleousSystemcalls_def load_state_def BIOSDATAPAGE_def)

lemma handleNucleousSystemcalls_kernel:
  assumes e: "at_entry s k c" and m: "status (states s BIOSDATAPAGE) AND USERPON = 0"
    and n: "n = reg_a0 U (states s BIOSDATAPAGE)" and s1: "s1 = sys_entry U s c"
  shows "handleNucleousSystemcalls U s =
      (if n = CREATEPROCESS then create_Process U s1
       else if n = TERMPROCESS then terminate_Process (Some c) s1
       else if n = PASSEREN then passeren U s1
       else if n = VERHOGEN then verhogen U s1
       else if n = IOWAIT then wait_For_IO U s1
       else if n = GETTIME then get_Cpu_Time U s1
       else if n = CLOCKWAIT then wait_For_Clock U s1
       else if n = GETSUPPORTPTR then get_support_data U s1
       else passupOrDie U GENERALEXCEPT s1)"
  using m at_entryD(2) [OF e]
  by (simp add: handleNucleousSystemcalls_def load_state_def BIOSDATAPAGE_def n s1 sys_entry_def sys_state_def)

text \<open>
  The requests the handlers accept without undefined behaviour: a state to start from for
  SYS1, a process that leaves no pointer to it behind for SYS2, a semaphore for SYS3 and SYS4, a
  device for SYS5.
\<close>

definition request_ok :: "umps \<Rightarrow> nuc_state \<Rightarrow> bool" where
  "request_ok U s \<longleftrightarrow>
     (let st = states s BIOSDATAPAGE; n = reg_a0 U st
      in status st AND USERPON = 0 \<longrightarrow>
         (n = CREATEPROCESS \<longrightarrow> reg_a1 U st \<noteq> 0) \<and>
         (n = TERMPROCESS \<longrightarrow> (\<forall>c. currentProcess s = Some c \<longrightarrow> killable (pcbs s) c)) \<and>
         (n = PASSEREN \<or> n = VERHOGEN \<longrightarrow> sem_addr (reg_a1 U st)) \<and>
         (n = IOWAIT \<longrightarrow> (\<exists>i < 49. getSemIndex U (reg_a1 U st) (reg_a2 U st) (reg_a3 U st) = Some i)))"

lemma killable_cong: "same_tree h h' \<Longrightarrow> killable h' c = killable h c"
  by (simp add: killable_def same_tree_def)

lemma handleNucleousSystemcalls_goes_on:
  assumes e: "at_entry s k c" and f: "forest (pcbs s) (live k) C d" and U: "umps_doc U" and ok: "request_ok U s"
  shows "goes_on (handleNucleousSystemcalls U s)"
proof (cases "status (states s BIOSDATAPAGE) AND USERPON = 0")
  case False
  with passupOrDie_goes_on [OF e f] show ?thesis by (simp add: handleNucleousSystemcalls_user)
next
  case True
  let ?st = "states s BIOSDATAPAGE" and ?s1 = "sys_entry U s c"
  have regs: "umps_regs U" using U by (simp add: umps_doc_def)
  have e1: "at_entry ?s1 k c" using e by simp
  have f1: "forest (pcbs ?s1) (live k) C d" by (rule forest_same_tree [OF f]) simp
  have R: "reg_a1 U (p_s (pcbs ?s1 c)) = reg_a1 U ?st" "reg_a2 U (p_s (pcbs ?s1 c)) = reg_a2 U ?st"
    "reg_a3 U (p_s (pcbs ?s1 c)) = reg_a3 U ?st" using sys_state_regs [OF regs] by simp_all
  let ?n = "reg_a0 U ?st"
  have ok': "?n = CREATEPROCESS \<Longrightarrow> reg_a1 U ?st \<noteq> 0" "?n = TERMPROCESS \<Longrightarrow> killable (pcbs ?s1) c"
    "?n = PASSEREN \<or> ?n = VERHOGEN \<Longrightarrow> sem_addr (reg_a1 U ?st)"
    "?n = IOWAIT \<Longrightarrow> \<exists>i < 49. getSemIndex U (reg_a1 U ?st) (reg_a2 U ?st) (reg_a3 U ?st) = Some i"
    using ok True at_entryD(2) [OF e] killable_cong [of "pcbs s" "pcbs ?s1" c] by (auto simp: request_ok_def Let_def)
  note run = handleNucleousSystemcalls_kernel [OF e True refl refl]
  have io: "goes_on (wait_For_IO U ?s1)" if n: "?n = IOWAIT"
  proof -
    obtain i where "i < 49" "getSemIndex U (reg_a1 U ?st) (reg_a2 U ?st) (reg_a3 U ?st) = Some i" using ok'(4) [OF n] by blast
    then show ?thesis by (intro wait_For_IO_goes_on [OF e1 f1 U]) (simp_all add: sys_state_regs [OF regs])
  qed
  have cr: "goes_on (create_Process U ?s1)" if "?n = CREATEPROCESS"
    by (rule create_Process_goes_on [OF e1 f1]) (use ok'(1) [OF that] R in simp)
  have te: "goes_on (terminate_Process (Some c) ?s1)" if "?n = TERMPROCESS"
    by (rule terminate_Process_goes_on [OF e1 f1 ok'(2) [OF that]])
  have pv: "goes_on (passeren U ?s1)" "goes_on (verhogen U ?s1)" if "?n = PASSEREN \<or> ?n = VERHOGEN"
    using passeren_goes_on [OF e1 f1] verhogen_goes_on [OF e1 f1] ok'(3) [OF that] R by simp_all
  show ?thesis unfolding run
    using cr te pv io get_Cpu_Time_goes_on [OF e1 f1] wait_For_Clock_goes_on [OF e1 f1 U]
      get_support_data_goes_on [OF e1 f1] passupOrDie_goes_on [OF e1 f1] by (simp split: if_split)
qed

text \<open>
  \<open>exception_ok\<close>: what \<open>handleExceptions\<close> relies on for the exception at hand.  While the
  processor waits only an interrupt can arrive, a pending device line has a device, a system
  call is one the handlers accept.
\<close>

definition exc_code :: "umps \<Rightarrow> nuc_state \<Rightarrow> u32" where
  "exc_code U s = CAUSE_GET_EXCCODE U (CAUSE (hardware s))"

definition exception_ok :: "umps \<Rightarrow> nuc_state \<Rightarrow> bool" where
  "exception_ok U s \<longleftrightarrow> devices_ok U s \<and> (currentProcess s = None \<longrightarrow> exc_code U s = EXC_INT U) \<and>
     (exc_code U s = EXC_SYS U \<longrightarrow> request_ok U s)"

lemma handleExceptions_goes_on:
  assumes b: "between s k" and f: "forest (pcbs s) (live k) C d" and U: "umps_doc U" and ok: "exception_ok U s"
  shows "goes_on (handleExceptions U s)"
proof -
  have int: "goes_on (handleInterrupts U s)"
  proof -
    obtain out s' k' where "handleInterrupts U s = Some (out, s')" "path_end out s' k'" "kfree k' = kfree k"
      "same_tree (pcbs s) (pcbs s')"
      using handleInterrupts_safe [OF b U] ok by (auto simp: exception_ok_def)
    from goes_on_same [OF this(1-3) f this(4)] show ?thesis .
  qed
  show ?thesis
  proof (cases "currentProcess s")
    case None
    then show ?thesis using ok int by (simp add: exception_ok_def exc_code_def handleExceptions_def Let_def)
  next
    case (Some c)
    note e = between_entry [OF b Some]
    have ret: "goes_on (Some (RETURN, s))"
      by (rule goes_on_same [OF refl _ refl f same_tree_refl]) (use at_entryD [OF e] in \<open>simp add: path_end_def\<close>)
    have sys: "goes_on (handleNucleousSystemcalls U s)" if "exc_code U s = EXC_SYS U"
      using handleNucleousSystemcalls_goes_on [OF e f U] ok that by (simp add: exception_ok_def)
    show ?thesis
      using int passupOrDie_goes_on [OF e f] sys ret
      by (simp add: handleExceptions_def TLBExceptionHandler_def exc_code_def Let_def)
  qed
qed

subsection \<open>The machine\<close>

text \<open>
  Between two paths the processes and the devices may write all of the memory that is not the
  kernel's (semaphores, processor states, support structures) and every hardware register.
\<close>

definition outside :: "nuc_state \<Rightarrow> nuc_state \<Rightarrow> bool" where
  "outside s s' \<longleftrightarrow> (\<exists>I S P w. s' = s\<lparr>ints := I, states := S, supports := P, hardware := w\<rparr>)"

text \<open>
  What can come after a path: after \<open>LDST\<close> and \<open>LDCXT\<close> any exception, after \<open>WAIT\<close> an
  interrupt, after \<open>SYSCALL\<close> that system call, made in kernel mode.  \<open>HALT\<close>, \<open>PANIC\<close> and
  \<open>RETURN\<close> are final.
\<close>

fun follows :: "umps \<Rightarrow> outcome \<Rightarrow> nuc_state \<Rightarrow> bool" where
  "follows U (LDST st) s = True"
| "follows U (LDCXT a b c) s = True"
| "follows U WAIT s = (exc_code U s = EXC_INT U)"
| "follows U (SYSCALL n a b c) s \<longleftrightarrow> exc_code U s = EXC_SYS U \<and> reg_a0 U (states s BIOSDATAPAGE) = n \<and>
     reg_a1 U (states s BIOSDATAPAGE) = a \<and> reg_a2 U (states s BIOSDATAPAGE) = b \<and>
     reg_a3 U (states s BIOSDATAPAGE) = c \<and> status (states s BIOSDATAPAGE) AND USERPON = 0"
| "follows U HALT s = False"
| "follows U PANIC s = False"
| "follows U RETURN s = False"

inductive kernel_step :: "umps \<Rightarrow> outcome \<times> nuc_state \<Rightarrow> outcome \<times> nuc_state \<Rightarrow> bool" for U where
  exception: "outside s s1 \<Longrightarrow> follows U out s1 \<Longrightarrow> exception_ok U s1 \<Longrightarrow>
     handleExceptions U s1 = Some (out', s') \<Longrightarrow> kernel_step U (out, s) (out', s')"

inductive_cases kernel_stepE [elim!]: "kernel_step U (out, s) (out', s')"

lemma outside_between:
  assumes "path_end out s k" and "outside s s1" and "follows U out s1"
  shows "between s1 k"
proof -
  obtain I S P w where s1: "s1 = s\<lparr>ints := I, states := S, supports := P, hardware := w\<rparr>"
    using assms(2) by (auto simp: outside_def)
  have "between s k" using assms(1,3) by (cases out) (auto simp: path_end_def between_def)
  then show ?thesis unfolding s1 by (simp add: between_def)
qed

lemma outside_pcbs: "outside s s1 \<Longrightarrow> pcbs s1 = pcbs s"
  by (auto simp: outside_def)

text \<open>Progress: whatever exception comes, its handler ends, without undefined behaviour.\<close>

lemma kernel_progress:
  assumes "kernel_inv out s" and "outside s s1" "follows U out s1" "exception_ok U s1" and U: "umps_doc U"
  shows "goes_on (handleExceptions U s1)"
proof -
  obtain k C d where k: "path_end out s k" "forest (pcbs s) (live k) C d" using assms(1) by (auto simp: kernel_inv_def)
  have "forest (pcbs s1) (live k) C d" using k(2) outside_pcbs [OF assms(2)] by simp
  from handleExceptions_goes_on [OF outside_between [OF k(1) assms(2,3)] this U assms(4)] show ?thesis .
qed

definition booted :: "umps \<Rightarrow> outcome \<times> nuc_state \<Rightarrow> bool" where
  "booted U x \<longleftrightarrow> (\<exists>s. boot_globals s \<and> main U s = Some x)"

lemma booted_inv:
  assumes U: "umps_doc U" and b: "booted U x"
  shows "kernel_inv (fst x) (snd x)"
proof -
  obtain s where s: "boot_globals s" "main U s = Some x" using b by (auto simp: booted_def)
  have "clockSemaphore U \<noteq> 0" using clock_addr [OF U] by (simp add: sem_addr_def)
  from main_spec [OF s(1) this] s(2) obtain out s' where x: "x = (out, s')"
    "path_end out s' (kboot\<lparr>kfree := [1..<MAXPROC], kheld := [0]\<rparr>)"
    "\<And>y. p_prnt (pcbs s' y) = None \<and> p_child (pcbs s' y) = None \<and> nsib (pcbs s') y = None \<and> psib (pcbs s') y = None" by auto
  have "forest (pcbs s') {0} (\<lambda>_. []) (\<lambda>_. 0)"
    using x(3) by (intro forest_single) simp_all
  moreover have "live (kboot\<lparr>kfree := [1..<MAXPROC], kheld := [0]\<rparr>) = {0}"
    by (auto simp: live_def MAXPROC_def)
  ultimately show ?thesis using x(1,2) unfolding kernel_inv_def
    by (intro exI [of _ "kboot\<lparr>kfree := [1..<MAXPROC], kheld := [0]\<rparr>"] exI [of _ "\<lambda>_. []"] exI [of _ "\<lambda>_. 0"])
      simp
qed

text \<open>
  \<open>U\<close> is fixed to a platform that keeps the documented promises by going through pairs: the
  invariant of the machine holds for every such platform.
\<close>

interpretation km: machine "\<lambda>(U, x). umps_doc U \<and> booted U x"
  "\<lambda>(U, x) (V, y). V = U \<and> kernel_step U x y" "\<lambda>(U, x). umps_doc U \<and> kernel_inv (fst x) (snd x)"
proof
  fix s t :: "umps \<times> outcome \<times> nuc_state"
  obtain U out r where s: "s = (U, out, r)" by (rule prod_cases3)
  obtain V out' r' where t: "t = (V, out', r')" by (rule prod_cases3)
  show "case s of (U, x) \<Rightarrow> umps_doc U \<and> kernel_inv (fst x) (snd x)" if "case s of (U, x) \<Rightarrow> umps_doc U \<and> booted U x"
    using that booted_inv [of U "(out, r)"] by (simp add: s)
  show "case t of (U, x) \<Rightarrow> umps_doc U \<and> kernel_inv (fst x) (snd x)"
    if inv: "case s of (U, x) \<Rightarrow> umps_doc U \<and> kernel_inv (fst x) (snd x)"
      and st: "(case s of (U, x) \<Rightarrow> \<lambda>(V, y). V = U \<and> kernel_step U x y) t"
  proof -
    have V: "V = U" and "kernel_step U (out, r) (out', r')" using st by (simp_all add: s t)
    then obtain r1 where r1: "outside r r1" "follows U out r1" "exception_ok U r1"
      "handleExceptions U r1 = Some (out', r')" by auto
    have "goes_on (handleExceptions U r1)" using kernel_progress [OF _ r1(1-3)] inv by (simp add: s)
    then show ?thesis using inv r1(4) by (auto simp: s t V goes_on_def)
  qed
qed

lemma reaches_pair: "reaches (kernel_step U) x y \<Longrightarrow> reaches (\<lambda>(U, x) (V, y). V = U \<and> kernel_step U x y) (U, x) (U, y)"
proof (induction rule: reaches.induct)
  case (reaches_step s t u)
  show ?case by (rule reaches.reaches_step [OF reaches_step.IH]) (simp add: reaches_step.hyps(2))
qed (rule reaches_refl)

lemma reachable_inv:
  assumes "umps_doc U" "booted U x" "reaches (kernel_step U) x y"
  shows "kernel_inv (fst y) (snd y)"
  using km.reaches_inv [OF reaches_pair [OF assms(3)]] assms(1,2) by simp

end
