(* ===== verification/Sem_Props.thy ===== *)
theory Sem_Props
  imports Kernel
begin

text \<open>
  Semaphores.  The value of a semaphore and the queue of the processes blocked on it agree:
  a negative value is minus the number of waiting processes (\<open>sem_ok\<close>), and SYS3 and SYS4
  keep it so.  The semaphore of a device instead counts \<open>1\<close> minus the number of waiting
  processes (\<open>dev_sem_ok\<close>), because SYS5 always blocks.
\<close>

definition sem_ok :: "(u32 \<Rightarrow> u32) \<Rightarrow> kview \<Rightarrow> u32 \<Rightarrow> bool" where
  "sem_ok I k a \<longleftrightarrow> length (kblocked k a) = nat (- sint (I a))"

definition dev_sem_ok :: "(u32 \<Rightarrow> u32) \<Rightarrow> kview \<Rightarrow> u32 \<Rightarrow> bool" where
  "dev_sem_ok I k a \<longleftrightarrow> sint (I a) = 1 - int (length (kblocked k a))"

lemma sint_dec: "- (2 ^ 31) < sint (v :: u32) \<Longrightarrow> sint (v - 1) = sint v - 1"
  using sint_lt [of v] by (simp add: sint_word_ariths signed_take_bit_int_eq_self)

lemma sint_inc: "sint (v :: u32) < 2 ^ 31 - 1 \<Longrightarrow> sint (v + 1) = sint v + 1"
  using sint_ge [of v] by (simp add: sint_word_ariths signed_take_bit_int_eq_self)

lemma blocked_le: "kinv s k \<Longrightarrow> length (kblocked k a) \<le> MAXPROC"
  using asl_distinct [OF kinvD(3), of s k a] kinvD(10) [of s k _ a]
  by (intro length_le_of_subset_upt) auto

subsection \<open>A concrete machine\<close>

definition idle_hw :: hw where
  "idle_hw = \<lparr>CAUSE = 0, STATUS = 0, tod_in = (\<lambda>n. of_nat n), tod_ix = 0, timer_in = (\<lambda>n. 3000), timer_ix = 0,
     timer_out = 0, ldit_out = 0, timescale = 1, dev_bitmap = (\<lambda>_. 1),
     dev_regs = (\<lambda>_ _. \<lparr>dev_dtp = \<lparr>dtp_status = 1, dtp_command = 0, dtp_data0 = 0\<rparr>,
       dev_term = \<lparr>recv_status = 1, recv_command = 0, transm_status = 5, transm_command = 0\<rparr>\<rparr>),
     PASSUPVECTOR = \<lparr>tlb_refill_handler = 0, tlb_refill_stackPtr = 0, exception_handler = 0, exception_stackPtr = 0\<rparr>\<rparr>"

definition power_on :: nuc_state where
  "power_on = \<lparr>pcbs = (\<lambda>_. zero_pcb), pcbFree_h = None, processCount = 0, semd_table = (\<lambda>_. zero_semd),
     semdFree_h = None, semd_h = None, readyQueue = None, currentProcess = None, softBlockedCount = 0,
     startT = 0, stopT = 0, globalStartT = 0, mutex = 0, ints = (\<lambda>_. 0), states = (\<lambda>_. zero_state),
     supports = (\<lambda>_. zero_support), hardware = idle_hw\<rparr>"

definition kfirst :: kview where
  "kfirst = \<lparr>kfree = [1..<MAXPROC], kready = [], kblocked = (\<lambda>_. []), kheld = [0]\<rparr>"

text \<open>The state after \<open>main\<close>, with the given processor state in the running process.\<close>

definition demo :: "state_t \<Rightarrow> nuc_state" where
  "demo st = (let s = snd (the (main umps3 power_on)) in s\<lparr>pcbs := (pcbs s)(0 := (pcbs s 0)\<lparr>p_s := st\<rparr>)\<rparr>)"

lemma boot_power_on: "boot_globals power_on"
  by (simp add: boot_globals_def power_on_def)

lemma demo_main:
  obtains s where "main umps3 power_on = Some (LDST (first_state umps3 zero_state), s)"
    "path_end (LDST (first_state umps3 zero_state)) s kfirst" "currentProcess s = Some 0"
    "p_supportStruct (pcbs s 0) = 0" "ints s = (\<lambda>_. 0)" "softBlockedCount s = 0"
    "\<And>x. p_prnt (pcbs s x) = None \<and> p_child (pcbs s x) = None \<and> nsib (pcbs s) x = None \<and> psib (pcbs s) x = None"
proof -
  have a: "clockSemaphore umps3 \<noteq> 0" using clock_addr [OF umps3_doc] by (simp add: sem_addr_def)
  have k: "kboot\<lparr>kfree := [1..<MAXPROC], kheld := [0]\<rparr> = kfirst" by (simp add: kboot_def kfirst_def)
  have i: "(ints power_on)(clockSemaphore umps3 := 0) = (\<lambda>_. 0)" by (auto simp: power_on_def)
  from main_spec [OF boot_power_on a] that show ?thesis unfolding k i by blast
qed

lemma demo_entry [simp]: "at_entry (demo st) kfirst 0"
  and demo_p_s [simp]: "p_s (pcbs (demo st) 0) = st"
  and demo_ints [simp]: "ints (demo st) = (\<lambda>_. 0)"
  and demo_soft [simp]: "softBlockedCount (demo st) = 0"
  and demo_current [simp]: "currentProcess (demo st) = Some 0"
  and demo_supp [simp]: "p_supportStruct (pcbs (demo st) 0) = 0"
  and demo_tree [simp]: "p_prnt (pcbs (demo st) x) = None" "p_child (pcbs (demo st) x) = None"
    "nsib (pcbs (demo st)) x = None" "psib (pcbs (demo st)) x = None"
proof -
  obtain s where s: "main umps3 power_on = Some (LDST (first_state umps3 zero_state), s)"
    "path_end (LDST (first_state umps3 zero_state)) s kfirst" "currentProcess s = Some 0"
    "p_supportStruct (pcbs s 0) = 0" "ints s = (\<lambda>_. 0)" "softBlockedCount s = 0"
    "\<And>x. p_prnt (pcbs s x) = None \<and> p_child (pcbs s x) = None \<and> nsib (pcbs s) x = None \<and> psib (pcbs s) x = None" by (rule demo_main) blast
  have d: "demo st = s\<lparr>pcbs := (pcbs s)(0 := (pcbs s 0)\<lparr>p_s := st\<rparr>)\<rparr>" using s(1) by (simp add: demo_def Let_def)
  show "at_entry (demo st) kfirst 0" using s(2,3) by (simp add: d at_entry_def path_end_def)
  show "p_s (pcbs (demo st) 0) = st" "ints (demo st) = (\<lambda>_. 0)" "softBlockedCount (demo st) = 0"
    "currentProcess (demo st) = Some 0" "p_supportStruct (pcbs (demo st) 0) = 0"
    "p_prnt (pcbs (demo st) x) = None" "p_child (pcbs (demo st) x) = None"
    "nsib (pcbs (demo st)) x = None" "psib (pcbs (demo st)) x = None"
    using s by (simp_all add: d)
qed

lemma demo_forest [simp]: "forest (pcbs (demo st)) (live kfirst) (\<lambda>_. []) (\<lambda>_. 0)"
proof -
  have "live kfirst = {0}" by (auto simp: live_def kfirst_def MAXPROC_def)
  then show ?thesis by (simp add: forest_single)
qed

text \<open>A processor state with arguments of a system call.\<close>

definition args :: "u32 \<Rightarrow> u32 \<Rightarrow> u32 \<Rightarrow> u32 \<Rightarrow> state_t" where
  "args n a b c = zero_state\<lparr>gpr := (\<lambda>_. 0)(3 := n, 4 := a, 5 := b, 6 := c)\<rparr>"

lemma args_regs [simp]:
  "reg_a0 umps3 (args n a b c) = n" "reg_a1 umps3 (args n a b c) = a"
  "reg_a2 umps3 (args n a b c) = b" "reg_a3 umps3 (args n a b c) = c"
  by (simp_all add: reg_defs args_def umps3_def)

lemma kfirst_simps [simp]:
  "kfree kfirst = [1..<MAXPROC]" "kready kfirst = []" "kblocked kfirst a = []" "kheld kfirst = [0]"
  by (simp_all add: kfirst_def)

subsection \<open>SYS3 and SYS4 keep value and queue in step\<close>

text \<open>
  C9: SYS3 (passeren).  The semaphore is decremented; when it was not positive the caller is
  charged its time, goes to the end of the semaphore's queue and the head of the ready queue (if
  any) is dispatched, otherwise the caller goes on with its own state.  In both cases minus the
  negative value is the number of waiting processes, before and after, and the other semaphores
  and their queues are untouched.
\<close>

theorem passeren_semaphore:
  assumes e: "at_entry s k c" and a: "a = reg_a1 U (p_s (pcbs s c))" "sem_addr a"
    and ok: "sem_ok (ints s) k a"
  shows "\<exists>out s' k'. passeren U s = Some (out, s') \<and> path_end out s' k' \<and> sem_ok (ints s') k' a \<and>
    sint (ints s' a) = sint (ints s a) - 1 \<and> (\<forall>b. b \<noteq> a \<longrightarrow> ints s' b = ints s b \<and> kblocked k' b = kblocked k b) \<and>
    (if sint (ints s a) > 0 then k' = k \<and> out = LDST (p_s (pcbs s c))
     else kblocked k' a = kblocked k a @ [c] \<and> kready k = kheld k' @ kready k' \<and>
       p_time (pcbs s' c) = p_time (pcbs s c) + (tod_in (hardware s) (tod_ix (hardware s)) - startT s))"
proof -
  define v where "v = ints s a - 1"
  have "length (kblocked k a) \<le> 40" using blocked_le [OF at_entryD(1) [OF e], of a] by (simp add: MAXPROC_def)
  then have "- 40 \<le> sint (ints s a)" using ok by (simp add: sem_ok_def)
  then have v: "sint v = sint (ints s a) - 1" unfolding v_def by (intro sint_dec) simp
  obtain out s' k' where p: "passeren U s = Some (out, s')" "path_end out s' k'" "ints s' = (ints s)(a := v)"
    and c: "if sint v < 0 then kblocked k' = (kblocked k)(a := kblocked k a @ [c]) \<and> kready k = kheld k' @ kready k' \<and>
        (\<forall>x. pcb_user (pcbs s' x) = pcb_user (charge s c x))
      else k' = k \<and> pcbs s' = pcbs s \<and> out = LDST (p_s (pcbs s c))"
    using passeren_spec [OF e a v_def] by blast
  show ?thesis
  proof (cases "sint v < 0")
    case True
    have "p_time (pcbs s' c) = p_time (charge s c c)" using c True by (intro pcb_user_eqD(6)) simp
    with True c p v ok show ?thesis
      by (intro exI [of _ out] exI [of _ s'] exI [of _ k']) (auto simp: sem_ok_def charge_def)
  next
    case False
    with c p v ok show ?thesis
      by (intro exI [of _ out] exI [of _ s'] exI [of _ k']) (auto simp: sem_ok_def)
  qed
qed

theorem passeren_semaphore_witness:
  "\<exists>out s' k'. passeren umps3 (demo (args 3 64 0 0)) = Some (out, s') \<and> path_end out s' k' \<and>
     kblocked k' 64 = [0] \<and> sint (ints s' 64) = - 1"
  using passeren_semaphore [of "demo (args 3 64 0 0)" kfirst 0 64 umps3]
  by (auto simp: sem_addr_def MAXADD_def sem_ok_def)

text \<open>
  C10: SYS4 (verhogen).  The semaphore is incremented, exactly when it was negative the first
  of the waiting processes becomes ready (behind the ones that are), and the caller goes on with
  its own state; value and queue stay in step.  The hypothesis excludes the overflow of the C int.
\<close>

theorem verhogen_semaphore:
  assumes e: "at_entry s k c" and a: "a = reg_a1 U (p_s (pcbs s c))" "sem_addr a"
    and ok: "sem_ok (ints s) k a" and top: "sint (ints s a) < 2 ^ 31 - 1"
  shows "\<exists>s' k'. verhogen U s = Some (LDST (p_s (pcbs s c)), s') \<and> path_end (LDST (p_s (pcbs s c))) s' k' \<and>
    sem_ok (ints s') k' a \<and> sint (ints s' a) = sint (ints s a) + 1 \<and>
    (\<forall>b. b \<noteq> a \<longrightarrow> ints s' b = ints s b \<and> kblocked k' b = kblocked k b) \<and>
    (if sint (ints s a) < 0 then kblocked k a = hd (kblocked k a) # kblocked k' a \<and>
       kready k' = kready k @ [hd (kblocked k a)] else k' = k)"
proof -
  have v: "sint (ints s a + 1) = sint (ints s a) + 1" using top by (rule sint_inc)
  obtain s' k' where p: "verhogen U s = Some (LDST (p_s (pcbs s c)), s')" "path_end (LDST (p_s (pcbs s c))) s' k'"
    "ints s' = (ints s)(a := ints s a + 1)"
    and k': "k' = (case kblocked k a of [] \<Rightarrow> k
           | p # q \<Rightarrow> k\<lparr>kblocked := (kblocked k)(a := q), kready := kready k @ [p]\<rparr>)"
    using verhogen_spec [OF e a] by blast
  show ?thesis
  proof (cases "kblocked k a")
    case Nil
    with p k' v ok show ?thesis by (intro exI [of _ s'] exI [of _ k']) (auto simp: sem_ok_def)
  next
    case (Cons x q)
    then have "sint (ints s a) < 0" "Suc (length q) = nat (- sint (ints s a))" using ok by (auto simp: sem_ok_def)
    with Cons p k' v show ?thesis by (intro exI [of _ s'] exI [of _ k']) (auto simp: sem_ok_def)
  qed
qed

theorem verhogen_semaphore_witness:
  "\<exists>s'. verhogen umps3 (demo (args 4 64 0 0)) = Some (LDST (args 4 64 0 0), s') \<and> sint (ints s' 64) = 1"
  using verhogen_semaphore [of "demo (args 4 64 0 0)" kfirst 0 64 umps3]
  by (auto simp: sem_addr_def MAXADD_def sem_ok_def)

end
