(* ===== verification/Nuc_Props.thy ===== *)
theory Nuc_Props
  imports Sem_Props
begin

text \<open>
  The scheduler, the life of processes and the waits for devices and for the clock, on every
  branch.
\<close>

subsection \<open>Scheduling\<close>

text \<open>
  C7: The scheduler's decision.  With a ready process, the one that has waited longest runs, with
  a full time slice.  With none: the machine halts when no process exists; it waits with interrupts
  on and no current process when some process is blocked on a device or the clock; otherwise it has
  found a deadlock and panics.
\<close>

theorem scheduler_policy:
  assumes k: "kinv s k" and h: "kheld k = []"
  shows "case kready k of
     p # rs \<Rightarrow> \<exists>s'. scheduler s = Some (LDST (p_s (pcbs s p)), s') \<and> currentProcess s' = Some p \<and>
        path_end (LDST (p_s (pcbs s p))) s' (k\<lparr>kready := rs, kheld := [p]\<rparr>) \<and> timer_out (hardware s') = TIMESLICE
   | [] \<Rightarrow> if length (kfree k) = MAXPROC then scheduler s = Some (HALT, s)
      else if sint (softBlockedCount s) > 0 then
        \<exists>s'. scheduler s = Some (WAIT, s') \<and> currentProcess s' = None \<and> path_end WAIT s' k \<and>
          STATUS (hardware s') = IECON OR IMON \<and> timer_out (hardware s') = 0xFFFFFFFF
      else scheduler s = Some (PANIC, s)"
proof (cases "kready k")
  case Nil
  then show ?thesis using scheduler_idle [OF k Nil] processCount_zero [OF k] k h
    by (simp add: path_end_def status_bits)
next
  case (Cons p rs)
  with scheduler_dispatch [OF k h Cons] show ?thesis by auto
qed

definition booting :: nuc_state where
  "booting = (initASL (initPcbs power_on))\<lparr>readyQueue := None\<rparr>"

lemma booting_kinv: "kinv booting kboot"
  unfolding booting_def by (rule kinv_boot [OF boot_power_on]) simp_all

theorem scheduler_policy_witness: "scheduler booting = Some (HALT, booting)"
  using scheduler_policy [OF booting_kinv] by (simp add: kboot_def)

text \<open>
  One time slice: the processes and the devices do what they do, then the processor local timer
  interrupts.  \<open>slices U n s s'\<close> is \<open>n\<close> of them.
\<close>

inductive slices :: "umps \<Rightarrow> nat \<Rightarrow> nuc_state \<Rightarrow> nuc_state \<Rightarrow> bool" for U where
  slices_0: "slices U 0 s s"
| slices_Suc: "slices U n s s1 \<Longrightarrow> outside s1 s2 \<Longrightarrow> handlePLTInterrupt U stop s2 = Some (out, s3) \<Longrightarrow> slices U (Suc n) s s3"

lemma outside_entry: "at_entry s k c \<Longrightarrow> outside s s' \<Longrightarrow> at_entry s' k c"
  by (auto simp: outside_def at_entry_def)

text \<open>
  C8: Round robin.  While processes only compute, they run in turn: after \<open>n\<close> time slices the
  running process and the ready queue are the ones at the start rotated by \<open>n\<close>, so the process at
  position \<open>i\<close> of the ready queue runs after \<open>i + 1\<close> slices, for every number of processes.
  In each slice the handler ends by dispatching, never by a panic.
\<close>

theorem round_robin:
  assumes "at_entry s k c" and "slices U n s s'" and "r = rotate n (c # kready k)"
  shows "at_entry s' (k\<lparr>kready := tl r, kheld := [hd r]\<rparr>) (hd r) \<and> currentProcess s' = Some (hd r) \<and>
    (\<forall>s2 stop. outside s' s2 \<longrightarrow> (\<exists>p s3. handlePLTInterrupt U stop s2 = Some (LDST (p_s (pcbs s3 p)), s3) \<and>
       currentProcess s3 = Some p \<and> timer_out (hardware s3) = TIMESLICE))"
proof -
  have "at_entry s' (k\<lparr>kready := tl (rotate n (c # kready k)), kheld := [hd (rotate n (c # kready k))]\<rparr>)
      (hd (rotate n (c # kready k)))"
    using assms(2,1)
  proof (induction arbitrary: k rule: slices.induct)
    case (slices_0 s)
    have "k\<lparr>kready := kready k, kheld := [c]\<rparr> = k" using at_entryD(3) [OF slices_0] by (cases k) simp
    with slices_0 show ?case by simp
  next
    case (slices_Suc n s s1 s2 stop out s3)
    let ?r = "rotate n (c # kready k)"
    note e2 = outside_entry [OF slices_Suc.IH [OF slices_Suc.prems] slices_Suc.hyps(2)]
    have r: "rotate (Suc n) (c # kready k) = tl ?r @ [hd ?r]"
      by (simp add: rotate1_hd_tl rotate_Suc)
    obtain p s' where "handlePLTInterrupt U stop s2 = Some (LDST (p_s (pcbs s' p)), s')"
      "path_end (LDST (p_s (pcbs s' p))) s' (k\<lparr>kready := tl (tl ?r @ [hd ?r]), kheld := [p]\<rparr>)"
      "p = hd (tl ?r @ [hd ?r])" "currentProcess s' = Some p"
      using handlePLTInterrupt_spec [OF e2, of U stop] by auto
    with slices_Suc.hyps(3) show ?case unfolding r by (simp add: at_entry_def path_end_def)
  qed
  then have e: "at_entry s' (k\<lparr>kready := tl r, kheld := [hd r]\<rparr>) (hd r)" by (simp add: assms(3))
  moreover have "\<exists>p s3. handlePLTInterrupt U stop s2 = Some (LDST (p_s (pcbs s3 p)), s3) \<and>
       currentProcess s3 = Some p \<and> timer_out (hardware s3) = TIMESLICE" if "outside s' s2" for s2 stop
    using handlePLTInterrupt_spec [OF outside_entry [OF e that], of U stop] by blast
  ultimately show ?thesis using at_entryD(2) by blast
qed

lemma outside_refl: "outside s s"
  unfolding outside_def by (intro exI [of _ "ints s"] exI [of _ "states s"] exI [of _ "supports s"] exI [of _ "hardware s"]) simp

theorem round_robin_witness:
  "\<exists>s'. slices umps3 1 (demo zero_state) s' \<and> currentProcess s' = Some 0"
proof -
  obtain p s' where "handlePLTInterrupt umps3 7 (demo zero_state) = Some (LDST (p_s (pcbs s' p)), s')"
    using handlePLTInterrupt_spec [OF demo_entry, of umps3 7] by blast
  then have s: "slices umps3 (Suc 0) (demo zero_state) s'" by (rule slices_Suc [OF slices_0 outside_refl])
  from round_robin [OF demo_entry s refl] s show ?thesis by auto
qed

subsection \<open>The life of a process\<close>

text \<open>
  C11: SYS1 on both branches.  When no process control block is free the caller gets \<open>-1\<close> and
  nothing else changes.  Otherwise the block that has been free longest becomes a process with the
  state and the support structure the caller gave and no time on its account; it goes to the end
  of the ready queue and of the caller's children, and the caller goes on with \<open>0\<close>.
  The process tree stays a forest; of the links of the others only the next sibling of the caller's youngest child, or the
  caller's first child, is written.
\<close>

theorem create_Process_effect:
  assumes e: "at_entry s k c" and f: "forest (pcbs s) (live k) C d" and a1: "reg_a1 U (p_s (pcbs s c)) \<noteq> 0"
  shows "case kfree k of
     [] \<Rightarrow> \<exists>s'. create_Process U s = Some (LDST (set_gpr (ix_v0 U) (- 1) (p_s (pcbs s c))), s') \<and>
        path_end (LDST (set_gpr (ix_v0 U) (- 1) (p_s (pcbs s c)))) s' k \<and> processCount s' = processCount s \<and>
        (\<forall>x. x \<noteq> c \<longrightarrow> pcbs s' x = pcbs s x)
   | p # fs \<Rightarrow> \<exists>s'. create_Process U s = Some (LDST (set_gpr (ix_v0 U) 0 (p_s (pcbs s c))), s') \<and>
        path_end (LDST (set_gpr (ix_v0 U) 0 (p_s (pcbs s c)))) s' (k\<lparr>kfree := fs, kready := kready k @ [p]\<rparr>) \<and>
        p_s (pcbs s' p) = copyState U (states s (reg_a1 U (p_s (pcbs s c)))) (p_s (pcbs s p)) \<and>
        p_supportStruct (pcbs s' p) = reg_a2 U (p_s (pcbs s c)) \<and> p_time (pcbs s' p) = 0 \<and>
        forest (pcbs s') (insert p (live k)) (C(c := C c @ [p], p := [])) (d(p := d c + 1)) \<and>
        adopted (pcbs s) (pcbs s') c (C c) p"
proof (cases "kfree k")
  case Nil
  obtain s' where s': "create_Process U s = Some (LDST (set_gpr (ix_v0 U) (- 1) (p_s (pcbs s c))), s')"
    "path_end (LDST (set_gpr (ix_v0 U) (- 1) (p_s (pcbs s c)))) s' k" "s' = s\<lparr>pcbs := pcbs s'\<rparr>"
    "\<forall>x. x \<noteq> c \<longrightarrow> pcbs s' x = pcbs s x" using create_Process_full [OF e Nil] by blast
  have "processCount s' = processCount s" using arg_cong [OF s'(3), of processCount] by simp
  with s' Nil show ?thesis by auto
next
  case (Cons p fs)
  have cL: "c \<in> live k" by (rule entry_live [OF e])
  have pL: "p \<notin> live k" using Cons by (simp add: live_def)
  have kd: "brood (pcbs s) c (C c)" "p \<notin> set (C c)"
    using forestD(2) [OF f cL] forestD(3) [OF f cL, of p] pL by auto
  obtain s' where s': "create_Process U s = Some (LDST (set_gpr (ix_v0 U) 0 (p_s (pcbs s c))), s')"
    "path_end (LDST (set_gpr (ix_v0 U) 0 (p_s (pcbs s c)))) s' (k\<lparr>kfree := fs, kready := kready k @ [p]\<rparr>)"
    "p_s (pcbs s' p) = copyState U (states s (reg_a1 U (p_s (pcbs s c)))) (p_s (pcbs s p))"
    "p_supportStruct (pcbs s' p) = reg_a2 U (p_s (pcbs s c))" "p_time (pcbs s' p) = 0"
    "p_child (pcbs s' p) = None" "adopted (pcbs s) (pcbs s') c (C c) p"
    using create_Process_alloc [OF e Cons a1 kd refl refl] by blast
  from forest_create [OF f cL pL s'(7,6)] s'(1-5,7) Cons show ?thesis by auto
qed

theorem create_Process_effect_witness:
  "\<exists>s'. create_Process umps3 (demo (args 1 64 0 0)) = Some (LDST (set_gpr 1 0 (args 1 64 0 0)), s') \<and>
     p_supportStruct (pcbs s' 1) = 0 \<and> p_time (pcbs s' 1) = 0"
proof -
  have f: "kfree kfirst = 1 # [2..<MAXPROC]" by (simp add: MAXPROC_def upt_rec)
  have v: "ix_v0 umps3 = 1" by (simp add: umps3_def)
  have "reg_a1 umps3 (p_s (pcbs (demo (args 1 64 0 0)) 0)) \<noteq> 0" by simp
  from create_Process_effect [OF demo_entry demo_forest this] show ?thesis
    unfolding f list.case by (simp add: v) blast
qed

text \<open>
  C12: SYS2 frees exactly the progeny.  The tree \<open>t\<close> of the caller's descendants, and no other block, goes to
  the free list, every child before its parent; its members disappear from the ready queue and from every semaphore's queue, in
  which the others keep their order; each semaphore gets back the units of those who waited
  on it; the recursion ends for every tree and the scheduler takes over: the first process that is ready and not
  in \<open>t\<close> runs, without one the processor halts, waits or panics (\<open>next_run\<close>).  The children of the others stay what they were, but
  for the caller's parent: it keeps the children besides the caller, or none when the caller was the first of them
  (\<open>detached\<close>).  The caller must be \<open>killable\<close>: it has no parent, or it has its back pointer, or no block names it as next sibling.
  This leaves out a child that has siblings before it and whose back pointer was cleared by the end of the sibling just before
  it; for that one \<open>outChild_middle_damage\<close> and theory \<open>Pcb_Family\<close> show what goes wrong.
  softBlockedCount is not adjusted for the members that waited for a device or the clock.
\<close>

theorem terminate_Process_progeny:
  assumes "at_entry s k c" and "forest (pcbs s) (live k) C d" and "killable (pcbs s) c"
  shows "\<exists>t out s' k'. root t = c \<and> grown C t \<and> terminate_Process (Some c) s = Some (out, s') \<and>
     path_end out s' k' \<and> forest (pcbs s') (live k') (detached c C) d \<and> kfree k' = kfree k @ nodes t \<and>
     (\<forall>a. kblocked k' a = filter (\<lambda>x. x \<notin> set (nodes t)) (kblocked k a)) \<and>
     kheld k' @ kready k' = filter (\<lambda>x. x \<notin> set (nodes t)) (kready k) \<and>
     (\<forall>a. ints s' a + of_nat (length (kblocked k' a)) = ints s a + of_nat (length (kblocked k a))) \<and>
     softBlockedCount s' = softBlockedCount s \<and>
     out = next_run (pcbs s) (filter (\<lambda>x. x \<notin> set (nodes t)) (kready k)) (kfree k @ nodes t) (softBlockedCount s)"
  using terminate_Process_spec [OF assms] by blast

text \<open>The first process has created process 1.\<close>

lemma demo_parent:
  obtains s k where "at_entry s k 0" "kfree k = [2..<MAXPROC]" "kready k = [1]"
    "forest (pcbs s) (live k) ((\<lambda>_. [])(0 := [1])) ((\<lambda>_. 0)(1 := 1))" "p_prnt (pcbs s 0) = None"
    "p_prnt (pcbs s 1) = Some 0"
proof -
  let ?k = "kfirst\<lparr>kfree := [2..<MAXPROC], kready := [1]\<rparr>" and ?a = "args 1 64 0 0"
  have f: "kfree kfirst = 1 # [2..<MAXPROC]" by (simp add: MAXPROC_def upt_rec)
  have "reg_a1 umps3 (p_s (pcbs (demo ?a) 0)) \<noteq> 0" by simp
  from create_Process_effect [OF demo_entry demo_forest this] obtain s where
    s: "path_end (LDST (set_gpr (ix_v0 umps3) 0 ?a)) s ?k"
    "forest (pcbs s) (insert 1 (live kfirst)) ((\<lambda>_. [])(0 := [1], 1 := [])) ((\<lambda>_. 0)(1 := 1))"
    "adopted (pcbs (demo ?a)) (pcbs s) 0 [] 1"
    unfolding f list.case by auto
  have "1 < MAXPROC" by (simp add: MAXPROC_def)
  then have L: "insert 1 (live kfirst) = live ?k" by (auto simp: live_def)
  have C: "(\<lambda>_ :: nat. [])(0 := [1], 1 := []) = (\<lambda>_. [])(0 := [1 :: nat])" by auto
  have e: "at_entry s ?k 0" using s(1) by (auto simp: path_end_def at_entry_def kfirst_def)
  have "p_prnt (pcbs s 0) = None" "p_prnt (pcbs s 1) = Some 0" using s(3) by (auto simp: adopted_def brood_def)
  with e s(2) show ?thesis unfolding L C by (intro that [of s ?k]) simp_all
qed

theorem terminate_Process_progeny_witness:
  "\<exists>s k out s' k'. at_entry s k 0 \<and> p_prnt (pcbs s 1) = Some 0 \<and> terminate_Process (Some 0) s = Some (out, s') \<and>
     path_end out s' k' \<and> kfree k' = [2..<MAXPROC] @ [1, 0]"
proof -
  obtain s k where s: "at_entry s k 0" "kfree k = [2..<MAXPROC]" "kready k = [1]"
    "forest (pcbs s) (live k) ((\<lambda>_. [])(0 := [1])) ((\<lambda>_. 0)(1 := 1))" "p_prnt (pcbs s 0) = None"
    "p_prnt (pcbs s 1) = Some 0" by (rule demo_parent)
  have "killable (pcbs s) 0" using s(5) by (simp add: killable_def)
  from terminate_Process_progeny [OF s(1,4) this] obtain t out s' k' where
    t: "root t = 0" "grown ((\<lambda>_. [])(0 := [1])) t" "terminate_Process (Some 0) s = Some (out, s')" "path_end out s' k'"
    "kfree k' = kfree k @ nodes t" by blast
  have only: "nodes v = concat (map nodes (subtrees v)) @ [root v]" "map root (subtrees v) = ((\<lambda>_. [])(0 := [1])) (root v)"
    "\<And>w. w \<in> set (subtrees v) \<Longrightarrow> grown ((\<lambda>_. [])(0 := [1])) w" if "grown ((\<lambda>_. [])(0 := [1])) v" for v
    using that by (cases v; simp)+
  have "map root (subtrees t) = [1]" using only(2) [OF t(2)] t(1) by simp
  then obtain u where u: "subtrees t = [u]" "root u = 1" by (cases "subtrees t") auto
  have "grown ((\<lambda>_. [])(0 := [1])) u" using only(3) [OF t(2), of u] u(1) by simp
  from only(1,2) [OF this] have "nodes u = [1]" using u(2) by simp
  then have "nodes t = [1, 0]" using only(1) [OF t(2)] u(1) t(1) by simp
  then have "kfree k' = [2..<MAXPROC] @ [1, 0]" using t(5) s(2) by simp
  with t(3,4) s(1,6) show ?thesis
    by (intro exI [of _ s] exI [of _ k] exI [of _ out] exI [of _ s'] exI [of _ k'] conjI)
qed

subsection \<open>Devices\<close>

text \<open>
  Every device has a semaphore of its own.  For the device lines 3 to 7 and the device
  numbers 0 to 7 the index is within the array and below the one of the clock, and two devices, or
  the two halves of a terminal, never share one; the reserved line 2 is the clock, any other
  line has none.
\<close>

theorem getSemIndex_injective:
  assumes U: "umps_devices U" and l: "3 \<le> line" "line \<le> 7" "3 \<le> line'" "line' \<le> 7" and no: "no < 8" "no' < 8"
    and r: "line = 7 \<or> r = 0" "line' = 7 \<or> r' = 0"
  shows "\<exists>i j. getSemIndex U line no r = Some i \<and> getSemIndex U line' no' r' = Some j \<and> i < DEVICE_NUM - 1 \<and> j < DEVICE_NUM - 1 \<and>
    (i = j \<longrightarrow> line = line' \<and> no = no' \<and> (r = 0 \<longleftrightarrow> r' = 0)) \<and> getSemIndex U INTERTIMEINT no r = Some (DEVICE_NUM - 1)"
proof -
  obtain i where i: "getSemIndex U line no r = Some i" "i < 48"
    "unat i = (unat line - 3 + (if line = 7 \<and> r = 0 then 1 else 0)) * 8 + unat no"
    using getSemIndex_device [OF U l(1,2) no(1)] by blast
  obtain j where j: "getSemIndex U line' no' r' = Some j" "j < 48"
    "unat j = (unat line' - 3 + (if line' = 7 \<and> r' = 0 then 1 else 0)) * 8 + unat no'"
    using getSemIndex_device [OF U l(3,4) no(2)] by blast
  have n: "unat no < 8" "unat no' < 8" using no by (simp_all add: word_less_nat_alt)
  have u: "3 \<le> unat line" "unat line \<le> 7" "3 \<le> unat line'" "unat line' \<le> 7" using l by (simp_all add: word_le_nat_alt)
  have w: "line = 7 \<longleftrightarrow> unat line = 7" "line' = 7 \<longleftrightarrow> unat line' = 7" by (auto dest: arg_cong [of _ _ unat] intro: word_unat_eq_iff [THEN iffD2])
  have "line = line' \<and> no = no' \<and> (r = 0 \<longleftrightarrow> r' = 0)" if "i = j"
  proof -
    let ?p = "unat line - 3 + (if line = 7 \<and> r = 0 then 1 else 0)" and ?q = "unat line' - 3 + (if line' = 7 \<and> r' = 0 then 1 else 0)"
    have eq: "?p * 8 + unat no = ?q * 8 + unat no'" using i(3) j(3) that by simp
    have split: "a * 8 + x = b * 8 + y \<Longrightarrow> x < 8 \<Longrightarrow> y < 8 \<Longrightarrow> a = b \<and> x = y" for a b x y :: nat by presburger
    have pq: "?p = ?q" and nn: "unat no = unat no'" using split [OF eq n] by simp_all
    have "unat line = unat line' \<and> (r = 0 \<longleftrightarrow> r' = 0)"
      using pq u w r by (auto split: if_splits)
    with nn show ?thesis by (simp add: word_unat_eq_iff)
  qed
  with i j show ?thesis by (auto simp: DEVICE_NUM_def getSemIndex_def)
qed

theorem getSemIndex_injective_witness:
  "getSemIndex umps3 7 2 1 \<noteq> getSemIndex umps3 7 2 0"
  using getSemIndex_injective [of umps3 7 7 2 2 1 0] umps3_doc by (auto simp: umps_doc_def)

text \<open>
  SYS5 always blocks.  The caller is charged its time and waits behind the others on the
  semaphore of its device, whose value drops by one and stays \<open>1\<close> minus the number of waiting
  processes; softBlockedCount counts it, and the head of the ready queue runs.
\<close>

theorem wait_For_IO_blocks:
  assumes U: "umps_doc U" and e: "at_entry s k c" and i: "i < 49"
    "getSemIndex U (reg_a1 U (p_s (pcbs s c))) (reg_a2 U (p_s (pcbs s c))) (reg_a3 U (p_s (pcbs s c))) = Some i"
    and a: "a = adr_deviceSemaphores U + 4 * i" and ok: "dev_sem_ok (ints s) k a"
  shows "\<exists>out s' k'. wait_For_IO U s = Some (out, s') \<and> path_end out s' k' \<and> dev_sem_ok (ints s') k' a \<and>
    kblocked k' = (kblocked k)(a := kblocked k a @ [c]) \<and> kready k = kheld k' @ kready k' \<and> kfree k' = kfree k \<and>
    softBlockedCount s' = softBlockedCount s + 1 \<and> (\<forall>b. b \<noteq> a \<longrightarrow> ints s' b = ints s b) \<and>
    p_time (pcbs s' c) = p_time (pcbs s c) + (tod_in (hardware s) (tod_ix (hardware s)) - startT s)"
proof -
  obtain out s' k' where w: "wait_For_IO U s = Some (out, s')" "path_end out s' k'" "kfree k' = kfree k"
    "ints s' = (ints s)(a := ints s a - 1)" "softBlockedCount s' = softBlockedCount s + 1"
    "kblocked k' = (kblocked k)(a := kblocked k a @ [c])" "kready k = kheld k' @ kready k'"
    "\<And>x. pcb_user (pcbs s' x) = pcb_user (charge s c x)"
    using wait_For_IO_spec [OF e i(2) devSem_doc(1,2) [OF U i(1)]] unfolding a by blast
  have "length (kblocked k a) \<le> 40" using blocked_le [OF at_entryD(1) [OF e], of a] by (simp add: MAXPROC_def)
  then have "sint (ints s a - 1) = sint (ints s a) - 1" using ok by (intro sint_dec) (simp add: dev_sem_ok_def)
  then have "dev_sem_ok (ints s') k' a" using ok w(4,6) by (simp add: dev_sem_ok_def)
  moreover have "p_time (pcbs s' c) = p_time (charge s c c)" by (rule pcb_user_eqD(6) [OF w(8)])
  ultimately show ?thesis using w(1-7) by (intro exI [of _ out] exI [of _ s'] exI [of _ k']) (simp add: charge_def)
qed

lemma demo_one [simp]: "at_entry ((demo st)\<lparr>ints := I\<rparr>) kfirst 0"
  by simp

lemma umps3_flash: "getSemIndex umps3 4 2 0 = Some 10"
  by (simp add: getSemIndex_def umps3_def INTERTIMEINT_def)

theorem wait_For_IO_blocks_witness:
  "\<exists>out s' k'. wait_For_IO umps3 ((demo (args 5 4 2 0))\<lparr>ints := (\<lambda>_. 1)\<rparr>) = Some (out, s') \<and>
     path_end out s' k' \<and> kblocked k' 0x20010028 = [0] \<and> softBlockedCount s' = 1"
proof -
  have "adr_deviceSemaphores umps3 = 0x20010000" by (simp add: umps3_def)
  then obtain out s' k' where "wait_For_IO umps3 ((demo (args 5 4 2 0))\<lparr>ints := (\<lambda>_. 1)\<rparr>) = Some (out, s')"
    "path_end out s' k'" "kblocked k' = (kblocked kfirst)(0x20010028 := [0])" "softBlockedCount s' = 1"
    using wait_For_IO_blocks [OF umps3_doc demo_one [where st = "args 5 4 2 0" and I = "\<lambda>_. 1"], of 10 "0x20010028"]
    by (simp add: umps3_flash dev_sem_ok_def) metis
  then show ?thesis by (intro exI [of _ out] exI [of _ s'] exI [of _ k']) simp
qed

lemma getSemIndex_recv:
  "(r = 0 \<longleftrightarrow> r' = 0) \<or> line \<noteq> TERMINT U \<Longrightarrow> getSemIndex U line no r = getSemIndex U line no r'"
  by (auto simp: getSemIndex_def)

text \<open>
  C13: An I/O request comes back.  SYS5 on an idle device blocks the caller on the semaphore of the device, takes one unit of it,
  counts the caller in softBlockedCount and dispatches the next process.  When no other exception is handled in between,
  whatever else is written meanwhile outside the nucleus, the interrupt of that device
  makes the caller ready behind the others, with the status of
  the device in \<open>v0\<close> and the rest of its state as it was; the states of all other processes, the process
  tree and the other queues are what they were, the semaphore of the device and softBlockedCount have
  their values from before the request, the device is acknowledged, and the process that was interrupted stays the current one.
  The time counters are not as before: the caller has been charged its time slice, and \<open>startT\<close> is taken from the processor's local timer.
\<close>

theorem io_roundtrip:
  assumes U: "umps_doc U" and e: "at_entry s k c" and l: "3 \<le> line" "line \<le> 7" and no: "no < 8"
    and regs: "reg_a1 U (p_s (pcbs s c)) = line" "reg_a2 U (p_s (pcbs s c)) = no"
    and i: "getSemIndex U line no (reg_a3 U (p_s (pcbs s c))) = Some i" and a: "a = adr_deviceSemaphores U + 4 * i"
    and idle: "ints s a = 1" "kblocked k a = []"
  shows "\<exists>out s' k'. wait_For_IO U s = Some (out, s') \<and> path_end out s' k' \<and> kfree k' = kfree k \<and>
    kready k = kheld k' @ kready k' \<and> kblocked k' = (kblocked k)(a := [c]) \<and> ints s' = (ints s)(a := 0) \<and>
    softBlockedCount s' = softBlockedCount s + 1 \<and>
    (\<forall>s1 d. outside s' s1 \<and> ints s1 a = 0 \<and> getDeviceNoFromLine U line s1 = no \<and>
       drop_bit (unat no) (dev_bitmap (hardware s1) line) AND 1 = 1 \<and> d = dev_regs (hardware s1) line no \<and>
       (line = 7 \<longrightarrow> (dev_recv U line d = 0 \<longleftrightarrow> reg_a3 U (p_s (pcbs s c)) = 0)) \<longrightarrow>
       (\<exists>s2. handleDeviceInterrupt U line s1 = Some (None, s2) \<and>
          kinv s2 (k'\<lparr>kready := kready k' @ [c], kblocked := kblocked k\<rparr>) \<and>
          (\<forall>x. p_s (pcbs s2 x) = (if x = c then set_gpr (ix_v0 U) (dev_status U line d) (p_s (pcbs s c)) else p_s (pcbs s x))) \<and>
          same_tree (pcbs s) (pcbs s2) \<and> ints s2 = (ints s1)(a := 1) \<and> softBlockedCount s2 = softBlockedCount s \<and>
          dev_regs (hardware s2) line no = dev_acked U line d \<and> currentProcess s2 = currentProcess s' \<and>
          supports s2 = supports s1 \<and> startT s2 = timer_in (hardware s1) (timer_ix (hardware s1))))"
proof -
  have UD: "umps_devices U" using U by (simp add: umps_doc_def)
  have i48: "i < 48" using getSemIndex_device [OF UD l no, of "reg_a3 U (p_s (pcbs s c))"] i by auto
  then have i49: "i < 49" by (simp add: word_less_nat_alt)
  obtain out s' k' where w: "wait_For_IO U s = Some (out, s')" "path_end out s' k'" "kfree k' = kfree k"
    "ints s' = (ints s)(a := ints s a - 1)" "softBlockedCount s' = softBlockedCount s + 1"
    "kblocked k' = (kblocked k)(a := kblocked k a @ [c])" "kready k = kheld k' @ kready k'"
    "\<And>x. pcb_user (pcbs s' x) = pcb_user (charge s c x)"
    using wait_For_IO_spec [OF e _ devSem_doc(1,2) [OF U i49]] i regs unfolding a by auto
  have k': "kinv s' k'" using w(2) by (simp add: path_end_def)
  have ps: "p_s (pcbs s' x) = p_s (pcbs s x)" for x using pcb_user_eqD(5) [OF w(8) [of x]] by simp
  have tree: "same_tree (pcbs s) (pcbs s')" by (rule same_tree_trans [OF same_tree_charge same_tree_user [OF w(8)]])
  have ret: "\<exists>s2. handleDeviceInterrupt U line s1 = Some (None, s2) \<and>
          kinv s2 (k'\<lparr>kready := kready k' @ [c], kblocked := kblocked k\<rparr>) \<and>
          (\<forall>x. p_s (pcbs s2 x) = (if x = c then set_gpr (ix_v0 U) (dev_status U line d) (p_s (pcbs s c)) else p_s (pcbs s x))) \<and>
          same_tree (pcbs s) (pcbs s2) \<and> ints s2 = (ints s1)(a := 1) \<and> softBlockedCount s2 = softBlockedCount s \<and>
          dev_regs (hardware s2) line no = dev_acked U line d \<and> currentProcess s2 = currentProcess s' \<and>
          supports s2 = supports s1 \<and> startT s2 = timer_in (hardware s1) (timer_ix (hardware s1))"
    if o: "outside s' s1" "ints s1 a = 0" "getDeviceNoFromLine U line s1 = no"
      "drop_bit (unat no) (dev_bitmap (hardware s1) line) AND 1 = 1" "d = dev_regs (hardware s1) line no"
      and r: "line = 7 \<longrightarrow> (dev_recv U line d = 0 \<longleftrightarrow> reg_a3 U (p_s (pcbs s c)) = 0)" for s1 d
  proof -
    have s1: "kinv s1 k'" "pcbs s1 = pcbs s'" "softBlockedCount s1 = softBlockedCount s'" "currentProcess s1 = currentProcess s'"
      using k' o(1) by (auto simp: outside_def)
    have "unat no < 8" using no by (simp add: word_less_nat_alt)
    from handleDeviceInterrupt_spec [OF s1(1) U l this o(4) o(3) [symmetric] o(5)] obtain j b s2 k2 where
      h: "getSemIndex U line no (dev_recv U line d) = Some j" "devSem U j = Some b"
      "handleDeviceInterrupt U line s1 = Some (None, s2)" "kinv s2 k2" "softBlockedCount s2 = softBlockedCount s1 - 1"
      "dev_regs (hardware s2) line no = dev_acked U line d" "woke U (dev_status U line d) b s1 k' s2 k2"
      "iframe s1 s2" "startT s2 = timer_in (hardware s1) (timer_ix (hardware s1))" by blast
    have "TERMINT U = 7" using UD by (simp add: umps_devices_def)
    then have "j = i" using h(1) i getSemIndex_recv [of "dev_recv U line d" "reg_a3 U (p_s (pcbs s c))" line U no] r by auto
    then have b: "b = a" using h(2) devSem_doc(1) [OF U i49] a by simp
    have bl: "kblocked k' a = [c]" using w(6) idle(2) by simp
    then have "sint (ints s1 a) \<le> 0 \<and> kblocked k' a \<noteq> []" using o(2) by simp
    with h(7) have W: "kready k2 = kready k' @ [c]" "kblocked k2 = (kblocked k')(a := [])" "ints s2 = (ints s1)(a := 1)"
      "kfree k2 = kfree k'" "kheld k2 = kheld k'" "p_s (pcbs s2 c) = set_gpr (ix_v0 U) (dev_status U line d) (p_s (pcbs s1 c))"
      "\<And>x. x \<noteq> c \<Longrightarrow> p_s (pcbs s2 x) = p_s (pcbs s1 x)"
      unfolding woke_def b bl by (auto simp: o(2))
    have "kblocked k2 = kblocked k" using W(2) w(6) idle(2) by auto
    then have "k2 = k'\<lparr>kready := kready k' @ [c], kblocked := kblocked k\<rparr>" using W(1,4,5) by (cases k2; cases k') simp
    moreover have "same_tree (pcbs s) (pcbs s2)" using same_tree_trans [OF tree] h(8) s1(2) by (simp add: iframe_def)
    ultimately show ?thesis using h(3-6,8,9) s1 ps w(5) W by (intro exI [of _ s2]) (simp add: iframe_def)
  qed
  have z: "ints s' = (ints s)(a := 0)" "kblocked k' = (kblocked k)(a := [c])" using w(4,6) idle by simp_all
  show ?thesis
  proof (rule exI [of _ out], rule exI [of _ s'], rule exI [of _ k'], intro conjI allI impI w(1-3,5,7) z, goal_cases)
    case (1 s1 d)
    then show ?case by (elim conjE) (rule ret)
  qed
qed

theorem io_roundtrip_witness:
  "\<exists>out s' s1 s2 k2. wait_For_IO umps3 ((demo (args 5 4 2 0))\<lparr>ints := (\<lambda>_. 1)\<rparr>) = Some (out, s') \<and>
     s1 = s'\<lparr>hardware := (hardware s')\<lparr>dev_bitmap := (\<lambda>_. 4)\<rparr>\<rparr> \<and>
     handleDeviceInterrupt umps3 4 s1 = Some (None, s2) \<and> kinv s2 k2 \<and> 0 \<in> set (kready k2)"
proof -
  let ?s = "(demo (args 5 4 2 0))\<lparr>ints := (\<lambda>_. 1)\<rparr>"
  note e = demo_one [where st = "args 5 4 2 0" and I = "\<lambda>_. 1"]
  have l: "3 \<le> (4::u32)" "(4::u32) \<le> 7" "(2::u32) < 8" by simp_all
  have r: "reg_a1 umps3 (p_s (pcbs ?s 0)) = 4" "reg_a2 umps3 (p_s (pcbs ?s 0)) = 2" by simp_all
  have i: "getSemIndex umps3 4 2 (reg_a3 umps3 (p_s (pcbs ?s 0))) = Some 10" by (simp add: umps3_flash)
  have q: "ints ?s a = 1" "kblocked kfirst a = []" for a by simp_all
  show ?thesis using io_roundtrip [OF umps3_doc e l r i refl q]
  proof (elim exE conjE, goal_cases)
    case (1 out s' k')
    let ?s1 = "s'\<lparr>hardware := (hardware s')\<lparr>dev_bitmap := (\<lambda>_. 4)\<rparr>\<rparr>"
    have "outside s' ?s1" unfolding outside_def
      by (intro exI [of _ "ints s'"] exI [of _ "states s'"] exI [of _ "supports s'"] exI [of _ "hardware ?s1"]) simp
    moreover have "getDeviceNoFromLine umps3 4 ?s1 = 2"
      by (simp add: getDeviceNoFromLine_def umps3_def upt_rec)
    ultimately obtain s2 where "handleDeviceInterrupt umps3 4 ?s1 = Some (None, s2)"
        "kinv s2 (k'\<lparr>kready := kready k' @ [0], kblocked := kblocked kfirst\<rparr>)"
      using 1(8) [rule_format, of ?s1 "dev_regs (hardware ?s1) 4 2"] 1(6) by auto
    with 1(1) show ?thesis
      by (intro exI [of _ out] exI [of _ s'] exI [of _ ?s1] exI [of _ s2] exI [of _ "k'\<lparr>kready := kready k' @ [0], kblocked := kblocked kfirst\<rparr>"]) simp
  qed
qed

subsection \<open>The clock\<close>

text \<open>
  C15: The interval timer wakes everybody.  All processes that wait for the clock become ready,
  in the order in which they came, behind the ready ones; none is left waiting, softBlockedCount
  drops by their number, the clock semaphore is zero again and the timer runs for another 100 ms;
  the loop ends for every number of waiting processes, and no state of a process changes.
\<close>

theorem interval_timer_wakes_all:
  assumes "kinv s k" and "umps_doc U"
  shows "\<exists>s' k'. handleIntervalTimerInterrupt U s = Some s' \<and> kinv s' k' \<and>
    kready k' = kready k @ kblocked k (clockSemaphore U) \<and> kblocked k' = (kblocked k)(clockSemaphore U := []) \<and>
    kfree k' = kfree k \<and> kheld k' = kheld k \<and> ints s' = (ints s)(clockSemaphore U := 0) \<and>
    softBlockedCount s' = softBlockedCount s - of_nat (length (kblocked k (clockSemaphore U))) \<and>
    ldit_out (hardware s') = 100000 \<and> (\<forall>x. p_s (pcbs s' x) = p_s (pcbs s x))"
proof -
  have "clockSemaphore U \<noteq> 0" "clockSemaphore U \<noteq> MAXADD" using clock_addr [OF assms(2)] by (simp_all add: sem_addr_def)
  from handleIntervalTimerInterrupt_spec [OF assms(1) this] obtain s' where s': "handleIntervalTimerInterrupt U s = Some s'"
    "kinv s' (k\<lparr>kready := kready k @ kblocked k (clockSemaphore U), kblocked := (kblocked k)(clockSemaphore U := [])\<rparr>)"
    "kframe (s\<lparr>softBlockedCount := softBlockedCount s - of_nat (length (kblocked k (clockSemaphore U))),
       ints := (ints s)(clockSemaphore U := 0), hardware := (hardware s)\<lparr>ldit_out := 100000\<rparr>\<rparr>) s' {}" by blast
  have "p_s (pcbs s' x) = p_s (pcbs s x)" for x using kframe_p_s [OF s'(3), of x] by simp
  with s'(1,2) kframe_globals [OF s'(3)] show ?thesis
    by (intro exI [of _ s'] exI [of _ "k\<lparr>kready := kready k @ kblocked k (clockSemaphore U),
      kblocked := (kblocked k)(clockSemaphore U := [])\<rparr>"]) simp
qed

theorem interval_timer_wakes_all_witness:
  "\<exists>out s k s' k'. wait_For_Clock umps3 (demo zero_state) = Some (out, s) \<and> kblocked k (clockSemaphore umps3) = [0] \<and>
     kinv s k \<and> handleIntervalTimerInterrupt umps3 s = Some s' \<and> kinv s' k' \<and> kready k' = [0]"
proof -
  obtain out s k where w: "wait_For_Clock umps3 (demo zero_state) = Some (out, s)" "path_end out s k"
    "kblocked k (clockSemaphore umps3) = [0]" "kready k = []"
    using wait_For_Clock_spec [OF demo_entry clock_addr [OF umps3_doc] refl, of zero_state] by auto
  have k: "kinv s k" using w(2) by (simp add: path_end_def)
  from interval_timer_wakes_all [OF k umps3_doc] obtain s' and k' :: kview
    where "handleIntervalTimerInterrupt umps3 s = Some s'" "kinv s' k'"
      "kready k' = kready k @ kblocked k (clockSemaphore umps3)" by blast
  with w k show ?thesis by (intro exI [of _ out] exI [of _ s] exI [of _ k] exI [of _ s'] exI [of _ k']) simp
qed

subsection \<open>Pass up or die\<close>

text \<open>
  C16: Traps, page faults and system calls made in user mode never reach the services of the
  nucleus.  A process with a support structure goes on in the context it registered for that kind
  of exception, and its support structure holds the state at the exception; nothing else changes.
  A process without one asks to be terminated with SYS2.
\<close>

theorem pass_up_or_die:
  assumes U: "umps_codes U" "umps_regs U" and e: "at_entry s k c"
    and x: "exc_code U s \<in> {1, 2, 3} \<and> x = PGFAULTEXCEPT \<or> exc_code U s \<in> {4, 5, 6, 7, 9, 10, 11, 12} \<and> x = GENERALEXCEPT \<or>
      exc_code U s = 8 \<and> status (states s BIOSDATAPAGE) AND USERPON \<noteq> 0 \<and> x = GENERALEXCEPT"
    and a: "a = p_supportStruct (pcbs s c)"
  shows "if a = 0 then handleExceptions U s = Some (SYSCALL TERMPROCESS 0 0 0, s)
    else let ctx = sup_exceptContext (supports s a) x in
      \<exists>st. handleExceptions U s = Some (LDCXT (stackPtr ctx) (ctx_status ctx) (pc ctx),
          s\<lparr>supports := (supports s)(a := (supports s a)\<lparr>sup_exceptState := (sup_exceptState (supports s a))(x := st)\<rparr>)\<rparr>) \<and>
        pc_epc st = pc_epc (states s BIOSDATAPAGE) \<and> cause st = cause (states s BIOSDATAPAGE) \<and>
        reg_a0 U st = reg_a0 U (states s BIOSDATAPAGE) \<and> reg_a1 U st = reg_a1 U (states s BIOSDATAPAGE)"
proof -
  have "handleExceptions U s = passupOrDie U x s"
    using x U(1) by (auto simp: handleExceptions_def exc_code_def Let_def umps_codes_def TLBExceptionHandler_def
        handleNucleousSystemcalls_user)
  moreover have "let st = copyState U (states s BIOSDATAPAGE) d in
     pc_epc st = pc_epc (states s BIOSDATAPAGE) \<and> cause st = cause (states s BIOSDATAPAGE) \<and>
     reg_a0 U st = reg_a0 U (states s BIOSDATAPAGE) \<and> reg_a1 U st = reg_a1 U (states s BIOSDATAPAGE)" for d
    using copyState_regs [OF U(2)] by (simp add: Let_def copyState_def)
  ultimately show ?thesis
    using passupOrDie_die [OF e, of U x] passupOrDie_up [OF e a _ refl, of U x] a unfolding Let_def
    by (cases "a = 0") (simp, metis)
qed

theorem pass_up_or_die_witness:
  "handleExceptions umps3 ((demo zero_state)\<lparr>hardware := (hardware (demo zero_state))\<lparr>CAUSE := 8\<rparr>\<rparr>) =
     Some (SYSCALL TERMPROCESS 0 0 0, (demo zero_state)\<lparr>hardware := (hardware (demo zero_state))\<lparr>CAUSE := 8\<rparr>\<rparr>)"
proof -
  let ?s = "(demo zero_state)\<lparr>hardware := (hardware (demo zero_state))\<lparr>CAUSE := 8\<rparr>\<rparr>"
  have e: "at_entry ?s kfirst 0" by simp
  have x: "exc_code umps3 ?s \<in> {1, 2, 3} \<and> PGFAULTEXCEPT = PGFAULTEXCEPT" by (simp add: exc_code_def umps3_def)
  have "umps_codes umps3" "umps_regs umps3" using umps3_doc by (simp_all add: umps_doc_def)
  from pass_up_or_die [OF this e disjI1 [OF x] refl] show ?thesis by simp
qed

end
