(* ===== verification/Supp_State.thy ===== *)
theory Supp_State
  imports Init "HOL-Library.Signed_Division"
begin

text \<open>
  The state of the support level: the pager's tables (\<open>src/vmSupport.c\<close>), the stack of
  free support structures (\<open>src/initSupp.c\<close>), the TLB index (\<open>src/sysSupport.c\<close>), the
  processor's TLB registers and the memory of the process that runs.

  The support level runs above the nucleus and calls it with \<open>SYSCALL\<close>.  While a call is
  being served other processes may run, so a call is a parameter of the model: a
  \<open>kernel\<close> gives, for a call and the state in which it is made, the value the caller finds
  in \<open>v0\<close> and the state it finds when it goes on; \<open>None\<close> when it never does.  Theorems name
  what they need of it.  A call of SYS2, or of SYS9 in kernel mode, never comes back (SYS2 ends
  in the scheduler, a number above 8 is passed up and starts the handler again), so it is an
  \<open>outcome\<close> that ends the path, as in the nucleus.

  The field \<open>bus\<close> records the accesses to the command and data registers of the devices and
  the system calls, in order; the code never reads it.
\<close>

type_synonym pte_ptr = "(u32 \<times> nat) option"

text \<open>
  The address of a page table entry: the support structure and the index in its
  \<open>sup_privatePgTbl\<close>.
\<close>

record swap_t =
  sw_asid :: u32
  sw_pageNo :: u32
  sw_pte :: pte_ptr

record cp0 =
  ENTRYHI :: u32
  ENTRYLO :: u32
  INDEX :: u32
  BADVADDR :: u32
  tlb :: "nat \<Rightarrow> u32 \<times> u32"

datatype io_event =
    Sys u32 u32 u32 u32
  | Data0 u32 u32 u32
  | Command u32 u32 u32
  | RecvCommand u32 u32 u32
  | TransmCommand u32 u32 u32

record sup_state =
  nuc :: nuc_state
  swapTable :: "nat \<Rightarrow> swap_t"
  swapFloor :: u32
  freeAsidBitmap :: u32
  frameIndexToReplace :: u32
  freeSupp_tp :: u32
  tlbIndex :: u32
  cp :: cp0
  umem :: "u32 \<Rightarrow> u8"
  bus :: "io_event list"

text \<open>
  What the support level uses of the uMPS3 headers, beside the nucleus' part: the TLB
  instructions, the macros that read the fields of \<open>EntryHi\<close> and \<open>EntryLo\<close>, and the addresses
  of the static objects and functions of the support level.
\<close>

record supp_umps =
  nucl :: umps
  TLBP :: "cp0 \<Rightarrow> cp0"
  TLBR :: "cp0 \<Rightarrow> cp0"
  TLBWI :: "cp0 \<Rightarrow> cp0"
  ENTRYHI_GET_VPN :: "u32 \<Rightarrow> u32"
  ENTRYHI_GET_ASID :: "u32 \<Rightarrow> u32"
  ENTRYLO_GET_PFN :: "u32 \<Rightarrow> u32"
  ENTRYLO_VALID :: u32
  ENTRYLO_VALID_BIT :: nat
  IL_FLASH :: u32
  N_DEV_PER_IL :: nat
  EOS :: u8
  adr_swapSem :: u32
  adr_masterSem :: u32
  adr_printerSemaphores :: u32
  adr_termWriteSemaphores :: u32
  adr_termReadSemaphores :: u32
  adr_uproc_state :: u32
  adr_uproc_supp :: "nat \<Rightarrow> u32"
  adr_handlePageFault :: u32
  adr_handleSupportLevelExceptions :: u32

subsection \<open>Access to the state\<close>

definition upd_cp :: "(cp0 \<Rightarrow> cp0) \<Rightarrow> sup_state \<Rightarrow> sup_state" where
  "upd_cp f s = s\<lparr>cp := f (cp s)\<rparr>"

definition setENTRYHI :: "u32 \<Rightarrow> sup_state \<Rightarrow> sup_state" where
  "setENTRYHI v = upd_cp (\<lambda>c. c\<lparr>ENTRYHI := v\<rparr>)"

definition setENTRYLO :: "u32 \<Rightarrow> sup_state \<Rightarrow> sup_state" where
  "setENTRYLO v = upd_cp (\<lambda>c. c\<lparr>ENTRYLO := v\<rparr>)"

definition setINDEX :: "u32 \<Rightarrow> sup_state \<Rightarrow> sup_state" where
  "setINDEX v = upd_cp (\<lambda>c. c\<lparr>INDEX := v\<rparr>)"

definition on_nuc :: "(nuc_state \<Rightarrow> nuc_state) \<Rightarrow> sup_state \<Rightarrow> sup_state" where
  "on_nuc f s = s\<lparr>nuc := f (nuc s)\<rparr>"

definition log :: "io_event \<Rightarrow> sup_state \<Rightarrow> sup_state" where
  "log e s = s\<lparr>bus := bus s @ [e]\<rparr>"

lemmas sup_defs = upd_cp_def setENTRYHI_def setENTRYLO_def setINDEX_def on_nuc_def log_def

definition get_supp :: "u32 \<Rightarrow> sup_state \<Rightarrow> support_t option" where
  "get_supp a s = load_supp a (nuc s)"

definition upd_supp :: "u32 \<Rightarrow> (support_t \<Rightarrow> support_t) \<Rightarrow> sup_state \<Rightarrow> sup_state option" where
  "upd_supp a f s =
     (if a = 0 then None
      else Some (s\<lparr>nuc := (nuc s)\<lparr>supports := (supports (nuc s))(a := f (supports (nuc s) a))\<rparr>\<rparr>))"

definition load_pte :: "pte_ptr \<Rightarrow> sup_state \<Rightarrow> pteEntry_t option" where
  "load_pte p s = do {
     (a, i) \<leftarrow> p;
     x \<leftarrow> get_supp a s;
     if i < USERPGTBLSIZE then Some (sup_privatePgTbl x i) else None
   }"

definition upd_pte :: "pte_ptr \<Rightarrow> (pteEntry_t \<Rightarrow> pteEntry_t) \<Rightarrow> sup_state \<Rightarrow> sup_state option" where
  "upd_pte p f s = do {
     (a, i) \<leftarrow> p;
     if i < USERPGTBLSIZE
     then upd_supp a (\<lambda>x. x\<lparr>sup_privatePgTbl := (sup_privatePgTbl x)(i := f (sup_privatePgTbl x i))\<rparr>) s
     else None
   }"

definition swap_at :: "u32 \<Rightarrow> sup_state \<Rightarrow> swap_t option" where
  "swap_at i s = (if unat i < POOLSIZE then Some (swapTable s (unat i)) else None)"

definition swap_put :: "u32 \<Rightarrow> swap_t \<Rightarrow> sup_state \<Rightarrow> sup_state option" where
  "swap_put i x s = (if unat i < POOLSIZE then Some (s\<lparr>swapTable := (swapTable s)(unat i := x)\<rparr>) else None)"

text \<open>An \<open>int\<close> of the support level, at its address.\<close>

definition put_int :: "u32 \<Rightarrow> u32 \<Rightarrow> sup_state \<Rightarrow> sup_state" where
  "put_int a v = on_nuc (\<lambda>n. n\<lparr>ints := (ints n)(a := v)\<rparr>)"

subsection \<open>Devices and system calls\<close>

definition dtp_data0_put :: "umps \<Rightarrow> u32 \<Rightarrow> u32 \<Rightarrow> u32 \<Rightarrow> sup_state \<Rightarrow> sup_state option" where
  "dtp_data0_put U line no v s = do {
     d \<leftarrow> dev_at U line no (nuc s);
     Some (log (Data0 line no v) (on_nuc (dev_put line no (d\<lparr>dev_dtp := (dev_dtp d)\<lparr>dtp_data0 := v\<rparr>\<rparr>)) s))
   }"

definition dtp_command_put :: "umps \<Rightarrow> u32 \<Rightarrow> u32 \<Rightarrow> u32 \<Rightarrow> sup_state \<Rightarrow> sup_state option" where
  "dtp_command_put U line no v s = do {
     d \<leftarrow> dev_at U line no (nuc s);
     Some (log (Command line no v) (on_nuc (dev_put line no (d\<lparr>dev_dtp := (dev_dtp d)\<lparr>dtp_command := v\<rparr>\<rparr>)) s))
   }"

definition recv_command_put :: "umps \<Rightarrow> u32 \<Rightarrow> u32 \<Rightarrow> u32 \<Rightarrow> sup_state \<Rightarrow> sup_state option" where
  "recv_command_put U line no v s = do {
     d \<leftarrow> dev_at U line no (nuc s);
     Some (log (RecvCommand line no v) (on_nuc (dev_put line no (d\<lparr>dev_term := (dev_term d)\<lparr>recv_command := v\<rparr>\<rparr>)) s))
   }"

definition transm_command_put :: "umps \<Rightarrow> u32 \<Rightarrow> u32 \<Rightarrow> u32 \<Rightarrow> sup_state \<Rightarrow> sup_state option" where
  "transm_command_put U line no v s = do {
     d \<leftarrow> dev_at U line no (nuc s);
     Some (log (TransmCommand line no v) (on_nuc (dev_put line no (d\<lparr>dev_term := (dev_term d)\<lparr>transm_command := v\<rparr>\<rparr>)) s))
   }"

lemmas dev_put_defs = dtp_data0_put_def dtp_command_put_def recv_command_put_def transm_command_put_def

type_synonym kernel = "u32 \<Rightarrow> u32 \<Rightarrow> u32 \<Rightarrow> u32 \<Rightarrow> sup_state \<Rightarrow> (u32 \<times> sup_state) option"

definition syscall :: "kernel \<Rightarrow> u32 \<Rightarrow> u32 \<Rightarrow> u32 \<Rightarrow> u32 \<Rightarrow> sup_state \<Rightarrow> (u32 \<times> sup_state) option" where
  "syscall K n a b c s = K n a b c (log (Sys n a b c) s)"

subsection \<open>What the uMPS3 documentation promises\<close>

definition tlb_match :: "u32 \<Rightarrow> u32 \<times> u32 \<Rightarrow> bool" where
  "tlb_match h e \<longleftrightarrow> h AND 0xFFFFF000 = fst e AND 0xFFFFF000 \<and>
     (snd e AND 0x100 \<noteq> 0 \<or> h AND 0xFC0 = fst e AND 0xFC0)"

definition index_slot :: "u32 \<Rightarrow> nat" where
  "index_slot ix = unat (drop_bit 8 ix AND 0x3F)"

text \<open>
  \<open>TLBP\<close> sets the high bit of \<open>Index\<close> when no entry matches \<open>EntryHi\<close> and otherwise the number
  of one that does; \<open>TLBR\<close> and \<open>TLBWI\<close> read and write the entry that \<open>Index\<close> names.
\<close>

definition tlbp_ok :: "cp0 \<Rightarrow> cp0 \<Rightarrow> bool" where
  "tlbp_ok c c' \<longleftrightarrow> c' = c\<lparr>INDEX := INDEX c'\<rparr> \<and>
     (if \<exists>i<16. tlb_match (ENTRYHI c) (tlb c i)
      then drop_bit 31 (INDEX c') = 0 \<and> index_slot (INDEX c') < 16 \<and> tlb_match (ENTRYHI c) (tlb c (index_slot (INDEX c')))
      else drop_bit 31 (INDEX c') = 1)"

definition tlb_doc :: "supp_umps \<Rightarrow> bool" where
  "tlb_doc V \<longleftrightarrow> (\<forall>c. tlbp_ok c (TLBP V c)) \<and>
     (\<forall>c. TLBR V c = c\<lparr>ENTRYHI := fst (tlb c (index_slot (INDEX c))), ENTRYLO := snd (tlb c (index_slot (INDEX c)))\<rparr>) \<and>
     (\<forall>c. TLBWI V c = c\<lparr>tlb := (tlb c)(index_slot (INDEX c) := (ENTRYHI c, ENTRYLO c))\<rparr>)"

definition supp_doc :: "supp_umps \<Rightarrow> bool" where
  "supp_doc V \<longleftrightarrow> umps_doc (nucl V) \<and>
     (\<forall>h. ENTRYHI_GET_VPN V h = drop_bit 12 (h AND 0x3FFFF000)) \<and>
     (\<forall>h. ENTRYHI_GET_ASID V h = drop_bit 6 (h AND 0xFC0)) \<and>
     (\<forall>l. ENTRYLO_GET_PFN V l = drop_bit 12 (l AND 0xFFFFF000)) \<and>
     ENTRYLO_VALID V = 0x200 \<and> ENTRYLO_VALID_BIT V = 9 \<and> IL_FLASH V = 4 \<and> N_DEV_PER_IL V = 8 \<and> EOS V = 0 \<and>
     adr_swapSem V \<noteq> 0 \<and> adr_masterSem V \<noteq> 0 \<and> adr_uproc_state V \<noteq> 0 \<and>
     inj_on (adr_uproc_supp V) {0..8} \<and> 0 \<notin> adr_uproc_supp V ` {0..8}"

text \<open>An instance, to evaluate concrete runs.\<close>

definition tlb_probe :: "cp0 \<Rightarrow> cp0" where
  "tlb_probe c = c\<lparr>INDEX := (case find (\<lambda>i. tlb_match (ENTRYHI c) (tlb c i)) [0..<16] of
     None \<Rightarrow> 0x80000000 | Some i \<Rightarrow> of_nat (i * 256))\<rparr>"

definition umps3s :: supp_umps where
  "umps3s = \<lparr>nucl = umps3, TLBP = tlb_probe,
     TLBR = (\<lambda>c. c\<lparr>ENTRYHI := fst (tlb c (index_slot (INDEX c))), ENTRYLO := snd (tlb c (index_slot (INDEX c)))\<rparr>),
     TLBWI = (\<lambda>c. c\<lparr>tlb := (tlb c)(index_slot (INDEX c) := (ENTRYHI c, ENTRYLO c))\<rparr>),
     ENTRYHI_GET_VPN = (\<lambda>h. drop_bit 12 (h AND 0x3FFFF000)),
     ENTRYHI_GET_ASID = (\<lambda>h. drop_bit 6 (h AND 0xFC0)),
     ENTRYLO_GET_PFN = (\<lambda>l. drop_bit 12 (l AND 0xFFFFF000)),
     ENTRYLO_VALID = 0x200, ENTRYLO_VALID_BIT = 9, IL_FLASH = 4, N_DEV_PER_IL = 8, EOS = 0,
     adr_swapSem = 0x20011000, adr_masterSem = 0x20011004, adr_printerSemaphores = 0x20011100,
     adr_termWriteSemaphores = 0x20011200, adr_termReadSemaphores = 0x20011300,
     adr_uproc_state = 0x20011400, adr_uproc_supp = (\<lambda>i. 0x20012000 + of_nat i * 0x1400),
     adr_handlePageFault = 0x20007000, adr_handleSupportLevelExceptions = 0x20008000\<rparr>"

lemma nucl_umps3s [simp]: "nucl umps3s = umps3"
  by (simp add: umps3s_def)

lemma slot_index: "i < 16 \<Longrightarrow> index_slot (of_nat (i * 256)) = i \<and> drop_bit 31 (of_nat (i * 256) :: u32) = 0"
proof -
  have "\<forall>i \<in> set [0..<16]. index_slot (of_nat (i * 256)) = i \<and> drop_bit 31 (of_nat (i * 256) :: u32) = 0"
    by (simp add: index_slot_def upt_rec)
  then show "i < 16 \<Longrightarrow> ?thesis" by simp
qed

lemma tlb_probe_ok: "tlbp_ok c (tlb_probe c)"
proof (cases "find (\<lambda>i. tlb_match (ENTRYHI c) (tlb c i)) [0..<16]")
  case None
  then have "\<not> (\<exists>i<16. tlb_match (ENTRYHI c) (tlb c i))" by (simp add: find_None_iff)
  then show ?thesis using None by (simp add: tlbp_ok_def tlb_probe_def)
next
  case (Some i)
  then have "i < 16" "tlb_match (ENTRYHI c) (tlb c i)" by (auto simp: find_Some_iff)
  with Some show ?thesis using slot_index [of i] by (auto simp: tlbp_ok_def tlb_probe_def)
qed

lemma umps3s_tlb: "tlb_doc umps3s"
  by (simp add: tlb_doc_def umps3s_def tlb_probe_ok)

lemma umps3s_doc: "supp_doc umps3s"
proof -
  have "\<forall>i \<in> set [0..<9]. unat (adr_uproc_supp umps3s i) = 0x20012000 + i * 0x1400"
    by (simp add: umps3s_def upt_rec)
  then have a: "unat (adr_uproc_supp umps3s i) = 0x20012000 + i * 0x1400" if "i \<le> 8" for i using that by simp
  have "inj_on (adr_uproc_supp umps3s) {0..8}" "0 \<notin> adr_uproc_supp umps3s ` {0..8}"
    by (auto intro!: inj_onI dest!: arg_cong [of _ _ unat] simp: a)
  then show ?thesis using umps3_doc by (simp add: supp_doc_def umps3s_def)
qed

end
