(* ===== verification/Init_Supp.thy ===== *)
theory Init_Supp
  imports Supp_State Interfaces
begin

text \<open>
  The stack of free support structures (\<open>src/initSupp.c\<close>).  \<open>supp_stack s xs\<close>: the free
  structures are \<open>xs\<close>, the one that \<open>alloc_supp\<close> hands out next first; \<open>prev_supp\<close> leads down
  the stack and \<open>next_supp\<close> up.
\<close>

definition alloc_supp :: "sup_state \<Rightarrow> (u32 \<times> sup_state) option" where
  "alloc_supp s =
     (if freeSupp_tp s = 0 then Some (0, s)
      else do {
        let supp = freeSupp_tp s;
        x \<leftarrow> get_supp supp s;
        s \<leftarrow> (if prev_supp x \<noteq> 0 then do {
                y \<leftarrow> get_supp (freeSupp_tp s) s;
                let s = s\<lparr>freeSupp_tp := prev_supp y\<rparr>;
                upd_supp (freeSupp_tp s) (\<lambda>x. x\<lparr>next_supp := 0\<rparr>) s
              } else Some (s\<lparr>freeSupp_tp := 0\<rparr>));
        s \<leftarrow> upd_supp supp (\<lambda>x. x\<lparr>next_supp := 0, prev_supp := 0\<rparr>) s;
        Some (supp, s)
      })"

definition dealloc_supp :: "u32 \<Rightarrow> sup_state \<Rightarrow> sup_state option" where
  "dealloc_supp supp s =
     (if supp = 0 then Some s
      else if freeSupp_tp s = 0 then do {
        let s = s\<lparr>freeSupp_tp := supp\<rparr>;
        upd_supp supp (\<lambda>x. x\<lparr>next_supp := 0, prev_supp := 0\<rparr>) s
      } else do {
        s \<leftarrow> upd_supp supp (\<lambda>x. x\<lparr>next_supp := 0\<rparr>) s;
        let top = freeSupp_tp s;
        s \<leftarrow> upd_supp supp (\<lambda>x. x\<lparr>prev_supp := top\<rparr>) s;
        s \<leftarrow> upd_supp (freeSupp_tp s) (\<lambda>x. x\<lparr>next_supp := supp\<rparr>) s;
        Some (s\<lparr>freeSupp_tp := supp\<rparr>)
      })"

subsection \<open>The stack\<close>

fun stack_at :: "(u32 \<Rightarrow> support_t) \<Rightarrow> u32 \<Rightarrow> u32 \<Rightarrow> u32 list \<Rightarrow> bool" where
  "stack_at h up p [] \<longleftrightarrow> p = 0"
| "stack_at h up p (x # xs) \<longleftrightarrow> p = x \<and> x \<noteq> 0 \<and> next_supp (h x) = up \<and> stack_at h x (prev_supp (h x)) xs"

definition supp_stack :: "sup_state \<Rightarrow> u32 list \<Rightarrow> bool" where
  "supp_stack s xs \<longleftrightarrow> stack_at (supports (nuc s)) 0 (freeSupp_tp s) xs \<and> distinct xs"

text \<open>Everything but the links of the structures in \<open>D\<close> and the top of the stack.\<close>

definition supp_user :: "support_t \<Rightarrow> support_t" where
  "supp_user x = x\<lparr>next_supp := 0, prev_supp := 0\<rparr>"

definition supp_frame :: "sup_state \<Rightarrow> sup_state \<Rightarrow> u32 set \<Rightarrow> bool" where
  "supp_frame s s' D \<longleftrightarrow>
     (\<exists>t h. s' = s\<lparr>freeSupp_tp := t, nuc := (nuc s)\<lparr>supports := h\<rparr>\<rparr> \<and>
       (\<forall>x. supp_user (h x) = supp_user (supports (nuc s) x)) \<and>
       (\<forall>x. x \<notin> D \<longrightarrow> h x = supports (nuc s) x))"

lemma stack_at_cong:
  "(\<And>x. x \<in> set xs \<Longrightarrow> next_supp (h' x) = next_supp (h x) \<and> prev_supp (h' x) = prev_supp (h x)) \<Longrightarrow>
   stack_at h' up p xs = stack_at h up p xs"
  by (induction xs arbitrary: up p) auto

lemma stack_at_nonzero: "stack_at h up p xs \<Longrightarrow> x \<in> set xs \<Longrightarrow> x \<noteq> 0"
  by (induction xs arbitrary: up p) auto

lemma stack_at_top:
  assumes "stack_at h up p (x # xs)" and "distinct (x # xs)"
    and "next_supp (h' x) = up'" "prev_supp (h' x) = prev_supp (h x)"
    and "\<And>y. y \<noteq> x \<Longrightarrow> h' y = h y"
  shows "stack_at h' up' p (x # xs)"
proof -
  have "y \<noteq> x" if "y \<in> set xs" for y using that assms(2) by auto
  then have "stack_at h' x (prev_supp (h x)) xs = stack_at h x (prev_supp (h x)) xs"
    using assms(5) by (intro stack_at_cong) simp
  with assms show ?thesis by simp
qed

lemma supp_frameI:
  assumes "\<And>x. supp_user (h x) = supp_user (supports (nuc s) x)" and "\<And>x. x \<notin> D \<Longrightarrow> h x = supports (nuc s) x"
  shows "supp_frame s (s\<lparr>nuc := (nuc s)\<lparr>supports := h\<rparr>, freeSupp_tp := t\<rparr>) D"
  unfolding supp_frame_def using assms by (intro exI [of _ t] exI [of _ h]) simp

lemma alloc_supp_none: "supp_stack s [] \<Longrightarrow> alloc_supp s = Some (0, s)"
  by (simp add: supp_stack_def alloc_supp_def)

lemma alloc_supp_some:
  assumes "supp_stack s (p # ps)"
  shows "\<exists>s'. alloc_supp s = Some (p, s') \<and> supp_stack s' ps \<and> supp_frame s s' (set (p # ps)) \<and>
    next_supp (supports (nuc s') p) = 0 \<and> prev_supp (supports (nuc s') p) = 0"
proof -
  have p: "freeSupp_tp s = p" "p \<noteq> 0" "stack_at (supports (nuc s)) p (prev_supp (supports (nuc s) p)) ps"
    "distinct (p # ps)" using assms by (auto simp: supp_stack_def)
  let ?h = "supports (nuc s)"
  show ?thesis
  proof (cases ps)
    case Nil
    let ?h1 = "?h(p := (?h p)\<lparr>next_supp := 0, prev_supp := 0\<rparr>)"
    let ?s1 = "s\<lparr>nuc := (nuc s)\<lparr>supports := ?h1\<rparr>, freeSupp_tp := 0\<rparr>"
    have "alloc_supp s = Some (p, ?s1)"
      using p Nil by (simp add: alloc_supp_def get_supp_def load_supp_def upd_supp_def)
    moreover have "supp_frame s ?s1 (set (p # ps))" by (rule supp_frameI) (simp_all add: supp_user_def)
    ultimately show ?thesis using Nil by (simp add: supp_stack_def)
  next
    case (Cons q qs)
    have q: "prev_supp (?h p) = q" "q \<noteq> 0" "q \<noteq> p" "p \<notin> set qs" "distinct (q # qs)" using p Cons by auto
    let ?hq = "?h(q := (?h q)\<lparr>next_supp := 0\<rparr>)"
    let ?h1 = "?hq(p := (?h p)\<lparr>next_supp := 0, prev_supp := 0\<rparr>)"
    let ?s1 = "s\<lparr>nuc := (nuc s)\<lparr>supports := ?h1\<rparr>, freeSupp_tp := q\<rparr>"
    have 0: "stack_at ?h p q (q # qs)" using p(3) Cons q by simp
    have "stack_at ?hq 0 q (q # qs)" by (rule stack_at_top [OF 0 q(5)]) simp_all
    moreover have "stack_at ?h1 0 q (q # qs) = stack_at ?hq 0 q (q # qs)"
      by (rule stack_at_cong) (use q in auto)
    ultimately have "supp_stack ?s1 ps" using Cons q(5) by (simp add: supp_stack_def)
    moreover have "alloc_supp s = Some (p, ?s1)"
      using p(1,2) q by (simp add: alloc_supp_def get_supp_def load_supp_def upd_supp_def)
    moreover have "supp_frame s ?s1 (set (p # ps))" by (rule supp_frameI) (simp_all add: supp_user_def Cons)
    ultimately show ?thesis by (intro exI [of _ ?s1]) simp
  qed
qed

lemma dealloc_supp_ok:
  assumes "supp_stack s ps" and "p \<notin> set ps" and "p \<noteq> 0"
  shows "\<exists>s'. dealloc_supp p s = Some s' \<and> supp_stack s' (p # ps) \<and> supp_frame s s' (set (p # ps))"
proof (cases ps)
  case Nil
  let ?h1 = "(supports (nuc s))(p := (supports (nuc s) p)\<lparr>next_supp := 0, prev_supp := 0\<rparr>)"
  let ?s1 = "s\<lparr>nuc := (nuc s)\<lparr>supports := ?h1\<rparr>, freeSupp_tp := p\<rparr>"
  have "dealloc_supp p s = Some ?s1" using assms Nil by (simp add: dealloc_supp_def upd_supp_def supp_stack_def)
  moreover have "supp_frame s ?s1 (set (p # ps))" by (rule supp_frameI) (simp_all add: supp_user_def)
  ultimately show ?thesis using assms(3) Nil by (simp add: supp_stack_def)
next
  case (Cons q qs)
  let ?h = "supports (nuc s)"
  have q: "freeSupp_tp s = q" "q \<noteq> 0" "q \<noteq> p" "distinct (q # qs)" "p \<notin> set qs"
    "stack_at ?h 0 q (q # qs)" using assms Cons by (auto simp: supp_stack_def)
  let ?h1 = "?h(q := (?h q)\<lparr>next_supp := p\<rparr>)"
  let ?h2 = "?h(p := (?h p)\<lparr>next_supp := 0, prev_supp := q\<rparr>, q := (?h q)\<lparr>next_supp := p\<rparr>)"
  let ?s1 = "s\<lparr>nuc := (nuc s)\<lparr>supports := ?h2\<rparr>, freeSupp_tp := p\<rparr>"
  have 1: "stack_at ?h1 p q (q # qs)" by (rule stack_at_top [OF q(6,4)]) simp_all
  have "stack_at ?h2 p q (q # qs) = stack_at ?h1 p q (q # qs)" by (rule stack_at_cong) (use q in auto)
  then have "stack_at ?h2 0 p (p # q # qs)" using assms(3) q 1 by simp
  then have "supp_stack ?s1 (p # ps)" using Cons q by (simp add: supp_stack_def)
  moreover have "dealloc_supp p s = Some ?s1"
    using q assms(3) by (simp add: dealloc_supp_def upd_supp_def)
  moreover have "supp_frame s ?s1 (set (p # ps))" by (rule supp_frameI) (simp_all add: supp_user_def Cons)
  ultimately show ?thesis by (intro exI [of _ ?s1]) simp
qed

subsection \<open>The pool\<close>

definition alloc_ptr :: "sup_state \<Rightarrow> (u32 option \<times> sup_state) option" where
  "alloc_ptr s = map_option (\<lambda>(p, s). (if p = 0 then None else Some p, s)) (alloc_supp s)"

interpretation supppool: resource_pool supp_stack alloc_ptr dealloc_supp "\<lambda>ps p. p # ps" "\<lambda>p. p \<noteq> 0"
proof unfold_locales
  fix s p ps assume "supp_stack s (p # ps)"
  moreover from this have "p \<noteq> 0" by (simp add: supp_stack_def)
  ultimately show "\<exists>s'. alloc_ptr s = Some (Some p, s') \<and> supp_stack s' ps"
    using alloc_supp_some [of s p ps] by (auto simp: alloc_ptr_def)
next
  fix s ps and p :: u32 assume "supp_stack s ps" "p \<notin> set ps" "p \<noteq> 0"
  from dealloc_supp_ok [OF this] show "\<exists>s'. dealloc_supp p s = Some s' \<and> supp_stack s' (p # ps)" by blast
next
  fix s ps and p :: u32 assume "supp_stack s ps" "p \<in> set ps"
  then show "p \<noteq> 0" unfolding supp_stack_def by (auto dest: stack_at_nonzero)
qed (simp_all add: alloc_ptr_def alloc_supp_none supp_stack_def)

text \<open>
  The support structures are a stack: the one that dealloc\_supp was given last is the one
  that alloc\_supp hands out next, with both links cleared; the stack below is as before, and
  except for the links no field of any support structure changes.  From then on the stack hands
  out every structure once, from the top, and then NULL.
\<close>

theorem supp_stack_lifo:
  assumes "supp_stack s ps" and "p \<notin> set ps" and "p \<noteq> 0"
  shows "\<exists>s1 s2 s3. dealloc_supp p s = Some s1 \<and> alloc_supp s1 = Some (p, s2) \<and> supp_stack s2 ps \<and>
    next_supp (supports (nuc s2) p) = 0 \<and> prev_supp (supports (nuc s2) p) = 0 \<and>
    (\<forall>x. supp_user (supports (nuc s2) x) = supp_user (supports (nuc s) x)) \<and>
    alloc_many alloc_ptr (length ps + n) s2 = Some (map Some ps @ replicate n None, s3)"
proof -
  obtain s1 where 1: "dealloc_supp p s = Some s1" "supp_stack s1 (p # ps)" "supp_frame s s1 (set (p # ps))"
    using dealloc_supp_ok [OF assms] by blast
  obtain s2 where 2: "alloc_supp s1 = Some (p, s2)" "supp_stack s2 ps" "supp_frame s1 s2 (set (p # ps))"
    "next_supp (supports (nuc s2) p) = 0" "prev_supp (supports (nuc s2) p) = 0"
    using alloc_supp_some [OF 1(2)] by blast
  have "supp_user (supports (nuc s2) x) = supp_user (supports (nuc s) x)" for x
    using 1(3) 2(3) by (auto simp: supp_frame_def)
  moreover obtain s3 where "alloc_many alloc_ptr (length ps + n) s2 = Some (map Some ps @ replicate n None, s3)"
    using supppool.drain [OF 2(2), of n] by blast
  ultimately show ?thesis using 1(1) 2 by blast
qed

definition supp_example :: sup_state where
  "supp_example = \<lparr>nuc = \<lparr>pcbs = (\<lambda>_. zero_pcb), pcbFree_h = None, processCount = 0, semd_table = (\<lambda>_. zero_semd),
       semdFree_h = None, semd_h = None, readyQueue = None, currentProcess = None, softBlockedCount = 0,
       startT = 0, stopT = 0, globalStartT = 0, mutex = 0, ints = (\<lambda>_. 0), states = (\<lambda>_. zero_state),
       supports = (\<lambda>_. zero_support),
       hardware = \<lparr>CAUSE = 0, STATUS = 0, tod_in = (\<lambda>n. of_nat n + 7), tod_ix = 0, timer_in = (\<lambda>n. 3000), timer_ix = 0,
         timer_out = 0, ldit_out = 0, timescale = 1, dev_bitmap = (\<lambda>_. 1),
         dev_regs = (\<lambda>_ _. \<lparr>dev_dtp = \<lparr>dtp_status = 1, dtp_command = 0, dtp_data0 = 0\<rparr>,
           dev_term = \<lparr>recv_status = 1, recv_command = 0, transm_status = 5, transm_command = 0\<rparr>\<rparr>),
         PASSUPVECTOR = \<lparr>tlb_refill_handler = 0, tlb_refill_stackPtr = 0, exception_handler = 0, exception_stackPtr = 0\<rparr>\<rparr>\<rparr>,
     swapTable = (\<lambda>_. \<lparr>sw_asid = 0, sw_pageNo = 0, sw_pte = None\<rparr>), swapFloor = 0, freeAsidBitmap = 255,
     frameIndexToReplace = 0, freeSupp_tp = 0, tlbIndex = 0,
     cp = \<lparr>ENTRYHI = 0, ENTRYLO = 0, INDEX = 0, BADVADDR = 0, tlb = (\<lambda>_. (0, 0))\<rparr>, umem = (\<lambda>_. 0), bus = []\<rparr>"

theorem supp_stack_lifo_witness:
  "\<exists>s1 s2. dealloc_supp 0x2000 supp_example = Some s1 \<and> alloc_supp s1 = Some (0x2000, s2)"
  using supp_stack_lifo [of supp_example "[]" "0x2000" 0] by (simp add: supp_stack_def supp_example_def) blast

end
