(* ===== verification/Vm_Support.thy ===== *)
theory Vm_Support
  imports Init_Supp
begin

text \<open>
  The pager (\<open>src/vmSupport.c\<close>) and the support level's exception handlers, with the
  TLB refill (\<open>src/sysSupport.c\<close>).

  A function that either ends the path or comes back to its caller gives \<open>Inl out\<close> or
  \<open>Inr v\<close> as its result.
\<close>

definition READBLK :: u32 where "READBLK = 2"
definition WRITEBLK :: u32 where "WRITEBLK = 3"

definition FLASHPOOLSTART :: u32 where "FLASHPOOLSTART = RAMSTART + OSFRAMES * PAGESIZE"
definition DISKPOOLSTART :: "umps \<Rightarrow> u32" where
  "DISKPOOLSTART U = FLASHPOOLSTART + of_nat (DEVPERINT U) * PAGESIZE"
definition FRAMEPOOLSTART :: "umps \<Rightarrow> u32" where
  "FRAMEPOOLSTART U = DISKPOOLSTART U + of_nat (DEVPERINT U) * PAGESIZE"

subsection \<open>Initialisation\<close>

definition initSwapTable :: "sup_state \<Rightarrow> sup_state" where
  "initSwapTable s =
     fold (\<lambda>i s. s\<lparr>swapTable := (swapTable s)(i := (swapTable s i)\<lparr>sw_asid := - 1\<rparr>)\<rparr>) [0..<POOLSIZE] s"

definition initSwapStructs :: "supp_umps \<Rightarrow> sup_state \<Rightarrow> sup_state" where
  "initSwapStructs V s = put_int (adr_swapSem V) 1 (initSwapTable s)"

fun freeAsid_loop :: "u32 \<Rightarrow> nat list \<Rightarrow> u32" where
  "freeAsid_loop bitmap [] = - 1"
| "freeAsid_loop bitmap (i # is) =
     (if drop_bit i bitmap AND 1 = ON then of_nat i else freeAsid_loop bitmap is)"

definition getFreeAsid :: "sup_state \<Rightarrow> u32" where
  "getFreeAsid s = freeAsid_loop (freeAsidBitmap s) [1..<9]"

definition getVPNAddress :: "u32 \<Rightarrow> u32" where
  "getVPNAddress index = (if index = 31 then 0xBFFFF else 0x80000 + index)"

definition init_pte :: "u32 \<Rightarrow> nat \<Rightarrow> pteEntry_t" where
  "init_pte asid i =
     (let vpn = getVPNAddress (of_nat i)
      in \<lparr>pte_entryHI = push_bit VPNSHIFT vpn OR push_bit ASIDSHIFT asid, pte_entryLO = DIRTYON\<rparr>)"

definition init_uproc_pagetable :: "u32 \<Rightarrow> sup_state \<Rightarrow> sup_state option" where
  "init_uproc_pagetable supp s =
     fold (\<lambda>i r. do {
         s \<leftarrow> r;
         x \<leftarrow> get_supp supp s;
         upd_pte (Some (supp, i)) (\<lambda>_. init_pte (sup_asid x) i) s
       }) [0..<USERPGTBLSIZE] (Some s)"

definition setSwapFloor :: "u32 \<Rightarrow> u32 \<Rightarrow> sup_state \<Rightarrow> sup_state" where
  "setSwapFloor data_mem_start data_mem_size s = s\<lparr>swapFloor := data_mem_start + data_mem_size\<rparr>"

definition frameAddrInPool :: "u32 \<Rightarrow> sup_state \<Rightarrow> u32" where
  "frameAddrInPool frameIndex s = swapFloor s + frameIndex * 4096"

subsection \<open>Frames and entries\<close>

definition rem_int :: "u32 \<Rightarrow> u32 \<Rightarrow> u32" where
  "rem_int a b = word_of_int (sint a smod sint b)"

fun free_frame_loop :: "(nat \<Rightarrow> swap_t) \<Rightarrow> nat list \<Rightarrow> nat option" where
  "free_frame_loop t [] = None"
| "free_frame_loop t (i # is) = (if sw_asid (t i) = - 1 then Some i else free_frame_loop t is)"

definition updateFrameIndexToReplace :: "sup_state \<Rightarrow> sup_state" where
  "updateFrameIndexToReplace s =
     (case free_frame_loop (swapTable s) [0..<POOLSIZE] of
        Some i \<Rightarrow> s\<lparr>frameIndexToReplace := of_nat i\<rparr>
      | None \<Rightarrow> s\<lparr>frameIndexToReplace := rem_int (frameIndexToReplace s + 1) (of_nat POOLSIZE)\<rparr>)"

definition frameIsOccupied :: "swap_t \<Rightarrow> bool" where
  "frameIsOccupied frame \<longleftrightarrow> sint (sw_asid frame) \<ge> 1 \<and> sint (sw_asid frame) \<le> 8"

definition markPTEntryNotValid :: "pte_ptr \<Rightarrow> sup_state \<Rightarrow> sup_state option" where
  "markPTEntryNotValid entry s = upd_pte entry (\<lambda>e. e\<lparr>pte_entryLO := pte_entryLO e AND NOT VALIDON\<rparr>) s"

definition markTLBEntryNotValid :: "supp_umps \<Rightarrow> pte_ptr \<Rightarrow> sup_state \<Rightarrow> sup_state option" where
  "markTLBEntryNotValid V entry s = do {
     e \<leftarrow> load_pte entry s;
     let s = setENTRYHI (pte_entryHI e) s;
     let s = upd_cp (TLBP V) s;
     let indexReg = INDEX (cp s);
     if drop_bit 31 indexReg = OFF then
       (let s = upd_cp (TLBR V) s;
            s = setENTRYHI (pte_entryHI e) s;
            entryLO = ENTRYLO (cp s);
            entryLO = entryLO AND NOT VALIDON;
            s = setENTRYLO entryLO s
        in Some (upd_cp (TLBWI V) s))
     else Some s
   }"

definition updateEntryInTLB :: "supp_umps \<Rightarrow> pte_ptr \<Rightarrow> sup_state \<Rightarrow> sup_state option" where
  "updateEntryInTLB V entry s = do {
     e \<leftarrow> load_pte entry s;
     let s = setENTRYHI (pte_entryHI e) s;
     let s = upd_cp (TLBP V) s;
     let indexReg = INDEX (cp s);
     if drop_bit 31 indexReg = OFF then
       (let s = setENTRYHI (pte_entryHI e) s;
            s = setENTRYLO (pte_entryLO e) s
        in Some (upd_cp (TLBWI V) s))
     else Some s
   }"

definition getPageNum :: "supp_umps \<Rightarrow> u32 \<Rightarrow> u32" where
  "getPageNum V entryHi =
     (let blockNum = ENTRYHI_GET_VPN V entryHi
      in if blockNum = LASTPAGEMASK then of_nat MAXPAGES - 1 else blockNum)"

definition PTEentryIsValid :: "supp_umps \<Rightarrow> pteEntry_t \<Rightarrow> u32" where
  "PTEentryIsValid V e = drop_bit (ENTRYLO_VALID_BIT V) (pte_entryLO e AND ENTRYLO_VALID V)"

definition updateSwapTableEntry :: "supp_umps \<Rightarrow> u32 \<Rightarrow> pte_ptr \<Rightarrow> sup_state \<Rightarrow> sup_state option" where
  "updateSwapTableEntry V frame pageToAdd s = do {
     e \<leftarrow> load_pte pageToAdd s;
     x \<leftarrow> swap_at frame s;
     swap_put frame (x\<lparr>sw_asid := ENTRYHI_GET_ASID V (pte_entryHI e), sw_pageNo := getPageNum V (pte_entryHI e),
       sw_pte := pageToAdd\<rparr>) s
   }"

definition markEntryPresentAtIndex :: "umps \<Rightarrow> pte_ptr \<Rightarrow> u32 \<Rightarrow> sup_state \<Rightarrow> sup_state option" where
  "markEntryPresentAtIndex U page newIndex s =
     (let frameAddr = FRAMEPOOLSTART U + frameIndexToReplace s * PAGESIZE
      in upd_pte page (\<lambda>e. e\<lparr>pte_entryLO := frameAddr OR VALIDON OR DIRTYON\<rparr>) s)"

subsection \<open>The backing store\<close>

definition writeFromPoolToDev :: "kernel \<Rightarrow> supp_umps \<Rightarrow> u32 \<Rightarrow> sup_state \<Rightarrow> sup_state option" where
  "writeFromPoolToDev K V frame s = do {
     x \<leftarrow> swap_at frame s;
     let devNo = sw_asid x - 1;
     let blockNum = sw_pageNo x;
     let s = on_nuc disable_interrupts s;
     e \<leftarrow> load_pte (sw_pte x) s;
     s \<leftarrow> dtp_data0_put (nucl V) (IL_FLASH V) devNo
            (FRAMEPOOLSTART (nucl V) + ENTRYLO_GET_PFN V (pte_entryLO e) * PAGESIZE) s;
     s \<leftarrow> dtp_command_put (nucl V) (IL_FLASH V) devNo (push_bit 8 blockNum OR WRITEBLK) s;
     (st, s) \<leftarrow> syscall K IOWAIT (FLASHINT (nucl V)) devNo 0 s;
     Some (on_nuc enable_interrupts s)
   }"

definition writeFromDevToPool :: "kernel \<Rightarrow> supp_umps \<Rightarrow> pte_ptr \<Rightarrow> sup_state \<Rightarrow> sup_state option" where
  "writeFromDevToPool K V page s = do {
     e \<leftarrow> load_pte page s;
     let devNo = ENTRYHI_GET_ASID V (pte_entryHI e) - 1;
     let blockNum = getPageNum V (pte_entryHI e);
     let s = on_nuc disable_interrupts s;
     s \<leftarrow> dtp_data0_put (nucl V) (IL_FLASH V) devNo
            (FRAMEPOOLSTART (nucl V) + frameIndexToReplace s * PAGESIZE) s;
     s \<leftarrow> dtp_command_put (nucl V) (IL_FLASH V) devNo (push_bit 8 blockNum OR READBLK) s;
     (st, s) \<leftarrow> syscall K IOWAIT (FLASHINT (nucl V)) devNo 0 s;
     Some (on_nuc enable_interrupts s)
   }"

subsection \<open>The page fault\<close>

definition markInvalidAndSave :: "kernel \<Rightarrow> supp_umps \<Rightarrow> u32 \<Rightarrow> sup_state \<Rightarrow> sup_state option" where
  "markInvalidAndSave K V frame s = do {
     let s = on_nuc disable_interrupts s;
     x \<leftarrow> swap_at frame s;
     s \<leftarrow> markPTEntryNotValid (sw_pte x) s;
     s \<leftarrow> markTLBEntryNotValid V (sw_pte x) s;
     let s = on_nuc enable_interrupts s;
     writeFromPoolToDev K V frame s
   }"

definition markValidAndUpdateTLB :: "supp_umps \<Rightarrow> pte_ptr \<Rightarrow> sup_state \<Rightarrow> sup_state option" where
  "markValidAndUpdateTLB V page s = do {
     let s = on_nuc disable_interrupts s;
     s \<leftarrow> markEntryPresentAtIndex (nucl V) page (frameIndexToReplace s) s;
     s \<leftarrow> updateEntryInTLB V page s;
     Some (on_nuc enable_interrupts s)
   }"

text \<open>\<open>find_page\<close> is the loop of \<open>getMissingPage\<close> and \<open>getMissingPageFromSupp\<close>.\<close>

fun find_page :: "supp_umps \<Rightarrow> support_t \<Rightarrow> u32 \<Rightarrow> nat list \<Rightarrow> nat option" where
  "find_page V x vpn [] = None"
| "find_page V x vpn (i # is) =
     (if ENTRYHI_GET_VPN V (pte_entryHI (sup_privatePgTbl x i)) = vpn then Some i else find_page V x vpn is)"

definition getMissingPageFromSupp :: "supp_umps \<Rightarrow> u32 \<Rightarrow> sup_state \<Rightarrow> (outcome + pte_ptr) option" where
  "getMissingPageFromSupp V supp s = do {
     x \<leftarrow> get_supp supp s;
     let saved_state = sup_exceptState x PGFAULTEXCEPT;
     let badVAddr = ENTRYHI_GET_VPN V (entry_hi saved_state);
     case find_page V x badVAddr [0..<MAXPAGES] of
       Some i \<Rightarrow> Some (Inr (Some (supp, i)))
     | None \<Rightarrow> Some (Inl (SYSCALL TERMPROCESS 0 0 0))
   }"

definition getMissingPage :: "supp_umps \<Rightarrow> sup_state \<Rightarrow> (outcome + pte_ptr) option" where
  "getMissingPage V s = do {
     let badVAddr = BADVADDR (cp s);
     p \<leftarrow> load (pcbs (nuc s)) (currentProcess (nuc s));
     x \<leftarrow> get_supp (p_supportStruct p) s;
     case find_page V x (ENTRYHI_GET_VPN V badVAddr) [0..<MAXPAGES] of
       Some i \<Rightarrow> Some (Inr (Some (p_supportStruct p, i)))
     | None \<Rightarrow> Some (Inl (SYSCALL TERMPROCESS 0 0 0))
   }"

definition handleTLBInvalid :: "kernel \<Rightarrow> supp_umps \<Rightarrow> u32 \<Rightarrow> sup_state \<Rightarrow> (outcome option \<times> sup_state) option" where
  "handleTLBInvalid K V supp s = do {
     m \<leftarrow> getMissingPageFromSupp V supp s;
     case m of
       Inl out \<Rightarrow> Some (Some out, s)
     | Inr missingPage \<Rightarrow> do {
         let s = updateFrameIndexToReplace s;
         let frameToReplace = frameIndexToReplace s;
         x \<leftarrow> swap_at frameToReplace s;
         s \<leftarrow> (if frameIsOccupied x then markInvalidAndSave K V frameToReplace s else Some s);
         s \<leftarrow> writeFromDevToPool K V missingPage s;
         s \<leftarrow> updateSwapTableEntry V frameToReplace missingPage s;
         s \<leftarrow> markValidAndUpdateTLB V missingPage s;
         Some (None, s)
       }
   }"

definition programTrapHandler :: "u32 \<Rightarrow> outcome" where
  "programTrapHandler supportStruct = SYSCALL TERMINATE 0 0 0"

definition handlePageFault :: "kernel \<Rightarrow> supp_umps \<Rightarrow> sup_state \<Rightarrow> (outcome \<times> sup_state) option" where
  "handlePageFault K V s = do {
     (supp, s) \<leftarrow> syscall K GETSUPPORTPTR 0 0 0 s;
     x \<leftarrow> get_supp supp s;
     let cau = cause (sup_exceptState x 0);
     if cau = EXC_MOD (nucl V) then Some (programTrapHandler supp, s)
     else do {
       (v, s) \<leftarrow> syscall K PASSEREN (adr_swapSem V) 0 0 s;
       (out, s) \<leftarrow> handleTLBInvalid K V supp s;
       case out of
         Some out \<Rightarrow> Some (out, s)
       | None \<Rightarrow> do {
           (v, s) \<leftarrow> syscall K VERHOGEN (adr_swapSem V) 0 0 s;
           x \<leftarrow> get_supp supp s;
           Some (LDST (sup_exceptState x 0), s)
         }
     }
   }"

text \<open>The loop over the pages of the process that leaves; it is not called by the code.\<close>

definition removePagesFromTLB :: "kernel \<Rightarrow> supp_umps \<Rightarrow> u32 \<Rightarrow> sup_state \<Rightarrow> sup_state option" where
  "removePagesFromTLB K V asid s = do {
     (supp, s) \<leftarrow> syscall K GETSUPPORTPTR 0 0 0 s;
     fold (\<lambda>i r. do {
         s \<leftarrow> r;
         e \<leftarrow> load_pte (Some (supp, i)) s;
         if PTEentryIsValid V e \<noteq> 0 then markTLBEntryNotValid V (Some (supp, i)) s else Some s
       }) [0..<MAXPAGES] (Some s)
   }"

subsection \<open>TLB refill\<close>

definition updateTLBIndex :: "sup_state \<Rightarrow> sup_state" where
  "updateTLBIndex s = s\<lparr>tlbIndex := (tlbIndex s + 1) mod TLBSIZE\<rparr>"

definition uTLB_RefillHandler :: "supp_umps \<Rightarrow> sup_state \<Rightarrow> (outcome \<times> sup_state) option" where
  "uTLB_RefillHandler V s = do {
     m \<leftarrow> getMissingPage V s;
     case m of
       Inl out \<Rightarrow> Some (out, s)
     | Inr pageToWrite \<Rightarrow> do {
         e \<leftarrow> load_pte pageToWrite s;
         let s = setENTRYHI (pte_entryHI e) s;
         let s = setENTRYLO (pte_entryLO e) s;
         let s = setINDEX (push_bit INDEXSHIFT (tlbIndex s)) s;
         let s = upd_cp (TLBWI V) s;
         let s = updateTLBIndex s;
         (out, n) \<leftarrow> loadProcess (currentProcess (nuc s)) (nuc s);
         Some (out, s\<lparr>nuc := n\<rparr>)
       }
   }"

end
