(* ===== verification/Supp_Syscalls.thy ===== *)
theory Supp_Syscalls
  imports Vm_Support
begin

text \<open>
  The system calls of the support level (\<open>src/supportSystemCalls.c\<close>), numbers 9 to 13,
  and their entry point (\<open>src/sysSupport.c\<close>).

  \<open>char\<close> is signed, as in the compiler's default for MIPS: a byte read as \<open>int\<close> or
  \<open>unsigned int\<close> is sign extended.  The three loops have no bound in the code, so they are
  partial functions: \<open>None\<close> is also a loop that does not end.
\<close>

definition PRINTCHR :: u32 where "PRINTCHR = 2"
definition RECVCHR :: u32 where "RECVCHR = 2"
definition RECVD :: u32 where "RECVD = 5"
definition TERMSTATMASK :: u32 where "TERMSTATMASK = 0xFF"
definition PRINTSTATMASK :: u32 where "PRINTSTATMASK = 0xF"
definition PRINTDEVREADY :: u32 where "PRINTDEVREADY = 1"

lemmas dev_consts = PRINTCHR_def RECVCHR_def RECVD_def TERMSTATMASK_def PRINTSTATMASK_def PRINTDEVREADY_def

definition newline :: u8 where "newline = 10"

definition put_char :: "u32 \<Rightarrow> u8 \<Rightarrow> sup_state \<Rightarrow> sup_state" where
  "put_char a c s = s\<lparr>umem := (umem s)(a := c)\<rparr>"

text \<open>\<open>return_to excState\<close>: the result goes to \<open>v0\<close> and the caller goes on after its call.\<close>

definition return_to :: "supp_umps \<Rightarrow> u32 \<Rightarrow> u32 \<Rightarrow> sup_state \<Rightarrow> (outcome \<times> sup_state) option" where
  "return_to V supp retValue s = do {
     s \<leftarrow> upd_supp supp (\<lambda>x. x\<lparr>sup_exceptState := (sup_exceptState x)
            (GENERALEXCEPT := set_gpr (ix_v0 (nucl V)) retValue (sup_exceptState x GENERALEXCEPT))\<rparr>) s;
     s \<leftarrow> upd_supp supp (\<lambda>x. x\<lparr>sup_exceptState := (sup_exceptState x)
            (GENERALEXCEPT := (sup_exceptState x GENERALEXCEPT)\<lparr>pc_epc := pc_epc (sup_exceptState x GENERALEXCEPT) + 4\<rparr>)\<rparr>) s;
     x \<leftarrow> get_supp supp s;
     Some (LDST (sup_exceptState x GENERALEXCEPT), s)
   }"

subsection \<open>SYS9 and SYS10\<close>

definition notifyTerminated :: "kernel \<Rightarrow> supp_umps \<Rightarrow> sup_state \<Rightarrow> sup_state option" where
  "notifyTerminated K V s = do {
     (v, s) \<leftarrow> syscall K VERHOGEN (adr_masterSem V) 0 0 s;
     Some s
   }"

definition terminate_support :: "kernel \<Rightarrow> supp_umps \<Rightarrow> u32 \<Rightarrow> sup_state \<Rightarrow> (outcome \<times> sup_state) option" where
  "terminate_support K V supp s = do {
     s \<leftarrow> dealloc_supp supp s;
     s \<leftarrow> notifyTerminated K V s;
     Some (SYSCALL TERMPROCESS 0 0 0, s)
   }"

definition get_TOD :: "supp_umps \<Rightarrow> u32 \<Rightarrow> sup_state \<Rightarrow> (outcome \<times> sup_state) option" where
  "get_TOD V supp s = do {
     let (stop, n) = read_tod (nuc s);
     let s = s\<lparr>nuc := n\<rparr>;
     s \<leftarrow> upd_supp supp (\<lambda>x. x\<lparr>sup_exceptState := (sup_exceptState x)
            (GENERALEXCEPT := set_gpr (ix_v0 (nucl V)) (globalStartT (nuc s) - stop) (sup_exceptState x GENERALEXCEPT))\<rparr>) s;
     x \<leftarrow> get_supp supp s;
     Some (LDST (sup_exceptState x GENERALEXCEPT), s)
   }"

subsection \<open>SYS11: printing\<close>

definition bad_string :: "u32 \<Rightarrow> u32 \<Rightarrow> bool" where
  "bad_string virtAddr strlen \<longleftrightarrow> sint strlen \<le> 0 \<or> sint strlen > 128 \<or>
     virtAddr < UPROCSTARTADDR \<or> virtAddr + strlen \<ge> USERSTACKTOP"

partial_function (option) printer_loop ::
  "kernel \<Rightarrow> supp_umps \<Rightarrow> u32 \<Rightarrow> u32 \<Rightarrow> u32 \<Rightarrow> sup_state \<Rightarrow> (u32 \<times> sup_state) option" where
  "printer_loop K V asid virtAddr retValue s =
     (if umem s virtAddr = EOS V then Some (retValue, s)
      else do {
        let s = on_nuc disable_interrupts s;
        s \<leftarrow> dtp_data0_put (nucl V) (PRNTINT (nucl V)) (asid - 1) (scast (umem s virtAddr)) s;
        s \<leftarrow> dtp_command_put (nucl V) (PRNTINT (nucl V)) (asid - 1) PRINTCHR s;
        (stat, s) \<leftarrow> syscall K IOWAIT (PRNTINT (nucl V)) (asid - 1) 0 s;
        let s = on_nuc enable_interrupts s;
        if stat AND PRINTSTATMASK \<noteq> PRINTDEVREADY \<and> stat AND PRINTSTATMASK \<noteq> PRINTDEVREADY
        then printer_loop K V asid virtAddr (stat * - 1) (put_char virtAddr (EOS V) s)
        else printer_loop K V asid (virtAddr + 1) (retValue + 1) s
      })"

definition write_To_Printer :: "kernel \<Rightarrow> supp_umps \<Rightarrow> u32 \<Rightarrow> sup_state \<Rightarrow> (outcome \<times> sup_state) option" where
  "write_To_Printer K V supp s = do {
     x \<leftarrow> get_supp supp s;
     let excState = sup_exceptState x GENERALEXCEPT;
     let virtAddr = reg_a1 (nucl V) excState;
     let strlen = reg_a2 (nucl V) excState;
     let retValue = 0;
     if bad_string virtAddr strlen then Some (SYSCALL TERMINATE 0 0 0, s)
     else do {
       let asid = sup_asid x;
       (v, s) \<leftarrow> syscall K PASSEREN (adr_printerSemaphores V + 4 * asid) 0 0 s;
       (retValue, s) \<leftarrow> printer_loop K V asid virtAddr retValue s;
       (v, s) \<leftarrow> syscall K VERHOGEN (adr_printerSemaphores V + 4 * asid) 0 0 s;
       return_to V supp retValue s
     }
   }"

subsection \<open>SYS12: writing to the terminal\<close>

partial_function (option) termWrite_loop ::
  "kernel \<Rightarrow> supp_umps \<Rightarrow> u32 \<Rightarrow> u32 \<Rightarrow> u32 \<Rightarrow> sup_state \<Rightarrow> (u32 \<times> sup_state) option" where
  "termWrite_loop K V asid virtAddr retValue s =
     (if umem s virtAddr = EOS V then Some (retValue, s)
      else do {
        let s = on_nuc disable_interrupts s;
        s \<leftarrow> transm_command_put (nucl V) (TERMINT (nucl V)) (asid - 1)
               (PRINTCHR OR push_bit BYTELENGTH (scast (umem s virtAddr))) s;
        (stat, s) \<leftarrow> syscall K IOWAIT (TERMINT (nucl V)) (asid - 1) 0 s;
        let s = on_nuc enable_interrupts s;
        if stat AND TERMSTATMASK \<noteq> RECVD
        then termWrite_loop K V asid virtAddr (stat * - 1) (put_char virtAddr (EOS V) s)
        else termWrite_loop K V asid (virtAddr + 1) (retValue + 1) s
      })"

definition write_To_Terminal :: "kernel \<Rightarrow> supp_umps \<Rightarrow> u32 \<Rightarrow> sup_state \<Rightarrow> (outcome \<times> sup_state) option" where
  "write_To_Terminal K V supp s = do {
     x \<leftarrow> get_supp supp s;
     let excState = sup_exceptState x GENERALEXCEPT;
     let virtAddr = reg_a1 (nucl V) excState;
     let strlen = reg_a2 (nucl V) excState;
     let retValue = 0;
     if bad_string virtAddr strlen then Some (SYSCALL TERMINATE 0 0 0, s)
     else do {
       let asid = sup_asid x;
       (v, s) \<leftarrow> syscall K PASSEREN (adr_termWriteSemaphores V + 4 * asid) 0 0 s;
       (retValue, s) \<leftarrow> termWrite_loop K V asid virtAddr retValue s;
       (v, s) \<leftarrow> syscall K VERHOGEN (adr_termWriteSemaphores V + 4 * asid) 0 0 s;
       return_to V supp retValue s
     }
   }"

subsection \<open>SYS13: reading from the terminal\<close>

partial_function (option) termRead_loop ::
  "kernel \<Rightarrow> supp_umps \<Rightarrow> u32 \<Rightarrow> u32 \<Rightarrow> u32 \<Rightarrow> u32 \<Rightarrow> u8 \<Rightarrow> sup_state \<Rightarrow> (u32 \<times> sup_state) option" where
  "termRead_loop K V asid virtAddr retValue stat rcvd s =
     (if rcvd \<noteq> newline \<and> (stat AND TERMSTATMASK = READY (nucl V) \<or> stat AND TERMSTATMASK = 5) then do {
        let s = on_nuc disable_interrupts s;
        s \<leftarrow> recv_command_put (nucl V) (TERMINT (nucl V)) (asid - 1) RECVCHR s;
        (stat, s) \<leftarrow> syscall K IOWAIT (TERMINT (nucl V)) (asid - 1) 1 s;
        let s = on_nuc enable_interrupts s;
        let s = put_char virtAddr (ucast (drop_bit 8 stat)) s;
        let rcvd = umem s virtAddr;
        if stat AND TERMSTATMASK \<noteq> RECVD \<and> stat AND TERMSTATMASK \<noteq> READY (nucl V)
        then termRead_loop K V asid virtAddr (stat * - 1) stat rcvd (put_char virtAddr (EOS V) s)
        else termRead_loop K V asid (virtAddr + 1) (retValue + 1) stat rcvd s
      } else Some (retValue, s))"

definition read_From_Terminal :: "kernel \<Rightarrow> supp_umps \<Rightarrow> u32 \<Rightarrow> sup_state \<Rightarrow> (outcome \<times> sup_state) option" where
  "read_From_Terminal K V supp s = do {
     x \<leftarrow> get_supp supp s;
     let excState = sup_exceptState x GENERALEXCEPT;
     let virtAddr = reg_a1 (nucl V) excState;
     if virtAddr < UPROCSTARTADDR then Some (SYSCALL TERMINATE 0 0 0, s)
     else do {
       let asid = sup_asid x;
       let stat = READY (nucl V);
       let retValue = 0;
       let rcvd = 48;
       (v, s) \<leftarrow> syscall K PASSEREN (adr_termReadSemaphores V + 4 * asid) 0 0 s;
       (retValue, s) \<leftarrow> termRead_loop K V asid virtAddr retValue stat rcvd s;
       (v, s) \<leftarrow> syscall K VERHOGEN (adr_termReadSemaphores V + 4 * asid) 0 0 s;
       return_to V supp retValue s
     }
   }"

subsection \<open>The dispatchers\<close>

definition handleSupportSystemcalls :: "kernel \<Rightarrow> supp_umps \<Rightarrow> u32 \<Rightarrow> sup_state \<Rightarrow> (outcome \<times> sup_state) option" where
  "handleSupportSystemcalls K V supp s = do {
     x \<leftarrow> get_supp supp s;
     let excState = sup_exceptState x GENERALEXCEPT;
     let currentSyscall = reg_a0 (nucl V) excState;
     if currentSyscall = TERMINATE then terminate_support K V supp s
     else if currentSyscall = GET_TOD then get_TOD V supp s
     else if currentSyscall = WRITEPRINTER then write_To_Printer K V supp s
     else if currentSyscall = WRITETERMINAL then write_To_Terminal K V supp s
     else if currentSyscall = READTERMINAL then read_From_Terminal K V supp s
     else Some (RETURN, s)
   }"

definition handleSupportLevelExceptions :: "kernel \<Rightarrow> supp_umps \<Rightarrow> sup_state \<Rightarrow> (outcome \<times> sup_state) option" where
  "handleSupportLevelExceptions K V s = do {
     (supp, s) \<leftarrow> syscall K GETSUPPORTPTR 0 0 0 s;
     x \<leftarrow> get_supp supp s;
     let cau = cause (sup_exceptState x GENERALEXCEPT);
     if cau = EXC_MOD (nucl V) then Some (programTrapHandler supp, s)
     else handleSupportSystemcalls K V supp s
   }"

end
