(* ===== verification/P3_Test.thy ===== *)
theory P3_Test
  imports Supp_Syscalls
begin

text \<open>
  The first process, which starts the user processes and waits for them (\<open>src/p3test.c\<close>).
\<close>

definition initDevSemaphores :: "supp_umps \<Rightarrow> sup_state \<Rightarrow> sup_state" where
  "initDevSemaphores V s =
     (let s = fold (\<lambda>i. put_int (adr_deviceSemaphores (nucl V) + 4 * of_nat i) 1) [0..<unat DEVICE_NUM] s
      in fold (\<lambda>i s. put_int (adr_termReadSemaphores V + 4 * of_nat i) 1
           (put_int (adr_termWriteSemaphores V + 4 * of_nat i) 1
             (put_int (adr_printerSemaphores V + 4 * of_nat i) 1 s))) [1..<N_DEV_PER_IL V + 1] s)"

definition initSuppStack :: "supp_umps \<Rightarrow> sup_state \<Rightarrow> sup_state option" where
  "initSuppStack V s = fold (\<lambda>i r. do { s \<leftarrow> r; dealloc_supp (adr_uproc_supp V i) s }) [0..<UPROCMAX] (Some s)"

definition uproc_state_of :: "umps \<Rightarrow> u32 \<Rightarrow> state_t \<Rightarrow> state_t" where
  "uproc_state_of U asid st =
     (let st = st\<lparr>pc_epc := 0x800000B0\<rparr>;
          st = set_gpr (ix_t9 U) 0x800000B0 st;
          st = set_gpr (ix_sp U) 0xC0000000 st;
          st = st\<lparr>status := IECON OR IMON OR TEBITON\<rparr>
      in st\<lparr>entry_hi := push_bit ASIDSHIFT asid\<rparr>)"

definition init_uproc_state :: "supp_umps \<Rightarrow> u32 \<Rightarrow> sup_state \<Rightarrow> sup_state" where
  "init_uproc_state V asid =
     on_nuc (\<lambda>n. n\<lparr>states := (states n)(adr_uproc_state V := uproc_state_of (nucl V) asid (states n (adr_uproc_state V)))\<rparr>)"

definition uproc_contexts :: "supp_umps \<Rightarrow> support_t \<Rightarrow> support_t" where
  "uproc_contexts V x =
     (let c = sup_exceptContext x;
          c = c(PGFAULTEXCEPT := (c PGFAULTEXCEPT)\<lparr>pc := adr_handlePageFault V\<rparr>);
          c = c(GENERALEXCEPT := (c GENERALEXCEPT)\<lparr>pc := adr_handleSupportLevelExceptions V\<rparr>);
          c = c(PGFAULTEXCEPT := (c PGFAULTEXCEPT)\<lparr>ctx_status := TEBITON OR IECON\<rparr>);
          c = c(GENERALEXCEPT := (c GENERALEXCEPT)\<lparr>ctx_status := TEBITON OR IECON\<rparr>);
          c = c(PGFAULTEXCEPT := (c PGFAULTEXCEPT)\<lparr>stackPtr := RAMTOP (nucl V) - (sup_asid x * 2) * PAGESIZE\<rparr>);
          c = c(GENERALEXCEPT := (c GENERALEXCEPT)\<lparr>stackPtr := RAMTOP (nucl V) - (sup_asid x * 2 + 1) * PAGESIZE\<rparr>)
      in x\<lparr>sup_exceptContext := c\<rparr>)"

definition init_uproc_support :: "supp_umps \<Rightarrow> u32 \<Rightarrow> sup_state \<Rightarrow> sup_state option" where
  "init_uproc_support V supp s = do {
     s \<leftarrow> upd_supp supp (uproc_contexts V) s;
     init_uproc_pagetable supp s
   }"

definition initUProc :: "kernel \<Rightarrow> supp_umps \<Rightarrow> nat \<Rightarrow> sup_state \<Rightarrow> sup_state option" where
  "initUProc K V i s = do {
     (supp, s) \<leftarrow> alloc_supp s;
     s \<leftarrow> upd_supp supp (\<lambda>x. x\<lparr>sup_asid := of_nat i + 1\<rparr>) s;
     s \<leftarrow> init_uproc_support V supp s;
     x \<leftarrow> get_supp supp s;
     let s = init_uproc_state V (sup_asid x) s;
     (v, s) \<leftarrow> syscall K 1 (adr_uproc_state V) supp 0 s;
     Some s
   }"

definition initUProcs :: "kernel \<Rightarrow> supp_umps \<Rightarrow> sup_state \<Rightarrow> sup_state option" where
  "initUProcs K V s = fold (\<lambda>i r. do { s \<leftarrow> r; initUProc K V i s }) [0..<UPROCMAX] (Some s)"

definition waitForUprocs :: "kernel \<Rightarrow> supp_umps \<Rightarrow> sup_state \<Rightarrow> sup_state option" where
  "waitForUprocs K V s =
     fold (\<lambda>i r. do { s \<leftarrow> r; (v, s) \<leftarrow> syscall K PASSEREN (adr_masterSem V) 0 0 s; Some s }) [0..<UPROCMAX] (Some s)"

definition test_phase_3 :: "kernel \<Rightarrow> supp_umps \<Rightarrow> sup_state \<Rightarrow> (outcome \<times> sup_state) option" where
  "test_phase_3 K V s = do {
     let s = initSwapStructs V s;
     let s = initDevSemaphores V s;
     s \<leftarrow> initSuppStack V s;
     let s = put_int (adr_masterSem V) 0 s;
     s \<leftarrow> initUProcs K V s;
     s \<leftarrow> waitForUprocs K V s;
     Some (SYSCALL TERMPROCESS 0 0 0, s)
   }"

end
