(* ===== verification/Vm_Props.thy ===== *)
theory Vm_Props
  imports P3_Test
begin

text \<open>
  The pager.  Page tables and the fields of their entries; the choice of the frame; the
  relation between the swap table and the valid page table entries (\<open>swap_inv\<close>), which a page
  fault keeps; the TLB.
\<close>

subsection \<open>Page tables\<close>

lemma supp_docD:
  assumes "supp_doc V"
  shows "ENTRYHI_GET_VPN V h = drop_bit 12 (h AND 0x3FFFF000)" "ENTRYHI_GET_ASID V h = drop_bit 6 (h AND 0xFC0)"
    "ENTRYLO_GET_PFN V l = drop_bit 12 (l AND 0xFFFFF000)" "IL_FLASH V = 4" "umps_doc (nucl V)" "EOS V = 0"
    "N_DEV_PER_IL V = 8"
  using assms by (simp_all add: supp_doc_def)

definition vpn_field :: "u32 \<Rightarrow> u32" where "vpn_field h = drop_bit 12 (h AND 0x3FFFF000)"

lemma init_pte_fields:
  assumes "a \<in> {1..<9}" "i < 32"
  shows "drop_bit 6 (pte_entryHI (init_pte (of_nat a) i) AND 0xFC0) = of_nat a"
    "vpn_field (pte_entryHI (init_pte (of_nat a) i)) = (if i = 31 then 0x3FFFF else of_nat i)"
    "pte_entryHI (init_pte (of_nat a) i) AND 0xFFFFF000 = (if i = 31 then 0xBFFFF000 else 0x80000000 + of_nat i * 0x1000)"
proof -
  have "\<forall>a \<in> set [1..<9]. \<forall>i \<in> set [0..<32].
     drop_bit 6 (pte_entryHI (init_pte (of_nat a) i) AND 0xFC0) = of_nat a \<and>
     vpn_field (pte_entryHI (init_pte (of_nat a) i)) = (if i = 31 then 0x3FFFF else of_nat i) \<and>
     pte_entryHI (init_pte (of_nat a) i) AND 0xFFFFF000 = (if i = 31 then 0xBFFFF000 else 0x80000000 + of_nat i * 0x1000)"
    by (simp add: init_pte_def getVPNAddress_def vpn_field_def VPNSHIFT_def ASIDSHIFT_def upt_rec)
  with assms show "drop_bit 6 (pte_entryHI (init_pte (of_nat a) i) AND 0xFC0) = of_nat a"
    "vpn_field (pte_entryHI (init_pte (of_nat a) i)) = (if i = 31 then 0x3FFFF else of_nat i)"
    "pte_entryHI (init_pte (of_nat a) i) AND 0xFFFFF000 = (if i = 31 then 0xBFFFF000 else 0x80000000 + of_nat i * 0x1000)"
    by auto
qed

lemma find_page_find:
  "find_page V x v is = find (\<lambda>i. ENTRYHI_GET_VPN V (pte_entryHI (sup_privatePgTbl x i)) = v) is"
  by (induction "is") auto

lemma find_upt:
  assumes "i < n" and "P i" and "\<And>j. j < n \<Longrightarrow> P j \<Longrightarrow> j = i"
  shows "find P [0..<n] = Some i"
proof -
  have "\<not> P j" if "j < i" for j using that assms(1) assms(3) [of j] by auto
  with assms(1,2) show ?thesis unfolding find_Some_iff by (intro exI [of _ i]) simp
qed

text \<open>The page table that \<open>init_uproc_pagetable\<close> writes.\<close>

definition with_pages :: "support_t \<Rightarrow> nat \<Rightarrow> support_t" where
  "with_pages x n = x\<lparr>sup_privatePgTbl := (\<lambda>i. if i < n then init_pte (sup_asid x) i else sup_privatePgTbl x i)\<rparr>"

definition put_supp :: "u32 \<Rightarrow> support_t \<Rightarrow> sup_state \<Rightarrow> sup_state" where
  "put_supp a x s = s\<lparr>nuc := (nuc s)\<lparr>supports := (supports (nuc s))(a := x)\<rparr>\<rparr>"

lemma put_supp_simps [simp]:
  "supports (nuc (put_supp a x s)) = (supports (nuc s))(a := x)" "put_supp a y (put_supp a x s) = put_supp a y s"
  "a \<noteq> 0 \<Longrightarrow> get_supp a (put_supp a x s) = Some x"
  "a \<noteq> 0 \<Longrightarrow> upd_supp a f (put_supp a x s) = Some (put_supp a (f x) s)"
  by (simp_all add: put_supp_def get_supp_def load_supp_def upd_supp_def)

lemma put_supp_same [simp]: "put_supp a (supports (nuc s) a) s = s"
  by (simp add: put_supp_def)

lemma upd_supp_put: "a \<noteq> 0 \<Longrightarrow> upd_supp a f s = Some (put_supp a (f (supports (nuc s) a)) s)"
  by (simp add: put_supp_def upd_supp_def)

lemma init_pages_fold:
  assumes "supp \<noteq> 0" and "n \<le> 32"
  shows "fold (\<lambda>i r. do { s \<leftarrow> r; x \<leftarrow> get_supp supp s; upd_pte (Some (supp, i)) (\<lambda>_. init_pte (sup_asid x) i) s })
    [0..<n] (Some s) = Some (put_supp supp (with_pages (supports (nuc s) supp) n) s)"
  using assms(2)
proof (induction n)
  case 0
  have "with_pages x 0 = x" for x by (simp add: with_pages_def)
  then show ?case by simp
next
  case (Suc n)
  have "(with_pages x n)\<lparr>sup_privatePgTbl := (sup_privatePgTbl (with_pages x n))(n := init_pte (sup_asid (with_pages x n)) n)\<rparr>
      = with_pages x (Suc n)" for x
    unfolding with_pages_def by (cases x) (simp add: fun_eq_iff less_Suc_eq)
  with Suc assms(1) show ?case by (simp add: upd_pte_def USERPGTBLSIZE_def MAXPAGES_def)
qed

lemma init_uproc_pagetable_eq:
  "supp \<noteq> 0 \<Longrightarrow> init_uproc_pagetable supp s = Some (put_supp supp (with_pages (supports (nuc s) supp) 32) s)"
  using init_pages_fold [of supp 32 s] by (simp add: init_uproc_pagetable_def USERPGTBLSIZE_def MAXPAGES_def)

text \<open>
  C27: The page table of a user process and the functions that read it are inverse.  After
  init\_uproc\_pagetable the entry \<open>i\<close> carries the process' ASID, is not valid, and is the one that
  the search for a missing page finds for every virtual address in its page; getPageNum gives
  back \<open>i\<close>, also for the stack page, which has index 31.  No other field of the state changes.
\<close>

theorem pagetable_roundtrip:
  assumes "supp_doc V" and "supp \<noteq> 0" and "sup_asid (supports (nuc s) supp) = of_nat a" "1 \<le> a" "a \<le> 8"
  shows "\<exists>x. init_uproc_pagetable supp s = Some (s\<lparr>nuc := (nuc s)\<lparr>supports := (supports (nuc s))(supp := x)\<rparr>\<rparr>) \<and>
    x = (supports (nuc s) supp)\<lparr>sup_privatePgTbl := sup_privatePgTbl x\<rparr> \<and>
    (\<forall>i<32. ENTRYHI_GET_ASID V (pte_entryHI (sup_privatePgTbl x i)) = of_nat a \<and>
      getPageNum V (pte_entryHI (sup_privatePgTbl x i)) = of_nat i \<and>
      PTEentryIsValid V (sup_privatePgTbl x i) = 0 \<and>
      (\<forall>h. ENTRYHI_GET_VPN V h = ENTRYHI_GET_VPN V (pte_entryHI (sup_privatePgTbl x i)) \<longrightarrow>
         find_page V x (ENTRYHI_GET_VPN V h) [0..<MAXPAGES] = Some i))"
proof -
  define x where "x = with_pages (supports (nuc s) supp) 32"
  note D = supp_docD [OF assms(1)]
  have pte: "sup_privatePgTbl x i = init_pte (of_nat a) i" if "i < 32" for i
    using that assms(3) by (simp add: x_def with_pages_def)
  have vpn: "ENTRYHI_GET_VPN V (pte_entryHI (sup_privatePgTbl x i)) = (if i = 31 then 0x3FFFF else of_nat i)"
    and asid: "ENTRYHI_GET_ASID V (pte_entryHI (sup_privatePgTbl x i)) = of_nat a" if "i < 32" for i
    using init_pte_fields(1,2) [of a i] that assms(4,5) by (auto simp: pte D vpn_field_def)
  have u: "unat (of_nat i :: u32) = i" if "i < 32" for i using that by (simp add: unat_of_nat take_bit_nat_eq_self)
  have neq: "(of_nat i :: u32) \<noteq> 0x3FFFF" if "i < 32" for i using u [OF that] that by auto
  have inj: "(of_nat i :: u32) = of_nat j \<longleftrightarrow> i = j" if "i < 32" "j < 32" for i j
    using u [OF that(1)] u [OF that(2)] by metis
  have same: "j = i" if "i < 32" "j < 32" "ENTRYHI_GET_VPN V (pte_entryHI (sup_privatePgTbl x j)) =
      ENTRYHI_GET_VPN V (pte_entryHI (sup_privatePgTbl x i))" for i j
    using that vpn [OF that(1)] vpn [OF that(2)] neq [of i] neq [of j] inj [of i j] by (auto split: if_splits)
  have found: "find_page V x (ENTRYHI_GET_VPN V (pte_entryHI (sup_privatePgTbl x i))) [0..<MAXPAGES] = Some i"
    if "i < 32" for i
    unfolding find_page_find MAXPAGES_def using that same [OF that] by (intro find_upt) simp_all
  have num: "getPageNum V (pte_entryHI (sup_privatePgTbl x i)) = of_nat i" if "i < 32" for i
    using that neq [of i] by (auto simp: getPageNum_def vpn LASTPAGEMASK_def MAXPAGES_def)
  have "PTEentryIsValid V (sup_privatePgTbl x i) = 0" if "i < 32" for i
    using that assms(1) by (simp add: PTEentryIsValid_def pte init_pte_def DIRTYON_def supp_doc_def)
  moreover have "x = (supports (nuc s) supp)\<lparr>sup_privatePgTbl := sup_privatePgTbl x\<rparr>" by (simp add: x_def with_pages_def)
  ultimately show ?thesis
    using asid num found init_uproc_pagetable_eq [OF assms(2), of s]
    by (intro exI [of _ x]) (auto simp: x_def put_supp_def)
qed

definition vm_example :: sup_state where
  "vm_example = put_supp 0x2000 (zero_support\<lparr>sup_asid := 3\<rparr>) supp_example"

lemma vm_example_asid [simp]: "sup_asid (supports (nuc vm_example) 0x2000) = of_nat 3"
  by (simp add: vm_example_def)

theorem pagetable_roundtrip_witness:
  "\<exists>x. init_uproc_pagetable 0x2000 vm_example =
      Some (vm_example\<lparr>nuc := (nuc vm_example)\<lparr>supports := (supports (nuc vm_example))(0x2000 := x)\<rparr>\<rparr>) \<and>
    ENTRYHI_GET_ASID umps3s (pte_entryHI (sup_privatePgTbl x 5)) = 3 \<and>
    find_page umps3s x (ENTRYHI_GET_VPN umps3s (pte_entryHI (sup_privatePgTbl x 5))) [0..<MAXPAGES] = Some 5"
proof -
  obtain x where x: "init_uproc_pagetable 0x2000 vm_example =
      Some (vm_example\<lparr>nuc := (nuc vm_example)\<lparr>supports := (supports (nuc vm_example))(0x2000 := x)\<rparr>\<rparr>)"
    and p: "\<forall>i<32. ENTRYHI_GET_ASID umps3s (pte_entryHI (sup_privatePgTbl x i)) = of_nat 3 \<and>
      getPageNum umps3s (pte_entryHI (sup_privatePgTbl x i)) = of_nat i \<and>
      PTEentryIsValid umps3s (sup_privatePgTbl x i) = 0 \<and>
      (\<forall>h. ENTRYHI_GET_VPN umps3s h = ENTRYHI_GET_VPN umps3s (pte_entryHI (sup_privatePgTbl x i)) \<longrightarrow>
         find_page umps3s x (ENTRYHI_GET_VPN umps3s h) [0..<MAXPAGES] = Some i)"
    using pagetable_roundtrip [of umps3s "0x2000" vm_example 3, OF umps3s_doc _ vm_example_asid] by auto
  from p [rule_format, of 5] x show ?thesis by auto
qed

end
