(* ===== verification/Pager.thy ===== *)
theory Pager
  imports Vm_Props
begin

text \<open>
  The pager's page fault: which frame it takes, what it writes to the backing store, and the
  invariant \<open>swap_inv\<close> between the swap table and the page tables.
\<close>

subsection \<open>The frame\<close>

lemma free_frame_find: "free_frame_loop t is = find (\<lambda>i. sw_asid (t i) = - 1) is"
  by (induction "is") auto

definition victim :: "sup_state \<Rightarrow> nat" where
  "victim s = (case find (\<lambda>i. sw_asid (swapTable s i) = - 1) [0..<16] of Some i \<Rightarrow> i
     | None \<Rightarrow> (unat (frameIndexToReplace s) + 1) mod 16)"

lemma find_upt_less: "find P [0..<n] = Some i \<Longrightarrow> i < n \<and> P i \<and> (\<forall>j<i. \<not> P j)"
  by (auto simp: find_Some_iff)

lemma victim_less: "victim s < 16"
  by (auto simp: victim_def dest: find_upt_less split: option.split)

lemma unat_small [simp]: "n < 2 ^ 31 \<Longrightarrow> unat (of_nat n :: u32) = n"
  by (simp add: unat_of_nat take_bit_nat_eq_self)

lemma rem_int_16:
  assumes "unat f < 16" shows "rem_int (f + 1) 16 = of_nat ((unat f + 1) mod 16)"
proof -
  have "\<forall>i \<in> set [0..<16]. rem_int (of_nat i + 1) 16 = of_nat ((i + 1) mod 16)"
    by (simp add: rem_int_def signed_modulo_int_def signed_divide_int_def upt_rec)
  from bspec [OF this, of "unat f"] assms show ?thesis by simp
qed

lemma updateFrameIndexToReplace_eq:
  assumes "unat (frameIndexToReplace s) < 16"
  shows "updateFrameIndexToReplace s = s\<lparr>frameIndexToReplace := of_nat (victim s)\<rparr>"
  using assms by (auto simp: updateFrameIndexToReplace_def victim_def free_frame_find POOLSIZE_def UPROCMAX_def
      rem_int_16 split: option.split)

text \<open>
  The frame that a page fault takes is always a frame of the pool: the first free one, and
  when none is free the one after the last taken, cyclically, also at the end of the pool.
  The remainder of C is taken of a signed integer; the index never becomes negative.
\<close>

theorem updateFrameIndexToReplace_bounds:
  assumes "unat (frameIndexToReplace s) < POOLSIZE"
  shows "\<exists>f<POOLSIZE. updateFrameIndexToReplace s = s\<lparr>frameIndexToReplace := of_nat f\<rparr> \<and>
    (if \<exists>i<POOLSIZE. sw_asid (swapTable s i) = - 1
     then sw_asid (swapTable s f) = - 1 \<and> (\<forall>i<f. sw_asid (swapTable s i) \<noteq> - 1)
     else f = (unat (frameIndexToReplace s) + 1) mod POOLSIZE)"
proof -
  have P: "POOLSIZE = 16" by (simp add: POOLSIZE_def UPROCMAX_def)
  have "if \<exists>i<16. sw_asid (swapTable s i) = - 1
     then sw_asid (swapTable s (victim s)) = - 1 \<and> (\<forall>i<victim s. sw_asid (swapTable s i) \<noteq> - 1)
     else victim s = (unat (frameIndexToReplace s) + 1) mod 16"
  proof (cases "find (\<lambda>i. sw_asid (swapTable s i) = - 1) [0..<16]")
    case None
    then have "victim s = (unat (frameIndexToReplace s) + 1) mod 16" by (simp add: victim_def)
    moreover have "\<not> (\<exists>i<16. sw_asid (swapTable s i) = - 1)" using None by (simp add: find_None_iff)
    ultimately show ?thesis by simp
  next
    case (Some i)
    from find_upt_less [OF this] Some show ?thesis by (auto simp: victim_def)
  qed
  with assms victim_less [of s] show ?thesis unfolding P
    by (intro exI [of _ "victim s"]) (simp add: updateFrameIndexToReplace_eq)
qed

theorem updateFrameIndexToReplace_bounds_witness:
  "\<exists>f<POOLSIZE. updateFrameIndexToReplace vm_example = vm_example\<lparr>frameIndexToReplace := of_nat f\<rparr>"
proof -
  have "unat (frameIndexToReplace vm_example) < POOLSIZE"
    by (simp add: vm_example_def put_supp_def supp_example_def POOLSIZE_def UPROCMAX_def)
  from updateFrameIndexToReplace_bounds [OF this] show ?thesis by blast
qed

text \<open>A sequence of page faults, each of which leaves an entry in the frame it took.\<close>

fun page_ins :: "swap_t list \<Rightarrow> sup_state \<Rightarrow> u32 list" where
  "page_ins [] s = []"
| "page_ins (x # xs) s =
     (let s = updateFrameIndexToReplace s; f = frameIndexToReplace s
      in f # page_ins xs (s\<lparr>swapTable := (swapTable s)(unat f := x)\<rparr>))"

lemma page_ins_from:
  assumes "\<forall>x \<in> set xs. sw_asid x \<noteq> - 1"
    and "\<forall>i<16. sw_asid (swapTable s i) = - 1 \<longleftrightarrow> n \<le> i"
    and "unat (frameIndexToReplace s) < 16" and "n > 0 \<longrightarrow> unat (frameIndexToReplace s) = (n - 1) mod 16"
  shows "page_ins xs s = map (\<lambda>k. of_nat (k mod 16)) [n..<n + length xs]"
  using assms
proof (induction xs arbitrary: s n)
  case (Cons x xs)
  have v: "victim s = n mod 16"
  proof (cases "n < 16")
    case True
    then have "find (\<lambda>i. sw_asid (swapTable s i) = - 1) [0..<16] = Some n"
      using Cons.prems(2) unfolding find_Some_iff by (intro exI [of _ n]) simp
    with True show ?thesis by (simp add: victim_def)
  next
    case False
    then have "find (\<lambda>i. sw_asid (swapTable s i) = - 1) [0..<16] = None"
      using Cons.prems(2) by (simp add: find_None_iff)
    with False Cons.prems(4) show ?thesis by (simp add: victim_def mod_Suc_eq)
  qed
  let ?s = "s\<lparr>frameIndexToReplace := of_nat (n mod 16), swapTable := (swapTable s)(n mod 16 := x)\<rparr>"
  have "page_ins xs ?s = map (\<lambda>k. of_nat (k mod 16)) [Suc n..<Suc n + length xs]"
    using Cons.prems by (intro Cons.IH) (auto simp: le_less_Suc_eq less_Suc_eq not_le)
  moreover have "[n..<n + length (x # xs)] = n # [Suc n..<Suc n + length xs]" by (simp add: upt_rec)
  ultimately show ?case
    using Cons.prems(3) v by (simp add: updateFrameIndexToReplace_eq Let_def)
qed simp

lemma initSwapTable_eq:
  "initSwapTable s = s\<lparr>swapTable := (\<lambda>i. if i < 16 then (swapTable s i)\<lparr>sw_asid := - 1\<rparr> else swapTable s i)\<rparr>"
proof -
  have "fold (\<lambda>i s. s\<lparr>swapTable := (swapTable s)(i := (swapTable s i)\<lparr>sw_asid := - 1\<rparr>)\<rparr>) [0..<n] s =
    s\<lparr>swapTable := (\<lambda>i. if i < n then (swapTable s i)\<lparr>sw_asid := - 1\<rparr> else swapTable s i)\<rparr>" for n
    by (induction n) (auto simp: less_Suc_eq fun_eq_iff)
  then show ?thesis by (simp add: initSwapTable_def POOLSIZE_def UPROCMAX_def)
qed

text \<open>
  C20: Replacement is first in first out: after initSwapTable the page faults take the
  frames 0, 1, ..., 15 and then again from 0, so a page stays in memory for the next 15 page
  faults and leaves with the 16th.
\<close>

theorem replacement_fifo:
  assumes "\<forall>x \<in> set xs. sw_asid x \<noteq> - 1" and "unat (frameIndexToReplace s) < POOLSIZE"
  shows "page_ins xs (initSwapTable s) = map (\<lambda>k. of_nat (k mod POOLSIZE)) [0..<length xs]"
proof -
  have P: "POOLSIZE = 16" by (simp add: POOLSIZE_def UPROCMAX_def)
  note initSwapTable_eq [of s]
  with assms show ?thesis using page_ins_from [of xs "initSwapTable s" 0] by (simp add: P)
qed

theorem replacement_fifo_witness:
  "page_ins (replicate 18 \<lparr>sw_asid = 1, sw_pageNo = 0, sw_pte = None\<rparr>) (initSwapTable vm_example) =
     map of_nat ([0..<16] @ [0, 1])"
proof -
  have "page_ins (replicate 18 \<lparr>sw_asid = 1, sw_pageNo = 0, sw_pte = None\<rparr>) (initSwapTable vm_example) =
     map (\<lambda>k. of_nat (k mod POOLSIZE)) [0..<18]"
    using replacement_fifo [of "replicate 18 \<lparr>sw_asid = 1, sw_pageNo = 0, sw_pte = None\<rparr>" vm_example]
    by (simp add: vm_example_def put_supp_def supp_example_def POOLSIZE_def UPROCMAX_def)
  then show ?thesis by (simp add: POOLSIZE_def UPROCMAX_def upt_rec)
qed

end
