(* ===== verification/Page_Fault.thy ===== *)
theory Page_Fault
  imports Pager
begin

text \<open>
  The service of a page fault (\<open>handleTLBInvalid\<close>): the entries and the frame it changes, the
  commands it gives to the backing store, and the invariant \<open>swap_inv\<close>: the occupied frames and
  the valid entries of the processes' page tables correspond one to one.
\<close>

definition pte_at :: "sup_state \<Rightarrow> u32 \<Rightarrow> nat \<Rightarrow> pteEntry_t" where
  "pte_at s a i = sup_privatePgTbl (supports (nuc s) a) i"

definition exc_at :: "sup_state \<Rightarrow> u32 \<Rightarrow> nat \<Rightarrow> state_t" where
  "exc_at s = (\<lambda>a. sup_exceptState (supports (nuc s) a))"

definition put_pte :: "u32 \<Rightarrow> nat \<Rightarrow> pteEntry_t \<Rightarrow> sup_state \<Rightarrow> sup_state" where
  "put_pte a i e s = put_supp a ((supports (nuc s) a)\<lparr>sup_privatePgTbl :=
     (sup_privatePgTbl (supports (nuc s) a))(i := e)\<rparr>) s"

lemma pte_at_fun: "pte_at s = (\<lambda>a. sup_privatePgTbl (supports (nuc s) a))"
  by (simp add: pte_at_def fun_eq_iff)

lemma put_pte_simps [simp]:
  "pte_at (put_pte a i e s) b j = (if b = a \<and> j = i then e else pte_at s b j)"
  "swapTable (put_pte a i e s) = swapTable s" "frameIndexToReplace (put_pte a i e s) = frameIndexToReplace s"
  "bus (put_pte a i e s) = bus s" "hardware (nuc (put_pte a i e s)) = hardware (nuc s)"
  "exc_at (put_pte a i e s) = exc_at s"
  by (auto simp: pte_at_def put_pte_def put_supp_def exc_at_def)

lemma load_pte_at: "a \<noteq> 0 \<Longrightarrow> i < 32 \<Longrightarrow> load_pte (Some (a, i)) s = Some (pte_at s a i)"
  by (simp add: load_pte_def get_supp_def load_supp_def USERPGTBLSIZE_def MAXPAGES_def pte_at_def)

lemma upd_pte_at: "a \<noteq> 0 \<Longrightarrow> i < 32 \<Longrightarrow> upd_pte (Some (a, i)) f s = Some (put_pte a i (f (pte_at s a i)) s)"
  by (simp add: upd_pte_def upd_supp_put USERPGTBLSIZE_def MAXPAGES_def pte_at_def put_pte_def)

subsection \<open>What does not touch the tables\<close>

definition same_tables :: "sup_state \<Rightarrow> sup_state \<Rightarrow> bool" where
  "same_tables s s' \<longleftrightarrow> swapTable s' = swapTable s \<and> frameIndexToReplace s' = frameIndexToReplace s \<and>
     pte_at s' = pte_at s \<and> exc_at s' = exc_at s"

definition io_step :: "sup_state \<Rightarrow> sup_state \<Rightarrow> io_event list \<Rightarrow> bool" where
  "io_step s s' es \<longleftrightarrow> same_tables s s' \<and> bus s' = bus s @ es"

text \<open>
  What the pager needs of the kernel while it waits for the backing store: it goes on some time,
  and nobody writes the swap table and the page tables, which the swap semaphore protects.
\<close>

definition pager_kernel :: "kernel \<Rightarrow> bool" where
  "pager_kernel K \<longleftrightarrow> (\<forall>a b c s. \<exists>v s'. K IOWAIT a b c s = Some (v, s') \<and> same_tables s s' \<and> bus s' = bus s)"

lemma same_tables_nuc [simp]: "same_tables s (on_nuc disable_interrupts s)" "same_tables s (on_nuc enable_interrupts s)"
  by (auto simp: same_tables_def on_nuc_def pte_at_fun exc_at_def disable_interrupts_def enable_interrupts_def setSTATUS_def)

lemma pte_at_nuc [simp]: "pte_at (on_nuc disable_interrupts s) = pte_at s" "pte_at (on_nuc enable_interrupts s) = pte_at s"
  "exc_at (on_nuc disable_interrupts s) = exc_at s" "exc_at (on_nuc enable_interrupts s) = exc_at s"
  using same_tables_nuc [of s] by (auto simp: same_tables_def)

lemma bus_nuc [simp]: "bus (on_nuc f s) = bus s" "swapTable (on_nuc f s) = swapTable s"
  "frameIndexToReplace (on_nuc f s) = frameIndexToReplace s"
  by (simp_all add: on_nuc_def)

lemma io_step_trans: "io_step s s1 es \<Longrightarrow> io_step s1 s2 es' \<Longrightarrow> io_step s s2 (es @ es')"
  by (simp add: io_step_def same_tables_def)

lemma dtp_put_step:
  assumes "unat no < DEVPERINT U"
  shows "\<exists>s'. dtp_data0_put U line no v s = Some s' \<and> io_step s s' [Data0 line no v]"
    and "\<exists>s'. dtp_command_put U line no v s = Some s' \<and> io_step s s' [Command line no v]"
  using assms by (simp_all add: dtp_data0_put_def dtp_command_put_def dev_at_def sup_defs dev_put_def Let_def
      io_step_def same_tables_def pte_at_fun exc_at_def)

text \<open>A command to the flash device: data, command, wait.\<close>

definition flash_io :: "kernel \<Rightarrow> supp_umps \<Rightarrow> u32 \<Rightarrow> u32 \<Rightarrow> u32 \<Rightarrow> sup_state \<Rightarrow> sup_state option" where
  "flash_io K V no d c s = do {
     let s = on_nuc disable_interrupts s;
     s \<leftarrow> dtp_data0_put (nucl V) (IL_FLASH V) no d s;
     s \<leftarrow> dtp_command_put (nucl V) (IL_FLASH V) no c s;
     (st, s) \<leftarrow> syscall K IOWAIT (FLASHINT (nucl V)) no 0 s;
     Some (on_nuc enable_interrupts s)
   }"

lemma flash_io_step:
  assumes "supp_doc V" and "pager_kernel K" and "unat no < 8"
  shows "\<exists>s'. flash_io K V no d c s = Some s' \<and> io_step s s' [Data0 4 no d, Command 4 no c, Sys IOWAIT 4 no 0]"
proof -
  have U: "DEVPERINT (nucl V) = 8" "FLASHINT (nucl V) = 4" "IL_FLASH V = 4"
    using assms(1) by (auto simp: supp_doc_def umps_doc_defs)
  have no: "unat no < DEVPERINT (nucl V)" using assms(3) U by simp
  let ?s1 = "on_nuc disable_interrupts s"
  have 1: "io_step s ?s1 []" by (simp add: io_step_def)
  obtain s2 where s2: "dtp_data0_put (nucl V) (IL_FLASH V) no d ?s1 = Some s2" "io_step ?s1 s2 [Data0 4 no d]"
    using dtp_put_step(1) [OF no] U by metis
  obtain s3 where s3: "dtp_command_put (nucl V) (IL_FLASH V) no c s2 = Some s3" "io_step s2 s3 [Command 4 no c]"
    using dtp_put_step(2) [OF no] U by metis
  let ?l = "log (Sys IOWAIT (FLASHINT (nucl V)) no 0) s3"
  have l: "io_step s3 ?l [Sys IOWAIT 4 no 0]" using U by (simp add: io_step_def same_tables_def log_def pte_at_fun exc_at_def)
  obtain v s4 where s4: "K IOWAIT (FLASHINT (nucl V)) no 0 ?l = Some (v, s4)" "io_step ?l s4 []"
    using assms(2) unfolding pager_kernel_def io_step_def by fastforce
  have 5: "io_step s4 (on_nuc enable_interrupts s4) []" by (simp add: io_step_def)
  have "io_step s (on_nuc enable_interrupts s4) [Data0 4 no d, Command 4 no c, Sys IOWAIT 4 no 0]"
    using io_step_trans [OF 1 io_step_trans [OF s2(2) io_step_trans [OF s3(2) io_step_trans [OF l io_step_trans [OF s4(2) 5]]]]]
    by simp
  moreover have "flash_io K V no d c s = Some (on_nuc enable_interrupts s4)"
    using s2(1) s3(1) s4(1) by (simp add: flash_io_def syscall_def Let_def)
  ultimately show ?thesis by blast
qed

lemma writeFromPoolToDev_flash:
  assumes "unat f < 16" "sw_pte (swapTable s (unat f)) = Some (a, i)" "a \<noteq> 0" "i < 32"
  shows "writeFromPoolToDev K V f s = flash_io K V (sw_asid (swapTable s (unat f)) - 1)
     (FRAMEPOOLSTART (nucl V) + ENTRYLO_GET_PFN V (pte_entryLO (pte_at s a i)) * PAGESIZE)
     (push_bit 8 (sw_pageNo (swapTable s (unat f))) OR WRITEBLK) s"
  using assms by (simp add: writeFromPoolToDev_def flash_io_def swap_at_def POOLSIZE_def UPROCMAX_def load_pte_at Let_def)

lemma writeFromDevToPool_flash:
  assumes "a \<noteq> 0" "i < 32"
  shows "writeFromDevToPool K V (Some (a, i)) s = flash_io K V (ENTRYHI_GET_ASID V (pte_entryHI (pte_at s a i)) - 1)
     (FRAMEPOOLSTART (nucl V) + frameIndexToReplace s * PAGESIZE)
     (push_bit 8 (getPageNum V (pte_entryHI (pte_at s a i))) OR READBLK) s"
  using assms by (simp add: writeFromDevToPool_def flash_io_def load_pte_at Let_def)

lemma tlb_writes:
  assumes "a \<noteq> 0" "i < 32"
  shows "\<exists>c. markTLBEntryNotValid V (Some (a, i)) s = Some (s\<lparr>cp := c\<rparr>)"
    and "\<exists>c. updateEntryInTLB V (Some (a, i)) s = Some (s\<lparr>cp := c\<rparr>)"
  using assms by (auto simp: markTLBEntryNotValid_def updateEntryInTLB_def load_pte_at sup_defs Let_def)

subsection \<open>The steps of the service\<close>

definition set_pte :: "(u32 \<Rightarrow> nat \<Rightarrow> pteEntry_t) \<Rightarrow> u32 \<Rightarrow> nat \<Rightarrow> pteEntry_t \<Rightarrow> u32 \<Rightarrow> nat \<Rightarrow> pteEntry_t" where
  "set_pte P a i e = P(a := (P a)(i := e))"

lemma set_pte_apply [simp]: "set_pte P a i e b j = (if b = a \<and> j = i then e else P b j)"
  by (simp add: set_pte_def)

lemma put_pte_fun: "pte_at (put_pte a i e s) = set_pte (pte_at s) a i e"
  by (simp add: fun_eq_iff)

lemma pte_at_cp [simp]: "pte_at (s\<lparr>cp := c\<rparr>) = pte_at s" "pte_at (s\<lparr>swapTable := t\<rparr>) = pte_at s"
  "pte_at (s\<lparr>frameIndexToReplace := f\<rparr>) = pte_at s"
  "exc_at (s\<lparr>cp := c\<rparr>) = exc_at s" "exc_at (s\<lparr>swapTable := t\<rparr>) = exc_at s"
  "exc_at (s\<lparr>frameIndexToReplace := f\<rparr>) = exc_at s"
  by (simp_all add: pte_at_fun exc_at_def)

definition frame_lo :: "umps \<Rightarrow> nat \<Rightarrow> u32" where
  "frame_lo U f = (FRAMEPOOLSTART U + of_nat f * PAGESIZE) OR VALIDON OR DIRTYON"

text \<open>The commands of the pager: \<open>swap_out\<close> as the code gives it, and \<open>swap_in\<close>.\<close>

definition flash_cmd :: "u32 \<Rightarrow> u32 \<Rightarrow> u32 \<Rightarrow> u32 \<Rightarrow> io_event list" where
  "flash_cmd no addr block op =
     [Data0 4 no addr, Command 4 no (push_bit 8 block OR op), Sys IOWAIT 4 no 0]"

lemma markInvalidAndSave_run:
  assumes V: "supp_doc V" and K: "pager_kernel K" and f: "f < 16"
    and x: "sw_pte (swapTable s f) = Some (a, i)" "a \<noteq> 0" "i < 32" "unat (sw_asid (swapTable s f) - 1) < 8"
  shows "\<exists>s'. markInvalidAndSave K V (of_nat f) s = Some s' \<and> swapTable s' = swapTable s \<and>
    frameIndexToReplace s' = frameIndexToReplace s \<and> exc_at s' = exc_at s \<and>
    pte_at s' = set_pte (pte_at s) a i ((pte_at s a i)\<lparr>pte_entryLO := pte_entryLO (pte_at s a i) AND NOT VALIDON\<rparr>) \<and>
    bus s' = bus s @ flash_cmd (sw_asid (swapTable s f) - 1)
      (FRAMEPOOLSTART (nucl V) + ENTRYLO_GET_PFN V (pte_entryLO (pte_at s a i) AND NOT VALIDON) * PAGESIZE)
      (sw_pageNo (swapTable s f)) WRITEBLK"
proof -
  let ?e = "(pte_at s a i)\<lparr>pte_entryLO := pte_entryLO (pte_at s a i) AND NOT VALIDON\<rparr>"
  let ?s1 = "put_pte a i ?e (on_nuc disable_interrupts s)"
  obtain c where c: "markTLBEntryNotValid V (Some (a, i)) ?s1 = Some (?s1\<lparr>cp := c\<rparr>)"
    using tlb_writes(1) [OF x(2,3)] by blast
  let ?s2 = "on_nuc enable_interrupts (?s1\<lparr>cp := c\<rparr>)"
  have s2: "swapTable ?s2 = swapTable s" "frameIndexToReplace ?s2 = frameIndexToReplace s" "bus ?s2 = bus s"
    "pte_at ?s2 = set_pte (pte_at s) a i ?e" "exc_at ?s2 = exc_at s" by (simp_all add: put_pte_fun)
  have u: "unat (of_nat f :: u32) = f" using f by simp
  obtain s' where "writeFromPoolToDev K V (of_nat f) ?s2 = Some s'" "io_step ?s2 s' (flash_cmd (sw_asid (swapTable s f) - 1)
      (FRAMEPOOLSTART (nucl V) + ENTRYLO_GET_PFN V (pte_entryLO ?e) * PAGESIZE) (sw_pageNo (swapTable s f)) WRITEBLK)"
    using flash_io_step [OF V K x(4)] writeFromPoolToDev_flash [of "of_nat f" ?s2 a i] f x s2 u
    by (simp add: flash_cmd_def) blast
  then show ?thesis
    using s2 x c f u by (auto simp: markInvalidAndSave_def swap_at_def POOLSIZE_def UPROCMAX_def markPTEntryNotValid_def
        upd_pte_at Let_def io_step_def same_tables_def)
qed

lemma markValidAndUpdateTLB_run:
  assumes "a \<noteq> 0" "i < 32"
  shows "\<exists>s'. markValidAndUpdateTLB V (Some (a, i)) s = Some s' \<and> swapTable s' = swapTable s \<and>
    frameIndexToReplace s' = frameIndexToReplace s \<and> bus s' = bus s \<and> exc_at s' = exc_at s \<and>
    pte_at s' = set_pte (pte_at s) a i ((pte_at s a i)\<lparr>pte_entryLO := frame_lo (nucl V) (unat (frameIndexToReplace s))\<rparr>)"
proof -
  let ?s1 = "put_pte a i ((pte_at s a i)\<lparr>pte_entryLO := frame_lo (nucl V) (unat (frameIndexToReplace s))\<rparr>)
     (on_nuc disable_interrupts s)"
  obtain c where c: "updateEntryInTLB V (Some (a, i)) ?s1 = Some (?s1\<lparr>cp := c\<rparr>)"
    using tlb_writes(2) [OF assms] by blast
  have "markEntryPresentAtIndex (nucl V) (Some (a, i)) (frameIndexToReplace (on_nuc disable_interrupts s))
      (on_nuc disable_interrupts s) = Some ?s1"
    using assms by (simp add: markEntryPresentAtIndex_def upd_pte_at frame_lo_def)
  then have "markValidAndUpdateTLB V (Some (a, i)) s = Some (on_nuc enable_interrupts (?s1\<lparr>cp := c\<rparr>))"
    using c by (simp add: markValidAndUpdateTLB_def Let_def)
  then show ?thesis by (simp add: put_pte_fun)
qed

subsection \<open>The invariant\<close>

definition pte_valid :: "pteEntry_t \<Rightarrow> bool" where
  "pte_valid e \<longleftrightarrow> pte_entryLO e AND VALIDON \<noteq> 0"

text \<open>Frame \<open>f\<close> holds the page of the entry \<open>i\<close> of the page table of \<open>a\<close>.\<close>

definition holds_page :: "supp_umps \<Rightarrow> sup_state \<Rightarrow> nat \<Rightarrow> u32 \<Rightarrow> nat \<Rightarrow> bool" where
  "holds_page V s f a i \<longleftrightarrow> sw_pte (swapTable s f) = Some (a, i) \<and>
     sw_asid (swapTable s f) = ENTRYHI_GET_ASID V (pte_entryHI (pte_at s a i)) \<and>
     sw_pageNo (swapTable s f) = getPageNum V (pte_entryHI (pte_at s a i)) \<and>
     pte_entryLO (pte_at s a i) = frame_lo (nucl V) f"

text \<open>\<open>P\<close> is the set of the support structures of the processes that use the pager.\<close>

definition swap_inv :: "supp_umps \<Rightarrow> u32 set \<Rightarrow> sup_state \<Rightarrow> bool" where
  "swap_inv V P s \<longleftrightarrow> 0 \<notin> P \<and> unat (frameIndexToReplace s) < 16 \<and>
     (\<forall>a\<in>P. \<forall>i<32. \<exists>n\<in>{1..8}. ENTRYHI_GET_ASID V (pte_entryHI (pte_at s a i)) = of_nat n) \<and>
     (\<forall>f<16. sw_asid (swapTable s f) = - 1 \<or> (\<exists>a\<in>P. \<exists>i<32. holds_page V s f a i)) \<and>
     (\<forall>a\<in>P. \<forall>i<32. pte_valid (pte_at s a i) \<longrightarrow> (\<exists>f<16. holds_page V s f a i))"

lemma frame_lo_facts:
  assumes "supp_doc V" and "f < 16"
  shows "frame_lo (nucl V) f = 0x20030600 + of_nat f * 0x1000" "frame_lo (nucl V) f AND VALIDON \<noteq> 0"
    "FRAMEPOOLSTART (nucl V) + of_nat f * PAGESIZE = 0x20030000 + of_nat f * 0x1000"
    "ENTRYLO_GET_PFN V (frame_lo (nucl V) f AND NOT VALIDON) * PAGESIZE = 0x20030000 + of_nat f * 0x1000"
proof -
  have D: "DEVPERINT (nucl V) = 8" using assms(1) by (simp add: supp_doc_def umps_doc_defs)
  have F: "FRAMEPOOLSTART (nucl V) = 0x20030000"
    by (simp add: FRAMEPOOLSTART_def DISKPOOLSTART_def FLASHPOOLSTART_def vm_consts D)
  have "\<forall>f \<in> set [0..<16]. (0x20030000 + of_nat f * 0x1000) OR VALIDON OR DIRTYON = (0x20030600 + of_nat f * 0x1000 :: u32)
    \<and> (0x20030600 + of_nat f * 0x1000 :: u32) AND VALIDON \<noteq> 0
    \<and> drop_bit 12 ((0x20030600 + of_nat f * 0x1000) AND NOT VALIDON AND 0xFFFFF000) * 0x1000 = (0x20030000 + of_nat f * 0x1000 :: u32)"
    by (simp add: VALIDON_def DIRTYON_def upt_rec)
  then show "frame_lo (nucl V) f = 0x20030600 + of_nat f * 0x1000" "frame_lo (nucl V) f AND VALIDON \<noteq> 0"
    "FRAMEPOOLSTART (nucl V) + of_nat f * PAGESIZE = 0x20030000 + of_nat f * 0x1000"
    "ENTRYLO_GET_PFN V (frame_lo (nucl V) f AND NOT VALIDON) * PAGESIZE = 0x20030000 + of_nat f * 0x1000"
    using assms(2) by (simp_all add: frame_lo_def F PAGESIZE_def supp_docD [OF assms(1)] and.assoc)
qed

lemma frame_lo_inj:
  assumes "supp_doc V" "f < 16" "g < 16" "frame_lo (nucl V) f = frame_lo (nucl V) g" shows "f = g"
proof -
  have u: "unat (of_nat f * 0x1000 :: u32) = f * 0x1000" if "f < 16" for f
    using unat_small [of "f * 0x1000"] that by simp
  have "(of_nat f * 0x1000 :: u32) = of_nat g * 0x1000"
    using assms(4) frame_lo_facts(1) [OF assms(1)] assms(2,3) by simp
  from arg_cong [OF this, of unat] show ?thesis using u assms(2,3) by simp
qed

lemma not_valid_off [simp]: "\<not> pte_valid (e\<lparr>pte_entryLO := v AND NOT VALIDON\<rparr>)"
  by (simp add: pte_valid_def and.assoc)

lemma asid_small:
  assumes "n \<in> {1..8}"
  shows "sint (of_nat n :: u32) = int n" "unat (of_nat n - 1 :: u32) < 8" "(of_nat n :: u32) \<noteq> - 1"
proof -
  have "\<forall>n \<in> set [1..<9]. sint (of_nat n :: u32) = int n \<and> unat (of_nat n - 1 :: u32) < 8 \<and> (of_nat n :: u32) \<noteq> - 1"
    by (simp add: upt_rec)
  with assms show "sint (of_nat n :: u32) = int n" "unat (of_nat n - 1 :: u32) < 8" "(of_nat n :: u32) \<noteq> - 1" by auto
qed

text \<open>What one page fault does, with the commands to the backing store.\<close>

definition page_out_cmds :: "supp_umps \<Rightarrow> sup_state \<Rightarrow> nat \<Rightarrow> io_event list" where
  "page_out_cmds V s f = (if sw_asid (swapTable s f) = - 1 then []
     else flash_cmd (sw_asid (swapTable s f) - 1) (FRAMEPOOLSTART (nucl V) + (0x20030000 + of_nat f * 0x1000))
       (sw_pageNo (swapTable s f)) WRITEBLK)"

definition page_moved :: "supp_umps \<Rightarrow> sup_state \<Rightarrow> sup_state \<Rightarrow> u32 \<Rightarrow> nat \<Rightarrow> nat \<Rightarrow> bool" where
  "page_moved V s s' a i f \<longleftrightarrow>
     swapTable s' = (swapTable s)(f := \<lparr>sw_asid = ENTRYHI_GET_ASID V (pte_entryHI (pte_at s a i)),
       sw_pageNo = getPageNum V (pte_entryHI (pte_at s a i)), sw_pte = Some (a, i)\<rparr>) \<and>
     pte_at s' a i = (pte_at s a i)\<lparr>pte_entryLO := frame_lo (nucl V) f\<rparr> \<and>
     (\<forall>b j. (b, j) \<noteq> (a, i) \<longrightarrow> pte_at s' b j =
        (if sw_asid (swapTable s f) \<noteq> - 1 \<and> sw_pte (swapTable s f) = Some (b, j)
         then (pte_at s b j)\<lparr>pte_entryLO := pte_entryLO (pte_at s b j) AND NOT VALIDON\<rparr> else pte_at s b j)) \<and>
     unat (frameIndexToReplace s') = f"

lemma swap_invD:
  assumes "swap_inv V P s"
  shows "0 \<notin> P" "unat (frameIndexToReplace s) < 16"
    "a \<in> P \<Longrightarrow> i < 32 \<Longrightarrow> \<exists>n\<in>{1..8}. ENTRYHI_GET_ASID V (pte_entryHI (pte_at s a i)) = of_nat n"
    "f < 16 \<Longrightarrow> sw_asid (swapTable s f) \<noteq> - 1 \<Longrightarrow> \<exists>a\<in>P. \<exists>i<32. holds_page V s f a i"
    "a \<in> P \<Longrightarrow> i < 32 \<Longrightarrow> pte_valid (pte_at s a i) \<Longrightarrow> \<exists>f<16. holds_page V s f a i"
  using assms by (auto simp: swap_inv_def)

lemma frame_lo_valid: "supp_doc V \<Longrightarrow> f < 16 \<Longrightarrow> pte_entryLO e = frame_lo (nucl V) f \<Longrightarrow> pte_valid e"
  by (simp add: pte_valid_def frame_lo_facts(2))

lemma updateSwapTableEntry_run:
  assumes "a \<noteq> 0" "i < 32" "f < 16"
  shows "updateSwapTableEntry V (of_nat f) (Some (a, i)) s =
    Some (s\<lparr>swapTable := (swapTable s)(f := \<lparr>sw_asid = ENTRYHI_GET_ASID V (pte_entryHI (pte_at s a i)),
       sw_pageNo = getPageNum V (pte_entryHI (pte_at s a i)), sw_pte = Some (a, i)\<rparr>)\<rparr>)"
proof -
  have x: "x\<lparr>sw_asid := m, sw_pageNo := n, sw_pte := p\<rparr> = \<lparr>sw_asid = m, sw_pageNo = n, sw_pte = p\<rparr>" for x :: swap_t and m n p
    by (cases x) simp
  show ?thesis
    using assms by (simp add: x updateSwapTableEntry_def load_pte_at swap_at_def swap_put_def POOLSIZE_def UPROCMAX_def)
qed

lemma page_out_run:
  assumes V: "supp_doc V" and K: "pager_kernel K" and inv: "swap_inv V P s" and f: "f < 16"
  shows "\<exists>s'. (if frameIsOccupied (swapTable s f) then markInvalidAndSave K V (of_nat f) s else Some s) = Some s' \<and>
    swapTable s' = swapTable s \<and> frameIndexToReplace s' = frameIndexToReplace s \<and> exc_at s' = exc_at s \<and>
    (\<forall>b j. pte_at s' b j = (if sw_asid (swapTable s f) \<noteq> - 1 \<and> sw_pte (swapTable s f) = Some (b, j)
         then (pte_at s b j)\<lparr>pte_entryLO := pte_entryLO (pte_at s b j) AND NOT VALIDON\<rparr> else pte_at s b j)) \<and>
    bus s' = bus s @ page_out_cmds V s f"
proof (cases "sw_asid (swapTable s f) = - 1")
  case True
  then show ?thesis by (simp add: frameIsOccupied_def page_out_cmds_def)
next
  case False
  obtain a i where ai: "a \<in> P" "i < 32" "holds_page V s f a i" using swap_invD(4) [OF inv f False] by blast
  then obtain n where n: "n \<in> {1..8}" "sw_asid (swapTable s f) = of_nat n" "sw_pte (swapTable s f) = Some (a, i)"
    "pte_entryLO (pte_at s a i) = frame_lo (nucl V) f" using swap_invD(3) [OF inv ai(1,2)] by (auto simp: holds_page_def)
  have a0: "a \<noteq> 0" using swap_invD(1) [OF inv] ai(1) by metis
  have occ: "frameIsOccupied (swapTable s f)" using asid_small(1) [OF n(1)] n by (simp add: frameIsOccupied_def)
  have no: "unat (sw_asid (swapTable s f) - 1) < 8" using asid_small(2) [OF n(1)] n(2) by simp
  obtain s' where "markInvalidAndSave K V (of_nat f) s = Some s'" "swapTable s' = swapTable s"
    "frameIndexToReplace s' = frameIndexToReplace s" "exc_at s' = exc_at s"
    "pte_at s' = set_pte (pte_at s) a i ((pte_at s a i)\<lparr>pte_entryLO := pte_entryLO (pte_at s a i) AND NOT VALIDON\<rparr>)"
    "bus s' = bus s @ flash_cmd (sw_asid (swapTable s f) - 1)
      (FRAMEPOOLSTART (nucl V) + ENTRYLO_GET_PFN V (pte_entryLO (pte_at s a i) AND NOT VALIDON) * PAGESIZE)
      (sw_pageNo (swapTable s f)) WRITEBLK"
    using markInvalidAndSave_run [OF V K f n(3) a0 ai(2) no] by blast
  then show ?thesis using occ False n(3,4) frame_lo_facts(4) [OF V f]
    by (intro exI [of _ s']) (auto simp: page_out_cmds_def)
qed

lemma handleTLBInvalid_run:
  assumes V: "supp_doc V" and K: "pager_kernel K" and inv: "swap_inv V P s" and a: "a \<in> P" and i: "i < 32"
    and m: "getMissingPageFromSupp V a s = Some (Inr (Some (a, i)))" and nv: "\<not> pte_valid (pte_at s a i)"
  shows "\<exists>s'. handleTLBInvalid K V a s = Some (None, s') \<and> page_moved V s s' a i (victim s) \<and>
    bus s' = bus s @ page_out_cmds V s (victim s) @
      flash_cmd (ENTRYHI_GET_ASID V (pte_entryHI (pte_at s a i)) - 1) (0x20030000 + of_nat (victim s) * 0x1000)
        (getPageNum V (pte_entryHI (pte_at s a i))) READBLK \<and> exc_at s' = exc_at s"
proof -
  define f where "f = victim s"
  have f: "f < 16" "unat (of_nat f :: u32) = f" using victim_less [of s] by (simp_all add: f_def)
  have a0: "a \<noteq> 0" using swap_invD(1) [OF inv] a by metis
  let ?s1 = "s\<lparr>frameIndexToReplace := of_nat f\<rparr>"
  have s1: "updateFrameIndexToReplace s = ?s1"
    using swap_invD(2) [OF inv] by (simp add: updateFrameIndexToReplace_eq f_def)
  have inv1: "swap_inv V P ?s1" using inv f by (simp add: swap_inv_def holds_page_def)
  obtain s2 where s2: "(if frameIsOccupied (swapTable s f) then markInvalidAndSave K V (of_nat f) ?s1 else Some ?s1) = Some s2"
    "swapTable s2 = swapTable s" "frameIndexToReplace s2 = of_nat f"
    "\<And>b j. pte_at s2 b j = (if sw_asid (swapTable s f) \<noteq> - 1 \<and> sw_pte (swapTable s f) = Some (b, j)
         then (pte_at s b j)\<lparr>pte_entryLO := pte_entryLO (pte_at s b j) AND NOT VALIDON\<rparr> else pte_at s b j)"
    "bus s2 = bus s @ page_out_cmds V s f" "exc_at s2 = exc_at s"
    using page_out_run [OF V K inv1 f(1)] by (auto simp: page_out_cmds_def)
  have nh: "\<not> (sw_asid (swapTable s f) \<noteq> - 1 \<and> sw_pte (swapTable s f) = Some (a, i))"
    using swap_invD(4) [OF inv f(1)] nv frame_lo_valid [OF V f(1)] by (auto simp: holds_page_def)
  have e: "pte_at s2 a i = pte_at s a i" using s2(4) [of a i] by (simp only: nh if_False)
  obtain n where n: "n \<in> {1..8}" "ENTRYHI_GET_ASID V (pte_entryHI (pte_at s a i)) = of_nat n"
    using swap_invD(3) [OF inv a i] by blast
  have no: "unat (ENTRYHI_GET_ASID V (pte_entryHI (pte_at s a i)) - 1) < 8" using asid_small(2) [OF n(1)] n(2) by simp
  obtain s3 where s3: "writeFromDevToPool K V (Some (a, i)) s2 = Some s3"
    "io_step s2 s3 (flash_cmd (ENTRYHI_GET_ASID V (pte_entryHI (pte_at s a i)) - 1) (0x20030000 + of_nat f * 0x1000)
        (getPageNum V (pte_entryHI (pte_at s a i))) READBLK)"
    using flash_io_step [OF V K no] writeFromDevToPool_flash [OF a0 i, of K V s2] frame_lo_facts(3) [OF V f(1)]
    by (simp add: e s2(3) flash_cmd_def) blast
  have p3: "pte_at s3 = pte_at s2" "swapTable s3 = swapTable s" "frameIndexToReplace s3 = of_nat f"
    "bus s3 = bus s @ page_out_cmds V s f @ flash_cmd (ENTRYHI_GET_ASID V (pte_entryHI (pte_at s a i)) - 1)
       (0x20030000 + of_nat f * 0x1000) (getPageNum V (pte_entryHI (pte_at s a i))) READBLK"
    "exc_at s3 = exc_at s"
    using s3(2) s2 by (simp_all add: io_step_def same_tables_def)
  let ?x = "\<lparr>sw_asid = ENTRYHI_GET_ASID V (pte_entryHI (pte_at s a i)),
       sw_pageNo = getPageNum V (pte_entryHI (pte_at s a i)), sw_pte = Some (a, i)\<rparr>"
  let ?s4 = "s3\<lparr>swapTable := (swapTable s)(f := ?x)\<rparr>"
  have s4: "updateSwapTableEntry V (of_nat f) (Some (a, i)) s3 = Some ?s4"
    using updateSwapTableEntry_run [OF a0 i f(1), of V s3] p3 e by simp
  obtain s5 where s5: "markValidAndUpdateTLB V (Some (a, i)) ?s4 = Some s5" "swapTable s5 = swapTable ?s4"
    "frameIndexToReplace s5 = of_nat f" "bus s5 = bus s3" "exc_at s5 = exc_at s3"
    "pte_at s5 = set_pte (pte_at ?s4) a i ((pte_at ?s4 a i)\<lparr>pte_entryLO := frame_lo (nucl V) f\<rparr>)"
    using markValidAndUpdateTLB_run [OF a0 i, of V ?s4] p3(3) f(2) by auto
  have "handleTLBInvalid K V a s =
      (if frameIsOccupied (swapTable s f) then markInvalidAndSave K V (of_nat f) ?s1 else Some ?s1) \<bind>
      (\<lambda>s. writeFromDevToPool K V (Some (a, i)) s \<bind> (\<lambda>s. updateSwapTableEntry V (of_nat f) (Some (a, i)) s \<bind>
        (\<lambda>s. markValidAndUpdateTLB V (Some (a, i)) s \<bind> (\<lambda>s. Some (None, s)))))"
    using m s1 f by (simp add: handleTLBInvalid_def Let_def swap_at_def POOLSIZE_def UPROCMAX_def split del: if_split cong: if_cong)
  also have "\<dots> = Some (None, s5)" unfolding s2(1) using s3(1) s4 s5(1) by simp
  finally have "handleTLBInvalid K V a s = Some (None, s5)" .
  moreover have "page_moved V s s5 a i f"
    unfolding page_moved_def using s5 p3 e f(2) s2(4) by simp
  ultimately show ?thesis using s5(4,5) p3(4,5) f_def by (intro exI [of _ s5]) simp
qed

lemma page_moved_inv:
  assumes V: "supp_doc V" and inv: "swap_inv V P s" and a: "a \<in> P" "i < 32" and f: "f < 16"
    and nv: "\<not> pte_valid (pte_at s a i)" and mv: "page_moved V s s' a i f"
  shows "swap_inv V P s'"
proof -
  have hi: "pte_entryHI (pte_at s' b j) = pte_entryHI (pte_at s b j)" for b j
    using mv by (cases "(b, j) = (a, i)") (auto simp: page_moved_def)
  have t: "swapTable s' = (swapTable s)(f := \<lparr>sw_asid = ENTRYHI_GET_ASID V (pte_entryHI (pte_at s a i)),
       sw_pageNo = getPageNum V (pte_entryHI (pte_at s a i)), sw_pte = Some (a, i)\<rparr>)"
    and new: "pte_at s' a i = (pte_at s a i)\<lparr>pte_entryLO := frame_lo (nucl V) f\<rparr>"
    and fr: "unat (frameIndexToReplace s') = f"
    and old: "\<And>b j. (b, j) \<noteq> (a, i) \<Longrightarrow> pte_at s' b j =
        (if sw_asid (swapTable s f) \<noteq> - 1 \<and> sw_pte (swapTable s f) = Some (b, j)
         then (pte_at s b j)\<lparr>pte_entryLO := pte_entryLO (pte_at s b j) AND NOT VALIDON\<rparr> else pte_at s b j)"
    using mv by (simp_all add: page_moved_def)
  have hf: "holds_page V s' f a i" by (simp add: holds_page_def t new)
  have keep: "holds_page V s' g b j" if g: "g < 16" "g \<noteq> f" and h: "holds_page V s g b j" for g b j
  proof -
    have lo: "pte_entryLO (pte_at s b j) = frame_lo (nucl V) g" using h by (simp add: holds_page_def)
    have ne: "(b, j) \<noteq> (a, i)" using nv frame_lo_valid [OF V g(1) lo] by auto
    have "\<not> (sw_asid (swapTable s f) \<noteq> - 1 \<and> sw_pte (swapTable s f) = Some (b, j))"
      using swap_invD(4) [OF inv f] frame_lo_inj [OF V g(1) f] g(2) lo by (auto simp: holds_page_def)
    with old [OF ne] h g(2) show ?thesis by (simp add: holds_page_def t)
  qed
  have "sw_asid (swapTable s' g) = - 1 \<or> (\<exists>b\<in>P. \<exists>j<32. holds_page V s' g b j)" if "g < 16" for g
  proof (cases "g = f")
    case True
    then show ?thesis using hf a by auto
  next
    case False
    then show ?thesis using swap_invD(4) [OF inv that] keep [OF that False] t by fastforce
  qed
  moreover have "\<exists>g<16. holds_page V s' g b j" if bj: "b \<in> P" "j < 32" "pte_valid (pte_at s' b j)" for b j
  proof (cases "(b, j) = (a, i)")
    case True
    then show ?thesis using hf f by auto
  next
    case False
    have v: "pte_valid (pte_at s b j)" "\<not> (sw_asid (swapTable s f) \<noteq> - 1 \<and> sw_pte (swapTable s f) = Some (b, j))"
      using old [OF False] bj(3) by (auto split: if_splits)
    obtain g where g: "g < 16" "holds_page V s g b j" using swap_invD(5) [OF inv bj(1,2) v(1)] by blast
    have "sw_asid (swapTable s g) \<noteq> - 1"
      using g(2) swap_invD(3) [OF inv bj(1,2)] asid_small(3) unfolding holds_page_def by metis
    then have "g \<noteq> f" using v(2) g(2) by (auto simp: holds_page_def)
    with keep [OF g(1) _ g(2)] g(1) show ?thesis by blast
  qed
  ultimately show ?thesis
    using swap_invD(1,3) [OF inv] fr f hi unfolding swap_inv_def by simp
qed

subsection \<open>Properties\<close>

text \<open>
  C18: The pager serves a page fault completely: the frame is the first free one or the next in
  turn; when it was in use, the entry of the page that leaves loses its valid bit and a write to
  the flash device of its owner is started and waited for; then the block of the missing page is
  read from the flash device of its own process into that frame, the swap table names it, and
  its entry becomes valid and maps the frame.  No other entry and no other frame changes.
\<close>

theorem page_fault_effect:
  assumes "supp_doc V" and "pager_kernel K" and "swap_inv V P s" and "a \<in> P" and "i < 32"
    and "getMissingPageFromSupp V a s = Some (Inr (Some (a, i)))" and "\<not> pte_valid (pte_at s a i)"
  shows "\<exists>s'. handleTLBInvalid K V a s = Some (None, s') \<and> page_moved V s s' a i (victim s) \<and>
    bus s' = bus s @ page_out_cmds V s (victim s) @
      flash_cmd (ENTRYHI_GET_ASID V (pte_entryHI (pte_at s a i)) - 1) (0x20030000 + of_nat (victim s) * 0x1000)
        (getPageNum V (pte_entryHI (pte_at s a i))) READBLK"
  using handleTLBInvalid_run [OF assms] by blast

text \<open>
  C17: The swap table and the page tables stay consistent: when the frames in use and the
  valid entries of all processes correspond one to one before a page fault, they do after it.  In
  particular no two processes and no two pages ever share a frame.
\<close>

theorem page_fault_invariant:
  assumes "supp_doc V" and "pager_kernel K" and "swap_inv V P s" and "a \<in> P" and "i < 32"
    and "getMissingPageFromSupp V a s = Some (Inr (Some (a, i)))" and "\<not> pte_valid (pte_at s a i)"
  shows "\<exists>s'. handleTLBInvalid K V a s = Some (None, s') \<and> swap_inv V P s' \<and>
    (\<forall>b c j k. b \<in> P \<and> c \<in> P \<and> j < 32 \<and> k < 32 \<and> pte_valid (pte_at s' b j) \<and> pte_valid (pte_at s' c k) \<and>
       pte_entryLO (pte_at s' b j) = pte_entryLO (pte_at s' c k) \<longrightarrow> b = c \<and> j = k)"
proof -
  obtain s' where s': "handleTLBInvalid K V a s = Some (None, s')" "page_moved V s s' a i (victim s)"
    using handleTLBInvalid_run [OF assms] by blast
  have inv: "swap_inv V P s'" by (rule page_moved_inv [OF assms(1,3,4,5) victim_less assms(7) s'(2)])
  have "b = c \<and> j = k" if h: "b \<in> P" "c \<in> P" "j < 32" "k < 32" "pte_valid (pte_at s' b j)" "pte_valid (pte_at s' c k)"
    "pte_entryLO (pte_at s' b j) = pte_entryLO (pte_at s' c k)" for b c j k
  proof -
    obtain f g where fg: "f < 16" "holds_page V s' f b j" "g < 16" "holds_page V s' g c k"
      using swap_invD(5) [OF inv] h by meson
    then have "f = g" using h(7) frame_lo_inj [OF assms(1), of f g] by (simp add: holds_page_def)
    with fg show ?thesis by (simp add: holds_page_def)
  qed
  with s'(1) inv show ?thesis by blast
qed

text \<open>A concrete pager: one process with ASID 3, fresh page table, empty pool.\<close>

definition calm :: kernel where
  "calm n a b c s = Some (if n = GETSUPPORTPTR then 0x2000 else 1, s)"

definition pager_example :: sup_state where
  "pager_example = put_supp 0x2000 (with_pages (zero_support\<lparr>sup_asid := 3\<rparr>) 32)
     (initSwapTable (supp_example\<lparr>swapTable := (\<lambda>_. \<lparr>sw_asid = 0, sw_pageNo = 0, sw_pte = None\<rparr>)\<rparr>))"

lemma calm_pager: "pager_kernel calm"
  by (simp add: pager_kernel_def calm_def IOWAIT_def GETSUPPORTPTR_def same_tables_def)

lemma pager_example_pte: "i < 32 \<Longrightarrow> pte_at pager_example 0x2000 i = init_pte 3 i"
  by (simp add: pager_example_def pte_at_def with_pages_def)

lemma pager_example_free:
  "i < 16 \<Longrightarrow> sw_asid (swapTable pager_example i) = - 1" "frameIndexToReplace pager_example = 0"
proof -
  have i: "initSwapTable s = s\<lparr>swapTable := (\<lambda>i. if i < 16 then (swapTable s i)\<lparr>sw_asid := - 1\<rparr> else swapTable s i)\<rparr>" for s
    using initSwapTable_eq .
  show "i < 16 \<Longrightarrow> sw_asid (swapTable pager_example i) = - 1" "frameIndexToReplace pager_example = 0"
    by (simp_all add: pager_example_def put_supp_def i supp_example_def)
qed

lemma pager_example_inv: "swap_inv umps3s {0x2000} pager_example"
proof -
  have "\<exists>n\<in>{1..8}. ENTRYHI_GET_ASID umps3s (pte_entryHI (pte_at pager_example 0x2000 i)) = of_nat n" if "i < 32" for i
    using that init_pte_fields(1) [of 3 i] supp_docD(2) [OF umps3s_doc]
    by (intro bexI [of _ 3]) (simp_all add: pager_example_pte)
  moreover have "\<not> pte_valid (pte_at pager_example 0x2000 i)" if "i < 32" for i
    using that by (simp add: pager_example_pte pte_valid_def init_pte_def DIRTYON_def VALIDON_def)
  ultimately show ?thesis by (simp add: swap_inv_def pager_example_free)
qed

lemma pager_example_missing:
  "getMissingPageFromSupp umps3s 0x2000 pager_example = Some (Inr (Some (0x2000, 0)))"
  "\<not> pte_valid (pte_at pager_example 0x2000 0)"
  by (simp_all add: getMissingPageFromSupp_def get_supp_def load_supp_def pager_example_def with_pages_def
      zero_support_def zero_state_def umps3s_def MAXPAGES_def upt_rec init_pte_def getVPNAddress_def vm_consts
      pte_valid_def pte_at_def)

theorem page_fault_effect_witness:
  "\<exists>s'. handleTLBInvalid calm umps3s 0x2000 pager_example = Some (None, s') \<and>
     page_moved umps3s pager_example s' 0x2000 0 (victim pager_example)"
  using page_fault_effect [OF umps3s_doc calm_pager pager_example_inv _ _ pager_example_missing] by auto

theorem page_fault_invariant_witness:
  "\<exists>s'. handleTLBInvalid calm umps3s 0x2000 pager_example = Some (None, s') \<and> swap_inv umps3s {0x2000} s'"
  using page_fault_invariant [OF umps3s_doc calm_pager pager_example_inv _ _ pager_example_missing] by auto

end
