(* ===== verification/Tlb_Props.thy ===== *)
theory Tlb_Props
  imports Page_Fault
begin

text \<open>
  The TLB: refill, invalidation and update of an entry; the search for a free ASID; and what
  goes wrong in the pager: the address a page is saved from, the state that a refill resumes, the
  processes that leave without notice.
\<close>

subsection \<open>TLB entries\<close>

lemma tlb_docD:
  assumes "tlb_doc V"
  shows "tlbp_ok c (TLBP V c)"
    "TLBR V c = c\<lparr>ENTRYHI := fst (tlb c (index_slot (INDEX c))), ENTRYLO := snd (tlb c (index_slot (INDEX c)))\<rparr>"
    "TLBWI V c = c\<lparr>tlb := (tlb c)(index_slot (INDEX c) := (ENTRYHI c, ENTRYLO c))\<rparr>"
  using assms by (simp_all add: tlb_doc_def)

text \<open>The result of probing for \<open>h\<close>: no slot, or the one that matches.\<close>

lemma probe_cases:
  assumes "tlb_doc V" and "c = (cp s)\<lparr>ENTRYHI := h\<rparr>"
  obtains (miss) ix where "TLBP V c = c\<lparr>INDEX := ix\<rparr>" "drop_bit 31 ix \<noteq> OFF" "\<forall>i<16. \<not> tlb_match h (tlb (cp s) i)"
    | (hit) ix where "TLBP V c = c\<lparr>INDEX := ix\<rparr>" "drop_bit 31 ix = OFF" "index_slot ix < 16"
        "tlb_match h (tlb (cp s) (index_slot ix))"
proof (cases "\<exists>i<16. tlb_match h (tlb (cp s) i)")
  case True
  with tlb_docD(1) [OF assms(1), of c] show ?thesis
    by (intro hit [of "INDEX (TLBP V c)"]) (auto simp: tlbp_ok_def assms(2) OFF_def)
next
  case False
  with tlb_docD(1) [OF assms(1), of c] show ?thesis
    by (intro miss [of "INDEX (TLBP V c)"]) (auto simp: tlbp_ok_def assms(2) OFF_def)
qed

definition tlb_unique :: "cp0 \<Rightarrow> u32 \<Rightarrow> bool" where
  "tlb_unique c h \<longleftrightarrow> (\<forall>i<16. \<forall>j<16. tlb_match h (tlb c i) \<and> tlb_match h (tlb c j) \<longrightarrow> i = j)"

text \<open>
  C26: No stale translation survives.  After markTLBEntryNotValid no TLB entry that matches the
  page is valid; after updateEntryInTLB every TLB entry that matches the page holds exactly the
  page table entry.  Entries of other pages are untouched, and neither call loads a new entry.
  The hypothesis is the hardware's: at most one TLB entry matches an address.
\<close>

theorem tlb_coherent:
  assumes V: "tlb_doc V" and a: "a \<noteq> 0" "i < 32" and u: "tlb_unique (cp s) (pte_entryHI (pte_at s a i))"
  shows "\<exists>c1 c2. markTLBEntryNotValid V (Some (a, i)) s = Some (s\<lparr>cp := c1\<rparr>) \<and>
    updateEntryInTLB V (Some (a, i)) s = Some (s\<lparr>cp := c2\<rparr>) \<and>
    (\<forall>k<16. if tlb_match (pte_entryHI (pte_at s a i)) (tlb (cp s) k)
       then tlb c1 k = (pte_entryHI (pte_at s a i), snd (tlb (cp s) k) AND NOT VALIDON) \<and>
         tlb c2 k = (pte_entryHI (pte_at s a i), pte_entryLO (pte_at s a i))
       else tlb c1 k = tlb (cp s) k \<and> tlb c2 k = tlb (cp s) k)"
proof (rule probe_cases [OF V refl, where s = s and h = "pte_entryHI (pte_at s a i)"], goal_cases)
  case (1 ix)
  then show ?thesis
    by (simp add: markTLBEntryNotValid_def updateEntryInTLB_def load_pte_at [OF a] sup_defs Let_def)
       (rule exI [of _ "(cp s)\<lparr>ENTRYHI := pte_entryHI (pte_at s a i), INDEX := ix\<rparr>"], simp)+
next
  case (2 ix)
  let ?h = "pte_entryHI (pte_at s a i)" and ?j = "index_slot ix"
  let ?lo = "snd (tlb (cp s) ?j) AND NOT VALIDON" and ?lo' = "pte_entryLO (pte_at s a i)"
  let ?c1 = "(cp s)\<lparr>ENTRYHI := ?h, ENTRYLO := ?lo, INDEX := ix, tlb := (tlb (cp s))(?j := (?h, ?lo))\<rparr>"
  let ?c2 = "(cp s)\<lparr>ENTRYHI := ?h, ENTRYLO := ?lo', INDEX := ix, tlb := (tlb (cp s))(?j := (?h, ?lo'))\<rparr>"
  have m: "markTLBEntryNotValid V (Some (a, i)) s = Some (s\<lparr>cp := ?c1\<rparr>)"
    "updateEntryInTLB V (Some (a, i)) s = Some (s\<lparr>cp := ?c2\<rparr>)"
    using 2(1,2) by (simp_all add: markTLBEntryNotValid_def updateEntryInTLB_def load_pte_at [OF a] sup_defs Let_def
        tlb_docD(2,3) [OF V])
  have k: "tlb_match ?h (tlb (cp s) k) \<longleftrightarrow> k = ?j" if "k < 16" for k
    using u that 2(3,4) unfolding tlb_unique_def by blast
  show ?case using m k by (intro exI [of _ ?c1] exI [of _ ?c2]) simp
qed

theorem tlb_coherent_witness:
  "\<exists>c1 c2. markTLBEntryNotValid umps3s (Some (0x2000, 0)) pager_example = Some (pager_example\<lparr>cp := c1\<rparr>) \<and>
    updateEntryInTLB umps3s (Some (0x2000, 0)) pager_example = Some (pager_example\<lparr>cp := c2\<rparr>)"
proof -
  have t: "tlb (cp pager_example) = (\<lambda>_. (0, 0))"
    by (simp add: pager_example_def put_supp_def initSwapTable_eq supp_example_def)
  have "\<not> tlb_match (pte_entryHI (pte_at pager_example 0x2000 0)) (0, 0)"
    by (simp add: tlb_match_def pager_example_pte init_pte_def getVPNAddress_def vm_consts)
  then have "tlb_unique (cp pager_example) (pte_entryHI (pte_at pager_example 0x2000 0))"
    by (simp add: tlb_unique_def t)
  from tlb_coherent [OF umps3s_tlb _ _ this] show ?thesis by auto
qed

subsection \<open>TLB refill\<close>

text \<open>The bound of the index and the entry that a refill writes; what the path ends with.\<close>

lemma refill_run:
  assumes V: "tlb_doc V" and c: "currentProcess (nuc s) = Some c"
    and a: "p_supportStruct (pcbs (nuc s) c) \<noteq> 0" "unat (tlbIndex s) < 16"
    and i: "find_page V (supports (nuc s) (p_supportStruct (pcbs (nuc s) c))) (ENTRYHI_GET_VPN V (BADVADDR (cp s)))
      [0..<MAXPAGES] = Some i"
  shows "\<exists>s'. uTLB_RefillHandler V s = Some (LDST (p_s (pcbs (nuc s) c)), s') \<and> nuc s' = nuc s \<and> bus s' = bus s \<and>
    tlb (cp s') = (tlb (cp s))(unat (tlbIndex s) := (pte_entryHI (pte_at s (p_supportStruct (pcbs (nuc s) c)) i),
      pte_entryLO (pte_at s (p_supportStruct (pcbs (nuc s) c)) i))) \<and>
    unat (tlbIndex s') = (unat (tlbIndex s) + 1) mod 16"
proof -
  let ?a = "p_supportStruct (pcbs (nuc s) c)"
  have "i \<in> set [0..<MAXPAGES]" using i unfolding find_page_find by (auto simp: find_Some_iff)
  then have i32: "i < 32" by (simp add: MAXPAGES_def)
  have m: "getMissingPage V s = Some (Inr (Some (?a, i)))"
    using c a(1) i by (simp add: getMissingPage_def get_supp_def load_supp_def)
  have x: "tlbIndex s = of_nat (unat (tlbIndex s))" by simp
  have "\<forall>n \<in> set [0..<16]. index_slot (push_bit 8 (of_nat n)) = n \<and> unat (((of_nat n :: u32) + 1) mod 16) = (n + 1) mod 16"
    by (simp add: index_slot_def upt_rec)
  then have ix: "index_slot (push_bit 8 (tlbIndex s)) = unat (tlbIndex s)"
    "unat ((tlbIndex s + 1) mod 16) = (unat (tlbIndex s) + 1) mod 16"
    using a(2) x by (metis atLeast0LessThan lessThan_iff set_upt)+
  have n: "loadProcess (Some c) (nuc s) = Some (LDST (p_s (pcbs (nuc s) c)), nuc s)"
    using c by (simp add: loadProcess_def)
  show ?thesis
    using m n c ix by (simp add: uTLB_RefillHandler_def load_pte_at [OF a(1) i32] sup_defs Let_def tlb_docD(3) [OF V]
        INDEXSHIFT_def TLBSIZE_def updateTLBIndex_def)
qed

text \<open>
  The TLB refill is round robin and stays inside the TLB: the entry of the page that was
  missing goes to the slot tlbIndex, which then advances by one modulo 16; no other slot and
  nothing of the nucleus changes.
\<close>

theorem refill_round_robin:
  assumes "tlb_doc V" and "currentProcess (nuc s) = Some c"
    and "p_supportStruct (pcbs (nuc s) c) \<noteq> 0" "unat (tlbIndex s) < 16"
    and "find_page V (supports (nuc s) (p_supportStruct (pcbs (nuc s) c))) (ENTRYHI_GET_VPN V (BADVADDR (cp s)))
      [0..<MAXPAGES] = Some i"
  shows "\<exists>out s'. uTLB_RefillHandler V s = Some (out, s') \<and> nuc s' = nuc s \<and>
    tlb (cp s') (unat (tlbIndex s)) = (pte_entryHI (pte_at s (p_supportStruct (pcbs (nuc s) c)) i),
      pte_entryLO (pte_at s (p_supportStruct (pcbs (nuc s) c)) i)) \<and>
    (\<forall>k. k \<noteq> unat (tlbIndex s) \<longrightarrow> tlb (cp s') k = tlb (cp s) k) \<and>
    unat (tlbIndex s') = (unat (tlbIndex s) + 1) mod 16 \<and> unat (tlbIndex s') < 16"
  using refill_run [OF assms] by auto

definition refill_example :: sup_state where
  "refill_example = on_nuc (\<lambda>n. n\<lparr>currentProcess := Some 0,
       pcbs := (pcbs n)(0 := zero_pcb\<lparr>p_s := zero_state\<lparr>pc_epc := 0x800000B0\<rparr>, p_supportStruct := 0x2000\<rparr>),
       states := (states n)(BIOSDATAPAGE := zero_state\<lparr>pc_epc := 0x800000F4\<rparr>)\<rparr>)
     (pager_example\<lparr>cp := (cp pager_example)\<lparr>BADVADDR := 0x80002004\<rparr>\<rparr>)"

lemma refill_example_facts:
  "currentProcess (nuc refill_example) = Some 0" "p_supportStruct (pcbs (nuc refill_example) 0) = 0x2000"
  "p_s (pcbs (nuc refill_example) 0) = zero_state\<lparr>pc_epc := 0x800000B0\<rparr>"
  "states (nuc refill_example) BIOSDATAPAGE = zero_state\<lparr>pc_epc := 0x800000F4\<rparr>"
  "tlbIndex refill_example = 0" "pte_at refill_example = pte_at pager_example" "bus refill_example = []"
  by (simp_all add: refill_example_def on_nuc_def pager_example_def put_supp_def initSwapTable_eq supp_example_def pte_at_fun)

lemma refill_example_find:
  "find_page umps3s (supports (nuc refill_example) 0x2000) (ENTRYHI_GET_VPN umps3s (BADVADDR (cp refill_example)))
     [0..<MAXPAGES] = Some 2"
  by (simp add: refill_example_def on_nuc_def pager_example_def put_supp_def initSwapTable_eq with_pages_def
      zero_support_def umps3s_def MAXPAGES_def upt_rec init_pte_def getVPNAddress_def vm_consts)

theorem refill_round_robin_witness:
  "\<exists>out s'. uTLB_RefillHandler umps3s refill_example = Some (out, s') \<and> unat (tlbIndex s') = 1"
  using refill_round_robin [OF umps3s_tlb refill_example_facts(1), of 2] refill_example_find
  by (auto simp: refill_example_facts)

text \<open>
  C40: A TLB refill does not resume the instruction that missed: it loads the state kept in the
  process control block, as it was when the process was last dispatched, whatever state the
  exception saved in the BIOS data page.  A process that has run since then starts again from there.
\<close>

theorem refill_resumes_stale:
  assumes "tlb_doc V" and "currentProcess (nuc s) = Some c"
    and "p_supportStruct (pcbs (nuc s) c) \<noteq> 0" "unat (tlbIndex s) < 16"
    and "find_page V (supports (nuc s) (p_supportStruct (pcbs (nuc s) c))) (ENTRYHI_GET_VPN V (BADVADDR (cp s)))
      [0..<MAXPAGES] = Some i"
    and "states (nuc s) BIOSDATAPAGE \<noteq> p_s (pcbs (nuc s) c)"
  shows "\<exists>st s'. uTLB_RefillHandler V s = Some (LDST st, s') \<and> st = p_s (pcbs (nuc s) c) \<and> st \<noteq> states (nuc s) BIOSDATAPAGE"
  using refill_run [OF assms(1-5)] assms(6) by metis

theorem refill_resumes_stale_witness:
  "\<exists>st s'. uTLB_RefillHandler umps3s refill_example = Some (LDST st, s') \<and> pc_epc st = 0x800000B0 \<and>
     pc_epc (states (nuc refill_example) BIOSDATAPAGE) = 0x800000F4"
proof -
  have ne: "states (nuc refill_example) BIOSDATAPAGE \<noteq> p_s (pcbs (nuc refill_example) 0)"
    by (simp add: refill_example_facts zero_state_def)
  show ?thesis
    using refill_resumes_stale [OF umps3s_tlb refill_example_facts(1) _ _ _ ne, of 2] refill_example_find
    by (auto simp: refill_example_facts)
qed

end
