(* ===== verification/Pager_Entry.thy ===== *)
theory Pager_Entry
  imports Tlb_Props
begin

text \<open>
  The entry point of the pager (\<open>handlePageFault\<close>) with its mutual exclusion, the address a page
  is saved from, and the ends without notice.
\<close>

subsection \<open>The pager under its semaphore\<close>

text \<open>
  What the process may find changed when it gets the swap semaphore: other processes may have
  taken its frames, so entries may have lost their valid bit, but none was made valid.
\<close>

definition others_paged :: "u32 \<Rightarrow> sup_state \<Rightarrow> sup_state \<Rightarrow> bool" where
  "others_paged a s s' \<longleftrightarrow> exc_at s' a = exc_at s a \<and> bus s' = bus s \<and>
     (\<forall>i<32. pte_entryHI (pte_at s' a i) = pte_entryHI (pte_at s a i) \<and> (pte_valid (pte_at s' a i) \<longrightarrow> pte_valid (pte_at s a i)))"

definition mutex_kernel :: "supp_umps \<Rightarrow> u32 set \<Rightarrow> u32 \<Rightarrow> kernel \<Rightarrow> bool" where
  "mutex_kernel V P a K \<longleftrightarrow> pager_kernel K \<and> (\<forall>s. K GETSUPPORTPTR 0 0 0 s = Some (a, s)) \<and>
     (\<forall>n s. n \<in> {PASSEREN, VERHOGEN} \<and> swap_inv V P s \<longrightarrow>
        (\<exists>v s'. K n (adr_swapSem V) 0 0 s = Some (v, s') \<and> swap_inv V P s' \<and> others_paged a s s'))"

lemma missing_cong:
  assumes "a \<noteq> 0" "exc_at s' a = exc_at s a" "\<forall>i<32. pte_entryHI (pte_at s' a i) = pte_entryHI (pte_at s a i)"
  shows "getMissingPageFromSupp V a s' = getMissingPageFromSupp V a s"
proof -
  have "find_page V (supports (nuc s') a) v is = find_page V (supports (nuc s) a) v is" if "set is \<subseteq> {0..<32}" for v "is"
    using that assms(3) by (induction "is") (auto simp: pte_at_def)
  then show ?thesis using assms(1,2)
    by (simp add: getMissingPageFromSupp_def get_supp_def load_supp_def exc_at_def MAXPAGES_def)
qed

lemma swap_inv_log [simp]: "swap_inv V P (log e s) = swap_inv V P s"
  by (simp add: swap_inv_def holds_page_def log_def pte_at_fun)

lemma log_simps [simp]: "bus (log e s) = bus s @ [e]" "pte_at (log e s) = pte_at s" "exc_at (log e s) = exc_at s"
  "nuc (log e s) = nuc s" "swapTable (log e s) = swapTable s"
  by (simp_all add: log_def pte_at_fun exc_at_def)

lemma mutex_kernelD:
  assumes "mutex_kernel V P a K" and "n = PASSEREN \<or> n = VERHOGEN" and "swap_inv V P s"
  shows "\<exists>v s'. syscall K n (adr_swapSem V) 0 0 s = Some (v, s') \<and> swap_inv V P s' \<and>
    others_paged a (log (Sys n (adr_swapSem V) 0 0) s) s'"
proof -
  have "swap_inv V P (log (Sys n (adr_swapSem V) 0 0) s)" using assms(3) by simp
  then show ?thesis using assms(1,2) unfolding mutex_kernel_def syscall_def by simp
qed

text \<open>
  C25: A page fault is served under mutual exclusion and resumes the faulting instruction.  The
  pager takes the swap semaphore before it touches the tables and gives it back after; between
  the two are exactly the commands of one page fault (a write when a page had to leave, and the
  read), and the path ends by loading the state the exception saved.  The tables are consistent
  at the end, whatever the other processes paged in the meantime.
\<close>

theorem page_fault_mutex:
  assumes V: "supp_doc V" and K: "mutex_kernel V P a K" and inv: "swap_inv V P s" and a: "a \<in> P" and i: "i < 32"
    and m: "getMissingPageFromSupp V a s = Some (Inr (Some (a, i)))" and nv: "\<not> pte_valid (pte_at s a i)"
    and store: "exc_at s a PGFAULTEXCEPT = st" "cause st \<noteq> EXC_MOD (nucl V)"
  shows "\<exists>s' es. handlePageFault K V s = Some (LDST st, s') \<and> swap_inv V P s' \<and>
    bus s' = bus s @ [Sys GETSUPPORTPTR 0 0 0, Sys PASSEREN (adr_swapSem V) 0 0] @ es @ [Sys VERHOGEN (adr_swapSem V) 0 0] \<and>
    (\<exists>f<16. \<exists>no blk no' blk' adr. es = flash_cmd no' (0x20030000 + of_nat f * 0x1000) blk' READBLK \<or>
       es = flash_cmd no adr blk WRITEBLK @ flash_cmd no' (0x20030000 + of_nat f * 0x1000) blk' READBLK)"
proof -
  have a0: "a \<noteq> 0" using swap_invD(1) [OF inv] a by metis
  let ?s1 = "log (Sys GETSUPPORTPTR 0 0 0) s"
  have k1: "syscall K GETSUPPORTPTR 0 0 0 s = Some (a, ?s1)" using K by (simp add: mutex_kernel_def syscall_def)
  obtain v s2 where s2: "syscall K PASSEREN (adr_swapSem V) 0 0 ?s1 = Some (v, s2)" "swap_inv V P s2"
    "others_paged a (log (Sys PASSEREN (adr_swapSem V) 0 0) ?s1) s2"
    using mutex_kernelD [OF K, of PASSEREN ?s1] inv by auto
  have m2: "getMissingPageFromSupp V a s2 = Some (Inr (Some (a, i)))"
    using missing_cong [OF a0, of s2 s V] s2(3) m by (simp add: others_paged_def)
  have nv2: "\<not> pte_valid (pte_at s2 a i)" using s2(3) nv i by (auto simp: others_paged_def)
  have PK: "pager_kernel K" using K by (simp add: mutex_kernel_def)
  obtain s3 where s3: "handleTLBInvalid K V a s2 = Some (None, s3)" "page_moved V s2 s3 a i (victim s2)"
    "bus s3 = bus s2 @ page_out_cmds V s2 (victim s2) @
      flash_cmd (ENTRYHI_GET_ASID V (pte_entryHI (pte_at s2 a i)) - 1) (0x20030000 + of_nat (victim s2) * 0x1000)
        (getPageNum V (pte_entryHI (pte_at s2 a i))) READBLK" "exc_at s3 = exc_at s2"
    using handleTLBInvalid_run [OF V PK s2(2) a i m2 nv2] by blast
  have inv3: "swap_inv V P s3" by (rule page_moved_inv [OF V s2(2) a i victim_less nv2 s3(2)])
  obtain w s4 where s4: "syscall K VERHOGEN (adr_swapSem V) 0 0 s3 = Some (w, s4)" "swap_inv V P s4"
    "others_paged a (log (Sys VERHOGEN (adr_swapSem V) 0 0) s3) s4"
    using mutex_kernelD [OF K, of VERHOGEN s3] inv3 by blast
  have st: "sup_exceptState (supports (nuc s) a) 0 = st" "sup_exceptState (supports (nuc s4) a) 0 = st"
    using store(1) s4(3) fun_cong [OF s3(4), of a] s2(3) by (simp_all add: others_paged_def exc_at_def PGFAULTEXCEPT_def)
  have "handlePageFault K V s = Some (LDST st, s4)"
    using k1 s2(1) s3(1) s4(1) st a0 store(2) by (simp add: handlePageFault_def get_supp_def load_supp_def)
  moreover have "bus s4 = bus s @ [Sys GETSUPPORTPTR 0 0 0, Sys PASSEREN (adr_swapSem V) 0 0] @
      (page_out_cmds V s2 (victim s2) @
       flash_cmd (ENTRYHI_GET_ASID V (pte_entryHI (pte_at s2 a i)) - 1) (0x20030000 + of_nat (victim s2) * 0x1000)
        (getPageNum V (pte_entryHI (pte_at s2 a i))) READBLK) @ [Sys VERHOGEN (adr_swapSem V) 0 0]"
    using s4(3) s3(3) s2(3) by (simp add: others_paged_def)
  moreover have "\<exists>no blk adr. page_out_cmds V s2 (victim s2) = [] \<or> page_out_cmds V s2 (victim s2) = flash_cmd no adr blk WRITEBLK"
    by (auto simp: page_out_cmds_def)
  ultimately show ?thesis using s4(2) victim_less [of s2] by (metis append_Nil)
qed

lemma calm_mutex: "mutex_kernel umps3s P 0x2000 calm"
  by (auto simp: mutex_kernel_def calm_pager calm_def syscall_numbers others_paged_def)

theorem page_fault_mutex_witness:
  "\<exists>s'. handlePageFault calm umps3s pager_example = Some (LDST zero_state, s') \<and> swap_inv umps3s {0x2000} s'"
proof -
  have "exc_at pager_example 0x2000 PGFAULTEXCEPT = zero_state" "cause zero_state \<noteq> EXC_MOD (nucl umps3s)"
    by (simp_all add: exc_at_def pager_example_def with_pages_def zero_support_def zero_state_def umps3_def)
  from page_fault_mutex [OF umps3s_doc calm_mutex pager_example_inv _ _ pager_example_missing this] show ?thesis by auto
qed

subsection \<open>Ends without notice\<close>

text \<open>
  C38: An access outside the pages of a process ends it without notice.  When the address that
  missed in the TLB is in none of the 32 pages, the refill handler ends in SYS2 at once: the
  support structure is not given back and the semaphore on which the first process waits for
  every user process is not signalled, as terminate\_support would do, so that wait never ends.
  In the pager the same search fails with the swap semaphore still held.
\<close>

theorem missing_page_silent_end:
  assumes "currentProcess (nuc s) = Some c" and "a = p_supportStruct (pcbs (nuc s) c)" "a \<noteq> 0"
    and "find_page V (supports (nuc s) a) (ENTRYHI_GET_VPN V (BADVADDR (cp s))) [0..<MAXPAGES] = None"
    and "find_page V (supports (nuc s) a) (ENTRYHI_GET_VPN V (entry_hi (exc_at s a PGFAULTEXCEPT))) [0..<MAXPAGES] = None"
    and "cause (exc_at s a PGFAULTEXCEPT) \<noteq> EXC_MOD (nucl V)"
    and K: "\<And>s. K GETSUPPORTPTR 0 0 0 s = Some (a, s)" "\<And>s. K PASSEREN (adr_swapSem V) 0 0 s = Some (v, s)"
  shows "uTLB_RefillHandler V s = Some (SYSCALL TERMPROCESS 0 0 0, s) \<and>
    (\<exists>s'. handlePageFault K V s = Some (SYSCALL TERMPROCESS 0 0 0, s') \<and>
      bus s' = bus s @ [Sys GETSUPPORTPTR 0 0 0, Sys PASSEREN (adr_swapSem V) 0 0])"
proof
  show "uTLB_RefillHandler V s = Some (SYSCALL TERMPROCESS 0 0 0, s)"
    using assms(1-4) by (simp add: uTLB_RefillHandler_def getMissingPage_def get_supp_def load_supp_def)
  show "\<exists>s'. handlePageFault K V s = Some (SYSCALL TERMPROCESS 0 0 0, s') \<and>
      bus s' = bus s @ [Sys GETSUPPORTPTR 0 0 0, Sys PASSEREN (adr_swapSem V) 0 0]"
    using assms(3,5,6) K by (simp add: handlePageFault_def syscall_def get_supp_def load_supp_def exc_at_def PGFAULTEXCEPT_def
        handleTLBInvalid_def getMissingPageFromSupp_def)
qed

definition wild_example :: sup_state where
  "wild_example = on_nuc (\<lambda>n. n\<lparr>currentProcess := Some 0, pcbs := (pcbs n)(0 := zero_pcb\<lparr>p_supportStruct := 0x2000\<rparr>)\<rparr>)
     (put_supp 0x2000 (with_pages (zero_support\<lparr>sup_asid := 3, sup_exceptState := (\<lambda>_. zero_state\<lparr>entry_hi := 0x80040000\<rparr>)\<rparr>) 32)
       (supp_example\<lparr>cp := (cp supp_example)\<lparr>BADVADDR := 0x80040000\<rparr>\<rparr>))"

theorem missing_page_silent_end_witness:
  "uTLB_RefillHandler umps3s wild_example = Some (SYSCALL TERMPROCESS 0 0 0, wild_example) \<and>
   (\<exists>s'. handlePageFault calm umps3s wild_example = Some (SYSCALL TERMPROCESS 0 0 0, s'))"
proof -
  have f: "find_page umps3s (supports (nuc wild_example) 0x2000) (ENTRYHI_GET_VPN umps3s 0x80040000) [0..<MAXPAGES] = None"
    by (simp add: wild_example_def on_nuc_def put_supp_def with_pages_def zero_support_def umps3s_def MAXPAGES_def upt_rec
        init_pte_def getVPNAddress_def vm_consts)
  have e: "currentProcess (nuc wild_example) = Some 0" "0x2000 = p_supportStruct (pcbs (nuc wild_example) 0)"
    "BADVADDR (cp wild_example) = 0x80040000" "exc_at wild_example 0x2000 PGFAULTEXCEPT = zero_state\<lparr>entry_hi := 0x80040000\<rparr>"
    by (simp_all add: wild_example_def on_nuc_def put_supp_def exc_at_def with_pages_def)
  have k: "calm GETSUPPORTPTR 0 0 0 s = Some (0x2000, s)" "calm PASSEREN (adr_swapSem umps3s) 0 0 s = Some (1, s)" for s
    by (simp_all add: calm_def syscall_numbers)
  note t = missing_page_silent_end [where K = calm and V = umps3s and s = wild_example, OF e(1,2) _ _ _ _ k]
  show ?thesis using t f e by (auto simp: zero_state_def umps3_def)
qed

subsection \<open>The address a page is saved from\<close>

text \<open>
  C39: When a page has to leave, it is saved from the wrong address.  The frame number in
  EntryLo is absolute (it was written as FRAMEPOOLSTART + frame * PAGESIZE), but
  writeFromPoolToDev adds FRAMEPOOLSTART again: the flash device is told to read the block at
  0x40060000 + 4096 f, while the page is in the frame at 0x20030000 + 4096 f.
\<close>

theorem swap_out_misplaced:
  assumes "supp_doc V" and "pager_kernel K" and "swap_inv V P s" and "a \<in> P" and "i < 32"
    and "getMissingPageFromSupp V a s = Some (Inr (Some (a, i)))" and "\<not> pte_valid (pte_at s a i)"
    and "sw_asid (swapTable s (victim s)) \<noteq> - 1"
  shows "\<exists>s' no cmds frame. handleTLBInvalid K V a s = Some (None, s') \<and>
    frame = FRAMEPOOLSTART (nucl V) + of_nat (victim s) * PAGESIZE \<and>
    bus s' = bus s @ Data0 4 no (frame + FRAMEPOOLSTART (nucl V)) # cmds \<and> frame + FRAMEPOOLSTART (nucl V) \<noteq> frame"
proof -
  obtain s' where s': "handleTLBInvalid K V a s = Some (None, s')"
    "bus s' = bus s @ page_out_cmds V s (victim s) @
      flash_cmd (ENTRYHI_GET_ASID V (pte_entryHI (pte_at s a i)) - 1) (0x20030000 + of_nat (victim s) * 0x1000)
        (getPageNum V (pte_entryHI (pte_at s a i))) READBLK"
    using handleTLBInvalid_run [OF assms(1-7)] by blast
  have F: "FRAMEPOOLSTART (nucl V) = 0x20030000" using frame_lo_facts(3) [OF assms(1), of 0] by simp
  let ?fr = "FRAMEPOOLSTART (nucl V) + of_nat (victim s) * PAGESIZE"
  obtain cmds where "bus s' = bus s @ Data0 4 (sw_asid (swapTable s (victim s)) - 1) (?fr + FRAMEPOOLSTART (nucl V)) # cmds"
    using s'(2) assms(8) by (simp add: page_out_cmds_def flash_cmd_def F PAGESIZE_def)
  then show ?thesis using s'(1) F by (intro exI [of _ s'] exI conjI) simp_all
qed

definition full_example :: sup_state where
  "full_example = put_supp 0x2000 (zero_support\<lparr>sup_asid := 3,
       sup_exceptState := (\<lambda>_. zero_state\<lparr>entry_hi := 0x80014000\<rparr>),
       sup_privatePgTbl := (\<lambda>i. if i < 16 then (init_pte 3 i)\<lparr>pte_entryLO := frame_lo umps3 i\<rparr> else init_pte 3 i)\<rparr>)
     (supp_example\<lparr>swapTable := (\<lambda>f. \<lparr>sw_asid = 3, sw_pageNo = of_nat f, sw_pte = Some (0x2000, f)\<rparr>)\<rparr>)"

lemma full_example_pte:
  "pte_at full_example 0x2000 i = (if i < 16 then (init_pte 3 i)\<lparr>pte_entryLO := frame_lo umps3 i\<rparr> else init_pte 3 i)"
  "swapTable full_example = (\<lambda>f. \<lparr>sw_asid = 3, sw_pageNo = of_nat f, sw_pte = Some (0x2000, f)\<rparr>)"
  "frameIndexToReplace full_example = 0"
  by (simp_all add: full_example_def pte_at_def put_supp_def supp_example_def)

lemma full_example_fields:
  assumes "i < 32"
  shows "ENTRYHI_GET_ASID umps3s (pte_entryHI (pte_at full_example 0x2000 i)) = 3"
    and "i < 16 \<Longrightarrow> getPageNum umps3s (pte_entryHI (pte_at full_example 0x2000 i)) = of_nat i"
proof -
  have h: "pte_entryHI (pte_at full_example 0x2000 i) = pte_entryHI (init_pte (of_nat 3) i)" by (simp add: full_example_pte)
  show "ENTRYHI_GET_ASID umps3s (pte_entryHI (pte_at full_example 0x2000 i)) = 3"
    using init_pte_fields(1) [of 3 i] assms unfolding h supp_docD [OF umps3s_doc] by simp
  show "getPageNum umps3s (pte_entryHI (pte_at full_example 0x2000 i)) = of_nat i" if "i < 16"
  proof -
    have "(of_nat i :: u32) \<noteq> 0x3FFFF"
    proof
      assume "(of_nat i :: u32) = 0x3FFFF"
      from arg_cong [OF this, of unat] that show False by simp
    qed
    then show ?thesis using init_pte_fields(2) [of 3 i] assms that
      unfolding h getPageNum_def supp_docD [OF umps3s_doc] by (simp add: vpn_field_def LASTPAGEMASK_def)
  qed
qed

lemma full_example_inv: "swap_inv umps3s {0x2000} full_example"
proof -
  have h: "holds_page umps3s full_example f 0x2000 f" if "f < 16" for f
    using that full_example_fields [of f] by (simp add: holds_page_def full_example_pte(2)) (simp add: full_example_pte)
  have "\<not> pte_valid (pte_at full_example 0x2000 i)" if "\<not> i < 16" for i
    using that by (simp add: full_example_pte pte_valid_def init_pte_def DIRTYON_def VALIDON_def)
  moreover have "\<exists>n\<in>{1..8}. ENTRYHI_GET_ASID umps3s (pte_entryHI (pte_at full_example 0x2000 i)) = of_nat n" if "i < 32" for i
    using full_example_fields(1) [OF that] by (intro bexI [of _ 3]) simp_all
  moreover have "\<exists>i<32. holds_page umps3s full_example f 0x2000 i" if "f < 16" for f
    using h [OF that] that by (intro exI [of _ f]) simp
  moreover have "i < 16 \<Longrightarrow> \<exists>f<16. holds_page umps3s full_example f 0x2000 i" for i using h [of i] by blast
  ultimately show ?thesis unfolding swap_inv_def by (simp add: full_example_pte(3)) blast
qed

lemma full_example_missing:
  "getMissingPageFromSupp umps3s 0x2000 full_example = Some (Inr (Some (0x2000, 20)))"
  "\<not> pte_valid (pte_at full_example 0x2000 20)"
  by (simp_all add: getMissingPageFromSupp_def get_supp_def load_supp_def full_example_def put_supp_def
      umps3s_def MAXPAGES_def upt_rec init_pte_def getVPNAddress_def vm_consts pte_valid_def pte_at_def)

theorem swap_out_misplaced_witness:
  "\<exists>s' no cmds. handleTLBInvalid calm umps3s 0x2000 full_example = Some (None, s') \<and>
     bus s' = bus full_example @ Data0 4 no 0x40061000 # cmds"
proof -
  have "find (\<lambda>i. sw_asid (swapTable full_example i) = - 1) [0..<16] = None"
    by (simp add: find_None_iff full_example_pte)
  then have v: "victim full_example = 1" by (simp add: victim_def full_example_pte)
  have F: "FRAMEPOOLSTART (nucl umps3s) = 0x20030000" using frame_lo_facts(3) [OF umps3s_doc, of 0] by simp
  show ?thesis
    using swap_out_misplaced [OF umps3s_doc calm_pager full_example_inv _ _ full_example_missing] v F
    by (auto simp: full_example_pte PAGESIZE_def)
qed

end
