(* ===== verification/Supp_Props.thy ===== *)
theory Supp_Props
  imports Pager_Entry
begin

text \<open>
  The system calls of the support level.  The text a process prints is the string in its
  memory; the answers of the device are an arbitrary function \<open>sts\<close> of the moment (the number of
  events so far), so the theorems hold for every behaviour of the device.
\<close>

definition device_kernel :: "kernel \<Rightarrow> u32 \<Rightarrow> u32 \<Rightarrow> (nat \<Rightarrow> u32) \<Rightarrow> bool" where
  "device_kernel K line d sts \<longleftrightarrow>
     (\<forall>no s. \<exists>s'. K IOWAIT line no d s = Some (sts (length (bus s)), s') \<and> bus s' = bus s \<and> umem s' = umem s \<and>
        supports (nuc s') = supports (nuc s)) \<and>
     (\<forall>n a s. n \<in> {PASSEREN, VERHOGEN} \<longrightarrow> (\<exists>v s'. K n a 0 0 s = Some (v, s') \<and> bus s' = bus s \<and> umem s' = umem s \<and>
        supports (nuc s') = supports (nuc s)))"

text \<open>What a service of the support level leaves alone.\<close>

definition own_mem :: "sup_state \<Rightarrow> sup_state \<Rightarrow> bool" where
  "own_mem s s' \<longleftrightarrow> umem s' = umem s \<and> supports (nuc s') = supports (nuc s)"

lemma own_mem_nuc [simp]:
  "umem (on_nuc f s) = umem s" "supports (nuc (on_nuc disable_interrupts s)) = supports (nuc s)"
  "supports (nuc (on_nuc enable_interrupts s)) = supports (nuc s)" "umem (log e s) = umem s"
  "umem (put_char a c s) = (umem s)(a := c)" "nuc (put_char a c s) = nuc s" "bus (put_char a c s) = bus s"
  by (simp_all add: on_nuc_def disable_interrupts_def enable_interrupts_def setSTATUS_def log_def put_char_def)

lemma device_kernel_mutex:
  assumes "device_kernel K line d sts" and "n = PASSEREN \<or> n = VERHOGEN"
  shows "\<exists>v s'. syscall K n a 0 0 s = Some (v, s') \<and> bus s' = bus s @ [Sys n a 0 0] \<and> own_mem s s'"
  using assms unfolding device_kernel_def own_mem_def syscall_def by fastforce

fun cstring :: "u8 \<Rightarrow> (u32 \<Rightarrow> u8) \<Rightarrow> u32 \<Rightarrow> u8 list \<Rightarrow> bool" where
  "cstring eos m a [] \<longleftrightarrow> m a = eos"
| "cstring eos m a (c # cs) \<longleftrightarrow> m a = c \<and> c \<noteq> eos \<and> cstring eos m (a + 1) cs"

text \<open>
  The reference: the characters go to the device one by one, \<open>w\<close> events each, until one is
  refused; the result is their number or minus the refusing status.
\<close>

fun print_ref :: "(u32 \<Rightarrow> bool) \<Rightarrow> nat \<Rightarrow> (nat \<Rightarrow> u32) \<Rightarrow> nat \<Rightarrow> u32 \<Rightarrow> u8 list \<Rightarrow> u32 \<times> u8 list" where
  "print_ref ok w sts p r [] = (r, [])"
| "print_ref ok w sts p r (c # cs) =
     (if ok (sts (p + w)) then (let (v, out) = print_ref ok w sts (p + w) (r + 1) cs in (v, c # out))
      else (- sts (p + w), [c]))"

definition printer_cmds :: "umps \<Rightarrow> u32 \<Rightarrow> u8 \<Rightarrow> io_event list" where
  "printer_cmds U no c = [Data0 (PRNTINT U) no (scast c), Command (PRNTINT U) no PRINTCHR, Sys IOWAIT (PRNTINT U) no 0]"

definition terminal_cmds :: "umps \<Rightarrow> u32 \<Rightarrow> u8 \<Rightarrow> io_event list" where
  "terminal_cmds U no c =
     [TransmCommand (TERMINT U) no (PRINTCHR OR push_bit BYTELENGTH (scast c)), Sys IOWAIT (TERMINT U) no 0]"

definition printer_ok :: "u32 \<Rightarrow> bool" where "printer_ok st \<longleftrightarrow> st AND PRINTSTATMASK = PRINTDEVREADY"
definition terminal_ok :: "u32 \<Rightarrow> bool" where "terminal_ok st \<longleftrightarrow> st AND TERMSTATMASK = RECVD"

lemma sint_nonneg: "unat (w::u32) < 2^31 \<Longrightarrow> sint w = int (unat w)"
proof -
  assume a: "unat w < 2 ^ 31"
  have u: "uint w = int (unat w)" by simp
  have "int (unat w) < int (2 ^ 31)" using a by (simp only: of_nat_less_iff)
  then have "uint w < 2 ^ 31" by (simp only: u of_nat_power of_nat_numeral)
  then have "signed_take_bit 31 (uint w) = uint w"
    by (intro signed_take_bit_int_eq_self) (simp_all add: order_trans [OF _ uint_ge_0])
  then show ?thesis unfolding u [symmetric] by (simp add: sint_uint)
qed

text \<open>The characters sent to a terminal.\<close>

fun sent :: "io_event list \<Rightarrow> string" where
  "sent [] = []"
| "sent (TransmCommand line no v # es) = char_of (unat (drop_bit BYTELENGTH v)) # sent es"
| "sent (_ # es) = sent es"

lemma sent_append: "sent (es @ fs) = sent es @ sent fs"
  by (induction es rule: sent.induct) simp_all

lemma dev_puts:
  assumes "unat no < DEVPERINT U"
  shows "\<exists>s'. dtp_data0_put U line no v s = Some s' \<and> bus s' = bus s @ [Data0 line no v] \<and> own_mem s s'"
    "\<exists>s'. dtp_command_put U line no v s = Some s' \<and> bus s' = bus s @ [Command line no v] \<and> own_mem s s'"
    "\<exists>s'. recv_command_put U line no v s = Some s' \<and> bus s' = bus s @ [RecvCommand line no v] \<and> own_mem s s'"
    "\<exists>s'. transm_command_put U line no v s = Some s' \<and> bus s' = bus s @ [TransmCommand line no v] \<and> own_mem s s'"
  using assms by (simp_all add: dev_put_defs dev_at_def sup_defs dev_put_def Let_def own_mem_def)

text \<open>One character to the printer, to the terminal; one command to receive.\<close>

lemma printer_char:
  assumes K: "device_kernel K (PRNTINT (nucl V)) 0 sts" and no: "unat (asid - 1) < DEVPERINT (nucl V)"
  shows "\<exists>s1 s2 s'. dtp_data0_put (nucl V) (PRNTINT (nucl V)) (asid - 1) (scast c) (on_nuc disable_interrupts s) = Some s1 \<and>
    dtp_command_put (nucl V) (PRNTINT (nucl V)) (asid - 1) PRINTCHR s1 = Some s2 \<and>
    syscall K IOWAIT (PRNTINT (nucl V)) (asid - 1) 0 s2 = Some (sts (length (bus s) + 3), s') \<and>
    bus s' = bus s @ printer_cmds (nucl V) (asid - 1) c \<and> own_mem s s'"
proof -
  obtain s1 where 1: "dtp_data0_put (nucl V) (PRNTINT (nucl V)) (asid - 1) (scast c) (on_nuc disable_interrupts s) = Some s1"
    "bus s1 = bus s @ [Data0 (PRNTINT (nucl V)) (asid - 1) (scast c)]" "own_mem s s1"
    using dev_puts(1) [OF no, of "PRNTINT (nucl V)" "scast c" "on_nuc disable_interrupts s"] by (auto simp: own_mem_def)
  obtain s2 where 2: "dtp_command_put (nucl V) (PRNTINT (nucl V)) (asid - 1) PRINTCHR s1 = Some s2"
    "bus s2 = bus s1 @ [Command (PRNTINT (nucl V)) (asid - 1) PRINTCHR]" "own_mem s1 s2"
    using dev_puts(2) [OF no] by blast
  let ?l = "log (Sys IOWAIT (PRNTINT (nucl V)) (asid - 1) 0) s2"
  obtain s3 where 3: "K IOWAIT (PRNTINT (nucl V)) (asid - 1) 0 ?l = Some (sts (length (bus ?l)), s3)" "bus s3 = bus ?l"
    "umem s3 = umem ?l" "supports (nuc s3) = supports (nuc ?l)"
    using K unfolding device_kernel_def by blast
  have "length (bus ?l) = length (bus s) + 3" using 1(2) 2(2) by simp
  with 1 2 3 show ?thesis by (auto simp: syscall_def own_mem_def printer_cmds_def numeral_3_eq_3)
qed

lemma terminal_char:
  assumes K: "device_kernel K (TERMINT (nucl V)) 0 sts" and no: "unat (asid - 1) < DEVPERINT (nucl V)"
  shows "\<exists>s1 s'. transm_command_put (nucl V) (TERMINT (nucl V)) (asid - 1) (PRINTCHR OR push_bit BYTELENGTH (scast c))
      (on_nuc disable_interrupts s) = Some s1 \<and>
    syscall K IOWAIT (TERMINT (nucl V)) (asid - 1) 0 s1 = Some (sts (length (bus s) + 2), s') \<and>
    bus s' = bus s @ terminal_cmds (nucl V) (asid - 1) c \<and> own_mem s s'"
proof -
  let ?v = "PRINTCHR OR push_bit BYTELENGTH (scast c)"
  obtain s1 where 1: "transm_command_put (nucl V) (TERMINT (nucl V)) (asid - 1) ?v (on_nuc disable_interrupts s) = Some s1"
    "bus s1 = bus s @ [TransmCommand (TERMINT (nucl V)) (asid - 1) ?v]" "own_mem s s1"
    using dev_puts(4) [OF no, of "TERMINT (nucl V)" ?v "on_nuc disable_interrupts s"] by (auto simp: own_mem_def)
  let ?l = "log (Sys IOWAIT (TERMINT (nucl V)) (asid - 1) 0) s1"
  obtain s3 where 3: "K IOWAIT (TERMINT (nucl V)) (asid - 1) 0 ?l = Some (sts (length (bus ?l)), s3)" "bus s3 = bus ?l"
    "umem s3 = umem ?l" "supports (nuc s3) = supports (nuc ?l)"
    using K unfolding device_kernel_def by blast
  have "length (bus ?l) = length (bus s) + 2" using 1(2) by simp
  with 1 3 show ?thesis by (auto simp: syscall_def own_mem_def terminal_cmds_def numeral_2_eq_2)
qed

lemma neg_one_times: "st * - 1 = - st" for st :: u32
  by simp

text \<open>The loops against the reference.\<close>

lemma printer_loop_ref:
  assumes K: "device_kernel K (PRNTINT (nucl V)) 0 sts" and no: "unat (asid - 1) < DEVPERINT (nucl V)"
  shows "cstring (EOS V) (umem s) a cs \<Longrightarrow> print_ref printer_ok 3 sts (length (bus s)) r cs = (v, out) \<Longrightarrow>
    \<exists>s'. printer_loop K V asid a r s = Some (v, s') \<and> supports (nuc s') = supports (nuc s) \<and>
      bus s' = bus s @ concat (map (printer_cmds (nucl V) (asid - 1)) out)"
proof (induction cs arbitrary: s a r v out)
  case Nil
  then show ?case by (subst printer_loop.simps) simp
next
  case (Cons c cs)
  have c: "umem s a = c" "c \<noteq> EOS V" "cstring (EOS V) (umem s) (a + 1) cs" using Cons.prems(1) by auto
  let ?st = "sts (length (bus s) + 3)"
  obtain s1 s2 s3 where s3: "dtp_data0_put (nucl V) (PRNTINT (nucl V)) (asid - 1) (scast c) (on_nuc disable_interrupts s) = Some s1"
    "dtp_command_put (nucl V) (PRNTINT (nucl V)) (asid - 1) PRINTCHR s1 = Some s2"
    "syscall K IOWAIT (PRNTINT (nucl V)) (asid - 1) 0 s2 = Some (?st, s3)"
    "bus s3 = bus s @ printer_cmds (nucl V) (asid - 1) c" "own_mem s s3"
    using printer_char [OF K no] by blast
  let ?s4 = "on_nuc enable_interrupts s3"
  have run: "printer_loop K V asid a r s = (if ?st AND PRINTSTATMASK \<noteq> PRINTDEVREADY
      then printer_loop K V asid a (- ?st) (put_char a (EOS V) ?s4) else printer_loop K V asid (a + 1) (r + 1) ?s4)"
    using s3(1-3) c(1,2) by (subst printer_loop.simps) (simp add: Let_def)
  show ?case
  proof (cases "printer_ok ?st")
    case True
    obtain v' out' where r: "print_ref printer_ok 3 sts (length (bus s) + 3) (r + 1) cs = (v', out')" by fastforce
    have "print_ref printer_ok 3 sts (length (bus ?s4)) (r + 1) cs = (v', out')" "cstring (EOS V) (umem ?s4) (a + 1) cs"
      using r s3(4,5) c(3) by (simp_all add: printer_cmds_def own_mem_def numeral_3_eq_3)
    from Cons.IH [OF this(2,1)] obtain s' where "printer_loop K V asid (a + 1) (r + 1) ?s4 = Some (v', s')"
      "supports (nuc s') = supports (nuc ?s4)" "bus s' = bus ?s4 @ concat (map (printer_cmds (nucl V) (asid - 1)) out')"
      by blast
    moreover have "v = v'" "out = c # out'" using True r Cons.prems(2) by simp_all
    moreover have "?st AND PRINTSTATMASK = PRINTDEVREADY" using True by (simp add: printer_ok_def)
    ultimately show ?thesis using run s3(4,5) by (auto simp: own_mem_def)
  next
    case False
    have "printer_loop K V asid a (- ?st) (put_char a (EOS V) ?s4) = Some (- ?st, put_char a (EOS V) ?s4)"
      by (subst printer_loop.simps) simp
    moreover have "v = - ?st" "out = [c]" using False Cons.prems(2) by simp_all
    moreover have "\<not> ?st AND PRINTSTATMASK = PRINTDEVREADY" using False by (simp add: printer_ok_def)
    ultimately show ?thesis using run s3(4,5) by (auto simp: own_mem_def)
  qed
qed

lemma termWrite_loop_ref:
  assumes K: "device_kernel K (TERMINT (nucl V)) 0 sts" and no: "unat (asid - 1) < DEVPERINT (nucl V)"
  shows "cstring (EOS V) (umem s) a cs \<Longrightarrow> print_ref terminal_ok 2 sts (length (bus s)) r cs = (v, out) \<Longrightarrow>
    \<exists>s'. termWrite_loop K V asid a r s = Some (v, s') \<and> supports (nuc s') = supports (nuc s) \<and>
      bus s' = bus s @ concat (map (terminal_cmds (nucl V) (asid - 1)) out)"
proof (induction cs arbitrary: s a r v out)
  case Nil
  then show ?case by (subst termWrite_loop.simps) simp
next
  case (Cons c cs)
  have c: "umem s a = c" "c \<noteq> EOS V" "cstring (EOS V) (umem s) (a + 1) cs" using Cons.prems(1) by auto
  let ?st = "sts (length (bus s) + 2)"
  obtain s1 s3 where s3: "transm_command_put (nucl V) (TERMINT (nucl V)) (asid - 1) (PRINTCHR OR push_bit BYTELENGTH (scast c))
      (on_nuc disable_interrupts s) = Some s1"
    "syscall K IOWAIT (TERMINT (nucl V)) (asid - 1) 0 s1 = Some (?st, s3)"
    "bus s3 = bus s @ terminal_cmds (nucl V) (asid - 1) c" "own_mem s s3"
    using terminal_char [OF K no] by blast
  let ?s4 = "on_nuc enable_interrupts s3"
  have run: "termWrite_loop K V asid a r s = (if ?st AND TERMSTATMASK \<noteq> RECVD
      then termWrite_loop K V asid a (- ?st) (put_char a (EOS V) ?s4) else termWrite_loop K V asid (a + 1) (r + 1) ?s4)"
    using s3(1,2) c(1,2) by (subst termWrite_loop.simps) (simp add: Let_def)
  show ?case
  proof (cases "terminal_ok ?st")
    case True
    obtain v' out' where r: "print_ref terminal_ok 2 sts (length (bus s) + 2) (r + 1) cs = (v', out')" by fastforce
    have "print_ref terminal_ok 2 sts (length (bus ?s4)) (r + 1) cs = (v', out')" "cstring (EOS V) (umem ?s4) (a + 1) cs"
      using r s3(3,4) c(3) by (simp_all add: terminal_cmds_def own_mem_def numeral_2_eq_2)
    from Cons.IH [OF this(2,1)] obtain s' where "termWrite_loop K V asid (a + 1) (r + 1) ?s4 = Some (v', s')"
      "supports (nuc s') = supports (nuc ?s4)" "bus s' = bus ?s4 @ concat (map (terminal_cmds (nucl V) (asid - 1)) out')"
      by blast
    moreover have "v = v'" "out = c # out'" using True r Cons.prems(2) by simp_all
    moreover have "?st AND TERMSTATMASK = RECVD" using True by (simp add: terminal_ok_def)
    ultimately show ?thesis using run s3(3,4) by (auto simp: own_mem_def)
  next
    case False
    have "termWrite_loop K V asid a (- ?st) (put_char a (EOS V) ?s4) = Some (- ?st, put_char a (EOS V) ?s4)"
      by (subst termWrite_loop.simps) simp
    moreover have "v = - ?st" "out = [c]" using False Cons.prems(2) by simp_all
    moreover have "\<not> ?st AND TERMSTATMASK = RECVD" using False by (simp add: terminal_ok_def)
    ultimately show ?thesis using run s3(3,4) by (auto simp: own_mem_def)
  qed
qed

subsection \<open>SYS11 and SYS12\<close>

definition returned :: "umps \<Rightarrow> u32 \<Rightarrow> state_t \<Rightarrow> state_t" where
  "returned U v st = (set_gpr (ix_v0 U) v st)\<lparr>pc_epc := pc_epc st + 4\<rparr>"

lemma return_to_run:
  assumes "supp \<noteq> 0"
  shows "\<exists>s'. return_to V supp v s = Some (LDST (returned (nucl V) v (sup_exceptState (supports (nuc s) supp) GENERALEXCEPT)), s') \<and>
    bus s' = bus s \<and> umem s' = umem s"
  using assms by (simp add: return_to_def upd_supp_put returned_def) (simp add: put_supp_def)

definition caller_state :: "sup_state \<Rightarrow> u32 \<Rightarrow> state_t" where
  "caller_state s supp = sup_exceptState (supports (nuc s) supp) GENERALEXCEPT"

text \<open>
  SYS11 equals its reference for every string and every behaviour of the printer: the
  process gets the printer of its ASID for itself, the characters of its string go to that
  printer in order, one wait for each, until the end of the string or until one is refused; the
  call always returns behind the instruction that made it, with the number of characters or minus
  the status that refused one.
\<close>

theorem write_To_Printer_ref:
  assumes "supp \<noteq> 0" and "\<not> bad_string (reg_a1 (nucl V) (caller_state s supp)) (reg_a2 (nucl V) (caller_state s supp))"
    and "asid = sup_asid (supports (nuc s) supp)" "unat (asid - 1) < DEVPERINT (nucl V)"
    and "device_kernel K (PRNTINT (nucl V)) 0 sts"
    and "cstring (EOS V) (umem s) (reg_a1 (nucl V) (caller_state s supp)) cs"
    and "print_ref printer_ok 3 sts (length (bus s) + 1) 0 cs = (v, out)"
  shows "\<exists>s'. write_To_Printer K V supp s = Some (LDST (returned (nucl V) v (caller_state s supp)), s') \<and>
    bus s' = bus s @ Sys PASSEREN (adr_printerSemaphores V + 4 * asid) 0 0 #
      concat (map (printer_cmds (nucl V) (asid - 1)) out) @ [Sys VERHOGEN (adr_printerSemaphores V + 4 * asid) 0 0]"
proof -
  let ?sem = "adr_printerSemaphores V + 4 * asid" and ?a = "reg_a1 (nucl V) (caller_state s supp)"
  obtain w1 s1 where 1: "syscall K PASSEREN ?sem 0 0 s = Some (w1, s1)" "bus s1 = bus s @ [Sys PASSEREN ?sem 0 0]" "own_mem s s1"
    using device_kernel_mutex [OF assms(5)] by blast
  have "cstring (EOS V) (umem s1) ?a cs" "print_ref printer_ok 3 sts (length (bus s1)) 0 cs = (v, out)"
    using 1 assms(6,7) by (simp_all add: own_mem_def)
  from printer_loop_ref [OF assms(5,4) this] obtain s2 where 2: "printer_loop K V asid ?a 0 s1 = Some (v, s2)"
    "supports (nuc s2) = supports (nuc s1)" "bus s2 = bus s1 @ concat (map (printer_cmds (nucl V) (asid - 1)) out)" by blast
  obtain w3 s3 where 3: "syscall K VERHOGEN ?sem 0 0 s2 = Some (w3, s3)" "bus s3 = bus s2 @ [Sys VERHOGEN ?sem 0 0]" "own_mem s2 s3"
    using device_kernel_mutex [OF assms(5)] by blast
  obtain s4 where "return_to V supp v s3 = Some (LDST (returned (nucl V) v (caller_state s supp)), s4)" "bus s4 = bus s3"
    using return_to_run [OF assms(1), of V v s3] 1(3) 2(2) 3(3) by (auto simp: own_mem_def caller_state_def)
  with 1 2 3 assms(1-3) show ?thesis
    by (simp add: write_To_Printer_def get_supp_def load_supp_def Let_def caller_state_def)
qed

text \<open>
  C28: SYS12 equals its reference for every string and every behaviour of the terminal, in the
  same way: one transmit command for each character, the status byte decides, the terminal's write
  semaphore is held from the first to the last.
\<close>

theorem write_To_Terminal_ref:
  assumes "supp \<noteq> 0" and "\<not> bad_string (reg_a1 (nucl V) (caller_state s supp)) (reg_a2 (nucl V) (caller_state s supp))"
    and "asid = sup_asid (supports (nuc s) supp)" "unat (asid - 1) < DEVPERINT (nucl V)"
    and "device_kernel K (TERMINT (nucl V)) 0 sts"
    and "cstring (EOS V) (umem s) (reg_a1 (nucl V) (caller_state s supp)) cs"
    and "print_ref terminal_ok 2 sts (length (bus s) + 1) 0 cs = (v, out)"
  shows "\<exists>s'. write_To_Terminal K V supp s = Some (LDST (returned (nucl V) v (caller_state s supp)), s') \<and>
    bus s' = bus s @ Sys PASSEREN (adr_termWriteSemaphores V + 4 * asid) 0 0 #
      concat (map (terminal_cmds (nucl V) (asid - 1)) out) @ [Sys VERHOGEN (adr_termWriteSemaphores V + 4 * asid) 0 0]"
proof -
  let ?sem = "adr_termWriteSemaphores V + 4 * asid" and ?a = "reg_a1 (nucl V) (caller_state s supp)"
  obtain w1 s1 where 1: "syscall K PASSEREN ?sem 0 0 s = Some (w1, s1)" "bus s1 = bus s @ [Sys PASSEREN ?sem 0 0]" "own_mem s s1"
    using device_kernel_mutex [OF assms(5)] by blast
  have "cstring (EOS V) (umem s1) ?a cs" "print_ref terminal_ok 2 sts (length (bus s1)) 0 cs = (v, out)"
    using 1 assms(6,7) by (simp_all add: own_mem_def)
  from termWrite_loop_ref [OF assms(5,4) this] obtain s2 where 2: "termWrite_loop K V asid ?a 0 s1 = Some (v, s2)"
    "supports (nuc s2) = supports (nuc s1)" "bus s2 = bus s1 @ concat (map (terminal_cmds (nucl V) (asid - 1)) out)" by blast
  obtain w3 s3 where 3: "syscall K VERHOGEN ?sem 0 0 s2 = Some (w3, s3)" "bus s3 = bus s2 @ [Sys VERHOGEN ?sem 0 0]" "own_mem s2 s3"
    using device_kernel_mutex [OF assms(5)] by blast
  obtain s4 where "return_to V supp v s3 = Some (LDST (returned (nucl V) v (caller_state s supp)), s4)" "bus s4 = bus s3"
    using return_to_run [OF assms(1), of V v s3] 1(3) 2(2) 3(3) by (auto simp: own_mem_def caller_state_def)
  with 1 2 3 assms(1-3) show ?thesis
    by (simp add: write_To_Terminal_def get_supp_def load_supp_def Let_def caller_state_def)
qed

lemma print_ref_all:
  assumes "\<And>k. ok (sts k)"
  shows "print_ref ok w sts p r cs = (r + of_nat (length cs), cs)"
  by (induction cs arbitrary: p r) (simp_all add: assms add.assoc)

text \<open>
  Writing completes: when the terminal takes every character, SYS12 comes back, with the
  number of characters in \<open>v0\<close>, and exactly the string has been transmitted, in order.  The loop
  of the code has no bound of its own; it ends because the string does.
\<close>

theorem write_To_Terminal_complete:
  assumes "supp \<noteq> 0" and "\<not> bad_string (reg_a1 (nucl V) (caller_state s supp)) (reg_a2 (nucl V) (caller_state s supp))"
    and "asid = sup_asid (supports (nuc s) supp)" "unat (asid - 1) < DEVPERINT (nucl V)"
    and "device_kernel K (TERMINT (nucl V)) 0 sts" "\<And>k. sts k AND TERMSTATMASK = RECVD"
    and "cstring (EOS V) (umem s) (reg_a1 (nucl V) (caller_state s supp)) cs"
  shows "\<exists>st s'. write_To_Terminal K V supp s = Some (LDST st, s') \<and> reg_v0 (nucl V) st = of_nat (length cs) \<and>
    pc_epc st = pc_epc (caller_state s supp) + 4 \<and>
    filter (\<lambda>e. case e of Sys _ _ _ _ \<Rightarrow> False | _ \<Rightarrow> True) (drop (length (bus s)) (bus s')) =
      map (\<lambda>c. TransmCommand (TERMINT (nucl V)) (asid - 1) (PRINTCHR OR push_bit BYTELENGTH (scast c))) cs"
proof -
  have r: "print_ref terminal_ok 2 sts (length (bus s) + 1) 0 cs = (of_nat (length cs), cs)"
    using print_ref_all [of terminal_ok sts] assms(6) by (simp add: terminal_ok_def)
  have f: "filter (\<lambda>e. case e of Sys _ _ _ _ \<Rightarrow> False | _ \<Rightarrow> True) (concat (map (terminal_cmds U no) cs)) =
     map (\<lambda>c. TransmCommand (TERMINT U) no (PRINTCHR OR push_bit BYTELENGTH (scast c))) cs" for U no
    by (induction cs) (simp_all add: terminal_cmds_def)
  show ?thesis
    using write_To_Terminal_ref [OF assms(1-5,7) r]
    by (auto simp: f returned_def reg_v0_def)
qed

text \<open>A process with ASID 3 whose string is ''Hi'', and a kernel whose devices always answer \<open>st\<close>.\<close>

definition steady :: "u32 \<Rightarrow> kernel" where
  "steady st n a b c s = Some (if n = GETSUPPORTPTR then 0x2000 else st, s)"

lemma steady_device: "device_kernel (steady st) line d (\<lambda>_. st)"
  by (simp add: device_kernel_def steady_def syscall_numbers)

definition call_example :: "u32 \<Rightarrow> sup_state" where
  "call_example n = put_supp 0x2000 (zero_support\<lparr>sup_asid := 3, sup_exceptState := (\<lambda>_. zero_state\<lparr>
       gpr := (\<lambda>_. 0)(3 := n, 4 := 0x80001000, 5 := 2)\<rparr>)\<rparr>)
     (supp_example\<lparr>umem := (\<lambda>_. 0)(0x80001000 := 72, 0x80001001 := 105)\<rparr>)"

lemma call_example_facts:
  "caller_state (call_example n) 0x2000 = zero_state\<lparr>gpr := (\<lambda>_. 0)(3 := n, 4 := 0x80001000, 5 := 2)\<rparr>"
  "sup_asid (supports (nuc (call_example n)) 0x2000) = 3" "bus (call_example n) = []"
  "umem (call_example n) = (\<lambda>_. 0)(0x80001000 := 72, 0x80001001 := 105)"
  by (simp_all add: caller_state_def call_example_def put_supp_def supp_example_def)

lemma call_example_ok:
  "\<not> bad_string (reg_a1 (nucl umps3s) (caller_state (call_example n) 0x2000)) (reg_a2 (nucl umps3s) (caller_state (call_example n) 0x2000))"
  "unat (sup_asid (supports (nuc (call_example n)) 0x2000) - 1) < DEVPERINT (nucl umps3s)"
  "cstring (EOS umps3s) (umem (call_example n)) (reg_a1 (nucl umps3s) (caller_state (call_example n) 0x2000)) [72, 105]"
  by (simp_all add: call_example_facts bad_string_def reg_defs umps3_def umps3s_def UPROCSTARTADDR_def USERSTACKTOP_def)

theorem write_To_Printer_ref_witness:
  "\<exists>s'. write_To_Printer (steady 1) umps3s 0x2000 (call_example 11) =
     Some (LDST (returned umps3 2 (caller_state (call_example 11) 0x2000)), s')"
proof -
  have r: "print_ref printer_ok 3 (\<lambda>_. 1) (length (bus (call_example 11)) + 1) 0 [72, 105] = (2, [72, 105])"
    by (simp add: printer_ok_def dev_consts)
  show ?thesis
    using write_To_Printer_ref [OF _ call_example_ok(1) refl call_example_ok(2) steady_device call_example_ok(3) r] by auto
qed

theorem write_To_Terminal_ref_witness:
  "\<exists>s'. write_To_Terminal (steady 4) umps3s 0x2000 (call_example 12) =
     Some (LDST (returned umps3 (- 4) (caller_state (call_example 12) 0x2000)), s')"
proof -
  have r: "print_ref terminal_ok 2 (\<lambda>_. 4) (length (bus (call_example 12)) + 1) 0 [72, 105] = (- 4, [72])"
    by (simp add: terminal_ok_def dev_consts)
  show ?thesis
    using write_To_Terminal_ref [OF _ call_example_ok(1) refl call_example_ok(2) steady_device call_example_ok(3) r] by auto
qed

theorem write_To_Terminal_complete_witness:
  "\<exists>st s'. write_To_Terminal (steady 5) umps3s 0x2000 (call_example 12) = Some (LDST st, s') \<and> reg_v0 umps3 st = 2"
  using write_To_Terminal_complete [OF _ call_example_ok(1) refl call_example_ok(2) steady_device _ call_example_ok(3), of 5 12]
  by (auto simp: dev_consts)

subsection \<open>SYS13\<close>

definition read_ok :: "umps \<Rightarrow> u32 \<Rightarrow> bool" where
  "read_ok U st \<longleftrightarrow> st AND TERMSTATMASK = RECVD \<or> st AND TERMSTATMASK = READY U"

definition received :: "u32 \<Rightarrow> u8" where "received st = ucast (drop_bit 8 st)"

text \<open>
  The reference: from the statuses of the device, the result and the bytes written; \<open>None\<close> when
  they end before the line does.
\<close>

fun read_ref :: "umps \<Rightarrow> u8 \<Rightarrow> u32 \<Rightarrow> u32 list \<Rightarrow> (u32 \<times> u8 list) option" where
  "read_ref U eos r [] = None"
| "read_ref U eos r (st # sts) =
     (if \<not> read_ok U st then (if sts = [] then Some (- st, [eos]) else None)
      else if received st = newline then (if sts = [] then Some (r + 1, [newline]) else None)
      else map_option (\<lambda>(v, bs). (v, received st # bs)) (read_ref U eos (r + 1) sts))"

fun put_bytes :: "u32 \<Rightarrow> u8 list \<Rightarrow> (u32 \<Rightarrow> u8) \<Rightarrow> u32 \<Rightarrow> u8" where
  "put_bytes a [] m = m"
| "put_bytes a (b # bs) m = put_bytes (a + 1) bs (m(a := b))"

definition read_cmds :: "umps \<Rightarrow> u32 \<Rightarrow> io_event list" where
  "read_cmds U no = [RecvCommand (TERMINT U) no RECVCHR, Sys IOWAIT (TERMINT U) no 1]"

lemma read_char:
  assumes K: "device_kernel K (TERMINT (nucl V)) 1 sts" and no: "unat (asid - 1) < DEVPERINT (nucl V)"
  shows "\<exists>s1 s'. recv_command_put (nucl V) (TERMINT (nucl V)) (asid - 1) RECVCHR (on_nuc disable_interrupts s) = Some s1 \<and>
    syscall K IOWAIT (TERMINT (nucl V)) (asid - 1) 1 s1 = Some (sts (length (bus s) + 2), s') \<and>
    bus s' = bus s @ read_cmds (nucl V) (asid - 1) \<and> own_mem s s'"
proof -
  obtain s1 where 1: "recv_command_put (nucl V) (TERMINT (nucl V)) (asid - 1) RECVCHR (on_nuc disable_interrupts s) = Some s1"
    "bus s1 = bus s @ [RecvCommand (TERMINT (nucl V)) (asid - 1) RECVCHR]" "own_mem s s1"
    using dev_puts(3) [OF no, of "TERMINT (nucl V)" RECVCHR "on_nuc disable_interrupts s"] by (auto simp: own_mem_def)
  let ?l = "log (Sys IOWAIT (TERMINT (nucl V)) (asid - 1) 1) s1"
  obtain s3 where 3: "K IOWAIT (TERMINT (nucl V)) (asid - 1) 1 ?l = Some (sts (length (bus ?l)), s3)" "bus s3 = bus ?l"
    "umem s3 = umem ?l" "supports (nuc s3) = supports (nuc ?l)"
    using K unfolding device_kernel_def by blast
  have "length (bus ?l) = length (bus s) + 2" using 1(2) by simp
  with 1 3 show ?thesis by (auto simp: syscall_def own_mem_def read_cmds_def numeral_2_eq_2)
qed

text \<open>The statuses from position \<open>p\<close> on, two events each.\<close>

fun statuses :: "(nat \<Rightarrow> u32) \<Rightarrow> nat \<Rightarrow> nat \<Rightarrow> u32 list" where
  "statuses sts p 0 = []"
| "statuses sts p (Suc n) = sts (p + 2) # statuses sts (p + 2) n"

lemma termRead_loop_ref:
  assumes K: "device_kernel K (TERMINT (nucl V)) 1 sts" and no: "unat (asid - 1) < DEVPERINT (nucl V)"
  shows "read_ref (nucl V) (EOS V) r (statuses sts (length (bus s)) n) = Some (v, bs) \<Longrightarrow> rcvd \<noteq> newline \<Longrightarrow> read_ok (nucl V) st \<Longrightarrow>
    \<exists>s'. termRead_loop K V asid a r st rcvd s = Some (v, s') \<and> supports (nuc s') = supports (nuc s) \<and>
      umem s' = put_bytes a bs (umem s) \<and> bus s' = bus s @ concat (replicate n (read_cmds (nucl V) (asid - 1)))"
proof (induction n arbitrary: s a r st rcvd bs)
  case (Suc n)
  let ?st = "sts (length (bus s) + 2)"
  obtain s1 s3 where s3: "recv_command_put (nucl V) (TERMINT (nucl V)) (asid - 1) RECVCHR (on_nuc disable_interrupts s) = Some s1"
    "syscall K IOWAIT (TERMINT (nucl V)) (asid - 1) 1 s1 = Some (?st, s3)"
    "bus s3 = bus s @ read_cmds (nucl V) (asid - 1)" "own_mem s s3"
    using read_char [OF K no] by blast
  let ?s4 = "put_char a (received ?st) (on_nuc enable_interrupts s3)"
  have go: "rcvd \<noteq> newline \<and> (st AND TERMSTATMASK = READY (nucl V) \<or> st AND TERMSTATMASK = 5)"
    using Suc.prems(2,3) by (auto simp: read_ok_def RECVD_def)
  have run: "termRead_loop K V asid a r st rcvd s = (if \<not> read_ok (nucl V) ?st
      then termRead_loop K V asid a (- ?st) ?st (received ?st) (put_char a (EOS V) ?s4)
      else termRead_loop K V asid (a + 1) (r + 1) ?st (received ?st) ?s4)"
    using s3(1,2) go by (subst termRead_loop.simps) (simp add: Let_def received_def read_ok_def)
  have stop: "termRead_loop K V asid a' r' st' rcvd' s' = Some (r', s')" if "rcvd' = newline \<or> \<not> read_ok (nucl V) st'" for a' r' st' rcvd' s'
    using that by (subst termRead_loop.simps) (auto simp: read_ok_def RECVD_def)
  have b4: "bus ?s4 = bus s @ read_cmds (nucl V) (asid - 1)" "supports (nuc ?s4) = supports (nuc s)" "umem ?s4 = (umem s)(a := received ?st)"
    using s3(3,4) by (simp_all add: own_mem_def)
  show ?case
  proof (cases "read_ok (nucl V) ?st")
    case False
    then have "n = 0" "v = - ?st" "bs = [EOS V]" using Suc.prems(1) by (cases n; simp)+
    with False show ?thesis using stop b4 s3(4) unfolding run by (auto simp: own_mem_def)
  next
    case ok: True
    show ?thesis
    proof (cases "received ?st = newline")
      case True
      then have "n = 0" "v = r + 1" "bs = [newline]" using Suc.prems(1) ok by (cases n; simp)+
      with ok True show ?thesis using stop b4 s3(4) unfolding run by (auto simp: own_mem_def)
    next
      case False
      obtain bs' where bs': "read_ref (nucl V) (EOS V) (r + 1) (statuses sts (length (bus s) + 2) n) = Some (v, bs')" "bs = received ?st # bs'"
        using Suc.prems(1) ok False by auto
      have "length (bus ?s4) = length (bus s) + 2" using b4(1) by (simp add: read_cmds_def)
      with bs'(1) have "read_ref (nucl V) (EOS V) (r + 1) (statuses sts (length (bus ?s4)) n) = Some (v, bs')" by simp
      from Suc.IH [OF this False ok, of "a + 1", unfolded b4] ok bs'(2) show ?thesis unfolding run by (simp add: fun_upd_def)
    qed
  qed
qed simp

text \<open>
  C29: SYS13 equals its reference: while characters come, each is stored behind the other in
  the process' memory, until the end of the line, which is stored too; the result is their number.
  A status that is neither ready nor received ends the call with minus that status and an end of
  string.  The terminal's read semaphore is held all the time and given back.  The call
  has no bound for the buffer, so the line is stored as long as it is.
\<close>

theorem read_From_Terminal_ref:
  assumes "supp \<noteq> 0" and "\<not> reg_a1 (nucl V) (caller_state s supp) < UPROCSTARTADDR"
    and "asid = sup_asid (supports (nuc s) supp)" "unat (asid - 1) < DEVPERINT (nucl V)"
    and "device_kernel K (TERMINT (nucl V)) 1 sts" and "READY (nucl V) AND TERMSTATMASK = READY (nucl V)"
    and "read_ref (nucl V) (EOS V) 0 (statuses sts (length (bus s) + 1) n) = Some (v, bs)"
  shows "\<exists>s'. read_From_Terminal K V supp s = Some (LDST (returned (nucl V) v (caller_state s supp)), s') \<and>
    umem s' = put_bytes (reg_a1 (nucl V) (caller_state s supp)) bs (umem s) \<and>
    bus s' = bus s @ Sys PASSEREN (adr_termReadSemaphores V + 4 * asid) 0 0 #
      concat (replicate n (read_cmds (nucl V) (asid - 1))) @ [Sys VERHOGEN (adr_termReadSemaphores V + 4 * asid) 0 0]"
proof -
  let ?sem = "adr_termReadSemaphores V + 4 * asid" and ?a = "reg_a1 (nucl V) (caller_state s supp)"
  obtain w1 s1 where 1: "syscall K PASSEREN ?sem 0 0 s = Some (w1, s1)" "bus s1 = bus s @ [Sys PASSEREN ?sem 0 0]" "own_mem s s1"
    using device_kernel_mutex [OF assms(5)] by blast
  have "read_ref (nucl V) (EOS V) 0 (statuses sts (length (bus s1)) n) = Some (v, bs)" using 1(2) assms(7) by simp
  moreover have "(48 :: u8) \<noteq> newline" by (simp add: newline_def)
  moreover have "read_ok (nucl V) (READY (nucl V))" using assms(6) by (simp add: read_ok_def)
  ultimately obtain s2 where 2: "termRead_loop K V asid ?a 0 (READY (nucl V)) 48 s1 = Some (v, s2)"
    "supports (nuc s2) = supports (nuc s1)" "umem s2 = put_bytes ?a bs (umem s1)"
    "bus s2 = bus s1 @ concat (replicate n (read_cmds (nucl V) (asid - 1)))"
    using termRead_loop_ref [OF assms(5,4)] by blast
  obtain w3 s3 where 3: "syscall K VERHOGEN ?sem 0 0 s2 = Some (w3, s3)" "bus s3 = bus s2 @ [Sys VERHOGEN ?sem 0 0]" "own_mem s2 s3"
    using device_kernel_mutex [OF assms(5)] by blast
  obtain s4 where "return_to V supp v s3 = Some (LDST (returned (nucl V) v (caller_state s supp)), s4)" "bus s4 = bus s3" "umem s4 = umem s3"
    using return_to_run [OF assms(1), of V v s3] 1(3) 2(2) 3(3) by (auto simp: own_mem_def caller_state_def)
  with 1 2 3 assms(1-3) show ?thesis
    by (simp add: read_From_Terminal_def get_supp_def load_supp_def Let_def caller_state_def own_mem_def)
qed

definition typed :: "u32 list \<Rightarrow> nat \<Rightarrow> u32" where
  "typed l i = (if i < length l then l ! i else 0)"

definition typing :: "u32 list \<Rightarrow> kernel" where
  "typing l n a b c s = Some (if n = IOWAIT then typed l (length (bus s)) else 0, s)"

theorem read_From_Terminal_ref_witness:
  "\<exists>s'. read_From_Terminal (typing [0, 0, 0, 0x4105, 0, 0x0A05]) umps3s 0x2000 (call_example 13) =
     Some (LDST (returned umps3 2 (caller_state (call_example 13) 0x2000)), s') \<and>
     umem s' = put_bytes 0x80001000 [65, 10] (umem (call_example 13))"
proof -
  let ?l = "[0, 0, 0, 0x4105, 0, 0x0A05]" and ?sts = "typed [0, 0, 0, 0x4105, 0, 0x0A05]"
  have k: "device_kernel (typing ?l) line d ?sts" for line d
    by (simp add: device_kernel_def typing_def syscall_numbers)
  have r: "read_ref (nucl umps3s) (EOS umps3s) 0 (statuses ?sts (length (bus (call_example 13)) + 1) 2) = Some (2, [65, 10])"
  proof -
    have "typed ?l 3 = 0x4105" "typed ?l 5 = 0x0A05" by (simp_all add: typed_def)
    then have "statuses ?sts (length (bus (call_example 13)) + 1) 2 = [0x4105, 0x0A05]"
      by (simp add: call_example_facts numeral_2_eq_2 numeral_3_eq_3 eval_nat_numeral)
    then show ?thesis by (simp add: read_ok_def received_def dev_consts newline_def umps3_def umps3s_def)
  qed
  show ?thesis
    using read_From_Terminal_ref [OF _ _ refl call_example_ok(2) k _ r]
    by (auto simp: call_example_facts reg_defs umps3_def dev_consts UPROCSTARTADDR_def)
qed

subsection \<open>SYS9, SYS10 and calls that are refused\<close>

text \<open>
  SYS9 ends a user process in order: its support structure goes back on the stack, the
  first process is signalled once, and only then the process asks for SYS2.
\<close>

theorem terminate_support_order:
  assumes "supp_stack s ps" and "supp \<notin> set ps" and "supp \<noteq> 0"
    and "\<And>s. K VERHOGEN (adr_masterSem V) 0 0 s = Some (v, s)"
  shows "\<exists>s'. terminate_support K V supp s = Some (SYSCALL TERMPROCESS 0 0 0, s') \<and> supp_stack s' (supp # ps) \<and>
    bus s' = bus s @ [Sys VERHOGEN (adr_masterSem V) 0 0]"
proof -
  obtain s1 where s1: "dealloc_supp supp s = Some s1" "supp_stack s1 (supp # ps)" "supp_frame s s1 (set (supp # ps))"
    using dealloc_supp_ok [OF assms(1-3)] by blast
  have "bus s1 = bus s" using s1(3) by (auto simp: supp_frame_def)
  moreover have "supp_stack (log e s1) (supp # ps)" for e using s1(2) by (simp add: supp_stack_def log_def)
  ultimately show ?thesis using s1(1) assms(4) by (simp add: terminate_support_def notifyTerminated_def syscall_def)
qed

theorem terminate_support_order_witness:
  "\<exists>s'. terminate_support calm umps3s 0x2000 supp_example = Some (SYSCALL TERMPROCESS 0 0 0, s') \<and> supp_stack s' [0x2000]"
proof -
  have "supp_stack supp_example []" by (simp add: supp_stack_def supp_example_def)
  moreover have "calm VERHOGEN (adr_masterSem umps3s) 0 0 s = Some (1, s)" for s by (simp add: calm_def syscall_numbers)
  ultimately show ?thesis using terminate_support_order [of supp_example "[]" "0x2000" calm umps3s 1] by auto
qed

text \<open>
  SYS10 never comes back to the instruction after it: the state it loads has the program
  counter of the call itself, so the process makes the same call again, for ever.  The value it
  leaves in \<open>v0\<close> is the start time minus the clock, a negative number when the machine has run.
\<close>

theorem get_TOD_repeats:
  assumes "supp \<noteq> 0"
  shows "\<exists>st s'. get_TOD V supp s = Some (LDST st, s') \<and> pc_epc st = pc_epc (caller_state s supp) \<and>
    reg_v0 (nucl V) st = globalStartT (nuc s) - tod_in (hardware (nuc s)) (tod_ix (hardware (nuc s))) \<and>
    (\<forall>r. r \<noteq> ix_v0 (nucl V) \<longrightarrow> gpr st r = gpr (caller_state s supp) r)"
  using assms by (simp add: get_TOD_def read_tod_def Let_def upd_supp_put caller_state_def reg_v0_def set_gpr_def)

theorem get_TOD_repeats_witness:
  "\<exists>st s'. get_TOD umps3s 0x2000 (call_example 10) = Some (LDST st, s') \<and> pc_epc st = 0 \<and> reg_a0 umps3 st = 10"
  using get_TOD_repeats [of "0x2000" umps3s "call_example 10"]
  by (auto simp: call_example_facts zero_state_def reg_defs umps3_def)

text \<open>
  A call with a bad buffer touches nothing: for a length that is not in 1..128, or a string
  that does not lie between the start of the user's text and the top of its stack, no
  semaphore is taken, nothing is sent to the device and the process is terminated.  A number that
  is no call of the support level falls out of the switch, and the handler returns.
\<close>

theorem refused_calls:
  assumes "supp \<noteq> 0" and "n = reg_a0 (nucl V) (caller_state s supp)"
    and "(n = WRITEPRINTER \<or> n = WRITETERMINAL) \<and> bad_string (reg_a1 (nucl V) (caller_state s supp)) (reg_a2 (nucl V) (caller_state s supp)) \<or>
      n = READTERMINAL \<and> reg_a1 (nucl V) (caller_state s supp) < UPROCSTARTADDR \<or>
      n \<notin> {TERMINATE, GET_TOD, WRITEPRINTER, WRITETERMINAL, READTERMINAL}"
  shows "handleSupportSystemcalls K V supp s =
    Some (if n \<in> {WRITEPRINTER, WRITETERMINAL, READTERMINAL} then SYSCALL TERMINATE 0 0 0 else RETURN, s)"
  using assms by (auto simp: handleSupportSystemcalls_def get_supp_def load_supp_def Let_def caller_state_def
      write_To_Printer_def write_To_Terminal_def read_From_Terminal_def syscall_numbers)

theorem refused_calls_witness:
  "handleSupportSystemcalls calm umps3s 0x2000 (call_example 14) = Some (RETURN, call_example 14)"
  using refused_calls [of "0x2000" 14 umps3s "call_example 14" calm]
  by (simp add: call_example_facts reg_defs umps3_def syscall_numbers)

end
