(* ===== verification/P3_Props.thy ===== *)
theory P3_Props
  imports Supp_Props
begin

text \<open>
  What the first process sets up before it starts the user processes (\<open>src/p3test.c\<close>,
  \<open>src/initSupp.c\<close>): the support structure of each ASID, the stack of free support structures, the
  semaphores.  The start itself is run on the modelled nucleus in \<open>User_Start\<close>.
\<close>

text \<open>The support structure of process \<open>i\<close>.\<close>

definition uproc_support :: "supp_umps \<Rightarrow> nat \<Rightarrow> support_t \<Rightarrow> support_t" where
  "uproc_support V i x = with_pages (uproc_contexts V (x\<lparr>sup_asid := of_nat i + 1\<rparr>)) 32"

lemma supp_user_commute:
  "supp_user (uproc_contexts V x) = uproc_contexts V (supp_user x)"
  "supp_user (x\<lparr>sup_asid := v\<rparr>) = (supp_user x)\<lparr>sup_asid := v\<rparr>"
  by (simp_all add: supp_user_def uproc_contexts_def Let_def)

lemma supp_user_pages: "supp_user (with_pages x n) = with_pages (supp_user x) n"
  by (cases x) (simp add: supp_user_def with_pages_def cong: if_cong)

lemma uproc_support_user: "supp_user x = supp_user y \<Longrightarrow> supp_user (uproc_support V i x) = supp_user (uproc_support V i y)"
  by (simp add: uproc_support_def supp_user_commute supp_user_pages)

lemma uproc_support_links: "next_supp (uproc_support V i x) = next_supp x" "prev_supp (uproc_support V i x) = prev_supp x"
  by (simp_all add: uproc_support_def uproc_contexts_def with_pages_def Let_def)

lemma supp_user_fields:
  assumes "supp_user x = supp_user y"
  shows "sup_asid x = sup_asid y" "sup_privatePgTbl x = sup_privatePgTbl y" "sup_exceptContext x = sup_exceptContext y"
  using assms by (cases x; cases y; simp add: supp_user_def)+

lemma uproc_support_fields:
  "sup_asid (uproc_support V i x) = of_nat i + 1"
  "j < 32 \<Longrightarrow> sup_privatePgTbl (uproc_support V i x) j = init_pte (of_nat i + 1) j"
  "sup_exceptContext (uproc_support V i x) PGFAULTEXCEPT = \<lparr>stackPtr = RAMTOP (nucl V) - (2 * of_nat i + 2) * PAGESIZE,
     ctx_status = TEBITON OR IECON, pc = adr_handlePageFault V\<rparr>"
  "sup_exceptContext (uproc_support V i x) GENERALEXCEPT = \<lparr>stackPtr = RAMTOP (nucl V) - (2 * of_nat i + 3) * PAGESIZE,
     ctx_status = TEBITON OR IECON, pc = adr_handleSupportLevelExceptions V\<rparr>"
  by (simp_all add: uproc_support_def with_pages_def uproc_contexts_def Let_def PGFAULTEXCEPT_def GENERALEXCEPT_def
      algebra_simps)

lemma put_supp_frame [simp]: "bus (put_supp a x s) = bus s" "freeSupp_tp (put_supp a x s) = freeSupp_tp s"
  by (simp_all add: put_supp_def)

lemma supp_stack_cong:
  "freeSupp_tp s' = freeSupp_tp s \<Longrightarrow> supports (nuc s') = supports (nuc s) \<Longrightarrow> supp_stack s' ps = supp_stack s ps"
  by (simp add: supp_stack_def)

lemma supp_stack_put: "supp_stack s ps \<Longrightarrow> p \<notin> set ps \<Longrightarrow> supp_stack (put_supp p x s) ps"
  unfolding supp_stack_def by (subst stack_at_cong [where h = "supports (nuc s)"]) auto

lemma initSuppStack_run:
  assumes "inj_on (adr_uproc_supp V) {0..8}" "0 \<notin> adr_uproc_supp V ` {0..8}" and "freeSupp_tp s = 0"
  shows "\<exists>s'. initSuppStack V s = Some s' \<and> supp_stack s' (map (adr_uproc_supp V) (rev [0..<8])) \<and> bus s' = bus s \<and>
    nuc s' = (nuc s)\<lparr>supports := supports (nuc s')\<rparr> \<and>
    (\<forall>q. supp_user (supports (nuc s') q) = supp_user (supports (nuc s) q))"
proof -
  have "\<exists>s'. fold (\<lambda>i r. do { s \<leftarrow> r; dealloc_supp (adr_uproc_supp V i) s }) [0..<n] (Some s) = Some s' \<and>
    supp_stack s' (map (adr_uproc_supp V) (rev [0..<n])) \<and> bus s' = bus s \<and> nuc s' = (nuc s)\<lparr>supports := supports (nuc s')\<rparr> \<and>
    (\<forall>q. supp_user (supports (nuc s') q) = supp_user (supports (nuc s) q))" if "n \<le> 8" for n
    using that
  proof (induction n)
    case 0
    then show ?case using assms(3) by (simp add: supp_stack_def)
  next
    case (Suc n)
    then obtain s1 where s1: "fold (\<lambda>i r. do { s \<leftarrow> r; dealloc_supp (adr_uproc_supp V i) s }) [0..<n] (Some s) = Some s1"
      "supp_stack s1 (map (adr_uproc_supp V) (rev [0..<n]))" "bus s1 = bus s"
      "nuc s1 = (nuc s)\<lparr>supports := supports (nuc s1)\<rparr>" "\<forall>q. supp_user (supports (nuc s1) q) = supp_user (supports (nuc s) q)" by auto
    have "adr_uproc_supp V n \<notin> set (map (adr_uproc_supp V) (rev [0..<n]))" "adr_uproc_supp V n \<noteq> 0"
      using assms(1,2) Suc.prems by (auto dest!: inj_onD)
    from dealloc_supp_ok [OF s1(2) this] obtain s2 where s2: "dealloc_supp (adr_uproc_supp V n) s1 = Some s2"
      "supp_stack s2 (adr_uproc_supp V n # map (adr_uproc_supp V) (rev [0..<n]))"
      "supp_frame s1 s2 (set (adr_uproc_supp V n # map (adr_uproc_supp V) (rev [0..<n])))" by blast
    have b: "bus s2 = bus s1" "\<forall>q. supp_user (supports (nuc s2) q) = supp_user (supports (nuc s1) q)"
      and n: "nuc s2 = (nuc s1)\<lparr>supports := supports (nuc s2)\<rparr>"
      using s2(3) by (auto simp: supp_frame_def)
    have "nuc s2 = (nuc s)\<lparr>supports := supports (nuc s2)\<rparr>" by (subst n, subst s1(4)) simp
    with s1(1-3,5) s2(1,2) b show ?case by simp
  qed
  from this [of 8] show ?thesis by (simp add: initSuppStack_def UPROCMAX_def)
qed

lemma put_int_simps [simp]:
  "bus (put_int a v s) = bus s" "freeSupp_tp (put_int a v s) = freeSupp_tp s" "supports (nuc (put_int a v s)) = supports (nuc s)"
  by (simp_all add: put_int_def on_nuc_def)

lemma fold_put_int:
  "bus (fold (\<lambda>i. put_int (f i) v) xs s) = bus s" "freeSupp_tp (fold (\<lambda>i. put_int (f i) v) xs s) = freeSupp_tp s"
  "supports (nuc (fold (\<lambda>i. put_int (f i) v) xs s)) = supports (nuc s)"
  "bus (fold (\<lambda>i s. put_int (f i) v (put_int (g i) v (put_int (h i) v s))) xs s) = bus s"
  "freeSupp_tp (fold (\<lambda>i s. put_int (f i) v (put_int (g i) v (put_int (h i) v s))) xs s) = freeSupp_tp s"
  "supports (nuc (fold (\<lambda>i s. put_int (f i) v (put_int (g i) v (put_int (h i) v s))) xs s)) = supports (nuc s)"
  by (induction xs arbitrary: s) simp_all

end
