(* ===== verification/System_Props.thy ===== *)
theory System_Props
  imports Nuc_Props P3_Props
begin

text \<open>
  The system as a whole: what holds of every state the kernel can reach from its start, and where
  the start of the kernel, the first process and the clock meet.
\<close>

subsection \<open>Every reachable state\<close>

text \<open>
  C1: The handled exceptions never fail.  A step of the machine (\<open>kernel_step\<close>) is an exception that satisfies
  \<open>exception_ok\<close>, with whatever the processes and the devices wrote before it to their own memory and to the
  hardware.  In every state reached from the start by such steps, every such exception is
  handled to its end: the handler never reads through a null pointer, never leaves a
  queue, a tree or the semaphore list broken, and never loops; and the state it leaves is again one
  where this holds.  \<open>exception_ok\<close> leaves out exactly: SYS1 with a null state; SYS2 by a process that is not
  \<open>killable\<close>, one whose back pointer was cleared by the end of the sibling before it and to which another block still points as next sibling
  (its end would leave that pointer to a free block, from which theory \<open>Pcb_Family\<close> gets an endless loop);
  SYS3 and SYS4 on the address 0 or \<open>MAXADD\<close>; SYS5 on a line or device that does not exist; an exception
  other than an interrupt while no process runs; and a pending interrupt line between 3 and 7 with no pending device.
\<close>

theorem kernel_safe:
  assumes "umps_doc U" and "booted U x" and "reaches (kernel_step U) x (out, s)"
    and "outside s s1" and "follows U out s1" and "exception_ok U s1"
  shows "\<exists>out' s'. handleExceptions U s1 = Some (out', s') \<and> kernel_inv out' s' \<and>
     kernel_step U (out, s) (out', s') \<and> reaches (kernel_step U) x (out', s')"
proof -
  have "kernel_inv out s" using reachable_inv [OF assms(1-3)] by simp
  from kernel_progress [OF this assms(4-6) assms(1)] obtain out' s' where
    h: "handleExceptions U s1 = Some (out', s')" "kernel_inv out' s'" by (auto simp: goes_on_def)
  then have "kernel_step U (out, s) (out', s')" using assms(4-6) by (auto intro: kernel_step.intros)
  moreover have "reaches (kernel_step U) x (out', s')" by (rule reaches_step [OF assms(3) calculation])
  ultimately show ?thesis using h by (intro exI [of _ out'] exI [of _ s']) simp
qed

lemma booted_demo: "\<exists>s. booted umps3 (LDST (first_state umps3 zero_state), s) \<and> currentProcess s = Some 0"
  by (rule demo_main) (use boot_power_on in \<open>auto simp: booted_def\<close>)

text \<open>A program-level exception (code 10) in the first process, which has no support structure.\<close>

lemma exception_RI:
  assumes "currentProcess s = Some c"
  shows "exception_ok umps3 (s\<lparr>hardware := (hardware s)\<lparr>CAUSE := 40\<rparr>\<rparr>)"
proof -
  have "\<not> interrupt_pending umps3 40 line" if "3 \<le> line" "line \<le> 7" for line
  proof -
    have "unat line \<in> {3, 4, 5, 6, 7}" using that by (auto simp: word_le_nat_alt)
    then show ?thesis by (auto simp: interrupt_pending_def umps3_def)
  qed
  then have "devices_ok umps3 (s\<lparr>hardware := (hardware s)\<lparr>CAUSE := 40\<rparr>\<rparr>)" by (simp add: devices_ok_def)
  then show ?thesis using assms by (simp add: exception_ok_def exc_code_def umps3_def)
qed

theorem kernel_safe_witness:
  "\<exists>s s1 out' s'. booted umps3 (LDST (first_state umps3 zero_state), s) \<and> outside s s1 \<and>
     handleExceptions umps3 s1 = Some (out', s') \<and> kernel_inv out' s'"
proof -
  obtain s where s: "booted umps3 (LDST (first_state umps3 zero_state), s)" "currentProcess s = Some 0"
    using booted_demo by blast
  let ?s1 = "s\<lparr>hardware := (hardware s)\<lparr>CAUSE := 40\<rparr>\<rparr>"
  have o: "outside s ?s1" unfolding outside_def
    by (intro exI [of _ "ints s"] exI [of _ "states s"] exI [of _ "supports s"] exI [of _ "hardware ?s1"]) simp
  from kernel_safe [OF umps3_doc s(1) reaches_refl o _ exception_RI [OF s(2)]] s(1) o show ?thesis by auto
qed



subsection \<open>The start of the kernel\<close>

text \<open>
  C23: From power-on to the first process.  \<open>main\<close> ends and runs block 0 in the state it builds:
  kernel mode, \<open>IECON\<close> set, all interrupts unmasked, the timer enabled, the stack at the top of the memory, at \<open>test_phase_3\<close>.  Every other block is
  free, no process waits, the clock semaphore is zero, the interval timer runs for 100 ms and
  the process for one time slice, and the BIOS finds both handlers of the nucleus.
\<close>

theorem power_on_boots:
  assumes "boot_globals s" and "umps_doc U"
  shows "\<exists>s' st k. main U s = Some (LDST st, s') \<and> path_end (LDST st) s' k \<and> kfree k = [1..<MAXPROC] \<and> kready k = [] \<and>
     kheld k = [0] \<and> (\<forall>a. kblocked k a = []) \<and> currentProcess s' = Some 0 \<and> p_s (pcbs s' 0) = st \<and>
     status st = IECON OR IMON OR TEBITON \<and> pc_epc st = adr_test_phase_3 U \<and> gpr st (ix_t9 U) = adr_test_phase_3 U \<and>
     gpr st (ix_sp U) = RAMTOP U \<and> processCount s' = 1 \<and> softBlockedCount s' = 0 \<and>
     ints s' = (ints s)(clockSemaphore U := 0) \<and> ldit_out (hardware s') = 100000 \<and>
     timer_out (hardware s') = TIMESLICE \<and>
     exception_handler (PASSUPVECTOR (hardware s')) = adr_handleExceptions U \<and>
     tlb_refill_handler (PASSUPVECTOR (hardware s')) = adr_uTLB_RefillHandler U"
proof -
  have "clockSemaphore U \<noteq> 0" using clock_addr [OF assms(2)] by (simp add: sem_addr_def)
  from main_spec [OF assms(1) this] obtain s' where s': "main U s = Some (LDST (first_state U zero_state), s')"
    "path_end (LDST (first_state U zero_state)) s' (kboot\<lparr>kfree := [1..<MAXPROC], kheld := [0]\<rparr>)"
    "currentProcess s' = Some 0" "ints s' = (ints s)(clockSemaphore U := 0)" "softBlockedCount s' = 0"
    "ldit_out (hardware s') = 100000" "timer_out (hardware s') = TIMESLICE"
    "PASSUPVECTOR (hardware s') = \<lparr>tlb_refill_handler = adr_uTLB_RefillHandler U,
       tlb_refill_stackPtr = NUCLEUS_STACKPAGE_TOP, exception_handler = adr_handleExceptions U,
       exception_stackPtr = NUCLEUS_STACKPAGE_TOP\<rparr>" by blast
  have "processCount s' = of_nat (MAXPROC - length (kfree (kboot\<lparr>kfree := [1..<MAXPROC], kheld := [0]\<rparr>)))"
    using s'(2) by (intro kinvD(5)) (simp add: path_end_def)
  then have "processCount s' = 1" by (simp add: MAXPROC_def)
  moreover have "p_s (pcbs s' 0) = first_state U zero_state" using s'(2,3) by (simp add: path_end_def)
  moreover have "ix_t9 U \<noteq> ix_sp U" using assms(2) by (simp add: umps_doc_def umps_regs_def)
  ultimately show ?thesis using s'
    by (intro exI [of _ s'] exI [of _ "first_state U zero_state"] exI [of _ "kboot\<lparr>kfree := [1..<MAXPROC], kheld := [0]\<rparr>"])
      (simp add: kboot_def first_state_def set_gpr_def ALLOFF_def Let_def)
qed

theorem power_on_boots_witness:
  "\<exists>s' st. main umps3 power_on = Some (LDST st, s') \<and> pc_epc st = adr_test_phase_3 umps3"
  using power_on_boots [OF boot_power_on umps3_doc] by blast

subsection \<open>The first process and the clock\<close>

lemma fold_put_int_ints:
  "ints (nuc (fold (\<lambda>i. put_int (f i) v) xs s)) a = (if a \<in> f ` set xs then v else ints (nuc s) a)"
  "a \<notin> f ` set xs \<Longrightarrow> a \<notin> g ` set xs \<Longrightarrow> a \<notin> h ` set xs \<Longrightarrow>
   ints (nuc (fold (\<lambda>i s. put_int (f i) v (put_int (g i) v (put_int (h i) v s))) xs s)) a = ints (nuc s) a"
  by (induction xs arbitrary: s) (auto simp: put_int_def on_nuc_def)

text \<open>The semaphores of the support level are other variables than the clock semaphore.\<close>

definition clock_apart :: "supp_umps \<Rightarrow> bool" where
  "clock_apart V \<longleftrightarrow> (\<forall>i \<in> {1..<9}. adr_printerSemaphores V + 4 * of_nat i \<noteq> clockSemaphore (nucl V) \<and>
     adr_termWriteSemaphores V + 4 * of_nat i \<noteq> clockSemaphore (nucl V) \<and>
     adr_termReadSemaphores V + 4 * of_nat i \<noteq> clockSemaphore (nucl V))"

lemma initDevSemaphores_clock:
  assumes V: "supp_doc V" and ap: "clock_apart V"
  shows "ints (nuc (initDevSemaphores V s)) (clockSemaphore (nucl V)) = 1"
proof -
  have N: "N_DEV_PER_IL V + 1 = 9" using V by (simp add: supp_doc_def)
  have "(48::nat) \<in> set [0..<unat DEVICE_NUM]" by (simp add: DEVICE_NUM_def)
  moreover have "clockSemaphore (nucl V) = adr_deviceSemaphores (nucl V) + 4 * of_nat 48"
    by (simp add: clockSemaphore_def DEVICE_NUM_def)
  ultimately have m: "clockSemaphore (nucl V) \<in> (\<lambda>i. adr_deviceSemaphores (nucl V) + 4 * of_nat i) ` set [0..<unat DEVICE_NUM]"
    by (rule rev_image_eqI)
  show ?thesis unfolding initDevSemaphores_def Let_def N
    by (subst fold_put_int_ints(2); (subst fold_put_int_ints(1))?) (use m ap in \<open>auto simp: clock_apart_def\<close>)
qed

text \<open>
  The first wait for the clock does not wait.  The first process sets the clock semaphore
  to \<open>1\<close> with the ones of the devices, although it counts ticks: the first SYS7 afterwards returns at once,
  whatever the interval timer says, and only the next one blocks its caller.
\<close>

theorem clock_wait_passes:
  assumes V: "supp_doc V" and ap: "clock_apart V" and e: "at_entry n k c"
    and I: "ints n = ints (nuc (initDevSemaphores V s))"
  shows "\<exists>n'. wait_For_Clock (nucl V) n = Some (LDST (p_s (pcbs n c)), n') \<and> path_end (LDST (p_s (pcbs n c))) n' k \<and>
     softBlockedCount n' = softBlockedCount n \<and>
     (\<exists>out n'' k''. wait_For_Clock (nucl V) n' = Some (out, n'') \<and> path_end out n'' k'' \<and>
        kblocked k'' (clockSemaphore (nucl V)) = kblocked k (clockSemaphore (nucl V)) @ [c] \<and>
        softBlockedCount n'' = softBlockedCount n + 1)"
proof -
  let ?a = "clockSemaphore (nucl V)"
  have U: "umps_doc (nucl V)" using V by (simp add: supp_doc_def)
  have one: "ints n ?a = 1" unfolding I by (rule initDevSemaphores_clock [OF V ap])
  obtain n' where n': "wait_For_Clock (nucl V) n = Some (LDST (p_s (pcbs n c)), n')"
    "path_end (LDST (p_s (pcbs n c))) n' k" "ints n' = (ints n)(?a := 0)" "softBlockedCount n' = softBlockedCount n"
    "pcbs n' = pcbs n"
    using wait_For_Clock_spec [OF e clock_addr [OF U] refl] one by auto
  have "currentProcess n' = Some c" using n'(2) at_entryD(3) [OF e] by (auto simp: path_end_def)
  then have e': "at_entry n' k c" using n'(2) at_entryD(3) [OF e] by (simp add: at_entry_def path_end_def)
  have "ints n' ?a - 1 = - 1" using n'(3) by simp
  with wait_For_Clock_spec [OF e' clock_addr [OF U] refl] obtain out n'' k'' where
    "wait_For_Clock (nucl V) n' = Some (out, n'')" "path_end out n'' k''"
    "softBlockedCount n'' = softBlockedCount n' + 1" "kblocked k'' = (kblocked k)(?a := kblocked k ?a @ [c])" by auto
  with n' show ?thesis
    by (intro exI [of _ n'] conjI exI [of _ out] exI [of _ n''] exI [of _ k'']) simp_all
qed

lemma umps3s_apart: "clock_apart umps3s"
proof -
  have "\<forall>i \<in> set [1..<9]. adr_printerSemaphores umps3s + 4 * of_nat i \<noteq> clockSemaphore (nucl umps3s) \<and>
     adr_termWriteSemaphores umps3s + 4 * of_nat i \<noteq> clockSemaphore (nucl umps3s) \<and>
     adr_termReadSemaphores umps3s + 4 * of_nat i \<noteq> clockSemaphore (nucl umps3s)"
    by (simp add: umps3s_def umps3_def clockSemaphore_def DEVICE_NUM_def upt_rec)
  then show ?thesis by (simp add: clock_apart_def)
qed

theorem clock_wait_passes_witness:
  "\<exists>n'. wait_For_Clock umps3 ((demo zero_state)\<lparr>ints := ints (nuc (initDevSemaphores umps3s supp_example))\<rparr>) =
     Some (LDST zero_state, n')"
proof -
  let ?n = "(demo zero_state)\<lparr>ints := ints (nuc (initDevSemaphores umps3s supp_example))\<rparr>"
  have "at_entry ?n kfirst 0" "ints ?n = ints (nuc (initDevSemaphores umps3s supp_example))" "p_s (pcbs ?n 0) = zero_state"
    by simp_all
  from clock_wait_passes [OF umps3s_doc umps3s_apart this(1,2)] this(3) show ?thesis unfolding nucl_umps3s by auto
qed

end
