(* ===== verification/User_Start.thy ===== *)
theory User_Start
  imports System_Props
begin

text \<open>
  The levels together: the calls of the first process are served by the modelled nucleus itself,
  in place of the parameter \<open>kernel\<close> of the support level.
\<close>

subsection \<open>A system call through the nucleus\<close>

text \<open>
  \<open>SYSCALL(n, a, b, c)\<close> from the running process: the BIOS saves the state with the
  arguments and the cause and starts the handler of the nucleus.  The call comes back when the
  handler resumes the caller.  \<open>call_from\<close> takes the registers of the processor; a process that goes on after a
  dispatch or a call has those that were loaded, which are in its \<open>p_s\<close>.
\<close>

definition call_state :: "umps \<Rightarrow> u32 \<Rightarrow> u32 \<Rightarrow> u32 \<Rightarrow> u32 \<Rightarrow> state_t \<Rightarrow> state_t" where
  "call_state U n a b c st =
     (set_gpr (ix_a3 U) c (set_gpr (ix_a2 U) b (set_gpr (ix_a1 U) a (set_gpr (ix_a0 U) n st))))\<lparr>cause := push_bit 2 (EXC_SYS U)\<rparr>"

definition trap :: "umps \<Rightarrow> state_t \<Rightarrow> nuc_state \<Rightarrow> nuc_state" where
  "trap U st s = s\<lparr>states := (states s)(BIOSDATAPAGE := st), hardware := (hardware s)\<lparr>CAUSE := push_bit 2 (EXC_SYS U)\<rparr>\<rparr>"

definition call_from :: "umps \<Rightarrow> state_t \<Rightarrow> kernel" where
  "call_from U st n a b c s =
     (case handleExceptions U (trap U (call_state U n a b c st) (nuc s)) of
        Some (LDST st', s') \<Rightarrow>
          if currentProcess s' = currentProcess (nuc s) then Some (reg_v0 U st', s\<lparr>nuc := s'\<rparr>) else None
      | _ \<Rightarrow> None)"

definition nucleus_call :: "umps \<Rightarrow> kernel" where
  "nucleus_call U n a b c s =
     (case currentProcess (nuc s) of
        None \<Rightarrow> None
      | Some p \<Rightarrow> call_from U (p_s (pcbs (nuc s) p)) n a b c s)"

lemma at_entry_states [simp]: "at_entry (s\<lparr>states := S\<rparr>) k c = at_entry s k c"
  by (simp add: at_entry_def)

lemma call_state_simps:
  assumes "umps_regs U"
  shows "reg_a0 U (call_state U n a b c st) = n" "reg_a1 U (call_state U n a b c st) = a"
    "reg_a2 U (call_state U n a b c st) = b" "status (call_state U n a b c st) = status st"
    "cause (call_state U n a b c st) = push_bit 2 (EXC_SYS U)"
  using assms by (simp_all add: call_state_def umps_regs_def reg_defs set_gpr_def)

lemma trap_simps [simp]:
  "pcbs (trap U st s) = pcbs s" "currentProcess (trap U st s) = currentProcess s" "ints (trap U st s) = ints s"
  "supports (trap U st s) = supports s" "at_entry (trap U st s) k c = at_entry s k c"
  "states (trap U st s) = (states s)(BIOSDATAPAGE := st)"
  by (simp_all add: trap_def)

lemma trap_code:
  assumes "umps_codes U"
  shows "handleExceptions U (trap U st s) = handleNucleousSystemcalls U (trap U st s)"
  using assms by (simp add: handleExceptions_def trap_def umps_codes_def Let_def)

text \<open>A process in kernel mode that may call the nucleus.\<close>

definition kernel_caller :: "nuc_state \<Rightarrow> kview \<Rightarrow> nat \<Rightarrow> bool" where
  "kernel_caller s k c \<longleftrightarrow> at_entry s k c \<and> status (p_s (pcbs s c)) AND USERPON = 0 \<and>
     (\<exists>C d. forest (pcbs s) (live k) C d)"

lemma kernel_caller_frame [simp]:
  "kernel_caller (s\<lparr>ints := I\<rparr>) k c = kernel_caller s k c"
  "kernel_caller (s\<lparr>states := S\<rparr>) k c = kernel_caller s k c"
  "kernel_caller (s\<lparr>supports := P\<rparr>) k c = kernel_caller s k c"
  by (simp_all add: kernel_caller_def)

lemma live_create: "kinv s k \<Longrightarrow> kfree k = p # fs \<Longrightarrow> live (k\<lparr>kfree := fs, kready := r\<rparr>) = insert p (live k)"
proof -
  assume k: "kinv s k" and f: "kfree k = p # fs"
  have "p < MAXPROC" "p \<notin> set fs" using kinvD(8,9) [OF k] f by (auto simp: unblocked_def)
  then show ?thesis using f by (auto simp: live_def)
qed

text \<open>SYS1 through the whole path, from the trap to the return.\<close>

lemma nucleus_create:
  assumes U: "umps_doc U" and kc: "kernel_caller (nuc s) k c" and f: "kfree k = p # fs"
    and a: "a \<noteq> 0" "a \<noteq> BIOSDATAPAGE"
  shows "\<exists>n'. nucleus_call U CREATEPROCESS a b 0 s = Some (0, s\<lparr>nuc := n'\<rparr>) \<and>
     kernel_caller n' (k\<lparr>kfree := fs, kready := kready k @ [p]\<rparr>) c \<and>
     p_s (pcbs n' p) = copyState U (states (nuc s) a) (p_s (pcbs (nuc s) p)) \<and> p_supportStruct (pcbs n' p) = b \<and>
     supports n' = supports (nuc s) \<and> ints n' = ints (nuc s) \<and>
     (\<forall>x. x \<noteq> BIOSDATAPAGE \<longrightarrow> states n' x = states (nuc s) x) \<and>
     p_child (pcbs n' p) = None \<and> p_prnt (pcbs n' c) = p_prnt (pcbs (nuc s) c) \<and>
     (\<forall>x. x \<noteq> c \<longrightarrow> x \<noteq> p \<longrightarrow> p_s (pcbs n' x) = p_s (pcbs (nuc s) x) \<and>
        p_supportStruct (pcbs n' x) = p_supportStruct (pcbs (nuc s) x) \<and> p_child (pcbs n' x) = p_child (pcbs (nuc s) x))"
proof -
  have R: "umps_regs U" and CD: "umps_codes U" using U by (simp_all add: umps_doc_def)
  have e: "at_entry (nuc s) k c" and m: "status (p_s (pcbs (nuc s) c)) AND USERPON = 0" using kc by (simp_all add: kernel_caller_def)
  obtain C d where fo: "forest (pcbs (nuc s)) (live k) C d" using kc by (auto simp: kernel_caller_def)
  let ?st = "call_state U CREATEPROCESS a b 0 (p_s (pcbs (nuc s) c))"
  let ?t = "trap U ?st (nuc s)"
  let ?s1 = "sys_entry U ?t c"
  have et: "at_entry ?t k c" and e1: "at_entry ?s1 k c" using e by simp_all
  have f1: "forest (pcbs ?s1) (live k) C d" by (rule forest_same_tree [OF fo]) (use sys_entry_simps(8) [of ?t U c] in simp)
  have mode: "status (states ?t BIOSDATAPAGE) AND USERPON = 0" using m by (simp add: call_state_simps [OF R])
  have run: "handleExceptions U ?t = create_Process U ?s1"
    unfolding trap_code [OF CD] using handleNucleousSystemcalls_kernel [OF et mode refl refl] by (simp add: call_state_simps [OF R])
  have r1: "reg_a1 U (p_s (pcbs ?s1 c)) = a" "reg_a2 U (p_s (pcbs ?s1 c)) = b"
    by (simp_all add: sys_state_regs [OF R] call_state_simps [OF R])
  have cL: "c \<in> live k" by (rule entry_live [OF e1])
  have pL: "p \<notin> live k" using f by (simp add: live_def)
  have kd: "brood (pcbs ?s1) c (C c)" "p \<notin> set (C c)"
    using forestD(2) [OF f1 cL] forestD(3) [OF f1 cL, of p] pL by auto
  have a1: "reg_a1 U (p_s (pcbs ?s1 c)) \<noteq> 0" using r1 a by simp
  let ?st' = "set_gpr (ix_v0 U) 0 (p_s (pcbs ?s1 c))"
  let ?k' = "k\<lparr>kfree := fs, kready := kready k @ [p]\<rparr>"
  obtain n' where n': "create_Process U ?s1 = Some (LDST ?st', n')" "path_end (LDST ?st') n' ?k'" "currentProcess n' = Some c"
    "ints n' = ints ?s1" "states n' = states ?s1" "supports n' = supports ?s1"
    "p_s (pcbs n' p) = copyState U (states ?s1 a) (p_s (pcbs ?s1 p))" "p_supportStruct (pcbs n' p) = b"
    "p_child (pcbs n' p) = None" "adopted (pcbs ?s1) (pcbs n') c (C c) p"
    "\<And>x. x \<noteq> c \<Longrightarrow> x \<noteq> p \<Longrightarrow> p_s (pcbs n' x) = p_s (pcbs ?s1 x) \<and> p_child (pcbs n' x) = p_child (pcbs ?s1 x) \<and>
       p_supportStruct (pcbs n' x) = p_supportStruct (pcbs ?s1 x)"
    using create_Process_alloc [OF e1 f a1 kd refl refl] unfolding r1 by blast
  have fo': "forest (pcbs n') (live ?k') (C(c := C c @ [p], p := [])) (d(p := d c + 1))"
    unfolding live_create [OF at_entryD(1) [OF e] f]
    by (rule forest_create [OF f1 cL pL n'(10,9)])
  have cp: "c \<noteq> p" using cL pL by auto
  have "at_entry n' ?k' c" using n'(2,3) at_entryD(3) [OF e] by (simp add: at_entry_def path_end_def)
  moreover have "p_s (pcbs n' c) = ?st'" using n'(2,3) by (simp add: path_end_def)
  then have "status (p_s (pcbs n' c)) AND USERPON = 0" using m by (simp add: sys_state_def set_gpr_def call_state_def)
  ultimately have kc': "kernel_caller n' ?k' c" using fo' by (auto simp: kernel_caller_def)
  have "reg_v0 U ?st' = 0" by (simp add: reg_defs set_gpr_def)
  then have call: "nucleus_call U CREATEPROCESS a b 0 s = Some (0, s\<lparr>nuc := n'\<rparr>)"
    using run n'(1,3) at_entryD(2) [OF e] by (simp add: nucleus_call_def call_from_def)
  have other: "pcbs ?s1 x = pcbs (nuc s) x" if "x \<noteq> c" for x using that by (simp add: sys_entry_def)
  have "p_prnt (pcbs ?s1 c) = p_prnt (pcbs (nuc s) c)" by (simp add: sys_entry_def)
  then show ?thesis
    using call kc' n'(4-9,11) adoptedD(3) [OF n'(10) cp] other cp a(2) by (intro exI [of _ n']) simp
qed

subsection \<open>The user processes\<close>

text \<open>Process \<open>p\<close> is user process \<open>i\<close>, not yet started, with the support structure at \<open>a\<close>.\<close>

definition user_process :: "supp_umps \<Rightarrow> nat \<Rightarrow> u32 \<Rightarrow> nat \<Rightarrow> nuc_state \<Rightarrow> bool" where
  "user_process V i a p n \<longleftrightarrow>
     (let st = p_s (pcbs n p); x = supports n a
      in p_supportStruct (pcbs n p) = a \<and> pc_epc st = 0x800000B0 \<and> gpr st (ix_sp (nucl V)) = 0xC0000000 \<and>
         status st = IECON OR IMON OR TEBITON \<and> entry_hi st = push_bit ASIDSHIFT (of_nat i + 1) \<and>
         sup_asid x = of_nat i + 1 \<and> (\<forall>j<32. sup_privatePgTbl x j = init_pte (of_nat i + 1) j) \<and>
         sup_exceptContext x PGFAULTEXCEPT = \<lparr>stackPtr = RAMTOP (nucl V) - (2 * of_nat i + 2) * PAGESIZE,
           ctx_status = TEBITON OR IECON, pc = adr_handlePageFault V\<rparr> \<and>
         sup_exceptContext x GENERALEXCEPT = \<lparr>stackPtr = RAMTOP (nucl V) - (2 * of_nat i + 3) * PAGESIZE,
           ctx_status = TEBITON OR IECON, pc = adr_handleSupportLevelExceptions V\<rparr> \<and> p_child (pcbs n p) = None)"

lemma user_process_cong:
  assumes "p_s (pcbs n' p) = p_s (pcbs n p)" "p_supportStruct (pcbs n' p) = p_supportStruct (pcbs n p)"
    and "supp_user (supports n' a) = supp_user (supports n a)" "p_child (pcbs n' p) = p_child (pcbs n p)"
  shows "user_process V i a p n' = user_process V i a p n"
  using assms supp_user_fields [OF assms(3)] by (simp add: user_process_def Let_def)

lemma user_process_new:
  assumes R: "umps_regs (nucl V)" and p: "p_s (pcbs n p) = copyState (nucl V) (uproc_state_of (nucl V) (of_nat i + 1) st) d"
    "p_supportStruct (pcbs n p) = a" "p_child (pcbs n p) = None"
    and x: "supp_user (supports n a) = supp_user (uproc_support V i y)"
  shows "user_process V i a p n"
proof -
  have "ix_sp (nucl V) < STATE_GPR_LEN (nucl V)" using R by (simp add: umps_regs_def)
  then have "gpr (p_s (pcbs n p)) (ix_sp (nucl V)) = 0xC0000000"
    by (simp add: p uproc_state_of_def set_gpr_def Let_def)
  then show ?thesis using supp_user_fields [OF x] p
    by (simp add: user_process_def uproc_support_fields uproc_state_of_def set_gpr_def Let_def)
qed

text \<open>A kernel that serves a call as the nucleus does whenever the nucleus comes back at once.\<close>

definition extends_nucleus :: "umps \<Rightarrow> kernel \<Rightarrow> bool" where
  "extends_nucleus U K \<longleftrightarrow> (\<forall>n a b c s r. nucleus_call U n a b c s = Some r \<longrightarrow> K n a b c s = Some r)"

lemma extends_nucleus_call [simp]: "extends_nucleus U (nucleus_call U)"
  by (simp add: extends_nucleus_def)

lemma initUProc_nucleus:
  assumes K: "extends_nucleus (nucl V) K" and V: "supp_doc V" and u: "adr_uproc_state V \<noteq> BIOSDATAPAGE"
    and kc: "kernel_caller (nuc s) k c" and f: "kfree k = q # fs" and st: "supp_stack s (p # ps)"
  shows "\<exists>s'. initUProc K V i s = Some s' \<and> supp_stack s' ps \<and> p_prnt (pcbs (nuc s') c) = p_prnt (pcbs (nuc s) c) \<and>
    kernel_caller (nuc s') (k\<lparr>kfree := fs, kready := kready k @ [q]\<rparr>) c \<and> user_process V i p q (nuc s') \<and>
    (\<forall>x. x \<noteq> c \<longrightarrow> x \<noteq> q \<longrightarrow> p_s (pcbs (nuc s') x) = p_s (pcbs (nuc s) x) \<and>
       p_supportStruct (pcbs (nuc s') x) = p_supportStruct (pcbs (nuc s) x) \<and> p_child (pcbs (nuc s') x) = p_child (pcbs (nuc s) x)) \<and>
    (\<forall>a. a \<noteq> p \<longrightarrow> supp_user (supports (nuc s') a) = supp_user (supports (nuc s) a)) \<and> ints (nuc s') = ints (nuc s)"
proof -
  have U: "umps_doc (nucl V)" and u0: "adr_uproc_state V \<noteq> 0" using V by (simp_all add: supp_doc_def)
  then have R: "umps_regs (nucl V)" by (simp add: umps_doc_def)
  have p: "p \<noteq> 0" "p \<notin> set ps" using st by (auto simp: supp_stack_def)
  obtain s1 where s1: "alloc_supp s = Some (p, s1)" "supp_stack s1 ps" "supp_frame s s1 (set (p # ps))"
    using alloc_supp_some [OF st] by blast
  obtain T P where n1: "nuc s1 = (nuc s)\<lparr>supports := P\<rparr>" "\<And>x. supp_user (P x) = supp_user (supports (nuc s) x)"
    using s1(3) by (auto simp: supp_frame_def)
  let ?x = "uproc_support V i (P p)"
  let ?s2 = "put_supp p ?x s1"
  have s2: "(upd_supp p (\<lambda>x. x\<lparr>sup_asid := of_nat i + 1\<rparr>) s1 \<bind> init_uproc_support V p) = Some ?s2"
    using p(1) n1(1) by (simp add: upd_supp_put init_uproc_support_def init_uproc_pagetable_eq uproc_support_def)
  let ?st = "uproc_state_of (nucl V) (of_nat i + 1) (states (nuc s) (adr_uproc_state V))"
  let ?n3 = "(nuc s)\<lparr>supports := P(p := ?x), states := (states (nuc s))(adr_uproc_state V := ?st)\<rparr>"
  let ?s3 = "init_uproc_state V (of_nat i + 1) ?s2"
  have n3: "nuc ?s3 = ?n3" by (simp add: init_uproc_state_def on_nuc_def put_supp_def n1(1))
  let ?s4 = "log (Sys CREATEPROCESS (adr_uproc_state V) p 0) ?s3"
  have kc4: "kernel_caller (nuc ?s4) k c" using kc by (simp add: n3 log_def)
  obtain n' where n': "nucleus_call (nucl V) CREATEPROCESS (adr_uproc_state V) p 0 ?s4 = Some (0, ?s4\<lparr>nuc := n'\<rparr>)"
    "kernel_caller n' (k\<lparr>kfree := fs, kready := kready k @ [q]\<rparr>) c"
    "p_s (pcbs n' q) = copyState (nucl V) (states (nuc ?s4) (adr_uproc_state V)) (p_s (pcbs (nuc ?s4) q))"
    "p_supportStruct (pcbs n' q) = p" "supports n' = supports (nuc ?s4)" "ints n' = ints (nuc ?s4)"
    "\<And>x. x \<noteq> c \<Longrightarrow> x \<noteq> q \<Longrightarrow> p_s (pcbs n' x) = p_s (pcbs (nuc ?s4) x) \<and>
        p_supportStruct (pcbs n' x) = p_supportStruct (pcbs (nuc ?s4) x) \<and> p_child (pcbs n' x) = p_child (pcbs (nuc ?s4) x)"
    "p_child (pcbs n' q) = None" "p_prnt (pcbs n' c) = p_prnt (pcbs (nuc ?s4) c)"
    using nucleus_create [OF U kc4 f u0 u] by blast
  let ?s' = "?s4\<lparr>nuc := n'\<rparr>"
  have l: "nuc ?s4 = ?n3" by (simp add: n3 log_def)
  have asid: "sup_asid ?x = of_nat i + 1" by (rule uproc_support_fields)
  have "K CREATEPROCESS (adr_uproc_state V) p 0 ?s4 = Some (0, ?s4\<lparr>nuc := n'\<rparr>)" using K n'(1) by (simp add: extends_nucleus_def)
  then have run: "initUProc K V i s = Some ?s'"
    using s1(1) s2 p(1) asid by (simp add: initUProc_def upd_supp_put get_supp_def load_supp_def syscall_def CREATEPROCESS_def n1(1))
  have sup: "supports n' = P(p := ?x)" unfolding n'(5) l by simp
  have "freeSupp_tp ?s' = freeSupp_tp ?s2" by (simp add: init_uproc_state_def on_nuc_def log_def)
  moreover have "supports (nuc ?s') = supports (nuc ?s2)" using sup by (simp add: put_supp_def on_nuc_def n1(1))
  ultimately have stk: "supp_stack ?s' ps" using supp_stack_put [OF s1(2) p(2)] supp_stack_cong by blast
  have up: "user_process V i p q (nuc ?s')"
    by (rule user_process_new [OF R]) (use n'(3,4,8) sup l in simp_all)
  have "ints n' = ints (nuc s)" unfolding n'(6) l by simp
  moreover have "p_prnt (pcbs n' c) = p_prnt (pcbs (nuc s) c)" unfolding n'(9) l by simp
  moreover have "p_s (pcbs n' x) = p_s (pcbs (nuc s) x) \<and> p_supportStruct (pcbs n' x) = p_supportStruct (pcbs (nuc s) x) \<and>
      p_child (pcbs n' x) = p_child (pcbs (nuc s) x)" if "x \<noteq> c" "x \<noteq> q" for x using n'(7) [OF that] unfolding l by simp
  ultimately show ?thesis using run stk up n'(2) sup n1(2) by (intro exI [of _ ?s']) simp
qed

lemma initUProcs_nucleus:
  assumes K: "extends_nucleus (nucl V) K" and V: "supp_doc V" and u: "adr_uproc_state V \<noteq> BIOSDATAPAGE"
    and kc: "kernel_caller (nuc s) k c" and st: "supp_stack s ps" and n: "n \<le> length ps" "n \<le> length (kfree k)"
  shows "\<exists>s'. fold (\<lambda>i r. r \<bind> initUProc K V i) [0..<n] (Some s) = Some s' \<and> supp_stack s' (drop n ps) \<and>
    kernel_caller (nuc s') (k\<lparr>kfree := drop n (kfree k), kready := kready k @ take n (kfree k)\<rparr>) c \<and>
    (\<forall>i<n. user_process V i (ps ! i) (kfree k ! i) (nuc s')) \<and> ints (nuc s') = ints (nuc s) \<and>
    p_prnt (pcbs (nuc s') c) = p_prnt (pcbs (nuc s) c)"
  using n
proof (induction n)
  case 0
  have "k\<lparr>kfree := kfree k, kready := kready k\<rparr> = k" by simp
  then show ?case using kc st by simp
next
  case (Suc n)
  let ?k = "k\<lparr>kfree := drop n (kfree k), kready := kready k @ take n (kfree k)\<rparr>"
  obtain s1 where s1: "fold (\<lambda>i r. r \<bind> initUProc K V i) [0..<n] (Some s) = Some s1"
    "supp_stack s1 (drop n ps)" "kernel_caller (nuc s1) ?k c"
    "\<forall>i<n. user_process V i (ps ! i) (kfree k ! i) (nuc s1)" "ints (nuc s1) = ints (nuc s)"
    "p_prnt (pcbs (nuc s1) c) = p_prnt (pcbs (nuc s) c)" using Suc by auto
  have d: "drop n ps = ps ! n # drop (Suc n) ps" "kfree ?k = kfree k ! n # drop (Suc n) (kfree k)"
    using Suc.prems by (simp_all add: Cons_nth_drop_Suc)
  from initUProc_nucleus [OF K V u s1(3) d(2) s1(2) [unfolded d(1)], of n] obtain s2 where
    s2: "initUProc K V n s1 = Some s2" "supp_stack s2 (drop (Suc n) ps)"
    "kernel_caller (nuc s2) (?k\<lparr>kfree := drop (Suc n) (kfree k), kready := kready ?k @ [kfree k ! n]\<rparr>) c"
    "user_process V n (ps ! n) (kfree k ! n) (nuc s2)" "ints (nuc s2) = ints (nuc s1)"
    "p_prnt (pcbs (nuc s2) c) = p_prnt (pcbs (nuc s1) c)"
    and fr: "\<And>x. x \<noteq> c \<Longrightarrow> x \<noteq> kfree k ! n \<Longrightarrow> p_s (pcbs (nuc s2) x) = p_s (pcbs (nuc s1) x) \<and>
       p_supportStruct (pcbs (nuc s2) x) = p_supportStruct (pcbs (nuc s1) x) \<and> p_child (pcbs (nuc s2) x) = p_child (pcbs (nuc s1) x)"
    "\<And>a. a \<noteq> ps ! n \<Longrightarrow> supp_user (supports (nuc s2) a) = supp_user (supports (nuc s1) a)" by blast
  have e: "at_entry (nuc s) k c" using kc by (simp add: kernel_caller_def)
  have dk: "distinct (kfree k)" "c \<notin> set (kfree k)"
    using kinvD(8) [OF at_entryD(1) [OF e]] at_entryD(3) [OF e] by (auto simp: unblocked_def)
  have dp: "distinct ps" using st by (simp add: supp_stack_def)
  have "user_process V i (ps ! i) (kfree k ! i) (nuc s2)" if i: "i < Suc n" for i
  proof (cases "i = n")
    case False
    then have "kfree k ! i \<noteq> kfree k ! n" "ps ! i \<noteq> ps ! n" "kfree k ! i \<noteq> c"
      using i Suc.prems dk dp by (auto simp: nth_eq_iff_index_eq in_set_conv_nth)
    then have "user_process V i (ps ! i) (kfree k ! i) (nuc s2) = user_process V i (ps ! i) (kfree k ! i) (nuc s1)"
      using fr by (intro user_process_cong) simp_all
    then show ?thesis using s1(4) i False by simp
  qed (use s2(4) in simp)
  moreover have t: "take (Suc n) (kfree k) = take n (kfree k) @ [kfree k ! n]" using Suc.prems by (simp add: take_Suc_conv_app_nth)
  ultimately show ?case using s1(1,5,6) s2(1-3,5,6) by (simp del: take_Suc)
qed

lemma passeren_dispatch:
  assumes e: "at_entry s k c" and a: "a = reg_a1 U (p_s (pcbs s c))" "sem_addr a" and z: "ints s a = 0"
    and r: "kready k = p # rs"
  shows "\<exists>s'. passeren U s = Some (LDST (p_s (pcbs s p)), s') \<and> path_end (LDST (p_s (pcbs s p))) s'
       (k\<lparr>kblocked := (kblocked k)(a := kblocked k a @ [c]), kready := rs, kheld := [p]\<rparr>) \<and>
     currentProcess s' = Some p \<and> supports s' = supports s \<and> ints s' = (ints s)(a := - 1) \<and>
     (\<forall>x. p_s (pcbs s' x) = p_s (pcbs s x)) \<and> same_tree (pcbs s) (pcbs s')"
proof -
  let ?s1 = "s\<lparr>mutex := a, ints := (ints s)(a := - 1)\<rparr>"
  have a': "a \<noteq> 0" "a \<noteq> MAXADD" using a(2) by (simp_all add: sem_addr_def)
  have e1: "at_entry ?s1 k c" using e by simp
  have run: "passeren U s = blockCurrentProcessAt a ?s1 \<bind> scheduler"
    using a(1) a' at_entryD(2) [OF e] z by (simp add: passeren_def curProc_entry [OF e] load_int_def store_int_def Let_def)
  obtain s2 where s2: "blockCurrentProcessAt a ?s1 = Some s2"
    "kinv s2 (k\<lparr>kblocked := (kblocked k)(a := kblocked k a @ [c]), kheld := []\<rparr>)"
    "ints s2 = ints ?s1" "supports s2 = supports ?s1" "\<And>x. pcb_user (pcbs s2 x) = pcb_user (charge ?s1 c x)"
    using blockCurrentProcessAt_correct [OF e1 a'] by blast
  have p2: "p_s (pcbs s2 x) = p_s (pcbs s x)" for x using pcb_user_eqD(5) [OF s2(5) [of x]] by simp
  obtain s3 where s3: "scheduler s2 = Some (LDST (p_s (pcbs s2 p)), s3)" "path_end (LDST (p_s (pcbs s2 p))) s3
      (k\<lparr>kblocked := (kblocked k)(a := kblocked k a @ [c]), kready := rs, kheld := [p]\<rparr>)"
    "currentProcess s3 = Some p" "ints s3 = ints s2" "supports s3 = supports s2" "\<And>x. pcb_user (pcbs s3 x) = pcb_user (pcbs s2 x)"
    using scheduler_dispatch [OF s2(2), of p rs] r by auto
  have "p_s (pcbs s3 x) = p_s (pcbs s x)" for x using pcb_user_eqD(5) [OF s3(6) [of x]] p2 by simp
  moreover have "same_tree (pcbs s) (pcbs s3)"
    using same_tree_trans [OF same_tree_user [OF s2(5)] same_tree_user [OF s3(6)]] by (simp add: same_tree_def)
  ultimately show ?thesis using s2(1,3,4) s3(1-5) p2 [of p] run by (intro exI [of _ s3]) simp
qed

text \<open>What the first process does before it starts the user processes leaves the nucleus as it is.\<close>

lemma nuc_put_int: "nuc (put_int a v s) = (nuc s)\<lparr>ints := (ints (nuc s))(a := v)\<rparr>"
  by (simp add: put_int_def on_nuc_def)

lemma nuc_fold:
  assumes "\<And>i s. \<exists>I. nuc (f i s) = (nuc s)\<lparr>ints := I\<rparr>"
  shows "\<exists>I. nuc (fold f xs s) = (nuc s)\<lparr>ints := I\<rparr>"
proof (induction xs arbitrary: s)
  case Nil
  show ?case by (rule exI [of _ "ints (nuc s)"]) simp
next
  case (Cons x xs)
  obtain I where I: "nuc (f x s) = (nuc s)\<lparr>ints := I\<rparr>" using assms by blast
  from Cons.IH [of "f x s"] show ?case by (simp add: I)
qed

lemma start_frame:
  "\<exists>I. nuc (initDevSemaphores V (initSwapStructs V s)) = (nuc s)\<lparr>ints := I\<rparr>"
  "freeSupp_tp (initDevSemaphores V (initSwapStructs V s)) = freeSupp_tp s"
proof -
  let ?s1 = "initSwapStructs V s"
  let ?s2 = "fold (\<lambda>i. put_int (adr_deviceSemaphores (nucl V) + 4 * of_nat i) 1) [0..<unat DEVICE_NUM] ?s1"
  obtain I1 where I1: "nuc ?s1 = (nuc s)\<lparr>ints := I1\<rparr>" by (simp add: initSwapStructs_def initSwapTable_eq nuc_put_int)
  obtain I2 where I2: "nuc ?s2 = (nuc ?s1)\<lparr>ints := I2\<rparr>"
    using nuc_fold [of "\<lambda>i. put_int (adr_deviceSemaphores (nucl V) + 4 * of_nat i) 1"] nuc_put_int by blast
  let ?f = "\<lambda>i s. put_int (adr_termReadSemaphores V + 4 * of_nat i) 1 (put_int (adr_termWriteSemaphores V + 4 * of_nat i) 1
    (put_int (adr_printerSemaphores V + 4 * of_nat i) 1 s))"
  have "\<exists>I. nuc (?f i s) = (nuc s)\<lparr>ints := I\<rparr>" for i s
    by (rule exI) (simp add: nuc_put_int)
  from nuc_fold [of ?f, OF this] obtain I3 where "nuc (initDevSemaphores V ?s1) = (nuc ?s2)\<lparr>ints := I3\<rparr>"
    unfolding initDevSemaphores_def Let_def by blast
  then have "nuc (initDevSemaphores V ?s1) = (nuc s)\<lparr>ints := I3\<rparr>" unfolding I2 I1 by simp
  then show "\<exists>I. nuc (initDevSemaphores V ?s1) = (nuc s)\<lparr>ints := I\<rparr>" by (rule exI [of _ I3])
  show "freeSupp_tp (initDevSemaphores V ?s1) = freeSupp_tp s"
    by (simp add: initDevSemaphores_def initSwapStructs_def initSwapTable_eq fold_put_int Let_def)
qed

text \<open>The start of the user processes on any kernel that extends the nucleus.\<close>

lemma users_started:
  assumes K: "extends_nucleus (nucl V) K" and V: "supp_doc V" and u: "adr_uproc_state V \<noteq> BIOSDATAPAGE"
    and kc: "kernel_caller (nuc s) k c" and fr: "freeSupp_tp s = 0" and k: "8 \<le> length (kfree k)"
  shows "\<exists>s2 s4. initSuppStack V (initDevSemaphores V (initSwapStructs V s)) = Some s2 \<and>
    initUProcs K V (put_int m 0 s2) = Some s4 \<and>
    kernel_caller (nuc s4) (k\<lparr>kfree := drop 8 (kfree k), kready := kready k @ take 8 (kfree k)\<rparr>) c \<and>
    (\<forall>i<8. user_process V i (adr_uproc_supp V (7 - i)) (kfree k ! i) (nuc s4)) \<and> ints (nuc s4) m = 0 \<and> supp_stack s4 [] \<and>
    p_prnt (pcbs (nuc s4) c) = p_prnt (pcbs (nuc s) c)"
proof -
  have a: "inj_on (adr_uproc_supp V) {0..8}" "0 \<notin> adr_uproc_supp V ` {0..8}" using V by (simp_all add: supp_doc_def)
  let ?s1 = "initDevSemaphores V (initSwapStructs V s)" and ?ps = "map (adr_uproc_supp V) (rev [0..<8])"
  obtain I where I: "nuc ?s1 = (nuc s)\<lparr>ints := I\<rparr>" using start_frame(1) by blast
  obtain s2 where s2: "initSuppStack V ?s1 = Some s2" "supp_stack s2 ?ps" "nuc s2 = (nuc ?s1)\<lparr>supports := supports (nuc s2)\<rparr>"
    using initSuppStack_run [OF a, of ?s1] start_frame(2) [of V s] fr by auto
  let ?s3 = "put_int m 0 s2"
  have "kernel_caller (nuc s2) k c" using kc by (subst s2(3)) (simp add: I)
  then have kc3: "kernel_caller (nuc ?s3) k c" by (simp add: nuc_put_int)
  have st3: "supp_stack ?s3 ?ps" using s2(2) by (simp add: supp_stack_def)
  obtain s4 where s4: "initUProcs K V ?s3 = Some s4"
    "kernel_caller (nuc s4) (k\<lparr>kfree := drop 8 (kfree k), kready := kready k @ take 8 (kfree k)\<rparr>) c"
    "\<forall>i<8. user_process V i (?ps ! i) (kfree k ! i) (nuc s4)" "ints (nuc s4) = ints (nuc ?s3)"
    "p_prnt (pcbs (nuc s4) c) = p_prnt (pcbs (nuc ?s3) c)" "supp_stack s4 []"
    using initUProcs_nucleus [OF K V u kc3 st3, of 8] k by (auto simp: initUProcs_def UPROCMAX_def)
  have nth: "?ps ! i = adr_uproc_supp V (7 - i)" if "i < 8" for i using that by (simp add: rev_nth)
  have "pcbs (nuc s2) = pcbs (nuc s)" by (subst s2(3)) (simp add: I)
  then have "p_prnt (pcbs (nuc s4) c) = p_prnt (pcbs (nuc s) c)" using s4(5) by (simp add: nuc_put_int)
  moreover have "\<forall>i<8. user_process V i (adr_uproc_supp V (7 - i)) (kfree k ! i) (nuc s4)" using s4(3) nth by simp
  moreover have "ints (nuc s4) m = 0" using s4(4) by (simp add: nuc_put_int)
  ultimately show ?thesis using s2(1) s4(1,2,6) by blast
qed

text \<open>
  C5: The levels work together.  On the modelled nucleus, with eight free process control
  blocks and nobody else ready, the first process initialises the pager, the semaphores and
  the pool, and starts eight user processes: the first eight free blocks, in order,
  each with a support structure, a page table and an ASID of its own.  Its first wait on the
  master semaphore then blocks it and the nucleus dispatches the first user process, in the
  state it was given, which is in kernel mode.
\<close>

theorem user_processes_start:
  assumes V: "supp_doc V" and u: "adr_uproc_state V \<noteq> BIOSDATAPAGE" and m: "m = adr_masterSem V" "sem_addr m"
    and kc: "kernel_caller (nuc s) k c" and fr: "freeSupp_tp s = 0" and k: "8 \<le> length (kfree k)" "kready k = []"
  shows "\<exists>s2 s4 st n'. initSuppStack V (initDevSemaphores V (initSwapStructs V s)) = Some s2 \<and>
    initUProcs (nucleus_call (nucl V)) V (put_int m 0 s2) = Some s4 \<and>
    handleExceptions (nucl V) (trap (nucl V) (call_state (nucl V) PASSEREN m 0 0 (p_s (pcbs (nuc s4) c))) (nuc s4)) =
      Some (LDST st, n') \<and>
    path_end (LDST st) n' (k\<lparr>kfree := drop 8 (kfree k), kblocked := (kblocked k)(m := kblocked k m @ [c]),
      kready := tl (take 8 (kfree k)), kheld := [kfree k ! 0]\<rparr>) \<and>
    currentProcess n' = Some (kfree k ! 0) \<and> ints n' m = - 1 \<and>
    (\<forall>i<8. user_process V i (adr_uproc_supp V (7 - i)) (kfree k ! i) n') \<and> status st AND USERPON = 0"
proof -
  have U: "umps_doc (nucl V)" using V by (simp add: supp_doc_def)
  then have R: "umps_regs (nucl V)" and CD: "umps_codes (nucl V)" by (simp_all add: umps_doc_def)
  let ?k4 = "k\<lparr>kfree := drop 8 (kfree k), kready := kready k @ take 8 (kfree k)\<rparr>"
  obtain s2 s4 where s2: "initSuppStack V (initDevSemaphores V (initSwapStructs V s)) = Some s2"
    and s4: "initUProcs (nucleus_call (nucl V)) V (put_int m 0 s2) = Some s4" "kernel_caller (nuc s4) ?k4 c"
      "\<forall>i<8. user_process V i (adr_uproc_supp V (7 - i)) (kfree k ! i) (nuc s4)" "ints (nuc s4) m = 0"
    using users_started [OF extends_nucleus_call V u kc fr k(1), of m] by blast
  let ?t = "trap (nucl V) (call_state (nucl V) PASSEREN m 0 0 (p_s (pcbs (nuc s4) c))) (nuc s4)"
  have e4: "at_entry (nuc s4) ?k4 c" and m4: "status (p_s (pcbs (nuc s4) c)) AND USERPON = 0"
    using s4(2) by (simp_all add: kernel_caller_def)
  have et: "at_entry ?t ?k4 c" using e4 by simp
  have mode: "status (states ?t BIOSDATAPAGE) AND USERPON = 0" using m4 by (simp add: call_state_simps [OF R])
  let ?s5 = "sys_entry (nucl V) ?t c"
  have run: "handleExceptions (nucl V) ?t = passeren (nucl V) ?s5"
    unfolding trap_code [OF CD] using handleNucleousSystemcalls_kernel [OF et mode refl refl]
    by (simp add: call_state_simps [OF R] PASSEREN_def CREATEPROCESS_def TERMPROCESS_def)
  have e5: "at_entry ?s5 ?k4 c" using et by simp
  have a5: "m = reg_a1 (nucl V) (p_s (pcbs ?s5 c))" by (simp add: sys_state_regs [OF R] call_state_simps [OF R])
  have z5: "ints ?s5 m = 0" using s4(4) by simp
  have r5: "kready ?k4 = kfree k ! 0 # tl (take 8 (kfree k))" using k by (cases "kfree k") simp_all
  obtain n' where n': "passeren (nucl V) ?s5 = Some (LDST (p_s (pcbs ?s5 (kfree k ! 0))), n')"
    "path_end (LDST (p_s (pcbs ?s5 (kfree k ! 0)))) n' (?k4\<lparr>kblocked := (kblocked k)(m := kblocked k m @ [c]),
       kready := tl (take 8 (kfree k)), kheld := [kfree k ! 0]\<rparr>)"
    "currentProcess n' = Some (kfree k ! 0)" "supports n' = supports ?s5" "ints n' = (ints ?s5)(m := - 1)"
    "\<And>x. p_s (pcbs n' x) = p_s (pcbs ?s5 x)" "same_tree (pcbs ?s5) (pcbs n')"
    using passeren_dispatch [OF e5 a5 m(2) z5 r5] by auto
  have cf: "c \<notin> set (kfree k)"
    using kc kinvD(8) [of "nuc s" k] at_entryD(1,3) [of "nuc s" k c] by (auto simp: kernel_caller_def unblocked_def)
  have up: "user_process V i (adr_uproc_supp V (7 - i)) (kfree k ! i) n'" if i: "i < 8" for i
  proof -
    have "kfree k ! i \<noteq> c" using cf i k(1) nth_mem [of i "kfree k"] by auto
    then have "pcbs ?s5 (kfree k ! i) = pcbs (nuc s4) (kfree k ! i)" by (simp add: sys_entry_def)
    then have "user_process V i (adr_uproc_supp V (7 - i)) (kfree k ! i) n' =
        user_process V i (adr_uproc_supp V (7 - i)) (kfree k ! i) (nuc s4)"
      using n'(4,6,7) by (intro user_process_cong) (simp_all add: same_tree_def)
    then show ?thesis using s4(3) [rule_format, OF i] by simp
  qed
  have "status (p_s (pcbs n' (kfree k ! 0))) = IECON OR IMON OR TEBITON" using up [of 0] by (simp add: user_process_def Let_def)
  then have z: "status (p_s (pcbs ?s5 (kfree k ! 0))) AND USERPON = 0"
    using n'(6) [of "kfree k ! 0"] by (simp add: IECON_def IMON_def TEBITON_def USERPON_def)
  have run5: "handleExceptions (nucl V) ?t = Some (LDST (p_s (pcbs ?s5 (kfree k ! 0))), n')" using run n'(1) by simp
  have ps: "path_end (LDST (p_s (pcbs ?s5 (kfree k ! 0)))) n' (k\<lparr>kfree := drop 8 (kfree k), kblocked := (kblocked k)(m := kblocked k m @ [c]),
      kready := tl (take 8 (kfree k)), kheld := [kfree k ! 0]\<rparr>)" using n'(2) by simp
  have w: "ints n' m = - 1" using n'(5) by simp
  note F = s2 s4(1) run5 ps n'(3) w allI [OF impI [OF up]] z
  show ?thesis by (rule exI [of _ s2], rule exI [of _ s4], rule exI [of _ "p_s (pcbs ?s5 (kfree k ! 0))"], rule exI [of _ n']) (intro conjI F)
qed

theorem user_processes_start_witness:
  "\<exists>s4. let s = supp_example\<lparr>nuc := demo (first_state umps3 zero_state)\<rparr>;
      s2 = the (initSuppStack umps3s (initDevSemaphores umps3s (initSwapStructs umps3s s)))
    in initUProcs (nucleus_call umps3) umps3s (put_int (adr_masterSem umps3s) 0 s2) = Some s4 \<and>
       (\<exists>st n'. handleExceptions umps3 (trap umps3 (call_state umps3 PASSEREN (adr_masterSem umps3s) 0 0
           (p_s (pcbs (nuc s4) 0))) (nuc s4)) = Some (LDST st, n') \<and> currentProcess n' = Some 1)"
proof -
  let ?s = "supp_example\<lparr>nuc := demo (first_state umps3 zero_state)\<rparr>"
  have "status (first_state umps3 zero_state) AND USERPON = 0"
    by (simp add: first_state_def set_gpr_def Let_def ALLOFF_def IECON_def IMON_def TEBITON_def USERPON_def)
  then have kc: "kernel_caller (nuc ?s) kfirst 0"
    unfolding kernel_caller_def by (intro conjI exI [of _ "\<lambda>_. []"] exI [of _ "\<lambda>_. 0"]) simp_all
  have v: "adr_uproc_state umps3s \<noteq> BIOSDATAPAGE" "sem_addr (adr_masterSem umps3s)"
    by (simp_all add: umps3s_def BIOSDATAPAGE_def sem_addr_def MAXADD_def)
  have f: "freeSupp_tp ?s = 0" "8 \<le> length (kfree kfirst)" "kready kfirst = []"
    by (simp_all add: supp_example_def MAXPROC_def)
  have h: "kfree kfirst ! 0 = 1" by (simp add: MAXPROC_def)
  from user_processes_start [OF umps3s_doc v(1) refl v(2) kc f] show ?thesis
    unfolding nucl_umps3s h Let_def by (elim exE conjE) (intro exI conjI, simp_all)
qed

end
