(* ===== verification/Nuc_Calls.thy ===== *)
theory Nuc_Calls
  imports User_Start
begin

text \<open>
  The system calls of a process in kernel mode through the whole nucleus, from the trap to the
  return: SYS3 on a positive semaphore, SYS4 with nobody and with somebody waiting, and SYS6.  Unlike \<open>kernel_caller\<close>, \<open>runs_in_kernel\<close> asks nothing of the process tree.
\<close>

definition runs_in_kernel :: "nuc_state \<Rightarrow> kview \<Rightarrow> nat \<Rightarrow> bool" where
  "runs_in_kernel s k c \<longleftrightarrow> at_entry s k c \<and> status (p_s (pcbs s c)) AND USERPON = 0"

lemma runs_in_kernel_frame [simp]:
  "runs_in_kernel (s\<lparr>ints := I\<rparr>) k c = runs_in_kernel s k c"
  "runs_in_kernel (s\<lparr>states := S\<rparr>) k c = runs_in_kernel s k c"
  "runs_in_kernel (s\<lparr>supports := P\<rparr>) k c = runs_in_kernel s k c"
  by (simp_all add: runs_in_kernel_def)

text \<open>The state in which the handler of a call runs.\<close>

definition call_entry :: "umps \<Rightarrow> u32 \<Rightarrow> u32 \<Rightarrow> u32 \<Rightarrow> u32 \<Rightarrow> nat \<Rightarrow> nuc_state \<Rightarrow> nuc_state" where
  "call_entry U n a b x c s = sys_entry U (trap U (call_state U n a b x (p_s (pcbs s c))) s) c"

lemma call_entry_simps [simp]:
  "ints (call_entry U n a b x c s) = ints s" "supports (call_entry U n a b x c s) = supports s"
  "currentProcess (call_entry U n a b x c s) = currentProcess s"
  "softBlockedCount (call_entry U n a b x c s) = softBlockedCount s"
  "hw_clock (call_entry U n a b x c s) = hw_clock s" "tod_ix (hardware (call_entry U n a b x c s)) = tod_ix (hardware s)"
  "timescale (hardware (call_entry U n a b x c s)) = timescale (hardware s)"
  "tod_in (hardware (call_entry U n a b x c s)) = tod_in (hardware s)"
  "startT (call_entry U n a b x c s) = startT s" "p_time (pcbs (call_entry U n a b x c s) z) = p_time (pcbs s z)"
  "at_entry (call_entry U n a b x c s) k d = at_entry s k d"
  "y \<noteq> BIOSDATAPAGE \<Longrightarrow> states (call_entry U n a b x c s) y = states s y"
  "z \<noteq> c \<Longrightarrow> pcbs (call_entry U n a b x c s) z = pcbs s z"
  "p_supportStruct (pcbs (call_entry U n a b x c s) z) = p_supportStruct (pcbs s z)"
  "p_child (pcbs (call_entry U n a b x c s) z) = p_child (pcbs s z)"
  "p_prnt (pcbs (call_entry U n a b x c s) z) = p_prnt (pcbs s z)"
  by (simp_all add: call_entry_def sys_entry_def trap_def hw_clock_def)

lemma call_entry_tree: "same_tree (pcbs s) (pcbs (call_entry U n a b x c s))"
  by (simp add: call_entry_def sys_entry_def same_tree_def)

lemma call_entry_state:
  assumes "umps_regs U"
  shows "reg_a1 U (p_s (pcbs (call_entry U n a b x c s) c)) = a"
    "reg_a2 U (p_s (pcbs (call_entry U n a b x c s) c)) = b" "reg_a3 U (p_s (pcbs (call_entry U n a b x c s) c)) = x"
    "status (p_s (pcbs (call_entry U n a b x c s) c)) = status (p_s (pcbs s c))"
    "states (call_entry U n a b x c s) BIOSDATAPAGE = call_state U n a b x (p_s (pcbs s c))"
proof -
  have "reg_a3 U (call_state U n a b x (p_s (pcbs s c))) = x"
    using assms by (simp add: call_state_def umps_regs_def reg_defs set_gpr_def)
  then show "reg_a1 U (p_s (pcbs (call_entry U n a b x c s) c)) = a"
    "reg_a2 U (p_s (pcbs (call_entry U n a b x c s) c)) = b" "reg_a3 U (p_s (pcbs (call_entry U n a b x c s) c)) = x"
    by (simp_all add: call_entry_def sys_state_regs [OF assms] call_state_simps [OF assms])
  show "status (p_s (pcbs (call_entry U n a b x c s) c)) = status (p_s (pcbs s c))"
    by (simp add: call_entry_def sys_state_def call_state_simps [OF assms])
  show "states (call_entry U n a b x c s) BIOSDATAPAGE = call_state U n a b x (p_s (pcbs s c))"
    by (simp add: call_entry_def)
qed

lemma kernel_call:
  assumes U: "umps_doc U" and r: "runs_in_kernel s k c"
  shows "handleExceptions U (trap U (call_state U n a b x (p_s (pcbs s c))) s) =
    (let s1 = call_entry U n a b x c s in
      if n = CREATEPROCESS then create_Process U s1
      else if n = TERMPROCESS then terminate_Process (Some c) s1
      else if n = PASSEREN then passeren U s1
      else if n = VERHOGEN then verhogen U s1
      else if n = IOWAIT then wait_For_IO U s1
      else if n = GETTIME then get_Cpu_Time U s1
      else if n = CLOCKWAIT then wait_For_Clock U s1
      else if n = GETSUPPORTPTR then get_support_data U s1
      else passupOrDie U GENERALEXCEPT s1)"
proof -
  have R: "umps_regs U" and CD: "umps_codes U" using U by (simp_all add: umps_doc_def)
  let ?t = "trap U (call_state U n a b x (p_s (pcbs s c))) s"
  have e: "at_entry ?t k c" and m: "status (states ?t BIOSDATAPAGE) AND USERPON = 0"
    using r by (simp_all add: runs_in_kernel_def call_state_simps [OF R])
  show ?thesis unfolding trap_code [OF CD]
    using handleNucleousSystemcalls_kernel [OF e m refl refl] by (simp add: call_state_simps [OF R] call_entry_def Let_def)
qed

text \<open>A call that comes back to the caller at once.\<close>

lemma nucleus_call_returns:
  assumes U: "umps_doc U" and r: "runs_in_kernel (nuc s) k c"
    and h: "handleExceptions U (trap U (call_state U n a b x (p_s (pcbs (nuc s) c))) (nuc s)) = Some (LDST st, n')"
    and c: "currentProcess n' = Some c"
  shows "nucleus_call U n a b x s = Some (reg_v0 U st, s\<lparr>nuc := n'\<rparr>)"
  using r h c at_entryD(2) [of "nuc s" k c] by (simp add: nucleus_call_def call_from_def runs_in_kernel_def)

text \<open>What a call leaves of the rest: only the state and the time of the caller can have changed.\<close>

definition spares :: "nuc_state \<Rightarrow> nuc_state \<Rightarrow> nat \<Rightarrow> bool" where
  "spares s s' c \<longleftrightarrow> (\<forall>y. y \<noteq> BIOSDATAPAGE \<longrightarrow> states s' y = states s y) \<and> supports s' = supports s \<and>
     softBlockedCount s' = softBlockedCount s \<and> hw_clock s' = hw_clock s \<and>
     (\<forall>x. p_supportStruct (pcbs s' x) = p_supportStruct (pcbs s x) \<and> (x \<noteq> c \<longrightarrow> p_s (pcbs s' x) = p_s (pcbs s x)))"

lemma spares_refl [simp]: "spares s s c"
  by (simp add: spares_def)

lemma spares_trans: "spares s s' c \<Longrightarrow> spares s' s'' c \<Longrightarrow> spares s s'' c"
  by (simp add: spares_def)

lemma path_end_runs:
  "path_end (LDST st) s' k' \<Longrightarrow> currentProcess s' = Some c \<Longrightarrow> status st AND USERPON = 0 \<Longrightarrow> runs_in_kernel s' k' c"
  by (auto simp: path_end_def runs_in_kernel_def at_entry_def)

text \<open>SYS3 on a positive semaphore.\<close>

lemma nucleus_P_free:
  assumes U: "umps_doc U" and r: "runs_in_kernel (nuc s) k c" and a: "sem_addr a"
    and v: "\<not> sint (ints (nuc s) a - 1) < 0"
  shows "\<exists>v n'. nucleus_call U PASSEREN a 0 0 s = Some (v, s\<lparr>nuc := n'\<rparr>) \<and> runs_in_kernel n' k c \<and>
     ints n' = (ints (nuc s))(a := ints (nuc s) a - 1) \<and> spares (nuc s) n' c \<and> same_tree (pcbs (nuc s)) (pcbs n')"
proof -
  have R: "umps_regs U" using U by (simp add: umps_doc_def)
  let ?s1 = "call_entry U PASSEREN a 0 0 c (nuc s)"
  have e1: "at_entry ?s1 k c" using r by (simp add: runs_in_kernel_def)
  have a1: "a = reg_a1 U (p_s (pcbs ?s1 c))" by (simp add: call_entry_state [OF R])
  have a': "a \<noteq> 0" "a \<noteq> MAXADD" using a by (simp_all add: sem_addr_def)
  let ?s' = "?s1\<lparr>mutex := a, ints := (ints ?s1)(a := ints ?s1 a - 1)\<rparr>"
  have e': "at_entry ?s' k c" using e1 by simp
  have run: "passeren U ?s1 = Some (LDST (p_s (pcbs ?s1 c)), ?s')"
    using v a' a1 at_entryD(2) [OF e1] loadProcess_entry(1) [OF e']
    by (simp add: passeren_def curProc_entry [OF e1] load_int_def store_int_def Let_def)
  have c': "currentProcess ?s' = Some c" using at_entryD(2) [OF e1] by simp
  have "handleExceptions U (trap U (call_state U PASSEREN a 0 0 (p_s (pcbs (nuc s) c))) (nuc s)) = Some (LDST (p_s (pcbs ?s1 c)), ?s')"
    unfolding kernel_call [OF U r] using run by (simp add: Let_def syscall_numbers)
  from nucleus_call_returns [OF U r this c'] have "nucleus_call U PASSEREN a 0 0 s = Some (reg_v0 U (p_s (pcbs ?s1 c)), s\<lparr>nuc := ?s'\<rparr>)" .
  moreover have "runs_in_kernel ?s' k c"
    using e' r by (simp add: call_entry_state [OF R] runs_in_kernel_def)
  ultimately show ?thesis by (intro exI [of _ "reg_v0 U (p_s (pcbs ?s1 c))"] exI [of _ ?s']) (simp add: spares_def hw_clock_def call_entry_tree)
qed

text \<open>SYS3 on a semaphore at zero: the caller waits and the next ready process runs.\<close>

lemma kernel_P_blocks:
  assumes U: "umps_doc U" and r: "runs_in_kernel s k c" and a: "sem_addr a" and v: "ints s a = 0" and q: "kready k = p # rs"
  shows "\<exists>n'. handleExceptions U (trap U (call_state U PASSEREN a 0 0 (p_s (pcbs s c))) s) = Some (LDST (p_s (pcbs s p)), n') \<and>
     at_entry n' (k\<lparr>kblocked := (kblocked k)(a := kblocked k a @ [c]), kready := rs, kheld := [p]\<rparr>) p \<and>
     ints n' = (ints s)(a := - 1) \<and> supports n' = supports s \<and> same_tree (pcbs s) (pcbs n') \<and>
     (\<forall>x. x \<noteq> c \<longrightarrow> p_s (pcbs n' x) = p_s (pcbs s x)) \<and> status (p_s (pcbs n' c)) = status (p_s (pcbs s c))"
proof -
  have R: "umps_regs U" using U by (simp add: umps_doc_def)
  let ?s1 = "call_entry U PASSEREN a 0 0 c s"
  have e: "at_entry s k c" and e1: "at_entry ?s1 k c" using r by (simp_all add: runs_in_kernel_def)
  have "p \<noteq> c" using q at_entryD(1,3) [OF e] kinvD(8) [of s k] by (auto simp: unblocked_def)
  moreover have a1: "a = reg_a1 U (p_s (pcbs ?s1 c))" by (simp add: call_entry_state [OF R])
  ultimately obtain n' where n': "passeren U ?s1 = Some (LDST (p_s (pcbs s p)), n')"
    "path_end (LDST (p_s (pcbs s p))) n' (k\<lparr>kblocked := (kblocked k)(a := kblocked k a @ [c]), kready := rs, kheld := [p]\<rparr>)"
    "currentProcess n' = Some p" "supports n' = supports s" "ints n' = (ints s)(a := - 1)"
    "\<And>x. p_s (pcbs n' x) = p_s (pcbs ?s1 x)" "same_tree (pcbs ?s1) (pcbs n')"
    using passeren_dispatch [OF e1 a1 a _ q] v by auto
  have "at_entry n' (k\<lparr>kblocked := (kblocked k)(a := kblocked k a @ [c]), kready := rs, kheld := [p]\<rparr>) p"
    using n'(2,3) by (simp add: at_entry_def path_end_def)
  moreover have "handleExceptions U (trap U (call_state U PASSEREN a 0 0 (p_s (pcbs s c))) s) = Some (LDST (p_s (pcbs s p)), n')"
    unfolding kernel_call [OF U r] using n'(1) by (simp add: Let_def syscall_numbers)
  ultimately show ?thesis using n'(4-6) same_tree_trans [OF call_entry_tree n'(7)]
    by (intro exI [of _ n']) (simp add: call_entry_state [OF R])
qed

text \<open>SYS4, with nobody waiting and with somebody waiting.\<close>

definition V_view :: "u32 \<Rightarrow> kview \<Rightarrow> kview" where
  "V_view a k = (case kblocked k a of [] \<Rightarrow> k | p # q \<Rightarrow> k\<lparr>kblocked := (kblocked k)(a := q), kready := kready k @ [p]\<rparr>)"

lemma V_view_nobody [simp]: "kblocked k a = [] \<Longrightarrow> V_view a k = k"
  by (simp add: V_view_def)

lemma nucleus_V:
  assumes U: "umps_doc U" and r: "runs_in_kernel (nuc s) k c" and a: "sem_addr a"
  shows "\<exists>v n'. nucleus_call U VERHOGEN a 0 0 s = Some (v, s\<lparr>nuc := n'\<rparr>) \<and> runs_in_kernel n' (V_view a k) c \<and>
     ints n' = (ints (nuc s))(a := ints (nuc s) a + 1) \<and> spares (nuc s) n' c \<and> same_tree (pcbs (nuc s)) (pcbs n')"
proof -
  have R: "umps_regs U" using U by (simp add: umps_doc_def)
  let ?s1 = "call_entry U VERHOGEN a 0 0 c (nuc s)"
  have e1: "at_entry ?s1 k c" using r by (simp add: runs_in_kernel_def)
  have a1: "a = reg_a1 U (p_s (pcbs ?s1 c))" by (simp add: call_entry_state [OF R])
  obtain s' where s': "verhogen U ?s1 = Some (LDST (p_s (pcbs ?s1 c)), s')" "path_end (LDST (p_s (pcbs ?s1 c))) s' (V_view a k)"
    "currentProcess s' = Some c" "ints s' = (ints ?s1)(a := ints ?s1 a + 1)" "supports s' = supports ?s1"
    "states s' = states ?s1" "hardware s' = hardware ?s1" "softBlockedCount s' = softBlockedCount ?s1"
    "\<And>x. pcb_user (pcbs s' x) = pcb_user (pcbs ?s1 x)"
    using verhogen_spec [OF e1 a1 a] unfolding V_view_def by blast
  have "handleExceptions U (trap U (call_state U VERHOGEN a 0 0 (p_s (pcbs (nuc s) c))) (nuc s)) = Some (LDST (p_s (pcbs ?s1 c)), s')"
    unfolding kernel_call [OF U r] using s'(1) by (simp add: Let_def syscall_numbers)
  from nucleus_call_returns [OF U r this s'(3)] have call: "nucleus_call U VERHOGEN a 0 0 s = Some (reg_v0 U (p_s (pcbs ?s1 c)), s\<lparr>nuc := s'\<rparr>)" .
  have "runs_in_kernel s' (V_view a k) c"
    by (rule path_end_runs [OF s'(2,3)]) (use r in \<open>simp add: call_entry_state [OF R] runs_in_kernel_def\<close>)
  moreover have "spares (nuc s) s' c" using pcb_user_eqD(5,7) [OF s'(9)] s'(5-8) by (simp add: spares_def hw_clock_def)
  moreover have "same_tree (pcbs (nuc s)) (pcbs s')" using same_tree_trans [OF call_entry_tree same_tree_user [OF s'(9)]] .
  ultimately show ?thesis using call s'(4) by (intro exI [of _ "reg_v0 U (p_s (pcbs ?s1 c))"] exI [of _ s']) simp
qed

text \<open>
  SYS6.  The processor time of the running process is the time of day plus a number that changes
  only at a dispatch.
\<close>

definition tod_now :: "nuc_state \<Rightarrow> u32" where
  "tod_now s = tod_in (hardware s) (tod_ix (hardware s))"

definition cpu_base :: "nuc_state \<Rightarrow> nat \<Rightarrow> u32" where
  "cpu_base s c = p_time (pcbs s c) - startT s"

lemma nucleus_cpu_time:
  assumes U: "umps_doc U" and r: "runs_in_kernel (nuc s) k c"
  shows "\<exists>n'. nucleus_call U GETTIME 0 0 0 s = Some (cpu_base (nuc s) c + tod_now (nuc s), s\<lparr>nuc := n'\<rparr>) \<and>
     runs_in_kernel n' k c \<and> ints n' = ints (nuc s) \<and> spares (nuc s) n' c \<and> cpu_base n' c = cpu_base (nuc s) c \<and>
     tod_ix (hardware n') = Suc (tod_ix (hardware (nuc s)))"
proof -
  have R: "umps_regs U" using U by (simp add: umps_doc_def)
  let ?s1 = "call_entry U GETTIME 0 0 0 c (nuc s)"
  have e1: "at_entry ?s1 k c" using r by (simp add: runs_in_kernel_def)
  define d where "d = p_time (pcbs ?s1 c) + (tod_in (hardware ?s1) (tod_ix (hardware ?s1)) - startT ?s1)"
  obtain s' where s': "get_Cpu_Time U ?s1 = Some (LDST (set_gpr (ix_v0 U) d (p_s (pcbs ?s1 c))), s')"
    "path_end (LDST (set_gpr (ix_v0 U) d (p_s (pcbs ?s1 c)))) s' k" "ints s' = ints ?s1" "supports s' = supports ?s1"
    "softBlockedCount s' = softBlockedCount ?s1" "states s' = states ?s1" "currentProcess s' = Some c"
    "hardware s' = (hardware ?s1)\<lparr>tod_ix := Suc (tod_ix (hardware ?s1))\<rparr>" "\<And>x. x \<noteq> c \<Longrightarrow> pcbs s' x = pcbs ?s1 x"
    "pcb_core ((pcbs s' c)\<lparr>p_s := p_s (pcbs ?s1 c), p_time := p_time (pcbs ?s1 c)\<rparr>) = pcb_core (pcbs ?s1 c)"
    "p_time (pcbs s' c) = d" "startT s' = tod_in (hardware ?s1) (tod_ix (hardware ?s1))"
    using get_Cpu_Time_spec [OF e1 refl d_def, of U] by blast
  have sp: "p_supportStruct (pcbs s' c) = p_supportStruct (pcbs ?s1 c)" using pcb_core_eqD(6) [OF s'(10)] by simp
  have "handleExceptions U (trap U (call_state U GETTIME 0 0 0 (p_s (pcbs (nuc s) c))) (nuc s)) =
      Some (LDST (set_gpr (ix_v0 U) d (p_s (pcbs ?s1 c))), s')"
    unfolding kernel_call [OF U r] using s'(1) by (simp add: Let_def syscall_numbers)
  from nucleus_call_returns [OF U r this s'(7)] have call: "nucleus_call U GETTIME 0 0 0 s =
      Some (reg_v0 U (set_gpr (ix_v0 U) d (p_s (pcbs ?s1 c))), s\<lparr>nuc := s'\<rparr>)" .
  have "runs_in_kernel s' k c"
    by (rule path_end_runs [OF s'(2,7)]) (use r in \<open>simp add: call_entry_state [OF R] runs_in_kernel_def\<close>)
  moreover have "p_supportStruct (pcbs s' x) = p_supportStruct (pcbs (nuc s) x)" for x
    using s'(9) [of x] sp by (cases "x = c") simp_all
  then have "spares (nuc s) s' c" using s'(4-6,8,9) by (simp add: spares_def hw_clock_def)
  moreover have "cpu_base s' c = cpu_base (nuc s) c" "d = cpu_base (nuc s) c + tod_now (nuc s)"
    using s'(11,12) by (simp_all add: cpu_base_def tod_now_def d_def)
  ultimately show ?thesis using call s'(3,8) by (intro exI [of _ s']) (simp add: reg_defs)
qed

subsection \<open>SYS8, and the exceptions passed up\<close>

lemma call_from_support:
  assumes U: "umps_doc U" and e: "at_entry (nuc s) k c" and m: "status st AND USERPON = 0"
  shows "\<exists>n'. call_from U st GETSUPPORTPTR 0 0 0 s = Some (p_supportStruct (pcbs (nuc s) c), s\<lparr>nuc := n'\<rparr>) \<and>
     runs_in_kernel n' k c \<and> ints n' = ints (nuc s) \<and> spares (nuc s) n' c \<and> same_tree (pcbs (nuc s)) (pcbs n')"
proof -
  have R: "umps_regs U" and CD: "umps_codes U" using U by (simp_all add: umps_doc_def)
  let ?t = "trap U (call_state U GETSUPPORTPTR 0 0 0 st) (nuc s)"
  let ?s1 = "sys_entry U ?t c"
  have et: "at_entry ?t k c" and e1: "at_entry ?s1 k c" using e by simp_all
  have mt: "status (states ?t BIOSDATAPAGE) AND USERPON = 0" using m by (simp add: call_state_simps [OF R])
  let ?st = "set_gpr (ix_v0 U) (p_supportStruct (pcbs ?s1 c)) (p_s (pcbs ?s1 c))"
  obtain n' where n': "get_support_data U ?s1 = Some (LDST ?st, n')" "path_end (LDST ?st) n' k" "n' = ?s1\<lparr>pcbs := pcbs n'\<rparr>"
    "\<And>x. x \<noteq> c \<Longrightarrow> pcbs n' x = pcbs ?s1 x" "pcbs n' c = (pcbs ?s1 c)\<lparr>p_s := ?st\<rparr>"
    using get_support_data_spec [OF e1, of U] by blast
  have run: "handleExceptions U ?t = Some (LDST ?st, n')"
    unfolding trap_code [OF CD] using handleNucleousSystemcalls_kernel [OF et mt refl refl] n'(1)
    by (simp add: call_state_simps [OF R] syscall_numbers)
  have f: "ints n' = ints ?s1" "supports n' = supports ?s1" "states n' = states ?s1" "hardware n' = hardware ?s1"
    "softBlockedCount n' = softBlockedCount ?s1" "currentProcess n' = currentProcess ?s1" by (subst n'(3), simp)+
  have c': "currentProcess n' = Some c" using f(6) at_entryD(2) [OF e] by simp
  have "status ?st AND USERPON = 0" using m by (simp add: sys_state_def call_state_simps [OF R])
  then have rk: "runs_in_kernel n' k c" by (rule path_end_runs [OF n'(2) c'])
  have "same_tree (pcbs (nuc s)) (pcbs n')" unfolding same_tree_def
    using n'(4,5) by (intro allI, rename_tac x, case_tac "x = c") (simp_all add: sys_entry_def)
  moreover have "p_s (pcbs n' x) = p_s (pcbs (nuc s) x)" if "x \<noteq> c" for x using n'(4) [OF that] that by (simp add: sys_entry_def)
  ultimately have "spares (nuc s) n' c" "same_tree (pcbs (nuc s)) (pcbs n')"
    using f(2-5) by (simp_all add: spares_def hw_clock_def trap_def same_tree_def)
  moreover have "call_from U st GETSUPPORTPTR 0 0 0 s = Some (p_supportStruct (pcbs (nuc s) c), s\<lparr>nuc := n'\<rparr>)"
    using run c' at_entryD(2) [OF e] by (simp add: call_from_def sys_entry_def reg_defs set_gpr_def)
  ultimately show ?thesis using rk f(1) by (intro exI [of _ n']) simp
qed

lemma exc_code_low:
  assumes "(c :: u32) AND 0xFF = push_bit 2 code" and "code \<in> {4, 5, 6, 7, 8, 9, 10, 11, 12}"
  shows "drop_bit 2 c AND 31 = code"
proof -
  have d: "drop_bit 2 (push_bit 2 code) = code" using assms(2) by auto
  have "drop_bit 2 c AND 31 = drop_bit 2 (c AND 0xFF) AND 31"
  proof -
    have m: "31 = (mask 5 :: u32)" "0xFF = (mask 8 :: u32)" by (simp_all add: mask_eq_exp_minus_1)
    show ?thesis unfolding m by (rule bit_word_eqI) (auto simp: bit_simps)
  qed
  also have "\<dots> = code" unfolding assms(1) d using assms(2) by auto
  finally show ?thesis .
qed

text \<open>
  A trap, or a system call the nucleus does not serve, is passed up: the state is saved in the support
  structure of the process and its context is loaded; nothing else changes but \<open>p_s\<close> of the process.
\<close>

definition passed_up :: "umps \<Rightarrow> nuc_state \<Rightarrow> u32 \<Rightarrow> nuc_state \<Rightarrow> bool" where
  "passed_up U n a n' \<longleftrightarrow> ints n' = ints n \<and> states n' = states n \<and> softBlockedCount n' = softBlockedCount n \<and>
     supports n' = (supports n)(a := (supports n a)\<lparr>sup_exceptState := (sup_exceptState (supports n a))(GENERALEXCEPT :=
       copyState U (states n BIOSDATAPAGE) (sup_exceptState (supports n a) GENERALEXCEPT))\<rparr>)"

lemma passes_up:
  assumes U: "umps_doc U" and e: "at_entry n k c" and a: "p_supportStruct (pcbs n c) = a" "a \<noteq> 0"
    and code: "code \<in> {4, 5, 6, 7, 9, 10, 11, 12} \<or>
      code = 8 \<and> (status (states n BIOSDATAPAGE) AND USERPON \<noteq> 0 \<or> reg_a0 U (states n BIOSDATAPAGE) = 9)"
    and cau: "CAUSE (hardware n) AND 0xFF = push_bit 2 code"
  shows "\<exists>n'. handleExceptions U n = Some (LDCXT (stackPtr (sup_exceptContext (supports n a) GENERALEXCEPT))
      (ctx_status (sup_exceptContext (supports n a) GENERALEXCEPT)) (pc (sup_exceptContext (supports n a) GENERALEXCEPT)), n') \<and>
    passed_up U n a n' \<and> at_entry n' k c \<and> same_tree (pcbs n) (pcbs n') \<and> (\<forall>x. x \<noteq> c \<longrightarrow> pcbs n' x = pcbs n x)"
proof -
  have CD: "umps_codes U" using U by (simp add: umps_doc_def)
  have ec: "CAUSE_GET_EXCCODE U (CAUSE (hardware n)) = code"
    using exc_code_low [OF cau] code CD by (auto simp: umps_codes_def)
  have up: ?thesis if r: "handleExceptions U n = passupOrDie U GENERALEXCEPT n1" and n1: "n1 = n \<or> n1 = sys_entry U n c" for n1
  proof -
    have s: "supports n1 = supports n" "states n1 = states n" "ints n1 = ints n" "softBlockedCount n1 = softBlockedCount n"
      "same_tree (pcbs n) (pcbs n1)" "\<And>x. x \<noteq> c \<Longrightarrow> pcbs n1 x = pcbs n x" "at_entry n1 k c" "p_supportStruct (pcbs n1 c) = a"
      using n1 a(1) e by (auto simp: sys_entry_def)
    show ?thesis unfolding r using passupOrDie_up [OF s(7) s(8) [symmetric] a(2) refl, of U GENERALEXCEPT] s(1-7)
      by (simp add: passed_up_def)
  qed
  consider "code \<in> {4, 5, 6, 7, 9, 10, 11, 12}" | "code = 8" "status (states n BIOSDATAPAGE) AND USERPON \<noteq> 0"
    | "code = 8" "status (states n BIOSDATAPAGE) AND USERPON = 0" "reg_a0 U (states n BIOSDATAPAGE) = 9" using code by blast
  then show ?thesis
  proof cases
    case 1
    then have "handleExceptions U n = passupOrDie U GENERALEXCEPT n"
      using CD ec by (auto simp: handleExceptions_def umps_codes_def Let_def)
    then show ?thesis by (rule up) simp
  next
    case 2
    then have "handleExceptions U n = passupOrDie U GENERALEXCEPT n"
      using CD ec handleNucleousSystemcalls_user [OF 2(2), of U] by (auto simp: handleExceptions_def umps_codes_def Let_def)
    then show ?thesis by (rule up) simp
  next
    case 3
    have "handleNucleousSystemcalls U n = passupOrDie U GENERALEXCEPT (sys_entry U n c)"
      using handleNucleousSystemcalls_kernel [OF e 3(2) refl refl] 3(3) by (simp add: Let_def syscall_numbers)
    then have "handleExceptions U n = passupOrDie U GENERALEXCEPT (sys_entry U n c)"
      using CD ec 3(1) by (auto simp: handleExceptions_def umps_codes_def Let_def)
    then show ?thesis by (rule up) simp
  qed
qed

end
