(* ===== verification/User_End.thy ===== *)
theory User_End
  imports Nuc_Calls
begin

text \<open>
  The end of a user process through all levels: its SYS9 is passed up by the nucleus, the handler of
  the support level asks for its support structure, gives it back and signals the first process, and
  its SYS2 frees the process; and the whole life of the system on the modelled nucleus, from the
  first process to HALT.
\<close>

subsection \<open>SYS2 by a process without children\<close>

text \<open>What the end of \<open>c\<close> leaves of the other blocks.\<close>

definition left_by :: "nat \<Rightarrow> pcb_heap \<Rightarrow> pcb_heap \<Rightarrow> bool" where
  "left_by c h h' \<longleftrightarrow> (\<forall>x. p_supportStruct (h' x) = p_supportStruct (h x) \<and> (x \<noteq> c \<longrightarrow> p_s (h' x) = p_s (h x) \<and> p_prnt (h' x) = p_prnt (h x)) \<and>
     (psib h' x = psib h x \<or> psib h' x = None) \<and>
     p_child (h' x) = (if p_prnt (h c) = Some x \<and> p_child (h x) = Some c then psib h c else p_child (h x)))"

lemma left_by_trans:
  assumes "same_tree g h" "\<And>x. x \<noteq> c \<Longrightarrow> p_s (h x) = p_s (g x)" "left_by c h h'" "\<And>x. pcb_user (h'' x) = pcb_user (h' x)"
  shows "left_by c g h''"
  using assms(1-3) pcb_user_eqD [OF assms(4)] by (simp add: left_by_def same_tree_def)

lemma terminate_leaf:
  assumes e: "at_entry s k c" and leaf: "p_child (pcbs s c) = None"
  shows "\<exists>s1. terminate_Process_rec (Some c) s = Some s1 \<and> kinv s1 (k\<lparr>kfree := kfree k @ [c], kheld := []\<rparr>) \<and>
     ints s1 = ints s \<and> supports s1 = supports s \<and> left_by c (pcbs s) (pcbs s1) \<and> softBlockedCount s1 = softBlockedCount s"
proof -
  note E = at_entryD [OF e]
  obtain h where h: "outChild (Some c) (pcbs s) = Some (if p_prnt (pcbs s c) = None then None else Some c, h)" "tree_only (pcbs s) h UNIV"
    "\<And>x. x \<noteq> c \<Longrightarrow> p_prnt (h x) = p_prnt (pcbs s x)" "\<And>x. psib h x = psib (pcbs s) x \<or> psib h x = None"
    "\<And>x. p_child (h x) = (if p_prnt (pcbs s c) = Some x \<and> p_child (pcbs s x) = Some c then psib (pcbs s) c else p_child (pcbs s x))"
    using outChild_any [of c "pcbs s"] by blast
  let ?s0 = "s\<lparr>pcbs := h\<rparr>"
  have k0: "kinv ?s0 k" by (rule kinv_tree_only [OF E(1) h(2)])
  have "p_child (h c) = None" using h(5) leaf by simp
  then have l: "terminate_loop (Some c) ?s0 = Some ?s0"
    by (subst terminate_loop_unfold) (simp add: emptyChild_def)
  have cf: "c \<notin> set (kfree k)" "c \<notin> set (kready k)" "c \<notin> set (kblocked k a)" for a
    using E(3,5) kinvD(7,8) [OF E(1)] by (auto simp: unblocked_def)
  obtain s1 where s1: "release_process (Some c) ?s0 = Some s1" "kinv s1 (reaped [c] k)" "reap_frame ?s0 s1 k (reaped [c] k) {}"
    using release_process_reaps [OF k0 E(6) cf(1)] by blast
  have r: "reaped [c] k = k\<lparr>kfree := kfree k @ [c], kheld := []\<rparr>"
    using cf E(3) by (simp add: reaped_one [OF E(1)] remove1_idem)
  have i: "ints s1 = ints s" and F: "kframe (?s0\<lparr>ints := ints s1\<rparr>) s1 {}"
    using s1(3) unfolding r reap_frame_def by (auto simp: fun_eq_iff)
  have u: "pcb_user (pcbs s1 x) = pcb_user (h x)" for x using kframe_user [OF F, of x] by simp
  have "p_s (h x) = p_s (pcbs s x)" "p_supportStruct (h x) = p_supportStruct (pcbs s x)" for x
    by (rule pcb_core_eqD [OF tree_only_core [OF h(2)]])+
  then have "left_by c (pcbs s) (pcbs s1)"
    using h(3-5) pcb_user_eqD [OF u] by (simp add: left_by_def)
  moreover have "supports s1 = supports s" "softBlockedCount s1 = softBlockedCount s" using kframe_globals [OF F] by simp_all
  moreover have "terminate_Process_rec (Some c) s = Some s1" using h(1) l s1(1) by (simp add: terminate_Process_rec_def)
  ultimately show ?thesis using s1(2) i unfolding r by blast
qed

text \<open>The scheduler takes over: the process that is ready longest runs, or the processor halts, waits or panics.\<close>

lemma terminate_leaf_next:
  assumes e: "at_entry s k c" and leaf: "p_child (pcbs s c) = None"
    and out: "out = next_run (pcbs s) (kready k) (kfree k @ [c]) (softBlockedCount s)"
  shows "\<exists>s' k'. terminate_Process (Some c) s = Some (out, s') \<and> path_end out s' k' \<and> kfree k' = kfree k @ [c] \<and>
     kblocked k' = kblocked k \<and> kready k = kheld k' @ kready k' \<and>
     ints s' = ints s \<and> supports s' = supports s \<and> left_by c (pcbs s) (pcbs s')"
proof -
  obtain s1 where s1: "terminate_Process_rec (Some c) s = Some s1" "kinv s1 (k\<lparr>kfree := kfree k @ [c], kheld := []\<rparr>)"
    "ints s1 = ints s" "supports s1 = supports s" "left_by c (pcbs s) (pcbs s1)" "softBlockedCount s1 = softBlockedCount s"
    using terminate_leaf [OF e leaf] by blast
  obtain out' s' k' where s': "scheduler s1 = Some (out', s')" "path_end out' s' k'" "kfree k' = kfree k @ [c]"
    "kblocked k' = kblocked k" "kready k = kheld k' @ kready k'" "ints s' = ints s1" "supports s' = supports s1"
    "\<And>x. pcb_user (pcbs s' x) = pcb_user (pcbs s1 x)"
    using scheduler_safe [OF s1(2)] by auto
  have "p \<noteq> c" if "p \<in> set (kready k)" for p
    using that at_entryD(1,3) [OF e] kinvD(8) [of s k] by (auto simp: unblocked_def)
  then have "p_s (pcbs s1 p) = p_s (pcbs s p)" if "p \<in> set (kready k)" for p using that s1(5) by (simp add: left_by_def)
  then have "out' = out"
    using scheduler_out [OF s1(2) _ s'(1)] s1(6) next_run_cong [of "kready k" "pcbs s1" "pcbs s"] by (simp add: out)
  moreover have "left_by c (pcbs s) (pcbs s')" by (rule left_by_trans [OF same_tree_refl _ s1(5) s'(8)]) simp
  ultimately show ?thesis using s1(1,3,4) s' by (intro exI [of _ s'] exI [of _ k']) (simp add: terminate_Process_def)
qed

lemma terminate_last:
  assumes e: "at_entry s k c" and leaf: "p_child (pcbs s c) = None" and last: "kready k = []" "length (kfree k) = MAXPROC - 1"
  shows "\<exists>s'. terminate_Process (Some c) s = Some (HALT, s') \<and> kinv s' (k\<lparr>kfree := kfree k @ [c], kheld := []\<rparr>) \<and>
     processCount s' = 0 \<and> ints s' = ints s \<and> supports s' = supports s"
proof -
  obtain s1 where s1: "terminate_Process_rec (Some c) s = Some s1" "kinv s1 (k\<lparr>kfree := kfree k @ [c], kheld := []\<rparr>)"
    "ints s1 = ints s" "supports s1 = supports s" using terminate_leaf [OF e leaf] by blast
  have "processCount s1 = 0" using processCount_zero [OF s1(2)] last(2) by (simp add: MAXPROC_def)
  moreover from this have "scheduler s1 = Some (HALT, s1)" using scheduler_idle [OF s1(2)] last(1) by simp
  ultimately show ?thesis using s1 by (intro exI [of _ s1]) (simp add: terminate_Process_def)
qed

subsection \<open>SYS9 through the levels\<close>

text \<open>\<open>LDCXT\<close>: the processor goes on with the stack, status and program counter of the context; the other registers are \<open>cpu\<close>.\<close>

definition load_context :: "umps \<Rightarrow> u32 \<Rightarrow> u32 \<Rightarrow> u32 \<Rightarrow> state_t \<Rightarrow> state_t" where
  "load_context U sp st entry cpu = (set_gpr (ix_sp U) sp cpu)\<lparr>status := st, pc_epc := entry\<rparr>"

text \<open>The calls of a handler: its first one, SYS8, from the registers of the context.\<close>

definition handler_calls :: "umps \<Rightarrow> state_t \<Rightarrow> kernel" where
  "handler_calls U cpu n a b c s = (if n = GETSUPPORTPTR then call_from U cpu n a b c s else nucleus_call U n a b c s)"

text \<open>A \<open>SYSCALL\<close> of the running process that need not come back to it.\<close>

definition nucleus_runs :: "umps \<Rightarrow> u32 \<Rightarrow> u32 \<Rightarrow> u32 \<Rightarrow> u32 \<Rightarrow> sup_state \<Rightarrow> (outcome \<times> sup_state) option" where
  "nucleus_runs U n a b c s = do {
     p \<leftarrow> currentProcess (nuc s);
     (out, n') \<leftarrow> handleExceptions U (trap U (call_state U n a b c (p_s (pcbs (nuc s) p))) (nuc s));
     Some (out, s\<lparr>nuc := n'\<rparr>)
   }"

text \<open>The running process calls SYS9: what the three levels do until a state is loaded for good.\<close>

definition user_exit :: "supp_umps \<Rightarrow> state_t \<Rightarrow> sup_state \<Rightarrow> (outcome \<times> sup_state) option" where
  "user_exit V cpu s = do {
     (out, s) \<leftarrow> nucleus_runs (nucl V) TERMINATE 0 0 0 s;
     case out of
       LDCXT sp st entry \<Rightarrow>
         if entry = adr_handleSupportLevelExceptions V then do {
           (out, s) \<leftarrow> handleSupportLevelExceptions (handler_calls (nucl V) (load_context (nucl V) sp st entry cpu)) V s;
           case out of SYSCALL n a b c \<Rightarrow> nucleus_runs (nucl V) n a b c s | _ \<Rightarrow> Some (out, s)
         } else None
     | _ \<Rightarrow> Some (out, s)
   }"

lemma supp_stack_saved:
  assumes "supp_stack s ps" and "freeSupp_tp s' = freeSupp_tp s"
    and "\<And>x. next_supp (supports (nuc s') x) = next_supp (supports (nuc s) x)"
    and "\<And>x. prev_supp (supports (nuc s') x) = prev_supp (supports (nuc s) x)"
  shows "supp_stack s' ps"
  using assms unfolding supp_stack_def by (subst stack_at_cong [where h = "supports (nuc s)"]) auto

text \<open>The handler of the support level, from its entry to its SYS2.\<close>

lemma handler_ends:
  assumes U: "umps_doc (nucl V)" and m: "m = adr_masterSem V" "sem_addr m" and e: "at_entry (nuc s) k c"
    and a: "p_supportStruct (pcbs (nuc s) c) = a" "a \<noteq> 0" and cpu: "status cpu AND USERPON = 0"
    and sv: "reg_a0 (nucl V) (sup_exceptState (supports (nuc s) a) GENERALEXCEPT) = TERMINATE"
      "cause (sup_exceptState (supports (nuc s) a) GENERALEXCEPT) \<noteq> EXC_MOD (nucl V)"
    and st: "supp_stack s ps" "a \<notin> set ps"
  shows "\<exists>s'. handleSupportLevelExceptions (handler_calls (nucl V) cpu) V s = Some (SYSCALL TERMPROCESS 0 0 0, s') \<and>
     runs_in_kernel (nuc s') (V_view m k) c \<and> ints (nuc s') = (ints (nuc s))(m := ints (nuc s) m + 1) \<and>
     supp_stack s' (a # ps) \<and> (\<forall>x. supp_user (supports (nuc s') x) = supp_user (supports (nuc s) x)) \<and>
     (\<forall>x. x \<noteq> c \<longrightarrow> p_s (pcbs (nuc s') x) = p_s (pcbs (nuc s) x)) \<and> same_tree (pcbs (nuc s)) (pcbs (nuc s')) \<and>
     softBlockedCount (nuc s') = softBlockedCount (nuc s)"
proof -
  let ?K = "handler_calls (nucl V) cpu"
  let ?l1 = "log (Sys GETSUPPORTPTR 0 0 0) s"
  have e1: "at_entry (nuc ?l1) k c" using e by (simp add: log_def)
  obtain n1 where n1: "call_from (nucl V) cpu GETSUPPORTPTR 0 0 0 ?l1 = Some (p_supportStruct (pcbs (nuc ?l1) c), ?l1\<lparr>nuc := n1\<rparr>)"
    "runs_in_kernel n1 k c" "ints n1 = ints (nuc ?l1)" "spares (nuc ?l1) n1 c" "same_tree (pcbs (nuc ?l1)) (pcbs n1)"
    using call_from_support [OF U e1 cpu] by blast
  let ?s1 = "?l1\<lparr>nuc := n1\<rparr>"
  have S1: "supports n1 = supports (nuc s)" using n1(4) by (simp add: spares_def log_def)
  have "supp_stack ?s1 ps" by (rule supp_stack_saved [OF st(1)]) (simp_all add: S1 log_def)
  from dealloc_supp_ok [OF this st(2) a(2)] obtain s2 where s2: "dealloc_supp a ?s1 = Some s2" "supp_stack s2 (a # ps)"
    "supp_frame ?s1 s2 (set (a # ps))" by blast
  obtain T P where n2: "s2 = ?s1\<lparr>freeSupp_tp := T, nuc := n1\<lparr>supports := P\<rparr>\<rparr>" "\<And>x. supp_user (P x) = supp_user (supports n1 x)"
    using s2(3) by (auto simp: supp_frame_def)
  let ?l2 = "log (Sys VERHOGEN m 0 0) s2"
  have r2: "runs_in_kernel (nuc ?l2) k c" using n1(2) by (simp add: n2(1) log_def)
  obtain v n3 where n3: "nucleus_call (nucl V) VERHOGEN m 0 0 ?l2 = Some (v, ?l2\<lparr>nuc := n3\<rparr>)" "runs_in_kernel n3 (V_view m k) c"
    "ints n3 = (ints (nuc ?l2))(m := ints (nuc ?l2) m + 1)" "spares (nuc ?l2) n3 c" "same_tree (pcbs (nuc ?l2)) (pcbs n3)"
    using nucleus_V [OF U r2 m(2)] by blast
  let ?s3 = "?l2\<lparr>nuc := n3\<rparr>"
  have V: "VERHOGEN \<noteq> GETSUPPORTPTR" by (simp add: syscall_numbers)
  have c1: "syscall ?K GETSUPPORTPTR 0 0 0 s = Some (a, ?s1)"
    using n1(1) a(1) by (simp add: syscall_def handler_calls_def log_def)
  have c3: "syscall ?K VERHOGEN m 0 0 s2 = Some (v, ?s3)" using n3(1) V by (simp add: syscall_def handler_calls_def)
  have run: "handleSupportLevelExceptions ?K V s = Some (SYSCALL TERMPROCESS 0 0 0, ?s3)"
    using c1 c3 s2(1) sv a(2) m(1)
    by (simp add: handleSupportLevelExceptions_def handleSupportSystemcalls_def terminate_support_def notifyTerminated_def
        get_supp_def load_supp_def S1)
  have S3: "supports n3 = P" using n3(4) by (simp add: spares_def n2(1) log_def)
  have "supp_stack ?s3 (a # ps)" by (rule supp_stack_saved [OF s2(2)]) (simp_all add: S3 n2(1) log_def)
  moreover have "p_s (pcbs n3 x) = p_s (pcbs (nuc s) x)" if "x \<noteq> c" for x
    using n1(4) n3(4) that by (simp add: spares_def n2(1) log_def)
  moreover have "same_tree (pcbs (nuc s)) (pcbs n3)"
    using same_tree_trans [OF n1(5)] n3(5) by (simp add: n2(1) log_def)
  moreover have "softBlockedCount n3 = softBlockedCount (nuc s)"
    using n1(4) n3(4) by (simp add: spares_def n2(1) log_def)
  ultimately show ?thesis using run n3(2,3) n1(3) n2 S1 S3 by (intro exI [of _ ?s3]) (simp add: log_def)
qed

definition same_user :: "support_t \<Rightarrow> support_t \<Rightarrow> bool" where
  "same_user x y \<longleftrightarrow> sup_asid y = sup_asid x \<and> sup_privatePgTbl y = sup_privatePgTbl x \<and> sup_exceptContext y = sup_exceptContext x"

lemma runs_current: "runs_in_kernel s k c \<Longrightarrow> currentProcess s = Some c"
  by (simp add: runs_in_kernel_def at_entry_def)

lemma V_view_free [simp]: "kfree (V_view a k) = kfree k" "kheld (V_view a k) = kheld k"
  by (simp_all add: V_view_def split: list.split)

text \<open>SYS9 reaches the handler of the support level, in user mode or in kernel mode.\<close>

lemma user_traps:
  assumes U: "umps_doc (nucl V)" and e: "at_entry (nuc s) k c" and a: "p_supportStruct (pcbs (nuc s) c) = a" "a \<noteq> 0"
    and cx: "sup_exceptContext (supports (nuc s) a) GENERALEXCEPT = \<lparr>stackPtr = sp, ctx_status = st, pc = adr_handleSupportLevelExceptions V\<rparr>"
    and ps: "supp_stack s ps"
  shows "\<exists>s'. nucleus_runs (nucl V) TERMINATE 0 0 0 s = Some (LDCXT sp st (adr_handleSupportLevelExceptions V), s') \<and>
     at_entry (nuc s') k c \<and> ints (nuc s') = ints (nuc s) \<and> supp_stack s' ps \<and>
     reg_a0 (nucl V) (sup_exceptState (supports (nuc s') a) GENERALEXCEPT) = TERMINATE \<and>
     cause (sup_exceptState (supports (nuc s') a) GENERALEXCEPT) \<noteq> EXC_MOD (nucl V) \<and>
     (\<forall>x. same_user (supports (nuc s) x) (supports (nuc s') x)) \<and> same_tree (pcbs (nuc s)) (pcbs (nuc s')) \<and>
     (\<forall>x. x \<noteq> c \<longrightarrow> p_s (pcbs (nuc s') x) = p_s (pcbs (nuc s) x)) \<and> softBlockedCount (nuc s') = softBlockedCount (nuc s)"
proof -
  have R: "umps_regs (nucl V)" and CD: "umps_codes (nucl V)" using U by (simp_all add: umps_doc_def)
  let ?st = "call_state (nucl V) TERMINATE 0 0 0 (p_s (pcbs (nuc s) c))"
  let ?t = "trap (nucl V) ?st (nuc s)"
  have et: "at_entry ?t k c" using e by simp
  have code: "(8::u32) \<in> {4, 5, 6, 7, 9, 10, 11, 12} \<or>
      (8::u32) = 8 \<and> (status (states ?t BIOSDATAPAGE) AND USERPON \<noteq> 0 \<or> reg_a0 (nucl V) (states ?t BIOSDATAPAGE) = 9)"
    by (simp add: call_state_simps [OF R] TERMINATE_def)
  have cau: "CAUSE (hardware ?t) AND 0xFF = push_bit 2 8" using CD by (simp add: trap_def umps_codes_def)
  have at: "p_supportStruct (pcbs ?t c) = a" using a(1) by simp
  obtain n1 where n1: "handleExceptions (nucl V) ?t = Some (LDCXT sp st (adr_handleSupportLevelExceptions V), n1)"
    "passed_up (nucl V) ?t a n1" "at_entry n1 k c" "same_tree (pcbs ?t) (pcbs n1)" "\<And>x. x \<noteq> c \<Longrightarrow> pcbs n1 x = pcbs ?t x"
    using passes_up [OF U et at a(2) code cau] cx by auto
  have S1: "supports n1 = (supports (nuc s))(a := (supports (nuc s) a)\<lparr>sup_exceptState := (sup_exceptState (supports (nuc s) a))
      (GENERALEXCEPT := copyState (nucl V) ?st (sup_exceptState (supports (nuc s) a) GENERALEXCEPT))\<rparr>)"
    and I1: "ints n1 = ints (nuc s)" "softBlockedCount n1 = softBlockedCount (nuc s)" using n1(2) by (simp_all add: passed_up_def trap_def)
  have "reg_a0 (nucl V) (sup_exceptState (supports n1 a) GENERALEXCEPT) = TERMINATE"
    using copyState_regs [OF R] call_state_simps(1) [OF R] by (simp add: S1)
  moreover have "cause (sup_exceptState (supports n1 a) GENERALEXCEPT) \<noteq> EXC_MOD (nucl V)"
    using CD by (simp add: S1 copyState_def call_state_simps [OF R] umps_codes_def Let_def)
  moreover have "supp_stack (s\<lparr>nuc := n1\<rparr>) ps" by (rule supp_stack_saved [OF ps]) (simp_all add: S1)
  moreover have "nucleus_runs (nucl V) TERMINATE 0 0 0 s = Some (LDCXT sp st (adr_handleSupportLevelExceptions V), s\<lparr>nuc := n1\<rparr>)"
    using n1(1) at_entryD(2) [OF e] by (simp add: nucleus_runs_def)
  ultimately show ?thesis using n1(3-5) I1 by (intro exI [of _ "s\<lparr>nuc := n1\<rparr>"]) (simp add: S1 same_user_def)
qed

lemma user_exit_any:
  assumes U: "umps_doc (nucl V)" and m: "m = adr_masterSem V" "sem_addr m" and e: "at_entry (nuc s) k c"
    and a: "p_supportStruct (pcbs (nuc s) c) = a" "a \<noteq> 0"
    and cx: "sup_exceptContext (supports (nuc s) a) GENERALEXCEPT = \<lparr>stackPtr = sp, ctx_status = st, pc = adr_handleSupportLevelExceptions V\<rparr>"
      "st AND USERPON = 0"
    and leaf: "p_child (pcbs (nuc s) c) = None" and ps: "supp_stack s ps" "a \<notin> set ps"
    and out: "out = next_run (pcbs (nuc s)) (kready (V_view m k)) (kfree k @ [c]) (softBlockedCount (nuc s))"
  shows "\<exists>s' k'. user_exit V cpu s = Some (out, s') \<and> path_end out (nuc s') k' \<and> kfree k' = kfree k @ [c] \<and>
     kblocked k' = kblocked (V_view m k) \<and> kready (V_view m k) = kheld k' @ kready k' \<and>
     ints (nuc s') = (ints (nuc s))(m := ints (nuc s) m + 1) \<and> supp_stack s' (a # ps) \<and>
     (\<forall>x. same_user (supports (nuc s) x) (supports (nuc s') x)) \<and> left_by c (pcbs (nuc s)) (pcbs (nuc s'))"
proof -
  obtain s1 where s1: "nucleus_runs (nucl V) TERMINATE 0 0 0 s = Some (LDCXT sp st (adr_handleSupportLevelExceptions V), s1)"
    "at_entry (nuc s1) k c" "ints (nuc s1) = ints (nuc s)" "supp_stack s1 ps"
    "reg_a0 (nucl V) (sup_exceptState (supports (nuc s1) a) GENERALEXCEPT) = TERMINATE"
    "cause (sup_exceptState (supports (nuc s1) a) GENERALEXCEPT) \<noteq> EXC_MOD (nucl V)"
    "\<And>x. same_user (supports (nuc s) x) (supports (nuc s1) x)" "same_tree (pcbs (nuc s)) (pcbs (nuc s1))"
    "\<And>x. x \<noteq> c \<Longrightarrow> p_s (pcbs (nuc s1) x) = p_s (pcbs (nuc s) x)" "softBlockedCount (nuc s1) = softBlockedCount (nuc s)"
    using user_traps [OF U e a cx(1) ps(1)] by blast
  let ?cpu = "load_context (nucl V) sp st (adr_handleSupportLevelExceptions V) cpu"
  have cpu: "status ?cpu AND USERPON = 0" using cx(2) by (simp add: load_context_def)
  have a1: "p_supportStruct (pcbs (nuc s1) c) = a" using s1(8) a(1) by (simp add: same_tree_def)
  obtain s2 where s2: "handleSupportLevelExceptions (handler_calls (nucl V) ?cpu) V s1 = Some (SYSCALL TERMPROCESS 0 0 0, s2)"
    "runs_in_kernel (nuc s2) (V_view m k) c" "ints (nuc s2) = (ints (nuc s1))(m := ints (nuc s1) m + 1)"
    "supp_stack s2 (a # ps)" "\<And>x. supp_user (supports (nuc s2) x) = supp_user (supports (nuc s1) x)"
    "\<And>x. x \<noteq> c \<Longrightarrow> p_s (pcbs (nuc s2) x) = p_s (pcbs (nuc s1) x)" "same_tree (pcbs (nuc s1)) (pcbs (nuc s2))"
    "softBlockedCount (nuc s2) = softBlockedCount (nuc s1)"
    using handler_ends [OF U m s1(2) a1 a(2) cpu s1(5,6,4) ps(2)] by blast
  let ?n3 = "call_entry (nucl V) TERMPROCESS 0 0 0 c (nuc s2)"
  have e3: "at_entry ?n3 (V_view m k) c" using s2(2) by (simp add: runs_in_kernel_def)
  have t3: "same_tree (pcbs (nuc s)) (pcbs ?n3)" by (rule same_tree_trans [OF s1(8) same_tree_trans [OF s2(7) call_entry_tree]])
  have "p_child (pcbs ?n3 c) = None" using leaf t3 by (simp add: same_tree_def)
  note leaf3 = this
  have ns: "p_s (pcbs ?n3 x) = p_s (pcbs (nuc s) x)" if "x \<noteq> c" for x using that s2(6) s1(9) by simp
  have pc: "p \<noteq> c" if "p \<in> set (kready (V_view m k))" for p
    using that e3 kinvD(8) [of ?n3 "V_view m k"] by (auto simp: at_entry_def unblocked_def)
  have "out = next_run (pcbs ?n3) (kready (V_view m k)) (kfree (V_view m k) @ [c]) (softBlockedCount ?n3)"
    using next_run_cong [of "kready (V_view m k)" "pcbs ?n3" "pcbs (nuc s)"] ns pc s1(10) s2(8) by (simp add: out)
  from terminate_leaf_next [OF e3 leaf3 this] obtain n4 k4 where
    n4: "terminate_Process (Some c) ?n3 = Some (out, n4)" "path_end out n4 k4" "kfree k4 = kfree k @ [c]"
      "kblocked k4 = kblocked (V_view m k)" "kready (V_view m k) = kheld k4 @ kready k4"
      "ints n4 = ints ?n3" "supports n4 = supports ?n3" "left_by c (pcbs ?n3) (pcbs n4)" by auto
  let ?s4 = "s2\<lparr>nuc := n4\<rparr>"
  have c2: "nucleus_runs (nucl V) TERMPROCESS 0 0 0 s2 = Some (out, ?s4)"
    using n4(1) kernel_call [OF U s2(2), of TERMPROCESS 0 0 0] runs_current [OF s2(2)]
    by (simp add: nucleus_runs_def syscall_numbers)
  have "user_exit V cpu s = Some (out, ?s4)"
    using s1(1) s2(1) c2 by (simp add: user_exit_def)
  moreover have "supp_stack ?s4 (a # ps)" by (rule supp_stack_saved [OF s2(4)]) (simp_all add: n4(7))
  moreover have "same_user (supports (nuc s) x) (supports n4 x)" for x
    using s1(7) [of x] supp_user_fields [OF s2(5) [of x]] by (simp add: same_user_def n4(7))
  moreover have "left_by c (pcbs (nuc s)) (pcbs n4)" by (rule left_by_trans [OF t3 ns n4(8) refl])
  ultimately show ?thesis using n4(2-6) s2(3) s1(3) by (intro exI [of _ ?s4] exI [of _ k4]) simp
qed

lemma user_exit_runs:
  assumes U: "umps_doc (nucl V)" and m: "m = adr_masterSem V" "sem_addr m" and e: "at_entry (nuc s) k c"
    and a: "p_supportStruct (pcbs (nuc s) c) = a" "a \<noteq> 0"
    and cx: "sup_exceptContext (supports (nuc s) a) GENERALEXCEPT = \<lparr>stackPtr = sp, ctx_status = st, pc = adr_handleSupportLevelExceptions V\<rparr>"
      "st AND USERPON = 0"
    and leaf: "p_child (pcbs (nuc s) c) = None" and ps: "supp_stack s ps" "a \<notin> set ps" and nxt: "kready (V_view m k) = p # rs"
  shows "\<exists>s'. user_exit V cpu s = Some (LDST (p_s (pcbs (nuc s) p)), s') \<and>
     at_entry (nuc s') ((V_view m k)\<lparr>kfree := kfree k @ [c], kready := rs, kheld := [p]\<rparr>) p \<and>
     ints (nuc s') = (ints (nuc s))(m := ints (nuc s) m + 1) \<and> supp_stack s' (a # ps) \<and>
     (\<forall>x. same_user (supports (nuc s) x) (supports (nuc s') x)) \<and> left_by c (pcbs (nuc s)) (pcbs (nuc s'))"
proof -
  have "LDST (p_s (pcbs (nuc s) p)) = next_run (pcbs (nuc s)) (kready (V_view m k)) (kfree k @ [c]) (softBlockedCount (nuc s))"
    using nxt by (simp add: next_run_def)
  from user_exit_any [OF U m e a cx leaf ps this] obtain s' k' where
    s': "user_exit V cpu s = Some (LDST (p_s (pcbs (nuc s) p)), s')" "path_end (LDST (p_s (pcbs (nuc s) p))) (nuc s') k'"
      "kfree k' = kfree k @ [c]" "kblocked k' = kblocked (V_view m k)" "p # rs = kheld k' @ kready k'"
      "ints (nuc s') = (ints (nuc s))(m := ints (nuc s) m + 1)" "supp_stack s' (a # ps)"
      "\<And>x. same_user (supports (nuc s) x) (supports (nuc s') x)" "left_by c (pcbs (nuc s)) (pcbs (nuc s'))"
    unfolding nxt by blast
  have "currentProcess (nuc s') = Some p" "kheld k' = [p]" "kready k' = rs" "kinv (nuc s') k'"
    using s'(2,5) by (auto simp: path_end_def)
  moreover from this have "k' = (V_view m k)\<lparr>kfree := kfree k @ [c], kready := rs, kheld := [p]\<rparr>"
    using s'(3,4) by (cases k') simp
  ultimately have "at_entry (nuc s') ((V_view m k)\<lparr>kfree := kfree k @ [c], kready := rs, kheld := [p]\<rparr>) p"
    by (simp add: at_entry_def)
  with s'(1,6-9) show ?thesis by blast
qed

subsection \<open>The life of the system\<close>

text \<open>
  The first process and the others.  A call of the first process \<open>p\<close> that blocks it gives the
  processor to the user processes; each of them ends with SYS9 as soon as it is dispatched, until the
  first process is dispatched again.
\<close>

fun others_run :: "nat \<Rightarrow> supp_umps \<Rightarrow> (sup_state \<Rightarrow> state_t) \<Rightarrow> nat \<Rightarrow> state_t \<Rightarrow> sup_state \<Rightarrow> (u32 \<times> sup_state) option" where
  "others_run 0 V cpu p st s = None"
| "others_run (Suc f) V cpu p st s =
     (if currentProcess (nuc s) = Some p then Some (reg_v0 (nucl V) st, s)
      else do {
        (out, s) \<leftarrow> user_exit V (cpu s) s;
        case out of LDST st \<Rightarrow> others_run f V cpu p st s | _ \<Rightarrow> None
      })"

definition first_call :: "supp_umps \<Rightarrow> (sup_state \<Rightarrow> state_t) \<Rightarrow> kernel" where
  "first_call V cpu n a b c s = do {
     p \<leftarrow> currentProcess (nuc s);
     (out, s) \<leftarrow> nucleus_runs (nucl V) n a b c s;
     case out of LDST st \<Rightarrow> others_run (Suc MAXPROC) V cpu p st s | _ \<Rightarrow> None
   }"

lemma nucleus_call_runs:
  assumes "nucleus_call U n a b c s = Some (v, s')"
  obtains st p where "nucleus_runs U n a b c s = Some (LDST st, s')" "v = reg_v0 U st"
    "currentProcess (nuc s) = Some p" "currentProcess (nuc s') = Some p"
proof -
  note th = that
  from assms obtain p st n' where "currentProcess (nuc s) = Some p"
    "handleExceptions U (trap U (call_state U n a b c (p_s (pcbs (nuc s) p))) (nuc s)) = Some (LDST st, n')"
    "currentProcess n' = Some p" "v = reg_v0 U st" "s' = s\<lparr>nuc := n'\<rparr>"
    by (auto simp: nucleus_call_def call_from_def split: option.splits outcome.splits if_splits)
  then show ?thesis by (intro th [of st p]) (simp_all add: nucleus_runs_def)
qed

lemma first_call_extends: "extends_nucleus (nucl V) (first_call V cpu)"
  unfolding extends_nucleus_def
proof (intro allI impI)
  fix n a b c s r assume r: "nucleus_call (nucl V) n a b c s = Some r"
  obtain v s' where "r = (v, s')" by (cases r)
  with r show "first_call V cpu n a b c s = Some r" by (auto simp: first_call_def elim: nucleus_call_runs)
qed

text \<open>
  \<open>family V r us ps s\<close>: \<open>us\<close> are user processes without children, with the support structures they
  were started with, the structures \<open>ps\<close> are free, and \<open>r\<close> is the first process: a root in kernel mode whose \<open>p_child\<close>, if it
  is not \<open>NULL\<close>, is a first child.
\<close>

definition family :: "supp_umps \<Rightarrow> nat \<Rightarrow> nat list \<Rightarrow> u32 list \<Rightarrow> sup_state \<Rightarrow> bool" where
  "family V r us ps s \<longleftrightarrow>
     (let h = pcbs (nuc s); supps = map (\<lambda>u. p_supportStruct (h u)) us
      in supp_stack s ps \<and> distinct (supps @ ps) \<and> 0 \<notin> set supps \<and> r \<notin> set us \<and>
         (\<forall>u \<in> set us. p_child (h u) = None \<and> (\<exists>sp. sup_exceptContext (supports (nuc s) (p_supportStruct (h u))) GENERALEXCEPT =
            \<lparr>stackPtr = sp, ctx_status = TEBITON OR IECON, pc = adr_handleSupportLevelExceptions V\<rparr>)) \<and>
         p_prnt (h r) = None \<and> status (p_s (h r)) AND USERPON = 0 \<and>
         (\<forall>x. p_child (h r) = Some x \<longrightarrow> x \<in> set us \<and> p_prnt (h x) = Some r \<and> psib h x = None))"

lemma family_frame:
  assumes "family V r us ps s" and "same_tree (pcbs (nuc s)) (pcbs (nuc s'))" and "supports (nuc s') = supports (nuc s)"
    and "freeSupp_tp s' = freeSupp_tp s" and "status (p_s (pcbs (nuc s') r)) AND USERPON = 0"
  shows "family V r us ps s'"
proof -
  have "supp_stack s' ps" using assms(1) supp_stack_cong [OF assms(4,3)] by (simp add: family_def Let_def)
  then show ?thesis using assms by (simp add: family_def same_tree_def Let_def)
qed

lemma familyD:
  assumes "family V r us ps s"
  shows "supp_stack s ps" "distinct (map (\<lambda>u. p_supportStruct (pcbs (nuc s) u)) us @ ps)"
    "0 \<notin> set (map (\<lambda>u. p_supportStruct (pcbs (nuc s) u)) us)" "r \<notin> set us"
    "p_prnt (pcbs (nuc s) r) = None" "status (p_s (pcbs (nuc s) r)) AND USERPON = 0"
    "u \<in> set us \<Longrightarrow> p_child (pcbs (nuc s) u) = None"
    "u \<in> set us \<Longrightarrow> \<exists>sp. sup_exceptContext (supports (nuc s) (p_supportStruct (pcbs (nuc s) u))) GENERALEXCEPT =
       \<lparr>stackPtr = sp, ctx_status = TEBITON OR IECON, pc = adr_handleSupportLevelExceptions V\<rparr>"
    "p_child (pcbs (nuc s) r) = Some x \<Longrightarrow> x \<in> set us \<and> p_prnt (pcbs (nuc s) x) = Some r \<and> psib (pcbs (nuc s)) x = None"
  using assms unfolding family_def Let_def by blast+

lemma family_left:
  assumes f: "family V r us ps s" and u: "u \<in> set us" and l: "left_by u (pcbs (nuc s)) (pcbs (nuc s'))"
    and x: "\<And>x. same_user (supports (nuc s) x) (supports (nuc s') x)"
    and st: "supp_stack s' (p_supportStruct (pcbs (nuc s) u) # ps)"
  shows "family V r (remove1 u us) (p_supportStruct (pcbs (nuc s) u) # ps) s'"
proof -
  let ?h = "pcbs (nuc s)" and ?us = "remove1 u us" and ?S = "\<lambda>u. p_supportStruct (pcbs (nuc s) u)"
  note F = familyD [OF f]
  note L = l [unfolded left_by_def, rule_format]
  have du: "distinct us" "distinct (map ?S us)" using F(2) by (simp_all add: distinct_map)
  have ur: "u \<noteq> r" "set ?us = set us - {u}" using u F(4) du(1) by auto
  have a: "?S u \<notin> set ps" "?S u \<notin> ?S ` set ?us" using u F(2) du(2) ur(2) by (auto simp: distinct_map inj_on_def)
  have S: "p_supportStruct (pcbs (nuc s') x) = ?S x" for x using L by simp
  show ?thesis
    unfolding family_def Let_def
  proof (intro conjI ballI allI impI)
    show "supp_stack s' (?S u # ps)" by (rule st)
    show "distinct (map (\<lambda>u. p_supportStruct (pcbs (nuc s') u)) ?us @ ?S u # ps)"
      using F(2) a du ur(2) by (auto simp: S distinct_map inj_on_diff)
    show "0 \<notin> set (map (\<lambda>u. p_supportStruct (pcbs (nuc s') u)) ?us)" using F(3) ur(2) by (auto simp: S)
    show "r \<notin> set ?us" using F(4) ur(2) by simp
    show "p_prnt (pcbs (nuc s') r) = None" "status (p_s (pcbs (nuc s') r)) AND USERPON = 0" using L ur F(5,6) by simp_all
    fix y
    show "p_child (pcbs (nuc s') y) = None" if "y \<in> set ?us" using L [of y] F(7) [of y] that ur(2) by simp
    show "\<exists>sp. sup_exceptContext (supports (nuc s') (p_supportStruct (pcbs (nuc s') y))) GENERALEXCEPT =
        \<lparr>stackPtr = sp, ctx_status = TEBITON OR IECON, pc = adr_handleSupportLevelExceptions V\<rparr>" if "y \<in> set ?us"
      using F(8) [of y] that x ur(2) by (simp add: S same_user_def)
    assume y: "p_child (pcbs (nuc s') r) = Some y"
    then have px: "p_child (?h r) = Some y" "y \<noteq> u"
      using L [of r] F(9) [of u] by (auto split: if_splits)
    then show "y \<in> set ?us" "p_prnt (pcbs (nuc s') y) = Some r" "psib (pcbs (nuc s')) y = None"
      using F(9) [OF px(1)] L [of y] ur(2) by auto
  qed
qed

text \<open>Any of the user processes ends: the family goes on without it.\<close>

lemma family_exit:
  assumes U: "umps_doc (nucl V)" and m: "m = adr_masterSem V" "sem_addr m" and f: "family V r us ps s" and u: "u \<in> set us"
    and e: "at_entry (nuc s) k u" and nxt: "kready (V_view m k) = p # rs"
  shows "\<exists>s'. user_exit V cpu s = Some (LDST (p_s (pcbs (nuc s) p)), s') \<and>
     at_entry (nuc s') ((V_view m k)\<lparr>kfree := kfree k @ [u], kready := rs, kheld := [p]\<rparr>) p \<and>
     ints (nuc s') = (ints (nuc s))(m := ints (nuc s) m + 1) \<and>
     family V r (remove1 u us) (p_supportStruct (pcbs (nuc s) u) # ps) s' \<and>
     (\<forall>x. p_supportStruct (pcbs (nuc s') x) = p_supportStruct (pcbs (nuc s) x))"
proof -
  let ?a = "p_supportStruct (pcbs (nuc s) u)"
  note F = familyD [OF f]
  have a: "?a \<noteq> 0" "?a \<notin> set ps" using u F(2,3) by auto
  obtain sp where sp: "sup_exceptContext (supports (nuc s) ?a) GENERALEXCEPT =
      \<lparr>stackPtr = sp, ctx_status = TEBITON OR IECON, pc = adr_handleSupportLevelExceptions V\<rparr>" using F(8) [OF u] by blast
  have z: "(TEBITON OR IECON) AND USERPON = 0" by (simp add: IECON_def TEBITON_def USERPON_def)
  obtain s' where s': "user_exit V cpu s = Some (LDST (p_s (pcbs (nuc s) p)), s')"
    "at_entry (nuc s') ((V_view m k)\<lparr>kfree := kfree k @ [u], kready := rs, kheld := [p]\<rparr>) p"
    "ints (nuc s') = (ints (nuc s))(m := ints (nuc s) m + 1)" "supp_stack s' (?a # ps)"
    "\<And>x. same_user (supports (nuc s) x) (supports (nuc s') x)" "left_by u (pcbs (nuc s)) (pcbs (nuc s'))"
    using user_exit_runs [OF U m e refl a(1) sp z F(7) [OF u] F(1) a(2) nxt, of cpu] by blast
  have "p_supportStruct (pcbs (nuc s') x) = p_supportStruct (pcbs (nuc s) x)" for x using s'(6) by (simp add: left_by_def)
  with s'(1-3) family_left [OF f u s'(6,5,4)] show ?thesis by blast
qed

text \<open>
  \<open>winding V r w us ps k s\<close>: the user processes \<open>us\<close> are left, in the order in which they run, and
  the first process \<open>r\<close> waits, blocked on the master semaphore or, once it is woken (\<open>w\<close>), behind them.
\<close>

definition winding :: "supp_umps \<Rightarrow> nat \<Rightarrow> bool \<Rightarrow> nat list \<Rightarrow> u32 list \<Rightarrow> kview \<Rightarrow> sup_state \<Rightarrow> bool" where
  "winding V r w us ps k s \<longleftrightarrow> kheld k @ kready k = us @ (if w then [r] else []) \<and> at_entry (nuc s) k (hd (us @ [r])) \<and>
     kblocked k (adr_masterSem V) = (if w then [] else [r]) \<and> family V r us ps s"

lemma winding_step:
  assumes U: "umps_doc (nucl V)" and m: "m = adr_masterSem V" "sem_addr m" and w: "winding V r w (u # us) ps k s"
  shows "\<exists>st s' k'. user_exit V cpu s = Some (LDST st, s') \<and> currentProcess (nuc s) \<noteq> Some r \<and>
     winding V r True us (p_supportStruct (pcbs (nuc s) u) # ps) k' s' \<and>
     map (\<lambda>u. p_supportStruct (pcbs (nuc s') u)) us = map (\<lambda>u. p_supportStruct (pcbs (nuc s) u)) us \<and>
     ints (nuc s') m = ints (nuc s) m + 1 \<and> length (kfree k') = Suc (length (kfree k))"
proof -
  have e: "at_entry (nuc s) k u" and q: "kheld k @ kready k = (u # us) @ (if w then [r] else [])"
    and b: "kblocked k m = (if w then [] else [r])" and f: "family V r (u # us) ps s"
    using w unfolding winding_def m(1) by auto
  note E = at_entryD [OF e]
  have q': "kready k = us @ (if w then [r] else [])" using q E(3) by simp
  have v: "kready (V_view m k) = us @ [r]" "kblocked (V_view m k) m = []" using q' b by (cases w; simp add: V_view_def)+
  obtain p rs where p: "us @ [r] = p # rs" by (cases us) auto
  let ?k' = "(V_view m k)\<lparr>kfree := kfree k @ [u], kready := rs, kheld := [p]\<rparr>"
  obtain s' where s': "user_exit V cpu s = Some (LDST (p_s (pcbs (nuc s) p)), s')" "at_entry (nuc s') ?k' p"
    "ints (nuc s') = (ints (nuc s))(m := ints (nuc s) m + 1)" "family V r (remove1 u (u # us)) (p_supportStruct (pcbs (nuc s) u) # ps) s'"
    "\<And>x. p_supportStruct (pcbs (nuc s') x) = p_supportStruct (pcbs (nuc s) x)"
    using family_exit [OF U m f _ e v(1) [unfolded p], of cpu] by auto
  have "winding V r True us (p_supportStruct (pcbs (nuc s) u) # ps) ?k' s'"
    using s'(2,4) v(2) p m(1) by (simp add: winding_def)
  moreover have "currentProcess (nuc s) \<noteq> Some r" using E(2) f by (auto simp: family_def Let_def)
  ultimately show ?thesis using s'(1,3,5) by (intro exI [of _ "p_s (pcbs (nuc s) p)"] exI [of _ s'] exI [of _ ?k']) simp
qed

lemma others_end:
  assumes U: "umps_doc (nucl V)" and m: "m = adr_masterSem V" "sem_addr m" and w: "winding V r w us ps k s" and f: "length us < f"
  shows "\<exists>v s' k'. others_run f V cpu r st s = Some (v, s') \<and> runs_in_kernel (nuc s') k' r \<and> kready k' = [] \<and>
     p_child (pcbs (nuc s') r) = None \<and> p_prnt (pcbs (nuc s') r) = None \<and>
     ints (nuc s') m = ints (nuc s) m + of_nat (length us) \<and> length (kfree k') = length (kfree k) + length us \<and>
     supp_stack s' (rev (map (\<lambda>u. p_supportStruct (pcbs (nuc s) u)) us) @ ps)"
  using w f
proof (induction us arbitrary: w ps k s st f)
  case Nil
  have e: "at_entry (nuc s) k r" and q: "kheld k @ kready k = (if w then [r] else [])" and st: "supp_stack s ps"
    and h: "p_prnt (pcbs (nuc s) r) = None" "status (p_s (pcbs (nuc s) r)) AND USERPON = 0" "p_child (pcbs (nuc s) r) = None"
    using Nil.prems(1) by (auto simp: winding_def family_def Let_def)
  have "kready k = []" using q at_entryD(3) [OF e] by (simp split: if_splits)
  moreover obtain f' where "f = Suc f'" using Nil.prems(2) by (cases f) auto
  ultimately show ?case using e st h at_entryD(2) [OF e] by (intro exI [of _ "reg_v0 (nucl V) st"] exI [of _ s] exI [of _ k]) (simp add: runs_in_kernel_def)
next
  case (Cons u us)
  obtain f' where f: "f = Suc f'" "length us < f'" using Cons.prems(2) by (cases f) auto
  obtain st' s1 k1 where s1: "user_exit V (cpu s) s = Some (LDST st', s1)" "currentProcess (nuc s) \<noteq> Some r"
    "winding V r True us (p_supportStruct (pcbs (nuc s) u) # ps) k1 s1"
    "map (\<lambda>u. p_supportStruct (pcbs (nuc s1) u)) us = map (\<lambda>u. p_supportStruct (pcbs (nuc s) u)) us"
    "ints (nuc s1) m = ints (nuc s) m + 1" "length (kfree k1) = Suc (length (kfree k))"
    using winding_step [OF U m Cons.prems(1)] by blast
  from Cons.IH [OF s1(3) f(2), of st'] obtain v s' k' where
    s': "others_run f' V cpu r st' s1 = Some (v, s')" "runs_in_kernel (nuc s') k' r" "kready k' = []"
    "p_child (pcbs (nuc s') r) = None" "p_prnt (pcbs (nuc s') r) = None"
    "ints (nuc s') m = ints (nuc s1) m + of_nat (length us)" "length (kfree k') = length (kfree k1) + length us"
    "supp_stack s' (rev (map (\<lambda>u. p_supportStruct (pcbs (nuc s1) u)) us) @ p_supportStruct (pcbs (nuc s) u) # ps)" by blast
  have "others_run f V cpu r st s = Some (v, s')" using s1(1,2) s'(1) f(1) by simp
  then show ?case using s' s1(4-6) by (intro exI [of _ v] exI [of _ s'] exI [of _ k']) simp
qed

lemma waits_free:
  assumes U: "umps_doc (nucl V)" and K: "extends_nucleus (nucl V) K" and m: "sem_addr m"
    and r: "runs_in_kernel (nuc s) k c" and v: "ints (nuc s) m = of_nat (length xs)" "length xs < 2 ^ 31" and st: "supp_stack s ps"
  shows "\<exists>s'. fold (\<lambda>i r. do { s \<leftarrow> r; (v, s) \<leftarrow> syscall K PASSEREN m 0 0 s; Some s }) xs (Some s) = Some s' \<and>
     runs_in_kernel (nuc s') k c \<and> ints (nuc s') m = 0 \<and> same_tree (pcbs (nuc s)) (pcbs (nuc s')) \<and> supp_stack s' ps"
  using r v st
proof (induction xs arbitrary: s)
  case (Cons x xs)
  let ?l = "log (Sys PASSEREN m 0 0) s"
  have rl: "runs_in_kernel (nuc ?l) k c" using Cons.prems(1) by (simp add: log_def)
  have i: "ints (nuc ?l) m - 1 = of_nat (length xs)" using Cons.prems(2) by (simp add: log_def)
  have "unat (of_nat (length xs) :: u32) = length xs" using Cons.prems(3) by (simp add: unat_of_nat)
  then have "0 \<le> sint (of_nat (length xs) :: u32)" using Cons.prems(3) by (subst sint_nonneg) simp_all
  then have nb: "\<not> sint (ints (nuc ?l) m - 1) < 0" unfolding i by simp
  obtain v n1 where n1: "nucleus_call (nucl V) PASSEREN m 0 0 ?l = Some (v, ?l\<lparr>nuc := n1\<rparr>)" "runs_in_kernel n1 k c"
    "ints n1 = (ints (nuc ?l))(m := ints (nuc ?l) m - 1)" "spares (nuc ?l) n1 c" "same_tree (pcbs (nuc ?l)) (pcbs n1)"
    using nucleus_P_free [OF U rl m nb] by blast
  let ?s1 = "?l\<lparr>nuc := n1\<rparr>"
  have "supp_stack ?s1 ps" by (rule supp_stack_saved [OF Cons.prems(4)]) (use n1(4) in \<open>simp_all add: spares_def log_def\<close>)
  moreover have "ints (nuc ?s1) m = of_nat (length xs)" using n1(3) i by simp
  ultimately obtain s' where s': "fold (\<lambda>i r. do { s \<leftarrow> r; (v, s) \<leftarrow> syscall K PASSEREN m 0 0 s; Some s }) xs (Some ?s1) = Some s'"
    "runs_in_kernel (nuc s') k c" "ints (nuc s') m = 0" "same_tree (pcbs (nuc ?s1)) (pcbs (nuc s'))" "supp_stack s' ps"
    using Cons.IH [of ?s1] n1(2) Cons.prems(3) by auto
  have "K PASSEREN m 0 0 ?l = Some (v, ?s1)" using K n1(1) by (simp add: extends_nucleus_def)
  moreover have "same_tree (pcbs (nuc s)) (pcbs (nuc s'))" using same_tree_trans [OF n1(5)] s'(4) by (simp add: log_def)
  ultimately show ?case using s'(1-3,5) by (intro exI [of _ s']) (simp add: syscall_def)
qed (auto intro: exI)

text \<open>With one process alive nobody is ready or blocked.\<close>

lemma alone_view:
  assumes e: "at_entry s k c" and n: "length (kfree k) = MAXPROC - 1"
  shows "kready k = []" "kblocked k a = []" "{0..<MAXPROC} \<subseteq> insert c (set (kfree k))"
proof -
  note E = at_entryD [OF e]
  have s: "set (unblocked k) \<subseteq> {0..<MAXPROC}" "set (kblocked k a) \<subseteq> {0..<MAXPROC}"
    using kinvD(4) [OF E(1)] by (auto simp: kpartition_def)
  have l: "card (set (unblocked k)) = length (unblocked k)" by (rule distinct_card [OF kinvD(8) [OF E(1)]])
  have le: "card (set (unblocked k)) \<le> MAXPROC" using card_mono [OF _ s(1)] by simp
  then show r: "kready k = []" using n E(3) unfolding l by (simp add: unblocked_def MAXPROC_def)
  have "card (set (unblocked k)) = MAXPROC" using n E(3) r unfolding l by (simp add: unblocked_def MAXPROC_def)
  then have all: "set (unblocked k) = {0..<MAXPROC}" by (intro card_subset_eq s(1)) simp_all
  then show "{0..<MAXPROC} \<subseteq> insert c (set (kfree k))" using r E(3) by (auto simp: unblocked_def)
  have "y \<in> set (unblocked k)" if "y \<in> set (kblocked k a)" for y using s(2) that all by blast
  then have "y \<notin> set (kblocked k a)" for y using kinvD(7) [OF E(1), of y] by metis
  then show "kblocked k a = []" by (cases "kblocked k a") auto
qed

text \<open>The user processes after their start, and the first wait of the first process.\<close>

lemma family_started:
  assumes K: "extends_nucleus (nucl V) K" and V: "supp_doc V" and u: "adr_uproc_state V \<noteq> BIOSDATAPAGE"
    and kc: "kernel_caller (nuc s) k c" and fr: "freeSupp_tp s = 0"
    and alone: "length (kfree k) = MAXPROC - 1" "p_prnt (pcbs (nuc s) c) = None"
  shows "\<exists>s2 s4. initSuppStack V (initDevSemaphores V (initSwapStructs V s)) = Some s2 \<and>
    initUProcs K V (put_int m 0 s2) = Some s4 \<and>
    runs_in_kernel (nuc s4) (k\<lparr>kfree := drop 8 (kfree k), kready := take 8 (kfree k)\<rparr>) c \<and> ints (nuc s4) m = 0 \<and>
    family V c (take 8 (kfree k)) [] s4 \<and>
    map (\<lambda>u. p_supportStruct (pcbs (nuc s4) u)) (take 8 (kfree k)) = rev (map (adr_uproc_supp V) [0..<8])"
proof -
  have e: "at_entry (nuc s) k c" using kc by (simp add: kernel_caller_def)
  have kr: "kready k = []" and lv: "{0..<MAXPROC} \<subseteq> insert c (set (kfree k))" using alone_view [OF e alone(1)] by simp_all
  have k8: "8 \<le> length (kfree k)" using alone(1) by (simp add: MAXPROC_def)
  let ?us = "take 8 (kfree k)"
  let ?k4 = "k\<lparr>kfree := drop 8 (kfree k), kready := ?us\<rparr>"
  obtain s2 s4 where s2: "initSuppStack V (initDevSemaphores V (initSwapStructs V s)) = Some s2"
    and s4: "initUProcs K V (put_int m 0 s2) = Some s4" "kernel_caller (nuc s4) ?k4 c"
      "\<forall>i<8. user_process V i (adr_uproc_supp V (7 - i)) (kfree k ! i) (nuc s4)" "ints (nuc s4) m = 0" "supp_stack s4 []"
      "p_prnt (pcbs (nuc s4) c) = p_prnt (pcbs (nuc s) c)"
    using users_started [OF K V u kc fr k8, of m] kr by auto
  have us: "?us = map ((!) (kfree k)) [0..<8]" using k8 by (intro nth_equalityI) simp_all
  have "map (\<lambda>u. p_supportStruct (pcbs (nuc s4) u)) ?us = map (\<lambda>i. adr_uproc_supp V (7 - i)) [0..<8]"
    unfolding us using s4(3) by (simp add: user_process_def Let_def)
  also have "\<dots> = rev (map (adr_uproc_supp V) [0..<8])" by (rule nth_equalityI) (simp_all add: rev_nth)
  finally have sup: "map (\<lambda>u. p_supportStruct (pcbs (nuc s4) u)) ?us = rev (map (adr_uproc_supp V) [0..<8])" .
  have a: "inj_on (adr_uproc_supp V) {0..8}" "0 \<notin> adr_uproc_supp V ` {0..8}" using V by (simp_all add: supp_doc_def)
  have s8: "{0..<8} \<subseteq> {0..8 :: nat}" by auto
  have e4: "at_entry (nuc s4) ?k4 c" using s4(2) by (simp add: kernel_caller_def)
  obtain C d where fo: "forest (pcbs (nuc s4)) (live ?k4) C d" using s4(2) by (auto simp: kernel_caller_def)
  have cL: "c \<in> live ?k4" by (rule entry_live [OF e4])
  have kd: "brood (pcbs (nuc s4)) c (C c)" "set (C c) \<subseteq> live ?k4" using forestD(2,3) [OF fo cL] by auto
  have "family V c ?us [] s4"
    unfolding family_def Let_def
  proof (intro conjI ballI allI impI)
    show "supp_stack s4 []" by (rule s4(5))
    show "distinct (map (\<lambda>u. p_supportStruct (pcbs (nuc s4) u)) ?us @ [])"
      using inj_on_subset [OF a(1) s8] by (simp add: sup distinct_map)
    show "0 \<notin> set (map (\<lambda>u. p_supportStruct (pcbs (nuc s4) u)) ?us)" using a(2) by (auto simp: sup)
    show "c \<notin> set ?us" using at_entryD(1,3) [OF e4] kinvD(8) [of "nuc s4" ?k4] by (auto simp: unblocked_def)
    show "p_prnt (pcbs (nuc s4) c) = None" "status (p_s (pcbs (nuc s4) c)) AND USERPON = 0"
      using s4(2,6) alone(2) by (simp_all add: kernel_caller_def)
    fix x
    assume "x \<in> set ?us"
    then obtain i where "i < 8" "x = kfree k ! i" unfolding us by auto
    with s4(3) have "user_process V i (adr_uproc_supp V (7 - i)) x (nuc s4)" by simp
    then show "p_child (pcbs (nuc s4) x) = None" "\<exists>sp. sup_exceptContext (supports (nuc s4) (p_supportStruct (pcbs (nuc s4) x))) GENERALEXCEPT =
        \<lparr>stackPtr = sp, ctx_status = TEBITON OR IECON, pc = adr_handleSupportLevelExceptions V\<rparr>"
      by (auto simp: user_process_def Let_def)
  next
    fix x
    assume "p_child (pcbs (nuc s4) c) = Some x"
    then obtain ys where "C c = x # ys" using kd(1) by (cases "C c") (auto simp: brood_def)
    then have x: "x \<noteq> c" "x \<in> live ?k4" "p_prnt (pcbs (nuc s4) x) = Some c" "psib (pcbs (nuc s4)) x = None"
      using kd by (auto simp: brood_def)
    then have "x \<in> set (kfree k)" "x \<notin> set (drop 8 (kfree k))" using lv by (auto simp: live_def)
    then show "x \<in> set ?us" by (metis Un_iff append_take_drop_id set_append)
    show "p_prnt (pcbs (nuc s4) x) = Some c" "psib (pcbs (nuc s4)) x = None" by (rule x)+
  qed
  then show ?thesis using s2 s4(1,2,4) sup by (auto simp: kernel_caller_def runs_in_kernel_def)
qed

lemma family_waits:
  assumes U: "umps_doc (nucl V)" and r: "runs_in_kernel (nuc s) k c" and m: "sem_addr m" "ints (nuc s) m = 0"
    and q: "kready k = p # rs" and f: "family V c us ps s"
  shows "\<exists>s'. nucleus_runs (nucl V) PASSEREN m 0 0 s = Some (LDST (p_s (pcbs (nuc s) p)), s') \<and>
     at_entry (nuc s') (k\<lparr>kblocked := (kblocked k)(m := kblocked k m @ [c]), kready := rs, kheld := [p]\<rparr>) p \<and>
     ints (nuc s') = (ints (nuc s))(m := - 1) \<and> family V c us ps s' \<and> same_tree (pcbs (nuc s)) (pcbs (nuc s'))"
proof -
  obtain n' where n': "handleExceptions (nucl V) (trap (nucl V) (call_state (nucl V) PASSEREN m 0 0 (p_s (pcbs (nuc s) c))) (nuc s)) =
      Some (LDST (p_s (pcbs (nuc s) p)), n')"
    "at_entry n' (k\<lparr>kblocked := (kblocked k)(m := kblocked k m @ [c]), kready := rs, kheld := [p]\<rparr>) p"
    "ints n' = (ints (nuc s))(m := - 1)" "supports n' = supports (nuc s)" "same_tree (pcbs (nuc s)) (pcbs n')"
    "status (p_s (pcbs n' c)) = status (p_s (pcbs (nuc s) c))"
    using kernel_P_blocks [OF U r m q] by blast
  have "family V c us ps (s\<lparr>nuc := n'\<rparr>)"
    by (rule family_frame [OF f]) (use n'(4-6) r in \<open>simp_all add: runs_in_kernel_def\<close>)
  then show ?thesis using n' runs_current [OF r] by (intro exI [of _ "s\<lparr>nuc := n'\<rparr>"]) (simp add: nucleus_runs_def)
qed

text \<open>
  C6: A user process without children ends.  Its SYS9, in user or in kernel mode, is passed up by the nucleus to the
  handler of the support level in the context of the process; the handler gets the support structure with SYS8,
  puts it on top of the free ones, signals the master semaphore, which makes the first process ready if it waits, and
  calls SYS2.  Whatever the links between the other processes look like, the process is freed and nothing else of the others
  changes but links of the tree; then the process that has been ready longest runs, and when nobody is ready the processor halts
  if this was the last process, waits if softBlockedCount is positive, and panics otherwise (\<open>next_run\<close>).
\<close>

theorem user_process_ends:
  assumes V: "supp_doc V" and m: "m = adr_masterSem V" "sem_addr m" and e: "at_entry (nuc s) k c"
    and a: "p_supportStruct (pcbs (nuc s) c) = a" "a \<noteq> 0"
    and cx: "sup_exceptContext (supports (nuc s) a) GENERALEXCEPT = \<lparr>stackPtr = sp, ctx_status = st, pc = adr_handleSupportLevelExceptions V\<rparr>"
      "st AND USERPON = 0"
    and leaf: "p_child (pcbs (nuc s) c) = None" and ps: "supp_stack s ps" "a \<notin> set ps"
    and out: "out = next_run (pcbs (nuc s)) (kready (V_view m k)) (kfree k @ [c]) (softBlockedCount (nuc s))"
  shows "\<exists>s' k'. user_exit V cpu s = Some (out, s') \<and> path_end out (nuc s') k' \<and> kfree k' = kfree k @ [c] \<and>
     kblocked k' = kblocked (V_view m k) \<and> kready (V_view m k) = kheld k' @ kready k' \<and>
     ints (nuc s') = (ints (nuc s))(m := ints (nuc s) m + 1) \<and> supp_stack s' (a # ps) \<and>
     (\<forall>x. same_user (supports (nuc s) x) (supports (nuc s') x)) \<and> left_by c (pcbs (nuc s)) (pcbs (nuc s'))"
proof -
  have U: "umps_doc (nucl V)" using V by (simp add: supp_doc_def)
  show ?thesis by (rule user_exit_any [OF U m e a cx leaf ps out])
qed

text \<open>The first user process ends, and the second one runs.\<close>

theorem user_process_ends_witness:
  "\<exists>s s'. currentProcess (nuc s) = Some 1 \<and> ints (nuc s) (adr_masterSem umps3s) = - 1 \<and>
     user_exit umps3s zero_state s = Some (LDST (p_s (pcbs (nuc s) 2)), s') \<and> currentProcess (nuc s') = Some 2 \<and>
     ints (nuc s') (adr_masterSem umps3s) = 0"
proof -
  let ?s = "supp_example\<lparr>nuc := demo (first_state umps3 zero_state)\<rparr>" and ?m = "adr_masterSem umps3s" and ?us = "[1, 2, 3, 4, 5, 6, 7, 8]"
  have "status (first_state umps3 zero_state) AND USERPON = 0"
    by (simp add: first_state_def set_gpr_def Let_def ALLOFF_def IECON_def IMON_def TEBITON_def USERPON_def)
  then have kc: "kernel_caller (nuc ?s) kfirst 0"
    unfolding kernel_caller_def by (intro conjI exI [of _ "\<lambda>_. []"] exI [of _ "\<lambda>_. 0"]) simp_all
  have v: "adr_uproc_state umps3s \<noteq> BIOSDATAPAGE" "sem_addr ?m" "freeSupp_tp ?s = 0" "length (kfree kfirst) = MAXPROC - 1"
    "p_prnt (pcbs (nuc ?s) 0) = None"
    by (simp_all add: umps3s_def BIOSDATAPAGE_def sem_addr_def MAXADD_def supp_example_def MAXPROC_def)
  have us: "take 8 (kfree kfirst) = ?us" by (simp add: kfirst_def MAXPROC_def upt_conv_Cons)
  have U: "umps_doc (nucl umps3s)" by (simp add: umps3_doc)
  let ?k4 = "kfirst\<lparr>kfree := drop 8 (kfree kfirst), kready := ?us\<rparr>"
  obtain s4 where s4: "runs_in_kernel (nuc s4) ?k4 0" "ints (nuc s4) ?m = 0" "family umps3s 0 ?us [] s4"
    using family_started [OF extends_nucleus_call umps3s_doc v(1) kc v(3-5), of ?m] unfolding us by blast
  let ?k5 = "?k4\<lparr>kblocked := (kblocked ?k4)(?m := kblocked ?k4 ?m @ [0]), kready := [2, 3, 4, 5, 6, 7, 8], kheld := [1]\<rparr>"
  obtain s5 where s5: "at_entry (nuc s5) ?k5 1" "ints (nuc s5) = (ints (nuc s4))(?m := - 1)" "family umps3s 0 ?us [] s5"
    using family_waits [OF U s4(1) v(2) s4(2) _ s4(3)] by auto
  note F = s5(3) [unfolded family_def Let_def]
  let ?a = "p_supportStruct (pcbs (nuc s5) 1)"
  obtain sp where sp: "sup_exceptContext (supports (nuc s5) ?a) GENERALEXCEPT = \<lparr>stackPtr = sp, ctx_status = TEBITON OR IECON,
      pc = adr_handleSupportLevelExceptions umps3s\<rparr>" using F by auto
  have a: "?a \<noteq> 0" "p_child (pcbs (nuc s5) 1) = None" "supp_stack s5 []" using F by auto
  have z: "(TEBITON OR IECON) AND USERPON = 0" by (simp add: IECON_def TEBITON_def USERPON_def)
  have nxt: "kready (V_view ?m ?k5) = 2 # [3, 4, 5, 6, 7, 8, 0]" by (simp add: V_view_def kfirst_def)
  have out: "LDST (p_s (pcbs (nuc s5) 2)) =
      next_run (pcbs (nuc s5)) (kready (V_view ?m ?k5)) (kfree ?k5 @ [1]) (softBlockedCount (nuc s5))"
    unfolding nxt by (simp add: next_run_def)
  obtain s' k' where s': "user_exit umps3s zero_state s5 = Some (LDST (p_s (pcbs (nuc s5) 2)), s')"
    "path_end (LDST (p_s (pcbs (nuc s5) 2))) (nuc s') k'" "kready (V_view ?m ?k5) = kheld k' @ kready k'"
    "ints (nuc s') = (ints (nuc s5))(?m := ints (nuc s5) ?m + 1)"
    using user_process_ends [OF umps3s_doc refl v(2) s5(1) refl a(1) sp z a(2,3) _ out, of zero_state] by auto
  have cur: "currentProcess (nuc s') = Some 2" using s'(2,3) unfolding nxt by (auto simp: path_end_def)
  have "ints (nuc s5) ?m = - 1" "ints (nuc s') ?m = 0" using s5(2) s'(4) by simp_all
  then show ?thesis using s'(1) cur at_entryD(2) [OF s5(1)] by blast
qed

lemma life_of_system:
  assumes V: "supp_doc V" and u: "adr_uproc_state V \<noteq> BIOSDATAPAGE" and m: "m = adr_masterSem V" "sem_addr m"
    and kc: "kernel_caller (nuc s) k c" and fr: "freeSupp_tp s = 0"
    and alone: "length (kfree k) = MAXPROC - 1" "p_prnt (pcbs (nuc s) c) = None"
  shows "\<exists>s1 k1. test_phase_3 (first_call V cpu) V s = Some (SYSCALL TERMPROCESS 0 0 0, s1) \<and>
     runs_in_kernel (nuc s1) k1 c \<and> kready k1 = [] \<and> length (kfree k1) = MAXPROC - 1 \<and> p_child (pcbs (nuc s1) c) = None \<and>
     ints (nuc s1) m = 0 \<and> supp_stack s1 (map (adr_uproc_supp V) [0..<UPROCMAX])"
proof -
  have U: "umps_doc (nucl V)" using V by (simp add: supp_doc_def)
  let ?K = "first_call V cpu" and ?us = "take 8 (kfree k)"
  let ?k4 = "k\<lparr>kfree := drop 8 (kfree k), kready := ?us\<rparr>"
  note X = first_call_extends [of V cpu]
  have "at_entry (nuc s) k c" using kc by (simp add: kernel_caller_def)
  then have bl: "kblocked k m = []" using alone_view(2) [OF _ alone(1)] by blast
  have len: "length ?us = 8" using alone(1) by (simp add: MAXPROC_def)
  then have us: "?us = hd ?us # tl ?us" by (cases ?us) simp_all
  obtain s2 s4 where s2: "initSuppStack V (initDevSemaphores V (initSwapStructs V s)) = Some s2"
    and s4: "initUProcs ?K V (put_int m 0 s2) = Some s4" "runs_in_kernel (nuc s4) ?k4 c" "ints (nuc s4) m = 0" "family V c ?us [] s4"
      "map (\<lambda>u. p_supportStruct (pcbs (nuc s4) u)) ?us = rev (map (adr_uproc_supp V) [0..<8])"
    using family_started [OF X V u kc fr alone, of m] by blast
  let ?l = "log (Sys PASSEREN m 0 0) s4"
  have fl: "family V c ?us [] ?l"
    by (rule family_frame [OF s4(4)]) (use s4(4) in \<open>simp_all add: log_def family_def Let_def\<close>)
  have rl: "runs_in_kernel (nuc ?l) ?k4 c" and il: "ints (nuc ?l) m = 0" and ql: "kready ?k4 = hd ?us # tl ?us"
    using s4(2,3) us by (simp_all add: log_def)
  obtain s5 where s5: "nucleus_runs (nucl V) PASSEREN m 0 0 ?l = Some (LDST (p_s (pcbs (nuc ?l) (hd ?us))), s5)"
    "at_entry (nuc s5) (?k4\<lparr>kblocked := (kblocked ?k4)(m := kblocked ?k4 m @ [c]), kready := tl ?us, kheld := [hd ?us]\<rparr>) (hd ?us)"
    "ints (nuc s5) = (ints (nuc ?l))(m := - 1)" "family V c ?us [] s5" "same_tree (pcbs (nuc ?l)) (pcbs (nuc s5))"
    using family_waits [OF U rl m(2) il ql fl] by blast
  let ?k5 = "?k4\<lparr>kblocked := (kblocked ?k4)(m := [c]), kready := tl ?us, kheld := [hd ?us]\<rparr>"
  have "hd (?us @ [c]) = hd ?us" using len by (cases ?us) simp_all
  then have w: "winding V c False ?us [] ?k5 s5"
    using s5(2,4) bl us m(1) by (simp add: winding_def)
  have sup: "map (\<lambda>u. p_supportStruct (pcbs (nuc s5) u)) ?us = rev (map (adr_uproc_supp V) [0..<8])"
    using s5(5) s4(5) by (simp add: same_tree_def log_def)
  have f: "length ?us < Suc MAXPROC" using len by (simp add: MAXPROC_def)
  obtain v s6 k6 where s6: "others_run (Suc MAXPROC) V cpu c (p_s (pcbs (nuc ?l) (hd ?us))) s5 = Some (v, s6)"
    "runs_in_kernel (nuc s6) k6 c" "kready k6 = []" "p_child (pcbs (nuc s6) c) = None"
    "ints (nuc s6) m = ints (nuc s5) m + of_nat (length ?us)" "length (kfree k6) = length (kfree ?k5) + length ?us"
    "supp_stack s6 (rev (map (\<lambda>u. p_supportStruct (pcbs (nuc s5) u)) ?us) @ [])"
    using others_end [OF U m w f, of cpu] by blast
  have c0: "syscall ?K PASSEREN m 0 0 s4 = Some (v, s6)"
    using s6(1) s5(1) runs_current [OF rl] by (simp add: syscall_def first_call_def)
  have i6: "ints (nuc s6) m = of_nat (length [1..<8])" using s6(5) len s5(3) by simp
  obtain s7 where s7: "fold (\<lambda>i r. do { s \<leftarrow> r; (v, s) \<leftarrow> syscall ?K PASSEREN m 0 0 s; Some s }) [1..<8] (Some s6) = Some s7"
    "runs_in_kernel (nuc s7) k6 c" "ints (nuc s7) m = 0" "same_tree (pcbs (nuc s6)) (pcbs (nuc s7))"
    "supp_stack s7 (rev (map (\<lambda>u. p_supportStruct (pcbs (nuc s5) u)) ?us) @ [])"
    using waits_free [OF U X m(2) s6(2) i6 _ s6(7)] by auto
  have "waitForUprocs ?K V s4 = Some s7"
    using s7(1) c0 unfolding waitForUprocs_def m(1) [symmetric] UPROCMAX_def by (subst upt_conv_Cons) simp_all
  then have "test_phase_3 ?K V s = Some (SYSCALL TERMPROCESS 0 0 0, s7)"
    using s2 s4(1) unfolding test_phase_3_def m(1) [symmetric] by simp
  moreover have "rev (map (\<lambda>u. p_supportStruct (pcbs (nuc s5) u)) ?us) @ [] = map (adr_uproc_supp V) [0..<UPROCMAX]"
    using sup by (simp add: UPROCMAX_def)
  moreover have "length (kfree k6) = MAXPROC - 1" using s6(6) len alone(1) by (simp add: MAXPROC_def)
  moreover have "p_child (pcbs (nuc s7) c) = None" using s6(4) s7(4) by (simp add: same_tree_def)
  ultimately show ?thesis using s7(2,3,5) s6(3) by (intro exI [of _ s7] exI [of _ k6]) simp
qed

text \<open>The last process ends: the nucleus halts.\<close>

lemma last_process_halts:
  assumes U: "umps_doc (nucl V)" and r: "runs_in_kernel (nuc s) k c" and q: "kready k = []" "length (kfree k) = MAXPROC - 1"
    and l: "p_child (pcbs (nuc s) c) = None"
  shows "\<exists>s' k'. nucleus_runs (nucl V) TERMPROCESS 0 0 0 s = Some (HALT, s') \<and> kinv (nuc s') k' \<and> length (kfree k') = MAXPROC \<and>
     processCount (nuc s') = 0 \<and> ints (nuc s') = ints (nuc s) \<and> (\<forall>ps. supp_stack s ps \<longrightarrow> supp_stack s' ps)"
proof -
  let ?n = "call_entry (nucl V) TERMPROCESS 0 0 0 c (nuc s)"
  have e1: "at_entry ?n k c" and l1: "p_child (pcbs ?n c) = None" using r l by (simp_all add: runs_in_kernel_def)
  obtain n' where n': "terminate_Process (Some c) ?n = Some (HALT, n')" "kinv n' (k\<lparr>kfree := kfree k @ [c], kheld := []\<rparr>)"
    "processCount n' = 0" "ints n' = ints ?n" "supports n' = supports ?n"
    using terminate_last [OF e1 l1 q] by blast
  have "nucleus_runs (nucl V) TERMPROCESS 0 0 0 s = Some (HALT, s\<lparr>nuc := n'\<rparr>)"
    using n'(1) kernel_call [OF U r, of TERMPROCESS 0 0 0] runs_current [OF r]
    by (simp add: nucleus_runs_def syscall_numbers)
  moreover have "supp_stack (s\<lparr>nuc := n'\<rparr>) ps" if "supp_stack s ps" for ps
    by (rule supp_stack_saved [OF that]) (simp_all add: n'(5))
  ultimately show ?thesis using n'(2-4) q(2)
    by (intro exI [of _ "s\<lparr>nuc := n'\<rparr>"] exI [of _ "k\<lparr>kfree := kfree k @ [c], kheld := []\<rparr>"]) (simp add: MAXPROC_def)
qed

text \<open>What \<open>main\<close> leaves to the first process.\<close>

lemma first_process_runs:
  assumes b: "boot_globals s0" and U: "umps_doc U"
  shows "\<exists>n k. main U s0 = Some (LDST (p_s (pcbs n 0)), n) \<and> pc_epc (p_s (pcbs n 0)) = adr_test_phase_3 U \<and>
     kernel_caller n k 0 \<and> length (kfree k) = MAXPROC - 1 \<and> p_prnt (pcbs n 0) = None"
proof -
  let ?k = "kboot\<lparr>kfree := [1..<MAXPROC], kheld := [0]\<rparr>"
  have "clockSemaphore U \<noteq> 0" using clock_addr [OF U] by (simp add: sem_addr_def)
  from main_spec [OF b this] obtain n where n: "main U s0 = Some (LDST (first_state U zero_state), n)"
    "path_end (LDST (first_state U zero_state)) n ?k" "currentProcess n = Some 0"
    "\<forall>x. p_prnt (pcbs n x) = None \<and> p_child (pcbs n x) = None \<and> nsib (pcbs n) x = None \<and> psib (pcbs n) x = None" by blast
  have st: "first_state U zero_state = p_s (pcbs n 0)" using n(2,3) by (simp add: path_end_def)
  have "ix_t9 U \<noteq> ix_sp U" using U by (simp add: umps_doc_def umps_regs_def)
  then have z: "status (first_state U zero_state) AND USERPON = 0" "pc_epc (first_state U zero_state) = adr_test_phase_3 U"
    by (simp_all add: first_state_def set_gpr_def Let_def ALLOFF_def IECON_def IMON_def TEBITON_def USERPON_def)
  have e: "at_entry n ?k 0" using n(2,3) by (simp add: at_entry_def path_end_def)
  have "live ?k = {0}" by (auto simp: live_def MAXPROC_def)
  then have "forest (pcbs n) (live ?k) (\<lambda>_. []) (\<lambda>_. 0)" 
    using forest_single [of "pcbs n" 0] n(4) by simp
  then have "kernel_caller n ?k 0" using e z(1) st by (auto simp: kernel_caller_def)
  then show ?thesis using n(1,4) z(2) unfolding st by (intro exI [of _ n] exI [of _ ?k]) simp
qed

text \<open>
  C4: From power-on to HALT.  \<open>main\<close> runs the first process at \<open>test_phase_3\<close>; this starts the eight user
  processes and waits for them; when each of them ends with SYS9 as soon as it runs, every wait of the
  first process is answered, its SYS2 ends the last process, and the nucleus halts: all process control blocks and all
  support structures are free again and the master semaphore is zero.  That user processes end
  in the order of their creation, the order in which \<open>outChild\<close> breaks the tree, does no harm: their parent has lost them by
  the time it ends.  No interrupt comes in between.
\<close>

theorem power_on_to_halt:
  assumes b: "boot_globals s0" and V: "supp_doc V" and u: "adr_uproc_state V \<noteq> BIOSDATAPAGE"
    and m: "m = adr_masterSem V" "sem_addr m" and fr: "freeSupp_tp S = 0"
  shows "\<exists>n st s1 s2 k. main (nucl V) s0 = Some (LDST st, n) \<and> pc_epc st = adr_test_phase_3 (nucl V) \<and> st = p_s (pcbs n 0) \<and>
     test_phase_3 (first_call V cpu) V (S\<lparr>nuc := n\<rparr>) = Some (SYSCALL TERMPROCESS 0 0 0, s1) \<and>
     supp_stack s1 (map (adr_uproc_supp V) [0..<UPROCMAX]) \<and>
     nucleus_runs (nucl V) TERMPROCESS 0 0 0 s1 = Some (HALT, s2) \<and> kinv (nuc s2) k \<and> length (kfree k) = MAXPROC \<and>
     processCount (nuc s2) = 0 \<and> ints (nuc s2) m = 0"
proof -
  have U: "umps_doc (nucl V)" using V by (simp add: supp_doc_def)
  obtain n k where n: "main (nucl V) s0 = Some (LDST (p_s (pcbs n 0)), n)" "pc_epc (p_s (pcbs n 0)) = adr_test_phase_3 (nucl V)"
    "kernel_caller (nuc (S\<lparr>nuc := n\<rparr>)) k 0" "length (kfree k) = MAXPROC - 1" "p_prnt (pcbs (nuc (S\<lparr>nuc := n\<rparr>)) 0) = None"
    using first_process_runs [OF b U] by auto
  have "freeSupp_tp (S\<lparr>nuc := n\<rparr>) = 0" using fr by simp
  from life_of_system [OF V u m n(3) this n(4,5), of cpu] obtain s1 k1 where
    s1: "test_phase_3 (first_call V cpu) V (S\<lparr>nuc := n\<rparr>) = Some (SYSCALL TERMPROCESS 0 0 0, s1)" "runs_in_kernel (nuc s1) k1 0"
      "kready k1 = []" "length (kfree k1) = MAXPROC - 1" "p_child (pcbs (nuc s1) 0) = None" "ints (nuc s1) m = 0"
      "supp_stack s1 (map (adr_uproc_supp V) [0..<UPROCMAX])" by blast
  with last_process_halts [OF U s1(2-5)] n(1,2) show ?thesis by metis
qed

theorem power_on_to_halt_witness:
  "\<exists>n st s1 s2. main umps3 power_on = Some (LDST st, n) \<and>
     test_phase_3 (first_call umps3s (\<lambda>_. zero_state)) umps3s (supp_example\<lparr>nuc := n\<rparr>) = Some (SYSCALL TERMPROCESS 0 0 0, s1) \<and>
     nucleus_runs umps3 TERMPROCESS 0 0 0 s1 = Some (HALT, s2)"
proof -
  have v: "adr_uproc_state umps3s \<noteq> BIOSDATAPAGE" "sem_addr (adr_masterSem umps3s)" "freeSupp_tp supp_example = 0"
    by (simp_all add: umps3s_def BIOSDATAPAGE_def sem_addr_def MAXADD_def supp_example_def)
  from power_on_to_halt [OF boot_power_on umps3s_doc v(1) refl v(2,3)] show ?thesis unfolding nucl_umps3s by blast
qed

end
