(* ===== verification/User_Life.thy ===== *)
theory User_Life
  imports User_End
begin

text \<open>
  The user processes and the first process in any order: time slices may end anywhere between their
  calls, so the calls of the processes are interleaved arbitrarily.  Whatever happens, the running process can go on
  until the first process ends and the nucleus halts.
\<close>

subsection \<open>The end of a time slice\<close>

definition timer_interrupt :: "umps \<Rightarrow> hw \<Rightarrow> bool" where
  "timer_interrupt U w \<longleftrightarrow> CAUSE_GET_EXCCODE U (CAUSE w) = EXC_INT U \<and> CAUSE w AND CAUSE_IP_MASK U \<noteq> 0 \<and>
     interrupt_pending U (CAUSE w) PLTINT"

text \<open>
  The running process has computed, in the mode in which it was, and the processor local timer interrupts:
  the BIOS has saved the registers \<open>st\<close>, the hardware is in the state \<open>w\<close>.
\<close>

definition interrupted :: "state_t \<Rightarrow> hw \<Rightarrow> nuc_state \<Rightarrow> nuc_state" where
  "interrupted st w n = n\<lparr>states := (states n)(BIOSDATAPAGE := st), hardware := w\<rparr>"

inductive time_slice :: "supp_umps \<Rightarrow> sup_state \<Rightarrow> sup_state \<Rightarrow> bool" for V where
  slice_ends: "timer_interrupt (nucl V) w \<Longrightarrow> currentProcess (nuc s) = Some c \<Longrightarrow>
     status st AND USERPON = status (p_s (pcbs (nuc s) c)) AND USERPON \<Longrightarrow>
     handleExceptions (nucl V) (interrupted st w (nuc s)) = Some (LDST st', n') \<Longrightarrow> time_slice V s (s\<lparr>nuc := n'\<rparr>)"

lemma slice_run:
  assumes U: "umps_doc U" and e: "at_entry n k c" and w: "timer_interrupt U w"
  shows "\<exists>p n'. handleExceptions U (interrupted st w n) = Some (LDST (p_s (pcbs n' p)), n') \<and>
     at_entry n' (k\<lparr>kready := tl (kready k @ [c]), kheld := [p]\<rparr>) p \<and> p = hd (kready k @ [c]) \<and>
     status (p_s (pcbs n' c)) = status st \<and> (\<forall>x. x \<noteq> c \<longrightarrow> p_s (pcbs n' x) = p_s (pcbs n x)) \<and>
     same_tree (pcbs n) (pcbs n') \<and> ints n' = ints n \<and> supports n' = supports n"
proof -
  define t where "t = tod_in w (tod_ix w)"
  let ?i = "interrupted st w n"
  define n1 where "n1 = (snd (read_tod (snd (getTIMER ?i))))\<lparr>stopT := t\<rparr>"
  have n1: "pcbs n1 = pcbs n" "ints n1 = ints n" "supports n1 = supports n" "states n1 = (states n)(BIOSDATAPAGE := st)"
    "at_entry n1 k c" using e
    by (simp_all add: n1_def interrupted_def read_tod_def getTIMER_def Let_def)
  obtain p n' where n': "handlePLTInterrupt U (stopT n1) n1 = Some (LDST (p_s (pcbs n' p)), n')"
    "path_end (LDST (p_s (pcbs n' p))) n' (k\<lparr>kready := tl (kready k @ [c]), kheld := [p]\<rparr>)" "p = hd (kready k @ [c])"
    "currentProcess n' = Some p" "p_s (pcbs n' c) = copyState U (states n1 BIOSDATAPAGE) (p_s (pcbs n1 c))"
    "\<And>x. x \<noteq> c \<Longrightarrow> pcb_user (pcbs n' x) = pcb_user (pcbs n1 x)" "same_tree (pcbs n1) (pcbs n')" "ints n' = ints n1"
    "supports n' = supports n1"
    using handlePLTInterrupt_spec [OF n1(5), of U "stopT n1"] by blast
  have "handleExceptions U ?i = handlePLTInterrupt U (stopT n1) n1"
    using w unfolding timer_interrupt_def n1_def t_def
    by (simp add: handleExceptions_def handleInterrupts_def dispatch_interrupt_def interrupted_def read_tod_def getTIMER_def
        Let_def map_option_case split: option.split)
  moreover have "p_s (pcbs n' x) = p_s (pcbs n x)" if "x \<noteq> c" for x using pcb_user_eqD(5) [OF n'(6) [OF that]] n1(1) by simp
  ultimately show ?thesis using n' n1 by (intro exI [of _ p] exI [of _ n']) (simp add: at_entry_def path_end_def)
qed

subsection \<open>All orders\<close>

text \<open>
  \<open>lives V r s0 x j s\<close>: from \<open>s0\<close>, with any number of time slices in between, \<open>x\<close> user processes
  have called SYS9 and the first process \<open>r\<close> has made \<open>j\<close> of its waits in \<open>waitForUprocs\<close>.
\<close>

inductive lives :: "supp_umps \<Rightarrow> nat \<Rightarrow> sup_state \<Rightarrow> nat \<Rightarrow> nat \<Rightarrow> sup_state \<Rightarrow> bool" for V r s0 where
  lives_start: "lives V r s0 0 0 s0"
| lives_slice: "lives V r s0 x j s \<Longrightarrow> time_slice V s s' \<Longrightarrow> lives V r s0 x j s'"
| lives_end: "lives V r s0 x j s \<Longrightarrow> currentProcess (nuc s) \<noteq> Some r \<Longrightarrow> user_exit V cpu s = Some (LDST st, s') \<Longrightarrow>
     lives V r s0 (Suc x) j s'"
| lives_wait: "lives V r s0 x j s \<Longrightarrow> currentProcess (nuc s) = Some r \<Longrightarrow> j < UPROCMAX \<Longrightarrow>
     nucleus_runs (nucl V) PASSEREN (adr_masterSem V) 0 0 s = Some (LDST st, s') \<Longrightarrow> lives V r s0 x (Suc j) s'"

text \<open>
  The invariant: the value of the master semaphore is the number of ends minus the number of waits, and
  the first process is blocked exactly when this is \<open>-1\<close>.
\<close>

definition life_inv :: "supp_umps \<Rightarrow> nat \<Rightarrow> nat \<Rightarrow> nat \<Rightarrow> sup_state \<Rightarrow> bool" where
  "life_inv V r x j s \<longleftrightarrow>
     (\<exists>k c us ps. at_entry (nuc s) k c \<and> family V r us ps s \<and> x + length us = UPROCMAX \<and> j \<le> Suc x \<and> j \<le> UPROCMAX \<and>
        set (c # kready k) = set us \<union> (if j = Suc x then {} else {r}) \<and>
        kblocked k (adr_masterSem V) = (if j = Suc x then [r] else []) \<and>
        ints (nuc s) (adr_masterSem V) = of_nat x - of_nat j \<and> length (kfree k) + length us = MAXPROC - 1 \<and>
        set ps \<union> (\<lambda>u. p_supportStruct (pcbs (nuc s) u)) ` set us = adr_uproc_supp V ` {0..<8} \<and> length ps = x)"

lemma life_slice:
  assumes U: "umps_doc (nucl V)" and i: "life_inv V r x j s" and t: "time_slice V s s'"
  shows "life_inv V r x j s'"
  using t
proof cases
  case (slice_ends w c st st' n')
  obtain k c' us ps where I: "at_entry (nuc s) k c'" "family V r us ps s" "x + length us = UPROCMAX" "j \<le> Suc x" "j \<le> UPROCMAX"
    "set (c' # kready k) = set us \<union> (if j = Suc x then {} else {r})" "kblocked k (adr_masterSem V) = (if j = Suc x then [r] else [])"
    "ints (nuc s) (adr_masterSem V) = of_nat x - of_nat j" "length (kfree k) + length us = MAXPROC - 1"
    "set ps \<union> (\<lambda>u. p_supportStruct (pcbs (nuc s) u)) ` set us = adr_uproc_supp V ` {0..<8}" "length ps = x"
    using i unfolding life_inv_def by blast
  have c: "c' = c" using at_entryD(2) [OF I(1)] slice_ends(3) by simp
  obtain p where p: "at_entry n' (k\<lparr>kready := tl (kready k @ [c]), kheld := [p]\<rparr>) p" "p = hd (kready k @ [c])"
    "status (p_s (pcbs n' c)) = status st" "\<And>x. x \<noteq> c \<Longrightarrow> p_s (pcbs n' x) = p_s (pcbs (nuc s) x)"
    "same_tree (pcbs (nuc s)) (pcbs n')" "ints n' = ints (nuc s)" "supports n' = supports (nuc s)"
    using slice_run [OF U I(1) [unfolded c] slice_ends(2), of st] slice_ends(5) by auto
  have "status (p_s (pcbs n' r)) AND USERPON = status (p_s (pcbs (nuc s) r)) AND USERPON"
    using p(3,4) slice_ends(4) by (cases "r = c") simp_all
  then have "family V r us ps s'"
    by (intro family_frame [OF I(2)]) (use p(5,7) I(2) slice_ends(1) in \<open>simp_all add: family_def Let_def\<close>)
  moreover have "set (p # tl (kready k @ [c])) = set (c # kready k)" unfolding p(2) by (cases "kready k") auto
  ultimately show ?thesis unfolding life_inv_def slice_ends(1)
    by (intro exI [of _ "k\<lparr>kready := tl (kready k @ [c]), kheld := [p]\<rparr>"] exI [of _ p] exI [of _ us] exI [of _ ps])
      (use I(3-11) p(1,5,6) c in \<open>simp add: same_tree_def\<close>)
qed

lemma life_exit:
  assumes U: "umps_doc (nucl V)" and m: "sem_addr (adr_masterSem V)" and i: "life_inv V r x j s" and u: "currentProcess (nuc s) \<noteq> Some r"
  shows "\<exists>st s'. user_exit V cpu s = Some (LDST st, s') \<and> life_inv V r (Suc x) j s'"
proof -
  let ?m = "adr_masterSem V"
  obtain k c us ps where I: "at_entry (nuc s) k c" "family V r us ps s" "x + length us = UPROCMAX" "j \<le> Suc x" "j \<le> UPROCMAX"
    "set (c # kready k) = set us \<union> (if j = Suc x then {} else {r})" "kblocked k ?m = (if j = Suc x then [r] else [])"
    "ints (nuc s) ?m = of_nat x - of_nat j" "length (kfree k) + length us = MAXPROC - 1"
    "set ps \<union> (\<lambda>u. p_supportStruct (pcbs (nuc s) u)) ` set us = adr_uproc_supp V ` {0..<8}" "length ps = x"
    using i unfolding life_inv_def by blast
  note E = at_entryD [OF I(1)]
  have cr: "c \<noteq> r" using u E(2) by simp
  then have cu: "c \<in> set us" using I(6) by (auto split: if_splits)
  have ck: "c \<notin> set (kready k)" using E(3) kinvD(8) [OF E(1)] by (simp add: unblocked_def)
  have du: "distinct us" using I(2) by (auto simp: family_def distinct_map Let_def)
  have q: "set (kready (V_view ?m k)) = insert r (set us - {c})" "kblocked (V_view ?m k) ?m = []"
    using I(6,7) ck cr by (auto simp: V_view_def split: if_splits)
  then obtain p rs where p: "kready (V_view ?m k) = p # rs" by (cases "kready (V_view ?m k)") auto
  let ?k' = "(V_view ?m k)\<lparr>kfree := kfree k @ [c], kready := rs, kheld := [p]\<rparr>"
  obtain s' where s': "user_exit V cpu s = Some (LDST (p_s (pcbs (nuc s) p)), s')" "at_entry (nuc s') ?k' p"
    "ints (nuc s') = (ints (nuc s))(?m := ints (nuc s) ?m + 1)" "family V r (remove1 c us) (p_supportStruct (pcbs (nuc s) c) # ps) s'"
    "\<And>x. p_supportStruct (pcbs (nuc s') x) = p_supportStruct (pcbs (nuc s) x)"
    using family_exit [OF U refl m I(2) cu I(1) p, of cpu] by blast
  have len: "Suc (length (remove1 c us)) = length us" using cu by (simp add: length_remove1) (metis Suc_pred length_pos_if_in_set)
  have "life_inv V r (Suc x) j s'" unfolding life_inv_def
  proof (intro exI conjI)
    show "at_entry (nuc s') ?k' p" "family V r (remove1 c us) (p_supportStruct (pcbs (nuc s) c) # ps) s'" by (rule s')+
    show "Suc x + length (remove1 c us) = UPROCMAX" "length (kfree ?k') + length (remove1 c us) = MAXPROC - 1" using I(3,9) len by simp_all
    show "set (p # kready ?k') = set (remove1 c us) \<union> (if j = Suc (Suc x) then {} else {r})"
      using q(1) p I(4) du by auto
    show "kblocked ?k' ?m = (if j = Suc (Suc x) then [r] else [])" using q(2) I(4) by simp
    show "ints (nuc s') ?m = of_nat (Suc x) - of_nat j" using s'(3) I(8) by simp
    show "set (p_supportStruct (pcbs (nuc s) c) # ps) \<union> (\<lambda>u. p_supportStruct (pcbs (nuc s') u)) ` set (remove1 c us) = adr_uproc_supp V ` {0..<8}"
      using I(10) cu du unfolding s'(5) by auto
  qed (use I(4,5,11) in simp_all)
  then show ?thesis using s'(1) by blast
qed

lemma life_wait:
  assumes U: "umps_doc (nucl V)" and m: "sem_addr (adr_masterSem V)" and i: "life_inv V r x j s" and u: "currentProcess (nuc s) = Some r"
    and j: "j < UPROCMAX"
  shows "\<exists>st s'. nucleus_runs (nucl V) PASSEREN (adr_masterSem V) 0 0 s = Some (LDST st, s') \<and> life_inv V r x (Suc j) s'"
proof -
  let ?m = "adr_masterSem V"
  obtain k c us ps where I0: "at_entry (nuc s) k c" "family V r us ps s" "x + length us = UPROCMAX" "j \<le> Suc x" "j \<le> UPROCMAX"
    "set (c # kready k) = set us \<union> (if j = Suc x then {} else {r})" "kblocked k ?m = (if j = Suc x then [r] else [])"
    "ints (nuc s) ?m = of_nat x - of_nat j" "length (kfree k) + length us = MAXPROC - 1"
    "set ps \<union> (\<lambda>u. p_supportStruct (pcbs (nuc s) u)) ` set us = adr_uproc_supp V ` {0..<8}" "length ps = x"
    using i unfolding life_inv_def by blast
  have c: "c = r" using at_entryD(2) [OF I0(1)] u by simp
  note I = I0 [unfolded c]
  note E = at_entryD [OF I(1)]
  have ru: "r \<notin> set us" and rk: "runs_in_kernel (nuc s) k r" using I(1,2) by (simp_all add: family_def runs_in_kernel_def Let_def)
  have nb: "j \<noteq> Suc x" using I(6) ru by auto
  have ck: "r \<notin> set (kready k)" using E(3) kinvD(8) [OF E(1)] by (simp add: unblocked_def)
  have "insert r (set (kready k)) = insert r (set us)" using I(6) nb by simp
  then have q: "set (kready k) = set us" using insert_ident [OF ck ru] by simp
  show ?thesis
  proof (cases "j = x")
    case True
    then have "us \<noteq> []" using I(3) j by auto
    then obtain p rs where p: "kready k = p # rs" using q by (cases "kready k") auto
    let ?k' = "k\<lparr>kblocked := (kblocked k)(?m := kblocked k ?m @ [r]), kready := rs, kheld := [p]\<rparr>"
    obtain s' where s': "nucleus_runs (nucl V) PASSEREN ?m 0 0 s = Some (LDST (p_s (pcbs (nuc s) p)), s')" "at_entry (nuc s') ?k' p"
      "ints (nuc s') = (ints (nuc s))(?m := - 1)" "family V r us ps s'" "same_tree (pcbs (nuc s)) (pcbs (nuc s'))"
      using family_waits [OF U rk m _ p I(2)] I(8) True by auto
    have "life_inv V r x (Suc j) s'" unfolding life_inv_def
      by (rule exI [of _ ?k'], rule exI [of _ p], rule exI [of _ us], rule exI [of _ ps])
        (use s'(2-5) I(3,7,9-11) nb True j p q in \<open>simp add: same_tree_def\<close>)
    then show ?thesis using s'(1) by blast
  next
    case False
    then have jx: "j < x" using I(4) nb by simp
    have w: "ints (nuc s) ?m - 1 = of_nat (x - Suc j)" using I(8) jx by (simp add: of_nat_diff)
    have "x - Suc j < 2 ^ 31" using I(3) by (simp add: UPROCMAX_def)
    then have "\<not> sint (ints (nuc s) ?m - 1) < 0" unfolding w by (subst sint_nonneg) (simp_all add: unat_of_nat)
    then obtain v n' where n': "nucleus_call (nucl V) PASSEREN ?m 0 0 s = Some (v, s\<lparr>nuc := n'\<rparr>)" "runs_in_kernel n' k r"
      "ints n' = (ints (nuc s))(?m := ints (nuc s) ?m - 1)" "spares (nuc s) n' r" "same_tree (pcbs (nuc s)) (pcbs n')"
      using nucleus_P_free [OF U rk m] by blast
    have "family V r us ps (s\<lparr>nuc := n'\<rparr>)"
      by (rule family_frame [OF I(2)]) (use n'(2,4,5) in \<open>simp_all add: spares_def runs_in_kernel_def\<close>)
    moreover have "at_entry n' k r" using n'(2) by (simp add: runs_in_kernel_def)
    ultimately have "life_inv V r x (Suc j) (s\<lparr>nuc := n'\<rparr>)" unfolding life_inv_def
      by (intro exI [of _ k] exI [of _ r] exI [of _ us] exI [of _ ps]) (use n'(3,5) I(3,6-11) nb jx j in \<open>simp add: same_tree_def\<close>)
    then show ?thesis using n'(1) by (auto elim: nucleus_call_runs)
  qed
qed

lemma lives_inv:
  assumes U: "umps_doc (nucl V)" and m: "sem_addr (adr_masterSem V)" and i: "life_inv V r 0 0 s0" and l: "lives V r s0 x j s"
  shows "life_inv V r x j s"
  using l
proof induction
  case (lives_end x j s cpu st s')
  then show ?case using life_exit [OF U m lives_end.IH lives_end.hyps(2), of cpu] by auto
next
  case (lives_wait x j s st s')
  then show ?case using life_wait [OF U m lives_wait.IH lives_wait.hyps(2,3)] by auto
qed (use i life_slice [OF U] in blast)+

subsection \<open>The system always ends in HALT\<close>

lemma life_started:
  assumes b: "boot_globals s0" and V: "supp_doc V" and u: "adr_uproc_state V \<noteq> BIOSDATAPAGE" and m: "sem_addr (adr_masterSem V)"
    and fr: "freeSupp_tp S = 0" and boot: "main (nucl V) s0 = Some (LDST st, n)"
    and s2: "initSuppStack V (initDevSemaphores V (initSwapStructs V (S\<lparr>nuc := n\<rparr>))) = Some s2"
    and s4: "initUProcs (nucleus_call (nucl V)) V (put_int (adr_masterSem V) 0 s2) = Some s4"
  shows "life_inv V 0 0 0 s4"
proof -
  let ?m = "adr_masterSem V"
  have U: "umps_doc (nucl V)" using V by (simp add: supp_doc_def)
  obtain k where k: "kernel_caller (nuc (S\<lparr>nuc := n\<rparr>)) k 0" "length (kfree k) = MAXPROC - 1" "p_prnt (pcbs (nuc (S\<lparr>nuc := n\<rparr>)) 0) = None"
    using first_process_runs [OF b U] boot by auto
  let ?us = "take 8 (kfree k)"
  let ?k4 = "k\<lparr>kfree := drop 8 (kfree k), kready := ?us\<rparr>"
  have fr': "freeSupp_tp (S\<lparr>nuc := n\<rparr>) = 0" using fr by simp
  have F: "runs_in_kernel (nuc s4) ?k4 0" "ints (nuc s4) ?m = 0" "family V 0 ?us [] s4"
    "map (\<lambda>u. p_supportStruct (pcbs (nuc s4) u)) ?us = rev (map (adr_uproc_supp V) [0..<8])"
    using family_started [OF extends_nucleus_call V u k(1) fr' k(2,3), of ?m] s2 s4 by auto
  have bl: "kblocked k ?m = []" using k(1) alone_view(2) [OF _ k(2)] by (auto simp: kernel_caller_def)
  have "(\<lambda>u. p_supportStruct (pcbs (nuc s4) u)) ` set ?us = set (rev (map (adr_uproc_supp V) [0..<8]))"
    unfolding F(4) [symmetric] by simp
  then have sup: "(\<lambda>u. p_supportStruct (pcbs (nuc s4) u)) ` set ?us = adr_uproc_supp V ` {0..<8}" by simp
  have e: "at_entry (nuc s4) ?k4 0" using F(1) by (simp add: runs_in_kernel_def)
  show ?thesis unfolding life_inv_def
    by (rule exI [of _ ?k4], rule exI [of _ 0], rule exI [of _ ?us], rule exI [of _ "[]"])
      (use e F(2,3) bl sup k(2) in \<open>simp add: UPROCMAX_def MAXPROC_def\<close>)
qed

text \<open>
  C3: The processes may run in any order.  From power-on, once the user processes are started, let
  the time slices end anywhere between the calls, so that the user processes end and the first process
  waits in any interleaving.  There is always a process that runs, and its next call is served: a user process can end
  while there is one, the first process can make each of its eight waits, and when it has made them all eight user
  processes have ended, its SYS2 halts the system, every process control block and every support structure
  is free and the master semaphore is zero.  At most sixteen calls lie in between, so the system ends unless it
  only computes.  A time slice does not end inside the handler of SYS9, whose change of the stack of support
  structures is not protected against that.
\<close>

theorem any_order_halts:
  assumes b: "boot_globals s0" and V: "supp_doc V" and u: "adr_uproc_state V \<noteq> BIOSDATAPAGE" and m: "sem_addr (adr_masterSem V)"
    and fr: "freeSupp_tp S = 0" and boot: "main (nucl V) s0 = Some (LDST st, n)"
    and s2: "initSuppStack V (initDevSemaphores V (initSwapStructs V (S\<lparr>nuc := n\<rparr>))) = Some s2"
    and s4: "initUProcs (nucleus_call (nucl V)) V (put_int (adr_masterSem V) 0 s2) = Some s4"
    and l: "lives V 0 s4 x j s"
  shows "x \<le> UPROCMAX \<and> j \<le> UPROCMAX \<and> (\<exists>c. currentProcess (nuc s) = Some c \<and>
     (if c \<noteq> 0 then x < UPROCMAX \<and> (\<forall>cpu. \<exists>st s'. user_exit V cpu s = Some (LDST st, s'))
      else if j < UPROCMAX then \<exists>st s'. nucleus_runs (nucl V) PASSEREN (adr_masterSem V) 0 0 s = Some (LDST st, s')
      else x = UPROCMAX \<and> (\<exists>s' k ps. nucleus_runs (nucl V) TERMPROCESS 0 0 0 s = Some (HALT, s') \<and>
        kinv (nuc s') k \<and> length (kfree k) = MAXPROC \<and> processCount (nuc s') = 0 \<and> ints (nuc s') (adr_masterSem V) = 0 \<and>
        supp_stack s' ps \<and> set ps = adr_uproc_supp V ` {0..<UPROCMAX} \<and> length ps = UPROCMAX)))"
proof -
  have U: "umps_doc (nucl V)" using V by (simp add: supp_doc_def)
  have "life_inv V 0 0 0 s4" by (rule life_started [OF b V u m fr boot s2 s4])
  from lives_inv [OF U m this l] have i: "life_inv V 0 x j s" .
  then obtain k c us ps where I: "at_entry (nuc s) k c" "family V 0 us ps s" "x + length us = UPROCMAX" "j \<le> Suc x" "j \<le> UPROCMAX"
    "set (c # kready k) = set us \<union> (if j = Suc x then {} else {0})"
    "ints (nuc s) (adr_masterSem V) = of_nat x - of_nat j" "length (kfree k) + length us = MAXPROC - 1"
    "set ps \<union> (\<lambda>u. p_supportStruct (pcbs (nuc s) u)) ` set us = adr_uproc_supp V ` {0..<8}" "length ps = x"
    unfolding life_inv_def by blast
  have c: "currentProcess (nuc s) = Some c" by (rule at_entryD(2) [OF I(1)])
  consider "c \<noteq> 0" | "c = 0" "j < UPROCMAX" | "c = 0" "j = UPROCMAX" using I(5) by linarith
  then show ?thesis
  proof cases
    case 1
    then have "us \<noteq> []" using I(6) by (auto split: if_splits)
    then have "x < UPROCMAX" "x \<le> UPROCMAX" using I(3) by (cases us; simp)+
    moreover have "\<exists>st s'. user_exit V cpu s = Some (LDST st, s')" for cpu using life_exit [OF U m i, of cpu] 1 c by auto
    ultimately show ?thesis using 1 c I(5) by (intro conjI exI [of _ c]) simp_all
  next
    case 2
    then have "\<exists>st s'. nucleus_runs (nucl V) PASSEREN (adr_masterSem V) 0 0 s = Some (LDST st, s')"
      using life_wait [OF U m i] c by auto
    then show ?thesis using 2 c I(3,5) by (intro conjI exI [of _ c]) simp_all
  next
    case 3
    have "0 \<notin> set us" using I(2) by (simp add: family_def Let_def)
    then have "j \<noteq> Suc x" using I(6) 3 by auto
    then have x: "x = UPROCMAX" "us = []" using I(3,4) 3 by (cases us; simp)+
    have q: "kready k = []" using I(6) x(2) 3 at_entryD(1,3) [OF I(1)] kinvD(8) [of "nuc s" k]
      by (cases "kready k") (auto simp: unblocked_def split: if_splits)
    have "runs_in_kernel (nuc s) k 0" "p_child (pcbs (nuc s) 0) = None" and st: "supp_stack s ps"
      using I(1,2) 3 x(2) by (auto simp: family_def runs_in_kernel_def Let_def)
    from last_process_halts [OF U this(1) q _ this(2)] I(8) x(2) obtain s' k' where
      "nucleus_runs (nucl V) TERMPROCESS 0 0 0 s = Some (HALT, s')" "kinv (nuc s') k'" "length (kfree k') = MAXPROC"
      "processCount (nuc s') = 0" "ints (nuc s') = ints (nuc s)" "supp_stack s' ps" using st by auto
    moreover have "set ps = adr_uproc_supp V ` {0..<UPROCMAX}" "length ps = UPROCMAX" "ints (nuc s) (adr_masterSem V) = 0"
      using I(7,9,10) x 3 by (simp_all add: UPROCMAX_def)
    ultimately show ?thesis using c 3 x(1) by auto
  qed
qed

text \<open>The first process is interrupted before its first wait, or waits at once: both go on.\<close>

theorem any_order_halts_witness:
  "\<exists>s4 st s'. lives umps3s 0 s4 0 0 s4 \<and> currentProcess (nuc s4) = Some 0 \<and>
     nucleus_runs umps3 PASSEREN (adr_masterSem umps3s) 0 0 s4 = Some (LDST st, s') \<and> lives umps3s 0 s4 0 1 s'"
proof -
  let ?m = "adr_masterSem umps3s"
  have v: "adr_uproc_state umps3s \<noteq> BIOSDATAPAGE" "sem_addr ?m" "freeSupp_tp supp_example = 0"
    by (simp_all add: umps3s_def BIOSDATAPAGE_def sem_addr_def MAXADD_def supp_example_def)
  obtain n k where n: "main (nucl umps3s) power_on = Some (LDST (p_s (pcbs n 0)), n)"
    "kernel_caller (nuc (supp_example\<lparr>nuc := n\<rparr>)) k 0" "length (kfree k) = MAXPROC - 1"
    "p_prnt (pcbs (nuc (supp_example\<lparr>nuc := n\<rparr>)) 0) = None" "freeSupp_tp (supp_example\<lparr>nuc := n\<rparr>) = 0"
    using first_process_runs [OF boot_power_on, of umps3] umps3_doc v(3) by auto
  obtain s2 s4 where s: "initSuppStack umps3s (initDevSemaphores umps3s (initSwapStructs umps3s (supp_example\<lparr>nuc := n\<rparr>))) = Some s2"
    "initUProcs (nucleus_call (nucl umps3s)) umps3s (put_int ?m 0 s2) = Some s4"
    "runs_in_kernel (nuc s4) (k\<lparr>kfree := drop 8 (kfree k), kready := take 8 (kfree k)\<rparr>) 0"
    using family_started [OF extends_nucleus_call umps3s_doc v(1) n(2,5,3,4), of ?m] by blast
  have l: "lives umps3s 0 s4 0 0 s4" by (rule lives_start)
  have c: "currentProcess (nuc s4) = Some 0" by (rule runs_current [OF s(3)])
  obtain st s' where "nucleus_runs (nucl umps3s) PASSEREN ?m 0 0 s4 = Some (LDST st, s')"
    using any_order_halts [OF boot_power_on umps3s_doc v n(1) s(1,2) l] c by (auto simp: UPROCMAX_def)
  moreover from this have "lives umps3s 0 s4 0 (Suc 0) s'" by (intro lives_wait [OF l c]) (simp add: UPROCMAX_def)
  ultimately show ?thesis using l c by auto
qed

end
