(* ===== verification/Page_Types.thy ===== *)
theory Page_Types
  imports Page_Fault Interfaces
begin

text \<open>
  Well-formed page tables: what the entries of the processes' page tables look like after any
  number of page faults, whichever processes have them and whatever the processes do in between.
  The service of page faults is a machine (theory \<open>Interfaces\<close>) whose invariant is \<open>typed_tables\<close>.
\<close>

text \<open>One entry: its tag is the one the process was given, its frame, if it has one, a frame of the pool.\<close>

definition typed_entry :: "supp_umps \<Rightarrow> u32 \<Rightarrow> nat \<Rightarrow> pteEntry_t \<Rightarrow> bool" where
  "typed_entry V asid i e \<longleftrightarrow> pte_entryHI e = pte_entryHI (init_pte asid i) \<and>
     (pte_valid e \<longrightarrow> (\<exists>f<POOLSIZE. pte_entryLO e = frame_lo (nucl V) f))"

text \<open>
  The page tables of the processes \<open>P\<close>, given by the addresses of their support structures; \<open>A\<close>
  says which ASID each has.
\<close>

definition typed_tables :: "supp_umps \<Rightarrow> u32 set \<Rightarrow> (u32 \<Rightarrow> nat) \<Rightarrow> sup_state \<Rightarrow> bool" where
  "typed_tables V P A s \<longleftrightarrow> (\<forall>a\<in>P. \<forall>i<MAXPAGES. typed_entry V (of_nat (A a)) i (pte_at s a i))"

text \<open>
  Before the first page fault: every process has the page table of \<open>init_uproc_pagetable\<close>, and
  the swap table is the one \<open>initSwapTable\<close> leaves.
\<close>

definition pager_start :: "u32 set \<Rightarrow> (u32 \<Rightarrow> nat) \<Rightarrow> sup_state \<Rightarrow> bool" where
  "pager_start P A s \<longleftrightarrow> 0 \<notin> P \<and> unat (frameIndexToReplace s) < POOLSIZE \<and>
     (\<exists>s0. swapTable s = swapTable (initSwapTable s0)) \<and>
     (\<forall>a\<in>P. A a \<in> {1..8} \<and> (\<forall>i<MAXPAGES. pte_at s a i = init_pte (of_nat (A a)) i))"

text \<open>
  One page fault, after the processes ran for a while: they write their own memory, registers and
  saved states, not the tables.
\<close>

definition pager_step :: "kernel \<Rightarrow> supp_umps \<Rightarrow> u32 set \<Rightarrow> sup_state \<Rightarrow> sup_state \<Rightarrow> bool" where
  "pager_step K V P s s' \<longleftrightarrow> (\<exists>t a i. swapTable t = swapTable s \<and> frameIndexToReplace t = frameIndexToReplace s \<and>
     pte_at t = pte_at s \<and> a \<in> P \<and> i < MAXPAGES \<and> getMissingPageFromSupp V a t = Some (Inr (Some (a, i))) \<and>
     \<not> pte_valid (pte_at t a i) \<and> handleTLBInvalid K V a t = Some (None, s'))"

lemma swap_inv_cong:
  "swapTable t = swapTable s \<Longrightarrow> frameIndexToReplace t = frameIndexToReplace s \<Longrightarrow> pte_at t = pte_at s \<Longrightarrow>
   swap_inv V P t = swap_inv V P s"
  by (simp add: swap_inv_def holds_page_def)

lemma MAXPAGES_32: "MAXPAGES = 32"
  by (simp add: MAXPAGES_def)

lemma POOLSIZE_16: "POOLSIZE = 16"
  by (simp add: POOLSIZE_def UPROCMAX_def)

lemma init_pte_invalid: "\<not> pte_valid (init_pte a i)"
  by (simp add: pte_valid_def init_pte_def DIRTYON_def VALIDON_def)

lemma pager_start_inv:
  assumes V: "supp_doc V" and st: "pager_start P A s"
  shows "swap_inv V P s"
proof -
  have pte: "pte_at s a i = init_pte (of_nat (A a)) i" and n: "A a \<in> {1..8}" if "a \<in> P" "i < 32" for a i
    using st that by (auto simp: pager_start_def MAXPAGES_32)
  have "\<exists>n\<in>{1..8}. ENTRYHI_GET_ASID V (pte_entryHI (pte_at s a i)) = of_nat n" if "a \<in> P" "i < 32" for a i
    using init_pte_fields(1) [of "A a" i] supp_docD(2) [OF V] n [OF that] that
    by (intro bexI [of _ "A a"]) (simp_all add: pte [OF that])
  moreover have "sw_asid (swapTable s f) = - 1" if "f < 16" for f
    using st that by (auto simp: pager_start_def initSwapTable_eq)
  ultimately show ?thesis
    using st pte init_pte_invalid by (simp add: swap_inv_def pager_start_def POOLSIZE_16)
qed

lemma moved_tags: "page_moved V s s' a i f \<Longrightarrow> pte_entryHI (pte_at s' b j) = pte_entryHI (pte_at s b j)"
  by (cases "(b, j) = (a, i)") (auto simp: page_moved_def)

lemma swap_inv_typed:
  assumes "swap_inv V P s" and "\<forall>a\<in>P. \<forall>i<32. pte_entryHI (pte_at s a i) = pte_entryHI (init_pte (of_nat (A a)) i)"
  shows "typed_tables V P A s"
proof -
  have "\<exists>f<16. pte_entryLO (pte_at s a i) = frame_lo (nucl V) f" if "a \<in> P" "i < 32" "pte_valid (pte_at s a i)" for a i
    using swap_invD(5) [OF assms(1) that] by (auto simp: holds_page_def)
  with assms(2) show ?thesis by (simp add: typed_tables_def typed_entry_def MAXPAGES_32 POOLSIZE_16)
qed

lemma pager_step_inv:
  assumes V: "supp_doc V" and K: "pager_kernel K" and inv: "swap_inv V P s" and ty: "typed_tables V P A s"
    and st: "pager_step K V P s s'"
  shows "swap_inv V P s' \<and> typed_tables V P A s'"
proof -
  obtain t a i where t: "pte_at t = pte_at s" and ai: "a \<in> P" "i < 32"
    and m: "getMissingPageFromSupp V a t = Some (Inr (Some (a, i)))" "\<not> pte_valid (pte_at t a i)"
    and h: "handleTLBInvalid K V a t = Some (None, s')"
    and tab: "swapTable t = swapTable s" "frameIndexToReplace t = frameIndexToReplace s"
    using st unfolding pager_step_def MAXPAGES_32 by metis
  have invt: "swap_inv V P t" using inv swap_inv_cong [OF tab t] by blast
  have mv: "page_moved V t s' a i (victim t)"
    using handleTLBInvalid_run [OF V K invt ai m] h by auto
  have inv': "swap_inv V P s'" by (rule page_moved_inv [OF V invt ai victim_less m(2) mv])
  have "\<forall>b\<in>P. \<forall>j<32. pte_entryHI (pte_at s' b j) = pte_entryHI (init_pte (of_nat (A b)) j)"
    using ty moved_tags [OF mv] t by (simp add: typed_tables_def typed_entry_def MAXPAGES_32)
  with inv' swap_inv_typed show ?thesis by blast
qed

interpretation pgm: machine "\<lambda>s. supp_doc V \<and> pager_kernel K \<and> pager_start P A s" "pager_step K V P"
  "\<lambda>s. supp_doc V \<and> pager_kernel K \<and> swap_inv V P s \<and> typed_tables V P A s"
proof
  show "supp_doc V \<and> pager_kernel K \<and> swap_inv V P s \<and> typed_tables V P A s"
    if "supp_doc V \<and> pager_kernel K \<and> pager_start P A s" for s
  proof -
    have "typed_tables V P A s"
      using that init_pte_invalid by (simp add: typed_tables_def typed_entry_def pager_start_def)
    with that pager_start_inv show ?thesis by blast
  qed
  show "supp_doc V \<and> pager_kernel K \<and> swap_inv V P t \<and> typed_tables V P A t"
    if "supp_doc V \<and> pager_kernel K \<and> swap_inv V P s \<and> typed_tables V P A s" "pager_step K V P s t" for s t
    using pager_step_inv that by blast
qed

text \<open>The pages in memory at the same time: no more than there are frames, since no two share one.\<close>

lemma resident_bound:
  assumes V: "supp_doc V" and inv: "swap_inv V P s"
  shows "finite {(a, i). a \<in> P \<and> i < 32 \<and> pte_valid (pte_at s a i)} \<and>
    card {(a, i). a \<in> P \<and> i < 32 \<and> pte_valid (pte_at s a i)} \<le> 16"
proof -
  let ?R = "{(a, i). a \<in> P \<and> i < 32 \<and> pte_valid (pte_at s a i)}"
  have "?R \<subseteq> (\<lambda>f. the (sw_pte (swapTable s f))) ` {..<16}"
    using swap_invD(5) [OF inv] by (force simp: holds_page_def)
  then have "finite ?R" "card ?R \<le> card ((\<lambda>f. the (sw_pte (swapTable s f))) ` {..<16::nat})"
    by (auto intro: finite_subset card_mono)
  moreover have "card ((\<lambda>f. the (sw_pte (swapTable s f))) ` {..<16::nat}) \<le> 16"
    using card_image_le [of "{..<16::nat}"] by simp
  ultimately show ?thesis by linarith
qed

text \<open>
  C19: The page tables stay well formed for ever: start with the tables of init_uproc_pagetable and
  the swap table of initSwapTable, and let any processes have any number of page faults.  Then every
  entry still has the page number and the ASID it was given, every valid entry maps a frame of the
  pool, at most POOLSIZE pages are in memory, and the next page fault of any process for a page that
  is not in memory is served.
\<close>

theorem page_tables_typed:
  assumes "supp_doc V" and "pager_kernel K" and "pager_start P A s" and "reaches (pager_step K V P) s s'"
  shows "typed_tables V P A s' \<and> card {(a, i). a \<in> P \<and> i < MAXPAGES \<and> pte_valid (pte_at s' a i)} \<le> POOLSIZE \<and>
    (\<forall>a\<in>P. \<forall>i<MAXPAGES. getMissingPageFromSupp V a s' = Some (Inr (Some (a, i))) \<and> \<not> pte_valid (pte_at s' a i) \<longrightarrow>
      (\<exists>s''. pager_step K V P s' s''))"
proof -
  have inv: "swap_inv V P s'" "typed_tables V P A s'"
    using pgm.reaches_inv [OF assms(4)] assms(1-3) by blast+
  have "\<exists>s''. pager_step K V P s' s''" if "a \<in> P" "i < 32"
    "getMissingPageFromSupp V a s' = Some (Inr (Some (a, i)))" "\<not> pte_valid (pte_at s' a i)" for a i
    using handleTLBInvalid_run [OF assms(1,2) inv(1) that] that unfolding pager_step_def MAXPAGES_32 by blast
  with inv resident_bound [OF assms(1) inv(1)] show ?thesis by (simp add: MAXPAGES_32 POOLSIZE_16)
qed

lemma pager_example_start: "pager_start {0x2000} (\<lambda>_. 3) pager_example"
proof -
  have "swapTable pager_example = swapTable (initSwapTable (supp_example\<lparr>swapTable := (\<lambda>_. \<lparr>sw_asid = 0, sw_pageNo = 0, sw_pte = None\<rparr>)\<rparr>))"
    by (simp add: pager_example_def put_supp_def)
  then show ?thesis
    using pager_example_pte pager_example_free(2)
    by (auto simp: pager_start_def MAXPAGES_32 POOLSIZE_16)
qed

text \<open>A process has a page fault for its first page; its table is still well formed.\<close>

theorem page_tables_typed_witness:
  "\<exists>s'. pager_step calm umps3s {0x2000} pager_example s' \<and> typed_tables umps3s {0x2000} (\<lambda>_. 3) s' \<and>
     card {(a, i). a \<in> {0x2000} \<and> i < MAXPAGES \<and> pte_valid (pte_at s' a i)} \<le> POOLSIZE"
proof -
  obtain s' where s': "pager_step calm umps3s {0x2000} pager_example s'"
    using page_tables_typed [OF umps3s_doc calm_pager pager_example_start reaches_refl] pager_example_missing
    by (auto simp: MAXPAGES_32)
  have "reaches (pager_step calm umps3s {0x2000}) pager_example s'"
    using s' by (auto intro: reaches_step reaches_refl)
  from page_tables_typed [OF umps3s_doc calm_pager pager_example_start this] s' show ?thesis by blast
qed

end
