(* ===== verification/Statements.thy ===== *)
theory Statements
  imports Prelude
begin

text \<open>
  Straight-line C code with calls that may not come back, for the test programs.  A statement is
  a function from the state to the way control leaves it: \<open>Some (Inr s)\<close> goes on in \<open>s\<close>,
  \<open>Some (Inl e)\<close> leaves the program for good with the result \<open>e\<close>, and \<open>None\<close> is undefined
  behaviour, as everywhere.  A block is the list of its statements.  \<open>runs c s Q\<close> says that the
  statement goes on, in a state of \<open>Q\<close>, and \<open>ends c s Q\<close> that it leaves the program with a
  result of \<open>Q\<close>; the rules take a block apart statement by statement.
\<close>

type_synonym ('e, 's) stmt = "'s \<Rightarrow> ('e + 's) option"

fun block :: "('e, 's) stmt list \<Rightarrow> ('e, 's) stmt" where
  "block [] s = Some (Inr s)"
| "block (c # cs) s = (case c s of Some (Inr s') \<Rightarrow> block cs s' | r \<Rightarrow> r)"

definition for_loop :: "nat \<Rightarrow> nat \<Rightarrow> (nat \<Rightarrow> ('e, 's) stmt list) \<Rightarrow> ('e, 's) stmt" where
  "for_loop m n body = block (concat (map body [m..<n]))"

text \<open>An assignment or a call, and a statement under a condition.\<close>

definition perform :: "('s \<Rightarrow> 's option) \<Rightarrow> ('e, 's) stmt" where
  "perform f s = map_option Inr (f s)"

definition if_then :: "('s \<Rightarrow> bool) \<Rightarrow> ('e, 's) stmt list \<Rightarrow> ('e, 's) stmt" where
  "if_then c body s = (if c s then block body s else Some (Inr s))"

definition if_else :: "('s \<Rightarrow> bool) \<Rightarrow> ('e, 's) stmt list \<Rightarrow> ('e, 's) stmt list \<Rightarrow> ('e, 's) stmt" where
  "if_else c body other s = (if c s then block body s else block other s)"

definition leave :: "('s \<Rightarrow> 'e) \<Rightarrow> ('e, 's) stmt" where
  "leave f s = Some (Inl (f s))"

text \<open>The code after a statement, where it needs a local variable.\<close>

definition continue_with :: "('e + 's) option \<Rightarrow> ('e, 's) stmt \<Rightarrow> ('e + 's) option" where
  "continue_with r f = (case r of Some (Inr s) \<Rightarrow> f s | _ \<Rightarrow> r)"

subsection \<open>Reasoning\<close>

definition runs :: "('e, 's) stmt \<Rightarrow> 's \<Rightarrow> ('s \<Rightarrow> bool) \<Rightarrow> bool" where
  "runs c s Q \<longleftrightarrow> (\<exists>s'. c s = Some (Inr s') \<and> Q s')"

definition ends :: "('e, 's) stmt \<Rightarrow> 's \<Rightarrow> ('e \<Rightarrow> bool) \<Rightarrow> bool" where
  "ends c s Q \<longleftrightarrow> (\<exists>e. c s = Some (Inl e) \<and> Q e)"

lemma runs_Nil: "Q s \<Longrightarrow> runs (block []) s Q"
  by (simp add: runs_def)

lemma runs_Cons: "runs c s (\<lambda>s. runs (block cs) s Q) \<Longrightarrow> runs (block (c # cs)) s Q"
  by (auto simp: runs_def)

lemma ends_Cons: "runs c s (\<lambda>s. ends (block cs) s Q) \<Longrightarrow> ends (block (c # cs)) s Q"
  by (auto simp: runs_def ends_def)

lemma ends_here: "ends c s Q \<Longrightarrow> ends (block (c # cs)) s Q"
  by (auto simp: ends_def)

lemma block_append: "block (cs @ ds) s = (case block cs s of Some (Inr s') \<Rightarrow> block ds s' | r \<Rightarrow> r)"
  by (induction cs arbitrary: s) (auto split: option.splits sum.splits)

lemma runs_append: "runs (block cs) s (\<lambda>s. runs (block ds) s Q) \<Longrightarrow> runs (block (cs @ ds)) s Q"
  by (auto simp: runs_def block_append)

lemma ends_append: "runs (block cs) s (\<lambda>s. ends (block ds) s Q) \<Longrightarrow> ends (block (cs @ ds)) s Q"
  by (auto simp: runs_def ends_def block_append)

lemma ends_before: "ends (block cs) s Q \<Longrightarrow> ends (block (cs @ ds)) s Q"
  by (auto simp: ends_def block_append)

lemma runs_mono: "runs c s P \<Longrightarrow> (\<And>s. P s \<Longrightarrow> Q s) \<Longrightarrow> runs c s Q"
  by (auto simp: runs_def)

lemma ends_mono: "ends c s P \<Longrightarrow> (\<And>s. P s \<Longrightarrow> Q s) \<Longrightarrow> ends c s Q"
  by (auto simp: ends_def)

lemma runs_for:
  assumes I: "I m s" and mn: "m \<le> n"
    and step: "\<And>i s. m \<le> i \<Longrightarrow> i < n \<Longrightarrow> I i s \<Longrightarrow> runs (block (body i)) s (I (Suc i))"
    and Q: "\<And>s. I n s \<Longrightarrow> Q s"
  shows "runs (for_loop m n body) s Q"
proof -
  have "runs (block (concat (map body [m..<n']))) s (I n')" if "m \<le> n'" "n' \<le> n" for n'
    using that
  proof (induction n' rule: dec_induct)
    case base
    then show ?case using I by (simp add: runs_def)
  next
    case (step k)
    then have "runs (block (concat (map body [m..<k]))) s (I k)" by simp
    then have "runs (block (concat (map body [m..<k]) @ body k)) s (I (Suc k))"
      by (intro runs_append) (rule runs_mono, assumption, rule assms(3), use step in auto)
    then show ?case using step.hyps by simp
  qed
  from this [of n] mn Q show ?thesis by (auto simp: for_loop_def runs_def)
qed

lemma ends_for: "m < n \<Longrightarrow> ends (block (body m)) s Q \<Longrightarrow> ends (for_loop m n body) s Q"
  by (simp add: for_loop_def upt_conv_Cons ends_before)

lemma runs_perform: "f s = Some s' \<Longrightarrow> Q s' \<Longrightarrow> runs (perform f) s Q"
  by (simp add: runs_def perform_def)

lemma runs_if_not: "\<not> c s \<Longrightarrow> Q s \<Longrightarrow> runs (if_then c body) s Q"
  by (simp add: runs_def if_then_def)

lemma runs_if_then: "c s \<Longrightarrow> runs (block body) s Q \<Longrightarrow> runs (if_then c body) s Q"
  by (simp add: runs_def if_then_def)

lemma runs_continue: "runs c s (\<lambda>s. runs f s Q) \<Longrightarrow> runs (\<lambda>s. continue_with (c s) f) s Q"
  by (auto simp: runs_def continue_with_def)

lemma ends_continue: "runs c s (\<lambda>s. ends f s Q) \<Longrightarrow> ends (\<lambda>s. continue_with (c s) f) s Q"
  by (auto simp: runs_def ends_def continue_with_def)

lemma ends_leave: "Q (f s) \<Longrightarrow> ends (leave f) s Q"
  by (simp add: ends_def leave_def)

end
