(* ===== verification/P1_Test.thy ===== *)
theory P1_Test
  imports Asl Pcb_Tree Umps Statements
begin

text \<open>
  The test program of phase 1, \<open>src/p1test.c\<close>: it calls the queues, the trees, the
  allocation of process control blocks and the semaphore list, and prints what it finds
  on terminal 0.

  The program is a list of statements (theory \<open>Statements\<close>); it can leave only in \<open>PANIC()\<close>,
  \<open>Inl s\<close> with the state in which it does.  The registers of the terminal are volatile: the successive values read from a register are an input
  sequence, the commands written are a list, newest first.
\<close>

record p1_umps = umps +
  BUSY :: u32
  DEVREGSIZE :: u32
  DEVREGLEN :: u32
  TRANSTATUS :: u32
  TRANCOMMAND :: u32
  adr_sem :: u32
  adr_onesem :: u32

definition P1_MAXPROC :: nat where "P1_MAXPROC = 20"
definition OKBUF_LEN :: nat where "OKBUF_LEN = 2048"
definition ERRBUF_LEN :: nat where "ERRBUF_LEN = 128"
definition TRANSMITTED :: u32 where "TRANSMITTED = 5"
definition P1_PRINTCHR :: u32 where "P1_PRINTCHR = 2"
definition CHAROFFSET :: nat where "CHAROFFSET = 8"
definition STATUSMASK :: u32 where "STATUSMASK = 0xFF"
definition TERM0ADDR :: u32 where "TERM0ADDR = 0x10000254"

record p1_state = asl_state +
  okbuf :: "nat \<Rightarrow> char"
  errbuf :: "nat \<Rightarrow> char"
  p1_mp :: nat
  procp :: "nat \<Rightarrow> pcb_ptr"
  p1_p :: pcb_ptr
  p1_qa :: pcb_ptr
  p1_q :: pcb_ptr
  firstproc :: pcb_ptr
  lastproc :: pcb_ptr
  midproc :: pcb_ptr
  term_in :: "u32 \<Rightarrow> nat \<Rightarrow> u32"
  term_ix :: nat
  term_out :: "(u32 \<times> u32) list"

type_synonym p1_stmt = "(p1_state, p1_state) stmt"

subsection \<open>The terminal\<close>

definition termstat :: "u32 \<Rightarrow> p1_state \<Rightarrow> u32 \<times> p1_state" where
  "termstat stataddr s = (term_in s stataddr (term_ix s) AND STATUSMASK, s\<lparr>term_ix := Suc (term_ix s)\<rparr>)"

definition put_command :: "u32 \<Rightarrow> u32 \<Rightarrow> p1_state \<Rightarrow> p1_state" where
  "put_command commandp cmd s = s\<lparr>term_out := (commandp, cmd) # term_out s\<rparr>"

text \<open>\<open>while (stat == BUSY) stat = termstat(statusp)\<close>; it ends when the terminal answers.\<close>

partial_function (option) wait_busy :: "p1_umps \<Rightarrow> u32 \<Rightarrow> u32 \<Rightarrow> p1_state \<Rightarrow> (u32 \<times> p1_state) option" where
  "wait_busy U statusp stat s =
     (if stat = BUSY U then wait_busy U statusp (fst (termstat statusp s)) (snd (termstat statusp s))
      else Some (stat, s))"

text \<open>The print cycle; the characters that are left are the list, which ends where \<open>*str == EOS\<close>.\<close>

fun print_cycle :: "p1_umps \<Rightarrow> u32 \<Rightarrow> u32 \<Rightarrow> string \<Rightarrow> p1_state \<Rightarrow> (bool \<times> p1_state) option" where
  "print_cycle U statusp commandp [] s = Some (False, s)"
| "print_cycle U statusp commandp (c # str) s = do {
     let cmd = push_bit CHAROFFSET (of_char c) OR P1_PRINTCHR;
     let s = put_command commandp cmd s;
     let (stat, s) = termstat statusp s;
     (stat, s) \<leftarrow> wait_busy U statusp stat s;
     if stat \<noteq> TRANSMITTED then Some (True, s)
     else print_cycle U statusp commandp str s
   }"

definition termprint :: "p1_umps \<Rightarrow> string \<Rightarrow> u32 \<Rightarrow> p1_state \<Rightarrow> (bool \<times> p1_state) option" where
  "termprint U str trm s =
     (if unat trm < DEVPERINT U then do {
        let statusp = TERM0ADDR + trm * DEVREGSIZE U + TRANSTATUS U * DEVREGLEN U;
        let commandp = TERM0ADDR + trm * DEVREGSIZE U + TRANCOMMAND U * DEVREGLEN U;
        let (stat, s) = termstat statusp s;
        if stat = READY U \<or> stat = TRANSMITTED then do {
          (error, s) \<leftarrow> print_cycle U statusp commandp str s;
          Some (\<not> error, s)
        } else Some (False, s)
      } else Some (False, s))"

text \<open>Copying a string with its terminator into a buffer of \<open>n\<close> characters.\<close>

fun copy_string :: "nat \<Rightarrow> string \<Rightarrow> nat \<Rightarrow> (nat \<Rightarrow> char) \<Rightarrow> (nat \<times> (nat \<Rightarrow> char)) option" where
  "copy_string n [] i b = (if i < n then Some (Suc i, b(i := CHR 0x00)) else None)"
| "copy_string n (c # str) i b = (if i < n then copy_string n str (Suc i) (b(i := c)) else None)"

definition addokbuf :: "p1_umps \<Rightarrow> string \<Rightarrow> p1_stmt" where
  "addokbuf U strp s = do {
     (mp, b) \<leftarrow> copy_string OKBUF_LEN strp (p1_mp s) (okbuf s);
     let s = s\<lparr>okbuf := b, p1_mp := mp\<rparr>;
     let s = s\<lparr>p1_mp := p1_mp s - 1\<rparr>;
     (r, s) \<leftarrow> termprint U strp 0 s;
     Some (Inr s)
   }"

definition adderrbuf :: "p1_umps \<Rightarrow> string \<Rightarrow> p1_stmt" where
  "adderrbuf U strp s = do {
     (ep, b) \<leftarrow> copy_string ERRBUF_LEN strp 0 (errbuf s);
     let s = s\<lparr>errbuf := b\<rparr>;
     (r, s) \<leftarrow> termprint U strp 0 s;
     Some (Inl s)
   }"

subsection \<open>Statements\<close>

text \<open>\<open>if (c) adderrbuf(msg)\<close>, where \<open>c\<close> may call and assign.\<close>

definition err_if :: "p1_umps \<Rightarrow> (p1_state \<Rightarrow> (bool \<times> p1_state) option) \<Rightarrow> string \<Rightarrow> p1_stmt" where
  "err_if U c msg s = do { (b, s) \<leftarrow> c s; if b then adderrbuf U msg s else Some (Inr s) }"

text \<open>The calls of the modules under test, with the results in the variables of the test.\<close>

definition alloc_q :: "p1_state \<Rightarrow> p1_state option" where
  "alloc_q s = do { (r, s) \<leftarrow> allocPcb s; Some (s\<lparr>p1_q := r\<rparr>) }"

definition alloc_procp :: "nat \<Rightarrow> p1_state \<Rightarrow> p1_state option" where
  "alloc_procp i s = do { (r, s) \<leftarrow> allocPcb s; Some (s\<lparr>procp := (procp s)(i := r)\<rparr>) }"

definition insert_qa :: "p1_state \<Rightarrow> p1_state option" where
  "insert_qa s = do { (tq, h) \<leftarrow> insertProcQ (p1_qa s) (p1_q s) (pcbs s); Some (s\<lparr>p1_qa := tq, pcbs := h\<rparr>) }"

definition remove_qa :: "p1_state \<Rightarrow> (pcb_ptr \<times> p1_state) option" where
  "remove_qa s = do { (r, tq, h) \<leftarrow> removeProcQ (p1_qa s) (pcbs s); Some (r, s\<lparr>p1_qa := tq, pcbs := h\<rparr>) }"

definition out_qa :: "pcb_ptr \<Rightarrow> p1_state \<Rightarrow> (pcb_ptr \<times> p1_state) option" where
  "out_qa x s = do { (r, tq, h) \<leftarrow> outProcQ (p1_qa s) x (pcbs s); Some (r, s\<lparr>p1_qa := tq, pcbs := h\<rparr>) }"

definition tree_call :: "(pcb_heap \<Rightarrow> (pcb_ptr \<times> pcb_heap) option) \<Rightarrow> p1_state \<Rightarrow> (pcb_ptr \<times> p1_state) option" where
  "tree_call f s = do { (r, h) \<leftarrow> f (pcbs s); Some (r, s\<lparr>pcbs := h\<rparr>) }"

text \<open>\<open>q = f(...)\<close>, \<open>(q = f(...)) == NULL\<close> and \<open>f(...) != NULL\<close> for a call \<open>f\<close> that returns a block.\<close>

definition set_q :: "(p1_state \<Rightarrow> (pcb_ptr \<times> p1_state) option) \<Rightarrow> p1_state \<Rightarrow> p1_state option" where
  "set_q f s = do { (r, s) \<leftarrow> f s; Some (s\<lparr>p1_q := r\<rparr>) }"

definition set_p :: "(p1_state \<Rightarrow> (pcb_ptr \<times> p1_state) option) \<Rightarrow> p1_state \<Rightarrow> p1_state option" where
  "set_p f s = do { (r, s) \<leftarrow> f s; Some (s\<lparr>p1_p := r\<rparr>) }"

definition q_is_null :: "(p1_state \<Rightarrow> (pcb_ptr \<times> p1_state) option) \<Rightarrow> p1_state \<Rightarrow> (bool \<times> p1_state) option" where
  "q_is_null f s = do { s \<leftarrow> set_q f s; Some (p1_q s = None, s) }"

definition not_null :: "(p1_state \<Rightarrow> (pcb_ptr \<times> p1_state) option) \<Rightarrow> p1_state \<Rightarrow> (bool \<times> p1_state) option" where
  "not_null f s = do { (r, s) \<leftarrow> f s; Some (r \<noteq> None, s) }"

definition test_that :: "(p1_state \<Rightarrow> bool) \<Rightarrow> p1_state \<Rightarrow> (bool \<times> p1_state) option" where
  "test_that c s = Some (c s, s)"

definition sem_at :: "p1_umps \<Rightarrow> nat \<Rightarrow> u32" where
  "sem_at U i = adr_sem U + 4 * of_nat i"

subsection \<open>main\<close>

text \<open>Allocation and release of process control blocks.\<close>

definition main_alloc :: "p1_umps \<Rightarrow> p1_stmt list" where
  "main_alloc U = [
     perform (\<lambda>s. Some (initPcbs s)),
     addokbuf U ''Initialized process control blocks   \<newline>'',
     for_loop 0 P1_MAXPROC (\<lambda>i. [
       err_if U (\<lambda>s. do { s \<leftarrow> alloc_procp i s; Some (procp s i = None, s) })
         ''allocPcb: unexpected NULL   '']),
     err_if U (not_null allocPcb) ''allocPcb: allocated more than MAXPROC entries   '',
     addokbuf U ''allocPcb ok   \<newline>'',
     for_loop 10 P1_MAXPROC (\<lambda>i. [perform (\<lambda>s. freePcb (procp s i) s)]),
     addokbuf U ''freed 10 entries   \<newline>'']"

text \<open>The process queues.\<close>

definition main_insert_body :: "p1_umps \<Rightarrow> nat \<Rightarrow> p1_stmt list" where
  "main_insert_body U i = [
     err_if U (\<lambda>s. do { s \<leftarrow> alloc_q s; Some (p1_q s = None, s) }) ''allocPcb: unexpected NULL while insert   '',
     perform (\<lambda>s. Some (if i = 0 then s\<lparr>firstproc := p1_q s\<rparr>
       else if i = 5 then s\<lparr>midproc := p1_q s\<rparr>
       else if i = 9 then s\<lparr>lastproc := p1_q s\<rparr> else s)),
     perform insert_qa]"

definition main_queues :: "p1_umps \<Rightarrow> p1_stmt list" where
  "main_queues U = [
     perform (\<lambda>s. Some (s\<lparr>p1_qa := None\<rparr>)),
     err_if U (test_that (\<lambda>s. \<not> emptyProcQ (p1_qa s))) ''emptyProcQ: unexpected FALSE   '',
     addokbuf U ''Inserting...   \<newline>'',
     for_loop 0 10 (main_insert_body U),
     addokbuf U ''inserted 10 elements   \<newline>'',
     err_if U (test_that (\<lambda>s. emptyProcQ (p1_qa s))) ''emptyProcQ: unexpected TRUE'',
     err_if U (\<lambda>s. do { r \<leftarrow> headProcQ (p1_qa s) (pcbs s); Some (r \<noteq> firstproc s, s) }) ''headProcQ failed   '',
     perform (\<lambda>s. set_q (out_qa (firstproc s)) s),
     err_if U (test_that (\<lambda>s. p1_q s = None \<or> p1_q s \<noteq> firstproc s)) ''outProcQ failed on first entry   '',
     perform (\<lambda>s. freePcb (p1_q s) s),
     perform (\<lambda>s. set_q (out_qa (midproc s)) s),
     err_if U (test_that (\<lambda>s. p1_q s = None \<or> p1_q s \<noteq> midproc s)) ''outProcQ failed on middle entry   '',
     perform (\<lambda>s. freePcb (p1_q s) s),
     err_if U (\<lambda>s. not_null (out_qa (procp s 0)) s) ''outProcQ failed on nonexistent entry   '',
     addokbuf U ''outProcQ ok   \<newline>'',
     addokbuf U ''Removing...   \<newline>'',
     for_loop 0 8 (\<lambda>i. [
       err_if U (q_is_null remove_qa) ''removeProcQ: unexpected NULL   '',
       perform (\<lambda>s. freePcb (p1_q s) s)]),
     err_if U (test_that (\<lambda>s. p1_q s \<noteq> lastproc s)) ''removeProcQ: failed on last entry   '',
     err_if U (not_null remove_qa) ''removeProcQ: removes too many entries   '',
     err_if U (test_that (\<lambda>s. \<not> emptyProcQ (p1_qa s))) ''emptyProcQ: unexpected FALSE   '',
     addokbuf U ''insertProcQ, removeProcQ and emptyProcQ ok   \<newline>'',
     addokbuf U ''process queues module ok      \<newline>'']"

text \<open>The process trees.\<close>

definition main_trees :: "p1_umps \<Rightarrow> p1_stmt list" where
  "main_trees U = [
     addokbuf U ''checking process trees...\<newline>'',
     err_if U (\<lambda>s. do { e \<leftarrow> emptyChild (procp s 2) (pcbs s); Some (\<not> e, s) }) ''emptyChild: unexpected FALSE   '',
     addokbuf U ''Inserting...   \<newline>'',
     for_loop 1 10 (\<lambda>i. [perform (\<lambda>s. do { h \<leftarrow> insertChild (procp s 0) (procp s i) (pcbs s); Some (s\<lparr>pcbs := h\<rparr>) })]),
     addokbuf U ''Inserted 9 children   \<newline>'',
     err_if U (\<lambda>s. do { e \<leftarrow> emptyChild (procp s 0) (pcbs s); Some (e, s) }) ''emptyChild: unexpected TRUE   '',
     perform (\<lambda>s. set_q (tree_call (outChild (procp s 1))) s),
     err_if U (test_that (\<lambda>s. p1_q s = None \<or> p1_q s \<noteq> procp s 1)) ''outChild failed on first child   '',
     perform (\<lambda>s. set_q (tree_call (outChild (procp s 4))) s),
     err_if U (test_that (\<lambda>s. p1_q s = None \<or> p1_q s \<noteq> procp s 4)) ''outChild failed on middle child   '',
     err_if U (\<lambda>s. not_null (tree_call (outChild (procp s 0))) s) ''outChild failed on nonexistent child   '',
     addokbuf U ''outChild ok   \<newline>'',
     addokbuf U ''Removing...   \<newline>'',
     for_loop 0 7 (\<lambda>i. [
       err_if U (\<lambda>s. q_is_null (tree_call (removeChild (procp s 0))) s) ''removeChild: unexpected NULL   '']),
     err_if U (\<lambda>s. not_null (tree_call (removeChild (procp s 0))) s) ''removeChild: removes too many children   '',
     err_if U (\<lambda>s. do { e \<leftarrow> emptyChild (procp s 0) (pcbs s); Some (\<not> e, s) }) ''emptyChild: unexpected FALSE   '',
     addokbuf U ''insertChild, removeChild and emptyChild ok   \<newline>'',
     addokbuf U ''process tree module ok      \<newline>'',
     for_loop 0 10 (\<lambda>i. [perform (\<lambda>s. freePcb (procp s i) s)])]"

text \<open>The active semaphore list, up to the check that the descriptors run out.\<close>

definition main_asl_fill :: "p1_umps \<Rightarrow> p1_stmt list" where
  "main_asl_fill U = [
     perform (\<lambda>s. Some (initASL s)),
     addokbuf U ''Initialized active semaphore list   \<newline>'',
     addokbuf U ''insertBlocked test #1 started  \<newline>'',
     for_loop 10 P1_MAXPROC (\<lambda>i. [
       perform (alloc_procp i),
       err_if U (\<lambda>s. insertBlocked (sem_at U i) (procp s i) s) ''insertBlocked(1): unexpected TRUE   '']),
     addokbuf U ''insertBlocked test #2 started  \<newline>'',
     for_loop 0 10 (\<lambda>i. [
       perform (alloc_procp i),
       err_if U (\<lambda>s. insertBlocked (sem_at U i) (procp s i) s) ''insertBlocked(2): unexpected TRUE   '']),
     perform (set_p (removeBlocked (sem_at U 11))),
     err_if U (\<lambda>s. insertBlocked (sem_at U 11) (p1_p s) s) ''removeBlocked: fails to return to free list   '',
     err_if U (\<lambda>s. do { (r, s) \<leftarrow> insertBlocked (adr_onesem U) (procp s 9) s; Some (r = False, s) })
       ''insertBlocked: inserted more than MAXPROC   '']"

text \<open>The rest: removal, the heads of the queues, removal from the middle.\<close>

definition main_asl_drain :: "p1_umps \<Rightarrow> p1_stmt list" where
  "main_asl_drain U = [
     addokbuf U ''removeBlocked test started   \<newline>'',
     for_loop 10 P1_MAXPROC (\<lambda>i. [
       perform (set_q (removeBlocked (sem_at U i))),
       err_if U (test_that (\<lambda>s. p1_q s = None)) ''removeBlocked: wouldn't remove   '',
       err_if U (test_that (\<lambda>s. p1_q s \<noteq> procp s i)) ''removeBlocked: removed wrong element   '',
       err_if U (\<lambda>s. insertBlocked (sem_at U (i - 10)) (p1_q s) s) ''insertBlocked(3): unexpected TRUE   '']),
     err_if U (not_null (removeBlocked (sem_at U 11))) ''removeBlocked: removed nonexistent blocked proc   '',
     addokbuf U ''insertBlocked and removeBlocked ok   \<newline>'',
     err_if U (\<lambda>s. do { r \<leftarrow> headBlocked (sem_at U 11) s; Some (r \<noteq> None, s) })
       ''headBlocked: nonNULL for a nonexistent queue   '',
     err_if U (\<lambda>s. do { r \<leftarrow> headBlocked (sem_at U 9) s; let s = s\<lparr>p1_q := r\<rparr>; Some (r = None, s) })
       ''headBlocked(1): NULL for an existent queue   '',
     err_if U (test_that (\<lambda>s. p1_q s \<noteq> procp s 9)) ''headBlocked(1): wrong process returned   '',
     perform (\<lambda>s. set_p (outBlocked (p1_q s)) s),
     err_if U (test_that (\<lambda>s. p1_p s \<noteq> p1_q s)) ''outBlocked(1): couldn't remove from valid queue   '',
     perform (\<lambda>s. do { r \<leftarrow> headBlocked (sem_at U 9) s; Some (s\<lparr>p1_q := r\<rparr>) }),
     err_if U (test_that (\<lambda>s. p1_q s = None)) ''headBlocked(2): NULL for an existent queue   '',
     err_if U (test_that (\<lambda>s. p1_q s \<noteq> procp s 19)) ''headBlocked(2): wrong process returned   '',
     perform (\<lambda>s. set_p (outBlocked (p1_q s)) s),
     err_if U (test_that (\<lambda>s. p1_p s \<noteq> p1_q s)) ''outBlocked(2): couldn't remove from valid queue   '',
     perform (\<lambda>s. set_p (outBlocked (p1_q s)) s),
     err_if U (test_that (\<lambda>s. p1_p s \<noteq> None)) ''outBlocked: removed same process twice.'',
     err_if U (\<lambda>s. do { r \<leftarrow> headBlocked (sem_at U 9) s; Some (r \<noteq> None, s) })
       ''out/headBlocked: unexpected nonempty queue   '',
     addokbuf U ''headBlocked and outBlocked ok   \<newline>'',
     addokbuf U ''ASL module ok   \<newline>'',
     addokbuf U ''So Long and Thanks for All the Fish\<newline>'']"

definition p1_main :: "p1_umps \<Rightarrow> p1_stmt" where
  "p1_main U = block (main_alloc U @ main_queues U @ main_trees U @ main_asl_fill U @ main_asl_drain U)"

end
