(* ===== verification/P1_Props.thy ===== *)
theory P1_Props
  imports P1_Test
begin

text \<open>
  What the phase 1 test finds on this kernel.  \<open>stops c msg s\<close> says that a statement ends in
  \<open>PANIC()\<close> with the message in \<open>errbuf\<close>.  The rules below are for the statements of the
  test; the modules under test enter through the lemmas by which they implement their lists.
\<close>

subsection \<open>Running a block\<close>

text \<open>A buffer holds a string with its terminator.\<close>

definition holds_string :: "(nat \<Rightarrow> char) \<Rightarrow> nat \<Rightarrow> string \<Rightarrow> bool" where
  "holds_string b i str \<longleftrightarrow> (\<forall>j < length str. b (i + j) = str ! j) \<and> b (i + length str) = CHR 0x00"

abbreviation stops :: "p1_stmt \<Rightarrow> string \<Rightarrow> p1_state \<Rightarrow> bool" where
  "stops c msg s \<equiv> ends c s (\<lambda>s'. holds_string (errbuf s') 0 msg)"

lemma runs_err_if: "c s = Some (False, s') \<Longrightarrow> Q s' \<Longrightarrow> runs (err_if U c msg) s Q"
  by (simp add: runs_def err_if_def)

subsection \<open>The terminal\<close>

text \<open>The terminal is not busy for ever.\<close>

definition answers :: "p1_umps \<Rightarrow> p1_state \<Rightarrow> bool" where
  "answers U s \<longleftrightarrow> (\<forall>a n. \<exists>m\<ge>n. term_in s a m AND STATUSMASK \<noteq> BUSY U)"

text \<open>Only the position of the terminal changes.\<close>

definition term_only :: "p1_state \<Rightarrow> p1_state \<Rightarrow> bool" where
  "term_only s s' \<longleftrightarrow> s'\<lparr>term_ix := 0, term_out := []\<rparr> = s\<lparr>term_ix := 0, term_out := []\<rparr>"

lemma term_only_refl [simp]: "term_only s s"
  by (simp add: term_only_def)

lemma term_only_trans: "term_only s s' \<Longrightarrow> term_only s' s'' \<Longrightarrow> term_only s s''"
  by (simp add: term_only_def)

lemma term_only_steps [simp]:
  "term_only s (snd (termstat a s))" "term_only s (put_command a c s)" "term_only s (s\<lparr>term_ix := i\<rparr>)"
  by (simp_all add: term_only_def termstat_def put_command_def)

lemma term_onlyD:
  assumes "term_only s s'"
  shows "term_in s' = term_in s" "okbuf s' = okbuf s" "errbuf s' = errbuf s" "p1_mp s' = p1_mp s"
  using arg_cong [OF assms [unfolded term_only_def], of term_in] arg_cong [OF assms [unfolded term_only_def], of okbuf]
    arg_cong [OF assms [unfolded term_only_def], of errbuf] arg_cong [OF assms [unfolded term_only_def], of p1_mp]
  by simp_all

lemma term_only_answers: "term_only s s' \<Longrightarrow> answers U s' = answers U s"
  by (simp add: answers_def term_onlyD)

lemma wait_busy_ends:
  assumes "answers U s"
  shows "\<exists>st s'. wait_busy U a stat s = Some (st, s') \<and> st \<noteq> BUSY U \<and> term_only s s'"
proof -
  obtain m where "m \<ge> term_ix s" "term_in s a m AND STATUSMASK \<noteq> BUSY U"
    using assms unfolding answers_def by blast
  then show ?thesis
  proof (induction "m - term_ix s" arbitrary: s stat)
    case 0
    then have "m = term_ix s" by simp
    with 0(3) show ?case
      by (cases "stat = BUSY U")
        (simp_all add: wait_busy.simps [of U a stat s] wait_busy.simps [of U a "fst (termstat a s)"],
         auto simp: termstat_def wait_busy.simps)
  next
    case (Suc k)
    let ?s = "snd (termstat a s)"
    have "k = m - term_ix ?s" "term_ix ?s \<le> m" "term_in ?s a m AND STATUSMASK \<noteq> BUSY U"
      using Suc.hyps(2) Suc.prems by (simp_all add: termstat_def)
    from Suc.hyps(1) [OF this] obtain st s' where
      "wait_busy U a (fst (termstat a s)) ?s = Some (st, s')" "st \<noteq> BUSY U" "term_only s s'"
      using term_only_trans [OF term_only_steps(1)] by blast
    moreover from this(2) have "\<exists>st s'. Some (stat, s) = Some (st, s') \<and> st \<noteq> BUSY U \<and> term_only s s'" if "stat \<noteq> BUSY U"
      using that by simp
    ultimately show ?case unfolding wait_busy.simps [of U a stat s] by (cases "stat = BUSY U") auto
  qed
qed

lemma print_cycle_ends:
  assumes "answers U s"
  shows "\<exists>e s'. print_cycle U sp cp str s = Some (e, s') \<and> term_only s s'"
  using assms
proof (induction str arbitrary: s)
  case Nil
  then show ?case using term_only_refl by auto
next
  case (Cons c str)
  let ?s1 = "put_command cp (push_bit CHAROFFSET (of_char c) OR P1_PRINTCHR) s"
  let ?s2 = "snd (termstat sp ?s1)"
  have t2: "term_only s ?s2" by (rule term_only_trans [OF term_only_steps(2,1)])
  then have "answers U ?s2" using Cons.prems by (simp add: term_only_answers)
  from wait_busy_ends [OF this] obtain st s3 where
    s3: "wait_busy U sp (fst (termstat sp ?s1)) ?s2 = Some (st, s3)" "term_only ?s2 s3" by blast
  have t3: "term_only s s3" by (rule term_only_trans [OF t2 s3(2)])
  then have "answers U s3" using Cons.prems by (simp add: term_only_answers)
  from Cons.IH [OF this] obtain e s4 where s4: "print_cycle U sp cp str s3 = Some (e, s4)" "term_only s3 s4" by blast
  show ?case using s3(1) s4(1) t3 term_only_trans [OF t3 s4(2)]
    by (cases "st = TRANSMITTED") (auto simp: Let_def split_beta)
qed

lemma termprint_ends:
  assumes "answers U s"
  shows "\<exists>r s'. termprint U str t s = Some (r, s') \<and> term_only s s'"
proof -
  let ?sp = "TERM0ADDR + t * DEVREGSIZE U + TRANSTATUS U * DEVREGLEN U"
  let ?cp = "TERM0ADDR + t * DEVREGSIZE U + TRANCOMMAND U * DEVREGLEN U"
  let ?s1 = "snd (termstat ?sp s)"
  have "answers U ?s1" using assms term_only_answers [OF term_only_steps(1)] by simp
  from print_cycle_ends [OF this] obtain e s2 where s2: "print_cycle U ?sp ?cp str ?s1 = Some (e, s2)" "term_only ?s1 s2"
    by blast
  have "term_only s s2" by (rule term_only_trans [OF term_only_steps(1) s2(2)])
  with s2(1) show ?thesis unfolding termprint_def Let_def split_beta
    by (cases "unat t < DEVPERINT U") (auto intro: exI [of _ s])
qed

text \<open>The message buffers.\<close>

lemma copy_string_fits:
  "i + length str < n \<Longrightarrow> \<exists>b'. copy_string n str i b = Some (Suc (i + length str), b') \<and> holds_string b' i str \<and>
     (\<forall>j < i. b' j = b j)"
proof (induction str arbitrary: i b)
  case (Cons c str)
  have "Suc i + length str < n" using Cons.prems by simp
  from Cons.IH [OF this, of "b(i := c)"] obtain b' where
    b': "copy_string n str (Suc i) (b(i := c)) = Some (Suc (Suc i + length str), b')" "holds_string b' (Suc i) str"
    "\<forall>j < Suc i. b' j = (b(i := c)) j" by blast
  have "b' (i + j) = (c # str) ! j" if "j < Suc (length str)" for j
    using b'(2,3) that by (cases j) (auto simp: holds_string_def)
  then have "holds_string b' i (c # str)" using b'(2) by (simp add: holds_string_def)
  then show ?case using b'(1,3) Cons.prems by auto
qed (simp add: holds_string_def)

text \<open>\<open>prints U n s\<close>: the terminal answers and the buffer has room for \<open>n\<close> more characters.\<close>

definition prints :: "p1_umps \<Rightarrow> nat \<Rightarrow> p1_state \<Rightarrow> bool" where
  "prints U n s \<longleftrightarrow> answers U s \<and> p1_mp s + n < OKBUF_LEN"

definition io_only :: "p1_state \<Rightarrow> p1_state \<Rightarrow> bool" where
  "io_only s s' \<longleftrightarrow> s'\<lparr>okbuf := okbuf s, p1_mp := 0, term_ix := 0, term_out := []\<rparr> =
     s\<lparr>p1_mp := 0, term_ix := 0, term_out := []\<rparr>"

lemma io_onlyD:
  assumes "io_only s s'"
  shows "pcbs s' = pcbs s" "pcbFree_h s' = pcbFree_h s" "processCount s' = processCount s" "procp s' = procp s"
    "p1_p s' = p1_p s" "p1_qa s' = p1_qa s" "p1_q s' = p1_q s" "firstproc s' = firstproc s" "lastproc s' = lastproc s"
    "midproc s' = midproc s" "semd_table s' = semd_table s" "semdFree_h s' = semdFree_h s" "semd_h s' = semd_h s"
    "errbuf s' = errbuf s" "term_in s' = term_in s"
proof -
  show "pcbs s' = pcbs s" "pcbFree_h s' = pcbFree_h s" "processCount s' = processCount s" "procp s' = procp s"
    "p1_p s' = p1_p s" "p1_qa s' = p1_qa s" "p1_q s' = p1_q s" "firstproc s' = firstproc s" "lastproc s' = lastproc s"
    "midproc s' = midproc s" "semd_table s' = semd_table s" "semdFree_h s' = semdFree_h s" "semd_h s' = semd_h s"
    "errbuf s' = errbuf s" "term_in s' = term_in s"
    using assms unfolding io_only_def by (cases s; cases s'; simp)+
qed

lemma runs_addokbuf:
  assumes p: "prints U n s" and n: "length msg \<le> n"
    and Q: "\<And>s'. io_only s s' \<Longrightarrow> prints U (n - length msg) s' \<Longrightarrow> Q s'"
  shows "runs (addokbuf U msg) s Q"
proof -
  have "p1_mp s + length msg < OKBUF_LEN" using p n by (simp add: prints_def)
  then obtain b where b: "copy_string OKBUF_LEN msg (p1_mp s) (okbuf s) = Some (Suc (p1_mp s + length msg), b)"
    using copy_string_fits by blast
  let ?s1 = "s\<lparr>okbuf := b, p1_mp := p1_mp s + length msg\<rparr>"
  have "answers U ?s1" using p by (simp add: prints_def answers_def)
  from termprint_ends [OF this] obtain r s' where s': "termprint U msg 0 ?s1 = Some (r, s')" "term_only ?s1 s'" by blast
  have "addokbuf U msg s = Some (Inr s')" using b s'(1) by (simp add: addokbuf_def)
  moreover have "io_only s s'" using s'(2) by (cases s; cases s') (simp add: term_only_def io_only_def)
  moreover have "prints U (n - length msg) s'"
    using term_onlyD [OF s'(2)] p n by (simp add: prints_def answers_def)
  ultimately show ?thesis using Q by (simp add: runs_def)
qed

lemma stops_err_if:
  assumes "c s = Some (True, s')" and "answers U s'" and "length msg < ERRBUF_LEN"
  shows "stops (err_if U c msg) msg s"
proof -
  obtain b where b: "copy_string ERRBUF_LEN msg 0 (errbuf s') = Some (Suc (0 + length msg), b)" "holds_string b 0 msg"
    using copy_string_fits [of 0 msg ERRBUF_LEN "errbuf s'"] assms(3) by auto
  have "answers U (s'\<lparr>errbuf := b\<rparr>)" using assms(2) by (simp add: answers_def)
  from termprint_ends [OF this] obtain r s'' where
    s'': "termprint U msg 0 (s'\<lparr>errbuf := b\<rparr>) = Some (r, s'')" "term_only (s'\<lparr>errbuf := b\<rparr>) s''" by blast
  then have "err_if U c msg s = Some (Inl s'')" using assms(1) b(1) by (simp add: err_if_def adderrbuf_def)
  moreover have "holds_string (errbuf s'') 0 msg" using term_onlyD [OF s''(2)] b(2) by simp
  ultimately show ?thesis by (auto simp: ends_def)
qed

lemma prints_upd [simp]:
  "prints U n (s\<lparr>pcbs := h\<rparr>) = prints U n s" "prints U n (s\<lparr>pcbFree_h := f\<rparr>) = prints U n s"
  "prints U n (s\<lparr>processCount := c\<rparr>) = prints U n s" "prints U n (s\<lparr>procp := x\<rparr>) = prints U n s"
  "prints U n (s\<lparr>p1_p := a\<rparr>) = prints U n s" "prints U n (s\<lparr>p1_q := a\<rparr>) = prints U n s"
  "prints U n (s\<lparr>p1_qa := a\<rparr>) = prints U n s" "prints U n (s\<lparr>firstproc := a\<rparr>) = prints U n s"
  "prints U n (s\<lparr>lastproc := a\<rparr>) = prints U n s" "prints U n (s\<lparr>midproc := a\<rparr>) = prints U n s"
  "prints U n (s\<lparr>semd_table := sm\<rparr>) = prints U n s" "prints U n (s\<lparr>semdFree_h := sf\<rparr>) = prints U n s"
  "prints U n (s\<lparr>semd_h := sf\<rparr>) = prints U n s"
  by (simp_all add: prints_def answers_def)

lemma prints_mono: "prints U n s \<Longrightarrow> m \<le> n \<Longrightarrow> prints U m s"
  by (simp add: prints_def)

lemma free_list_vars [simp]:
  "free_list (s\<lparr>procp := x\<rparr>) fs = free_list s fs" "free_list (s\<lparr>p1_q := a\<rparr>) fs = free_list s fs"
  "free_list (s\<lparr>p1_p := a\<rparr>) fs = free_list s fs" "free_list (s\<lparr>p1_qa := a\<rparr>) fs = free_list s fs"
  "free_list (s\<lparr>firstproc := a\<rparr>) fs = free_list s fs" "free_list (s\<lparr>midproc := a\<rparr>) fs = free_list s fs"
  "free_list (s\<lparr>lastproc := a\<rparr>) fs = free_list s fs"
  by (simp_all add: free_list_def)

text \<open>The state of the blocks of \<open>procp\<close> before the trees are built.\<close>

definition unrelated :: "pcb_heap \<Rightarrow> nat \<Rightarrow> bool" where
  "unrelated h x \<longleftrightarrow> p_prnt (h x) = None \<and> p_child (h x) = None"

subsection \<open>Concrete runs\<close>

text \<open>A placement of the test in memory, a terminal that always answers, and zeroed variables.\<close>

definition p1_umps3 :: p1_umps where
  "p1_umps3 = umps.extend umps3 \<lparr>BUSY = 3, DEVREGSIZE = 16, DEVREGLEN = 4, TRANSTATUS = 2, TRANCOMMAND = 3,
     adr_sem = 0x20010000, adr_onesem = 0x20020000\<rparr>"

definition p1_start :: p1_state where
  "p1_start = \<lparr>pcbs = (\<lambda>_. zero_pcb), pcbFree_h = None, processCount = 0, semd_table = (\<lambda>_. zero_semd),
     semdFree_h = None, semd_h = None, okbuf = (\<lambda>_. CHR 0x00), errbuf = (\<lambda>_. CHR 0x00), p1_mp = 0,
     procp = (\<lambda>_. None), p1_p = None, p1_qa = None, p1_q = None, firstproc = None, lastproc = None, midproc = None,
     term_in = (\<lambda>_ _. 5), term_ix = 0, term_out = []\<rparr>"

lemma p1_start_answers: "answers p1_umps3 p1_start"
  by (auto simp: answers_def p1_start_def p1_umps3_def umps.extend_def umps3_def STATUSMASK_def)

lemma p1_start_prints: "n < 2048 \<Longrightarrow> prints p1_umps3 n (initPcbs p1_start)"
  using p1_start_answers by (simp add: prints_def answers_def initPcbs_def OKBUF_LEN_def p1_start_def)

lemma alloc_prefix:
  assumes "free_list s (as @ fs)" "prints U n s"
  shows "\<exists>s'. alloc_many allocPcb (length as) s = Some (map Some as, s') \<and> free_list s' fs \<and> prints U n s' \<and>
     (\<forall>x \<in> set as. unrelated (pcbs s') x) \<and> (\<forall>x. x \<notin> set (as @ fs) \<longrightarrow> pcbs s' x = pcbs s x)"
  using assms
proof (induction as arbitrary: s)
  case (Cons p as)
  let ?s = "\<lambda>h. s\<lparr>pcbFree_h := head_ptr (as @ fs), pcbs := h, processCount := processCount s + 1\<rparr>"
  obtain h where h: "allocPcb s = Some (Some p, ?s h)" "free_list (?s h) (as @ fs)" "h p = reset_pcb (pcbs s p)"
    "\<forall>x. x \<notin> set (p # as @ fs) \<longrightarrow> h x = pcbs s x"
    using allocPcb_refines [of s p "as @ fs"] Cons.prems(1) by auto
  have new: "p \<notin> set (as @ fs)" using Cons.prems(1) by (simp add: free_list_def)
  obtain s' where s': "alloc_many allocPcb (length as) (?s h) = Some (map Some as, s')" "free_list s' fs" "prints U n s'"
    "\<forall>x \<in> set as. unrelated (pcbs s') x" "\<forall>x. x \<notin> set (as @ fs) \<longrightarrow> pcbs s' x = h x"
    using Cons.IH [OF h(2)] Cons.prems(2) by auto
  have "pcbs s' p = reset_pcb (pcbs s p)" using s'(5) new h(3) by simp
  then have "unrelated (pcbs s') p" by (simp add: unrelated_def)
  moreover have "\<forall>x. x \<notin> set ((p # as) @ fs) \<longrightarrow> pcbs s' x = pcbs s x" using s'(5) h(4) by simp
  ultimately show ?case using h(1) s'(1-4) by (intro exI [of _ s']) simp
qed simp

text \<open>Ten blocks of the initialised table allocated, the other thirty free.\<close>

lemma p1_ten: "\<exists>s. alloc_many allocPcb 10 (initPcbs p1_start) = Some (map Some [0..<10], s) \<and>
    free_list s ([10..<20] @ [20..<MAXPROC]) \<and> prints p1_umps3 300 s \<and> (\<forall>x \<in> set [0..<10]. unrelated (pcbs s) x)"
proof -
  have "[0..<MAXPROC] = [0..<10] @ [10..<20] @ [20..<MAXPROC]"
    using upt_add_eq_append [of 0 10 30] upt_add_eq_append [of 10 20 20] by (simp add: MAXPROC_def del: upt_rec_numeral)
  then have "free_list (initPcbs p1_start) ([0..<10] @ [10..<20] @ [20..<MAXPROC])" using initPcbs_free_list [of p1_start] by simp
  from alloc_prefix [OF this p1_start_prints [of 300]] show ?thesis by (auto simp del: upt_rec_numeral)
qed

lemma p1_twenty: "free_list (initPcbs p1_start) ([0..<20] @ [20..<MAXPROC])"
  using initPcbs_free_list [of p1_start] upt_add_eq_append [of 0 20 20] by (simp add: MAXPROC_def del: upt_rec_numeral)

end
