(* ===== verification/P1_Queues.thy ===== *)
theory P1_Queues
  imports P1_Props
begin

text \<open>
  The phase 1 test on the models of \<open>pcb.c\<close>: its check of the allocation, at which it stops on this
  kernel, and its section on the process queues, which finds no error.
\<close>

subsection \<open>Allocation\<close>

text \<open>
  C36: On this kernel the phase 1 test never gets past the allocation.  It defines MAXPROC as
  20 for itself while the kernel has 40 process control blocks: after the 20 allocations
  there are free blocks left, and main stops in PANIC with that message in errbuf.
\<close>

theorem p1_main_stops:
  assumes "answers U s" "p1_mp s = 0"
  shows "stops (p1_main U) ''allocPcb: allocated more than MAXPROC entries   '' s"
proof -
  let ?I = "\<lambda>i s. prints U 2000 s \<and> free_list s [i..<MAXPROC]"
  have p0: "prints U 2047 (initPcbs s)" using assms by (simp add: prints_def answers_def initPcbs_def OKBUF_LEN_def)
  have step: "runs (block [err_if U (\<lambda>s. do { s \<leftarrow> alloc_procp i s; Some (procp s i = None, s) }) m]) s (?I (Suc i))"
    if I: "?I i s" and i: "i < P1_MAXPROC" for i s m
  proof -
    have c: "[i..<MAXPROC] = i # [Suc i..<MAXPROC]" using i by (simp add: upt_conv_Cons P1_MAXPROC_def MAXPROC_def)
    obtain h where h: "allocPcb s = Some (Some i, s\<lparr>pcbFree_h := head_ptr [Suc i..<MAXPROC], pcbs := h, processCount := processCount s + 1\<rparr>)"
      "free_list (s\<lparr>pcbFree_h := head_ptr [Suc i..<MAXPROC], pcbs := h, processCount := processCount s + 1\<rparr>) [Suc i..<MAXPROC]"
      using allocPcb_refines [OF conjunct2 [OF I, unfolded c]] by blast
    let ?s = "s\<lparr>pcbFree_h := head_ptr [Suc i..<MAXPROC], pcbs := h, processCount := processCount s + 1, procp := (procp s)(i := Some i)\<rparr>"
    have "?I (Suc i) ?s" using h(2) I by simp
    moreover have "do { s \<leftarrow> alloc_procp i s; Some (procp s i = None, s) } = Some (False, ?s)" using h(1) by (simp add: alloc_procp_def)
    ultimately show ?thesis by (intro runs_Cons runs_err_if runs_Nil)
  qed
  show ?thesis unfolding p1_main_def main_alloc_def
    apply (rule ends_before, rule ends_Cons, rule runs_perform, rule refl)
    apply (rule ends_Cons, rule runs_addokbuf [OF p0], simp)
    apply (rule ends_Cons, rule runs_for [where I = ?I])
       apply (simp add: prints_def free_list_def io_onlyD)
    subgoal for s'
      using initPcbs_free_list [of s] by (auto simp: free_list_def io_onlyD prints_def)
      apply (simp add: P1_MAXPROC_def)
     apply (rule step, simp_all)
    apply (rule ends_here)
    subgoal for s1 s2
    proof -
      assume I: "prints U 2000 s2 \<and> free_list s2 [P1_MAXPROC..<MAXPROC]"
      have c: "[P1_MAXPROC..<MAXPROC] = 20 # [21..<MAXPROC]" by (simp add: upt_conv_Cons P1_MAXPROC_def MAXPROC_def)
      obtain h where "allocPcb s2 = Some (Some 20, s2\<lparr>pcbFree_h := head_ptr [21..<MAXPROC], pcbs := h, processCount := processCount s2 + 1\<rparr>)"
        using allocPcb_refines [OF conjunct2 [OF I, unfolded c]] by blast
      then show ?thesis using I by (intro stops_err_if) (auto simp: not_null_def prints_def answers_def ERRBUF_LEN_def)
    qed
    done
qed

theorem p1_main_stops_witness:
  "\<exists>s'. p1_main p1_umps3 p1_start = Some (Inl s') \<and>
     holds_string (errbuf s') 0 ''allocPcb: allocated more than MAXPROC entries   ''"
  using p1_main_stops [OF p1_start_answers] unfolding ends_def by (simp add: p1_start_def)

subsection \<open>The queues\<close>

text \<open>
  \<open>qview V n fs xs s\<close>: the free blocks are \<open>fs\<close>, the queue under test is \<open>xs\<close>, and the
  blocks outside \<open>D\<close> and the array \<open>procp\<close> are as they were.
\<close>

type_synonym p1_frame = "p1_umps \<times> nat set \<times> pcb_heap \<times> (nat \<Rightarrow> pcb_ptr)"

fun qview :: "p1_frame \<Rightarrow> nat \<Rightarrow> nat list \<Rightarrow> nat list \<Rightarrow> p1_state \<Rightarrow> bool" where
  "qview (U, D, h0, pr) n fs xs s \<longleftrightarrow> prints U n s \<and> free_list s fs \<and> procq (pcbs s) (p1_qa s) xs \<and>
     distinct (fs @ xs) \<and> set (fs @ xs) \<subseteq> D \<and> (\<forall>x. x \<notin> D \<longrightarrow> pcbs s x = h0 x) \<and> procp s = pr"

definition marks :: "p1_state \<Rightarrow> pcb_ptr \<times> pcb_ptr \<times> pcb_ptr" where
  "marks s = (firstproc s, midproc s, lastproc s)"

lemma qview_io:
  assumes "qview (U, D, h0, pr) n fs xs s" "io_only s s'" "prints U n' s'"
  shows "qview (U, D, h0, pr) n' fs xs s' \<and> marks s' = marks s \<and> p1_q s' = p1_q s"
  using assms by (simp add: io_onlyD [OF assms(2)] marks_def free_list_def)

lemma qview_print:
  assumes q: "qview (U, D, h0, pr) n fs xs s" and l: "length msg \<le> n"
    and Q: "\<And>s'. qview (U, D, h0, pr) (n - length msg) fs xs s' \<Longrightarrow> marks s' = marks s \<Longrightarrow> p1_q s' = p1_q s \<Longrightarrow> Q s'"
  shows "runs (addokbuf U msg) s Q"
  by (rule runs_addokbuf [OF _ l, of U s]) (use q qview_io [OF q] Q in auto)

lemma qview_alloc:
  assumes "qview (U, D, h0, pr) n (p # fs) xs s"
  shows "\<exists>s'. alloc_q s = Some s' \<and> qview (U, D, h0, pr) n fs xs s' \<and> marks s' = marks s \<and> p1_q s' = Some p"
proof -
  let ?s = "\<lambda>h. s\<lparr>pcbFree_h := head_ptr fs, pcbs := h, processCount := processCount s + 1\<rparr>"
  obtain h where h: "allocPcb s = Some (Some p, ?s h)" "free_list (?s h) fs" "\<forall>x. x \<notin> set (p # fs) \<longrightarrow> h x = pcbs s x"
    using allocPcb_refines [of s p fs] assms by auto
  have "procq h (p1_qa s) xs" by (rule procq_frame [where h = "pcbs s"]) (use assms h(3) in auto)
  moreover have "h x = h0 x" if "x \<notin> D" for x using that assms h(3) by auto
  ultimately show ?thesis using assms h(1,2) by (auto simp: alloc_q_def marks_def)
qed

lemma qview_free:
  assumes "qview (U, D, h0, pr) n fs xs s" "p \<in> D" "p \<notin> set (fs @ xs)"
  shows "\<exists>s'. freePcb (Some p) s = Some s' \<and> qview (U, D, h0, pr) n (fs @ [p]) xs s' \<and> marks s' = marks s \<and> p1_q s' = p1_q s"
proof -
  let ?s = "\<lambda>h. s\<lparr>pcbFree_h := head_ptr (fs @ [p]), pcbs := h, processCount := processCount s - 1\<rparr>"
  obtain h where h: "freePcb (Some p) s = Some (?s h)" "free_list (?s h) (fs @ [p])" "links_only (pcbs s) h (insert p (set fs))"
    using freePcb_refines [of s fs p] assms by auto
  have "procq h (p1_qa s) xs" by (rule procq_links_only [OF _ h(3)]) (use assms in auto)
  moreover have "h x = h0 x" if "x \<notin> D" for x using that assms links_only_outside [OF h(3), of x] by auto
  ultimately show ?thesis using assms h(1,2) by (auto simp: marks_def)
qed

lemma qview_queue_step:
  assumes "qview (U, D, h0, pr) n fs xs s" and "procq h tq ys" "links_only (pcbs s) h S" "S \<subseteq> D" "set fs \<inter> S = {}"
    and "set ys \<subseteq> D" "set ys \<inter> set fs = {}"
  shows "qview (U, D, h0, pr) n fs ys (s\<lparr>p1_qa := tq, pcbs := h\<rparr>)"
proof -
  have "free_list (s\<lparr>p1_qa := tq, pcbs := h\<rparr>) fs"
    by (rule free_list_links_only [where s = s and S = S]) (use assms in auto)
  moreover have "h x = h0 x" if "x \<notin> D" for x
    using that assms(1,4) links_only_outside [OF assms(3), of x] by auto
  ultimately show ?thesis using assms by (auto simp: procq_def)
qed

lemma qview_insert:
  assumes q: "qview (U, D, h0, pr) n fs xs s" and p: "p1_q s = Some p" "p \<in> D" "p \<notin> set (fs @ xs)"
  shows "\<exists>s'. insert_qa s = Some s' \<and> qview (U, D, h0, pr) n fs (xs @ [p]) s' \<and> marks s' = marks s \<and> p1_q s' = Some p"
proof -
  obtain h where h: "insertProcQ (p1_qa s) (Some p) (pcbs s) = Some (Some p, h)" "procq h (Some p) (xs @ [p])"
    "links_only (pcbs s) h (insert p (set xs))"
    using insertProcQ_refines [of "pcbs s" "p1_qa s" xs p] q p by auto
  have "qview (U, D, h0, pr) n fs (xs @ [p]) (s\<lparr>p1_qa := Some p, pcbs := h\<rparr>)"
    by (rule qview_queue_step [OF q h(2,3)]) (use q p in auto)
  then show ?thesis using h(1) p(1) by (auto simp: insert_qa_def marks_def)
qed

lemma qview_out:
  assumes q: "qview (U, D, h0, pr) n fs xs s" and p: "p \<in> set xs"
  shows "\<exists>s'. set_q (out_qa (Some p)) s = Some s' \<and> qview (U, D, h0, pr) n fs (remove1 p xs) s' \<and> marks s' = marks s \<and> p1_q s' = Some p"
proof -
  obtain h where h: "outProcQ (p1_qa s) (Some p) (pcbs s) = Some (Some p, tail_ptr (remove1 p xs), h)"
    "procq h (tail_ptr (remove1 p xs)) (remove1 p xs)" "links_only (pcbs s) h (set xs)"
    using outProcQ_refines [of "pcbs s" "p1_qa s" xs p] q p by auto
  have "qview (U, D, h0, pr) n fs (remove1 p xs) (s\<lparr>p1_qa := tail_ptr (remove1 p xs), pcbs := h\<rparr>)"
    by (rule qview_queue_step [OF q h(2,3)]) (use q in \<open>auto dest: in_set_remove1\<close>)
  then show ?thesis using h(1) by (auto simp: set_q_def out_qa_def marks_def)
qed

lemma qview_remove:
  assumes q: "qview (U, D, h0, pr) n fs (p # xs) s"
  shows "\<exists>s'. remove_qa s = Some (Some p, s') \<and> qview (U, D, h0, pr) n fs xs s' \<and> marks s' = marks s"
proof -
  obtain h where h: "removeProcQ (p1_qa s) (pcbs s) = Some (Some p, tail_ptr xs, h)" "procq h (tail_ptr xs) xs"
    "links_only (pcbs s) h (set (p # xs))"
    using removeProcQ_refines [of "pcbs s" "p1_qa s" p xs] q by auto
  have "qview (U, D, h0, pr) n fs xs (s\<lparr>p1_qa := tail_ptr xs, pcbs := h\<rparr>)"
    by (rule qview_queue_step [OF q h(2,3)]) (use q in auto)
  then show ?thesis using h(1) by (auto simp: remove_qa_def marks_def)
qed

text \<open>The two loops.\<close>

lemma insert_loop:
  assumes q: "qview (U, D, h0, pr) n (as @ rest) [] s" and l: "length as = 10"
    and Q: "\<And>s'. qview (U, D, h0, pr) n rest as s' \<Longrightarrow> marks s' = (Some (as ! 0), Some (as ! 5), Some (as ! 9)) \<Longrightarrow> Q s'"
  shows "runs (for_loop 0 10 (main_insert_body U)) s Q"
proof (rule runs_for [where I = "\<lambda>i s. qview (U, D, h0, pr) n (drop i as @ rest) (take i as) s \<and>
    (0 < i \<longrightarrow> firstproc s = Some (as ! 0)) \<and> (5 < i \<longrightarrow> midproc s = Some (as ! 5)) \<and> (9 < i \<longrightarrow> lastproc s = Some (as ! 9))"])
  fix i s assume i: "i < (10::nat)" and I: "qview (U, D, h0, pr) n (drop i as @ rest) (take i as) s \<and>
    (0 < i \<longrightarrow> firstproc s = Some (as ! 0)) \<and> (5 < i \<longrightarrow> midproc s = Some (as ! 5)) \<and> (9 < i \<longrightarrow> lastproc s = Some (as ! 9))"
  have d: "drop i as = as ! i # drop (Suc i) as" "take (Suc i) as = take i as @ [as ! i]"
    using i l by (simp_all add: Cons_nth_drop_Suc take_Suc_conv_app_nth)
  have dist: "as ! i \<in> D" "as ! i \<notin> set ((drop (Suc i) as @ rest) @ take i as)"
    using conjunct1 [OF I] unfolding d(1) by auto
  obtain s1 where s1: "alloc_q s = Some s1" "qview (U, D, h0, pr) n (drop (Suc i) as @ rest) (take i as) s1"
    "marks s1 = marks s" "p1_q s1 = Some (as ! i)"
    using qview_alloc [of U D h0 pr n "as ! i" "drop (Suc i) as @ rest" "take i as" s] I unfolding d(1) by auto
  let ?s2 = "if i = 0 then s1\<lparr>firstproc := p1_q s1\<rparr> else if i = 5 then s1\<lparr>midproc := p1_q s1\<rparr>
    else if i = 9 then s1\<lparr>lastproc := p1_q s1\<rparr> else s1"
  have s2: "qview (U, D, h0, pr) n (drop (Suc i) as @ rest) (take i as) ?s2" "p1_q ?s2 = Some (as ! i)" using s1(2,4) by auto
  obtain s3 where s3: "insert_qa ?s2 = Some s3" "qview (U, D, h0, pr) n (drop (Suc i) as @ rest) (take i as @ [as ! i]) s3"
    "marks s3 = marks ?s2"
    using qview_insert [OF s2 dist] by blast
  have m: "marks s3 = (if i = 0 then Some (as ! 0) else firstproc s, if i = 5 then Some (as ! 5) else midproc s,
      if i = 9 then Some (as ! 9) else lastproc s)"
    unfolding s3(3) using s1(3,4) by (simp add: marks_def)
  show "runs (block (main_insert_body U i)) s (\<lambda>s. qview (U, D, h0, pr) n (drop (Suc i) as @ rest) (take (Suc i) as) s \<and>
    (0 < Suc i \<longrightarrow> firstproc s = Some (as ! 0)) \<and> (5 < Suc i \<longrightarrow> midproc s = Some (as ! 5)) \<and> (9 < Suc i \<longrightarrow> lastproc s = Some (as ! 9)))"
    unfolding main_insert_body_def
  proof (intro runs_Cons runs_err_if runs_perform runs_Nil)
    show "do { s \<leftarrow> alloc_q s; Some (p1_q s = None, s) } = Some (False, s1)" using s1(1,4) by simp
    show "insert_qa ?s2 = Some s3" by (rule s3(1))
    have "firstproc s3 = fst (marks s3)" "midproc s3 = fst (snd (marks s3))" "lastproc s3 = snd (snd (marks s3))"
      by (simp_all add: marks_def)
    then show "qview (U, D, h0, pr) n (drop (Suc i) as @ rest) (take (Suc i) as) s3 \<and>
      (0 < Suc i \<longrightarrow> firstproc s3 = Some (as ! 0)) \<and> (5 < Suc i \<longrightarrow> midproc s3 = Some (as ! 5)) \<and>
      (9 < Suc i \<longrightarrow> lastproc s3 = Some (as ! 9))"
      using s3(2) I unfolding d(2) m by auto
  qed simp
qed (use q l Q in \<open>auto simp: marks_def\<close>)

lemma remove_loop:
  assumes q: "qview (U, D, h0, pr) n fs ys s" and l: "length ys = 8"
    and Q: "\<And>s'. qview (U, D, h0, pr) n (fs @ ys) [] s' \<Longrightarrow> marks s' = marks s \<Longrightarrow> p1_q s' = Some (ys ! 7) \<Longrightarrow> Q s'"
  shows "runs (for_loop 0 8 (\<lambda>i. [err_if U (q_is_null remove_qa) m, perform (\<lambda>s. freePcb (p1_q s) s)])) s Q"
proof (rule runs_for [where I = "\<lambda>i t. qview (U, D, h0, pr) n (fs @ take i ys) (drop i ys) t \<and> marks t = marks s \<and>
    (0 < i \<longrightarrow> p1_q t = Some (ys ! (i - 1)))"])
  fix i t assume i: "i < (8::nat)" and I: "qview (U, D, h0, pr) n (fs @ take i ys) (drop i ys) t \<and> marks t = marks s \<and>
    (0 < i \<longrightarrow> p1_q t = Some (ys ! (i - 1)))"
  have d: "drop i ys = ys ! i # drop (Suc i) ys" "take (Suc i) ys = take i ys @ [ys ! i]"
    using i l by (simp_all add: Cons_nth_drop_Suc take_Suc_conv_app_nth)
  have dist: "ys ! i \<in> D" "ys ! i \<notin> set ((fs @ take i ys) @ drop (Suc i) ys)"
    using conjunct1 [OF I] unfolding d(1) by auto
  obtain t1 where t1: "remove_qa t = Some (Some (ys ! i), t1)" "qview (U, D, h0, pr) n (fs @ take i ys) (drop (Suc i) ys) t1"
    "marks t1 = marks t" using qview_remove [of U D h0 pr n "fs @ take i ys" "ys ! i" "drop (Suc i) ys" t] I unfolding d(1) by auto
  let ?t2 = "t1\<lparr>p1_q := Some (ys ! i)\<rparr>"
  have t2: "qview (U, D, h0, pr) n (fs @ take i ys) (drop (Suc i) ys) ?t2" "marks ?t2 = marks t1" using t1(2) by (simp_all add: marks_def)
  obtain t3 where t3: "freePcb (Some (ys ! i)) ?t2 = Some t3"
    "qview (U, D, h0, pr) n ((fs @ take i ys) @ [ys ! i]) (drop (Suc i) ys) t3" "marks t3 = marks ?t2" "p1_q t3 = Some (ys ! i)"
    using qview_free [OF t2(1) dist] by auto
  show "runs (block [err_if U (q_is_null remove_qa) m, perform (\<lambda>s. freePcb (p1_q s) s)]) t
    (\<lambda>t. qview (U, D, h0, pr) n (fs @ take (Suc i) ys) (drop (Suc i) ys) t \<and> marks t = marks s \<and> (0 < Suc i \<longrightarrow> p1_q t = Some (ys ! (Suc i - 1))))"
  proof (intro runs_Cons runs_err_if runs_perform runs_Nil)
    show "q_is_null remove_qa t = Some (False, ?t2)" using t1(1) by (simp add: q_is_null_def set_q_def)
    show "freePcb (p1_q ?t2) ?t2 = Some t3" using t3(1) by simp
    show "qview (U, D, h0, pr) n (fs @ take (Suc i) ys) (drop (Suc i) ys) t3 \<and> marks t3 = marks s \<and>
      (0 < Suc i \<longrightarrow> p1_q t3 = Some (ys ! (Suc i - 1)))"
      using t3(2-4) t2(2) t1(3) I unfolding d(2) by simp
  qed
qed (use q l Q in auto)

text \<open>\<open>qstate\<close> adds the variables of the test; the rules below are the steps of its block.\<close>

definition qstate :: "p1_frame \<Rightarrow> nat \<Rightarrow> nat list \<Rightarrow> nat list \<Rightarrow> pcb_ptr \<times> pcb_ptr \<times> pcb_ptr \<Rightarrow> pcb_ptr \<Rightarrow> p1_state \<Rightarrow> bool" where
  "qstate V n fs xs mk r s \<longleftrightarrow> qview V n fs xs s \<and> marks s = mk \<and> p1_q s = r"

lemma qview_vars [simp]:
  "qview (U, D, h0, pr) n fs xs (s\<lparr>p1_q := a\<rparr>) = qview (U, D, h0, pr) n fs xs s"
  "marks (s\<lparr>p1_q := a\<rparr>) = marks s"
  by (simp_all add: marks_def)

lemma qstate_facts:
  assumes "qstate (U, D, h0, pr) n fs xs (a, b, c) r s"
  shows "firstproc s = a \<and> midproc s = b \<and> lastproc s = c \<and> p1_q s = r \<and> procp s = pr \<and>
    (emptyProcQ (p1_qa s) \<longleftrightarrow> xs = []) \<and> headProcQ (p1_qa s) (pcbs s) = Some (head_ptr xs)"
  using assms emptyProcQ_procq headProcQ_refines by (auto simp: qstate_def marks_def)

lemma qstate_print:
  assumes q: "qstate (U, D, h0, pr) n fs xs mk r s" and "length msg \<le> n"
    and "\<And>s'. qstate (U, D, h0, pr) (n - length msg) fs xs mk r s' \<Longrightarrow> runs (block cs) s' Q"
  shows "runs (block (addokbuf U msg # cs)) s Q"
proof (rule runs_Cons, rule qview_print [OF _ assms(2)])
  show "qview (U, D, h0, pr) n fs xs s" using q by (simp add: qstate_def)
qed (use assms in \<open>simp add: qstate_def\<close>)

lemma qstate_test:
  assumes "qstate V n fs xs mk r s" "qstate V n fs xs mk r s \<Longrightarrow> c s = Some (False, s)"
    "qstate V n fs xs mk r s \<Longrightarrow> runs (block cs) s Q"
  shows "runs (block (err_if U c m # cs)) s Q"
  using assms by (intro runs_Cons runs_err_if)

lemma qstate_out:
  assumes q: "qstate (U, D, h0, pr) n fs xs mk r s" and f: "qstate (U, D, h0, pr) n fs xs mk r s \<Longrightarrow> f s = set_q (out_qa (Some p)) s"
    and p: "p \<in> set xs" "remove1 p xs = ys"
    and Q: "\<And>s'. qstate (U, D, h0, pr) n fs ys mk (Some p) s' \<Longrightarrow> runs (block cs) s' Q"
  shows "runs (block (perform f # cs)) s Q"
proof -
  obtain s' where "set_q (out_qa (Some p)) s = Some s'" "qstate (U, D, h0, pr) n fs ys mk (Some p) s'"
    using qview_out [of U D h0 pr n fs xs s p] q p by (auto simp: qstate_def)
  then show ?thesis using f [OF q] Q by (intro runs_Cons runs_perform) auto
qed

lemma qstate_free:
  assumes q: "qstate (U, D, h0, pr) n fs xs mk (Some p) s" and p: "p \<in> D" "p \<notin> set (fs @ xs)" and g: "fs @ [p] = gs"
    and Q: "\<And>s'. qstate (U, D, h0, pr) n gs xs mk (Some p) s' \<Longrightarrow> runs (block cs) s' Q"
  shows "runs (block (perform (\<lambda>s. freePcb (p1_q s) s) # cs)) s Q"
proof -
  obtain s' where "freePcb (Some p) s = Some s'" "qstate (U, D, h0, pr) n gs xs mk (Some p) s'"
    using qview_free [of U D h0 pr n fs xs s p] q p g by (auto simp: qstate_def)
  then show ?thesis using q Q by (intro runs_Cons runs_perform) (auto simp: qstate_def)
qed

lemma qstate_missing:
  assumes q: "qstate (U, D, h0, pr) n fs xs mk r s" and p: "pr 0 = Some p" "p \<notin> set xs"
    and Q: "qstate (U, D, h0, pr) n fs xs mk r s \<Longrightarrow> runs (block cs) s Q"
  shows "runs (block (err_if U (\<lambda>s. not_null (out_qa (procp s 0)) s) m # cs)) s Q"
proof (rule runs_Cons, rule runs_err_if)
  have "outProcQ (p1_qa s) (Some p) (pcbs s) = Some (None, p1_qa s, pcbs s)"
    by (rule outProcQ_missing [of _ _ xs]) (use q p in \<open>auto simp: qstate_def\<close>)
  then show "not_null (out_qa (procp s 0)) s = Some (False, s)"
    using q p(1) by (simp add: not_null_def out_qa_def qstate_def)
qed (rule Q [OF q])

lemma qstate_drained:
  assumes q: "qstate (U, D, h0, pr) n fs [] mk r s" and Q: "qstate (U, D, h0, pr) n fs [] mk r s \<Longrightarrow> runs (block cs) s Q"
  shows "runs (block (err_if U (not_null remove_qa) m # cs)) s Q"
proof (rule runs_Cons, rule runs_err_if)
  have "removeProcQ (p1_qa s) (pcbs s) = Some (None, None, pcbs s)" "p1_qa s = None"
    using removeProcQ_empty [of "pcbs s"] q by (simp_all add: qstate_def)
  then show "not_null remove_qa s = Some (False, s)" by (simp add: not_null_def remove_qa_def)
qed (rule Q [OF q])

lemma qstate_inserted:
  assumes q: "qstate (U, D, h0, pr) n (as @ rest) [] mk r s" and l: "length as = 10"
    and Q: "\<And>s' r. qstate (U, D, h0, pr) n rest as (Some (as ! 0), Some (as ! 5), Some (as ! 9)) r s' \<Longrightarrow> runs (block cs) s' Q"
  shows "runs (block (for_loop 0 10 (main_insert_body U) # cs)) s Q"
  by (rule runs_Cons, rule insert_loop [of U D h0 pr n as rest]) (use q l Q in \<open>auto simp: qstate_def\<close>)

lemma qstate_removed:
  assumes q: "qstate (U, D, h0, pr) n fs ys mk r s" and l: "length ys = 8"
    and Q: "\<And>s'. qstate (U, D, h0, pr) n (fs @ ys) [] mk (Some (ys ! 7)) s' \<Longrightarrow> runs (block cs) s' Q"
  shows "runs (block (for_loop 0 8 (\<lambda>i. [err_if U (q_is_null remove_qa) m, perform (\<lambda>s. freePcb (p1_q s) s)]) # cs)) s Q"
  by (rule runs_Cons, rule remove_loop [of U D h0 pr n fs ys]) (use q l Q in \<open>auto simp: qstate_def\<close>)

lemma queues_run:
  assumes q: "qview (U, D, h0, pr) n (as @ rest) [] (s\<lparr>p1_qa := None\<rparr>)" and n: "160 \<le> n"
    and as: "as = [a0, a1, a2, a3, a4, a5, a6, a7, a8, a9]" and p0: "pr 0 = Some p" "p \<notin> set (as @ rest)"
    and Q: "\<And>s' mk r m. n - 160 \<le> m \<Longrightarrow> qstate (U, D, h0, pr) m ((rest @ [a0, a5]) @ [a1, a2, a3, a4, a6, a7, a8, a9]) [] mk r s' \<Longrightarrow> Q s'"
  shows "runs (block (main_queues U)) s Q"
proof -
  have "distinct (as @ rest)" "set (as @ rest) \<subseteq> D" using q by simp_all
  then have d: "distinct as" "set as \<subseteq> D" "set as \<inter> set rest = {}" by auto
  note side = d [unfolded as]
  have q0: "qstate (U, D, h0, pr) n (as @ rest) [] (marks s) (p1_q s) (s\<lparr>p1_qa := None\<rparr>)"
    using q by (simp add: qstate_def marks_def)
  show ?thesis unfolding main_queues_def
    apply (rule runs_Cons, rule runs_perform, rule refl)
    apply (rule qstate_test [OF q0], simp add: test_that_def)
    apply (erule qstate_print, use n in simp)
    apply (erule qstate_inserted, simp add: as)
    apply (erule qstate_print, use n in simp)
    apply (erule qstate_test, drule qstate_facts, simp add: test_that_def as)
    apply (erule qstate_test, drule qstate_facts, simp add: test_that_def as)
    apply (erule qstate_out [where p = a0 and ys = "[a1, a2, a3, a4, a5, a6, a7, a8, a9]"], drule qstate_facts, simp add: as, simp add: as, simp add: as)
    apply (erule qstate_test, drule qstate_facts, simp add: test_that_def as)
    apply (erule qstate_free [where gs = "rest @ [a0]"], (use side in auto)[2], simp)
    apply (erule qstate_out [where p = a5 and ys = "[a1, a2, a3, a4, a6, a7, a8, a9]"], drule qstate_facts, simp add: as, simp, (use side in auto)[1])
    apply (erule qstate_test, drule qstate_facts, simp add: test_that_def as)
    apply (erule qstate_free [where gs = "rest @ [a0, a5]"], (use side in auto)[2], simp)
    apply (erule qstate_missing, rule p0(1), (use p0(2) in \<open>simp add: as\<close>))
    apply (erule qstate_print, use n in simp)
    apply (erule qstate_print, use n in simp)
    apply (erule qstate_removed, simp)
    apply (erule qstate_test, drule qstate_facts, simp add: test_that_def as)
    apply (erule qstate_drained)
    apply (erule qstate_test, drule qstate_facts, simp add: test_that_def as)
    apply (erule qstate_print, use n in simp)
    apply (erule qstate_print, use n in simp)
    by (rule runs_Nil, erule Q [rotated], simp)
qed

text \<open>
  The queues module passes its test.  From any state in which there are ten free process
  control blocks and procp[0] is not one of them, the queue section of main runs to its end
  without an error message, with the queue empty, all ten blocks free again (the first and
  the sixth of them first), and no other block touched.
\<close>

theorem queues_test_passes:
  assumes "prints U 160 s" and "free_list s (as @ rest)" "length as = 10" and "procp s 0 = Some p" "p \<notin> set (as @ rest)"
  shows "\<exists>s'. block (main_queues U) s = Some (Inr s') \<and> p1_qa s' = None \<and> procp s' = procp s \<and>
    free_list s' (rest @ [as ! 0, as ! 5] @ take 4 (drop 1 as) @ drop 6 as) \<and>
    (\<forall>x. x \<notin> set (as @ rest) \<longrightarrow> pcbs s' x = pcbs s x)"
proof -
  obtain a0 a1 a2 a3 a4 a5 a6 a7 a8 a9 where as: "as = [a0, a1, a2, a3, a4, a5, a6, a7, a8, a9]"
    using assms(3) by (auto simp: numeral_eq_Suc length_Suc_conv)
  have "distinct (as @ rest)" using assms(2) by (simp add: free_list_def)
  then have q: "qview (U, set (as @ rest), pcbs s, procp s) 160 (as @ rest) [] (s\<lparr>p1_qa := None\<rparr>)"
    using assms(1,2) by simp
  have "runs (block (main_queues U)) s (\<lambda>s'. \<exists>m mk r. qstate (U, set (as @ rest), pcbs s, procp s) m
      ((rest @ [a0, a5]) @ [a1, a2, a3, a4, a6, a7, a8, a9]) [] mk r s')"
    by (rule queues_run [OF q order_refl as assms(4,5)]) blast
  then show ?thesis by (auto simp: runs_def qstate_def as)
qed

theorem queues_test_passes_witness:
  "\<exists>s s'. alloc_many allocPcb 10 (initPcbs p1_start) = Some (map Some [0..<10], s) \<and>
     block (main_queues p1_umps3) (s\<lparr>procp := \<lambda>i. Some i\<rparr>) = Some (Inr s') \<and> p1_qa s' = None \<and>
     free_list s' ([20..<MAXPROC] @ [10, 15] @ [11, 12, 13, 14] @ [16, 17, 18, 19])"
proof -
  obtain s where s: "alloc_many allocPcb 10 (initPcbs p1_start) = Some (map Some [0..<10], s)"
    "free_list s ([10..<20] @ [20..<MAXPROC])" "prints p1_umps3 300 s" using p1_ten by blast
  have "prints p1_umps3 160 (s\<lparr>procp := \<lambda>i. Some i\<rparr>)" using prints_mono [OF s(3)] by simp
  moreover have "free_list (s\<lparr>procp := \<lambda>i. Some i\<rparr>) ([10..<20] @ [20..<MAXPROC])" using s(2) by (simp del: upt_rec_numeral)
  moreover have "(0::nat) \<notin> set ([10..<20] @ [20..<MAXPROC])" by auto
  ultimately obtain s' where s': "block (main_queues p1_umps3) (s\<lparr>procp := \<lambda>i. Some i\<rparr>) = Some (Inr s')" "p1_qa s' = None"
    "free_list s' ([20..<MAXPROC] @ [[10..<20] ! 0, [10..<20] ! 5] @ take 4 (drop 1 [10..<20]) @ drop 6 [10..<20])"
    using queues_test_passes [of p1_umps3 "s\<lparr>procp := \<lambda>i. Some i\<rparr>" "[10..<20]" "[20..<MAXPROC]" 0] by auto
  then show ?thesis using s(1) by (intro exI [of _ s] exI [of _ s']) simp
qed

end
