(* ===== verification/P1_Trees.thy ===== *)
theory P1_Trees
  imports P1_Queues
begin

text \<open>
  The section of the phase 1 test on the process trees, which finds the defect of \<open>outChild\<close>.
\<close>

subsection \<open>The trees\<close>

definition tstate :: "p1_umps \<Rightarrow> nat \<Rightarrow> (nat \<Rightarrow> pcb_ptr) \<Rightarrow> pcb_heap \<Rightarrow> p1_state \<Rightarrow> bool" where
  "tstate U n pr h s \<longleftrightarrow> prints U n s \<and> procp s = pr \<and> pcbs s = h"

lemma tstate_print:
  assumes q: "tstate U n pr h s" and "length msg \<le> n" and "\<And>s'. tstate U (n - length msg) pr h s' \<Longrightarrow> stops (block cs) m s'"
  shows "stops (block (addokbuf U msg # cs)) m s"
  by (rule ends_Cons, rule runs_addokbuf [OF _ assms(2), of U s]) (use assms in \<open>simp_all add: tstate_def io_onlyD\<close>)

lemma tstate_test:
  assumes "tstate U n pr h s" "procp s = pr \<Longrightarrow> pcbs s = h \<Longrightarrow> c s = Some (False, s)" "tstate U n pr h s \<Longrightarrow> stops (block cs) msg s"
  shows "stops (block (err_if U c m # cs)) msg s"
  using assms by (intro ends_Cons runs_err_if) (simp_all add: tstate_def)

lemma tstate_out:
  assumes q: "tstate U n pr h s" and p: "pr i = Some p" "p_prnt (h p) = Some r"
    and Q: "\<And>g s'. outChild (Some p) h = Some (Some p, g) \<Longrightarrow> p1_q s' = Some p \<Longrightarrow> tstate U n pr g s' \<Longrightarrow> stops (block cs) m s'"
  shows "stops (block (perform (\<lambda>s. set_q (tree_call (outChild (procp s i))) s) # cs)) m s"
proof -
  obtain g where g: "outChild (Some p) h = Some (Some p, g)" using outChild_any [of p h] p(2) by auto
  have "set_q (tree_call (outChild (procp s i))) s = Some (s\<lparr>pcbs := g, p1_q := Some p\<rparr>)"
    using q p(1) g by (simp add: set_q_def tree_call_def tstate_def)
  moreover have "tstate U n pr g (s\<lparr>pcbs := g, p1_q := Some p\<rparr>)" using q by (simp add: tstate_def)
  ultimately show ?thesis using Q [OF g, of "s\<lparr>pcbs := g, p1_q := Some p\<rparr>"]
    by (intro ends_Cons runs_perform) auto
qed

lemma tstate_stop:
  assumes "tstate U n pr h s" "procp s = pr \<Longrightarrow> pcbs s = h \<Longrightarrow> c s = Some (True, s\<lparr>p1_q := None, pcbs := h\<rparr>)" "length msg < ERRBUF_LEN"
  shows "stops (err_if U c msg) msg s"
  by (rule stops_err_if [of c s "s\<lparr>p1_q := None, pcbs := h\<rparr>"]) (use assms in \<open>simp_all add: tstate_def prints_def answers_def\<close>)

lemma insert_children_loop:
  assumes t: "tstate U n pr h s" and k: "kids h u0 []" "p_prnt (h u0) = None" and d: "distinct (u0 # vs)" "length vs = 9"
    and p: "pr 0 = Some u0" "\<forall>i < 9. pr (Suc i) = Some (vs ! i)"
    and Q: "\<And>h s. kids h u0 vs \<Longrightarrow> p_prnt (h u0) = None \<Longrightarrow> tstate U n pr h s \<Longrightarrow> Q s"
  shows "runs (for_loop 1 10 (\<lambda>i. [perform (\<lambda>s. do { h \<leftarrow> insertChild (procp s 0) (procp s i) (pcbs s); Some (s\<lparr>pcbs := h\<rparr>) })])) s Q"
proof (rule runs_for [where I = "\<lambda>i t. \<exists>h. tstate U n pr h t \<and> kids h u0 (take (i - 1) vs) \<and> p_prnt (h u0) = None"])
  show "\<exists>h. tstate U n pr h s \<and> kids h u0 (take (1 - 1) vs) \<and> p_prnt (h u0) = None" using t k by auto
  fix i t assume i: "1 \<le> i" "i < (10::nat)" and I: "\<exists>h. tstate U n pr h t \<and> kids h u0 (take (i - 1) vs) \<and> p_prnt (h u0) = None"
  obtain j where j: "i = Suc j" "j < 9" using i by (cases i) auto
  obtain h where h: "tstate U n pr h t" "kids h u0 (take j vs)" "p_prnt (h u0) = None" using I j by auto
  have t: "take (Suc j) vs = take j vs @ [vs ! j]" using j d by (simp add: take_Suc_conv_app_nth)
  have new: "vs ! j \<notin> set (take j vs)" "vs ! j \<noteq> u0"
    using d j distinct_take [of vs "Suc j"] nth_mem [of j vs] unfolding t by auto
  obtain h' where h': "insertChild (Some u0) (Some (vs ! j)) h = Some h'" "kids h' u0 (take (Suc j) vs)" "p_prnt (h' u0) = None"
    using insertChild_refines [OF h(2) new] h(3) unfolding t by auto
  show "runs (block [perform (\<lambda>s. do { h \<leftarrow> insertChild (procp s 0) (procp s i) (pcbs s); Some (s\<lparr>pcbs := h\<rparr>) })]) t
     (\<lambda>t. \<exists>h. tstate U n pr h t \<and> kids h u0 (take (Suc i - 1) vs) \<and> p_prnt (h u0) = None)"
  proof (intro runs_Cons runs_perform runs_Nil)
    show "do { h \<leftarrow> insertChild (procp t 0) (procp t i) (pcbs t); Some (t\<lparr>pcbs := h\<rparr>) } = Some (t\<lparr>pcbs := h'\<rparr>)"
      using h(1) h'(1) p j by (simp add: tstate_def)
    show "\<exists>h. tstate U n pr h (t\<lparr>pcbs := h'\<rparr>) \<and> kids h u0 (take (Suc i - 1) vs) \<and> p_prnt (h u0) = None"
      using h(1) h'(2,3) j(1) by (intro exI [of _ h']) (simp add: tstate_def)
  qed
qed (use Q d in auto)

lemma trees_stop:
  assumes pr: "prints U 100 s" and us: "us = [u0, u1, u2, u3, u4, u5, u6, u7, u8, u9]" "distinct us"
    and p: "\<forall>i < 10. procp s i = Some (us ! i)" and c: "\<forall>x \<in> set us. unrelated (pcbs s) x"
  shows "stops (block (main_trees U)) ''removeChild: unexpected NULL   '' s"
proof -
  let ?pr = "procp s" and ?vs = "[u1, u2, u3, u4, u5, u6, u7, u8, u9]"
  have pu: "?pr 0 = Some u0" "?pr 1 = Some u1" "?pr 2 = Some u2" "?pr 4 = Some u4" using p us(1) by auto
  have ps: "\<forall>i < 9. ?pr (Suc i) = Some (?vs ! i)" using p us(1) by auto
  have d: "distinct (u0 # ?vs)" and ne: "u0 \<noteq> u1" "u0 \<noteq> u4" "u4 \<noteq> u1" using us by auto
  have c0: "p_prnt (pcbs s u0) = None" "p_child (pcbs s u0) = None" "p_child (pcbs s u2) = None"
    using c us(1) by (simp_all add: unrelated_def)
  have t0: "tstate U 100 ?pr (pcbs s) s" using pr by (simp add: tstate_def)
  have k0: "kids (pcbs s) u0 []" using c0 by (simp add: kids_def)
  show ?thesis unfolding main_trees_def
    apply (rule tstate_print [OF t0], simp)
    apply (erule tstate_test, use pu c0 in \<open>simp add: emptyChild_def\<close>)
    apply (erule tstate_print, simp)
    apply (rule ends_Cons, erule insert_children_loop [where vs = ?vs], rule k0, rule c0, rule d, simp, rule pu, rule ps)
    apply (erule tstate_print, simp)
    apply (erule tstate_test, use pu in \<open>simp add: emptyChild_kids\<close>)
    subgoal premises h1 for s1 s2 h s3 s4
    proof -
      have h: "kids h u0 ?vs" "p_prnt (h u0) = None" by (rule h1(1), rule h1(2))
      have prnt: "p_prnt (h x) = Some u0" if "x \<in> set ?vs" for x
        using h(1) that unfolding kids_def by blast
      obtain g where g: "outChild (Some u1) h = Some (Some u1, g)" "p_child (g u0) = None" using outChild_first [OF h(1)] by blast
      have pg: "p_prnt (g x) = p_prnt (h x)" if "x \<noteq> u1" for x using outChild_any [of u1 h] g(1) that by auto
      have g4: "p_prnt (g u4) = Some u0" "p_prnt (g u0) = None" using pg [of u4] pg [of u0] prnt [of u4] h(2) ne by simp_all
      obtain f where f: "outChild (Some u4) g = Some (Some u4, f)" "p_child (f u0) = None" "p_prnt (f u0) = None"
        using outChild_any [of u4 g] g4 g(2) ne by fastforce
      show ?thesis
        apply (rule tstate_out [OF h1(3), of 1 u1 u0], rule pu, rule prnt, simp)
        apply (erule tstate_test, use pu in \<open>simp add: test_that_def\<close>)
        apply (erule tstate_out [where i = 4 and p = u4 and r = u0], rule pu, use g g4 in simp)
        apply (erule tstate_test, use pu in \<open>simp add: test_that_def\<close>)
        apply (erule tstate_test, use pu f g outChild_orphan [of f u0] in \<open>simp add: not_null_def tree_call_def\<close>)
        apply (erule tstate_print, simp)
        apply (erule tstate_print, simp)
        apply (rule ends_here, rule ends_for, simp, rule ends_here)
        apply (erule tstate_stop, use pu g(1) f in \<open>simp_all add: q_is_null_def set_q_def tree_call_def removeChild_def emptyChild_def ERRBUF_LEN_def\<close>)
        done
    qed
    done
qed

text \<open>
  The test of the process trees finds the defect of outChild.  Started with ten free blocks and
  ten allocated ones without relatives in procp, the queue section passes; the tree section
  then takes the first of nine children out of the tree, which loses the other eight, so
  that its first removeChild returns NULL and main stops in PANIC with that message.
\<close>

theorem trees_test_fails:
  assumes "prints U 300 s" and "free_list s (as @ rest)" "length as = 10" and us: "distinct us" "length us = 10"
    and p: "\<forall>i < 10. procp s i = Some (us ! i)" and c: "\<forall>x \<in> set us. unrelated (pcbs s) x \<and> x \<notin> set (as @ rest)"
  shows "stops (block (main_queues U @ main_trees U)) ''removeChild: unexpected NULL   '' s"
proof (rule ends_append)
  obtain a0 a1 a2 a3 a4 a5 a6 a7 a8 a9 where as: "as = [a0, a1, a2, a3, a4, a5, a6, a7, a8, a9]"
    using assms(3) by (auto simp: numeral_eq_Suc length_Suc_conv)
  obtain u0 u1 u2 u3 u4 u5 u6 u7 u8 u9 where u: "us = [u0, u1, u2, u3, u4, u5, u6, u7, u8, u9]"
    using us(2) by (auto simp: numeral_eq_Suc length_Suc_conv)
  let ?D = "set (as @ rest)"
  have "distinct (as @ rest)" using assms(2) by (simp add: free_list_def)
  then have q: "qview (U, ?D, pcbs s, procp s) 300 (as @ rest) [] (s\<lparr>p1_qa := None\<rparr>)" using assms(1,2) by simp
  have p0: "procp s 0 = Some u0" "u0 \<notin> ?D" using p c u by auto
  have "160 \<le> (300::nat)" by simp
  from q this as p0 show "runs (block (main_queues U)) s (stops (block (main_trees U)) ''removeChild: unexpected NULL   '')"
  proof (rule queues_run)
    fix s' mk r m
    assume m: "300 - 160 \<le> m" and q': "qstate (U, ?D, pcbs s, procp s) m ((rest @ [a0, a5]) @ [a1, a2, a3, a4, a6, a7, a8, a9]) [] mk r s'"
    then have s': "prints U m s'" "procp s' = procp s" "\<forall>x. x \<notin> ?D \<longrightarrow> pcbs s' x = pcbs s x" by (simp_all add: qstate_def)
    have "\<forall>x \<in> set us. unrelated (pcbs s') x" using s'(3) c by (simp add: unrelated_def)
    moreover have "prints U 100 s'" using prints_mono [OF s'(1)] m by simp
    ultimately show "stops (block (main_trees U)) ''removeChild: unexpected NULL   '' s'"
      using trees_stop [OF _ u us(1)] p s'(2) by simp
  qed
qed

theorem trees_test_fails_witness:
  "\<exists>s s'. alloc_many allocPcb 10 (initPcbs p1_start) = Some (map Some [0..<10], s) \<and>
     block (main_queues p1_umps3 @ main_trees p1_umps3) (s\<lparr>procp := \<lambda>i. Some i\<rparr>) = Some (Inl s') \<and>
     holds_string (errbuf s') 0 ''removeChild: unexpected NULL   ''"
proof -
  obtain s where s: "alloc_many allocPcb 10 (initPcbs p1_start) = Some (map Some [0..<10], s)"
    "free_list s ([10..<20] @ [20..<MAXPROC])" "prints p1_umps3 300 s" "\<forall>x \<in> set [0..<10]. unrelated (pcbs s) x"
    using p1_ten by blast
  let ?s = "s\<lparr>procp := \<lambda>i. Some i\<rparr>"
  have "stops (block (main_queues p1_umps3 @ main_trees p1_umps3)) ''removeChild: unexpected NULL   '' ?s"
    by (rule trees_test_fails [where as = "[10..<20]" and rest = "[20..<MAXPROC]" and us = "[0..<10]"])
      (use s in \<open>auto simp del: upt_rec_numeral\<close>)
  then show ?thesis using s(1) by (auto simp: ends_def)
qed

end
