(* ===== verification/P1_Asl.thy ===== *)
theory P1_Asl
  imports P1_Trees
begin

text \<open>
  The verdict of the phase 1 test on the active semaphore list: filling the twenty semaphores
  of the test works, but does not use up the 40 descriptors of the kernel; emptying them
  works to the end.
\<close>

subsection \<open>Calls on the semaphore list\<close>

definition sems_ok :: "p1_umps \<Rightarrow> bool" where
  "sems_ok U \<longleftrightarrow> inj_on (sem_at U) {..<20} \<and> adr_onesem U \<noteq> MAXADD \<and>
     (\<forall>i < 20. sem_at U i \<noteq> MAXADD \<and> sem_at U i \<noteq> adr_onesem U)"

lemma sem_at_eq: "sems_ok U \<Longrightarrow> i < 20 \<Longrightarrow> j < 20 \<Longrightarrow> sem_at U i = sem_at U j \<longleftrightarrow> i = j"
  unfolding sems_ok_def by (metis inj_on_eq_iff lessThan_iff)

lemma asl_step_vars:
  assumes "asl_step s s' p v S"
  shows "prints U n s' = prints U n s" "answers U s' = answers U s" "procp s' = procp s" "p1_q s' = p1_q s" "p1_p s' = p1_p s"
proof -
  have e: "s' = s\<lparr>semdFree_h := semdFree_h s', semd_table := semd_table s', pcbs := pcbs s'\<rparr>"
    using assms by (simp add: asl_step_def)
  show "prints U n s' = prints U n s" "answers U s' = answers U s" "procp s' = procp s" "p1_q s' = p1_q s" "p1_p s' = p1_p s"
    by (subst e, simp add: answers_def)+
qed

lemma asl_vars [simp]:
  "asl (s\<lparr>procp := x\<rparr>) B = asl s B" "asl (s\<lparr>p1_q := a\<rparr>) B = asl s B" "asl (s\<lparr>p1_p := a\<rparr>) B = asl s B"
  by (simp_all add: asl_def asl_rep_def)

lemma load_eq_Some: "load h p = Some v \<longleftrightarrow> (\<exists>i. p = Some i \<and> v = h i)"
  and store_eq_Some: "store p f h = Some h' \<longleftrightarrow> (\<exists>i. p = Some i \<and> h' = h(i := f (h i)))"
  by (cases p; auto)+

text \<open>
  A call of \<open>insertBlocked\<close> for an idle semaphore with a descriptor left says so, even for a
  process that is already in a queue (which it damages).
\<close>

lemma insertBlocked_any_process:
  assumes A: "asl s B" and a: "a \<noteq> MAXADD" "B a = []" "semdFree_h s \<noteq> None"
  shows "\<exists>s'. insertBlocked a (Some p) s = Some (False, s') \<and>
     s' = s\<lparr>semdFree_h := semdFree_h s', semd_table := semd_table s', pcbs := pcbs s'\<rparr>"
proof -
  have "finite (\<Union>k \<in> {k. B k \<noteq> []}. set (B k))" using asl_full(1) [OF A] by auto
  then obtain p' where "p' \<notin> (\<Union>k \<in> {k. B k \<noteq> []}. set (B k))" using infinite_UNIV_nat ex_new_if_finite by blast
  then have p': "p' \<notin> set (B k)" for k by (cases "B k = []") auto
  obtain L n q where f: "findSemInActiveList a s = Some (Some L)" "s_next (semd_table s L) = Some n"
    "procq (pcbs s) (s_procQ (semd_table s n)) q" "s_semAdd (semd_table s n) = a \<Longrightarrow> q = []"
    using find_queue [OF A, of a] a(2) by (metis (full_types))
  obtain s1 where s1: "insertBlocked a (Some p') s = Some (False, s1)"
    using insertBlocked_refines [OF A p' a(1)] a(3) by blast
  show ?thesis
  proof (cases "s_semAdd (semd_table s n) = a")
    case True
    then have "s_procQ (semd_table s n) = None" using f(3,4) by simp
    then show ?thesis using f(1,2) True by (simp add: insertBlocked_def insertProcQ_def)
  next
    case False
    then show ?thesis using f(1,2) s1
      by (auto simp: insertBlocked_def newSemd_def insertProcQ_def Let_def mkEmptyProcQ_def 
          load_eq_Some store_eq_Some split: Option.bind_splits if_splits)
  qed
qed

subsection \<open>Filling\<close>

text \<open>\<open>slot as i\<close> is the block that the test puts into \<open>procp[i]\<close>: 10 to 19 are allocated first.\<close>

definition slot :: "nat list \<Rightarrow> nat \<Rightarrow> nat" where
  "slot as i = as ! (if i < 10 then i + 10 else i - 10)"

definition filled :: "p1_umps \<Rightarrow> nat list \<Rightarrow> nat list \<Rightarrow> u32 \<Rightarrow> nat list" where
  "filled U as J a = concat (map (\<lambda>j. if sem_at U j = a then [slot as j] else []) J)"

definition fill_view :: "p1_umps \<Rightarrow> nat \<Rightarrow> nat list \<Rightarrow> nat list \<Rightarrow> nat list \<Rightarrow> p1_state \<Rightarrow> bool" where
  "fill_view U n as J fs s \<longleftrightarrow> prints U n s \<and> free_list s fs \<and> asl s (filled U as J) \<and>
     distinct (fs @ map (slot as) J) \<and> (\<forall>j \<in> set J. procp s j = Some (slot as j))"

lemma filled_new:
  assumes "sems_ok U" "set J \<subseteq> {..<20}" "i < 20" "i \<notin> set J"
  shows "filled U as (J @ [i]) = (filled U as J)(sem_at U i := [slot as i])" "filled U as J (sem_at U i) = []"
proof -
  have "filled U as J (sem_at U i) = []"
    using assms(2,4) by (auto simp: filled_def sem_at_eq [OF assms(1) _ assms(3)])
  then show "filled U as J (sem_at U i) = []" "filled U as (J @ [i]) = (filled U as J)(sem_at U i := [slot as i])"
    by (auto simp: filled_def fun_eq_iff)
qed

lemma filled_mem: "x \<in> set (filled U as J a) \<Longrightarrow> x \<in> slot as ` set J"
  by (auto simp: filled_def split: if_splits)

lemma sems_room:
  assumes "asl s B" "{a. B a \<noteq> []} \<subseteq> sem_at U ` {..<20}"
  shows "semdFree_h s \<noteq> None"
proof -
  have "card {a. B a \<noteq> []} \<le> card (sem_at U ` {..<20})" by (rule card_mono) (use assms(2) in auto)
  also have "\<dots> \<le> 20" using card_image_le [of "{..<20}" "sem_at U"] by simp
  finally show ?thesis using asl_full(3) [OF assms(1)] by (auto simp: MAXPROC_def)
qed

lemma filled_sems: "set J \<subseteq> {..<20} \<Longrightarrow> {a. filled U as J a \<noteq> []} \<subseteq> sem_at U ` {..<20}"
  by (auto simp: filled_def split: if_splits)

lemma filled_at:
  assumes "sems_ok U" "set J \<subseteq> {..<20}" "distinct J" "j \<in> set J"
  shows "filled U as J (sem_at U j) = [slot as j]"
proof -
  obtain X Y where J: "J = X @ j # Y" using assms(4) by (meson split_list)
  have z: "concat (map (\<lambda>i. if sem_at U i = sem_at U j then [slot as i] else []) Z) = []" if "j \<notin> set Z" "set Z \<subseteq> set J" for Z
    using that assms(2,4) sem_at_eq [OF assms(1)] by (auto simp: subset_iff)
  have X: "j \<notin> set X" "set X \<subseteq> set J" and Y: "j \<notin> set Y" "set Y \<subseteq> set J" using assms(3) by (auto simp: J)
  show ?thesis unfolding filled_def by (subst J) (simp only: map_append concat_append list.map concat.simps z [OF X] z [OF Y], simp)
qed

lemma fill_step:
  assumes ok: "sems_ok U" and v: "fill_view U n as J (slot as i # fs) s" and J: "set J \<subseteq> {..<20}" "i < 20" "i \<notin> set J"
  shows "runs (block [perform (alloc_procp i), err_if U (\<lambda>s. insertBlocked (sem_at U i) (procp s i) s) m]) s
    (fill_view U n as (J @ [i]) fs)"
proof -
  let ?p = "slot as i" and ?B = "filled U as J" and ?a = "sem_at U i"
  note V = v [unfolded fill_view_def]
  obtain h where h: "allocPcb s = Some (Some ?p, s\<lparr>pcbFree_h := head_ptr fs, pcbs := h, processCount := processCount s + 1\<rparr>)"
    "free_list (s\<lparr>pcbFree_h := head_ptr fs, pcbs := h, processCount := processCount s + 1\<rparr>) fs"
    "\<forall>x. x \<notin> set (?p # fs) \<longrightarrow> h x = pcbs s x"
    using allocPcb_refines [of s ?p fs] V by blast
  let ?s1 = "s\<lparr>pcbFree_h := head_ptr fs, pcbs := h, processCount := processCount s + 1, procp := (procp s)(i := Some ?p)\<rparr>"
  have notin: "x \<notin> set (?p # fs)" if "x \<in> set (?B k)" for x k
  proof -
    have "x \<in> set (map (slot as) J)" using filled_mem [OF that] by simp
    then show ?thesis using V by (simp add: disjoint_iff) blast
  qed
  have asl1: "asl ?s1 ?B"
    by (rule asl_frame [of s]) (use V h(3) notin in \<open>auto simp: same_queue_fields_def\<close>)
  have pB: "?p \<notin> set (?B k)" for k using notin [of ?p k] by auto
  have room: "?B ?a \<noteq> [] \<or> semdFree_h ?s1 \<noteq> None" using sems_room [OF asl1 filled_sems [OF J(1)]] by simp
  have a: "?a \<noteq> MAXADD" using ok J(2) by (simp add: sems_ok_def)
  obtain s2 where s2: "insertBlocked ?a (Some ?p) ?s1 = Some (False, s2)" "asl s2 (?B(?a := ?B ?a @ [?p]))"
    "asl_step ?s1 s2 ?p ?a (insert ?p (set (?B ?a)))"
    using insertBlocked_refines [OF asl1 pB a room] by blast
  have B: "?B(?a := ?B ?a @ [?p]) = filled U as (J @ [i])" using filled_new [OF ok J(1-3), of as] by simp
  have "free_list s2 fs"
  proof (rule free_list_frame)
    show "free_list ?s1 fs" using h(2) by simp
    show "pcbFree_h s2 = pcbFree_h ?s1" using asl_step_alloc [OF s2(3)] by simp
    fix x assume x: "x \<in> set fs"
    then have "x \<noteq> ?p" using V by auto
    moreover have "x \<notin> insert ?p (set (?B ?a))" using x V notin [of x ?a] by auto
    then have "pcbs s2 x = ((pcbs ?s1)(?p := (pcbs ?s1 ?p)\<lparr>p_semAdd := ?a\<rparr>)) x"
      using s2(3) links_only_outside unfolding asl_step_def by blast
    ultimately show "p_next (pcbs s2 x) = p_next (pcbs ?s1 x)" "p_prev (pcbs s2 x) = p_prev (pcbs ?s1 x)" by simp_all
  qed
  moreover have "prints U n s2" "procp s2 = (procp s)(i := Some ?p)"
    using asl_step_vars [OF s2(3)] V by simp_all
  ultimately have "fill_view U n as (J @ [i]) fs s2"
    using V s2(2) J(3) unfolding fill_view_def B by auto
  moreover have "alloc_procp i s = Some ?s1" using h(1) by (simp add: alloc_procp_def)
  moreover have "insertBlocked ?a (procp ?s1 i) ?s1 = Some (False, s2)" using s2(1) by simp
  ultimately show ?thesis by (intro runs_Cons runs_perform runs_err_if runs_Nil)
qed

lemma fill_loop:
  assumes ok: "sems_ok U" and v: "fill_view U n as J (map (slot as) [k..<l] @ fs) s" and J: "set J \<subseteq> {..<20}" "set J \<inter> {k..<l} = {}"
    and kl: "k \<le> l" "l \<le> 20"
    and Q: "\<And>s'. fill_view U n as (J @ [k..<l]) fs s' \<Longrightarrow> Q s'"
  shows "runs (for_loop k l (\<lambda>i. [perform (alloc_procp i), err_if U (\<lambda>s. insertBlocked (sem_at U i) (procp s i) s) m])) s Q"
proof (rule runs_for [where I = "\<lambda>i. fill_view U n as (J @ [k..<i]) (map (slot as) [i..<l] @ fs)"])
  fix i t assume i: "k \<le> i" "i < l" and I: "fill_view U n as (J @ [k..<i]) (map (slot as) [i..<l] @ fs) t"
  have c: "[i..<l] = i # [Suc i..<l]" "[k..<Suc i] = [k..<i] @ [i]" using i by (simp_all add: upt_conv_Cons)
  show "runs (block [perform (alloc_procp i), err_if U (\<lambda>s. insertBlocked (sem_at U i) (procp s i) s) m]) t
    (fill_view U n as (J @ [k..<Suc i]) (map (slot as) [Suc i..<l] @ fs))"
    unfolding c(2) append_assoc [symmetric]
    by (rule fill_step [OF ok]) (use I c(1) J kl i in auto)
qed (use v kl Q in auto)

lemma initASL_frame: "prints U n (initASL s) = prints U n s" "free_list (initASL s) fs = free_list s fs"
  by (simp_all add: initASL_def Let_def split_beta free_list_def)

lemma fill_view_io:
  assumes v: "fill_view U n as J fs s" and io: "io_only s s'" "prints U n' s'"
  shows "fill_view U n' as J fs s'"
proof -
  have "asl s' (filled U as J)"
    by (rule asl_frame [of s]) (use v in \<open>simp_all add: fill_view_def io_onlyD [OF io(1)] same_queue_fields_def\<close>)
  moreover have "free_list s' fs"
    by (rule free_list_frame [of s]) (use v in \<open>simp_all add: fill_view_def io_onlyD [OF io(1)]\<close>)
  ultimately show ?thesis using v io(2) by (simp add: fill_view_def io_onlyD [OF io(1)])
qed

lemma runs_fill_print:
  assumes "fill_view U n as J fs s" "length msg \<le> n" "\<And>s'. fill_view U (n - length msg) as J fs s' \<Longrightarrow> Q s'"
  shows "runs (addokbuf U msg) s Q"
proof (rule runs_addokbuf [OF _ assms(2)])
  show "prints U n s" using assms(1) by (simp add: fill_view_def)
qed (rule assms(3), rule fill_view_io [OF assms(1)])

lemma fill_capacity:
  assumes ok: "sems_ok U" and J: "set J \<subseteq> {..<20}" "distinct J" "11 \<in> set J"
    and V: "answers U s" "asl s (filled U as J)" "procp s 9 = Some (slot as 9)"
  shows "stops (block [perform (set_p (removeBlocked (sem_at U 11))),
      err_if U (\<lambda>s. insertBlocked (sem_at U 11) (p1_p s) s) m,
      err_if U (\<lambda>s. do { (r, s) \<leftarrow> insertBlocked (adr_onesem U) (procp s 9) s; Some (r = False, s) })
        ''insertBlocked: inserted more than MAXPROC   '']) ''insertBlocked: inserted more than MAXPROC   '' s"
proof -
  let ?B = "filled U as J"
  have a11: "sem_at U 11 \<noteq> MAXADD" "adr_onesem U \<noteq> MAXADD" using ok by (simp_all add: sems_ok_def)
  have B11: "?B (sem_at U 11) = [slot as 11]" by (rule filled_at [OF ok J])
  obtain s6 where s6: "removeBlocked (sem_at U 11) s = Some (Some (slot as 11), s6)" "asl s6 (?B(sem_at U 11 := []))"
    "asl_step s s6 (slot as 11) 0 (set (?B (sem_at U 11)))"
    using removeBlocked_refines [OF V(2) B11] by blast
  let ?s6 = "s6\<lparr>p1_p := Some (slot as 11)\<rparr>" and ?B6 = "?B(sem_at U 11 := [])"
  have A6: "asl ?s6 ?B6" using s6(2) by simp
  have sub: "{a. ?B6 a \<noteq> []} \<subseteq> sem_at U ` {..<20}" using filled_sems [OF J(1), of U as] by auto
  have notin: "slot as 11 \<notin> set (?B6 k)" for k
    using asl_disjoint [OF V(2), of "slot as 11" "sem_at U 11" k] B11 by auto
  have room6: "?B6 (sem_at U 11) \<noteq> [] \<or> semdFree_h ?s6 \<noteq> None" using sems_room [OF A6 sub] by simp
  obtain s7 where s7: "insertBlocked (sem_at U 11) (Some (slot as 11)) ?s6 = Some (False, s7)"
    "asl s7 (?B6(sem_at U 11 := ?B6 (sem_at U 11) @ [slot as 11]))"
    "asl_step ?s6 s7 (slot as 11) (sem_at U 11) (insert (slot as 11) (set (?B6 (sem_at U 11))))"
    using insertBlocked_refines [OF A6 notin a11(1) room6] by blast
  let ?B7 = "?B6(sem_at U 11 := ?B6 (sem_at U 11) @ [slot as 11])"
  have sub7: "{a. ?B7 a \<noteq> []} \<subseteq> sem_at U ` {..<20}"
  proof
    fix a assume "a \<in> {a. ?B7 a \<noteq> []}"
    then show "a \<in> sem_at U ` {..<20}" using sub by (cases "a = sem_at U 11") auto
  qed
  have "adr_onesem U \<notin> sem_at U ` {..<20}"
  proof
    assume "adr_onesem U \<in> sem_at U ` {..<20}"
    then obtain i where i: "i < 20" "adr_onesem U = sem_at U i" by auto
    have "sem_at U i \<noteq> adr_onesem U" using ok i(1) by (simp add: sems_ok_def)
    then show False using i(2) by simp
  qed
  then have "adr_onesem U \<notin> {a. ?B7 a \<noteq> []}" using subsetD [OF sub7] by (rule contrapos_nn)
  then have one: "?B7 (adr_onesem U) = []" by (simp only: mem_Collect_eq not_not)
  have P7: "answers U s7" "procp s7 9 = Some (slot as 9)"
    using asl_step_vars(2,3) [OF s7(3)] asl_step_vars(2,3) [OF s6(3)] V(1,3) by (simp_all add: answers_def)
  obtain s8 where s8: "insertBlocked (adr_onesem U) (Some (slot as 9)) s7 = Some (False, s8)"
    "s8 = s7\<lparr>semdFree_h := semdFree_h s8, semd_table := semd_table s8, pcbs := pcbs s8\<rparr>"
    using insertBlocked_any_process [OF s7(2) a11(2) one sems_room [OF s7(2) sub7]] by blast
  have P8: "answers U s8" by (subst s8(2)) (use P7(1) in \<open>simp add: answers_def\<close>)
  show ?thesis
    apply (rule ends_Cons, rule runs_perform [where s' = ?s6], use s6(1) in \<open>simp add: set_p_def\<close>)
    apply (rule ends_Cons, rule runs_err_if [where s' = s7], use s7(1) in simp)
    apply (rule ends_here, rule stops_err_if [where s' = s8], use s8(1) P7(2) P8 in \<open>simp_all add: ERRBUF_LEN_def\<close>)
    done
qed

lemma fill_run:
  assumes ok: "sems_ok U" and p: "prints U n s" "150 \<le> n" and fl: "free_list s (as @ rest)" and l: "length as = 20"
    and Q: "\<And>s' m. n - 150 \<le> m \<Longrightarrow> fill_view U m as ([10..<20] @ [0..<10]) rest s' \<Longrightarrow> Q s'"
  shows "runs (block (take 6 (main_asl_fill U))) s Q"
proof -
  have as: "as = map (slot as) [10..<20] @ map (slot as) [0..<10]"
    by (rule nth_equalityI) (auto simp: l slot_def nth_append simp del: upt_rec_numeral)
  have d: "distinct (as @ rest)" using fl by (simp add: free_list_def)
  have v0: "fill_view U n as [] (map (slot as) [10..<20] @ map (slot as) [0..<10] @ rest) (initASL s)"
    unfolding append_assoc [symmetric] as [symmetric] using p fl d initASL_asl [of s]
    by (simp add: fill_view_def initASL_frame filled_def [abs_def])
  have six: "(6::nat) = Suc (Suc (Suc (Suc (Suc (Suc 0)))))" by simp
  show ?thesis unfolding main_asl_fill_def P1_MAXPROC_def six take_Suc_Cons take_0
    apply (rule runs_Cons, rule runs_perform, rule refl)
    apply (rule runs_Cons, rule runs_fill_print [OF v0], use p(2) in simp)
    apply (rule runs_Cons, erule runs_fill_print, use p(2) in simp)
    apply (rule runs_Cons, erule fill_loop [OF ok], simp, simp, simp, simp)
    apply (rule runs_Cons, erule runs_fill_print, use p(2) in simp)
    apply (rule runs_Cons, erule fill_loop [OF ok, of _ _ _ 0 10], simp, simp, simp, simp)
    apply (unfold append_Nil, rule runs_Nil, erule Q [rotated], simp)
    done
qed

text \<open>
  The test of the semaphore list stops as well, at the check that the descriptors run
  out: with twenty free blocks, all twenty semaphores of the test get their process and a
  removed descriptor is used again, but the kernel has 40 descriptors and not 20, so that the
  twenty-first semaphore is accepted and main ends in PANIC with that message.
\<close>

theorem asl_test_stops:
  assumes ok: "sems_ok U" and p: "prints U 200 s" and fl: "free_list s (as @ rest)" and l: "length as = 20"
  shows "stops (block (main_asl_fill U)) ''insertBlocked: inserted more than MAXPROC   '' s"
proof -
  let ?msg = "''insertBlocked: inserted more than MAXPROC   ''" and ?J = "[10..<20] @ [0..<10]"
  have J: "set ?J \<subseteq> {..<20}" "distinct ?J" "11 \<in> set ?J" by auto
  have "stops (block (take 6 (main_asl_fill U) @ drop 6 (main_asl_fill U))) ?msg s"
  proof (rule ends_append, rule fill_run [OF ok p _ fl l])
    fix s' m assume v: "fill_view U m as ?J rest s'"
    have "procp s' 9 = Some (slot as 9)" "answers U s'" "asl s' (filled U as ?J)"
      using v unfolding fill_view_def prints_def by auto
    from fill_capacity [OF ok J this(2,3,1)] show "stops (block (drop 6 (main_asl_fill U))) ?msg s'"
      by (simp add: main_asl_fill_def)
  qed simp
  then show ?thesis by simp
qed

lemma p1_sems_ok: "sems_ok p1_umps3"
proof -
  have e: "word_of_nat (0x20010000 + 4 * i) = sem_at p1_umps3 i" for i
    by (simp add: sem_at_def p1_umps3_def umps.extend_def umps3_def)
  have u: "unat (sem_at p1_umps3 i) = 0x20010000 + 4 * i" if "i < 20" for i
    by (rule of_nat_inverse [OF e]) (use that in simp)
  have "inj_on (sem_at p1_umps3) {..<20}"
  proof (rule inj_onI)
    fix i j :: nat assume ij: "i \<in> {..<20}" "j \<in> {..<20}" and eq: "sem_at p1_umps3 i = sem_at p1_umps3 j"
    have "0x20010000 + 4 * i = 0x20010000 + 4 * j" using u [of i] u [of j] ij unfolding eq by simp
    then show "i = j" by simp
  qed
  moreover have "sem_at p1_umps3 i \<noteq> a" if "i < 20" "unat a \<ge> 0x20020000" for i a
    using u [OF that(1)] that by auto
  ultimately show ?thesis
    by (auto simp: sems_ok_def MAXADD_def p1_umps3_def umps.extend_def umps3_def)
qed

theorem asl_test_stops_witness:
  "\<exists>s'. block (main_asl_fill p1_umps3) (initPcbs p1_start) = Some (Inl s') \<and>
     holds_string (errbuf s') 0 ''insertBlocked: inserted more than MAXPROC   ''"
  using asl_test_stops [OF p1_sems_ok p1_start_prints p1_twenty] by (simp add: ends_def)

subsection \<open>Emptying\<close>

text \<open>The first \<open>k\<close> of the processes 10 to 19 have been moved behind those of the semaphores 0 to 9.\<close>

definition moved :: "p1_umps \<Rightarrow> (nat \<Rightarrow> nat) \<Rightarrow> nat \<Rightarrow> (u32 \<Rightarrow> nat list) \<Rightarrow> bool" where
  "moved U f k B \<longleftrightarrow> (\<forall>j < 10. B (sem_at U j) = (if j < k then [f j, f (j + 10)] else [f j]) \<and>
     B (sem_at U (j + 10)) = (if j < k then [] else [f (j + 10)]))"

definition drain_view :: "p1_umps \<Rightarrow> nat \<Rightarrow> (nat \<Rightarrow> nat) \<Rightarrow> (u32 \<Rightarrow> nat list) \<Rightarrow> p1_state \<Rightarrow> bool" where
  "drain_view U n f B s \<longleftrightarrow> prints U n s \<and> asl s B \<and> (\<forall>j < 20. procp s j = Some (f j))"

lemma drain_view_print:
  assumes v: "drain_view U n f B s" and "length msg \<le> n" and Q: "\<And>s'. drain_view U (n - length msg) f B s' \<Longrightarrow> Q s'"
  shows "runs (addokbuf U msg) s Q"
proof (rule runs_addokbuf [OF _ assms(2)])
  show "prints U n s" using v by (simp add: drain_view_def)
  fix s' assume io: "io_only s s'" and p: "prints U (n - length msg) s'"
  have "asl s' B"
    by (rule asl_frame [of s]) (use v in \<open>simp_all add: drain_view_def io_onlyD [OF io] same_queue_fields_def\<close>)
  then show "Q s'" using v p by (intro Q) (simp add: drain_view_def io_onlyD [OF io])
qed

lemma drain_view_step:
  assumes "drain_view U n f B s" "asl_step s s' p v S" "asl s' B'"
  shows "drain_view U n f B' s'" "p1_q s' = p1_q s"
  using assms asl_step_vars [OF assms(2)] by (simp_all add: drain_view_def)

lemma drain_view_vars [simp]:
  "drain_view U n f B (s\<lparr>p1_q := a\<rparr>) = drain_view U n f B s" "drain_view U n f B (s\<lparr>p1_p := a\<rparr>) = drain_view U n f B s"
  by (simp_all add: drain_view_def)

lemma move_step:
  assumes ok: "sems_ok U" and v: "drain_view U n f B s" "moved U f k B" and k: "k < 10"
  shows "runs (block [perform (set_q (removeBlocked (sem_at U (k + 10)))),
      err_if U (test_that (\<lambda>s. p1_q s = None)) m1, err_if U (test_that (\<lambda>s. p1_q s \<noteq> procp s (k + 10))) m2,
      err_if U (\<lambda>s. insertBlocked (sem_at U (k + 10 - 10)) (p1_q s) s) m3]) s
    (\<lambda>s. \<exists>B. drain_view U n f B s \<and> moved U f (Suc k) B)"
proof -
  let ?a = "sem_at U (k + 10)" and ?b = "sem_at U k" and ?p = "f (k + 10)"
  have A: "asl s B" "B ?a = [?p]" "B ?b = [f k]" using v k by (auto simp: drain_view_def moved_def)
  have ab: "?a \<noteq> ?b" "?b \<noteq> MAXADD" using sem_at_eq [OF ok, of "k + 10" k] ok k by (auto simp: sems_ok_def)
  obtain s1 where s1: "removeBlocked ?a s = Some (Some ?p, s1)" "asl s1 (B(?a := []))" "asl_step s s1 ?p 0 (set (B ?a))"
    using removeBlocked_refines [OF A(1,2)] by blast
  let ?s2 = "s1\<lparr>p1_q := Some ?p\<rparr>" and ?B1 = "B(?a := [])"
  have v2: "drain_view U n f ?B1 ?s2" using drain_view_step [OF v(1) s1(3,2)] by simp
  have notin: "?p \<notin> set (?B1 c)" for c using asl_disjoint [OF A(1), of ?p ?a c] A(2) by auto
  obtain s3 where s3: "insertBlocked ?b (Some ?p) ?s2 = Some (False, s3)" "asl s3 (?B1(?b := ?B1 ?b @ [?p]))"
    "asl_step ?s2 s3 ?p ?b (insert ?p (set (?B1 ?b)))"
    using insertBlocked_refines [of ?s2 ?B1 ?p ?b] s1(2) notin ab A(3) by auto
  have v3: "drain_view U n f (?B1(?b := ?B1 ?b @ [?p])) s3" by (rule drain_view_step [OF v2 s3(3,2)])
  have "moved U f (Suc k) (?B1(?b := ?B1 ?b @ [?p]))"
    using v(2) k A(3) ab(1) unfolding moved_def
    by (auto simp: sem_at_eq [OF ok] less_Suc_eq)
  then show ?thesis using v3 v2
    by (intro runs_Cons runs_perform [where s' = ?s2] runs_err_if [where s' = ?s2] runs_err_if [where s' = s3] runs_Nil exI conjI)
      (use s1(1) s3(1) k in \<open>auto simp: set_q_def test_that_def drain_view_def\<close>)
qed

lemma drain_view_out:
  assumes v: "drain_view U n f B s" and q: "p1_q s = Some p" "B a = p # ys"
    and Q: "\<And>s'. drain_view U n f (B(a := ys)) s' \<Longrightarrow> p1_q s' = Some p \<Longrightarrow> p1_p s' = Some p \<Longrightarrow> runs (block cs) s' Q"
  shows "runs (block (perform (\<lambda>s. set_p (outBlocked (p1_q s)) s) # cs)) s Q"
proof -
  have A: "asl s B" using v by (simp add: drain_view_def)
  obtain s1 where s1: "outBlocked (Some p) s = Some (Some p, s1)" "asl s1 (B(a := remove1 p (B a)))" "asl_step s s1 p 0 (set (B a))"
    using outBlocked_refines [OF A, of p a] q(2) by auto
  then have "drain_view U n f (B(a := ys)) (s1\<lparr>p1_p := Some p\<rparr>)" "p1_q s1 = Some p"
    using drain_view_step [OF v s1(3,2)] q by auto
  then show ?thesis using s1(1) q(1) Q [of "s1\<lparr>p1_p := Some p\<rparr>"]
    by (intro runs_Cons runs_perform [where s' = "s1\<lparr>p1_p := Some p\<rparr>"]) (auto simp: set_p_def)
qed

lemma drain_view_test:
  assumes "drain_view U n f B s" "drain_view U n f B s \<Longrightarrow> c s = Some (False, s)" "drain_view U n f B s \<Longrightarrow> runs (block cs) s Q"
  shows "runs (block (err_if U c m # cs)) s Q"
  using assms by (intro runs_Cons runs_err_if)

lemma drain_view_head: "drain_view U n f B s \<Longrightarrow> headBlocked a s = Some (head_ptr (B a))"
  by (simp add: drain_view_def headBlocked_refines)

lemma drain_tail:
  assumes ok: "sems_ok U" and v: "drain_view U n f B s" and m: "moved U f 10 B" and n: "130 \<le> n"
    and Q: "\<And>s' n. drain_view U n f (B(sem_at U 9 := [])) s' \<Longrightarrow> Q s'"
  shows "runs (block (drop 2 (main_asl_drain U))) s Q"
proof -
  have B: "B (sem_at U 9) = [f 9, f 19]" "B (sem_at U 11) = []"
    using m [unfolded moved_def, rule_format, of 9] m [unfolded moved_def, rule_format, of 1] by simp_all
  have a: "sem_at U 11 \<noteq> MAXADD" "sem_at U 9 \<noteq> sem_at U 11" "sem_at U 11 \<noteq> sem_at U 9"
    using ok sem_at_eq [OF ok, of 9 11] by (auto simp: sems_ok_def)
  let ?B1 = "B(sem_at U 9 := [f 19])" and ?B2 = "B(sem_at U 9 := [f 19], sem_at U 9 := [])"
  have B2: "?B2 = B(sem_at U 9 := [])" by simp
  have gone: "f 19 \<notin> set (?B2 k)" for k
    using asl_disjoint [of s B "f 19" "sem_at U 9" k] v B(1) by (auto simp: drain_view_def)
  have miss: "removeBlocked (sem_at U 11) s = Some (None, s)"
    using removeBlocked_empty [of s B "sem_at U 11"] v B(2) a(1) by (simp add: drain_view_def)
  show ?thesis unfolding main_asl_drain_def
    apply (simp only: drop_Suc_Cons drop_0 numeral_2_eq_2)
    apply (rule drain_view_test [OF v], use miss in \<open>simp add: not_null_def\<close>)
    apply (rule runs_Cons, erule drain_view_print, use n in simp)
    apply (erule drain_view_test, simp add: drain_view_head B)
    subgoal for s1
      apply (rule runs_Cons, rule runs_err_if [where s' = "s1\<lparr>p1_q := Some (f 9)\<rparr>"], simp add: drain_view_head B)
      apply (rule drain_view_test [where B = B and f = f], simp, simp add: test_that_def drain_view_def)
      apply (erule drain_view_out [where p = "f 9" and a = "sem_at U 9"], simp, simp add: B)
      apply (erule drain_view_test, simp add: test_that_def)
      subgoal for s2
        apply (rule runs_Cons, rule runs_perform [where s' = "s2\<lparr>p1_q := Some (f 19)\<rparr>"], simp add: drain_view_head)
        apply (rule drain_view_test [where B = ?B1 and f = f], simp, simp add: test_that_def)
        apply (erule drain_view_test, simp add: test_that_def drain_view_def)
        apply (erule drain_view_out [where p = "f 19" and a = "sem_at U 9"], simp, simp)
        apply (erule drain_view_test, simp add: test_that_def)
        subgoal for s3
          apply (rule runs_Cons, rule runs_perform [where s' = "s3\<lparr>p1_p := None\<rparr>"])
           apply (use outBlocked_missing [of s3 ?B2 "f 19", OF _ gone] in \<open>simp add: set_p_def drain_view_def\<close>)
          apply (rule drain_view_test [where B = ?B2 and f = f], simp, simp add: test_that_def)
          apply (erule drain_view_test, simp add: drain_view_head)
          apply (rule runs_Cons, erule drain_view_print, use n in simp)
          apply (rule runs_Cons, erule drain_view_print, use n in simp)
          apply (rule runs_Cons, erule drain_view_print, use n in simp)
          apply (rule runs_Nil, rule Q, simp only: B2)
          done
        done
      done
    done
qed

lemma runs_drain:
  assumes ok: "sems_ok U" and v: "drain_view U 200 f B s" and m: "moved U f 0 B"
  shows "runs (block (main_asl_drain U)) s (\<lambda>s'. \<exists>B'. asl s' B' \<and>
      (\<forall>j < 9. B' (sem_at U j) = [f j, f (j + 10)]) \<and> B' (sem_at U 9) = [] \<and> (\<forall>j < 10. B' (sem_at U (j + 10)) = []))"
    (is "runs _ _ ?Q")
proof -
  let ?I = "\<lambda>i s. \<exists>B. drain_view U 170 f B s \<and> moved U f (i - 10) B"
  let ?body = "\<lambda>i. [perform (set_q (removeBlocked (sem_at U i))),
       err_if U (test_that (\<lambda>s. p1_q s = None)) ''removeBlocked: wouldn't remove   '',
       err_if U (test_that (\<lambda>s. p1_q s \<noteq> procp s i)) ''removeBlocked: removed wrong element   '',
       err_if U (\<lambda>s. insertBlocked (sem_at U (i - 10)) (p1_q s) s) ''insertBlocked(3): unexpected TRUE   '']"
  have e: "main_asl_drain U = [addokbuf U ''removeBlocked test started   \<newline>'', for_loop 10 20 ?body] @ drop 2 (main_asl_drain U)"
    by (simp add: main_asl_drain_def P1_MAXPROC_def)
  have loop: "runs (for_loop 10 20 ?body) s1 (?I 20)" if "drain_view U 170 f B s1" for s1
  proof (rule runs_for [where I = ?I])
    show "?I 10 s1" using that m by auto
    fix i t assume i: "10 \<le> i" "i < (20::nat)" and I: "?I i t"
    obtain k where k: "i = k + 10" "k < 10" using i by (metis add_diff_inverse_nat add.commute less_diff_conv2 not_less numeral_Bit0)
    show "runs (block (?body i)) t (?I (Suc i))"
      using move_step [OF ok _ _ k(2)] I unfolding k(1) by (auto simp: Suc_diff_le)
  qed auto
  have tail: "runs (block (drop 2 (main_asl_drain U))) s2 ?Q" if I: "?I 20 s2" for s2
  proof -
    obtain B' where B': "drain_view U 170 f B' s2" "moved U f 10 B'" using I by auto
    show ?thesis
    proof (rule drain_tail [OF ok B'])
      fix s' n assume v: "drain_view U n f (B'(sem_at U 9 := [])) s'"
      have ne: "sem_at U j \<noteq> sem_at U 9" if "j < 20" "j \<noteq> 9" for j using sem_at_eq [OF ok that(1), of 9] that(2) by simp
      have "B' (sem_at U j) = [f j, f (j + 10)]" "B' (sem_at U (j + 10)) = []" if "j < 10" for j
        using B'(2) that by (simp_all add: moved_def)
      then show "?Q s'" using v ne by (intro exI [of _ "B'(sem_at U 9 := [])"]) (auto simp: drain_view_def)
    qed simp
  qed
  show ?thesis
    by (subst e, rule runs_append, rule runs_Cons, rule drain_view_print [OF v], simp)
      (rule runs_Cons, rule runs_mono [OF loop], simp, rule runs_Nil, rule tail)
qed

text \<open>
  Emptying the semaphores works.  Started with process procp[i] on semaphore i for
  all twenty, the rest of main runs to its end: the processes 10 to 19 are moved
  behind those of the semaphores 0 to 9, the queue of semaphore 9 is then taken apart from
  its head, and the three answers for processes and semaphores that are no longer there are
  NULL.
\<close>

theorem asl_drain_passes:
  assumes ok: "sems_ok U" and p: "prints U 200 s" and A: "asl s B"
    and f: "\<forall>i < 20. B (sem_at U i) = [f i] \<and> procp s i = Some (f i)"
  shows "\<exists>s' B'. block (main_asl_drain U) s = Some (Inr s') \<and> asl s' B' \<and>
    (\<forall>j < 9. B' (sem_at U j) = [f j, f (j + 10)]) \<and> B' (sem_at U 9) = [] \<and> (\<forall>j < 10. B' (sem_at U (j + 10)) = [])"
proof -
  have v0: "drain_view U 200 f B s" using p A f by (simp add: drain_view_def)
  have m0: "moved U f 0 B" using f by (simp add: moved_def)
  show ?thesis
    using runs_drain [OF ok v0 m0] by (auto simp: runs_def)
qed

theorem asl_drain_passes_witness:
  "\<exists>s s' B'. block (take 6 (main_asl_fill p1_umps3)) (initPcbs p1_start) = Some (Inr s) \<and>
     block (main_asl_drain p1_umps3) s = Some (Inr s') \<and> asl s' B' \<and> B' (sem_at p1_umps3 8) = [18, 8] \<and> B' (sem_at p1_umps3 9) = []"
proof -
  have "runs (block (take 6 (main_asl_fill p1_umps3))) (initPcbs p1_start) (\<lambda>s. \<exists>s' B'.
     block (main_asl_drain p1_umps3) s = Some (Inr s') \<and> asl s' B' \<and> B' (sem_at p1_umps3 8) = [18, 8] \<and> B' (sem_at p1_umps3 9) = [])"
  proof (rule fill_run [OF p1_sems_ok p1_start_prints [of 400] _ p1_twenty])
    fix s m assume m: "400 - 150 \<le> m" and v: "fill_view p1_umps3 m [0..<20] ([10..<20] @ [0..<10]) [20..<MAXPROC] s"
    let ?f = "slot [0..<20]" and ?B = "filled p1_umps3 [0..<20] ([10..<20] @ [0..<10])"
    have J: "set ([10..<20] @ [0..<10]) \<subseteq> {..<20::nat}" "distinct ([10..<20] @ [0..<10::nat])" by auto
    have "?B (sem_at p1_umps3 i) = [?f i] \<and> procp s i = Some (?f i)" if "i < 20" for i
    proof -
      have i: "i \<in> set ([10..<20] @ [0..<10])" using that by (simp del: upt_rec_numeral) linarith
      then have "procp s i = Some (?f i)" using v unfolding fill_view_def by blast
      with filled_at [OF p1_sems_ok J i] show ?thesis by blast
    qed
    moreover have "prints p1_umps3 200 s" using v m prints_mono [of p1_umps3 m s 200] unfolding fill_view_def by linarith
    moreover have "asl s ?B" using v unfolding fill_view_def by blast
    ultimately obtain s' B' where s': "block (main_asl_drain p1_umps3) s = Some (Inr s')" "asl s' B'"
      "\<forall>j < 9. B' (sem_at p1_umps3 j) = [?f j, ?f (j + 10)]" "B' (sem_at p1_umps3 9) = []"
      using asl_drain_passes [OF p1_sems_ok, of s ?B ?f] by blast
    have "?f 8 = 18" "?f (8 + 10) = 8" by (simp_all add: slot_def)
    then have "B' (sem_at p1_umps3 8) = [18, 8]" using s'(3) [rule_format, of 8] by (simp del: upt_rec_numeral)
    with s' show "\<exists>s' B'. block (main_asl_drain p1_umps3) s = Some (Inr s') \<and> asl s' B' \<and>
      B' (sem_at p1_umps3 8) = [18, 8] \<and> B' (sem_at p1_umps3 9) = []" by blast
  qed simp_all
  then show ?thesis by (auto simp: runs_def)
qed

end
