(* ===== verification/P2_Test.thy ===== *)
theory P2_Test
  imports P3_Test Statements
begin

text \<open>
  The test program of phase 2, \<open>src/p2test.c\<close>: the process \<open>test\<close> and the processes it starts,
  which run on the nucleus in kernel mode, without the support level.

  Each process is a program (theory \<open>Statements\<close>) over the state of the system, with the
  system calls as the parameter \<open>kernel\<close>, as at the support level.  It leaves with a call that
  does not come back (\<open>Leaves\<close>: SYS2, PANIC, or loading a state) or with a store that traps
  (\<open>Traps\<close>, with the address).  The global variables of the program are \<open>int\<close>s at addresses
  the linker chooses; local variables are bound by \<open>\<lambda>\<close>.  \<open>STST\<close> stores the processor's
  state: its successive results in \<open>test\<close> are the argument \<open>cpu\<close>.
\<close>

datatype p2_end = Leaves outcome | Traps u32

type_synonym p2_stmt = "(p2_end \<times> sup_state, sup_state) stmt"

record p2_umps = supp_umps +
  TLBWR :: "cp0 \<Rightarrow> cp0"
  adr_term_mut :: u32
  adr_s :: u32
  adr_testsem :: u32
  adr_startp2 :: u32
  adr_endp2 :: u32
  adr_endp3 :: u32
  adr_blkp4 :: u32
  adr_synp4 :: u32
  adr_endp4 :: u32
  adr_endp5 :: u32
  adr_endp8 :: u32
  adr_endcreate :: u32
  adr_blkp8 :: u32
  adr_p1p2synch :: u32
  adr_p8inc :: u32
  adr_p4inc :: u32
  adr_p5Stack :: u32
  adr_creation :: u32
  adr_p5MemLocation :: u32
  adr_pFiveSupport :: u32
  adr_p2state :: u32
  adr_p3state :: u32
  adr_p4state :: u32
  adr_p5state :: u32
  adr_p6state :: u32
  adr_p7state :: u32
  adr_p8rootstate :: u32
  adr_child1state :: u32
  adr_child2state :: u32
  adr_gchild1state :: u32
  adr_gchild2state :: u32
  adr_gchild3state :: u32
  adr_gchild4state :: u32
  pc_p2 :: u32
  pc_p3 :: u32
  pc_p4 :: u32
  pc_p5 :: u32
  pc_p5a :: u32
  pc_p5b :: u32
  pc_p5gen :: u32
  pc_p5mm :: u32
  pc_p6 :: u32
  pc_p7 :: u32
  pc_p8root :: u32
  pc_child1 :: u32
  pc_child2 :: u32
  pc_p8leaf :: u32

definition CREATETHREAD :: u32 where "CREATETHREAD = 1"
definition TERMINATETHREAD :: u32 where "TERMINATETHREAD = 2"
definition PASSERN :: u32 where "PASSERN = 3"
definition WAITIO :: u32 where "WAITIO = 5"
definition GETCPUTIME :: u32 where "GETCPUTIME = 6"
definition WAITCLOCK :: u32 where "WAITCLOCK = 7"
definition GETSPTPTR :: u32 where "GETSPTPTR = 8"
definition CREATENOGOOD :: u32 where "CREATENOGOOD = - 1"
definition CLOCKINTERVAL :: u32 where "CLOCKINTERVAL = 100000"
definition CAUSEMASK :: u32 where "CAUSEMASK = 0xFF"
definition BUSERROR :: u32 where "BUSERROR = 6"
definition RESVINSTR :: u32 where "RESVINSTR = 10"
definition ADDRERROR :: u32 where "ADDRERROR = 4"
definition SYSCALLEXCPT :: u32 where "SYSCALLEXCPT = 8"
definition QPAGE :: u32 where "QPAGE = 1024"
definition IEPBITON :: u32 where "IEPBITON = 0x4"
definition KUPBITON :: u32 where "KUPBITON = 0x8"
definition KUPBITOFF :: u32 where "KUPBITOFF = 0xFFFFFFF7"
definition CAUSEINTMASK :: u32 where "CAUSEINTMASK = 0xFD00"
definition MINLOOPTIME :: u32 where "MINLOOPTIME = 30000"
definition CLOCKLOOP :: nat where "CLOCKLOOP = 10"
definition MINCLOCKLOOP :: u32 where "MINCLOCKLOOP = 3000"
definition BADADDR :: u32 where "BADADDR = 0xFFFFFFFF"
definition NOLEAVES :: nat where "NOLEAVES = 4"
definition P2_MAXSEM :: nat where "P2_MAXSEM = 20"

subsection \<open>Statements\<close>

definition sys :: "kernel \<Rightarrow> u32 \<Rightarrow> u32 \<Rightarrow> p2_stmt" where
  "sys K n a = perform (\<lambda>s. do { (v, s) \<leftarrow> syscall K n a 0 0 s; Some s })"

definition set_int :: "u32 \<Rightarrow> u32 \<Rightarrow> p2_stmt" where
  "set_int a v = perform (\<lambda>s. Some (put_int a v s))"

definition get_int :: "u32 \<Rightarrow> sup_state \<Rightarrow> u32" where
  "get_int a s = ints (nuc s) a"

definition stop_with :: "outcome \<Rightarrow> p2_stmt" where
  "stop_with x = leave (\<lambda>s. (Leaves x, s))"

definition upd_state :: "u32 \<Rightarrow> (state_t \<Rightarrow> state_t) \<Rightarrow> sup_state \<Rightarrow> sup_state" where
  "upd_state a f = on_nuc (\<lambda>n. n\<lparr>states := (states n)(a := f (states n a))\<rparr>)"

definition sp_of :: "p2_umps \<Rightarrow> u32 \<Rightarrow> sup_state \<Rightarrow> u32" where
  "sp_of V a s = gpr (states (nuc s) a) (ix_sp (nucl V))"

text \<open>\<open>STCK(t)\<close>.\<close>

definition stck :: "sup_state \<Rightarrow> u32 \<times> sup_state" where
  "stck s = (let (t, n) = read_tod (nuc s) in (t, s\<lparr>nuc := n\<rparr>))"

text \<open>\<open>n / (* ((cpu_t *) TIMESCALEADDR))\<close>; division by zero is undefined.\<close>

definition scaled :: "u32 \<Rightarrow> sup_state \<Rightarrow> u32 option" where
  "scaled n s = (let t = timescale (hardware (nuc s)) in if t = 0 then None else Some (word_of_int (sint n sdiv sint t)))"

subsection \<open>Printing\<close>

text \<open>\<open>*(base + 3) = PRINTCHR | (c << BYTELEN)\<close>, the wait for the interrupt and the test of its status.\<close>

definition p2_print_char :: "kernel \<Rightarrow> p2_umps \<Rightarrow> char \<Rightarrow> p2_stmt" where
  "p2_print_char K V c s = do {
     s \<leftarrow> transm_command_put (nucl V) (TERMINT (nucl V)) 0 (PRINTCHR OR push_bit BYTELENGTH (of_char c)) s;
     (stat, s) \<leftarrow> syscall K WAITIO (TERMINT (nucl V)) 0 0 s;
     if stat AND TERMSTATMASK \<noteq> RECVD then Some (Inl (Leaves PANIC, s)) else Some (Inr s)
   }"

definition p2_print :: "kernel \<Rightarrow> p2_umps \<Rightarrow> string \<Rightarrow> p2_stmt" where
  "p2_print K V msg = block [
     sys K PASSERN (adr_term_mut V),
     block (map (p2_print_char K V) msg),
     sys K VERHOGEN (adr_term_mut V)]"

definition p2_uTLB_RefillHandler :: "p2_umps \<Rightarrow> sup_state \<Rightarrow> (outcome \<times> sup_state) option" where
  "p2_uTLB_RefillHandler V s = do {
     let s = setENTRYHI 0x80000000 s;
     let s = setENTRYLO 0x00000000 s;
     let s = upd_cp (TLBWR V) s;
     st \<leftarrow> load_state 0x0FFFF000 (nuc s);
     Some (LDST st, s)
   }"

subsection \<open>The root process\<close>

text \<open>\<open>STST(&x); x.reg_sp = sp; x.pc_epc = x.reg_t9 = entry; x.status = x.status | ...\<close>\<close>

definition set_up :: "p2_umps \<Rightarrow> state_t \<Rightarrow> u32 \<Rightarrow> (sup_state \<Rightarrow> u32) \<Rightarrow> u32 \<Rightarrow> sup_state \<Rightarrow> sup_state" where
  "set_up V cpu a sp entry s =
     (let s = upd_state a (\<lambda>_. cpu) s;
          s = upd_state a (set_gpr (ix_sp (nucl V)) (sp s)) s;
          s = upd_state a (set_gpr (ix_t9 (nucl V)) entry) s;
          s = upd_state a (\<lambda>x. x\<lparr>pc_epc := entry\<rparr>) s
      in upd_state a (\<lambda>x. x\<lparr>status := status x OR IEPBITON OR CAUSEINTMASK OR TEBITON\<rparr>) s)"

definition test_states :: "p2_umps \<Rightarrow> (nat \<Rightarrow> state_t) \<Rightarrow> sup_state \<Rightarrow> sup_state" where
  "test_states V cpu s =
     (let sp = sp_of V;
          s = set_up V (cpu 0) (adr_p2state V) (\<lambda>s. sp (adr_p2state V) s - QPAGE) (pc_p2 V) s;
          s = set_up V (cpu 1) (adr_p3state V) (\<lambda>s. sp (adr_p2state V) s - QPAGE) (pc_p3 V) s;
          s = set_up V (cpu 2) (adr_p4state V) (\<lambda>s. sp (adr_p3state V) s - QPAGE) (pc_p4 V) s;
          s = set_up V (cpu 3) (adr_p5state V) (\<lambda>s. sp (adr_p4state V) s - (2 * QPAGE)) (pc_p5 V) s;
          s = put_int (adr_p5Stack V) (sp (adr_p5state V) s) s;
          s = set_up V (cpu 4) (adr_p6state V) (\<lambda>s. sp (adr_p5state V) s - (2 * QPAGE)) (pc_p6 V) s;
          s = set_up V (cpu 5) (adr_p7state V) (\<lambda>s. sp (adr_p6state V) s - QPAGE) (pc_p7 V) s;
          s = set_up V (cpu 6) (adr_p8rootstate V) (\<lambda>s. sp (adr_p7state V) s - QPAGE) (pc_p8root V) s;
          s = set_up V (cpu 7) (adr_child1state V) (\<lambda>s. sp (adr_p8rootstate V) s - QPAGE) (pc_child1 V) s;
          s = set_up V (cpu 8) (adr_child2state V) (\<lambda>s. sp (adr_child1state V) s - QPAGE) (pc_child2 V) s;
          s = set_up V (cpu 9) (adr_gchild1state V) (\<lambda>s. sp (adr_child2state V) s - QPAGE) (pc_p8leaf V) s;
          s = set_up V (cpu 10) (adr_gchild2state V) (\<lambda>s. sp (adr_gchild1state V) s - QPAGE) (pc_p8leaf V) s;
          s = set_up V (cpu 11) (adr_gchild3state V) (\<lambda>s. sp (adr_gchild2state V) s - QPAGE) (pc_p8leaf V) s
      in set_up V (cpu 12) (adr_gchild4state V) (\<lambda>s. sp (adr_gchild3state V) s - QPAGE) (pc_p8leaf V) s)"

text \<open>The passup contexts of p5.\<close>

definition p5_contexts :: "p2_umps \<Rightarrow> u32 \<Rightarrow> support_t \<Rightarrow> support_t" where
  "p5_contexts V sp x =
     (let c = sup_exceptContext x;
          c = c(GENERALEXCEPT := (c GENERALEXCEPT)\<lparr>stackPtr := sp\<rparr>);
          c = c(GENERALEXCEPT := (c GENERALEXCEPT)\<lparr>ctx_status := ALLOFF OR IEPBITON OR CAUSEINTMASK OR TEBITON\<rparr>);
          c = c(GENERALEXCEPT := (c GENERALEXCEPT)\<lparr>pc := pc_p5gen V\<rparr>);
          c = c(PGFAULTEXCEPT := (c PGFAULTEXCEPT)\<lparr>stackPtr := sp\<rparr>);
          c = c(PGFAULTEXCEPT := (c PGFAULTEXCEPT)\<lparr>ctx_status := ALLOFF OR IEPBITON OR CAUSEINTMASK OR TEBITON\<rparr>);
          c = c(PGFAULTEXCEPT := (c PGFAULTEXCEPT)\<lparr>pc := pc_p5mm V\<rparr>)
      in x\<lparr>sup_exceptContext := c\<rparr>)"

definition create :: "kernel \<Rightarrow> u32 \<Rightarrow> u32 \<Rightarrow> p2_stmt" where
  "create K st supp = perform (\<lambda>s. do { (v, s) \<leftarrow> syscall K CREATETHREAD st supp 0 s; Some s })"

definition p2_test :: "kernel \<Rightarrow> p2_umps \<Rightarrow> (nat \<Rightarrow> state_t) \<Rightarrow> p2_stmt" where
  "p2_test K V cpu = block [
     sys K VERHOGEN (adr_testsem V),
     p2_print K V ''p1 v(testsem)\<newline>'',
     perform (\<lambda>s. Some (test_states V cpu s)),
     create K (adr_p2state V) 0,
     p2_print K V ''p2 was started\<newline>'',
     sys K VERHOGEN (adr_startp2 V),
     sys K PASSERN (adr_endp2 V),
     if_then (\<lambda>s. get_int (adr_p1p2synch V) s = 0) [p2_print K V ''error: p1/p2 synchronization bad\<newline>''],
     create K (adr_p3state V) 0,
     p2_print K V ''p3 is started\<newline>'',
     sys K PASSERN (adr_endp3 V),
     create K (adr_p4state V) 0,
     perform (\<lambda>s. upd_supp (adr_pFiveSupport V) (p5_contexts V (get_int (adr_p5Stack V) s)) s),
     create K (adr_p5state V) (adr_pFiveSupport V),
     create K (adr_p6state V) 0,
     create K (adr_p7state V) 0,
     sys K PASSERN (adr_endp5 V),
     p2_print K V ''p1 knows p5 ended\<newline>'',
     sys K PASSERN (adr_blkp4 V),
     for_loop 0 4 (\<lambda>i. [
       set_int (adr_p8inc V) (of_nat i),
       perform (\<lambda>s. do { (v, s) \<leftarrow> syscall K CREATETHREAD (adr_p8rootstate V) 0 0 s; Some (put_int (adr_creation V) v s) }),
       if_then (\<lambda>s. get_int (adr_creation V) s = CREATENOGOOD) [
         p2_print K V ''error in process termination\<newline>'',
         stop_with PANIC],
       sys K PASSERN (adr_endp8 V)]),
     set_int (adr_p8inc V) 4,
     p2_print K V ''p1 finishes OK -- TTFN\<newline>'',
     leave (\<lambda>s. (Traps BADADDR, s)),
     p2_print K V ''error: p1 still alive after progtrap & no trap vector\<newline>'',
     stop_with PANIC]"

subsection \<open>p2: semaphores and CPU time\<close>

definition s_at :: "p2_umps \<Rightarrow> nat \<Rightarrow> u32" where
  "s_at V i = adr_s V + 4 * of_nat i"

text \<open>The values with which the variables of the test start.\<close>

definition p2_semaphores :: "p2_umps \<Rightarrow> (u32 \<times> u32) list" where
  "p2_semaphores V = [(adr_term_mut V, 1)] @ map (\<lambda>i. (s_at V i, 0)) [0..<P2_MAXSEM + 1] @
     [(adr_testsem V, 0), (adr_startp2 V, 0), (adr_endp2 V, 0), (adr_endp3 V, 0), (adr_blkp4 V, 1), (adr_synp4 V, 0),
      (adr_endp4 V, 0), (adr_endp5 V, 0), (adr_endp8 V, 0), (adr_endcreate V, 0), (adr_blkp8 V, 0)]"

definition p2_counters :: "p2_umps \<Rightarrow> (u32 \<times> u32) list" where
  "p2_counters V = [(adr_p1p2synch V, 0), (adr_p8inc V, 0), (adr_p4inc V, 1), (adr_p5Stack V, 0), (adr_creation V, 0),
     (adr_p5MemLocation V, 0)]"

definition load_globals :: "(u32 \<times> u32) list \<Rightarrow> (u32 \<Rightarrow> u32) \<Rightarrow> u32 \<Rightarrow> u32" where
  "load_globals gs I a = (case map_of gs a of None \<Rightarrow> I a | Some v \<Rightarrow> v)"

text \<open>The two loops over the array \<open>s\<close>.\<close>

definition p2_zero :: "p2_umps \<Rightarrow> p2_stmt" where
  "p2_zero V = for_loop 0 (P2_MAXSEM + 1) (\<lambda>i. [set_int (s_at V i) 0])"

definition p2_vp_loop :: "kernel \<Rightarrow> p2_umps \<Rightarrow> p2_stmt" where
  "p2_vp_loop K V = for_loop 0 (P2_MAXSEM + 1) (\<lambda>i. [
     sys K VERHOGEN (s_at V i),
     sys K PASSERN (s_at V i),
     if_then (\<lambda>s. get_int (s_at V i) s \<noteq> 0) [p2_print K V ''error: p2 bad v/p pairs\<newline>'']])"

text \<open>The messages about the measured times; the busy loop between the measurements has no effect.\<close>

definition p2_verdict :: "kernel \<Rightarrow> p2_umps \<Rightarrow> u32 \<Rightarrow> u32 \<Rightarrow> u32 \<Rightarrow> p2_stmt" where
  "p2_verdict K V real cpu least =
     (if sint real \<ge> sint cpu \<and> sint cpu \<ge> sint least then block [p2_print K V ''p2 is OK\<newline>'']
      else block [
        if_then (\<lambda>s. sint real < sint cpu) [p2_print K V ''error: more cpu time than real time\<newline>''],
        if_then (\<lambda>s. sint cpu < sint least) [p2_print K V ''error: not enough cpu time went by\<newline>''],
        p2_print K V ''p2 blew it!\<newline>''])"

definition p2_times :: "kernel \<Rightarrow> p2_umps \<Rightarrow> p2_stmt" where
  "p2_times K V s = do {
     let (now1, s) = stck s;
     (cpu_t1, s) \<leftarrow> syscall K GETCPUTIME 0 0 0 s;
     (cpu_t2, s) \<leftarrow> syscall K GETCPUTIME 0 0 0 s;
     let (now2, s) = stck s;
     least \<leftarrow> scaled MINLOOPTIME s;
     p2_verdict K V (now2 - now1) (cpu_t2 - cpu_t1) least s
   }"

definition p2 :: "kernel \<Rightarrow> p2_umps \<Rightarrow> p2_stmt" where
  "p2 K V = block [
     sys K PASSERN (adr_startp2 V),
     p2_print K V ''p2 starts\<newline>'',
     p2_zero V,
     p2_vp_loop K V,
     p2_print K V ''p2 v's successfully\<newline>'',
     p2_times K V,
     set_int (adr_p1p2synch V) 1,
     sys K VERHOGEN (adr_endp2 V),
     stop_with (SYSCALL TERMINATETHREAD 0 0 0),
     p2_print K V ''error: p2 didn't terminate\<newline>'',
     stop_with PANIC]"

subsection \<open>p3: the clock\<close>

text \<open>
  \<open>while (time2 - time1 < (CLOCKINTERVAL >> 1))\<close>; \<open>CLOCKINTERVAL\<close> is an unsigned constant, so the
  comparison is unsigned.
\<close>

partial_function (option) delay_loop :: "kernel \<Rightarrow> u32 \<Rightarrow> u32 \<Rightarrow> sup_state \<Rightarrow> sup_state option" where
  "delay_loop K time1 time2 s =
     (if time2 - time1 < drop_bit 1 CLOCKINTERVAL then do {
        let (time1, s) = stck s;
        (v, s) \<leftarrow> syscall K WAITCLOCK 0 0 0 s;
        let (time2, s) = stck s;
        delay_loop K time1 time2 s
      } else Some s)"

definition p3_times :: "kernel \<Rightarrow> p2_umps \<Rightarrow> p2_stmt" where
  "p3_times K V s = do {
     (cpu_t1, s) \<leftarrow> syscall K GETCPUTIME 0 0 0 s;
     s \<leftarrow> fold (\<lambda>i r. do { s \<leftarrow> r; (v, s) \<leftarrow> syscall K WAITCLOCK 0 0 0 s; Some s }) [0..<CLOCKLOOP] (Some s);
     (cpu_t2, s) \<leftarrow> syscall K GETCPUTIME 0 0 0 s;
     least \<leftarrow> scaled MINCLOCKLOOP s;
     (if sint (cpu_t2 - cpu_t1) < sint least
      then p2_print K V ''error: p3 - CPU time incorrectly maintained\<newline>''
      else p2_print K V ''p3 - CPU time correctly maintained\<newline>'') s
   }"

definition p3 :: "kernel \<Rightarrow> p2_umps \<Rightarrow> p2_stmt" where
  "p3 K V = block [
     perform (delay_loop K 0 0),
     p2_print K V ''p3 - WAITCLOCK OK\<newline>'',
     p3_times K V,
     sys K VERHOGEN (adr_endp3 V),
     stop_with (SYSCALL TERMINATETHREAD 0 0 0),
     p2_print K V ''error: p3 didn't terminate\<newline>'',
     stop_with PANIC]"

subsection \<open>p4: termination\<close>

definition p4 :: "kernel \<Rightarrow> p2_umps \<Rightarrow> p2_stmt" where
  "p4 K V = block [
     if_else (\<lambda>s. get_int (adr_p4inc V) s = 1) [
       p2_print K V ''first incarnation of p4 starts\<newline>'',
       perform (\<lambda>s. Some (put_int (adr_p4inc V) (get_int (adr_p4inc V) s + 1) s))]
     [if_then (\<lambda>s. get_int (adr_p4inc V) s = 2) [
       p2_print K V ''second incarnation of p4 starts\<newline>'']],
     sys K VERHOGEN (adr_synp4 V),
     sys K PASSERN (adr_blkp4 V),
     sys K PASSERN (adr_synp4 V),
     perform (\<lambda>s. Some (upd_state (adr_p4state V) (set_gpr (ix_sp (nucl V)) (sp_of V (adr_p4state V) s - QPAGE)) s)),
     create K (adr_p4state V) 0,
     sys K PASSERN (adr_synp4 V),
     p2_print K V ''p4 is OK\<newline>'',
     sys K VERHOGEN (adr_endp4 V),
     stop_with (SYSCALL TERMINATETHREAD 0 0 0),
     p2_print K V ''error: p4 didn't terminate\<newline>'',
     stop_with PANIC]"

subsection \<open>p5: exceptions passed up\<close>

definition upd_saved :: "p2_umps \<Rightarrow> nat \<Rightarrow> (state_t \<Rightarrow> state_t) \<Rightarrow> p2_stmt" where
  "upd_saved V i f = perform (upd_supp (adr_pFiveSupport V) (\<lambda>x. x\<lparr>sup_exceptState := (sup_exceptState x)(i := f (sup_exceptState x i))\<rparr>))"

definition saved :: "p2_umps \<Rightarrow> nat \<Rightarrow> sup_state \<Rightarrow> state_t" where
  "saved V i s = sup_exceptState (supports (nuc s) (adr_pFiveSupport V)) i"

definition resume_saved :: "p2_umps \<Rightarrow> nat \<Rightarrow> p2_stmt" where
  "resume_saved V i = leave (\<lambda>s. (Leaves (LDST (saved V i s)), s))"

text \<open>Setting the point at which a process goes on.\<close>

definition go_on_at :: "p2_umps \<Rightarrow> nat \<Rightarrow> u32 \<Rightarrow> p2_stmt" where
  "go_on_at V i entry = block [
     upd_saved V i (\<lambda>x. x\<lparr>pc_epc := entry\<rparr>),
     upd_saved V i (set_gpr (ix_t9 (nucl V)) entry)]"

definition p5sys :: "kernel \<Rightarrow> p2_umps \<Rightarrow> p2_stmt" where
  "p5sys K V s =
     (let p5status = drop_bit 31 (push_bit 28 (status (saved V GENERALEXCEPT s)))
      in block [
        if_then (\<lambda>s. p5status = ON) [p2_print K V ''High level SYS call from user mode process\<newline>''],
        if_then (\<lambda>s. p5status = OFF) [p2_print K V ''High level SYS call from kernel mode process\<newline>''],
        upd_saved V GENERALEXCEPT (\<lambda>x. x\<lparr>pc_epc := pc_epc x + 4\<rparr>),
        resume_saved V GENERALEXCEPT] s)"

definition p5gen :: "kernel \<Rightarrow> p2_umps \<Rightarrow> p2_stmt" where
  "p5gen K V s =
     (let exeCode = drop_bit 2 (cause (saved V GENERALEXCEPT s) AND CAUSEMASK)
      in block [
        (if exeCode = BUSERROR then block [
           p2_print K V ''Bus Error: Access non-existent memory\<newline>'',
           go_on_at V GENERALEXCEPT (pc_p5a V)]
         else if exeCode = RESVINSTR then block [
           p2_print K V ''privileged instruction\<newline>'',
           go_on_at V GENERALEXCEPT (pc_p5b V),
           upd_saved V GENERALEXCEPT (\<lambda>x. x\<lparr>status := status x AND KUPBITOFF\<rparr>)]
         else if exeCode = ADDRERROR then block [
           p2_print K V ''Address Error: non-kuseg access w/KU=1\<newline>'',
           go_on_at V GENERALEXCEPT (pc_p5b V),
           upd_saved V GENERALEXCEPT (\<lambda>x. x\<lparr>status := status x AND KUPBITOFF\<rparr>)]
         else if exeCode = SYSCALLEXCPT then p5sys K V
         else p2_print K V ''other program trap\<newline>''),
        resume_saved V GENERALEXCEPT] s)"

definition p5mm :: "kernel \<Rightarrow> p2_umps \<Rightarrow> p2_stmt" where
  "p5mm K V = block [
     p2_print K V ''memory management trap\<newline>'',
     (\<lambda>s. do {
       (pFiveSupAddr, s) \<leftarrow> syscall K GETSPTPTR 0 0 0 s;
       (if pFiveSupAddr \<noteq> adr_pFiveSupport V then p2_print K V ''Support Structure Address Error\<newline>''
        else p2_print K V ''Correct Support Structure Address\<newline>'') s }),
     upd_saved V PGFAULTEXCEPT (\<lambda>x. x\<lparr>status := status x OR KUPBITON\<rparr>),
     go_on_at V PGFAULTEXCEPT (pc_p5b V),
     resume_saved V PGFAULTEXCEPT]"

definition p5 :: "kernel \<Rightarrow> p2_umps \<Rightarrow> p2_stmt" where
  "p5 K V = block [
     p2_print K V ''p5 starts\<newline>'',
     leave (\<lambda>s. (Traps (get_int (adr_p5MemLocation V) s), s))]"

definition p5a :: "p2_umps \<Rightarrow> p2_stmt" where
  "p5a V = block [
     set_int (adr_p5MemLocation V) 0x80000000,
     leave (\<lambda>s. (Traps (get_int (adr_p5MemLocation V) s), s))]"

definition p5b :: "kernel \<Rightarrow> p2_umps \<Rightarrow> p2_stmt" where
  "p5b K V = block [
     sys K 9 0,
     sys K PASSERN (adr_endp4 V),
     perform (delay_loop K 0 0),
     sys K VERHOGEN (adr_blkp4 V),
     sys K VERHOGEN (adr_endp5 V),
     stop_with (SYSCALL TERMINATETHREAD 0 0 0),
     p2_print K V ''error: p5 didn't terminate\<newline>'',
     stop_with PANIC]"

subsection \<open>p6, p7 and the tree of p8\<close>

definition p6 :: "kernel \<Rightarrow> p2_umps \<Rightarrow> p2_stmt" where
  "p6 K V = block [
     p2_print K V ''p6 starts\<newline>'',
     sys K 9 0,
     p2_print K V ''error: p6 alive after SYS9() with no trap vector\<newline>'',
     stop_with PANIC]"

definition p7 :: "kernel \<Rightarrow> p2_umps \<Rightarrow> p2_stmt" where
  "p7 K V = block [
     p2_print K V ''p7 starts\<newline>'',
     leave (\<lambda>s. (Traps BADADDR, s)),
     p2_print K V ''error: p7 alive after program trap with no trap vector\<newline>'',
     stop_with PANIC]"

definition p8root :: "kernel \<Rightarrow> p2_umps \<Rightarrow> p2_stmt" where
  "p8root K V = block [
     p2_print K V ''p8root starts\<newline>'',
     create K (adr_child1state V) 0,
     create K (adr_child2state V) 0,
     for_loop 0 NOLEAVES (\<lambda>grandchild. [sys K PASSERN (adr_endcreate V)]),
     sys K VERHOGEN (adr_endp8 V),
     stop_with (SYSCALL TERMINATETHREAD 0 0 0)]"

definition child1 :: "kernel \<Rightarrow> p2_umps \<Rightarrow> p2_stmt" where
  "child1 K V = block [
     p2_print K V ''child1 starts\<newline>'',
     create K (adr_gchild1state V) 0,
     create K (adr_gchild2state V) 0,
     sys K PASSERN (adr_blkp8 V)]"

definition child2 :: "kernel \<Rightarrow> p2_umps \<Rightarrow> p2_stmt" where
  "child2 K V = block [
     p2_print K V ''child2 starts\<newline>'',
     create K (adr_gchild3state V) 0,
     create K (adr_gchild4state V) 0,
     sys K PASSERN (adr_blkp8 V)]"

definition p8leaf :: "kernel \<Rightarrow> p2_umps \<Rightarrow> p2_stmt" where
  "p8leaf K V = block [
     p2_print K V ''leaf process starts\<newline>'',
     sys K VERHOGEN (adr_endcreate V),
     sys K PASSERN (adr_blkp8 V)]"

subsection \<open>An instance\<close>

definition umps3p2 :: p2_umps where
  "umps3p2 = supp_umps.extend umps3s \<lparr>
     TLBWR = (\<lambda>c. c), adr_term_mut = 0x20030000, adr_s = 0x20030100, adr_testsem = 0x20030004,
     adr_startp2 = 0x20030008, adr_endp2 = 0x2003000C, adr_endp3 = 0x20030010, adr_blkp4 = 0x20030014,
     adr_synp4 = 0x20030018, adr_endp4 = 0x2003001C, adr_endp5 = 0x20030020, adr_endp8 = 0x20030024,
     adr_endcreate = 0x20030028, adr_blkp8 = 0x2003002C, adr_p1p2synch = 0x20030030, adr_p8inc = 0x20030034,
     adr_p4inc = 0x20030038, adr_p5Stack = 0x2003003C, adr_creation = 0x20030040,
     adr_p5MemLocation = 0x20030044, adr_pFiveSupport = 0x20032800, adr_p2state = 0x20031000,
     adr_p3state = 0x20031100, adr_p4state = 0x20031200, adr_p5state = 0x20031300, adr_p6state = 0x20031400,
     adr_p7state = 0x20031500, adr_p8rootstate = 0x20031600, adr_child1state = 0x20031700,
     adr_child2state = 0x20031800, adr_gchild1state = 0x20031900, adr_gchild2state = 0x20031A00,
     adr_gchild3state = 0x20031B00, adr_gchild4state = 0x20031C00, pc_p2 = 0x20033000, pc_p3 = 0x20033100,
     pc_p4 = 0x20033200, pc_p5 = 0x20033300, pc_p5a = 0x20033400, pc_p5b = 0x20033500, pc_p5gen = 0x20033600,
     pc_p5mm = 0x20033700, pc_p6 = 0x20033800, pc_p7 = 0x20033900, pc_p8root = 0x20033A00,
     pc_child1 = 0x20033B00, pc_child2 = 0x20033C00, pc_p8leaf = 0x20033D00\<rparr>"

lemma nucl_umps3p2 [simp]: "nucl umps3p2 = umps3"
  by (simp add: umps3p2_def supp_umps.defs umps3s_def)

end
