(* ===== verification/Nuc_Terminal.thy ===== *)
theory Nuc_Terminal
  imports Nuc_Calls
begin

text \<open>
  Output on a terminal through the whole nucleus, for a process that runs alone: SYS5 blocks the
  caller, the scheduler finds nobody and waits, the terminal interrupts, the handler of the
  interrupt wakes the caller and the scheduler dispatches it.

  The terminal is the parameter \<open>D\<close>: what it and the clocks have done to the registers when the
  interrupt comes.  \<open>terminal_answers\<close> is what the documentation promises of it.
\<close>

definition terminal_answers :: "umps \<Rightarrow> (nuc_state \<Rightarrow> nuc_state) \<Rightarrow> bool" where
  "terminal_answers U D \<longleftrightarrow> (\<forall>s. \<exists>h S. D s = s\<lparr>hardware := h, states := (states s)(BIOSDATAPAGE := S)\<rparr> \<and>
     CAUSE h = CAUSE_IP U (TERMINT U) \<and> dev_bitmap h (TERMINT U) AND 1 = 1 \<and>
     recv_status (dev_term (dev_regs h (TERMINT U) 0)) = READY U \<and>
     transm_status (dev_term (dev_regs h (TERMINT U) 0)) AND 0xFF = 5 \<and>
     timescale h = timescale (hardware s) \<and> tod_in h = tod_in (hardware s))"

text \<open>A call of a process that is the only one that can run.\<close>

definition waiting_call :: "umps \<Rightarrow> (nuc_state \<Rightarrow> nuc_state) \<Rightarrow> kernel" where
  "waiting_call U D n a b c s =
     (case currentProcess (nuc s) of
        None \<Rightarrow> None
      | Some p \<Rightarrow>
          (case handleExceptions U (trap U (call_state U n a b c (p_s (pcbs (nuc s) p))) (nuc s)) of
             Some (WAIT, s1) \<Rightarrow>
               (case handleExceptions U (D s1) of
                  Some (LDST st, s') \<Rightarrow> if currentProcess s' = Some p then Some (reg_v0 U st, s\<lparr>nuc := s'\<rparr>) else None
                | _ \<Rightarrow> None)
           | _ \<Rightarrow> nucleus_call U n a b c s))"

lemma waiting_call_at_once:
  assumes "nucleus_call U n a b c s = Some r"
  shows "waiting_call U D n a b c s = Some r"
  using assms by (auto simp: waiting_call_def nucleus_call_def call_from_def split: option.splits outcome.splits if_splits)

text \<open>The semaphore of the transmitter of terminal 0.\<close>

definition term_sem :: "umps \<Rightarrow> u32" where
  "term_sem U = adr_deviceSemaphores U + 4 * 40"

lemma term_sem:
  assumes U: "umps_doc U"
  shows "getSemIndex U 7 0 0 = Some 40" "devSem U 40 = Some (term_sem U)" "sem_addr (term_sem U)" "TERMINT U = 7"
proof -
  have D: "umps_devices U" using U by (simp add: umps_doc_def)
  have l: "3 \<le> (7::u32)" "(7::u32) \<le> 7" "(0::u32) < 8" by simp_all
  obtain i where i: "getSemIndex U 7 0 0 = Some i" "unat i = 40"
    using getSemIndex_device [OF D l, of 0] by auto
  have "i = 40" using i(2) by (simp add: word_unat_eq_iff)
  then show "getSemIndex U 7 0 0 = Some 40" using i(1) by simp
  show "devSem U 40 = Some (term_sem U)" "sem_addr (term_sem U)"
    using devSem_doc(1,2) [OF U, of 40] by (simp_all add: term_sem_def)
  show "TERMINT U = 7" using D by (simp add: umps_devices_def)
qed

text \<open>A process that runs alone.\<close>

definition runs_alone :: "umps \<Rightarrow> nuc_state \<Rightarrow> kview \<Rightarrow> nat \<Rightarrow> bool" where
  "runs_alone U s k c \<longleftrightarrow> runs_in_kernel s k c \<and> kready k = [] \<and> softBlockedCount s = 0 \<and>
     kblocked k (term_sem U) = [] \<and> ints s (term_sem U) \<in> {0, 1}"

text \<open>Blocking: the scheduler waits.\<close>

lemma wait_For_IO_alone:
  assumes U: "umps_doc U" and e: "at_entry s k c" and r: "kready k = []" and n: "softBlockedCount s = 0"
    and regs: "reg_a1 U (p_s (pcbs s c)) = TERMINT U" "reg_a2 U (p_s (pcbs s c)) = 0" "reg_a3 U (p_s (pcbs s c)) = 0"
  shows "\<exists>s'. wait_For_IO U s = Some (WAIT, s') \<and>
     kinv s' (k\<lparr>kblocked := (kblocked k)(term_sem U := kblocked k (term_sem U) @ [c]), kheld := []\<rparr>) \<and>
     currentProcess s' = None \<and> ints s' = (ints s)(term_sem U := ints s (term_sem U) - 1) \<and> softBlockedCount s' = 1 \<and>
     supports s' = supports s \<and> states s' = states s \<and> hw_clock s' = hw_clock s \<and>
     (\<forall>x. pcb_user (pcbs s' x) = pcb_user (charge s c x))"
proof -
  let ?a = "term_sem U"
  note T = term_sem [OF U]
  let ?s1 = "s\<lparr>ints := (ints s)(?a := ints s ?a - 1), softBlockedCount := softBlockedCount s + 1\<rparr>"
  let ?k = "k\<lparr>kblocked := (kblocked k)(?a := kblocked k ?a @ [c]), kheld := []\<rparr>"
  have a': "?a \<noteq> 0" "?a \<noteq> MAXADD" using T(3) by (simp_all add: sem_addr_def)
  have e1: "at_entry ?s1 k c" using e by simp
  have run: "wait_For_IO U s = blockCurrentProcessAt ?a ?s1 \<bind> scheduler"
    using T(1,2,4) a' regs by (simp add: wait_For_IO_def curProc_entry [OF e] load_int_def store_int_def Let_def)
  obtain s2 where s2: "blockCurrentProcessAt ?a ?s1 = Some s2" "kinv s2 ?k" "currentProcess s2 = None"
    "ints s2 = ints ?s1" "softBlockedCount s2 = softBlockedCount ?s1" "supports s2 = supports ?s1"
    "states s2 = states ?s1" "hw_clock s2 = hw_clock ?s1"
    "\<And>x. pcb_user (pcbs s2 x) = pcb_user (charge ?s1 c x)"
    using blockCurrentProcessAt_correct [OF e1 a'] by blast
  have "length (kfree k) \<noteq> MAXPROC"
  proof
    assume "length (kfree k) = MAXPROC"
    then have "card (set (kfree k)) = MAXPROC" using kinvD(8) [OF at_entryD(1) [OF e]] by (auto simp: unblocked_def distinct_card)
    moreover have "set (kfree k) \<subseteq> {0..<MAXPROC} - {c}"
      using kinvD(8,9) [OF at_entryD(1) [OF e]] at_entryD(3,6) [OF e] by (auto simp: unblocked_def)
    from card_mono [OF _ this] have "card (set (kfree k)) \<le> MAXPROC - 1" using at_entryD(6) [OF e] by simp
    ultimately show False using at_entryD(6) [OF e] by simp
  qed
  then have pc: "processCount s2 \<noteq> 0" using processCount_zero [OF s2(2)] by simp
  let ?s' = "setSTATUS (ALLOFF OR IECON OR IMON) (setTIMER 0xFFFFFFFF (s2\<lparr>currentProcess := None\<rparr>))"
  have "scheduler s2 = Some (WAIT, ?s')"
    using scheduler_idle [OF s2(2)] r pc s2(5) n by simp
  then have "wait_For_IO U s = Some (WAIT, ?s')" unfolding run using s2(1) by simp
  then show ?thesis using s2 n by (intro exI [of _ ?s']) (simp add: setTIMER_def setSTATUS_def charge_def hw_clock_def)
qed

text \<open>The interrupt: the caller is woken and dispatched.\<close>

lemma term_only_pending:
  assumes U: "umps_doc U"
  shows "CAUSE_GET_EXCCODE U (CAUSE_IP U (TERMINT U)) = EXC_INT U" "CAUSE_IP U (TERMINT U) AND CAUSE_IP_MASK U \<noteq> 0"
    "l \<in> {PLTINT, INTERTIMEINT, 3, 4, 5, 6, 7} \<Longrightarrow> interrupt_pending U (CAUSE_IP U (TERMINT U)) l \<longleftrightarrow> l = 7"
  using U by (auto simp: umps_doc_def umps_codes_def umps_devices_def interrupt_pending_def PLTINT_def INTERTIMEINT_def)

lemma dispatch_terminal:
  assumes U: "umps_doc U"
  shows "dispatch_interrupt U (CAUSE_IP U (TERMINT U)) s = handleDeviceInterrupt U 7 s"
proof -
  have l: "DISKINT U = 3" "FLASHINT U = 4" "NETWINT U = 5" "PRNTINT U = 6" "TERMINT U = 7"
    using U by (simp_all add: umps_doc_def umps_devices_def)
  note P = term_only_pending [OF U]
  show ?thesis
    using P(2) P(3) [of PLTINT] P(3) [of INTERTIMEINT] P(3) [of 3] P(3) [of 4] P(3) [of 5] P(3) [of 6] P(3) [of 7]
    by (simp add: dispatch_interrupt_def l PLTINT_def INTERTIMEINT_def)
qed

lemma terminal_wakes:
  assumes U: "umps_doc U" and D: "terminal_answers U D" and k: "kinv s k" "currentProcess s = None"
    and q: "kheld k = []" "kready k = []" "kblocked k (term_sem U) = [c]" and v: "ints s (term_sem U) \<in> {0, - 1}"
  shows "\<exists>v s'. let st = set_gpr (ix_v0 U) v (p_s (pcbs s c)); k' = k\<lparr>kblocked := (kblocked k)(term_sem U := []), kheld := [c]\<rparr> in
     handleExceptions U (D s) = Some (LDST st, s') \<and> v AND 0xFF = 5 \<and> path_end (LDST st) s' k' \<and> currentProcess s' = Some c \<and>
     ints s' = (ints s)(term_sem U := ints s (term_sem U) + 1) \<and> softBlockedCount s' = softBlockedCount s - 1 \<and>
     supports s' = supports s \<and> (\<forall>y. y \<noteq> BIOSDATAPAGE \<longrightarrow> states s' y = states s y) \<and>
     hw_clock s' = hw_clock s \<and> (\<forall>x. x \<noteq> c \<longrightarrow> p_s (pcbs s' x) = p_s (pcbs s x))"
proof -
  note T = term_sem [OF U]
  have UD: "umps_devices U" using U by (simp add: umps_doc_def)
  obtain h S where h: "D s = s\<lparr>hardware := h, states := (states s)(BIOSDATAPAGE := S)\<rparr>" "CAUSE h = CAUSE_IP U (TERMINT U)"
    "dev_bitmap h 7 AND 1 = 1" "recv_status (dev_term (dev_regs h 7 0)) = READY U"
    "transm_status (dev_term (dev_regs h 7 0)) AND 0xFF = 5" "timescale h = timescale (hardware s)" "tod_in h = tod_in (hardware s)"
    using D unfolding terminal_answers_def T(4) by blast
  let ?s1 = "(snd (read_tod (snd (getTIMER (D s)))))\<lparr>stopT := tod_in h (tod_ix h)\<rparr>"
  have s1: "kinv ?s1 k" "currentProcess ?s1 = None" "ints ?s1 = ints s" "pcbs ?s1 = pcbs s" "supports ?s1 = supports s"
    "softBlockedCount ?s1 = softBlockedCount s" "states ?s1 = (states s)(BIOSDATAPAGE := S)"
    "dev_bitmap (hardware ?s1) = dev_bitmap h" "dev_regs (hardware ?s1) = dev_regs h" "hw_clock ?s1 = hw_clock s"
    using k h(6,7) by (simp_all add: h(1) read_tod_def getTIMER_def hw_clock_def Let_def)
  have run: "handleExceptions U (D s) = do {
     (out, s) \<leftarrow> handleDeviceInterrupt U 7 ?s1;
     case out of Some out \<Rightarrow> Some (out, s) | None \<Rightarrow> resume_interrupted U (timer_in h (timer_ix h)) s }"
    using dispatch_terminal [OF U] term_only_pending(1) [OF U]
    by (simp add: handleExceptions_def handleInterrupts_def h(1,2) getTIMER_def read_tod_def Let_def)
  let ?d = "dev_regs h 7 0"
  have no: "getDeviceNoFromLine U 7 ?s1 = 0"
    by (rule getDeviceNo_found [OF UD, of 0 ?s1 7]) (use s1(8) h(3) in auto)
  have rc: "dev_recv U 7 ?d = 0" "dev_status U 7 ?d = transm_status (dev_term ?d)"
    using h(4) T(4) by (simp_all add: dev_recv_def dev_status_def terminalIsRECV_def getTermStatus_def)
  have "(3::u32) \<le> 7" "(7::u32) \<le> 7" "(0::nat) < 8" "drop_bit 0 (dev_bitmap (hardware ?s1) 7) AND 1 = 1"
    "?d = dev_regs (hardware ?s1) 7 0" using s1(8,9) h(3) by simp_all
  from handleDeviceInterrupt_spec [OF s1(1) U this(1-4) no [symmetric] this(5)] obtain s2 k2 where
    s2: "handleDeviceInterrupt U 7 ?s1 = Some (None, s2)" "kinv s2 k2" "iframe ?s1 s2"
    "softBlockedCount s2 = softBlockedCount ?s1 - 1" "hw_clock s2 = hw_clock ?s1"
    and w: "woke U (transm_status (dev_term ?d)) (term_sem U) ?s1 k s2 k2"
    using rc T(1,2) by auto
  have "sint (ints s (term_sem U)) \<le> 0" using v by auto
  with w q s1(3,4) have w': "kfree k2 = kfree k" "kheld k2 = []" "kready k2 = [c]" "kblocked k2 = (kblocked k)(term_sem U := [])"
    "ints s2 = (ints s)(term_sem U := ints s (term_sem U) + 1)"
    "p_s (pcbs s2 c) = set_gpr (ix_v0 U) (transm_status (dev_term ?d)) (p_s (pcbs s c))"
    "\<And>x. x \<noteq> c \<Longrightarrow> p_s (pcbs s2 x) = p_s (pcbs s x)"
    by (simp_all add: woke_def)
  from scheduler_dispatch [OF s2(2) w'(2,3)] obtain s' where
    s': "scheduler s2 = Some (LDST (p_s (pcbs s2 c)), s')" "path_end (LDST (p_s (pcbs s2 c))) s' (k2\<lparr>kready := [], kheld := [c]\<rparr>)"
    "currentProcess s' = Some c" "hw_clock s' = hw_clock s2" "ints s' = ints s2"
    "softBlockedCount s' = softBlockedCount s2" "supports s' = supports s2" "states s' = states s2"
    "\<And>x. pcb_user (pcbs s' x) = pcb_user (pcbs s2 x)" by (auto simp: hw_clock_def)
  have c2: "currentProcess s2 = None" using s2(3) s1(2) by (simp add: iframe_def)
  have "k2\<lparr>kready := [], kheld := [c]\<rparr> = k\<lparr>kblocked := (kblocked k)(term_sem U := []), kheld := [c]\<rparr>"
    using w' q by simp
  moreover have "handleExceptions U (D s) = Some (LDST (p_s (pcbs s2 c)), s')"
    unfolding run using s2(1) s'(1) c2 by (simp add: resume_interrupted_def)
  ultimately show ?thesis
    using s' s2(3-5) s1 w' h(5,6) pcb_user_eqD(5) [OF s'(9)]
    by (intro exI [of _ "transm_status (dev_term ?d)"] exI [of _ s']) (simp add: iframe_def Let_def)
qed

text \<open>SYS5 on terminal 0, from the call to the return.\<close>

lemma waiting_call_terminal:
  assumes U: "umps_doc U" and D: "terminal_answers U D" and r: "runs_alone U (nuc s) k c"
  shows "\<exists>v n'. waiting_call U D IOWAIT (TERMINT U) 0 0 s = Some (v, s\<lparr>nuc := n'\<rparr>) \<and> v AND 0xFF = 5 \<and> runs_alone U n' k c \<and>
     ints n' = ints (nuc s) \<and> supports n' = supports (nuc s) \<and> hw_clock n' = hw_clock (nuc s)"
proof -
  have R: "umps_regs U" using U by (simp add: umps_doc_def)
  have k: "runs_in_kernel (nuc s) k c" "kready k = []" "softBlockedCount (nuc s) = 0" "kblocked k (term_sem U) = []"
    "ints (nuc s) (term_sem U) \<in> {0, 1}" using r by (simp_all add: runs_alone_def)
  let ?s1 = "call_entry U IOWAIT (TERMINT U) 0 0 c (nuc s)"
  have e1: "at_entry ?s1 k c" and n1: "softBlockedCount ?s1 = 0" using k by (simp_all add: runs_in_kernel_def)
  have c0: "currentProcess (nuc s) = Some c" using k(1) by (simp add: runs_in_kernel_def at_entry_def)
  let ?k1 = "k\<lparr>kblocked := (kblocked k)(term_sem U := kblocked k (term_sem U) @ [c]), kheld := []\<rparr>"
  obtain s2 where s2: "wait_For_IO U ?s1 = Some (WAIT, s2)" "kinv s2 ?k1" "currentProcess s2 = None"
    "ints s2 = (ints ?s1)(term_sem U := ints ?s1 (term_sem U) - 1)" "softBlockedCount s2 = 1" "supports s2 = supports ?s1"
    "hw_clock s2 = hw_clock ?s1" "\<And>x. pcb_user (pcbs s2 x) = pcb_user (charge ?s1 c x)"
    using wait_For_IO_alone [OF U e1 k(2) n1] by (auto simp: call_entry_state [OF R])
  have q: "kheld ?k1 = []" "kready ?k1 = []" "kblocked ?k1 (term_sem U) = [c]" using k by simp_all
  have v2: "ints s2 (term_sem U) \<in> {0, - 1}" using s2(4) k(5) by auto
  let ?k2 = "?k1\<lparr>kblocked := (kblocked ?k1)(term_sem U := []), kheld := [c]\<rparr>"
  obtain v n' where n': "handleExceptions U (D s2) = Some (LDST (set_gpr (ix_v0 U) v (p_s (pcbs s2 c))), n')" "v AND 0xFF = 5"
    "path_end (LDST (set_gpr (ix_v0 U) v (p_s (pcbs s2 c)))) n' ?k2" "currentProcess n' = Some c"
    "ints n' = (ints s2)(term_sem U := ints s2 (term_sem U) + 1)" "softBlockedCount n' = softBlockedCount s2 - 1"
    "supports n' = supports s2" "hw_clock n' = hw_clock s2"
    using terminal_wakes [OF U D s2(2,3) q v2] by (auto simp: Let_def)
  have "kheld k = [c]" using at_entryD(3) [OF e1] .
  then have k2: "?k2 = k" using k(4) by (simp add: fun_upd_idem)
  have ps: "p_s (pcbs s2 c) = p_s (pcbs ?s1 c)" using pcb_user_eqD(5) [OF s2(8) [of c]] by simp
  have "handleExceptions U (trap U (call_state U IOWAIT (TERMINT U) 0 0 (p_s (pcbs (nuc s) c))) (nuc s)) = Some (WAIT, s2)"
    unfolding kernel_call [OF U k(1)] using s2(1) by (simp add: Let_def syscall_numbers)
  with n'(1,4) c0 have "waiting_call U D IOWAIT (TERMINT U) 0 0 s =
      Some (reg_v0 U (set_gpr (ix_v0 U) v (p_s (pcbs s2 c))), s\<lparr>nuc := n'\<rparr>)"
    by (simp add: waiting_call_def)
  then have call: "waiting_call U D IOWAIT (TERMINT U) 0 0 s = Some (v, s\<lparr>nuc := n'\<rparr>)" by (simp add: reg_defs)
  have i: "ints n' = ints (nuc s)" using n'(5) s2(4) by (auto simp: fun_eq_iff)
  have "runs_in_kernel n' k c"
    by (rule path_end_runs [OF n'(3) [unfolded k2] n'(4)]) (use k(1) in \<open>simp add: ps call_entry_state [OF R] runs_in_kernel_def\<close>)
  then have "runs_alone U n' k c" using k i n'(6) s2(5) by (simp add: runs_alone_def)
  then show ?thesis using call i n'(2,7,8) s2(6,7) by (intro exI [of _ v] exI [of _ n']) simp
qed

end
