(* ===== verification/P2_Service.thy ===== *)
theory P2_Service
  imports P2_Test Nuc_Terminal
begin

text \<open>
  What the test processes of phase 2 ask of the system below them (the locale
  \<open>test_service\<close>): the semaphores on their variables \<open>X\<close>, output on the terminal while nobody
  else is ready, the processor time and the time of day.  \<open>ok k s\<close> is the state in which a process
  may call, in the abstract view \<open>k\<close> of the nucleus.  The lemmas of the locale run the statements of the
  programs from these contracts; \<open>here k I out s\<close> is the state of knowledge between two statements:
  the variables have the values \<open>I\<close> and \<open>out\<close> has been printed.
\<close>

lemma sent_command: "char_of (unat (drop_bit BYTELENGTH (PRINTCHR OR push_bit BYTELENGTH (of_char c)) :: u32)) = c"
proof -
  define n where "n = (of_char c :: nat)"
  have n: "n < 256" by (simp add: n_def)
  have w: "(of_char c :: u32) = of_nat n" by (simp add: n_def of_nat_of_char)
  have t: "(of_nat n :: u32) = take_bit 8 (of_nat n)" using n by (simp add: take_bit_of_nat take_bit_nat_eq_self)
  have "drop_bit BYTELENGTH (PRINTCHR OR push_bit BYTELENGTH (of_nat n)) = (of_nat n :: u32)"
    by (subst (1 2) t, rule bit_word_eqI) (auto simp: BYTELENGTH_def PRINTCHR_def bit_simps)
  then have "unat (drop_bit BYTELENGTH (PRINTCHR OR push_bit BYTELENGTH (of_char c)) :: u32) = n"
    unfolding w using n by (simp add: unat_of_nat)
  then show ?thesis by (simp add: n_def)
qed

text \<open>What \<open>p2\<close> says of the times it measured, and the variables it uses.\<close>

definition p2_says :: "u32 \<Rightarrow> u32 \<Rightarrow> u32 \<Rightarrow> string" where
  "p2_says real cpu least =
     (if sint real \<ge> sint cpu \<and> sint cpu \<ge> sint least then ''p2 is OK\<newline>''
      else (if sint real < sint cpu then ''error: more cpu time than real time\<newline>'' else []) @
           (if sint cpu < sint least then ''error: not enough cpu time went by\<newline>'' else []) @ ''p2 blew it!\<newline>'')"

definition p2_vars :: "p2_umps \<Rightarrow> u32 list" where
  "p2_vars V = adr_term_mut V # adr_startp2 V # adr_endp2 V # adr_p1p2synch V # map (s_at V) [0..<P2_MAXSEM + 1]"

definition zeroed :: "p2_umps \<Rightarrow> nat \<Rightarrow> (u32 \<Rightarrow> u32) \<Rightarrow> u32 \<Rightarrow> u32" where
  "zeroed V n I a = (if a \<in> s_at V ` {..<n} then 0 else I a)"

subsection \<open>The contract\<close>

locale test_service =
  fixes K :: kernel and V :: p2_umps and X :: "u32 set" and ok :: "kview \<Rightarrow> sup_state \<Rightarrow> bool"
    and base :: "sup_state \<Rightarrow> u32" and scale :: u32 and tod :: "nat \<Rightarrow> u32"
  assumes up: "ok k s \<Longrightarrow> a \<in> X \<Longrightarrow> \<exists>v n. K VERHOGEN a 0 0 s = Some (v, s\<lparr>nuc := n\<rparr>) \<and> ok (V_view a k) (s\<lparr>nuc := n\<rparr>) \<and>
      ints n = (ints (nuc s))(a := ints (nuc s) a + 1)"
    and down: "ok k s \<Longrightarrow> a \<in> X \<Longrightarrow> 0 < sint (ints (nuc s) a) \<Longrightarrow>
      \<exists>v n. K PASSEREN a 0 0 s = Some (v, s\<lparr>nuc := n\<rparr>) \<and> ok k (s\<lparr>nuc := n\<rparr>) \<and>
      ints n = (ints (nuc s))(a := ints (nuc s) a - 1)"
    and cpu: "ok k s \<Longrightarrow> \<exists>n. K GETTIME 0 0 0 s = Some (base s + tod_now (nuc s), s\<lparr>nuc := n\<rparr>) \<and> ok k (s\<lparr>nuc := n\<rparr>) \<and>
      ints n = ints (nuc s) \<and> base (s\<lparr>nuc := n\<rparr>) = base s \<and> tod_ix (hardware n) = Suc (tod_ix (hardware (nuc s)))"
    and put: "ok k s \<Longrightarrow> kready k = [] \<Longrightarrow> \<exists>v n. K IOWAIT (TERMINT (nucl V)) 0 0 s = Some (v, s\<lparr>nuc := n\<rparr>) \<and>
      v AND 0xFF = 5 \<and> ok k (s\<lparr>nuc := n\<rparr>) \<and> ints n = ints (nuc s)"
    and clock: "ok k s \<Longrightarrow> hw_clock (nuc s) = (scale, tod)" "ok k s \<Longrightarrow> scale \<noteq> 0"
    and own: "ok k s \<Longrightarrow> nuc s' = (nuc s)\<lparr>ints := I, hardware := h\<rparr> \<Longrightarrow> (\<And>a. a \<notin> X \<Longrightarrow> I a = ints (nuc s) a) \<Longrightarrow>
      timescale h = timescale (hardware (nuc s)) \<Longrightarrow> tod_in h = tod_in (hardware (nuc s)) \<Longrightarrow> ok k s' \<and> base s' = base s"
    and ports: "ok k s \<Longrightarrow> 0 < DEVPERINT (nucl V)"
begin

definition here :: "kview \<Rightarrow> (u32 \<Rightarrow> u32) \<Rightarrow> string \<Rightarrow> sup_state \<Rightarrow> bool" where
  "here k I out s \<longleftrightarrow> ok k s \<and> ints (nuc s) = I \<and> sent (bus s) = out"

lemma own_same: "ok k s \<Longrightarrow> nuc s' = nuc s \<Longrightarrow> ok k s' \<and> base s' = base s"
  using own [of k s s' "hardware (nuc s)" "ints (nuc s)"] by simp

lemma ok_log: "ok k s \<Longrightarrow> ok k (log e s)"
  using own_same [of k s "log e s"] by (simp add: log_def)

lemma runs_assign:
  assumes h: "here k I out s" and a: "a \<in> X" and Q: "\<And>s. here k (I(a := v)) out s \<Longrightarrow> Q s"
  shows "runs (set_int a v) s Q"
proof -
  have "ok k (put_int a v s)"
    by (rule own [of k s _ "hardware (nuc s)" "(ints (nuc s))(a := v)", THEN conjunct1])
      (use h a in \<open>auto simp: here_def put_int_def on_nuc_def\<close>)
  then have "here k (I(a := v)) out (put_int a v s)" using h by (simp add: here_def put_int_def on_nuc_def)
  then show ?thesis by (simp add: set_int_def runs_perform Q)
qed

lemma runs_V:
  assumes h: "here k I out s" and a: "a \<in> X" and Q: "\<And>s. here (V_view a k) (I(a := I a + 1)) out s \<Longrightarrow> Q s"
  shows "runs (sys K VERHOGEN a) s Q"
proof -
  let ?s = "log (Sys VERHOGEN a 0 0) s"
  have "ok k ?s" using h ok_log by (simp add: here_def)
  from up [OF this a] obtain v n where n: "K VERHOGEN a 0 0 ?s = Some (v, ?s\<lparr>nuc := n\<rparr>)" "ok (V_view a k) (?s\<lparr>nuc := n\<rparr>)"
    "ints n = (ints (nuc ?s))(a := ints (nuc ?s) a + 1)" by blast
  have "here (V_view a k) (I(a := I a + 1)) out (?s\<lparr>nuc := n\<rparr>)"
    using h n(2,3) by (simp add: here_def log_def sent_append)
  then show ?thesis using n(1) by (simp add: sys_def syscall_def runs_perform Q)
qed

lemma runs_P:
  assumes h: "here k I out s" and a: "a \<in> X" and v: "0 < sint (I a)" and Q: "\<And>s. here k (I(a := I a - 1)) out s \<Longrightarrow> Q s"
  shows "runs (sys K PASSERN a) s Q"
proof -
  let ?s = "log (Sys PASSEREN a 0 0) s"
  have "ok k ?s" "0 < sint (ints (nuc ?s) a)" using h ok_log v by (simp_all add: here_def log_def)
  from down [OF this(1) a this(2)] obtain v n where n: "K PASSEREN a 0 0 ?s = Some (v, ?s\<lparr>nuc := n\<rparr>)" "ok k (?s\<lparr>nuc := n\<rparr>)"
    "ints n = (ints (nuc ?s))(a := ints (nuc ?s) a - 1)" by blast
  have "here k (I(a := I a - 1)) out (?s\<lparr>nuc := n\<rparr>)"
    using h n(2,3) by (simp add: here_def log_def sent_append)
  moreover have "PASSERN = PASSEREN" by (simp add: PASSERN_def PASSEREN_def)
  ultimately show ?thesis using n(1) by (simp add: sys_def syscall_def runs_perform Q)
qed

lemma runs_char:
  assumes h: "here k I out s" and r: "kready k = []"
  shows "runs (p2_print_char K V c) s (here k I (out @ [c]))"
proof -
  let ?v = "PRINTCHR OR push_bit BYTELENGTH (of_char c)" and ?t = "TERMINT (nucl V)"
  let ?d = "dev_regs (hardware (nuc s)) ?t 0"
  let ?s1 = "log (TransmCommand ?t 0 ?v) (on_nuc (dev_put ?t 0 (?d\<lparr>dev_term := (dev_term ?d)\<lparr>transm_command := ?v\<rparr>\<rparr>)) s)"
  have o: "ok k s" using h by (simp add: here_def)
  have s1: "transm_command_put (nucl V) ?t 0 ?v s = Some ?s1"
    using ports [OF o] by (simp add: transm_command_put_def dev_at_def)
  have "ok k ?s1"
    by (rule own [OF o, of _ "hardware (nuc ?s1)" "ints (nuc s)", THEN conjunct1])
      (simp_all add: log_def on_nuc_def dev_put_def Let_def)
  then have o1: "ok k (log (Sys IOWAIT ?t 0 0) ?s1)" by (rule ok_log)
  let ?s2 = "log (Sys IOWAIT ?t 0 0) ?s1"
  obtain v n where n: "K IOWAIT ?t 0 0 ?s2 = Some (v, ?s2\<lparr>nuc := n\<rparr>)" "v AND 0xFF = 5" "ok k (?s2\<lparr>nuc := n\<rparr>)"
    "ints n = ints (nuc ?s2)" using put [OF o1 r] by blast
  have i: "ints (nuc ?s2) = ints (nuc s)" "bus ?s2 = bus s @ [TransmCommand ?t 0 ?v, Sys IOWAIT ?t 0 0]"
    by (simp_all add: log_def on_nuc_def)
  have "WAITIO = IOWAIT" by (simp add: WAITIO_def IOWAIT_def)
  then have "p2_print_char K V c s = Some (Inr (?s2\<lparr>nuc := n\<rparr>))"
    using s1 n(1,2) by (simp add: p2_print_char_def syscall_def TERMSTATMASK_def RECVD_def)
  moreover have "sent (bus ?s2) = out @ [c]" using h unfolding i(2) sent_append by (simp add: here_def sent_command del: drop_bit_or)
  ultimately show ?thesis using h n(3,4) i by (simp add: runs_def here_def)
qed

lemma runs_chars:
  "here k I out s \<Longrightarrow> kready k = [] \<Longrightarrow> runs (block (map (p2_print_char K V) msg)) s (here k I (out @ msg))"
proof (induction msg arbitrary: out s)
  case (Cons c msg)
  have "runs (block (map (p2_print_char K V) msg)) s (here k I (out @ c # msg))" if "here k I (out @ [c]) s" for s
    using Cons.IH [OF that Cons.prems(2)] by simp
  then show ?case unfolding list.map by (rule runs_Cons [OF runs_mono [OF runs_char [OF Cons.prems]]])
qed (simp add: runs_def)

text \<open>Printing, when nobody waits for the terminal.\<close>

definition quiet :: "kview \<Rightarrow> (u32 \<Rightarrow> u32) \<Rightarrow> bool" where
  "quiet k I \<longleftrightarrow> kready k = [] \<and> kblocked k (adr_term_mut V) = [] \<and> adr_term_mut V \<in> X \<and> I (adr_term_mut V) = 1"

lemma runs_print:
  assumes h: "here k I out s" and q: "quiet k I" and Q: "\<And>s. here k I (out @ msg) s \<Longrightarrow> Q s"
  shows "runs (p2_print K V msg) s Q"
proof -
  let ?t = "adr_term_mut V"
  have t: "kready k = []" "kblocked k ?t = []" "?t \<in> X" "I ?t = 1" using q by (simp_all add: quiet_def)
  have I: "(I(?t := I ?t - 1))(?t := (I(?t := I ?t - 1)) ?t + 1) = I" by auto
  have v: "runs (sys K VERHOGEN ?t) s (\<lambda>s. runs (block []) s Q)" if "here k (I(?t := I ?t - 1)) (out @ msg) s" for s
    by (rule runs_V [OF that t(3)]) (use t(2) I Q in \<open>simp add: runs_Nil\<close>)
  have "runs (block [sys K VERHOGEN ?t]) s Q" if "here k (I(?t := I ?t - 1)) (out @ msg) s" for s
    by (rule runs_Cons [OF v [OF that]])
  then have rest: "runs (block [block (map (p2_print_char K V) msg), sys K VERHOGEN ?t]) s Q"
    if "here k (I(?t := I ?t - 1)) out s" for s
    by (rule runs_Cons [OF runs_mono [OF runs_chars [OF that t(1)]]])
  show ?thesis unfolding p2_print_def
    by (rule runs_Cons, rule runs_P [OF h t(3)]) (use t(4) in simp, rule rest, assumption)
qed

subsection \<open>The process p2\<close>

lemma zero_run:
  assumes h: "here k I out s" and X: "\<And>i. i < P2_MAXSEM + 1 \<Longrightarrow> s_at V i \<in> X"
  shows "runs (p2_zero V) s (here k (zeroed V (P2_MAXSEM + 1) I) out)"
proof -
  have z: "(zeroed V i I)(s_at V i := 0) = zeroed V (Suc i) I" for i
    by (auto simp: zeroed_def fun_eq_iff lessThan_Suc)
  show ?thesis unfolding p2_zero_def
  proof (rule runs_for [where I = "\<lambda>i. here k (zeroed V i I) out"])
    have "zeroed V 0 I = I" by (simp add: zeroed_def fun_eq_iff)
    then show "here k (zeroed V 0 I) out s" using h by simp
    fix i s assume i: "i < P2_MAXSEM + 1" "here k (zeroed V i I) out s"
    show "runs (block [set_int (s_at V i) 0]) s (here k (zeroed V (Suc i) I) out)"
      by (rule runs_Cons, rule runs_assign [OF i(2) X [OF i(1)]], rule runs_Nil) (simp add: z)
  qed simp_all
qed

text \<open>The V and P pairs: every value goes up to one and back.\<close>

lemma pairs_run:
  assumes h: "here k I out s" and X: "\<And>i. i < P2_MAXSEM + 1 \<Longrightarrow> s_at V i \<in> X \<and> I (s_at V i) = 0 \<and> kblocked k (s_at V i) = []"
  shows "runs (p2_vp_loop K V) s (here k I out)"
  unfolding p2_vp_loop_def
proof (rule runs_for [where I = "\<lambda>_. here k I out"])
  fix i s assume i: "i < P2_MAXSEM + 1" and h: "here k I out s"
  let ?a = "s_at V i"
  have a: "?a \<in> X" "I ?a = 0" "V_view ?a k = k" using X [OF i] by simp_all
  have I: "(I(?a := I ?a + 1))(?a := (I(?a := I ?a + 1)) ?a - 1) = I" by auto
  have test: "runs (block [if_then (\<lambda>s. get_int ?a s \<noteq> 0) [p2_print K V ''error: p2 bad v/p pairs\<newline>'']]) s (here k I out)"
    if "here k I out s" for s
    by (rule runs_Cons, rule runs_if_not) (use that a(2) in \<open>simp_all add: here_def get_int_def runs_Nil\<close>)
  have P: "runs (sys K PASSERN ?a) s (\<lambda>s. runs (block [if_then (\<lambda>s. get_int ?a s \<noteq> 0)
      [p2_print K V ''error: p2 bad v/p pairs\<newline>'']]) s (here k I out))" if "here k (I(?a := I ?a + 1)) out s" for s
    by (rule runs_P [OF that a(1)]) (use a(2) in simp, rule test, use I in simp)
  show "runs (block [sys K VERHOGEN ?a, sys K PASSERN ?a,
      if_then (\<lambda>s. get_int ?a s \<noteq> 0) [p2_print K V ''error: p2 bad v/p pairs\<newline>'']]) s (here k I out)"
    by (rule runs_Cons, rule runs_V [OF h a(1)], rule runs_Cons, rule P) (simp add: a(3))
qed (use h in simp_all)

lemma runs_print_if:
  assumes h: "here k I out s" and q: "quiet k I" and b: "\<And>s. b s \<longleftrightarrow> B"
    and Q: "\<And>s. here k I (out @ (if B then msg else [])) s \<Longrightarrow> Q s"
  shows "runs (if_then b [p2_print K V msg]) s Q"
proof (cases B)
  case True
  show ?thesis
    by (rule runs_if_then) (use b True in simp, rule runs_Cons, rule runs_print [OF h q], use Q True in \<open>simp add: runs_Nil\<close>)
next
  case False
  show ?thesis by (rule runs_if_not) (use b False in simp, use Q False h in simp)
qed

lemma verdict_run:
  assumes h: "here k I out s" and q: "quiet k I"
  shows "runs (p2_verdict K V real cpu least) s (here k I (out @ p2_says real cpu least))"
proof (cases "sint real \<ge> sint cpu \<and> sint cpu \<ge> sint least")
  case True
  show ?thesis unfolding p2_verdict_def p2_says_def if_P [OF True]
    by (rule runs_Cons, rule runs_print [OF h q], rule runs_Nil)
next
  case False
  let ?A = "if sint real < sint cpu then ''error: more cpu time than real time\<newline>'' else []"
  let ?B = "if sint cpu < sint least then ''error: not enough cpu time went by\<newline>'' else []"
  let ?R = "here k I (out @ ?A @ ?B @ ''p2 blew it!\<newline>'')"
  let ?b = "if_then (\<lambda>s. sint cpu < sint least) [p2_print K V ''error: not enough cpu time went by\<newline>'']"
  have c: "runs (block [p2_print K V ''p2 blew it!\<newline>'']) s ?R" if "here k I ((out @ ?A) @ ?B) s" for s
    by (rule runs_Cons, rule runs_print [OF that q], rule runs_Nil) (simp only: append_assoc)
  have b: "runs (block [?b, p2_print K V ''p2 blew it!\<newline>'']) s ?R" if "here k I (out @ ?A) s" for s
    by (rule runs_Cons, rule runs_print_if [OF that q refl], rule c)
  show ?thesis unfolding p2_verdict_def p2_says_def if_not_P [OF False]
    by (rule runs_Cons, rule runs_print_if [OF h q refl], rule b)
qed

lemma stck_here:
  assumes "here k I out s"
  shows "\<exists>s'. stck s = (tod (tod_ix (hardware (nuc s))), s') \<and> here k I out s' \<and> base s' = base s \<and>
    tod_ix (hardware (nuc s')) = Suc (tod_ix (hardware (nuc s)))"
proof -
  let ?h = "(hardware (nuc s))\<lparr>tod_ix := Suc (tod_ix (hardware (nuc s)))\<rparr>"
  let ?s = "s\<lparr>nuc := (nuc s)\<lparr>hardware := ?h\<rparr>\<rparr>"
  have o: "ok k s" using assms by (simp add: here_def)
  have "ok k ?s \<and> base ?s = base s" by (rule own [OF o, of _ ?h "ints (nuc s)"]) simp_all
  moreover have "tod_in (hardware (nuc s)) = tod" using clock(1) [OF o] by (simp add: hw_clock_def)
  ultimately show ?thesis using assms by (intro exI [of _ ?s]) (simp add: stck_def read_tod_def here_def Let_def)
qed

lemma cpu_here:
  assumes h: "here k I out s"
  shows "\<exists>s'. syscall K GETCPUTIME 0 0 0 s = Some (base s + tod (tod_ix (hardware (nuc s))), s') \<and> here k I out s' \<and>
    base s' = base s \<and> tod_ix (hardware (nuc s')) = Suc (tod_ix (hardware (nuc s)))"
proof -
  have o: "ok k s" using h by (simp add: here_def)
  let ?l = "log (Sys GETTIME 0 0 0) s"
  obtain n where n: "K GETTIME 0 0 0 ?l = Some (base ?l + tod_now (nuc ?l), ?l\<lparr>nuc := n\<rparr>)" "ok k (?l\<lparr>nuc := n\<rparr>)"
    "ints n = ints (nuc ?l)" "base (?l\<lparr>nuc := n\<rparr>) = base ?l" "tod_ix (hardware n) = Suc (tod_ix (hardware (nuc ?l)))"
    using cpu [OF ok_log [OF o]] by blast
  have "base ?l = base s" using own_same [OF o, of ?l] by (simp add: log_def)
  moreover have "tod_now (nuc ?l) = tod (tod_ix (hardware (nuc s)))"
    using clock(1) [OF o] by (simp add: tod_now_def hw_clock_def log_def)
  moreover have "GETCPUTIME = GETTIME" by (simp add: GETCPUTIME_def GETTIME_def)
  ultimately show ?thesis using n h
    by (intro exI [of _ "?l\<lparr>nuc := n\<rparr>"]) (simp add: syscall_def here_def log_def sent_append)
qed

lemma times_run:
  assumes h: "here k I out s" and q: "quiet k I"
  shows "runs (p2_times K V) s (\<lambda>s'. \<exists>j. here k I (out @ p2_says (tod (j + 3) - tod j) (tod (j + 2) - tod (j + 1))
    (word_of_int (sint MINLOOPTIME sdiv sint scale))) s')"
proof -
  define j where "j = tod_ix (hardware (nuc s))"
  obtain s1 where s1: "stck s = (tod j, s1)" "here k I out s1" "base s1 = base s" "tod_ix (hardware (nuc s1)) = j + 1"
    using stck_here [OF h] by (auto simp: j_def)
  obtain s2 where s2: "syscall K GETCPUTIME 0 0 0 s1 = Some (base s + tod (j + 1), s2)" "here k I out s2"
    "base s2 = base s" "tod_ix (hardware (nuc s2)) = j + 2"
    using cpu_here [OF s1(2)] s1(3,4) by auto
  obtain s3 where s3: "syscall K GETCPUTIME 0 0 0 s2 = Some (base s + tod (j + 2), s3)" "here k I out s3"
    "tod_ix (hardware (nuc s3)) = j + 3"
    using cpu_here [OF s2(2)] s2(3,4) by (auto simp: numeral_3_eq_3)
  obtain s4 where s4: "stck s3 = (tod (j + 3), s4)" "here k I out s4"
    using stck_here [OF s3(2)] s3(3) by auto
  let ?l = "word_of_int (sint MINLOOPTIME sdiv sint scale)"
  have "timescale (hardware (nuc s4)) = scale" using clock(1) [of k s4] s4(2) by (simp add: here_def hw_clock_def)
  then have "scaled MINLOOPTIME s4 = Some ?l" using clock(2) [of k s4] s4(2) by (simp add: scaled_def here_def Let_def)
  then have "p2_times K V s = p2_verdict K V (tod (j + 3) - tod j) (tod (j + 2) - tod (j + 1)) ?l s4"
    using s1(1) s2(1) s3(1) s4(1) by (simp add: p2_times_def)
  with verdict_run [OF s4(2) q] show ?thesis unfolding runs_def by metis
qed

text \<open>The whole process.\<close>

definition p2_after :: "(u32 \<Rightarrow> u32) \<Rightarrow> u32 \<Rightarrow> u32" where
  "p2_after I = (let J = (zeroed V (P2_MAXSEM + 1) (I(adr_startp2 V := I (adr_startp2 V) - 1)))(adr_p1p2synch V := 1)
     in J(adr_endp2 V := J (adr_endp2 V) + 1))"

lemma p2_run:
  assumes h: "here k I out s" and q: "quiet k I" and X: "set (p2_vars V) \<subseteq> X" and d: "distinct (p2_vars V)"
    and s0: "0 < sint (I (adr_startp2 V))" and idle: "\<And>i. i < P2_MAXSEM + 1 \<Longrightarrow> kblocked k (s_at V i) = []"
  shows "ends (p2 K V) s (\<lambda>(e, s'). e = Leaves (SYSCALL TERMINATETHREAD 0 0 0) \<and>
    (\<exists>j. here (V_view (adr_endp2 V) k) (p2_after I) (out @ ''p2 starts\<newline>'' @ ''p2 v's successfully\<newline>'' @
       p2_says (tod (j + 3) - tod j) (tod (j + 2) - tod (j + 1)) (word_of_int (sint MINLOOPTIME sdiv sint scale))) s'))"
proof -
  let ?Q = "\<lambda>(e, s'). e = Leaves (SYSCALL TERMINATETHREAD 0 0 0) \<and>
    (\<exists>j. here (V_view (adr_endp2 V) k) (p2_after I) (out @ ''p2 starts\<newline>'' @ ''p2 v's successfully\<newline>'' @
       p2_says (tod (j + 3) - tod j) (tod (j + 2) - tod (j + 1)) (word_of_int (sint MINLOOPTIME sdiv sint scale))) s')"
  let ?m = "\<lambda>j. p2_says (tod (j + 3) - tod j) (tod (j + 2) - tod (j + 1)) (word_of_int (sint MINLOOPTIME sdiv sint scale))"
  let ?I1 = "I(adr_startp2 V := I (adr_startp2 V) - 1)"
  let ?I2 = "zeroed V (P2_MAXSEM + 1) ?I1"
  let ?I3 = "?I2(adr_p1p2synch V := 1)"
  have ne: "adr_startp2 V \<noteq> adr_term_mut V" using d by (auto simp: p2_vars_def)
  have mem: "adr_startp2 V \<in> X" "adr_endp2 V \<in> X" "adr_p1p2synch V \<in> X" using X by (auto simp: p2_vars_def)
  have sX: "s_at V i \<in> X" if "i < P2_MAXSEM + 1" for i using X that by (auto simp: p2_vars_def image_subset_iff simp del: upt_Suc)
  have tm: "adr_term_mut V \<notin> s_at V ` {..<P2_MAXSEM + 1}" using d by (auto simp: p2_vars_def lessThan_atLeast0 simp del: upt_Suc)
  have q1: "quiet k ?I1" using q ne by (simp add: quiet_def)
  have q2: "quiet k ?I2" using q1 tm by (simp add: quiet_def zeroed_def)
  have z: "?I2 (s_at V i) = 0" if "i < P2_MAXSEM + 1" for i using that by (auto simp: zeroed_def)
  have pairs: "s_at V i \<in> X \<and> ?I2 (s_at V i) = 0 \<and> kblocked k (s_at V i) = []" if "i < P2_MAXSEM + 1" for i
    using sX [OF that] z [OF that] idle [OF that] by simp
  let ?o1 = "out @ ''p2 starts\<newline>''"
  let ?o2 = "?o1 @ ''p2 v's successfully\<newline>''"
  let ?last = "[stop_with (SYSCALL TERMINATETHREAD 0 0 0), p2_print K V ''error: p2 didn't terminate\<newline>'', stop_with PANIC]"
  have 6: "ends (block ?last) s ?Q" if "\<exists>j. here (V_view (adr_endp2 V) k) (?I3(adr_endp2 V := ?I3 (adr_endp2 V) + 1)) (?o2 @ ?m j) s" for s
    by (rule ends_here) (use that in \<open>simp add: stop_with_def ends_leave p2_after_def Let_def\<close>)
  have 5: "ends (block (sys K VERHOGEN (adr_endp2 V) # ?last)) s ?Q" if "here k ?I3 (?o2 @ ?m j) s" for s j
    by (rule ends_Cons, rule runs_V [OF that mem(2)], rule 6, rule exI, assumption)
  have 4: "ends (block (set_int (adr_p1p2synch V) 1 # sys K VERHOGEN (adr_endp2 V) # ?last)) s ?Q"
    if "\<exists>j. here k ?I2 (?o2 @ ?m j) s" for s
  proof -
    from that obtain j where j: "here k ?I2 (?o2 @ ?m j) s" ..
    show ?thesis by (rule ends_Cons, rule runs_assign [OF j mem(3)], rule 5)
  qed
  have 3: "ends (block (p2_times K V # set_int (adr_p1p2synch V) 1 # sys K VERHOGEN (adr_endp2 V) # ?last)) s ?Q"
    if "here k ?I2 ?o2 s" for s
    by (rule ends_Cons, rule runs_mono [OF times_run [OF that q2]], rule 4)
  have 2: "ends (block (p2_vp_loop K V # p2_print K V ''p2 v's successfully\<newline>'' # p2_times K V #
      set_int (adr_p1p2synch V) 1 # sys K VERHOGEN (adr_endp2 V) # ?last)) s ?Q" if "here k ?I2 ?o1 s" for s
    by (rule ends_Cons, rule runs_mono [OF pairs_run [OF that pairs]], assumption, rule ends_Cons, erule runs_print [OF _ q2], rule 3)
  have 1: "ends (block (p2_zero V # p2_vp_loop K V # p2_print K V ''p2 v's successfully\<newline>'' # p2_times K V #
      set_int (adr_p1p2synch V) 1 # sys K VERHOGEN (adr_endp2 V) # ?last)) s ?Q" if "here k ?I1 ?o1 s" for s
    by (rule ends_Cons, rule runs_mono [OF zero_run [OF that sX]], assumption, rule 2)
  show ?thesis unfolding p2_def
    by (rule ends_Cons, rule runs_P [OF h mem(1) s0], rule ends_Cons, erule runs_print [OF _ q1], rule 1)
qed

end

end
