(* ===== verification/P2_Props.thy ===== *)
theory P2_Props
  imports P2_Service
begin

text \<open>
  The test processes of phase 2 on the modelled nucleus: the contract \<open>test_service\<close> is
  interpreted on the calls through \<open>handleExceptions\<close>, with the terminal as a parameter.
\<close>

definition test_ready ::
  "umps \<Rightarrow> (nuc_state \<Rightarrow> nuc_state) \<Rightarrow> nat \<Rightarrow> u32 set \<Rightarrow> u32 \<Rightarrow> (nat \<Rightarrow> u32) \<Rightarrow> kview \<Rightarrow> nuc_state \<Rightarrow> bool" where
  "test_ready U D c X scale tod k n \<longleftrightarrow> umps_doc U \<and> terminal_answers U D \<and> runs_in_kernel n k c \<and>
     softBlockedCount n = 0 \<and> kblocked k (term_sem U) = [] \<and> ints n (term_sem U) \<in> {0, 1} \<and>
     term_sem U \<notin> X \<and> (\<forall>a\<in>X. sem_addr a) \<and> hw_clock n = (scale, tod) \<and> scale \<noteq> 0"

lemma V_view_other [simp]: "a \<noteq> b \<Longrightarrow> kblocked (V_view a k) b = kblocked k b"
  by (simp add: V_view_def split: list.split)

lemma ready_step:
  assumes "test_ready U D c X scale tod k n" and "runs_in_kernel n' k' c" and "spares n n' c"
    and "ints n' = (ints n)(a := v)" and "a \<noteq> term_sem U" and "kblocked k' (term_sem U) = []"
  shows "test_ready U D c X scale tod k' n'"
  using assms by (simp add: test_ready_def spares_def)

lemma sint_pred_pos: "0 < sint (v::u32) \<Longrightarrow> \<not> sint (v - 1) < 0"
  using sint_dec [of v] by simp

interpretation nucleus: test_service "waiting_call (nucl V) D" V X "\<lambda>k s. test_ready (nucl V) D c X scale tod k (nuc s)"
    "\<lambda>s. cpu_base (nuc s) c" scale tod for V D X c scale tod
proof unfold_locales
  fix k and s :: sup_state and a assume r: "test_ready (nucl V) D c X scale tod k (nuc s)" and a: "a \<in> X"
  then have U: "umps_doc (nucl V)" and rk: "runs_in_kernel (nuc s) k c" and sa: "sem_addr a" and ta: "a \<noteq> term_sem (nucl V)"
    and kt: "kblocked k (term_sem (nucl V)) = []" by (auto simp: test_ready_def)
  obtain v n where n: "nucleus_call (nucl V) VERHOGEN a 0 0 s = Some (v, s\<lparr>nuc := n\<rparr>)" "runs_in_kernel n (V_view a k) c"
    "ints n = (ints (nuc s))(a := ints (nuc s) a + 1)" "spares (nuc s) n c"
    using nucleus_V [OF U rk sa] by blast
  have "test_ready (nucl V) D c X scale tod (V_view a k) n"
    by (rule ready_step [OF r n(2,4,3) ta]) (use ta kt in simp)
  then show "\<exists>v n. waiting_call (nucl V) D VERHOGEN a 0 0 s = Some (v, s\<lparr>nuc := n\<rparr>) \<and>
      test_ready (nucl V) D c X scale tod (V_view a k) (nuc (s\<lparr>nuc := n\<rparr>)) \<and> ints n = (ints (nuc s))(a := ints (nuc s) a + 1)"
    using waiting_call_at_once [OF n(1)] n(3) by auto
next
  fix k and s :: sup_state and a assume r: "test_ready (nucl V) D c X scale tod k (nuc s)" and a: "a \<in> X" and p: "0 < sint (ints (nuc s) a)"
  then have U: "umps_doc (nucl V)" and rk: "runs_in_kernel (nuc s) k c" and sa: "sem_addr a" and ta: "a \<noteq> term_sem (nucl V)"
    and kt: "kblocked k (term_sem (nucl V)) = []" by (auto simp: test_ready_def)
  obtain v n where n: "nucleus_call (nucl V) PASSEREN a 0 0 s = Some (v, s\<lparr>nuc := n\<rparr>)" "runs_in_kernel n k c"
    "ints n = (ints (nuc s))(a := ints (nuc s) a - 1)" "spares (nuc s) n c"
    using nucleus_P_free [OF U rk sa sint_pred_pos [OF p]] by blast
  have "test_ready (nucl V) D c X scale tod k n"
    by (rule ready_step [OF r n(2,4,3) ta kt])
  then show "\<exists>v n. waiting_call (nucl V) D PASSEREN a 0 0 s = Some (v, s\<lparr>nuc := n\<rparr>) \<and>
      test_ready (nucl V) D c X scale tod k (nuc (s\<lparr>nuc := n\<rparr>)) \<and> ints n = (ints (nuc s))(a := ints (nuc s) a - 1)"
    using waiting_call_at_once [OF n(1)] n(3) by auto
next
  fix k and s :: sup_state assume r: "test_ready (nucl V) D c X scale tod k (nuc s)"
  then have U: "umps_doc (nucl V)" and rk: "runs_in_kernel (nuc s) k c" by (simp_all add: test_ready_def)
  obtain n where n: "nucleus_call (nucl V) GETTIME 0 0 0 s = Some (cpu_base (nuc s) c + tod_now (nuc s), s\<lparr>nuc := n\<rparr>)"
    "runs_in_kernel n k c" "ints n = ints (nuc s)" "spares (nuc s) n c" "cpu_base n c = cpu_base (nuc s) c"
    "tod_ix (hardware n) = Suc (tod_ix (hardware (nuc s)))"
    using nucleus_cpu_time [OF U rk] by blast
  have "test_ready (nucl V) D c X scale tod k n" using r n(2-4) by (simp add: test_ready_def spares_def)
  then show "\<exists>n. waiting_call (nucl V) D GETTIME 0 0 0 s = Some (cpu_base (nuc s) c + tod_now (nuc s), s\<lparr>nuc := n\<rparr>) \<and>
      test_ready (nucl V) D c X scale tod k (nuc (s\<lparr>nuc := n\<rparr>)) \<and> ints n = ints (nuc s) \<and>
      cpu_base (nuc (s\<lparr>nuc := n\<rparr>)) c = cpu_base (nuc s) c \<and> tod_ix (hardware n) = Suc (tod_ix (hardware (nuc s)))"
    using waiting_call_at_once [OF n(1)] n(3,5,6) by auto
next
  fix k and s :: sup_state assume r: "test_ready (nucl V) D c X scale tod k (nuc s)" and q: "kready k = []"
  then have U: "umps_doc (nucl V)" and D: "terminal_answers (nucl V) D" and al: "runs_alone (nucl V) (nuc s) k c"
    by (simp_all add: test_ready_def runs_alone_def)
  obtain v n where n: "waiting_call (nucl V) D IOWAIT (TERMINT (nucl V)) 0 0 s = Some (v, s\<lparr>nuc := n\<rparr>)" "v AND 0xFF = 5"
    "runs_alone (nucl V) n k c" "ints n = ints (nuc s)" "hw_clock n = hw_clock (nuc s)"
    using waiting_call_terminal [OF U D al] by blast
  have "test_ready (nucl V) D c X scale tod k n" using r n(3-5) by (simp add: test_ready_def runs_alone_def)
  then show "\<exists>v n. waiting_call (nucl V) D IOWAIT (TERMINT (nucl V)) 0 0 s = Some (v, s\<lparr>nuc := n\<rparr>) \<and> v AND 0xFF = 5 \<and>
      test_ready (nucl V) D c X scale tod k (nuc (s\<lparr>nuc := n\<rparr>)) \<and> ints n = ints (nuc s)"
    using n(1,2,4) by auto
next
  fix k and s s' :: sup_state and h I assume "test_ready (nucl V) D c X scale tod k (nuc s)" "nuc s' = (nuc s)\<lparr>ints := I, hardware := h\<rparr>"
    "\<And>a. a \<notin> X \<Longrightarrow> I a = ints (nuc s) a" "timescale h = timescale (hardware (nuc s))" "tod_in h = tod_in (hardware (nuc s))"
  then show "test_ready (nucl V) D c X scale tod k (nuc s') \<and> cpu_base (nuc s') c = cpu_base (nuc s) c"
    by (simp add: test_ready_def cpu_base_def hw_clock_def runs_in_kernel_def at_entry_def)
next
  fix k and s :: sup_state assume "test_ready (nucl V) D c X scale tod k (nuc s)"
  then show "hw_clock (nuc s) = (scale, tod)" "scale \<noteq> 0" "0 < DEVPERINT (nucl V)"
    by (simp_all add: test_ready_def umps_doc_def umps_devices_def)
qed

subsection \<open>p2\<close>

lemma sint_difference:
  assumes "unat (y::u32) \<le> unat x" and "unat x < 2 ^ 31"
  shows "sint (x - y) = int (unat x) - int (unat y)"
proof -
  have u: "unat (x - y) = unat x - unat y" using assms(1) by (simp add: unat_sub word_le_nat_alt)
  then have "sint (x - y) = int (unat (x - y))" using assms(2) by (intro sint_nonneg) simp
  then show ?thesis using u assms(1) by simp
qed

text \<open>On a clock that does not run backwards and does not overflow.\<close>

lemma p2_says_monotone:
  fixes tod :: "nat \<Rightarrow> u32"
  assumes "\<forall>i j. i \<le> j \<longrightarrow> unat (tod i) \<le> unat (tod j)" and "\<forall>i. unat (tod i) < 2 ^ 31"
  shows "p2_says (tod (j + 3) - tod j) (tod (j + 2) - tod (j + 1)) least =
    (if sint least \<le> int (unat (tod (j + 2))) - int (unat (tod (j + 1))) then ''p2 is OK\<newline>''
     else ''error: not enough cpu time went by\<newline>'' @ ''p2 blew it!\<newline>'')"
proof -
  have m: "unat (tod j) \<le> unat (tod (j + 1))" "unat (tod (j + 1)) \<le> unat (tod (j + 2))" "unat (tod (j + 2)) \<le> unat (tod (j + 3))"
    by (simp_all add: assms(1))
  have r: "sint (tod (j + 3) - tod j) = int (unat (tod (j + 3))) - int (unat (tod j))"
    by (rule sint_difference [OF _ assms(2) [rule_format]]) (use m in linarith)
  have c: "sint (tod (j + 2) - tod (j + 1)) = int (unat (tod (j + 2))) - int (unat (tod (j + 1)))"
    by (rule sint_difference [OF m(2) assms(2) [rule_format]])
  have le: "sint (tod (j + 2) - tod (j + 1)) \<le> sint (tod (j + 3) - tod j)" unfolding r c using m by linarith
  show ?thesis
  proof (cases "sint least \<le> sint (tod (j + 2) - tod (j + 1))")
    case True
    with le show ?thesis unfolding p2_says_def c [symmetric] by simp
  next
    case False
    with le show ?thesis unfolding p2_says_def c [symmetric] by simp
  qed
qed

text \<open>
  C14: The process p2 on the nucleus.  With p1 waiting for it and nobody else, every system call of
  p2 goes through \<open>handleExceptions\<close>, each character it prints blocks it until the terminal interrupts,
  and it runs to its SYS2: all 21 semaphores are back at zero without an error message, \<open>p1p2synch\<close>
  is set, \<open>endp2\<close> is signalled, which makes p1 ready, and the terminal has got exactly its messages.
  With a clock that does not run backwards it never finds more processor time than real time; the
  last message depends only on the time between its two SYS6.
\<close>

theorem p2_on_nucleus:
  assumes r: "test_ready (nucl V) D c (set (p2_vars V)) scale tod k (nuc s)" and d: "distinct (p2_vars V)"
    and idle: "kready k = []" "\<forall>a \<in> set (p2_vars V). a \<noteq> adr_endp2 V \<longrightarrow> kblocked k a = []"
    and v: "ints (nuc s) (adr_term_mut V) = 1" "0 < sint (ints (nuc s) (adr_startp2 V))"
    and mono: "\<forall>i j. i \<le> j \<longrightarrow> unat (tod i) \<le> unat (tod j)" "\<forall>i. unat (tod i) < 2 ^ 31"
  shows "\<exists>s' j. p2 (waiting_call (nucl V) D) V s = Some (Inl (Leaves (SYSCALL TERMPROCESS 0 0 0), s')) \<and>
    runs_in_kernel (nuc s') (V_view (adr_endp2 V) k) c \<and> ints (nuc s') (adr_p1p2synch V) = 1 \<and>
    ints (nuc s') (adr_startp2 V) = ints (nuc s) (adr_startp2 V) - 1 \<and>
    ints (nuc s') (adr_endp2 V) = ints (nuc s) (adr_endp2 V) + 1 \<and> (\<forall>i \<le> P2_MAXSEM. ints (nuc s') (s_at V i) = 0) \<and>
    sent (bus s') = sent (bus s) @ ''p2 starts\<newline>'' @ ''p2 v's successfully\<newline>'' @
      (if sint (word_of_int (sint MINLOOPTIME sdiv sint scale) :: u32) \<le> int (unat (tod (j + 2))) - int (unat (tod (j + 1)))
       then ''p2 is OK\<newline>'' else ''error: not enough cpu time went by\<newline>'' @ ''p2 blew it!\<newline>'')"
proof -
  let ?X = "set (p2_vars V)"
  have h: "nucleus.here V D c ?X scale tod k (ints (nuc s)) (sent (bus s)) s"
    using r by (simp add: nucleus.here_def)
  have ne: "adr_p1p2synch V \<noteq> adr_endp2 V" "adr_startp2 V \<noteq> adr_endp2 V" "adr_startp2 V \<noteq> adr_p1p2synch V"
    "adr_startp2 V \<notin> s_at V ` {..<P2_MAXSEM + 1}" "adr_endp2 V \<notin> s_at V ` {..<P2_MAXSEM + 1}"
    "adr_p1p2synch V \<notin> s_at V ` {..<P2_MAXSEM + 1}"
    using d by (auto simp: p2_vars_def lessThan_atLeast0 simp del: upt_Suc)
  have sm: "s_at V i \<in> ?X" "s_at V i \<noteq> adr_endp2 V" if "i < P2_MAXSEM + 1" for i
  proof -
    have "s_at V i \<in> s_at V ` {..<P2_MAXSEM + 1}" using that by simp
    then show "s_at V i \<noteq> adr_endp2 V" using ne(5) by metis
    show "s_at V i \<in> ?X" using that by (auto simp: p2_vars_def simp del: upt_Suc)
  qed
  have q: "nucleus.quiet V ?X k (ints (nuc s))"
    using idle v(1) d by (auto simp: nucleus.quiet_def p2_vars_def)
  have sb: "kblocked k (s_at V i) = []" if "i < P2_MAXSEM + 1" for i using idle(2) sm [OF that] by blast
  obtain s' j where s': "p2 (waiting_call (nucl V) D) V s = Some (Inl (Leaves (SYSCALL TERMINATETHREAD 0 0 0), s'))"
    "nucleus.here V D c ?X scale tod (V_view (adr_endp2 V) k) (nucleus.p2_after V (ints (nuc s))) (sent (bus s) @
       ''p2 starts\<newline>'' @ ''p2 v's successfully\<newline>'' @
       p2_says (tod (j + 3) - tod j) (tod (j + 2) - tod (j + 1)) (word_of_int (sint MINLOOPTIME sdiv sint scale))) s'"
    using nucleus.p2_run [OF h q subset_refl d v(2) sb] unfolding ends_def by auto
  have I: "ints (nuc s') = nucleus.p2_after V (ints (nuc s))" and t: "test_ready (nucl V) D c ?X scale tod (V_view (adr_endp2 V) k) (nuc s')"
    and o: "sent (bus s') = sent (bus s) @ ''p2 starts\<newline>'' @ ''p2 v's successfully\<newline>'' @
       p2_says (tod (j + 3) - tod j) (tod (j + 2) - tod (j + 1)) (word_of_int (sint MINLOOPTIME sdiv sint scale))"
    using s'(2) by (simp_all add: nucleus.here_def)
  have "ints (nuc s') (s_at V i) = 0" if "i \<le> P2_MAXSEM" for i
  proof -
    have m: "s_at V i \<in> s_at V ` {..<P2_MAXSEM + 1}" using that by simp
    then have "s_at V i \<noteq> adr_endp2 V" "s_at V i \<noteq> adr_p1p2synch V" using ne(5,6) by metis+
    then show ?thesis using m unfolding I by (simp add: nucleus.p2_after_def zeroed_def Let_def)
  qed
  moreover have "ints (nuc s') (adr_p1p2synch V) = 1" "ints (nuc s') (adr_startp2 V) = ints (nuc s) (adr_startp2 V) - 1"
    "ints (nuc s') (adr_endp2 V) = ints (nuc s) (adr_endp2 V) + 1"
    using ne unfolding I by (auto simp: nucleus.p2_after_def zeroed_def Let_def)
  moreover have "runs_in_kernel (nuc s') (V_view (adr_endp2 V) k) c" using t by (simp add: test_ready_def)
  moreover note o [unfolded p2_says_monotone [of tod, OF mono]]
  moreover have "TERMINATETHREAD = TERMPROCESS" by (simp add: TERMINATETHREAD_def TERMPROCESS_def)
  ultimately show ?thesis using s'(1) by (intro exI [of _ s'] exI [of _ j] conjI allI impI) simp_all
qed

text \<open>A terminal that is always ready, and the start of p2.\<close>

definition terminal3 :: "nuc_state \<Rightarrow> nuc_state" where
  "terminal3 s = s\<lparr>hardware := (hardware s)\<lparr>CAUSE := 0x8000, dev_bitmap := (\<lambda>_. 1),
     dev_regs := (\<lambda>_ _. \<lparr>dev_dtp = \<lparr>dtp_status = 1, dtp_command = 0, dtp_data0 = 0\<rparr>,
       dev_term = \<lparr>recv_status = 1, recv_command = 0, transm_status = 5, transm_command = 0\<rparr>\<rparr>)\<rparr>\<rparr>"

definition p2_demo :: sup_state where
  "p2_demo = (let n = demo (first_state umps3 zero_state) in supp_example\<lparr>nuc := n\<lparr>
     ints := (load_globals (p2_semaphores umps3p2 @ p2_counters umps3p2) (\<lambda>_. 0))(adr_startp2 umps3p2 := 1),
     hardware := (hardware n)\<lparr>timescale := 0x10000, tod_in := (\<lambda>_. 0)\<rparr>\<rparr>\<rparr>)"

lemma terminal3_answers: "terminal_answers umps3 terminal3"
  unfolding terminal_answers_def
proof (intro allI)
  fix s
  show "\<exists>h S. terminal3 s = s\<lparr>hardware := h, states := (states s)(BIOSDATAPAGE := S)\<rparr> \<and>
     CAUSE h = CAUSE_IP umps3 (TERMINT umps3) \<and> dev_bitmap h (TERMINT umps3) AND 1 = 1 \<and>
     recv_status (dev_term (dev_regs h (TERMINT umps3) 0)) = READY umps3 \<and>
     transm_status (dev_term (dev_regs h (TERMINT umps3) 0)) AND 0xFF = 5 \<and>
     timescale h = timescale (hardware s) \<and> tod_in h = tod_in (hardware s)"
    by (intro exI [of _ "hardware (terminal3 s)"] exI [of _ "states s BIOSDATAPAGE"]) (simp add: terminal3_def umps3_def)
qed

lemma umps3p2_vars: "distinct (p2_vars umps3p2)" "term_sem umps3 \<notin> set (p2_vars umps3p2)" "\<forall>a \<in> set (p2_vars umps3p2). sem_addr a"
proof -
  have l: "p2_vars umps3p2 = [0x20030000, 0x20030008, 0x2003000C, 0x20030030] @ map (\<lambda>i. 0x20030100 + 4 * of_nat i) [0..<21]"
    by (simp add: p2_vars_def s_at_def umps3p2_def supp_umps.defs P2_MAXSEM_def umps3s_def)
  show "distinct (p2_vars umps3p2)" "term_sem umps3 \<notin> set (p2_vars umps3p2)" "\<forall>a \<in> set (p2_vars umps3p2). sem_addr a"
    unfolding l by (simp_all add: upt_rec term_sem_def umps3_def sem_addr_def MAXADD_def)
qed

lemma p2_demo_ints:
  "ints (nuc p2_demo) (term_sem umps3) = 0" "ints (nuc p2_demo) (adr_term_mut umps3p2) = 1"
  "ints (nuc p2_demo) (adr_startp2 umps3p2) = 1"
proof -
  have I: "ints (nuc p2_demo) = (load_globals (p2_semaphores umps3p2 @ p2_counters umps3p2) (\<lambda>_. 0))(adr_startp2 umps3p2 := 1)"
    by (simp add: p2_demo_def Let_def)
  have a: "(term_sem umps3, v) \<notin> set (p2_semaphores umps3p2 @ p2_counters umps3p2)" for v
    by (simp add: p2_semaphores_def p2_counters_def s_at_def umps3p2_def supp_umps.defs term_sem_def umps3_def P2_MAXSEM_def upt_rec)
  then have "map_of (p2_semaphores umps3p2 @ p2_counters umps3p2) (term_sem umps3) = None" by (auto simp: map_of_eq_None_iff)
  moreover have "term_sem umps3 \<noteq> adr_startp2 umps3p2" "adr_term_mut umps3p2 \<noteq> adr_startp2 umps3p2"
    by (simp_all add: umps3p2_def supp_umps.defs term_sem_def umps3_def)
  ultimately show "ints (nuc p2_demo) (term_sem umps3) = 0" "ints (nuc p2_demo) (adr_term_mut umps3p2) = 1"
    "ints (nuc p2_demo) (adr_startp2 umps3p2) = 1"
    unfolding I by (simp_all add: load_globals_def p2_semaphores_def p2_counters_def)
qed

theorem p2_on_nucleus_witness:
  "\<exists>s'. p2 (waiting_call umps3 terminal3) umps3p2 p2_demo = Some (Inl (Leaves (SYSCALL TERMPROCESS 0 0 0), s')) \<and>
     sent (bus s') = ''p2 starts\<newline>'' @ ''p2 v's successfully\<newline>'' @ ''p2 is OK\<newline>''"
proof -
  let ?k = "kfirst" and ?X = "set (p2_vars umps3p2)"
  have "status (first_state umps3 zero_state) AND USERPON = 0"
    by (simp add: first_state_def set_gpr_def Let_def ALLOFF_def IECON_def IMON_def TEBITON_def USERPON_def)
  then have "runs_in_kernel (nuc p2_demo) ?k 0"
    using demo_entry [of "first_state umps3 zero_state"] by (simp add: p2_demo_def runs_in_kernel_def at_entry_def Let_def)
  moreover have g: "ints (nuc p2_demo) (term_sem umps3) = 0" "ints (nuc p2_demo) (adr_term_mut umps3p2) = 1"
    "ints (nuc p2_demo) (adr_startp2 umps3p2) = 1" by (rule p2_demo_ints)+
  ultimately have r: "test_ready (nucl umps3p2) terminal3 0 ?X 0x10000 (\<lambda>_. 0) ?k (nuc p2_demo)"
    using umps3_doc terminal3_answers umps3p2_vars(2,3)
    by (simp add: test_ready_def) (simp add: p2_demo_def hw_clock_def Let_def)
  have v: "ints (nuc p2_demo) (adr_term_mut umps3p2) = 1" "0 < sint (ints (nuc p2_demo) (adr_startp2 umps3p2))"
    by (simp_all add: p2_demo_ints)
  have b: "bus p2_demo = []" by (simp add: p2_demo_def supp_example_def Let_def)
  have l: "sint (word_of_int (sint MINLOOPTIME sdiv sint (0x10000 :: u32)) :: u32) = 0" by (simp add: MINLOOPTIME_def)
  from p2_on_nucleus [OF r umps3p2_vars(1) _ _ v] show ?thesis
    unfolding l b nucl_umps3p2 by (auto simp del: append_Cons append_Nil)
qed

end
