(* ===== verification/P2_States.thy ===== *)
theory P2_States
  imports P2_Service
begin

text \<open>
  The processor states of the test processes of phase 2: the stacks and entry points \<open>test\<close>
  gives them, and how the handlers of p5 resume it after a trap, from the exception through the
  nucleus to the state loaded.
\<close>

subsection \<open>The traps of p5\<close>

text \<open>Where p5 goes on after an exception with this code.\<close>

definition p5_resumes :: "p2_umps \<Rightarrow> u32 \<Rightarrow> state_t \<Rightarrow> state_t" where
  "p5_resumes V code st =
     (if code = BUSERROR then set_gpr (ix_t9 (nucl V)) (pc_p5a V) (st\<lparr>pc_epc := pc_p5a V\<rparr>)
      else if code = RESVINSTR \<or> code = ADDRERROR then
        (set_gpr (ix_t9 (nucl V)) (pc_p5b V) (st\<lparr>pc_epc := pc_p5b V\<rparr>))\<lparr>status := status st AND KUPBITOFF\<rparr>
      else if code = SYSCALLEXCPT then st\<lparr>pc_epc := pc_epc st + 4\<rparr>
      else st)"

text \<open>What \<open>p5gen\<close> prints on the way; bit 3 of the status is the previous mode.\<close>

definition p5_says :: "u32 \<Rightarrow> state_t \<Rightarrow> string" where
  "p5_says code st =
     (if code = BUSERROR then ''Bus Error: Access non-existent memory\<newline>''
      else if code = RESVINSTR then ''privileged instruction\<newline>''
      else if code = ADDRERROR then ''Address Error: non-kuseg access w/KU=1\<newline>''
      else if code = SYSCALLEXCPT then
        if bit (status st) 3 then ''High level SYS call from user mode process\<newline>''
        else ''High level SYS call from kernel mode process\<newline>''
      else ''other program trap\<newline>'')"

lemma previous_mode: "drop_bit 31 (push_bit 28 w) = (if bit w 3 then ON else OFF)" for w :: u32
  by (rule bit_word_eqI) (auto simp: bit_simps ON_def OFF_def)

lemma ON_OFF: "ON \<noteq> OFF"
  by (simp add: ON_def OFF_def)

text \<open>Printing while the device and the semaphores answer: the structures stay, the message is sent.\<close>

definition heard :: "(u32 \<Rightarrow> support_t) \<Rightarrow> string \<Rightarrow> sup_state \<Rightarrow> bool" where
  "heard P out s \<longleftrightarrow> supports (nuc s) = P \<and> sent (bus s) = out"

lemma p2_print_runs:
  assumes K: "device_kernel K (TERMINT (nucl V)) 0 sts" and ok: "\<And>i. terminal_ok (sts i)" and n: "0 < DEVPERINT (nucl V)"
    and P: "heard P out s" and Q: "\<And>s. heard P (out @ msg) s \<Longrightarrow> Q s"
  shows "runs (p2_print K V msg) s Q"
proof -
  have sem: "runs (sys K m a) s Q" if m: "m = PASSEREN \<or> m = VERHOGEN" "heard P out s" "\<And>s. heard P out s \<Longrightarrow> Q s" for m a s out Q
  proof -
    obtain v s' where "syscall K m a 0 0 s = Some (v, s')" "bus s' = bus s @ [Sys m a 0 0]" "own_mem s s'"
      using device_kernel_mutex [OF K m(1)] by blast
    then show ?thesis using m(2,3) by (simp add: sys_def runs_perform own_mem_def heard_def sent_append)
  qed
  have char: "runs (p2_print_char K V c) s (heard P (out @ [c]))" if "heard P out s" for c s out
  proof -
    let ?v = "PRINTCHR OR push_bit BYTELENGTH (of_char c)" and ?t = "TERMINT (nucl V)"
    have "unat (0::u32) < DEVPERINT (nucl V)" using n by simp
    from dev_puts(4) [OF this] obtain s1 where s1: "transm_command_put (nucl V) ?t 0 ?v s = Some s1"
      "bus s1 = bus s @ [TransmCommand ?t 0 ?v]" "own_mem s s1" by blast
    let ?l = "log (Sys IOWAIT ?t 0 0) s1"
    obtain s2 where s2: "K IOWAIT ?t 0 0 ?l = Some (sts (length (bus ?l)), s2)" "bus s2 = bus ?l" "supports (nuc s2) = supports (nuc ?l)"
      using K unfolding device_kernel_def by blast
    have b: "bus s2 = bus s @ [TransmCommand ?t 0 ?v, Sys IOWAIT ?t 0 0]" using s1(2) s2(2) by (simp add: log_def)
    have "p2_print_char K V c s = Some (Inr s2)"
      using s1(1) s2(1) ok [of "length (bus ?l)"] by (simp add: p2_print_char_def syscall_def terminal_ok_def WAITIO_def IOWAIT_def)
    moreover have "sent (bus s2) = out @ [c]"
      using that unfolding b sent_append by (simp add: heard_def sent_command del: drop_bit_or)
    ultimately show ?thesis using s1(3) s2(3) that by (simp add: runs_def own_mem_def log_def heard_def)
  qed
  have chars: "runs (block (map (p2_print_char K V) cs)) s (heard P (out @ cs))" if "heard P out s" for cs out s
    using that
  proof (induction cs arbitrary: out s)
    case (Cons c cs)
    have "runs (block (map (p2_print_char K V) cs)) s (heard P (out @ c # cs))" if "heard P (out @ [c]) s" for s
      using Cons.IH [OF that] by simp
    then show ?case unfolding list.map by (rule runs_Cons [OF runs_mono [OF char [OF Cons.prems]]])
  qed (simp add: runs_def)
  have P3: "PASSERN = PASSEREN" by (simp add: PASSERN_def PASSEREN_def)
  have last: "runs (block [sys K VERHOGEN (adr_term_mut V)]) s Q" if "heard P (out @ msg) s" for s
    by (rule runs_Cons, rule sem [OF _ that], simp, rule runs_Nil, rule Q)
  show ?thesis unfolding p2_print_def P3
    by (rule runs_Cons, rule sem [OF _ P], simp, rule runs_Cons, rule runs_mono [OF chars], assumption, rule last)
qed

text \<open>The saved state of p5 and the text sent so far.\<close>

definition p5_at :: "p2_umps \<Rightarrow> state_t \<Rightarrow> string \<Rightarrow> sup_state \<Rightarrow> bool" where
  "p5_at V x out s \<longleftrightarrow> saved V GENERALEXCEPT s = x \<and> sent (bus s) = out"

lemma runs_upd_saved:
  assumes "adr_pFiveSupport V \<noteq> 0" and "p5_at V x out s" and "\<And>s. p5_at V (f x) out s \<Longrightarrow> Q s"
  shows "runs (upd_saved V GENERALEXCEPT f) s Q"
proof -
  obtain s' where "upd_supp (adr_pFiveSupport V)
      (\<lambda>x. x\<lparr>sup_exceptState := (sup_exceptState x)(GENERALEXCEPT := f (sup_exceptState x GENERALEXCEPT))\<rparr>) s = Some s'"
    "p5_at V (f x) out s'" using assms(1,2) by (simp add: upd_supp_def saved_def p5_at_def)
  then show ?thesis unfolding upd_saved_def by (intro runs_perform assms(3))
qed

lemma runs_go_on_at:
  assumes a: "adr_pFiveSupport V \<noteq> 0" and x: "p5_at V x out s"
    and Q: "\<And>s. p5_at V (set_gpr (ix_t9 (nucl V)) e (x\<lparr>pc_epc := e\<rparr>)) out s \<Longrightarrow> Q s"
  shows "runs (go_on_at V GENERALEXCEPT e) s Q"
  unfolding go_on_at_def
  by (rule runs_Cons, rule runs_upd_saved [OF a x], rule runs_Cons, erule runs_upd_saved [OF a], rule runs_Nil, rule Q)

lemma ends_resume:
  "p5_at V x out s \<Longrightarrow> ends (block (resume_saved V GENERALEXCEPT # cs)) s (\<lambda>(e, s'). e = Leaves (LDST x) \<and> sent (bus s') = out)"
  by (intro ends_here) (simp add: resume_saved_def ends_leave p5_at_def)

lemma p5gen_ends:
  assumes K: "device_kernel K (TERMINT (nucl V)) 0 sts" "\<And>i. terminal_ok (sts i)" "0 < DEVPERINT (nucl V)"
    and a: "adr_pFiveSupport V \<noteq> 0" and x: "saved V GENERALEXCEPT s = x" and code: "drop_bit 2 (cause x AND CAUSEMASK) = code"
  shows "ends (p5gen K V) s (\<lambda>(e, s'). e = Leaves (LDST (p5_resumes V code x)) \<and> sent (bus s') = sent (bus s) @ p5_says code x)"
proof -
  have say: "runs (p2_print K V msg) s Q" if "p5_at V y out s" "\<And>s. p5_at V y (out @ msg) s \<Longrightarrow> Q s" for msg s y out Q
    by (rule p2_print_runs [OF K, of _ out]) (use that in \<open>auto simp: saved_def p5_at_def heard_def\<close>)
  note upd = runs_upd_saved [OF a] and go = runs_go_on_at [OF a]
  have x0: "p5_at V x (sent (bus s)) s" using x by (simp add: p5_at_def)
  let ?out = "sent (bus s)"
  let ?Q = "\<lambda>(e :: p2_end, s' :: sup_state). e = Leaves (LDST (p5_resumes V code x)) \<and> sent (bus s') = ?out @ p5_says code x"
  have ne: "BUSERROR \<noteq> RESVINSTR" "BUSERROR \<noteq> ADDRERROR" "BUSERROR \<noteq> SYSCALLEXCPT" "RESVINSTR \<noteq> SYSCALLEXCPT"
    "ADDRERROR \<noteq> SYSCALLEXCPT" "RESVINSTR \<noteq> ADDRERROR"
    by (simp_all add: BUSERROR_def RESVINSTR_def ADDRERROR_def SYSCALLEXCPT_def)
  let ?last = "resume_saved V GENERALEXCEPT"
  let ?b = "set_gpr (ix_t9 (nucl V)) (pc_p5b V) (x\<lparr>pc_epc := pc_p5b V\<rparr>)"
  have kernel: "runs (block [p2_print K V msg, go_on_at V GENERALEXCEPT (pc_p5b V),
      upd_saved V GENERALEXCEPT (\<lambda>x. x\<lparr>status := status x AND KUPBITOFF\<rparr>)]) s
      (p5_at V (?b\<lparr>status := status x AND KUPBITOFF\<rparr>) (?out @ msg))" for msg
    by (rule runs_Cons, rule say [OF x0], rule runs_Cons, erule go, rule runs_Cons, erule upd, rule runs_Nil) simp
  have fin: "ends (block [?last]) s' ?Q" if "p5_at V (p5_resumes V code x) (?out @ p5_says code x) s'" for s'
    using ends_resume [OF that] by simp
  consider "code = BUSERROR" | "code = RESVINSTR" | "code = ADDRERROR" | "code = SYSCALLEXCPT"
    | "code \<noteq> BUSERROR" "code \<noteq> RESVINSTR" "code \<noteq> ADDRERROR" "code \<noteq> SYSCALLEXCPT" by blast
  then show ?thesis
  proof cases
    case 1
    have "runs (block [p2_print K V ''Bus Error: Access non-existent memory\<newline>'', go_on_at V GENERALEXCEPT (pc_p5a V)]) s
        (p5_at V (set_gpr (ix_t9 (nucl V)) (pc_p5a V) (x\<lparr>pc_epc := pc_p5a V\<rparr>)) (?out @ ''Bus Error: Access non-existent memory\<newline>''))"
      by (rule runs_Cons, rule say [OF x0], rule runs_Cons, erule go, rule runs_Nil)
    then have "ends (block [block [p2_print K V ''Bus Error: Access non-existent memory\<newline>'', go_on_at V GENERALEXCEPT (pc_p5a V)], ?last]) s ?Q"
      by (rule ends_Cons [OF runs_mono]) (use 1 in \<open>intro fin, simp add: p5_resumes_def p5_says_def\<close>)
    then show ?thesis using 1 x code by (simp only: p5gen_def ends_def Let_def simp_thms if_True)
  next
    case 2
    have "ends (block [block [p2_print K V ''privileged instruction\<newline>'', go_on_at V GENERALEXCEPT (pc_p5b V),
      upd_saved V GENERALEXCEPT (\<lambda>x. x\<lparr>status := status x AND KUPBITOFF\<rparr>)], ?last]) s ?Q"
      by (rule ends_Cons [OF runs_mono [OF kernel]]) (use 2 ne in \<open>intro fin, simp add: p5_resumes_def p5_says_def\<close>)
    then show ?thesis using 2 ne x code by (simp only: p5gen_def ends_def Let_def simp_thms if_True if_False ne [symmetric])
  next
    case 3
    have "ends (block [block [p2_print K V ''Address Error: non-kuseg access w/KU=1\<newline>'', go_on_at V GENERALEXCEPT (pc_p5b V),
      upd_saved V GENERALEXCEPT (\<lambda>x. x\<lparr>status := status x AND KUPBITOFF\<rparr>)], ?last]) s ?Q"
      by (rule ends_Cons [OF runs_mono [OF kernel]]) (use 3 ne in \<open>intro fin, simp add: p5_resumes_def p5_says_def\<close>)
    then show ?thesis using 3 ne x code by (simp only: p5gen_def ends_def Let_def simp_thms if_True if_False ne [symmetric])
  next
    case 4
    let ?st = "drop_bit 31 (push_bit 28 (status (saved V GENERALEXCEPT s)))"
    have say_if: "runs (if_then (\<lambda>s. B) [p2_print K V msg]) s Q" if h: "p5_at V y out s"
      "\<And>s. p5_at V y (out @ (if B then msg else [])) s \<Longrightarrow> Q s" for B msg s y out Q
    proof (cases B)
      case True
      show ?thesis by (rule runs_if_then, rule True, rule runs_Cons, rule say [OF h(1)], rule runs_Nil, rule h(2)) (simp add: True)
    next
      case False
      show ?thesis by (rule runs_if_not, rule False, rule h(2)) (use h(1) False in simp)
    qed
    have says: "p5_says code x = (if ?st = ON then ''High level SYS call from user mode process\<newline>'' else []) @
        (if ?st = OFF then ''High level SYS call from kernel mode process\<newline>'' else [])"
      using 4 ne ON_OFF unfolding previous_mode x by (simp add: p5_says_def)
    have res: "p5_resumes V code x = x\<lparr>pc_epc := pc_epc x + 4\<rparr>" using 4 ne by (simp add: p5_resumes_def)
    have "ends (block [if_then (\<lambda>s. ?st = ON) [p2_print K V ''High level SYS call from user mode process\<newline>''],
        if_then (\<lambda>s. ?st = OFF) [p2_print K V ''High level SYS call from kernel mode process\<newline>''],
        upd_saved V GENERALEXCEPT (\<lambda>x. x\<lparr>pc_epc := pc_epc x + 4\<rparr>), ?last]) s ?Q"
      by (rule ends_Cons, rule say_if [OF x0], rule ends_Cons, erule say_if, rule ends_Cons, erule upd, rule fin)
        (simp only: says res append_assoc)
    then have "ends (p5sys K V) s ?Q" by (simp only: p5sys_def ends_def Let_def)
    then have "ends (block [p5sys K V, ?last]) s ?Q" by (rule ends_here)
    then show ?thesis using 4 ne x code by (simp only: p5gen_def ends_def Let_def simp_thms if_True if_False ne [symmetric])
  next
    case 5
    have "ends (block [p2_print K V ''other program trap\<newline>'', ?last]) s ?Q"
      by (rule ends_Cons, rule say [OF x0], rule fin) (use 5 in \<open>simp add: p5_resumes_def p5_says_def\<close>)
    then show ?thesis using 5 x code by (simp only: p5gen_def ends_def Let_def simp_thms if_False)
  qed
qed

lemma p5_contexts_fields:
  "stackPtr (sup_exceptContext (p5_contexts V sp y) GENERALEXCEPT) = sp"
  "ctx_status (sup_exceptContext (p5_contexts V sp y) GENERALEXCEPT) = ALLOFF OR IEPBITON OR CAUSEINTMASK OR TEBITON"
  "pc (sup_exceptContext (p5_contexts V sp y) GENERALEXCEPT) = pc_p5gen V"
  "sup_exceptState (p5_contexts V sp y) = sup_exceptState y"
  by (simp_all add: p5_contexts_def GENERALEXCEPT_def PGFAULTEXCEPT_def Let_def)

lemma exc_code_mask:
  assumes "(c :: u32) AND 0xFF = push_bit 2 code" and "code \<in> {4, 5, 6, 7, 8, 9, 10, 11, 12}"
  shows "drop_bit 2 (c AND CAUSEMASK) = code"
proof -
  have "drop_bit 2 (push_bit 2 code) = code" using assms(2) by auto
  then show ?thesis by (simp only: CAUSEMASK_def assms(1))
qed

text \<open>
  C34: The exceptions of p5 across the levels.  The context that \<open>test\<close> gave p5 makes the nucleus start
  \<open>p5gen\<close> on the stack of p5 for every trap and every system call it does not serve itself, and \<open>p5gen\<close> resumes
  p5 from the saved state: at p5a after a bus error, at p5b and in kernel mode after a privileged
  instruction or an address error, after the call for a system call; after any other trap it
  loads the state as it was saved, at the instruction that trapped.  On the way \<open>p5gen\<close> prints the
  message of that kind of exception, and nothing else, for a system call the one for the mode of the caller.
\<close>

theorem p5_traps:
  assumes U: "umps_doc (nucl V)" and e: "at_entry (nuc s) k c"
    and a: "p_supportStruct (pcbs (nuc s) c) = adr_pFiveSupport V" "adr_pFiveSupport V \<noteq> 0"
    and x: "supports (nuc s) (adr_pFiveSupport V) = p5_contexts V sp y"
    and bios: "bios = states (nuc s) BIOSDATAPAGE" "cause bios = CAUSE (hardware (nuc s))"
    and code: "code \<in> {4, 5, 6, 7, 9, 10, 11, 12} \<or> code = 8 \<and> (status bios AND USERPON \<noteq> 0 \<or> reg_a0 (nucl V) bios = 9)"
    and cau: "CAUSE (hardware (nuc s)) AND 0xFF = push_bit 2 code"
    and K: "device_kernel K (TERMINT (nucl V)) 0 sts" "\<And>i. terminal_ok (sts i)"
  shows "\<exists>n' s'. handleExceptions (nucl V) (nuc s) =
      Some (LDCXT sp (ALLOFF OR IEPBITON OR CAUSEINTMASK OR TEBITON) (pc_p5gen V), n') \<and>
    p5gen K V (s\<lparr>nuc := n'\<rparr>) =
      Some (Inl (Leaves (LDST (p5_resumes V code (copyState (nucl V) bios (sup_exceptState y GENERALEXCEPT)))), s')) \<and>
    sent (bus s') = sent (bus s) @ p5_says code bios"
proof -
  have n: "0 < DEVPERINT (nucl V)" using U by (simp add: umps_doc_def umps_devices_def)
  let ?x = "copyState (nucl V) bios (sup_exceptState y GENERALEXCEPT)"
  obtain n' where n': "handleExceptions (nucl V) (nuc s) =
      Some (LDCXT sp (ALLOFF OR IEPBITON OR CAUSEINTMASK OR TEBITON) (pc_p5gen V), n')"
    "sup_exceptState (supports n' (adr_pFiveSupport V)) GENERALEXCEPT = ?x"
    using passes_up [OF U e a code [unfolded bios(1)] cau] unfolding x p5_contexts_fields bios(1) by (auto simp: passed_up_def x p5_contexts_fields)
  have sv: "saved V GENERALEXCEPT (s\<lparr>nuc := n'\<rparr>) = ?x" using n'(2) by (simp add: saved_def)
  have "drop_bit 2 (cause ?x AND CAUSEMASK) = code"
    using exc_code_mask [OF cau] code by (auto simp: copyState_def bios(2) Let_def)
  moreover have "p5_says code ?x = p5_says code bios" by (simp add: p5_says_def copyState_def Let_def)
  ultimately show ?thesis using p5gen_ends [OF K n a(2) sv] n'(1) by (auto simp: ends_def)
qed

definition p5_demo :: sup_state where
  "p5_demo = (let n = demo (first_state umps3 zero_state) in supp_example\<lparr>nuc := n\<lparr>
     pcbs := (pcbs n)(0 := (pcbs n 0)\<lparr>p_supportStruct := adr_pFiveSupport umps3p2\<rparr>),
     supports := (\<lambda>_. p5_contexts umps3p2 0x20040000 zero_support), states := (\<lambda>_. zero_state\<lparr>cause := 40\<rparr>),
     hardware := (hardware n)\<lparr>CAUSE := 40\<rparr>\<rparr>\<rparr>)"

theorem p5_traps_witness:
  "\<exists>n' s'. handleExceptions umps3 (nuc p5_demo) =
      Some (LDCXT 0x20040000 (ALLOFF OR IEPBITON OR CAUSEINTMASK OR TEBITON) (pc_p5gen umps3p2), n') \<and>
    p5gen (\<lambda>n a b c s. Some (5, s)) umps3p2 (p5_demo\<lparr>nuc := n'\<rparr>) =
      Some (Inl (Leaves (LDST (p5_resumes umps3p2 10 (copyState umps3 (zero_state\<lparr>cause := 40\<rparr>)
        (sup_exceptState zero_support GENERALEXCEPT)))), s')) \<and>
    sent (bus s') = ''privileged instruction\<newline>''"
proof -
  have e: "at_entry (nuc p5_demo) kfirst 0"
    using demo_entry [of "first_state umps3 zero_state"] by (simp add: p5_demo_def at_entry_def Let_def)
  have U: "umps_doc (nucl umps3p2)" by (simp add: umps3_doc)
  have a: "p_supportStruct (pcbs (nuc p5_demo) 0) = adr_pFiveSupport umps3p2" "adr_pFiveSupport umps3p2 \<noteq> 0"
    by (simp_all add: p5_demo_def umps3p2_def supp_umps.defs umps3s_def Let_def)
  have x: "supports (nuc p5_demo) (adr_pFiveSupport umps3p2) = p5_contexts umps3p2 0x20040000 zero_support"
    by (simp add: p5_demo_def Let_def)
  have b: "zero_state\<lparr>cause := 40\<rparr> = states (nuc p5_demo) BIOSDATAPAGE"
    "cause (zero_state\<lparr>cause := 40\<rparr>) = CAUSE (hardware (nuc p5_demo))"
    "CAUSE (hardware (nuc p5_demo)) AND 0xFF = push_bit 2 10" by (simp_all add: p5_demo_def Let_def)
  have c: "(10 :: u32) \<in> {4, 5, 6, 7, 9, 10, 11, 12} \<or> (10 :: u32) = 8 \<and>
    (status (zero_state\<lparr>cause := 40\<rparr>) AND USERPON \<noteq> 0 \<or> reg_a0 (nucl umps3p2) (zero_state\<lparr>cause := 40\<rparr>) = 9)" by simp
  have K: "device_kernel (\<lambda>n a b c s. Some (5, s)) (TERMINT (nucl umps3p2)) 0 (\<lambda>_. 5)" by (simp add: device_kernel_def)
  have t: "\<And>i. terminal_ok ((\<lambda>_. 5) i)" by (simp add: terminal_ok_def TERMSTATMASK_def RECVD_def)
  have says: "sent (bus p5_demo) = []" "p5_says 10 (zero_state\<lparr>cause := 40\<rparr>) = ''privileged instruction\<newline>''"
    by (simp_all add: p5_demo_def Let_def supp_example_def p5_says_def BUSERROR_def RESVINSTR_def)
  from p5_traps [OF U e a x b(1,2) c b(3) K t] show ?thesis unfolding nucl_umps3p2 says append_Nil .
qed

subsection \<open>The states that test makes\<close>

definition boot_state :: "p2_umps \<Rightarrow> state_t \<Rightarrow> u32 \<Rightarrow> u32 \<Rightarrow> state_t" where
  "boot_state V cpu sp entry = (set_gpr (ix_t9 (nucl V)) entry (set_gpr (ix_sp (nucl V)) sp cpu))
     \<lparr>pc_epc := entry, status := status cpu OR IEPBITON OR CAUSEINTMASK OR TEBITON\<rparr>"

lemma set_up_states:
  "states (nuc (set_up V cpu a f entry s)) = (states (nuc s))(a := boot_state V cpu (f (upd_state a (\<lambda>_. cpu) s)) entry)"
  by (simp add: set_up_def upd_state_def on_nuc_def boot_state_def set_gpr_def Let_def fun_eq_iff)

lemma set_up_ints: "ints (nuc (set_up V cpu a f entry s)) = ints (nuc s)"
  by (simp add: set_up_def upd_state_def on_nuc_def Let_def)

lemma sp_of_upd: "sp_of V b (upd_state a (\<lambda>_. cpu) s) = (if b = a then gpr cpu (ix_sp (nucl V)) else sp_of V b s)"
  by (simp add: sp_of_def upd_state_def on_nuc_def)

lemma sp_of_set_up:
  assumes "ix_sp (nucl V) \<noteq> ix_t9 (nucl V)"
  shows "sp_of V b (set_up V cpu a f entry s) = (if b = a then f (upd_state a (\<lambda>_. cpu) s) else sp_of V b s)"
  using assms by (simp add: sp_of_def set_up_states boot_state_def)

lemma sp_of_put_int: "sp_of V b (put_int a v s) = sp_of V b s" "states (nuc (put_int a v s)) = states (nuc s)"
  by (simp_all add: sp_of_def put_int_def on_nuc_def)

text \<open>The processes in the order of their states, with the distance of their stacks in pages and their entry points.\<close>

definition p2_processes :: "p2_umps \<Rightarrow> (nat \<times> u32 \<times> nat \<times> u32) list" where
  "p2_processes V = [(0, adr_p2state V, 1, pc_p2 V), (1, adr_p3state V, 2, pc_p3 V), (2, adr_p4state V, 3, pc_p4 V),
     (3, adr_p5state V, 5, pc_p5 V), (4, adr_p6state V, 7, pc_p6 V), (5, adr_p7state V, 8, pc_p7 V),
     (6, adr_p8rootstate V, 9, pc_p8root V), (7, adr_child1state V, 10, pc_child1 V), (8, adr_child2state V, 11, pc_child2 V),
     (9, adr_gchild1state V, 12, pc_p8leaf V), (10, adr_gchild2state V, 13, pc_p8leaf V),
     (11, adr_gchild3state V, 14, pc_p8leaf V), (12, adr_gchild4state V, 15, pc_p8leaf V)]"

lemma test_states_all:
  assumes d: "distinct (map (fst \<circ> snd) (p2_processes V))" and ne: "ix_sp (nucl V) \<noteq> ix_t9 (nucl V)"
    and sp: "\<And>i. gpr (cpu i) (ix_sp (nucl V)) = sp0"
  shows "states (nuc (test_states V cpu s)) = fold (\<lambda>(i, a, n, e) S. S(a := boot_state V (cpu i) (sp0 - of_nat n * QPAGE) e))
      (p2_processes V) (states (nuc s))"
    "ints (nuc (test_states V cpu s)) = (ints (nuc s))(adr_p5Stack V := sp0 - 5 * QPAGE)"
proof -
  have one: "sp0 - QPAGE = sp0 - of_nat 1 * QPAGE" by simp
  note D = d [unfolded p2_processes_def, simplified]
  note S = set_up_states set_up_ints sp_of_upd sp_of_set_up [OF ne] sp_of_put_int sp
  show "states (nuc (test_states V cpu s)) = fold (\<lambda>(i, a, n, e) S. S(a := boot_state V (cpu i) (sp0 - of_nat n * QPAGE) e))
      (p2_processes V) (states (nuc s))"
    using D by (simp add: test_states_def Let_def S p2_processes_def algebra_simps)
  show "ints (nuc (test_states V cpu s)) = (ints (nuc s))(adr_p5Stack V := sp0 - 5 * QPAGE)"
    using D by (simp add: test_states_def Let_def S put_int_def on_nuc_def algebra_simps)
qed

text \<open>
  The stacks of the test processes.  Every state that \<open>test\<close> builds starts its process at its
  entry point, with the interrupts and the timer enabled, on a stack of its own: at least a page
  below every stack before it and below the stack of \<open>test\<close>, with two pages for p4 and p5, which run twice;
  \<open>p5Stack\<close> is the stack of p5, no other state changes, and the stacks need 15 pages.
\<close>

theorem test_stacks:
  assumes d: "distinct (map (fst \<circ> snd) (p2_processes V))" and ne: "ix_sp (nucl V) \<noteq> ix_t9 (nucl V)"
    and sp: "\<And>i. gpr (cpu i) (ix_sp (nucl V)) = sp0" and room: "15 * unat QPAGE \<le> unat sp0"
  shows "(\<forall>(i, a, n, e) \<in> set (p2_processes V). let st = states (nuc (test_states V cpu s)) a in
      unat (gpr st (ix_sp (nucl V))) = unat sp0 - n * unat QPAGE \<and> pc_epc st = e \<and> gpr st (ix_t9 (nucl V)) = e \<and>
      status st = status (cpu i) OR IEPBITON OR CAUSEINTMASK OR TEBITON) \<and>
    ints (nuc (test_states V cpu s)) (adr_p5Stack V) =
      gpr (states (nuc (test_states V cpu s)) (adr_p5state V)) (ix_sp (nucl V)) \<and>
    (\<forall>x. x \<notin> (fst \<circ> snd) ` set (p2_processes V) \<longrightarrow> states (nuc (test_states V cpu s)) x = states (nuc s) x)"
proof -
  let ?S = "fold (\<lambda>(i, a, n, e) S. S(a := boot_state V (cpu i) (sp0 - of_nat n * QPAGE) e)) (p2_processes V) (states (nuc s))"
  have S: "states (nuc (test_states V cpu s)) = ?S" and I: "ints (nuc (test_states V cpu s)) (adr_p5Stack V) = sp0 - 5 * QPAGE"
    using test_states_all [where cpu = cpu, OF d ne sp] by simp_all
  have at: "\<forall>(i, a, n, e) \<in> set (p2_processes V). ?S a = boot_state V (cpu i) (sp0 - of_nat n * QPAGE) e"
    using d by (simp add: p2_processes_def)
  have le: "\<forall>(i, a, n, e) \<in> set (p2_processes V). n \<le> 15" by (simp add: p2_processes_def)
  have u: "unat (sp0 - of_nat n * QPAGE) = unat sp0 - n * unat QPAGE" if "n \<le> 15" for n
  proof -
    have q: "unat (of_nat n * QPAGE) = n * unat QPAGE" using that by (simp add: QPAGE_def unat_word_ariths unat_of_nat)
    have "unat (of_nat n * QPAGE) \<le> unat sp0" using room that unfolding q by (simp add: QPAGE_def)
    then show ?thesis by (simp add: unat_sub word_le_nat_alt q)
  qed
  have b: "gpr (boot_state V c p e) (ix_sp (nucl V)) = p" "pc_epc (boot_state V c p e) = e" "gpr (boot_state V c p e) (ix_t9 (nucl V)) = e"
    "status (boot_state V c p e) = status c OR IEPBITON OR CAUSEINTMASK OR TEBITON" for c p e
    using ne by (simp_all add: boot_state_def)
  have one: "\<forall>(i, a, n, e) \<in> set (p2_processes V). let st = ?S a in
      unat (gpr st (ix_sp (nucl V))) = unat sp0 - n * unat QPAGE \<and> pc_epc st = e \<and> gpr st (ix_t9 (nucl V)) = e \<and>
      status st = status (cpu i) OR IEPBITON OR CAUSEINTMASK OR TEBITON"
  proof (intro ballI)
    fix t assume t: "t \<in> set (p2_processes V)"
    obtain i a n e where p: "t = (i, a, n, e)" by (cases t) auto
    have "?S a = boot_state V (cpu i) (sp0 - of_nat n * QPAGE) e" "n \<le> 15" using at le t p by auto
    then show "case t of (i, a, n, e) \<Rightarrow> let st = ?S a in
      unat (gpr st (ix_sp (nucl V))) = unat sp0 - n * unat QPAGE \<and> pc_epc st = e \<and> gpr st (ix_t9 (nucl V)) = e \<and>
      status st = status (cpu i) OR IEPBITON OR CAUSEINTMASK OR TEBITON"
      unfolding p prod.case Let_def by (simp only: b u simp_thms)
  qed
  have five: "(3, adr_p5state V, 5, pc_p5 V) \<in> set (p2_processes V)" by (simp add: p2_processes_def)
  have "?S (adr_p5state V) = boot_state V (cpu 3) (sp0 - of_nat 5 * QPAGE) (pc_p5 V)"
    using bspec [OF at five] by simp
  then have two: "sp0 - 5 * QPAGE = gpr (?S (adr_p5state V)) (ix_sp (nucl V))" by (simp only: b of_nat_numeral)
  have three: "?S x = states (nuc s) x" if "x \<notin> (fst \<circ> snd) ` set (p2_processes V)" for x
    using that by (simp add: p2_processes_def)
  show ?thesis unfolding S I using one two three by blast
qed

theorem test_stacks_witness:
  "\<exists>s'. s' = nuc (test_states umps3p2 (\<lambda>_. zero_state\<lparr>gpr := (\<lambda>_. 0x20070000)\<rparr>) supp_example) \<and>
     unat (gpr (states s' (adr_p4state umps3p2)) (ix_sp umps3)) = 0x20070000 - 3 * 1024 \<and>
     unat (gpr (states s' (adr_p5state umps3p2)) (ix_sp umps3)) = 0x20070000 - 5 * 1024"
proof -
  let ?c = "\<lambda>_ :: nat. zero_state\<lparr>gpr := (\<lambda>_. 0x20070000)\<rparr>"
  have d: "distinct (map (fst \<circ> snd) (p2_processes umps3p2))"
    by (simp add: p2_processes_def umps3p2_def supp_umps.defs umps3s_def)
  have ne: "ix_sp (nucl umps3p2) \<noteq> ix_t9 (nucl umps3p2)" by (simp add: umps3_def)
  have sp: "gpr (?c i) (ix_sp (nucl umps3p2)) = 0x20070000" for i by simp
  have room: "15 * unat QPAGE \<le> unat (0x20070000 :: u32)" by (simp add: QPAGE_def)
  note t = test_stacks [where cpu = ?c and s = supp_example, OF d ne sp room]
  have m: "(2, adr_p4state umps3p2, 3, pc_p4 umps3p2) \<in> set (p2_processes umps3p2)"
    "(3, adr_p5state umps3p2, 5, pc_p5 umps3p2) \<in> set (p2_processes umps3p2)" by (simp_all add: p2_processes_def)
  from bspec [OF conjunct1 [OF t] m(1)] bspec [OF conjunct1 [OF t] m(2)] show ?thesis
    by (simp add: Let_def QPAGE_def)
qed

end
