(* ===== verification/P2_Scripts.thy ===== *)
theory P2_Scripts
  imports P2_Service
begin

text \<open>
  What each process of the test of phase 2 says and asks of the nucleus, in order: its script.  The
  kernel is the nucleus as one process sees it; which of its calls come back differs from process to
  process (\<open>answers\<close>), and who runs meanwhile is left open, so the scripts are the protocol the
  processes follow with each other.
\<close>

subsection \<open>The calls of a process\<close>

fun asked :: "io_event list \<Rightarrow> (u32 \<times> u32 \<times> u32) list" where
  "asked [] = []"
| "asked (Sys n a b c # es) = (n, a, b) # asked es"
| "asked (_ # es) = asked es"

lemma asked_append: "asked (es @ fs) = asked es @ asked fs"
  by (induction es rule: asked.induct) simp_all

text \<open>The calls other than those of the output routine.\<close>

definition script :: "p2_umps \<Rightarrow> io_event list \<Rightarrow> (u32 \<times> u32 \<times> u32) list" where
  "script V es = filter (\<lambda>(n, a, b). n \<noteq> IOWAIT \<and> a \<noteq> adr_term_mut V) (asked es)"

lemma script_append: "script V (es @ fs) = script V es @ script V fs"
  by (simp add: script_def asked_append)

definition told :: "p2_umps \<Rightarrow> string \<Rightarrow> (u32 \<times> u32 \<times> u32) list \<Rightarrow> sup_state \<Rightarrow> bool" where
  "told V out cs s \<longleftrightarrow> sent (bus s) = out \<and> script V (bus s) = cs"

text \<open>
  What a process relies on.  The calls SYS1, SYS3 to SYS8 and SYS9, other than those of \<open>B\<close>,
  come back and leave the transcript of the process as it is (what other processes print meanwhile
  is not in it), the terminal transmits, processes can be created (the test never has \<open>MAXPROC\<close> of
  them), SYS8 gives p5 its support structure, and p2 has set its flag when \<open>endp2\<close> is
  signalled.  The location p5 uses is its own.  The output routine does not use the calls of \<open>B\<close>.
\<close>

definition asked_for :: "u32 list" where
  "asked_for = [CREATETHREAD, PASSERN, VERHOGEN, GETCPUTIME, WAITCLOCK, GETSPTPTR, 9]"

definition answer_ok :: "p2_umps \<Rightarrow> u32 \<Rightarrow> u32 \<Rightarrow> sup_state \<Rightarrow> u32 \<Rightarrow> sup_state \<Rightarrow> bool" where
  "answer_ok V n a s v s' \<longleftrightarrow> bus s' = bus s \<and>
     get_int (adr_p5MemLocation V) s' = get_int (adr_p5MemLocation V) s \<and> timescale (hardware (nuc s')) \<noteq> 0 \<and>
     (n = IOWAIT \<longrightarrow> v AND TERMSTATMASK = RECVD) \<and> (n = CREATETHREAD \<longrightarrow> v \<noteq> CREATENOGOOD) \<and>
     (n = GETSPTPTR \<longrightarrow> v = adr_pFiveSupport V) \<and> (n = PASSERN \<and> a = adr_endp2 V \<longrightarrow> get_int (adr_p1p2synch V) s' \<noteq> 0)"

definition answers :: "kernel \<Rightarrow> p2_umps \<Rightarrow> (u32 \<times> u32) set \<Rightarrow> bool" where
  "answers K V B \<longleftrightarrow> 0 < DEVPERINT (nucl V) \<and> adr_pFiveSupport V \<noteq> 0 \<and> (\<forall>(n, a) \<in> B. n \<noteq> IOWAIT \<and> a \<noteq> adr_term_mut V) \<and>
     (\<forall>n a b s. n \<in> set (IOWAIT # asked_for) \<longrightarrow> (n, a) \<notin> B \<longrightarrow> (\<exists>v s'. K n a b 0 s = Some (v, s') \<and> answer_ok V n a s v s'))"

text \<open>A process without a support structure gets no answer to SYS9.\<close>

abbreviation test_kernel :: "kernel \<Rightarrow> p2_umps \<Rightarrow> bool" where
  "test_kernel K V \<equiv> answers K V {(9, 0)}"



lemma test_call:
  assumes "answers K V B" and "n \<in> set (IOWAIT # asked_for)" and "(n, a) \<notin> B"
  shows "\<exists>v s'. syscall K n a b 0 s = Some (v, s') \<and> bus s' = bus s @ [Sys n a b 0] \<and>
    get_int (adr_p5MemLocation V) s' = get_int (adr_p5MemLocation V) s \<and> timescale (hardware (nuc s')) \<noteq> 0 \<and>
    (n = IOWAIT \<longrightarrow> v AND TERMSTATMASK = RECVD) \<and> (n = CREATETHREAD \<longrightarrow> v \<noteq> CREATENOGOOD) \<and>
    (n = GETSPTPTR \<longrightarrow> v = adr_pFiveSupport V) \<and>
    (n = PASSERN \<and> a = adr_endp2 V \<longrightarrow> get_int (adr_p1p2synch V) s' \<noteq> 0)"
proof -
  have l: "bus (log (Sys n a b 0) s) = bus s @ [Sys n a b 0]" "get_int x (log (Sys n a b 0) s) = get_int x s" for x
    by (simp_all add: log_def get_int_def)
  have "\<exists>v s'. K n a b 0 (log (Sys n a b 0) s) = Some (v, s') \<and> answer_ok V n a (log (Sys n a b 0) s) v s'"
    using assms unfolding answers_def by blast
  then show ?thesis unfolding syscall_def answer_ok_def l .
qed

lemma asked_codes: "PASSERN \<in> set asked_for" "VERHOGEN \<in> set asked_for" "CREATETHREAD \<in> set asked_for" "WAITCLOCK \<in> set asked_for"
  "GETCPUTIME \<in> set asked_for" "GETSPTPTR \<in> set asked_for" "9 \<in> set asked_for"
  by (simp_all add: asked_for_def)

lemma asked_for_quiet: "n \<in> set asked_for \<Longrightarrow> n \<noteq> IOWAIT"
  by (auto simp: asked_for_def PASSERN_def VERHOGEN_def CREATETHREAD_def WAITCLOCK_def GETCPUTIME_def GETSPTPTR_def IOWAIT_def)

lemma not_9: "(PASSERN, a) \<notin> {(9, 0)}" "(VERHOGEN, a) \<notin> {(9, 0)}" "(CREATETHREAD, a) \<notin> {(9, 0)}" "(WAITCLOCK, a) \<notin> {(9, 0)}"
  "(GETCPUTIME, a) \<notin> {(9, 0)}" "(GETSPTPTR, a) \<notin> {(9, 0)}" for a :: u32
  by (simp_all add: PASSERN_def VERHOGEN_def CREATETHREAD_def WAITCLOCK_def GETCPUTIME_def GETSPTPTR_def)

lemma told_call:
  assumes K: "answers K V B" and t: "told V out cs s" and n: "n \<in> set asked_for" "a \<noteq> adr_term_mut V" and B: "(n, a) \<notin> B"
  shows "\<exists>v s'. syscall K n a b 0 s = Some (v, s') \<and> told V out (cs @ [(n, a, b)]) s' \<and> timescale (hardware (nuc s')) \<noteq> 0 \<and>
    (n = CREATETHREAD \<longrightarrow> v \<noteq> CREATENOGOOD) \<and> (n = GETSPTPTR \<longrightarrow> v = adr_pFiveSupport V) \<and>
    (n = PASSERN \<and> a = adr_endp2 V \<longrightarrow> get_int (adr_p1p2synch V) s' \<noteq> 0)"
proof -
  have "told V out (cs @ [(n, a, b)]) s'" if "bus s' = bus s @ [Sys n a b 0]" for s'
    using t asked_for_quiet [OF n(1)] n(2) that by (simp add: told_def sent_append script_append) (simp add: script_def)
  then show ?thesis using test_call [OF K _ B, of b s] n(1) by fastforce
qed

lemma runs_sys:
  assumes "answers K V B" and "told V out cs s" and "n \<in> set asked_for" "a \<noteq> adr_term_mut V" and "(n, a) \<notin> B"
    and "\<And>s'. told V out (cs @ [(n, a, 0)]) s' \<Longrightarrow> (n = PASSERN \<and> a = adr_endp2 V \<longrightarrow> get_int (adr_p1p2synch V) s' \<noteq> 0) \<Longrightarrow> Q s'"
  shows "runs (sys K n a) s Q"
  using told_call [OF assms(1-5), of 0] assms(6) by (auto simp: sys_def runs_def perform_def)

lemma runs_create:
  assumes "answers K V B" and "told V out cs s" and "st \<noteq> adr_term_mut V" and "(CREATETHREAD, st) \<notin> B"
    and "\<And>s'. told V out (cs @ [(CREATETHREAD, st, supp)]) s' \<Longrightarrow> Q s'"
  shows "runs (create K st supp) s Q"
  using told_call [OF assms(1,2) asked_codes(3) assms(3,4), of supp] assms(5) by (auto simp: create_def runs_def perform_def)


subsection \<open>The output routine\<close>





subsection \<open>The clock\<close>







subsection \<open>The processes\<close>

type_synonym call = "u32 \<times> u32 \<times> u32"

definition asks_P :: "u32 \<Rightarrow> call" where "asks_P a = (PASSERN, a, 0)"
definition asks_V :: "u32 \<Rightarrow> call" where "asks_V a = (VERHOGEN, a, 0)"
definition asks_new :: "u32 \<Rightarrow> u32 \<Rightarrow> call" where "asks_new a supp = (CREATETHREAD, a, supp)"



text \<open>One call each, for a process with the unanswered calls \<open>B\<close> and for the others.\<close>

lemma asks_any:
  assumes "answers K V B" and "told V out cs s" and "a \<noteq> adr_term_mut V"
  shows "(PASSERN, a) \<notin> B \<Longrightarrow> (\<And>s'. told V out (cs @ [asks_P a]) s' \<Longrightarrow> Q s') \<Longrightarrow> runs (sys K PASSERN a) s Q"
    and "(VERHOGEN, a) \<notin> B \<Longrightarrow> (\<And>s'. told V out (cs @ [asks_V a]) s' \<Longrightarrow> Q s') \<Longrightarrow> runs (sys K VERHOGEN a) s Q"
    and "(CREATETHREAD, a) \<notin> B \<Longrightarrow> (\<And>s'. told V out (cs @ [asks_new a supp]) s' \<Longrightarrow> Q s') \<Longrightarrow> runs (create K a supp) s Q"
proof -
  show "runs (sys K PASSERN a) s Q" if "(PASSERN, a) \<notin> B" "\<And>s'. told V out (cs @ [asks_P a]) s' \<Longrightarrow> Q s'"
    by (rule runs_sys [OF assms(1,2) asked_codes(1) assms(3) that(1)]) (use that(2) in \<open>simp add: asks_P_def\<close>)
  show "runs (sys K VERHOGEN a) s Q" if "(VERHOGEN, a) \<notin> B" "\<And>s'. told V out (cs @ [asks_V a]) s' \<Longrightarrow> Q s'"
    by (rule runs_sys [OF assms(1,2) asked_codes(2) assms(3) that(1)]) (use that(2) in \<open>simp add: asks_V_def\<close>)
  show "runs (create K a supp) s Q" if "(CREATETHREAD, a) \<notin> B" "\<And>s'. told V out (cs @ [asks_new a supp]) s' \<Longrightarrow> Q s'"
    by (rule runs_create [OF assms that(1)]) (use that(2) in \<open>simp add: asks_new_def\<close>)
qed

lemma asks_P:
  "test_kernel K V \<Longrightarrow> told V out cs s \<Longrightarrow> a \<noteq> adr_term_mut V \<Longrightarrow>
   (\<And>s'. told V out (cs @ [asks_P a]) s' \<Longrightarrow> Q s') \<Longrightarrow> runs (sys K PASSERN a) s Q"
  using asks_any(1) [OF _ _ _ not_9(1)] .

lemma asks_V:
  "test_kernel K V \<Longrightarrow> told V out cs s \<Longrightarrow> a \<noteq> adr_term_mut V \<Longrightarrow>
   (\<And>s'. told V out (cs @ [asks_V a]) s' \<Longrightarrow> Q s') \<Longrightarrow> runs (sys K VERHOGEN a) s Q"
  using asks_any(2) [OF _ _ _ not_9(2)] .

lemma asks_new:
  "test_kernel K V \<Longrightarrow> told V out cs s \<Longrightarrow> a \<noteq> adr_term_mut V \<Longrightarrow>
   (\<And>s'. told V out (cs @ [asks_new a supp]) s' \<Longrightarrow> Q s') \<Longrightarrow> runs (create K a supp) s Q"
  using asks_any(3) [OF _ _ _ not_9(3)] .






















text \<open>
  On the nucleus, a call in kernel mode that is none of SYS1 to SYS8 and comes from a process without
  a support structure ends in a SYS2 of that process: p6 terminates at its SYS9.
\<close>

lemma unserved_call_dies:
  assumes "umps_codes U" and e: "at_entry s k c" and "exc_code U s = 8"
    and st: "status (states s BIOSDATAPAGE) AND USERPON = 0" "reg_a0 U (states s BIOSDATAPAGE) \<notin> {1, 2, 3, 4, 5, 6, 7, 8}"
    and a: "p_supportStruct (pcbs s c) = 0"
  shows "handleExceptions U s = Some (SYSCALL TERMPROCESS 0 0 0, sys_entry U s c)"
proof -
  have "handleNucleousSystemcalls U s = passupOrDie U GENERALEXCEPT (sys_entry U s c)"
    using handleNucleousSystemcalls_kernel [OF e st(1) refl refl] st(2) by (simp add: Let_def syscall_numbers)
  moreover have "handleExceptions U s = handleNucleousSystemcalls U s"
    using assms(1,3) by (auto simp: handleExceptions_def exc_code_def umps_codes_def Let_def)
  moreover have "at_entry (sys_entry U s c) k c" using e by simp
  moreover have "p_supportStruct (pcbs (sys_entry U s c) c) = 0" using a by (simp add: sys_entry_def)
  ultimately show ?thesis using passupOrDie_die by simp
qed





lemma bus_set_up [simp]: "bus (set_up V x a sp entry s) = bus s"
  by (simp add: set_up_def upd_state_def on_nuc_def Let_def)



subsection \<open>The scripts\<close>











subsection \<open>An instance\<close>






end
