(* ===== verification/User_Programs.thy ===== *)
theory User_Programs
  imports Supp_Syscalls Statements
begin

text \<open>
  The programs that run as user processes, \<open>src/resources/testers/*.c\<close>, on the support level.

  A program is a \<open>stmt\<close> over the state of the system whose memory is \<open>umem\<close>; it leaves with the
  outcome of the call that does not return.  \<open>user_call\<close> is the system call instruction: the nucleus
  passes the exception up (theory \<open>P2_States\<close>, \<open>passes_up\<close>), so that the handler of the support level runs with
  the state of the caller in the support structure \<open>supp\<close>, and the call returns when it loads a state.
  String literals are at addresses \<open>L\<close> the linker chooses, the arrays of \<open>main\<close> at the addresses
  given as arguments; \<open>int\<close> is a 32 bit word.
\<close>

type_synonym program = "(outcome \<times> sup_state, sup_state) stmt"

definition user_call ::
  "kernel \<Rightarrow> supp_umps \<Rightarrow> u32 \<Rightarrow> u32 \<Rightarrow> u32 \<Rightarrow> u32 \<Rightarrow> sup_state \<Rightarrow> ((outcome \<times> sup_state) + (u32 \<times> sup_state)) option" where
  "user_call K V supp n a b s = do {
     s \<leftarrow> upd_supp supp (\<lambda>x. x\<lparr>sup_exceptState := (sup_exceptState x)(GENERALEXCEPT :=
            (set_gpr (ix_a3 (nucl V)) 0 (set_gpr (ix_a2 (nucl V)) b (set_gpr (ix_a1 (nucl V)) a
              (set_gpr (ix_a0 (nucl V)) n (sup_exceptState x GENERALEXCEPT)))))\<lparr>cause := push_bit 2 (EXC_SYS (nucl V))\<rparr>)\<rparr>) s;
     (out, s) \<leftarrow> handleSupportLevelExceptions K V s;
     Some (case out of LDST st \<Rightarrow> Inr (reg_v0 (nucl V) st, s) | _ \<Rightarrow> Inl (out, s))
   }"

text \<open>A call, with what the program does with its result.\<close>

definition calling ::
  "kernel \<Rightarrow> supp_umps \<Rightarrow> u32 \<Rightarrow> u32 \<Rightarrow> u32 \<Rightarrow> u32 \<Rightarrow> (u32 \<Rightarrow> program) \<Rightarrow> program" where
  "calling K V supp n a b f s = do {
     r \<leftarrow> user_call K V supp n a b s;
     case r of Inl e \<Rightarrow> Some (Inl e) | Inr (v, s) \<Rightarrow> f v s
   }"

definition go_on :: program where "go_on s = Some (Inr s)"

subsection \<open>print.c\<close>

partial_function (option) leng_loop :: "(u32 \<Rightarrow> u8) \<Rightarrow> u32 \<Rightarrow> u32 \<Rightarrow> u32 option" where
  "leng_loop m str leng = (if m (str + leng) = 0 then Some leng else leng_loop m str (leng + 1))"

definition user_print :: "kernel \<Rightarrow> supp_umps \<Rightarrow> u32 \<Rightarrow> (string \<Rightarrow> u32) \<Rightarrow> u32 \<Rightarrow> u32 \<Rightarrow> program" where
  "user_print K V supp L device str s = do {
     leng \<leftarrow> leng_loop (umem s) str 0;
     calling K V supp device str leng (\<lambda>stat. if_then (\<lambda>_. sint stat < 0) [
       calling K V supp device (L ''Bad device write status\<newline>'') 26 (\<lambda>_. go_on),
       calling K V supp TERMINATE 0 0 (\<lambda>_. go_on)]) s
   }"

text \<open>\<open>print(WRITETERMINAL, "...")\<close> and the last statement of every program.\<close>

definition say :: "kernel \<Rightarrow> supp_umps \<Rightarrow> u32 \<Rightarrow> (string \<Rightarrow> u32) \<Rightarrow> string \<Rightarrow> program" where
  "say K V supp L msg = user_print K V supp L WRITETERMINAL (L msg)"

definition terminate :: "kernel \<Rightarrow> supp_umps \<Rightarrow> u32 \<Rightarrow> program" where
  "terminate K V supp = calling K V supp TERMINATE 0 0 (\<lambda>_. go_on)"

subsection \<open>fibEight.c and fibEleven.c\<close>

partial_function (option) fib :: "u32 \<Rightarrow> u32 option" where
  "fib i = (if i = 1 \<or> i = 2 then Some 1 else do {
     a \<leftarrow> fib (i - 1);
     b \<leftarrow> fib (i - 2);
     Some (a + b)
   })"

definition fibEight :: "kernel \<Rightarrow> supp_umps \<Rightarrow> u32 \<Rightarrow> (string \<Rightarrow> u32) \<Rightarrow> program" where
  "fibEight K V supp L = block [
     say K V supp L ''Recursive Fibanaci (8) Test starts\<newline>'',
     (\<lambda>s. do { i \<leftarrow> fib 8; block [
       say K V supp L ''Recursion Concluded\<newline>'',
       if_else (\<lambda>_. i = 21) [say K V supp L ''Recursion Concluded Successfully\<newline>'']
         [say K V supp L ''ERROR: Recursion problems\<newline>''],
       terminate K V supp] s })]"

definition fibEleven :: "kernel \<Rightarrow> supp_umps \<Rightarrow> u32 \<Rightarrow> (string \<Rightarrow> u32) \<Rightarrow> program" where
  "fibEleven K V supp L = block [
     say K V supp L ''Recursive Fibanaci (11) Test starts\<newline>'',
     (\<lambda>s. do { i \<leftarrow> fib 11; block [
       say K V supp L ''Recursion Concluded\<newline>'',
       if_else (\<lambda>_. i = 89) [say K V supp L ''Recursion Concluded Successfully\<newline>'']
         [say K V supp L ''ERROR: Recursion problems\<newline>''],
       terminate K V supp] s })]"

subsection \<open>printerTest.c and terminalTest2.c to terminalTest5.c\<close>

definition printerTest :: "kernel \<Rightarrow> supp_umps \<Rightarrow> u32 \<Rightarrow> (string \<Rightarrow> u32) \<Rightarrow> program" where
  "printerTest K V supp L = block [
     say K V supp L ''printTest is ok\<newline>'',
     user_print K V supp L WRITEPRINTER (L ''printTest is ok\<newline>''),
     terminate K V supp]"

definition terminalTest2 :: "kernel \<Rightarrow> supp_umps \<Rightarrow> u32 \<Rightarrow> (string \<Rightarrow> u32) \<Rightarrow> program" where
  "terminalTest2 K V supp L = block [
     say K V supp L ''printTest is ok\<newline>'', say K V supp L ''Test Number 2 is ok\<newline>'', terminate K V supp]"

definition terminalTest3 :: "kernel \<Rightarrow> supp_umps \<Rightarrow> u32 \<Rightarrow> (string \<Rightarrow> u32) \<Rightarrow> program" where
  "terminalTest3 K V supp L = block [
     say K V supp L ''printTest is ok\<newline>'', say K V supp L ''Test number 3 is ok\<newline>'', terminate K V supp]"

definition terminalTest4 :: "kernel \<Rightarrow> supp_umps \<Rightarrow> u32 \<Rightarrow> (string \<Rightarrow> u32) \<Rightarrow> program" where
  "terminalTest4 K V supp L = block [
     say K V supp L ''printTest is ok\<newline>'', say K V supp L ''Test number 4 is ok\<newline>'', terminate K V supp]"

definition terminalTest5 :: "kernel \<Rightarrow> supp_umps \<Rightarrow> u32 \<Rightarrow> (string \<Rightarrow> u32) \<Rightarrow> program" where
  "terminalTest5 K V supp L = block [
     say K V supp L ''printTest is ok\<newline>'', say K V supp L ''Test number 5 is ok\<newline>'', terminate K V supp]"

subsection \<open>terminalReader.c and strConcat.c\<close>

text \<open>\<open>status = SYSCALL(READTERMINAL, (int)&buf[0], 0, 0); buf[status] = EOS;\<close>\<close>

definition read_line :: "kernel \<Rightarrow> supp_umps \<Rightarrow> u32 \<Rightarrow> u32 \<Rightarrow> (u32 \<Rightarrow> program) \<Rightarrow> program" where
  "read_line K V supp buf f = calling K V supp READTERMINAL buf 0 (\<lambda>stat s. f stat (put_char (buf + stat) 0 s))"

definition terminalReader :: "kernel \<Rightarrow> supp_umps \<Rightarrow> u32 \<Rightarrow> (string \<Rightarrow> u32) \<Rightarrow> u32 \<Rightarrow> program" where
  "terminalReader K V supp L buf = block [
     say K V supp L ''Terminal Read Test starts\<newline>'',
     say K V supp L ''Enter a string: '',
     read_line K V supp buf (\<lambda>_. go_on),
     say K V supp L ''\<newline>'',
     user_print K V supp L WRITETERMINAL buf,
     say K V supp L ''\<newline>\<newline>Terminal Read concluded\<newline>'',
     terminate K V supp]"

text \<open>\<open>for (i = 0; i < n; i++) to[i] = from[i]\<close>, with the signed comparison of the code.\<close>

definition copy_chars :: "u32 \<Rightarrow> u32 \<Rightarrow> u32 \<Rightarrow> sup_state \<Rightarrow> sup_state" where
  "copy_chars to from n s = fold (\<lambda>i s. put_char (to + of_nat i) (umem s (from + of_nat i)) s) [0..<nat (sint n)] s"

definition strConcat :: "kernel \<Rightarrow> supp_umps \<Rightarrow> u32 \<Rightarrow> (string \<Rightarrow> u32) \<Rightarrow> u32 \<Rightarrow> u32 \<Rightarrow> u32 \<Rightarrow> program" where
  "strConcat K V supp L buf buf2 buf3 = block [
     say K V supp L ''Strcat Test starts\<newline>'',
     say K V supp L ''Enter a string: '',
     read_line K V supp buf (\<lambda>stat. block [
       say K V supp L ''\<newline>'',
       say K V supp L ''Enter another string: '',
       read_line K V supp buf2 (\<lambda>stat2. block [
         perform (\<lambda>s. Some (copy_chars buf3 buf (stat - 1) s)),
         perform (\<lambda>s. Some (copy_chars (buf3 + (stat - 1)) buf2 stat2 s)),
         perform (\<lambda>s. Some (put_char (buf3 + (stat + stat2 - 1)) 0 s)),
         user_print K V supp L WRITETERMINAL buf3,
         say K V supp L ''\<newline>\<newline>Strcat concluded\<newline>'',
         terminate K V supp])])]"

end
