(* ===== verification/User_Props.thy ===== *)
theory User_Props
  imports User_Programs Supp_Props
begin

text \<open>
  The user programs on the support level: what they send to the terminal, from \<open>main\<close> through the
  exception handler, the system call and its loop to the device, until they terminate.
\<close>

subsection \<open>A call from user level\<close>

text \<open>
  What the programs need of the level below: the terminal answers (\<open>sts\<close> when it transmits,
  \<open>rsts\<close> when it receives), and SYS8 gives the support structure of the caller.
\<close>

definition user_kernel :: "kernel \<Rightarrow> supp_umps \<Rightarrow> u32 \<Rightarrow> (nat \<Rightarrow> u32) \<Rightarrow> (nat \<Rightarrow> u32) \<Rightarrow> bool" where
  "user_kernel K V supp sts rsts \<longleftrightarrow> device_kernel K (TERMINT (nucl V)) 0 sts \<and> device_kernel K (TERMINT (nucl V)) 1 rsts \<and>
     (\<forall>s. \<exists>s'. K GETSUPPORTPTR 0 0 0 s = Some (supp, s') \<and> bus s' = bus s \<and> umem s' = umem s \<and> supports (nuc s') = supports (nuc s))"

text \<open>The state of a user process between two statements: its ASID, its memory, what happened on the bus.\<close>

definition user_at :: "supp_umps \<Rightarrow> u32 \<Rightarrow> u32 \<Rightarrow> (u32 \<Rightarrow> u8) \<Rightarrow> io_event list \<Rightarrow> sup_state \<Rightarrow> bool" where
  "user_at V supp asid m es s \<longleftrightarrow> sup_asid (supports (nuc s) supp) = asid \<and> umem s = m \<and> bus s = es"

definition user_place :: "supp_umps \<Rightarrow> u32 \<Rightarrow> u32 \<Rightarrow> bool" where
  "user_place V supp asid \<longleftrightarrow> supp_doc V \<and> supp \<noteq> 0 \<and> unat (asid - 1) < DEVPERINT (nucl V)"

lemma user_placeD:
  assumes "user_place V supp asid"
  shows "supp_doc V" "umps_regs (nucl V)" "umps_codes (nucl V)" "supp \<noteq> 0" "unat (asid - 1) < DEVPERINT (nucl V)" "EOS V = 0"
    "READY (nucl V) = 1"
  using assms by (simp_all add: user_place_def supp_doc_def umps_doc_def umps_devices_def)

lemma user_call_enters:
  assumes P: "user_place V supp asid" and K: "user_kernel K V supp sts rsts" and u: "user_at V supp asid m es s"
  shows "\<exists>s1. user_at V supp asid m (es @ [Sys GETSUPPORTPTR 0 0 0]) s1 \<and> reg_a0 (nucl V) (caller_state s1 supp) = n \<and>
    reg_a1 (nucl V) (caller_state s1 supp) = a \<and> reg_a2 (nucl V) (caller_state s1 supp) = b \<and>
    user_call K V supp n a b s = do { (out, s) \<leftarrow> handleSupportSystemcalls K V supp s1;
      Some (case out of LDST st \<Rightarrow> Inr (reg_v0 (nucl V) st, s) | _ \<Rightarrow> Inl (out, s)) }"
proof -
  note D = user_placeD [OF P]
  let ?st = "(set_gpr (ix_a3 (nucl V)) 0 (set_gpr (ix_a2 (nucl V)) b (set_gpr (ix_a1 (nucl V)) a
      (set_gpr (ix_a0 (nucl V)) n (caller_state s supp)))))\<lparr>cause := push_bit 2 (EXC_SYS (nucl V))\<rparr>"
  let ?x = "(supports (nuc s) supp)\<lparr>sup_exceptState := (sup_exceptState (supports (nuc s) supp))(GENERALEXCEPT := ?st)\<rparr>"
  let ?s = "s\<lparr>nuc := (nuc s)\<lparr>supports := (supports (nuc s))(supp := ?x)\<rparr>\<rparr>"
  let ?l = "log (Sys GETSUPPORTPTR 0 0 0) ?s"
  obtain s1 where s1: "K GETSUPPORTPTR 0 0 0 ?l = Some (supp, s1)" "bus s1 = bus ?l" "umem s1 = umem ?l"
    "supports (nuc s1) = supports (nuc ?l)" using K unfolding user_kernel_def by blast
  have x1: "supports (nuc s1) supp = ?x" using s1(4) by (simp add: log_def)
  have c1: "caller_state s1 supp = ?st" by (simp add: caller_state_def x1)
  have "cause ?st \<noteq> EXC_MOD (nucl V)" using D(3) by (simp add: umps_codes_def)
  then have h: "handleSupportLevelExceptions K V ?s = handleSupportSystemcalls K V supp s1"
    using s1(1) D(4) by (simp add: handleSupportLevelExceptions_def syscall_def get_supp_def load_supp_def x1 Let_def)
  have "user_at V supp asid m (es @ [Sys GETSUPPORTPTR 0 0 0]) s1"
    using u s1(2,3) x1 by (simp add: user_at_def log_def)
  moreover have "reg_a0 (nucl V) (caller_state s1 supp) = n" "reg_a1 (nucl V) (caller_state s1 supp) = a"
    "reg_a2 (nucl V) (caller_state s1 supp) = b"
    using D(2) unfolding c1 by (simp_all add: umps_regs_def reg_defs set_gpr_def)
  moreover have "upd_supp supp (\<lambda>x. x\<lparr>sup_exceptState := (sup_exceptState x)(GENERALEXCEPT :=
            (set_gpr (ix_a3 (nucl V)) 0 (set_gpr (ix_a2 (nucl V)) b (set_gpr (ix_a1 (nucl V)) a
              (set_gpr (ix_a0 (nucl V)) n (sup_exceptState x GENERALEXCEPT)))))\<lparr>cause := push_bit 2 (EXC_SYS (nucl V))\<rparr>)\<rparr>) s = Some ?s"
    using D(4) by (simp add: upd_supp_def caller_state_def)
  ultimately show ?thesis unfolding user_call_def by (intro exI [of _ s1]) (simp add: h)
qed

text \<open>What \<open>return_to\<close> leaves.\<close>

lemma return_to_user:
  assumes "supp \<noteq> 0" and "user_at V supp asid m es s"
  shows "\<exists>st s'. return_to V supp v s = Some (LDST st, s') \<and> reg_v0 (nucl V) st = v \<and> user_at V supp asid m es s'"
  using assms by (simp add: return_to_def upd_supp_put reg_v0_def) (simp add: put_supp_def user_at_def)

lemma mutex_user:
  assumes "device_kernel K line d sts" and "n = PASSEREN \<or> n = VERHOGEN" and "user_at V supp asid m es s"
  shows "\<exists>v s'. syscall K n a 0 0 s = Some (v, s') \<and> user_at V supp asid m (es @ [Sys n a 0 0]) s'"
  using device_kernel_mutex [OF assms(1,2), of a s] assms(3) by (auto simp: user_at_def own_mem_def)

subsection \<open>Printing\<close>

lemma termWrite_all:
  assumes K: "device_kernel K (TERMINT (nucl V)) 0 sts" "\<And>i. terminal_ok (sts i)" and no: "unat (asid - 1) < DEVPERINT (nucl V)"
  shows "cstring (EOS V) m a cs \<Longrightarrow> user_at V supp asid m es s \<Longrightarrow>
    \<exists>s'. termWrite_loop K V asid a r s = Some (r + of_nat (length cs), s') \<and>
      user_at V supp asid m (es @ concat (map (terminal_cmds (nucl V) (asid - 1)) cs)) s'"
proof (induction cs arbitrary: s a r es)
  case Nil
  then show ?case by (subst termWrite_loop.simps) (simp add: user_at_def)
next
  case (Cons c cs)
  obtain s1 s3 where s3: "transm_command_put (nucl V) (TERMINT (nucl V)) (asid - 1) (PRINTCHR OR push_bit BYTELENGTH (scast c))
      (on_nuc disable_interrupts s) = Some s1"
    "syscall K IOWAIT (TERMINT (nucl V)) (asid - 1) 0 s1 = Some (sts (length (bus s) + 2), s3)"
    "bus s3 = bus s @ terminal_cmds (nucl V) (asid - 1) c" "own_mem s s3"
    using terminal_char [OF K(1) no] by blast
  let ?s4 = "on_nuc enable_interrupts s3"
  have u4: "user_at V supp asid m (es @ terminal_cmds (nucl V) (asid - 1) c) ?s4"
    using Cons.prems(2) s3(3,4) by (simp add: user_at_def own_mem_def on_nuc_def enable_interrupts_def setSTATUS_def)
  have "termWrite_loop K V asid a r s = termWrite_loop K V asid (a + 1) (r + 1) ?s4"
    using s3(1,2) Cons.prems K(2) [of "length (bus s) + 2"]
    by (subst termWrite_loop.simps) (simp add: user_at_def terminal_ok_def Let_def)
  with Cons.IH [OF _ u4, of "a + 1" "r + 1"] Cons.prems(1) show ?case by (simp add: add.assoc)
qed

text \<open>The text \<open>cs\<close> at address \<open>a\<close>, as SYS12 wants it.\<close>

definition has_text :: "(u32 \<Rightarrow> u8) \<Rightarrow> u32 \<Rightarrow> u8 list \<Rightarrow> bool" where
  "has_text m a cs \<longleftrightarrow> cstring 0 m a cs \<and> length cs \<le> 128 \<and> \<not> bad_string a (of_nat (length cs))"

text \<open>The events of one \<open>print\<close> on the terminal.\<close>

definition print_events :: "supp_umps \<Rightarrow> u32 \<Rightarrow> u8 list \<Rightarrow> io_event list" where
  "print_events V asid cs = Sys GETSUPPORTPTR 0 0 0 # Sys PASSEREN (adr_termWriteSemaphores V + 4 * asid) 0 0 #
     concat (map (terminal_cmds (nucl V) (asid - 1)) cs) @ [Sys VERHOGEN (adr_termWriteSemaphores V + 4 * asid) 0 0]"

text \<open>A call of a service \<open>f\<close> that answers with the length of the text it was given.\<close>

lemma user_writes:
  assumes P: "user_place V supp asid" and K: "user_kernel K V supp sts rsts" and u: "user_at V supp asid m es s"
    and f: "\<And>s1. reg_a0 (nucl V) (caller_state s1 supp) = n \<Longrightarrow> handleSupportSystemcalls K V supp s1 = f s1"
    and g: "\<And>s1. user_at V supp asid m (es @ [Sys GETSUPPORTPTR 0 0 0]) s1 \<Longrightarrow> reg_a1 (nucl V) (caller_state s1 supp) = a \<Longrightarrow>
      reg_a2 (nucl V) (caller_state s1 supp) = r \<Longrightarrow> \<exists>s2. f s1 = return_to V supp r s2 \<and> user_at V supp asid m (es @ evs) s2"
  shows "\<exists>s'. user_call K V supp n a r s = Some (Inr (r, s')) \<and> user_at V supp asid m (es @ evs) s'"
proof -
  obtain s1 where s1: "user_at V supp asid m (es @ [Sys GETSUPPORTPTR 0 0 0]) s1" "reg_a0 (nucl V) (caller_state s1 supp) = n"
    "reg_a1 (nucl V) (caller_state s1 supp) = a" "reg_a2 (nucl V) (caller_state s1 supp) = r"
    "user_call K V supp n a r s = do { (out, s) \<leftarrow> handleSupportSystemcalls K V supp s1;
      Some (case out of LDST st \<Rightarrow> Inr (reg_v0 (nucl V) st, s) | _ \<Rightarrow> Inl (out, s)) }"
    using user_call_enters [OF P K u, of n a r] by blast
  obtain s2 where s2: "f s1 = return_to V supp r s2" "user_at V supp asid m (es @ evs) s2"
    using g [OF s1(1,3,4)] by blast
  obtain st s3 where "return_to V supp r s2 = Some (LDST st, s3)" "reg_v0 (nucl V) st = r" "user_at V supp asid m (es @ evs) s3"
    using return_to_user [OF user_placeD(4) [OF P] s2(2)] by blast
  then show ?thesis using s1(5) s2(1) f [OF s1(2)] by simp
qed

lemma user_write:
  assumes P: "user_place V supp asid" and K: "user_kernel K V supp sts rsts" "\<And>i. terminal_ok (sts i)"
    and u: "user_at V supp asid m es s" and t: "has_text m a cs"
  shows "\<exists>s'. user_call K V supp WRITETERMINAL a (of_nat (length cs)) s = Some (Inr (of_nat (length cs), s')) \<and>
    user_at V supp asid m (es @ print_events V asid cs) s'"
proof (rule user_writes [OF P K(1) u, where f = "write_To_Terminal K V supp"])
  note D = user_placeD [OF P]
  show "handleSupportSystemcalls K V supp s1 = write_To_Terminal K V supp s1"
    if "reg_a0 (nucl V) (caller_state s1 supp) = WRITETERMINAL" for s1
    using that D(4) by (simp add: handleSupportSystemcalls_def get_supp_def load_supp_def caller_state_def syscall_numbers Let_def)
  have dk: "device_kernel K (TERMINT (nucl V)) 0 sts" using K(1) by (simp add: user_kernel_def)
  let ?sem = "adr_termWriteSemaphores V + 4 * asid"
  fix s1 assume s1: "user_at V supp asid m (es @ [Sys GETSUPPORTPTR 0 0 0]) s1" "reg_a1 (nucl V) (caller_state s1 supp) = a"
    "reg_a2 (nucl V) (caller_state s1 supp) = of_nat (length cs)"
  obtain v2 s2 where s2: "syscall K PASSEREN ?sem 0 0 s1 = Some (v2, s2)"
    "user_at V supp asid m ((es @ [Sys GETSUPPORTPTR 0 0 0]) @ [Sys PASSEREN ?sem 0 0]) s2"
    using mutex_user [OF dk _ s1(1)] by blast
  have cs: "cstring (EOS V) m a cs" using t D(6) by (simp add: has_text_def)
  obtain s3 where s3: "termWrite_loop K V asid a 0 s2 = Some (of_nat (length cs), s3)"
    "user_at V supp asid m (((es @ [Sys GETSUPPORTPTR 0 0 0]) @ [Sys PASSEREN ?sem 0 0]) @
      concat (map (terminal_cmds (nucl V) (asid - 1)) cs)) s3"
    using termWrite_all [OF dk K(2) D(5) cs s2(2), of 0] by auto
  obtain v4 s4 where s4: "syscall K VERHOGEN ?sem 0 0 s3 = Some (v4, s4)"
    "user_at V supp asid m (es @ print_events V asid cs) s4"
    using mutex_user [OF dk _ s3(2), of VERHOGEN ?sem] by (auto simp: print_events_def)
  have "write_To_Terminal K V supp s1 = return_to V supp (of_nat (length cs)) s4"
    using s1 s2(1) s3(1) s4(1) t D(4)
    by (simp add: write_To_Terminal_def get_supp_def load_supp_def caller_state_def user_at_def has_text_def Let_def)
  then show "\<exists>s2. write_To_Terminal K V supp s1 = return_to V supp (of_nat (length cs)) s2 \<and>
      user_at V supp asid m (es @ print_events V asid cs) s2" using s4(2) by blast
qed

text \<open>The same for the printer.\<close>

lemma printer_all:
  assumes K: "device_kernel K (PRNTINT (nucl V)) 0 psts" "\<And>i. printer_ok (psts i)" and no: "unat (asid - 1) < DEVPERINT (nucl V)"
  shows "cstring (EOS V) m a cs \<Longrightarrow> user_at V supp asid m es s \<Longrightarrow>
    \<exists>s'. printer_loop K V asid a r s = Some (r + of_nat (length cs), s') \<and>
      user_at V supp asid m (es @ concat (map (printer_cmds (nucl V) (asid - 1)) cs)) s'"
proof (induction cs arbitrary: s a r es)
  case Nil
  then show ?case by (subst printer_loop.simps) (simp add: user_at_def)
next
  case (Cons c cs)
  obtain s1 s2 s3 where s3: "dtp_data0_put (nucl V) (PRNTINT (nucl V)) (asid - 1) (scast c) (on_nuc disable_interrupts s) = Some s1"
    "dtp_command_put (nucl V) (PRNTINT (nucl V)) (asid - 1) PRINTCHR s1 = Some s2"
    "syscall K IOWAIT (PRNTINT (nucl V)) (asid - 1) 0 s2 = Some (psts (length (bus s) + 3), s3)"
    "bus s3 = bus s @ printer_cmds (nucl V) (asid - 1) c" "own_mem s s3"
    using printer_char [OF K(1) no] by blast
  let ?s4 = "on_nuc enable_interrupts s3"
  have u4: "user_at V supp asid m (es @ printer_cmds (nucl V) (asid - 1) c) ?s4"
    using Cons.prems(2) s3(4,5) by (simp add: user_at_def own_mem_def on_nuc_def enable_interrupts_def setSTATUS_def)
  have "printer_loop K V asid a r s = printer_loop K V asid (a + 1) (r + 1) ?s4"
    using s3(1-3) Cons.prems K(2) [of "length (bus s) + 3"]
    by (subst printer_loop.simps) (simp add: user_at_def printer_ok_def Let_def)
  with Cons.IH [OF _ u4, of "a + 1" "r + 1"] Cons.prems(1) show ?case by (simp add: add.assoc)
qed

definition paper_events :: "supp_umps \<Rightarrow> u32 \<Rightarrow> u8 list \<Rightarrow> io_event list" where
  "paper_events V asid cs = Sys GETSUPPORTPTR 0 0 0 # Sys PASSEREN (adr_printerSemaphores V + 4 * asid) 0 0 #
     concat (map (printer_cmds (nucl V) (asid - 1)) cs) @ [Sys VERHOGEN (adr_printerSemaphores V + 4 * asid) 0 0]"

lemma user_paper:
  assumes P: "user_place V supp asid" and K: "user_kernel K V supp sts rsts"
    and L: "device_kernel K (PRNTINT (nucl V)) 0 psts" "\<And>i. printer_ok (psts i)"
    and u: "user_at V supp asid m es s" and t: "has_text m a cs"
  shows "\<exists>s'. user_call K V supp WRITEPRINTER a (of_nat (length cs)) s = Some (Inr (of_nat (length cs), s')) \<and>
    user_at V supp asid m (es @ paper_events V asid cs) s'"
proof (rule user_writes [OF P K u, where f = "write_To_Printer K V supp"])
  note D = user_placeD [OF P]
  show "handleSupportSystemcalls K V supp s1 = write_To_Printer K V supp s1"
    if "reg_a0 (nucl V) (caller_state s1 supp) = WRITEPRINTER" for s1
    using that D(4) by (simp add: handleSupportSystemcalls_def get_supp_def load_supp_def caller_state_def syscall_numbers Let_def)
  let ?sem = "adr_printerSemaphores V + 4 * asid"
  fix s1 assume s1: "user_at V supp asid m (es @ [Sys GETSUPPORTPTR 0 0 0]) s1" "reg_a1 (nucl V) (caller_state s1 supp) = a"
    "reg_a2 (nucl V) (caller_state s1 supp) = of_nat (length cs)"
  obtain v2 s2 where s2: "syscall K PASSEREN ?sem 0 0 s1 = Some (v2, s2)"
    "user_at V supp asid m ((es @ [Sys GETSUPPORTPTR 0 0 0]) @ [Sys PASSEREN ?sem 0 0]) s2"
    using mutex_user [OF L(1) _ s1(1)] by blast
  have cs: "cstring (EOS V) m a cs" using t D(6) by (simp add: has_text_def)
  obtain s3 where s3: "printer_loop K V asid a 0 s2 = Some (of_nat (length cs), s3)"
    "user_at V supp asid m (((es @ [Sys GETSUPPORTPTR 0 0 0]) @ [Sys PASSEREN ?sem 0 0]) @
      concat (map (printer_cmds (nucl V) (asid - 1)) cs)) s3"
    using printer_all [OF L D(5) cs s2(2), of 0] by auto
  obtain v4 s4 where s4: "syscall K VERHOGEN ?sem 0 0 s3 = Some (v4, s4)"
    "user_at V supp asid m (es @ paper_events V asid cs) s4"
    using mutex_user [OF L(1) _ s3(2), of VERHOGEN ?sem] by (auto simp: paper_events_def)
  have "write_To_Printer K V supp s1 = return_to V supp (of_nat (length cs)) s4"
    using s1 s2(1) s3(1) s4(1) t D(4)
    by (simp add: write_To_Printer_def get_supp_def load_supp_def caller_state_def user_at_def has_text_def Let_def)
  then show "\<exists>s2. write_To_Printer K V supp s1 = return_to V supp (of_nat (length cs)) s2 \<and>
      user_at V supp asid m (es @ paper_events V asid cs) s2" using s4(2) by blast
qed

lemma leng_loop_text:
  assumes "cstring 0 m (a + n) cs"
  shows "leng_loop m a n = Some (n + of_nat (length cs))"
  using assms
proof (induction cs arbitrary: n)
  case Nil
  then show ?case by (subst leng_loop.simps) simp
next
  case (Cons c cs)
  then have "leng_loop m a (n + 1) = Some (n + 1 + of_nat (length cs))" by (intro Cons.IH) (simp add: add.assoc)
  with Cons.prems show ?case by (subst leng_loop.simps) (auto simp: add.assoc)
qed

text \<open>\<open>print\<close> on either device, once the call answers with the length of the text.\<close>

lemma runs_user_output:
  assumes u: "user_at V supp asid m es s" and t: "has_text m a cs"
    and c: "\<exists>s'. user_call K V supp dev a (of_nat (length cs)) s = Some (Inr (of_nat (length cs), s')) \<and> user_at V supp asid m fs s'"
    and Q: "\<And>s. user_at V supp asid m fs s \<Longrightarrow> Q s"
  shows "runs (user_print K V supp L dev a) s Q"
proof -
  have l: "leng_loop (umem s) a 0 = Some (of_nat (length cs))"
    using leng_loop_text [of m a 0 cs] t u by (simp add: has_text_def user_at_def)
  obtain s' where s': "user_call K V supp dev a (of_nat (length cs)) s = Some (Inr (of_nat (length cs), s'))"
    "user_at V supp asid m fs s'" using c by blast
  have "\<not> sint (of_nat (length cs) :: u32) \<le> 0" using t by (simp add: has_text_def bad_string_def)
  then have "user_print K V supp L dev a s = Some (Inr s')"
    using l s'(1) by (simp add: user_print_def calling_def if_then_def)
  then show ?thesis using Q [OF s'(2)] by (simp add: runs_def)
qed

lemma runs_user_print:
  assumes P: "user_place V supp asid" and K: "user_kernel K V supp sts rsts" "\<And>i. terminal_ok (sts i)"
    and u: "user_at V supp asid m es s" and t: "has_text m a cs"
    and Q: "\<And>s. user_at V supp asid m (es @ print_events V asid cs) s \<Longrightarrow> Q s"
  shows "runs (user_print K V supp L WRITETERMINAL a) s Q"
  by (rule runs_user_output [OF u t user_write [OF P K u t] Q])

text \<open>The text a program sends.\<close>

lemma sent_terminal_cmds: "sent (concat (map (terminal_cmds U no) cs)) = map (\<lambda>c. char_of (unat c)) cs"
proof (induction cs)
  case (Cons c cs)
  have "char_of (unat (drop_bit BYTELENGTH (PRINTCHR OR push_bit BYTELENGTH (scast c)) :: u32)) = char_of (unat c)"
  proof -
    have "unat (drop_bit BYTELENGTH (PRINTCHR OR push_bit BYTELENGTH (scast c)) :: u32) mod 256 = unat c mod 256"
    proof -
      have t: "take_bit 8 (drop_bit BYTELENGTH (PRINTCHR OR push_bit BYTELENGTH (scast c)) :: u32) = ucast c"
      proof (rule bit_word_eqI)
        fix n assume "n < LENGTH(32)"
        have "bit c (min 7 n) = bit c n" if "n < 8" using that by (cases "n = 7") (simp_all add: min_def)
        moreover have "n < 8" if "bit c n" using bit_imp_le_length [OF that] by simp
        ultimately show "bit (take_bit 8 (drop_bit BYTELENGTH (PRINTCHR OR push_bit BYTELENGTH (scast c)) :: u32)) n = bit (ucast c :: u32) n"
          using \<open>n < LENGTH(32)\<close> by (auto simp: BYTELENGTH_def PRINTCHR_def bit_simps)
      qed
      let ?w = "drop_bit BYTELENGTH (PRINTCHR OR push_bit BYTELENGTH (scast c)) :: u32"
      have c: "unat c < 256" using unsigned_less [of c] by simp
      have "take_bit 8 (unat ?w) = unat (take_bit 8 ?w)" by (simp only: unsigned_take_bit_eq)
      also have "\<dots> = unat (ucast c :: u32)" by (simp only: t)
      also have "\<dots> = unat c" using c by (simp add: unsigned_ucast_eq take_bit_nat_eq_self)
      finally show ?thesis using c by (simp only: take_bit_eq_mod) simp
    qed
    then show ?thesis by (metis char_of_mod_256)
  qed
  then show ?case using Cons by (simp add: terminal_cmds_def sent_append del: drop_bit_or)
qed simp

lemma sent_print: "sent (print_events V asid cs) = map (\<lambda>c. char_of (unat c)) cs"
  by (simp add: print_events_def sent_append sent_terminal_cmds)

lemma char_of_scast: "char_of (unat (scast c :: u32)) = char_of (unat (c :: u8))"
proof -
  have t: "take_bit 8 (scast c :: u32) = ucast c"
  proof (rule bit_word_eqI)
    fix n assume "n < LENGTH(32)"
    have "bit c (min 7 n) = bit c n" if "n < 8" using that by (cases "n = 7") (simp_all add: min_def)
    moreover have "n < 8" if "bit c n" using bit_imp_le_length [OF that] by simp
    ultimately show "bit (take_bit 8 (scast c :: u32)) n = bit (ucast c :: u32) n" using \<open>n < LENGTH(32)\<close> by (auto simp: bit_simps)
  qed
  have c: "unat c < 256" using unsigned_less [of c] by simp
  have "take_bit 8 (unat (scast c :: u32)) = unat (take_bit 8 (scast c :: u32))" by (simp only: unsigned_take_bit_eq)
  also have "\<dots> = unat c" using c by (simp only: t) (simp add: unsigned_ucast_eq take_bit_nat_eq_self)
  finally have "unat (scast c :: u32) mod 256 = unat c mod 256" using c by (simp only: take_bit_eq_mod) simp
  then show ?thesis by (metis char_of_mod_256)
qed

text \<open>The characters put into the data register of the printer \<open>no\<close>.\<close>

fun printed :: "umps \<Rightarrow> u32 \<Rightarrow> io_event list \<Rightarrow> string" where
  "printed U no [] = []"
| "printed U no (Data0 line n v # es) = (if line = PRNTINT U \<and> n = no then [char_of (unat v)] else []) @ printed U no es"
| "printed U no (_ # es) = printed U no es"

lemma printed_append: "printed U no (es @ fs) = printed U no es @ printed U no fs"
  by (induction U no es rule: printed.induct) simp_all

lemma cmds_apart: "printed U n (concat (map (terminal_cmds U no) cs)) = []" "sent (concat (map (printer_cmds U no) cs)) = []"
  by (induction cs) (simp_all add: terminal_cmds_def printer_cmds_def sent_append printed_append)

lemma printed_printer_cmds: "printed U no (concat (map (printer_cmds U no) cs)) = map (\<lambda>c. char_of (unat c)) cs"
  by (induction cs) (simp_all add: printer_cmds_def printed_append char_of_scast)

lemma print_paper: "printed (nucl V) no (print_events V asid cs) = []" "sent (paper_events V asid cs) = []"
  "printed (nucl V) (asid - 1) (paper_events V asid cs) = map (\<lambda>c. char_of (unat c)) cs"
  by (simp_all add: print_events_def paper_events_def sent_append printed_append cmds_apart printed_printer_cmds)

definition bytes :: "string \<Rightarrow> u8 list" where "bytes msg = map of_char msg"

lemma sent_bytes: "map (\<lambda>c. char_of (unat c)) (bytes msg) = msg"
proof -
  have "char_of (unat (of_char c :: u8)) = c" for c
  proof -
    have "(of_char c :: u8) = of_nat (of_char c)" by (simp add: of_nat_of_char)
    then have "unat (of_char c :: u8) = of_char c" by (simp add: unat_of_nat)
    then show ?thesis by simp
  qed
  then show ?thesis by (simp add: bytes_def map_idI)
qed

text \<open>The messages of a program are in its memory.\<close>

definition literals :: "(u32 \<Rightarrow> u8) \<Rightarrow> (string \<Rightarrow> u32) \<Rightarrow> string list \<Rightarrow> bool" where
  "literals m L msgs \<longleftrightarrow> (\<forall>msg \<in> set msgs. has_text m (L msg) (bytes msg))"

definition said :: "supp_umps \<Rightarrow> u32 \<Rightarrow> string list \<Rightarrow> io_event list" where
  "said V asid msgs = concat (map (\<lambda>msg. print_events V asid (bytes msg)) msgs)"

lemma sent_said: "sent (said V asid msgs) = concat msgs"
  by (induction msgs) (simp_all add: said_def sent_append sent_print sent_bytes)

lemma runs_say:
  assumes P: "user_place V supp asid" and K: "user_kernel K V supp sts rsts" "\<And>i. terminal_ok (sts i)"
    and u: "user_at V supp asid m es s" and t: "has_text m (L msg) (bytes msg)"
    and Q: "\<And>s. user_at V supp asid m (es @ said V asid [msg]) s \<Longrightarrow> Q s"
  shows "runs (say K V supp L msg) s Q"
  unfolding say_def by (rule runs_user_print [OF P K u t]) (use Q in \<open>simp add: said_def\<close>)

lemma dealloc_supp_runs: "supp \<noteq> 0 \<Longrightarrow> \<exists>s'. dealloc_supp supp s = Some s' \<and> bus s' = bus s \<and> umem s' = umem s"
  by (cases "freeSupp_tp s = 0") (simp_all add: dealloc_supp_def upd_supp_def Let_def)

lemma ends_terminate:
  assumes P: "user_place V supp asid" and K: "user_kernel K V supp sts rsts" and u: "user_at V supp asid m es s"
    and Q: "\<And>s. bus s = es @ [Sys GETSUPPORTPTR 0 0 0, Sys VERHOGEN (adr_masterSem V) 0 0] \<Longrightarrow> umem s = m \<Longrightarrow> Q (SYSCALL TERMPROCESS 0 0 0, s)"
  shows "ends (terminate K V supp) s Q"
proof -
  note D = user_placeD [OF P]
  have dk: "device_kernel K (TERMINT (nucl V)) 0 sts" using K by (simp add: user_kernel_def)
  obtain s1 where s1: "user_at V supp asid m (es @ [Sys GETSUPPORTPTR 0 0 0]) s1" "reg_a0 (nucl V) (caller_state s1 supp) = TERMINATE"
    "user_call K V supp TERMINATE 0 0 s = do { (out, s) \<leftarrow> handleSupportSystemcalls K V supp s1;
      Some (case out of LDST st \<Rightarrow> Inr (reg_v0 (nucl V) st, s) | _ \<Rightarrow> Inl (out, s)) }"
    using user_call_enters [OF P K u, of TERMINATE 0 0] by blast
  obtain s2 where s2: "dealloc_supp supp s1 = Some s2" "bus s2 = bus s1" "umem s2 = umem s1"
    using dealloc_supp_runs [OF D(4)] by blast
  obtain v s3 where s3: "syscall K VERHOGEN (adr_masterSem V) 0 0 s2 = Some (v, s3)" "bus s3 = bus s2 @ [Sys VERHOGEN (adr_masterSem V) 0 0]"
    "own_mem s2 s3" using device_kernel_mutex [OF dk] by blast
  have "handleSupportSystemcalls K V supp s1 = Some (SYSCALL TERMPROCESS 0 0 0, s3)"
    using s1(2) s2(1) s3(1) D(4)
    by (simp add: handleSupportSystemcalls_def get_supp_def load_supp_def caller_state_def terminate_support_def notifyTerminated_def Let_def)
  then have "terminate K V supp s = Some (Inl (SYSCALL TERMPROCESS 0 0 0, s3))"
    by (simp add: terminate_def calling_def s1(3))
  moreover have "Q (SYSCALL TERMPROCESS 0 0 0, s3)" by (rule Q) (use s1(1) s2 s3 in \<open>simp_all add: user_at_def own_mem_def\<close>)
  ultimately show ?thesis by (simp add: ends_def)
qed

text \<open>A program that prints a list of messages and goes on.\<close>

lemma ends_each:
  assumes step: "\<And>x es s Q. user_at V supp asid m es s \<Longrightarrow> has_text m (L x) (bytes x) \<Longrightarrow>
      (\<And>s. user_at V supp asid m (es @ E x) s \<Longrightarrow> Q s) \<Longrightarrow> runs (c x) s Q"
  shows "user_at V supp asid m es s \<Longrightarrow> literals m L msgs \<Longrightarrow>
    (\<And>s. user_at V supp asid m (es @ concat (map E msgs)) s \<Longrightarrow> ends (block rest) s Q) \<Longrightarrow> ends (block (map c msgs @ rest)) s Q"
proof (induction msgs arbitrary: es s)
  case (Cons msg msgs)
  have t: "has_text m (L msg) (bytes msg)" and l: "literals m L msgs" using Cons.prems(2) by (simp_all add: literals_def)
  have "ends (block (map c msgs @ rest)) s Q" if "user_at V supp asid m (es @ E msg) s" for s
    using that l by (rule Cons.IH) (simp add: Cons.prems(3))
  then show ?case unfolding list.map append_Cons by (intro ends_Cons step [OF Cons.prems(1) t])
qed simp

text \<open>The events of the messages on the printer.\<close>

definition typed :: "supp_umps \<Rightarrow> u32 \<Rightarrow> string list \<Rightarrow> io_event list" where
  "typed V asid msgs = concat (map (\<lambda>msg. paper_events V asid (bytes msg)) msgs)"

lemma said_typed: "printed (nucl V) no (said V asid msgs) = []" "sent (typed V asid msgs) = []"
  "printed (nucl V) (asid - 1) (typed V asid msgs) = concat msgs"
  by (induction msgs) (simp_all add: said_def typed_def sent_append printed_append print_paper sent_bytes)

text \<open>A program that says messages on the terminal, then on the printer, and terminates.\<close>

definition says :: "kernel \<Rightarrow> supp_umps \<Rightarrow> u32 \<Rightarrow> (string \<Rightarrow> u32) \<Rightarrow> string list \<Rightarrow> string list \<Rightarrow> program" where
  "says K V supp L msgs pmsgs =
     block (map (say K V supp L) msgs @ map (\<lambda>msg. user_print K V supp L WRITEPRINTER (L msg)) pmsgs @ [terminate K V supp])"

lemma ends_says:
  assumes P: "user_place V supp asid" and K: "user_kernel K V supp sts rsts" "\<And>i. terminal_ok (sts i)"
    and R: "device_kernel K (PRNTINT (nucl V)) 0 psts" "\<And>i. printer_ok (psts i)"
    and u: "user_at V supp asid m es s" and l: "literals m L msgs" "literals m L pmsgs"
  shows "ends (says K V supp L msgs pmsgs) s (\<lambda>(out, s'). out = SYSCALL TERMPROCESS 0 0 0 \<and>
    bus s' = es @ said V asid msgs @ typed V asid pmsgs @ [Sys GETSUPPORTPTR 0 0 0, Sys VERHOGEN (adr_masterSem V) 0 0] \<and> umem s' = m)"
  unfolding says_def
proof (rule ends_each [OF _ u l(1), where E = "\<lambda>msg. said V asid [msg]"])
  show "runs (say K V supp L x) s Q" if "user_at V supp asid m es s" "has_text m (L x) (bytes x)"
    "\<And>s. user_at V supp asid m (es @ said V asid [x]) s \<Longrightarrow> Q s" for x es s Q
    using that by (rule runs_say [OF P K])
  fix s assume "user_at V supp asid m (es @ concat (map (\<lambda>msg. said V asid [msg]) msgs)) s"
  then have u: "user_at V supp asid m (es @ said V asid msgs) s" by (simp add: said_def)
  show "ends (block (map (\<lambda>msg. user_print K V supp L WRITEPRINTER (L msg)) pmsgs @ [terminate K V supp])) s (\<lambda>(out, s').
    out = SYSCALL TERMPROCESS 0 0 0 \<and> bus s' = es @ said V asid msgs @ typed V asid pmsgs @
      [Sys GETSUPPORTPTR 0 0 0, Sys VERHOGEN (adr_masterSem V) 0 0] \<and> umem s' = m)"
  proof (rule ends_each [OF _ u l(2), where E = "\<lambda>msg. paper_events V asid (bytes msg)"])
    show "runs (user_print K V supp L WRITEPRINTER (L x)) s Q" if "user_at V supp asid m es s" "has_text m (L x) (bytes x)"
      "\<And>s. user_at V supp asid m (es @ paper_events V asid (bytes x)) s \<Longrightarrow> Q s" for x es s Q
      by (rule runs_user_output [OF that(1,2) user_paper [OF P K(1) R that(1,2)] that(3)])
    fix s assume "user_at V supp asid m ((es @ said V asid msgs) @ concat (map (\<lambda>msg. paper_events V asid (bytes msg)) pmsgs)) s"
    then have t: "user_at V supp asid m (es @ said V asid msgs @ typed V asid pmsgs) s" by (simp add: typed_def)
    show "ends (block [terminate K V supp]) s (\<lambda>(out, s'). out = SYSCALL TERMPROCESS 0 0 0 \<and> bus s' = es @ said V asid msgs @
      typed V asid pmsgs @ [Sys GETSUPPORTPTR 0 0 0, Sys VERHOGEN (adr_masterSem V) 0 0] \<and> umem s' = m)"
      by (rule ends_here, rule ends_terminate [OF P K(1) t]) simp
  qed
qed

subsection \<open>The recursion of the Fibonacci programs\<close>

fun fibonacci :: "nat \<Rightarrow> nat" where
  "fibonacci 0 = 0"
| "fibonacci (Suc 0) = 1"
| "fibonacci (Suc (Suc n)) = fibonacci (Suc n) + fibonacci n"

lemma fib_correct: "0 < n \<Longrightarrow> n < 2 ^ 32 \<Longrightarrow> fib (of_nat n) = Some (of_nat (fibonacci n))"
proof (induction n rule: less_induct)
  case (less n)
  have inj: "n = k" if "(of_nat n :: u32) = of_nat k" "k < 2 ^ 32" for k
    using arg_cong [OF that(1), of unat] that(2) less.prems(2) by (simp add: unat_of_nat)
  show ?case
  proof (cases "n = 1 \<or> n = 2")
    case True
    then show ?thesis by (subst fib.simps) (auto simp: numeral_2_eq_2)
  next
    case False
    then obtain k where k: "n = Suc (Suc k)" "0 < k" using less.prems(1) by (cases n; cases "n - 1") auto
    have "(of_nat n :: u32) \<noteq> 1" "(of_nat n :: u32) \<noteq> 2" using inj [of 1] inj [of 2] False by auto
    moreover have "(of_nat n :: u32) - 1 = of_nat (Suc k)" "(of_nat n :: u32) - 2 = of_nat k" by (simp_all add: k(1))
    moreover have "fib (of_nat (Suc k)) = Some (of_nat (fibonacci (Suc k)))" "fib (of_nat k) = Some (of_nat (fibonacci k))"
      using less.IH [of "Suc k"] less.IH [of k] less.prems k by simp_all
    ultimately show ?thesis by (subst fib.simps) (simp add: k(1))
  qed
qed

lemma fibonacci_pos: "fibonacci m \<le> fibonacci (Suc m)"
  by (cases m) simp_all

lemma fibonacci_mono: "m \<le> n \<Longrightarrow> fibonacci m \<le> fibonacci n"
  by (rule lift_Suc_mono_le [of fibonacci]) (simp_all add: fibonacci_pos)

lemma fibonacci_add: "fibonacci (Suc (m + n)) = fibonacci (Suc m) * fibonacci (Suc n) + fibonacci m * fibonacci n"
  by (induction m rule: fibonacci.induct) (simp_all add: algebra_simps)

lemma fibonacci_46: "fibonacci 46 = 1836311903"
proof -
  have f: "fibonacci 10 = 55" "fibonacci 11 = 89" "fibonacci 12 = 144" "fibonacci 13 = 233" by (simp_all add: eval_nat_numeral)
  have "fibonacci 22 = 17711" using fibonacci_add [of 11 10] f by simp
  moreover have "fibonacci 23 = 28657" using fibonacci_add [of 11 11] f by simp
  moreover have "fibonacci 24 = 46368" using fibonacci_add [of 12 11] f by simp
  ultimately show ?thesis using fibonacci_add [of 23 22] by simp
qed

lemma fibonacci_8_11: "fibonacci 8 = 21" "fibonacci 11 = 89"
  by (simp_all add: eval_nat_numeral)

text \<open>
  The recursion of the test programs computes the Fibonacci numbers exactly, for every
  argument for which the result fits a C int, and ends for all of them.
\<close>

theorem fib_exact:
  assumes "0 < n" and "n \<le> 46"
  shows "\<exists>r. fib (of_nat n) = Some r \<and> sint r = int (fibonacci n)"
proof -
  have b: "fibonacci n < 2 ^ 31" using fibonacci_mono [OF assms(2)] by (simp add: fibonacci_46)
  then have u: "unat (of_nat (fibonacci n) :: u32) = fibonacci n" by (simp add: unat_of_nat)
  have "sint (of_nat (fibonacci n) :: u32) = int (fibonacci n)"
    using sint_nonneg [of "of_nat (fibonacci n)"] b unfolding u by simp
  then show ?thesis using fib_correct [of n] assms by simp
qed

theorem fib_exact_witness: "\<exists>r. fib 8 = Some r \<and> sint r = 21 \<and> (\<exists>r. fib 11 = Some r \<and> sint r = 89)"
  using fib_exact [of 8] fib_exact [of 11] by (auto simp: fibonacci_8_11)

subsection \<open>The programs that only print\<close>

text \<open>With what each prints on the terminal and on the printer.\<close>

definition message_programs ::
  "((kernel \<Rightarrow> supp_umps \<Rightarrow> u32 \<Rightarrow> (string \<Rightarrow> u32) \<Rightarrow> program) \<times> string list \<times> string list) list" where
  "message_programs =
    [(fibEight, [''Recursive Fibanaci (8) Test starts\<newline>'', ''Recursion Concluded\<newline>'', ''Recursion Concluded Successfully\<newline>''], []),
     (fibEleven, [''Recursive Fibanaci (11) Test starts\<newline>'', ''Recursion Concluded\<newline>'', ''Recursion Concluded Successfully\<newline>''], []),
     (printerTest, [''printTest is ok\<newline>''], [''printTest is ok\<newline>'']),
     (terminalTest2, [''printTest is ok\<newline>'', ''Test Number 2 is ok\<newline>''], []),
     (terminalTest3, [''printTest is ok\<newline>'', ''Test number 3 is ok\<newline>''], []),
     (terminalTest4, [''printTest is ok\<newline>'', ''Test number 4 is ok\<newline>''], []),
     (terminalTest5, [''printTest is ok\<newline>'', ''Test number 5 is ok\<newline>''], [])]"

lemma fib_values: "fib 8 = Some 21" "fib 11 = Some 89"
  using fib_correct [of 8] fib_correct [of 11] by (simp_all add: fibonacci_8_11)

lemma fib_messages:
  "fibEight K V supp L s = says K V supp L [''Recursive Fibanaci (8) Test starts\<newline>'', ''Recursion Concluded\<newline>'',
     ''Recursion Concluded Successfully\<newline>''] [] s"
  "fibEleven K V supp L s = says K V supp L [''Recursive Fibanaci (11) Test starts\<newline>'', ''Recursion Concluded\<newline>'',
     ''Recursion Concluded Successfully\<newline>''] [] s"
  by (simp_all add: says_def fibEight_def fibEleven_def fib_values if_else_def split: option.split sum.split)

lemma message_programs_says:
  assumes "(prog, msgs, pmsgs) \<in> set message_programs"
  shows "prog K V supp L s = says K V supp L msgs pmsgs s"
proof -
  have "\<forall>(prog, msgs, pmsgs) \<in> set message_programs. prog K V supp L s = says K V supp L msgs pmsgs s"
    unfolding message_programs_def
    by (simp only: list.set ball_simps prod.case fib_messages says_def printerTest_def terminalTest2_def terminalTest3_def
        terminalTest4_def terminalTest5_def list.map append_Cons append_Nil simp_thms)
  then show ?thesis using assms by fast
qed

text \<open>
  C31: The user programs through the support level.  Each of the seven programs that only compute
  and print (fibEight, fibEleven, printerTest, terminalTest2 to terminalTest5), started with its
  messages in its memory on a terminal and a printer that take every character, sends exactly its
  messages, in order and once, to the terminal and (printerTest) to the printer of its ASID; the
  terminalTest programs put nothing on the printer.  Each leaves its memory as it was, and ends in
  SYS2 after signalling the master semaphore; the two Fibonacci programs find their results right.
\<close>

theorem user_programs_print:
  assumes P: "user_place V supp asid" and K: "user_kernel K V supp sts rsts" "\<And>i. terminal_ok (sts i)"
    and R: "device_kernel K (PRNTINT (nucl V)) 0 psts" "\<And>i. printer_ok (psts i)"
    and a: "sup_asid (supports (nuc s) supp) = asid" and p: "(prog, msgs, pmsgs) \<in> set message_programs"
    and l: "literals (umem s) L (msgs @ pmsgs)"
  shows "\<exists>s'. prog K V supp L s = Some (Inl (SYSCALL TERMPROCESS 0 0 0, s')) \<and> sent (bus s') = sent (bus s) @ concat msgs \<and>
    printed (nucl V) (asid - 1) (bus s') = printed (nucl V) (asid - 1) (bus s) @ concat pmsgs \<and>
    last (bus s') = Sys VERHOGEN (adr_masterSem V) 0 0 \<and> umem s' = umem s"
proof -
  have u: "user_at V supp asid (umem s) (bus s) s" using a by (simp add: user_at_def)
  have "literals (umem s) L msgs" "literals (umem s) L pmsgs" using l by (simp_all add: literals_def)
  from ends_says [OF P K R u this] show ?thesis
    unfolding message_programs_says [OF p] ends_def by (auto simp: sent_append sent_said printed_append said_typed)
qed

lemma cstring_iff:
  "cstring eos m a cs \<longleftrightarrow> (\<forall>i < length cs. m (a + of_nat i) = cs ! i \<and> cs ! i \<noteq> eos) \<and> m (a + of_nat (length cs)) = eos"
proof (induction cs arbitrary: a)
  case (Cons c cs)
  have "(\<forall>i < length (c # cs). m (a + of_nat i) = (c # cs) ! i \<and> (c # cs) ! i \<noteq> eos) \<longleftrightarrow>
      m a = c \<and> c \<noteq> eos \<and> (\<forall>i < length cs. m (a + 1 + of_nat i) = cs ! i \<and> cs ! i \<noteq> eos)"
    by (auto simp: All_less_Suc2 add.assoc)
  then show ?case by (auto simp: Cons.IH add.assoc)
qed simp

text \<open>Two texts in memory and a kernel that answers at once.\<close>

definition text_at :: "u32 \<Rightarrow> u8 list \<Rightarrow> u32 \<Rightarrow> u8" where
  "text_at a bs x = (if unat (x - a) < length bs then bs ! unat (x - a) else 0)"

lemma unat_of_nat_add: "n < 2 ^ 32 \<Longrightarrow> unat (a + of_nat n - a :: u32) = n"
  by (simp add: unat_of_nat)

lemma has_text_at:
  assumes "\<And>i. i \<le> length bs \<Longrightarrow> m (a + of_nat i) = text_at a bs (a + of_nat i)" and "length bs \<le> 128" and "0 \<notin> set bs"
    and "\<not> bad_string a (of_nat (length bs))"
  shows "has_text m a bs"
proof -
  have "m (a + of_nat i) = (if i < length bs then bs ! i else 0)" if "i \<le> length bs" for i
    using assms(1) [OF that] that assms(2) unat_of_nat_add [of i a] by (simp add: text_at_def)
  moreover have "bs ! i \<noteq> 0" if "i < length bs" for i using assms(3) nth_mem [OF that] by metis
  ultimately show ?thesis using assms(2,4) by (simp add: has_text_def cstring_iff)
qed

text \<open>A memory with the messages \<open>msgs\<close>, one on each page from \<open>0x80001000\<close> on.\<close>

definition text_page :: "nat \<Rightarrow> u32" where
  "text_page k = 0x80001000 + of_nat (k * 0x1000)"

definition text_memory :: "string list \<Rightarrow> u32 \<Rightarrow> u8" where
  "text_memory msgs x = (let k = unat (x - 0x80001000) div 0x1000
     in if k < length msgs then text_at (text_page k) (bytes (msgs ! k)) x else 0)"

definition text_addr :: "string list \<Rightarrow> string \<Rightarrow> u32" where
  "text_addr msgs msg = text_page (length (takeWhile (\<lambda>x. x \<noteq> msg) msgs))"

definition printable :: "string \<Rightarrow> bool" where
  "printable msg \<longleftrightarrow> msg \<noteq> [] \<and> length msg \<le> 128 \<and> 0 \<notin> set (bytes msg)"

lemma text_page_at:
  assumes "k < 16" and "i \<le> 128"
  shows "unat (text_page k + of_nat i) = 0x80001000 + k * 0x1000 + i" "unat (text_page k + of_nat i - 0x80001000) = k * 0x1000 + i"
proof -
  have "text_page k + of_nat i = of_nat (0x80001000 + k * 0x1000 + i)"
    and "text_page k + of_nat i - 0x80001000 = of_nat (k * 0x1000 + i)"
    by (simp_all add: text_page_def)
  then show "unat (text_page k + of_nat i) = 0x80001000 + k * 0x1000 + i" "unat (text_page k + of_nat i - 0x80001000) = k * 0x1000 + i"
    using assms by (simp_all only: unat_of_nat) (simp_all add: take_bit_nat_eq_self)
qed

lemma text_index: "msg \<in> set msgs \<Longrightarrow> length (takeWhile (\<lambda>x. x \<noteq> msg) msgs) < length msgs \<and> msgs ! length (takeWhile (\<lambda>x. x \<noteq> msg) msgs) = msg"
  using nth_length_takeWhile [of "\<lambda>x. x \<noteq> msg" msgs] by (induction msgs) auto

lemma text_memory_literals:
  assumes "length msgs \<le> 16" and "list_all printable msgs"
  shows "literals (text_memory msgs) (text_addr msgs) msgs"
  unfolding literals_def
proof
  fix msg assume m: "msg \<in> set msgs"
  define k where "k = length (takeWhile (\<lambda>x. x \<noteq> msg) msgs)"
  have k: "k < length msgs" "msgs ! k = msg" using text_index [OF m] by (simp_all add: k_def)
  have p: "msg \<noteq> []" "length msg \<le> 128" "0 \<notin> set (bytes msg)" using assms(2) m by (auto simp: list_all_iff printable_def)
  have n: "length (bytes msg) = length msg" by (simp add: bytes_def)
  have at: "unat (text_page k + of_nat i) = 0x80001000 + k * 0x1000 + i" "unat (text_page k + of_nat i - 0x80001000) = k * 0x1000 + i"
    if "i \<le> 128" for i using text_page_at [OF _ that] k(1) assms(1) by simp_all
  have "has_text (text_memory msgs) (text_page k) (bytes msg)"
  proof (rule has_text_at)
    show "text_memory msgs (text_page k + of_nat i) = text_at (text_page k) (bytes msg) (text_page k + of_nat i)"
      if "i \<le> length (bytes msg)" for i
      using at(2) [of i] that p(2) k by (simp add: text_memory_def n Let_def)
    have "sint (of_nat (length msg) :: u32) = int (length msg)" using p(2) by (simp add: signed_of_nat signed_take_bit_int_eq_self)
    then show "\<not> bad_string (text_page k) (of_nat (length (bytes msg)))"
      using at(1) [of 0] at(1) [of "length msg"] p k(1) assms(1)
      by (simp add: bad_string_def n UPROCSTARTADDR_def USERSTACKTOP_def word_less_nat_alt word_le_nat_alt)
  qed (use p n in simp_all)
  then show "has_text (text_memory msgs) (text_addr msgs msg) (bytes msg)" by (simp add: text_addr_def k_def)
qed

definition user_demo :: "string list \<Rightarrow> sup_state" where
  "user_demo msgs = put_supp 0x2000 (zero_support\<lparr>sup_asid := 3\<rparr>) (supp_example\<lparr>umem := text_memory msgs\<rparr>)"

lemma user_demo_facts: "sup_asid (supports (nuc (user_demo msgs)) 0x2000) = 3" "bus (user_demo msgs) = []"
  "umem (user_demo msgs) = text_memory msgs"
  by (simp_all add: user_demo_def put_supp_def supp_example_def)

lemma umps3s_place: "user_place umps3s 0x2000 3"
  using umps3s_doc by (simp add: user_place_def umps3_def)

lemma steady_user: "user_kernel (steady 5) umps3s 0x2000 (\<lambda>_. 5) (\<lambda>_. 5)" "\<And>i. terminal_ok ((\<lambda>_. 5) i)"
  by (simp_all add: user_kernel_def steady_device) (simp_all add: steady_def terminal_ok_def dev_consts)

text \<open>A kernel whose terminals answer 5 and whose printers answer 1.\<close>

definition two_devices :: kernel where
  "two_devices n a b c s = Some (if n = GETSUPPORTPTR then 0x2000 else if n = IOWAIT \<and> a = PRNTINT umps3 then 1 else 5, s)"

lemma two_devices_ok: "user_kernel two_devices umps3s 0x2000 (\<lambda>_. 5) (\<lambda>_. 5)" "\<And>i. terminal_ok ((\<lambda>_. 5) i)"
  "device_kernel two_devices (PRNTINT (nucl umps3s)) 0 (\<lambda>_. 1)" "\<And>i. printer_ok ((\<lambda>_. 1) i)"
  by (simp_all add: user_kernel_def device_kernel_def two_devices_def syscall_numbers umps3s_def umps3_def terminal_ok_def
      printer_ok_def dev_consts)

theorem user_programs_print_witness:
  "\<exists>s'. printerTest two_devices umps3s 0x2000 (text_addr [''printTest is ok\<newline>'', ''printTest is ok\<newline>''])
        (user_demo [''printTest is ok\<newline>'', ''printTest is ok\<newline>'']) =
      Some (Inl (SYSCALL TERMPROCESS 0 0 0, s')) \<and> sent (bus s') = ''printTest is ok\<newline>'' \<and>
    printed umps3 2 (bus s') = ''printTest is ok\<newline>''"
proof -
  let ?msg = "''printTest is ok\<newline>''"
  have l: "literals (umem (user_demo [?msg, ?msg])) (text_addr [?msg, ?msg]) ([?msg] @ [?msg])"
    unfolding user_demo_facts append_Cons append_Nil by (rule text_memory_literals) (simp_all add: printable_def bytes_def)
  have p: "(printerTest, [?msg], [?msg]) \<in> set message_programs" by (simp add: message_programs_def)
  have n: "nucl umps3s = umps3" by (simp add: umps3s_def)
  from user_programs_print [OF umps3s_place two_devices_ok user_demo_facts(1) p l] show ?thesis
    unfolding user_demo_facts(2) n by auto
qed

end
