(* ===== verification/User_Reader.thy ===== *)
theory User_Reader
  imports User_Props
begin

text \<open>
  The user programs that read: \<open>terminalReader\<close> echoes the line it reads, and what happens to a
  line that is longer than its array.
\<close>

subsection \<open>Bytes in memory\<close>

lemma put_bytes_other: "(\<And>i. i < length bs \<Longrightarrow> x \<noteq> a + of_nat i) \<Longrightarrow> put_bytes a bs m x = m x"
proof (induction bs arbitrary: a m)
  case (Cons b bs)
  have "x \<noteq> a + 1 + of_nat i" if "i < length bs" for i using Cons.prems [of "Suc i"] that by (simp add: add.assoc)
  then have "put_bytes (a + 1) bs (m(a := b)) x = (m(a := b)) x" by (intro Cons.IH)
  then show ?case using Cons.prems [of 0] by simp
qed simp

lemma of_nat_apart: "i \<noteq> j \<Longrightarrow> i < 2 ^ 32 \<Longrightarrow> j < 2 ^ 32 \<Longrightarrow> (a :: u32) + of_nat i \<noteq> a + of_nat j"
  by (metis add_left_cancel unat_of_nat_add add_diff_cancel_left')

lemma put_bytes_nth: "length bs < 2 ^ 32 \<Longrightarrow> i < length bs \<Longrightarrow> put_bytes a bs m (a + of_nat i) = bs ! i"
proof (induction bs arbitrary: a i m)
  case (Cons b bs)
  show ?case
  proof (cases i)
    case 0
    have "a \<noteq> a + 1 + of_nat j" if "j < length bs" for j
      using of_nat_apart [of 0 "Suc j" a] Cons.prems(1) that by (simp add: add.assoc)
    then show ?thesis using 0 put_bytes_other [of bs a "a + 1" "m(a := b)"] by simp
  next
    case (Suc j)
    then show ?thesis using Cons.IH [of j "a + 1"] Cons.prems by (simp add: add.assoc)
  qed
qed simp

subsection \<open>Reading\<close>

text \<open>From the event after \<open>p\<close> on, the terminal receives the characters \<open>l\<close> and the end of the line.\<close>

definition types_line :: "supp_umps \<Rightarrow> (nat \<Rightarrow> u32) \<Rightarrow> nat \<Rightarrow> u8 list \<Rightarrow> bool" where
  "types_line V rsts p l \<longleftrightarrow> newline \<notin> set l \<and>
     (\<forall>i \<le> length l. read_ok (nucl V) (rsts (p + 2 * Suc i)) \<and> received (rsts (p + 2 * Suc i)) = (l @ [newline]) ! i)"

lemma types_line_ref:
  "types_line V rsts p l \<Longrightarrow> read_ref (nucl V) eos r (statuses rsts p (Suc (length l))) = Some (r + of_nat (Suc (length l)), l @ [newline])"
proof (induction l arbitrary: p r)
  case Nil
  then show ?case by (simp add: types_line_def)
next
  case (Cons c l)
  have c: "c \<noteq> newline" "read_ok (nucl V) (rsts (p + 2))" "received (rsts (p + 2)) = c"
    using Cons.prems by (auto simp: types_line_def dest: spec [of _ 0])
  have "types_line V rsts (p + 2) l" unfolding types_line_def
  proof (intro conjI allI impI)
    show "newline \<notin> set l" using Cons.prems by (simp add: types_line_def)
    fix i assume "i \<le> length l"
    then have "Suc i \<le> length (c # l)" by simp
    with Cons.prems have "read_ok (nucl V) (rsts (p + 2 * Suc (Suc i))) \<and>
        received (rsts (p + 2 * Suc (Suc i))) = ((c # l) @ [newline]) ! Suc i" unfolding types_line_def by blast
    then show "read_ok (nucl V) (rsts (p + 2 + 2 * Suc i))" "received (rsts (p + 2 + 2 * Suc i)) = (l @ [newline]) ! i"
      by (simp_all add: add.assoc)
  qed
  from Cons.IH [OF this, of "r + 1"] c show ?case by (simp add: add.assoc)
qed

definition read_events :: "supp_umps \<Rightarrow> u32 \<Rightarrow> nat \<Rightarrow> io_event list" where
  "read_events V asid n = Sys GETSUPPORTPTR 0 0 0 # Sys PASSEREN (adr_termReadSemaphores V + 4 * asid) 0 0 #
     concat (replicate n (read_cmds (nucl V) (asid - 1))) @ [Sys VERHOGEN (adr_termReadSemaphores V + 4 * asid) 0 0]"

lemma sent_read: "sent (read_events V asid n) = []"
proof -
  have "sent (concat (replicate n (read_cmds U no))) = []" for U no
    by (induction n) (simp_all add: read_cmds_def sent_append)
  then show ?thesis by (simp add: read_events_def sent_append)
qed

text \<open>The memory after \<open>status = SYSCALL(READTERMINAL, ...); buf[status] = EOS\<close>.\<close>

definition line_read :: "u32 \<Rightarrow> u8 list \<Rightarrow> (u32 \<Rightarrow> u8) \<Rightarrow> u32 \<Rightarrow> u8" where
  "line_read buf l m = (put_bytes buf (l @ [newline]) m)(buf + of_nat (Suc (length l)) := 0)"

lemma read_line_goes:
  assumes P: "user_place V supp asid" and K: "user_kernel K V supp sts rsts" and u: "user_at V supp asid m es s"
    and b: "\<not> buf < UPROCSTARTADDR" and l: "types_line V rsts (length es + 2) l"
  shows "\<exists>s'. read_line K V supp buf f s = f (of_nat (Suc (length l))) s' \<and>
    user_at V supp asid (line_read buf l m) (es @ read_events V asid (Suc (length l))) s'"
proof -
  note D = user_placeD [OF P]
  have dk: "device_kernel K (TERMINT (nucl V)) 1 rsts" using K by (simp add: user_kernel_def)
  obtain s1 where s1: "user_at V supp asid m (es @ [Sys GETSUPPORTPTR 0 0 0]) s1" "reg_a0 (nucl V) (caller_state s1 supp) = READTERMINAL"
    "reg_a1 (nucl V) (caller_state s1 supp) = buf"
    "user_call K V supp READTERMINAL buf 0 s = do { (out, s) \<leftarrow> handleSupportSystemcalls K V supp s1;
      Some (case out of LDST st \<Rightarrow> Inr (reg_v0 (nucl V) st, s) | _ \<Rightarrow> Inl (out, s)) }"
    using user_call_enters [OF P K u, of READTERMINAL buf 0] by blast
  let ?sem = "adr_termReadSemaphores V + 4 * asid" and ?v = "of_nat (Suc (length l)) :: u32"
  let ?e2 = "(es @ [Sys GETSUPPORTPTR 0 0 0]) @ [Sys PASSEREN ?sem 0 0]"
  obtain v2 s2 where s2: "syscall K PASSEREN ?sem 0 0 s1 = Some (v2, s2)" "user_at V supp asid m ?e2 s2"
    using mutex_user [OF dk _ s1(1)] by blast
  have "length (bus s2) = length es + 2" using s2(2) by (simp add: user_at_def)
  then have r: "read_ref (nucl V) (EOS V) 0 (statuses rsts (length (bus s2)) (Suc (length l))) = Some (?v, l @ [newline])"
    using types_line_ref [OF l, of "EOS V" 0] by simp
  have "(48 :: u8) \<noteq> newline" "read_ok (nucl V) (READY (nucl V))" using D(7) by (simp_all add: newline_def read_ok_def TERMSTATMASK_def)
  from termRead_loop_ref [OF dk D(5) r this] obtain s3 where
    s3: "termRead_loop K V asid buf 0 (READY (nucl V)) 48 s2 = Some (?v, s3)" "supports (nuc s3) = supports (nuc s2)"
    "umem s3 = put_bytes buf (l @ [newline]) (umem s2)"
    "bus s3 = bus s2 @ concat (replicate (Suc (length l)) (read_cmds (nucl V) (asid - 1)))" by blast
  have u3: "user_at V supp asid (put_bytes buf (l @ [newline]) m) (?e2 @ concat (replicate (Suc (length l)) (read_cmds (nucl V) (asid - 1)))) s3"
    using s2(2) s3(2-4) by (simp add: user_at_def)
  obtain v4 s4 where s4: "syscall K VERHOGEN ?sem 0 0 s3 = Some (v4, s4)"
    "user_at V supp asid (put_bytes buf (l @ [newline]) m) (es @ read_events V asid (Suc (length l))) s4"
    using mutex_user [OF dk _ u3, of VERHOGEN ?sem] by (auto simp: read_events_def)
  obtain st s5 where s5: "return_to V supp ?v s4 = Some (LDST st, s5)" "reg_v0 (nucl V) st = ?v"
    "user_at V supp asid (put_bytes buf (l @ [newline]) m) (es @ read_events V asid (Suc (length l))) s5"
    using return_to_user [OF D(4) s4(2)] by blast
  have "handleSupportSystemcalls K V supp s1 = read_From_Terminal K V supp s1"
    using s1(2) D(4) by (simp add: handleSupportSystemcalls_def get_supp_def load_supp_def caller_state_def syscall_numbers Let_def)
  also have "\<dots> = Some (LDST st, s5)"
    using s1 s2(1) s3(1) s4(1) s5(1) b D(4)
    by (simp add: read_From_Terminal_def get_supp_def load_supp_def caller_state_def user_at_def Let_def)
  finally have call: "user_call K V supp READTERMINAL buf 0 s = Some (Inr (?v, s5))" using s1(4) s5(2) by simp
  have "user_at V supp asid (line_read buf l m) (es @ read_events V asid (Suc (length l))) (put_char (buf + ?v) 0 s5)"
    using s5(3) by (simp add: user_at_def line_read_def put_char_def)
  then show ?thesis unfolding read_line_def calling_def call by (intro exI [of _ "put_char (buf + ?v) 0 s5"]) simp
qed

lemma runs_read_line:
  assumes P: "user_place V supp asid" and K: "user_kernel K V supp sts rsts" and u: "user_at V supp asid m es s"
    and b: "\<not> buf < UPROCSTARTADDR" and l: "types_line V rsts (length es + 2) l"
    and Q: "\<And>s. user_at V supp asid (line_read buf l m) (es @ read_events V asid (Suc (length l))) s \<Longrightarrow>
      runs (f (of_nat (Suc (length l)))) s Q"
  shows "runs (read_line K V supp buf f) s Q"
  using read_line_goes [OF P K u b l, of f] Q by (auto simp: runs_def)

lemma ends_read_line:
  assumes P: "user_place V supp asid" and K: "user_kernel K V supp sts rsts" and u: "user_at V supp asid m es s"
    and b: "\<not> buf < UPROCSTARTADDR" and l: "types_line V rsts (length es + 2) l"
    and Q: "\<And>s. user_at V supp asid (line_read buf l m) (es @ read_events V asid (Suc (length l))) s \<Longrightarrow>
      ends (f (of_nat (Suc (length l)))) s Q"
  shows "ends (read_line K V supp buf f) s Q"
  using read_line_goes [OF P K u b l, of f] Q by (auto simp: ends_def)

lemma line_read_nth:
  assumes "length l \<le> 127" and "i \<le> Suc (length l)"
  shows "line_read buf l m (buf + of_nat i) = (l @ [newline, 0]) ! i"
proof (cases "i = Suc (length l)")
  case True
  then show ?thesis by (simp add: line_read_def nth_append)
next
  case False
  then have i: "i < length (l @ [newline])" using assms(2) by simp
  have "buf + of_nat i \<noteq> buf + of_nat (Suc (length l))" using assms False by (intro of_nat_apart) simp_all
  then have "line_read buf l m (buf + of_nat i) = (l @ [newline]) ! i"
    using put_bytes_nth [OF _ i, of buf m] assms(1) by (simp add: line_read_def)
  then show ?thesis using i by (auto simp: nth_append less_Suc_eq)
qed

lemma line_read_other: "(\<And>i. i \<le> Suc (length l) \<Longrightarrow> x \<noteq> buf + of_nat i) \<Longrightarrow> line_read buf l m x = m x"
proof -
  assume x: "\<And>i. i \<le> Suc (length l) \<Longrightarrow> x \<noteq> buf + of_nat i"
  have "put_bytes buf (l @ [newline]) m x = m x" by (rule put_bytes_other) (use x in simp)
  then show ?thesis using x [of "Suc (length l)"] unfolding line_read_def fun_upd_def by (simp only: if_False order_refl simp_thms)
qed

text \<open>A line that SYS12 can print.\<close>

definition line_ok :: "u32 \<Rightarrow> u8 list \<Rightarrow> bool" where
  "line_ok buf l \<longleftrightarrow> length l \<le> 127 \<and> 0 \<notin> set l \<and> \<not> bad_string buf (of_nat (Suc (length l)))"

lemma line_text:
  assumes "line_ok buf l"
  shows "has_text (line_read buf l m) buf (l @ [newline])"
proof -
  have a: "length l \<le> 127" "0 \<notin> set l" "\<not> bad_string buf (of_nat (Suc (length l)))" using assms by (simp_all add: line_ok_def)
  have "line_read buf l m (buf + of_nat i) = (l @ [newline]) ! i \<and> (l @ [newline]) ! i \<noteq> 0" if "i < length (l @ [newline])" for i
  proof -
    have "l ! i \<noteq> 0" if "i < length l" using a(2) nth_mem [OF that] by metis
    then show ?thesis using line_read_nth [OF a(1), of i buf m] that by (auto simp: nth_append newline_def less_Suc_eq)
  qed
  moreover have "line_read buf l m (buf + of_nat (length (l @ [newline]))) = 0"
    using line_read_nth [OF a(1), of "Suc (length l)" buf m] by (simp add: nth_append)
  ultimately show ?thesis using a(1,3) by (simp add: has_text_def cstring_iff)
qed

text \<open>The array \<open>buf\<close> of \<open>n\<close> bytes and the messages do not overlap.\<close>

definition apart :: "u32 \<Rightarrow> nat \<Rightarrow> (string \<Rightarrow> u32) \<Rightarrow> string list \<Rightarrow> bool" where
  "apart buf n L msgs \<longleftrightarrow> (\<forall>msg \<in> set msgs. \<forall>i \<le> length msg. \<forall>j < n. L msg + of_nat i \<noteq> buf + of_nat j)"

lemma literals_kept:
  assumes "literals m L msgs" and "apart buf n L msgs" and "length l + 1 < n"
  shows "literals (line_read buf l m) L msgs"
  unfolding literals_def
proof
  fix msg assume m: "msg \<in> set msgs"
  have "line_read buf l m (L msg + of_nat i) = m (L msg + of_nat i)" if "i \<le> length msg" for i
    using assms(2,3) m that by (intro line_read_other) (auto simp: apart_def)
  moreover have "length (bytes msg) = length msg" by (simp add: bytes_def)
  moreover have "has_text m (L msg) (bytes msg)" using assms(1) m by (simp add: literals_def)
  ultimately show "has_text (line_read buf l m) (L msg) (bytes msg)" by (simp add: has_text_def cstring_iff)
qed

subsection \<open>terminalReader\<close>

definition reader_prompts :: "string list" where
  "reader_prompts = [''Terminal Read Test starts\<newline>'', ''Enter a string: '']"

definition reader_answers :: "string list" where
  "reader_answers = [''\<newline>'', ''\<newline>\<newline>Terminal Read concluded\<newline>'']"

text \<open>
  \<open>terminalReader\<close> on a line of any length, as long as what SYS13 and the program store, the line, its end and an \<open>EOS\<close>,
  does not hit the messages of the program.
\<close>

lemma terminalReader_run:
  assumes P: "user_place V supp asid" and K: "user_kernel K V supp sts rsts" "\<And>i. terminal_ok (sts i)"
    and a: "sup_asid (supports (nuc s) supp) = asid"
    and t: "literals (umem s) L (reader_prompts @ reader_answers)" "apart buf n L (reader_prompts @ reader_answers)"
    and l: "types_line V rsts (length (bus s) + length (said V asid reader_prompts) + 2) l" "length l + 1 < n" "line_ok buf l"
  shows "\<exists>s'. terminalReader K V supp L buf s = Some (Inl (SYSCALL TERMPROCESS 0 0 0, s')) \<and>
    sent (bus s') = sent (bus s) @ concat reader_prompts @ ''\<newline>'' @ map (\<lambda>c. char_of (unat c)) (l @ [newline]) @
      ''\<newline>\<newline>Terminal Read concluded\<newline>'' \<and>
    umem s' = line_read buf l (umem s)"
proof -
  let ?m = "umem s" and ?es = "bus s"
  let ?m' = "line_read buf l ?m"
  let ?p1 = "''Terminal Read Test starts\<newline>''" and ?p2 = "''Enter a string: ''" and ?nl = "''\<newline>''"
    and ?last = "''\<newline>\<newline>Terminal Read concluded\<newline>''"
  have u: "user_at V supp asid ?m ?es s" using a by (simp add: user_at_def)
  have lits: "has_text ?m (L ?p1) (bytes ?p1)" "has_text ?m (L ?p2) (bytes ?p2)"
    using t(1) by (simp_all add: literals_def reader_prompts_def)
  have "literals ?m' L (reader_prompts @ reader_answers)" by (rule literals_kept [OF t l(2)])
  then have lits': "has_text ?m' (L ?nl) (bytes ?nl)" "has_text ?m' (L ?last) (bytes ?last)"
    by (simp_all add: literals_def reader_answers_def)
  have b: "\<not> buf < UPROCSTARTADDR" using l(3) by (simp add: line_ok_def bad_string_def)
  let ?e2 = "(?es @ said V asid [?p1]) @ said V asid [?p2]"
  have "?e2 = ?es @ said V asid reader_prompts" by (simp add: said_def reader_prompts_def)
  then have ln: "types_line V rsts (length ?e2 + 2) l" using l(1) by (simp add: add.assoc)
  let ?e3 = "?e2 @ read_events V asid (Suc (length l))"
  let ?e4 = "?e3 @ said V asid [?nl]"
  let ?e5 = "?e4 @ print_events V asid (l @ [newline])"
  let ?e6 = "?e5 @ said V asid [?last]"
  let ?Q = "\<lambda>(out, s'). out = SYSCALL TERMPROCESS 0 0 0 \<and>
      bus s' = ?e6 @ [Sys GETSUPPORTPTR 0 0 0, Sys VERHOGEN (adr_masterSem V) 0 0] \<and> umem s' = ?m'"
  have 6: "ends (block [terminate K V supp]) s ?Q" if "user_at V supp asid ?m' ?e6 s" for s
    by (rule ends_here, rule ends_terminate [OF P K(1) that]) simp
  have 5: "ends (block [say K V supp L ?last, terminate K V supp]) s ?Q" if "user_at V supp asid ?m' ?e5 s" for s
    by (rule ends_Cons, rule runs_say [where L = L and msg = ?last, OF P K that lits'(2)], rule 6)
  have 4: "ends (block [user_print K V supp L WRITETERMINAL buf, say K V supp L ?last, terminate K V supp]) s ?Q"
    if "user_at V supp asid ?m' ?e4 s" for s
    by (rule ends_Cons, rule runs_user_print [OF P K that line_text [OF l(3)]], rule 5)
  have 3: "ends (block [say K V supp L ?nl, user_print K V supp L WRITETERMINAL buf, say K V supp L ?last, terminate K V supp]) s ?Q"
    if "user_at V supp asid ?m' ?e3 s" for s
    by (rule ends_Cons, rule runs_say [where L = L and msg = ?nl, OF P K that lits'(1)], rule 4)
  have 2: "ends (block [read_line K V supp buf (\<lambda>_. go_on), say K V supp L ?nl, user_print K V supp L WRITETERMINAL buf,
      say K V supp L ?last, terminate K V supp]) s ?Q" if "user_at V supp asid ?m ?e2 s" for s
    by (rule ends_Cons, rule runs_read_line [OF P K(1) that b ln]) (use 3 in \<open>simp only: runs_def go_on_def, blast\<close>)
  have "ends (terminalReader K V supp L buf) s ?Q"
    unfolding terminalReader_def
    by (rule ends_Cons, rule runs_say [where L = L and msg = ?p1, OF P K u lits(1)],
        rule ends_Cons, erule runs_say [where L = L and msg = ?p2, OF P K _ lits(2)], rule 2)
  then obtain s' where s': "terminalReader K V supp L buf s = Some (Inl (SYSCALL TERMPROCESS 0 0 0, s'))"
    "bus s' = ?e6 @ [Sys GETSUPPORTPTR 0 0 0, Sys VERHOGEN (adr_masterSem V) 0 0]" "umem s' = ?m'"
    unfolding ends_def by auto
  have "sent (bus s') = sent ?es @ concat reader_prompts @ ?nl @ map (\<lambda>c. char_of (unat c)) (l @ [newline]) @ ?last"
    unfolding s'(2) sent_append sent_said sent_read sent_print by (simp add: reader_prompts_def)
  with s'(1,3) show ?thesis by blast
qed

text \<open>
  C30: terminalReader echoes a short line.  Started with its messages in memory and apart from its array, when the
  user types a line of at most 13 characters after the prompts, the program sends its prompts, the
  line it read, and its last message, and ends in SYS2; only the 15 bytes of its array have changed.
  The characters travel from the device through SYS13 into the memory and back through SYS12.
\<close>

theorem terminalReader_echoes:
  assumes P: "user_place V supp asid" and K: "user_kernel K V supp sts rsts" "\<And>i. terminal_ok (sts i)"
    and a: "sup_asid (supports (nuc s) supp) = asid"
    and t: "literals (umem s) L (reader_prompts @ reader_answers)" "apart buf 15 L (reader_prompts @ reader_answers)"
    and l: "types_line V rsts (length (bus s) + length (said V asid reader_prompts) + 2) l" "length l \<le> 13" "line_ok buf l"
  shows "\<exists>s'. terminalReader K V supp L buf s = Some (Inl (SYSCALL TERMPROCESS 0 0 0, s')) \<and>
    sent (bus s') = sent (bus s) @ concat reader_prompts @ ''\<newline>'' @ map (\<lambda>c. char_of (unat c)) (l @ [newline]) @
      ''\<newline>\<newline>Terminal Read concluded\<newline>'' \<and>
    (\<forall>x. (\<forall>j<15. x \<noteq> buf + of_nat j) \<longrightarrow> umem s' x = umem s x)"
proof -
  have "length l + 1 < 15" using l(2) by simp
  from terminalReader_run [OF P K a t l(1) this l(3)] obtain s' where
    s': "terminalReader K V supp L buf s = Some (Inl (SYSCALL TERMPROCESS 0 0 0, s'))"
    "sent (bus s') = sent (bus s) @ concat reader_prompts @ ''\<newline>'' @ map (\<lambda>c. char_of (unat c)) (l @ [newline]) @
      ''\<newline>\<newline>Terminal Read concluded\<newline>''" "umem s' = line_read buf l (umem s)" by blast
  have "umem s' x = umem s x" if "\<forall>j<15. x \<noteq> buf + of_nat j" for x
    unfolding s'(3) using that l(2) by (intro line_read_other) auto
  with s'(1,2) show ?thesis by blast
qed

text \<open>
  C37: terminalReader stores a longer line behind its array of 15 bytes.  When the user types 14 or more characters
  (at most 127, so that SYS12 prints the line; the messages of the program lie elsewhere), the program still echoes the line and ends, but
  every byte from \<open>buf + 15\<close> to \<open>buf + length l + 1\<close> has been written: with the characters from index 15 on, the
  newline, and the \<open>EOS\<close>.  With 14 characters it is the \<open>EOS\<close> alone, with 15 the newline and the \<open>EOS\<close>.
\<close>

theorem terminalReader_overflows:
  assumes P: "user_place V supp asid" and K: "user_kernel K V supp sts rsts" "\<And>i. terminal_ok (sts i)"
    and a: "sup_asid (supports (nuc s) supp) = asid"
    and t: "literals (umem s) L (reader_prompts @ reader_answers)" "apart buf (length l + 2) L (reader_prompts @ reader_answers)"
    and l: "types_line V rsts (length (bus s) + length (said V asid reader_prompts) + 2) l" "14 \<le> length l" "line_ok buf l"
  shows "\<exists>s'. terminalReader K V supp L buf s = Some (Inl (SYSCALL TERMPROCESS 0 0 0, s')) \<and>
    sent (bus s') = sent (bus s) @ concat reader_prompts @ ''\<newline>'' @ map (\<lambda>c. char_of (unat c)) (l @ [newline]) @
      ''\<newline>\<newline>Terminal Read concluded\<newline>'' \<and>
    15 \<le> length l + 1 \<and> (\<forall>i. 15 \<le> i \<longrightarrow> i \<le> length l + 1 \<longrightarrow> umem s' (buf + of_nat i) = (l @ [newline, 0]) ! i)"
proof -
  have "length l + 1 < length l + 2" and n: "length l \<le> 127" using l(3) by (simp_all add: line_ok_def)
  from terminalReader_run [OF P K a t l(1) this(1) l(3)] obtain s' where
    s': "terminalReader K V supp L buf s = Some (Inl (SYSCALL TERMPROCESS 0 0 0, s'))"
    "sent (bus s') = sent (bus s) @ concat reader_prompts @ ''\<newline>'' @ map (\<lambda>c. char_of (unat c)) (l @ [newline]) @
      ''\<newline>\<newline>Terminal Read concluded\<newline>''" "umem s' = line_read buf l (umem s)" by blast
  have "umem s' (buf + of_nat i) = (l @ [newline, 0]) ! i" if "i \<le> length l + 1" for i
    unfolding s'(3) by (rule line_read_nth [OF n]) (use that in simp)
  with s'(1,2) l(2) show ?thesis by auto
qed

subsection \<open>Instances\<close>

text \<open>A terminal on which a line of \<open>n\<close> letters A is typed at the moment \<open>p\<close>.\<close>

definition letters :: "nat \<Rightarrow> nat \<Rightarrow> nat \<Rightarrow> u32" where
  "letters n p i = (if i < p + 2 * Suc n then 0x4105 else 0x0A05)"

definition echo_kernel :: "(nat \<Rightarrow> u32) \<Rightarrow> kernel" where
  "echo_kernel rsts n a b c s = Some (if n = GETSUPPORTPTR then 0x2000 else if n = IOWAIT \<and> c = 1 then rsts (length (bus s)) else 5, s)"

lemma echo_user: "user_kernel (echo_kernel rsts) umps3s 0x2000 (\<lambda>_. 5) rsts"
  by (simp add: user_kernel_def device_kernel_def echo_kernel_def syscall_numbers)

lemma letters_line: "types_line umps3s (letters n p) p (replicate n 65)"
proof -
  have "((0x4105 :: u32) AND TERMSTATMASK = RECVD)" "((0x0A05 :: u32) AND TERMSTATMASK = RECVD)"
    "received 0x4105 = 65" "received 0x0A05 = newline"
    by (simp_all add: dev_consts received_def newline_def)
  then show ?thesis by (auto simp: types_line_def letters_def read_ok_def nth_append newline_def)
qed

lemma text_apart:
  assumes "0x90000000 \<le> unat buf" and "unat buf + n < 2 ^ 32" and "length msgs \<le> 16" and "list_all printable msgs"
  shows "apart buf n (text_addr msgs) msgs"
  unfolding apart_def
proof (intro ballI allI impI)
  fix msg i j assume m: "msg \<in> set msgs" and i: "i \<le> length msg" and j: "j < n"
  let ?k = "length (takeWhile (\<lambda>x. x \<noteq> msg) msgs)"
  have "length msg \<le> 128" using m assms(4) by (simp add: list_all_iff printable_def)
  moreover have "?k < 16" using text_index [OF m] assms(3) by simp
  ultimately have "unat (text_addr msgs msg + of_nat i) < 0x90000000"
    using text_page_at(1) [of ?k i] i by (simp add: text_addr_def)
  moreover have "unat (buf + of_nat j) = unat buf + j" using j assms(2) by (simp add: unat_word_ariths unat_of_nat)
  ultimately show "text_addr msgs msg + of_nat i \<noteq> buf + of_nat j" using assms(1) by auto
qed

definition reader_messages :: "string list" where
  "reader_messages = reader_prompts @ reader_answers"

lemma reader_messages_ok: "length reader_messages \<le> 16" "list_all printable reader_messages"
  by (simp_all add: reader_messages_def reader_prompts_def reader_answers_def printable_def bytes_def)

abbreviation "reader_demo \<equiv> user_demo reader_messages"
abbreviation "reader_text \<equiv> text_addr reader_messages"

lemma reader_demo_literals: "literals (umem reader_demo) reader_text (reader_prompts @ reader_answers)"
  using text_memory_literals [OF reader_messages_ok] by (simp add: user_demo_facts reader_messages_def)

lemma reader_demo_apart: "apart 0xA0000000 15 reader_text (reader_prompts @ reader_answers)"
  using text_apart [OF _ _ reader_messages_ok, of "0xA0000000" 15] by (simp add: reader_messages_def)

lemma all_answered: "\<And>i. terminal_ok ((\<lambda>_ :: nat. 5) i)"
  by (simp add: terminal_ok_def dev_consts)

theorem terminalReader_echoes_witness:
  "\<exists>s'. terminalReader (echo_kernel (letters 2 (length (said umps3s 3 reader_prompts) + 2))) umps3s 0x2000 reader_text 0xA0000000 reader_demo =
      Some (Inl (SYSCALL TERMPROCESS 0 0 0, s')) \<and>
    sent (bus s') = concat reader_prompts @ ''\<newline>'' @ ''AA\<newline>'' @ ''\<newline>\<newline>Terminal Read concluded\<newline>''"
proof -
  let ?p = "length (said umps3s 3 reader_prompts) + 2"
  have l: "types_line umps3s (letters 2 ?p) (length (bus reader_demo) + length (said umps3s 3 reader_prompts) + 2) (replicate 2 65)"
    using letters_line [of 2 ?p] by (simp add: user_demo_facts)
  have k: "length (replicate 2 (65 :: u8)) \<le> 13" "line_ok 0xA0000000 (replicate 2 65)"
    by (simp_all add: line_ok_def bad_string_def UPROCSTARTADDR_def USERSTACKTOP_def)
  have c: "map (\<lambda>c. char_of (unat c)) (replicate 2 (65 :: u8) @ [newline]) = ''AA\<newline>''"
  proof -
    have "replicate 2 65 = [65, 65 :: u8]" by (simp add: numeral_2_eq_2)
    then have "replicate 2 (65 :: u8) @ [newline] = bytes ''AA\<newline>''" by (simp add: bytes_def newline_def)
    then show ?thesis by (simp only: sent_bytes)
  qed
  from terminalReader_echoes [OF umps3s_place echo_user all_answered user_demo_facts(1) reader_demo_literals reader_demo_apart l k]
  show ?thesis unfolding c user_demo_facts(2) by auto
qed

theorem terminalReader_overflows_witness:
  "\<exists>s'. terminalReader (echo_kernel (letters 16 (length (said umps3s 3 reader_prompts) + 2))) umps3s 0x2000 reader_text 0xA0000000 reader_demo =
      Some (Inl (SYSCALL TERMPROCESS 0 0 0, s')) \<and> umem s' (0xA0000000 + 15) = 65 \<and> umem s' (0xA0000000 + 17) = 0"
proof -
  let ?p = "length (said umps3s 3 reader_prompts) + 2" and ?l = "replicate 16 (65 :: u8)"
  have l: "types_line umps3s (letters 16 ?p) (length (bus reader_demo) + length (said umps3s 3 reader_prompts) + 2) ?l"
    using letters_line [of 16 ?p] by (simp add: user_demo_facts)
  have k: "14 \<le> length ?l" "line_ok 0xA0000000 ?l"
    by (simp_all add: line_ok_def bad_string_def UPROCSTARTADDR_def USERSTACKTOP_def)
  have ap: "apart 0xA0000000 (length ?l + 2) reader_text (reader_prompts @ reader_answers)"
    using text_apart [OF _ _ reader_messages_ok, of "0xA0000000" 18] by (simp add: reader_messages_def)
  obtain s' where
    s': "terminalReader (echo_kernel (letters 16 ?p)) umps3s 0x2000 reader_text 0xA0000000 reader_demo =
      Some (Inl (SYSCALL TERMPROCESS 0 0 0, s'))"
    "\<forall>i. 15 \<le> i \<longrightarrow> i \<le> length ?l + 1 \<longrightarrow> umem s' (0xA0000000 + of_nat i) = (?l @ [newline, 0]) ! i"
    using terminalReader_overflows [OF umps3s_place echo_user all_answered user_demo_facts(1) reader_demo_literals ap l k] by blast
  from s'(2) [rule_format, of 15] s'(2) [rule_format, of 17] have "umem s' (0xA0000000 + 15) = 65" "umem s' (0xA0000000 + 17) = 0"
    by (simp_all add: nth_append)
  then show ?thesis using s'(1) by blast
qed

end
