(* ===== verification/User_Concat.thy ===== *)
theory User_Concat
  imports User_Reader
begin

text \<open>
  \<open>strConcat\<close>: two lines are read into two arrays, copied one behind the other into a third, and
  printed.
\<close>

subsection \<open>Arrays of bytes\<close>

lemma put_bytes_append: "put_bytes a (xs @ ys) m = put_bytes (a + of_nat (length xs)) ys (put_bytes a xs m)"
  by (induction xs arbitrary: a m) (simp_all add: add.assoc)

text \<open>Two arrays that do not overlap.\<close>

definition disjoint :: "u32 \<Rightarrow> nat \<Rightarrow> u32 \<Rightarrow> nat \<Rightarrow> bool" where
  "disjoint a n b k \<longleftrightarrow> (\<forall>i<n. \<forall>j<k. a + of_nat i \<noteq> b + of_nat j)"

lemma disjointD: "disjoint a n b k \<Longrightarrow> i < n \<Longrightarrow> j < k \<Longrightarrow> a + of_nat i \<noteq> b + of_nat j"
  by (simp add: disjoint_def)

lemma put_char_user: "user_at V supp asid m es s \<Longrightarrow> user_at V supp asid (m(a := b)) es (put_char a b s)"
  by (simp add: user_at_def put_char_def)

text \<open>The loop that copies \<open>cs\<close> from one array to another.\<close>

lemma copy_chars_at:
  assumes u: "user_at V supp asid m es s" and n: "sint n = int (length cs)"
    and cs: "\<And>i. i < length cs \<Longrightarrow> m (from + of_nat i) = cs ! i"
    and d: "\<And>i j. i < length cs \<Longrightarrow> j < length cs \<Longrightarrow> from + of_nat i \<noteq> to + of_nat j"
  shows "user_at V supp asid (put_bytes to cs m) es (copy_chars to from n s)"
proof -
  have "user_at V supp asid (put_bytes to (take k cs) m) es
      (fold (\<lambda>i s. put_char (to + of_nat i) (umem s (from + of_nat i)) s) [0..<k] s)" if "k \<le> length cs" for k
    using that
  proof (induction k)
    case 0
    then show ?case using u by simp
  next
    case (Suc k)
    then have k: "k < length cs" and
      IH: "user_at V supp asid (put_bytes to (take k cs) m) es
        (fold (\<lambda>i s. put_char (to + of_nat i) (umem s (from + of_nat i)) s) [0..<k] s)" (is "user_at _ _ _ _ _ ?s")
      by simp_all
    have "put_bytes to (take k cs) m (from + of_nat k) = cs ! k"
      using put_bytes_other [of "take k cs" "from + of_nat k" to m] d [of k] cs [OF k] k by simp
    then have "umem ?s (from + of_nat k) = cs ! k" using IH by (simp add: user_at_def)
    moreover have "put_bytes to (take (Suc k) cs) m = (put_bytes to (take k cs) m)(to + of_nat k := cs ! k)"
      using k by (simp add: take_Suc_conv_app_nth put_bytes_append)
    moreover have "fold (\<lambda>i s. put_char (to + of_nat i) (umem s (from + of_nat i)) s) [0..<Suc k] s =
        put_char (to + of_nat k) (umem ?s (from + of_nat k)) ?s" by simp
    ultimately show ?case using put_char_user [OF IH, of "to + of_nat k" "cs ! k"] by (simp only:)
  qed
  from this [of "length cs"] show ?thesis by (simp add: copy_chars_def n)
qed

text \<open>The third array after the two loops and \<open>buf3[status + status2 - 1] = EOS\<close> holds the two lines as one.\<close>

lemma joined:
  "(put_bytes (b + of_nat (length l)) (l' @ [newline]) (put_bytes b l m))(b + of_nat (length l + Suc (length l')) := 0) =
   line_read b (l @ l') m"
  by (simp add: line_read_def put_bytes_append [symmetric] add.assoc)

lemma line_read_kept:
  assumes "has_text m a cs" and "\<And>i j. i \<le> length cs \<Longrightarrow> j \<le> Suc (length l) \<Longrightarrow> a + of_nat i \<noteq> buf + of_nat j"
  shows "has_text (line_read buf l m) a cs"
proof -
  have "line_read buf l m (a + of_nat i) = m (a + of_nat i)" if "i \<le> length cs" for i
    using assms(2) that by (intro line_read_other) auto
  with assms(1) show ?thesis by (simp add: has_text_def cstring_iff)
qed

lemma small_ints: "n \<le> 40 \<Longrightarrow> sint (of_nat n :: u32) = int n"
  by (simp add: signed_of_nat signed_take_bit_int_eq_self)

subsection \<open>strConcat\<close>

definition concat_prompts :: "string list" where
  "concat_prompts = [''Strcat Test starts\<newline>'', ''Enter a string: '']"

definition concat_again :: "string list" where
  "concat_again = [''\<newline>'', ''Enter another string: '']"

definition concat_messages :: "string list" where
  "concat_messages = concat_prompts @ concat_again @ [''\<newline>\<newline>Strcat concluded\<newline>'']"

text \<open>The three arrays of \<open>main\<close>: in user memory, apart from each other and from the messages.\<close>

definition concat_arrays :: "(string \<Rightarrow> u32) \<Rightarrow> u32 \<Rightarrow> u32 \<Rightarrow> u32 \<Rightarrow> bool" where
  "concat_arrays L buf buf2 buf3 \<longleftrightarrow> \<not> buf < UPROCSTARTADDR \<and> \<not> buf2 < UPROCSTARTADDR \<and>
     disjoint buf 20 buf2 20 \<and> disjoint buf 20 buf3 40 \<and> disjoint buf2 20 buf3 40 \<and>
     apart buf 20 L concat_messages \<and> apart buf2 20 L concat_messages \<and> apart buf3 40 L concat_messages"

definition both_lines :: "u32 \<Rightarrow> u32 \<Rightarrow> u32 \<Rightarrow> u8 list \<Rightarrow> u8 list \<Rightarrow> (u32 \<Rightarrow> u8) \<Rightarrow> u32 \<Rightarrow> u8" where
  "both_lines buf buf2 buf3 l l' m = line_read buf3 (l @ l') (line_read buf2 l' (line_read buf l m))"

text \<open>The statements between the second line and the output.\<close>

lemma runs_join:
  assumes A: "concat_arrays L buf buf2 buf3" and l: "length l \<le> 18" "length l' \<le> 18"
    and u: "user_at V supp asid (line_read buf2 l' (line_read buf l m)) es s"
    and Q: "\<And>s. user_at V supp asid (both_lines buf buf2 buf3 l l' m) es s \<Longrightarrow> ends (block rest) s Q"
  shows "ends (block (perform (\<lambda>s. Some (copy_chars buf3 buf (of_nat (Suc (length l)) - 1) s)) #
    perform (\<lambda>s. Some (copy_chars (buf3 + (of_nat (Suc (length l)) - 1)) buf2 (of_nat (Suc (length l'))) s)) #
    perform (\<lambda>s. Some (put_char (buf3 + (of_nat (Suc (length l)) + of_nat (Suc (length l')) - 1)) 0 s)) # rest)) s Q"
proof -
  let ?m = "line_read buf2 l' (line_read buf l m)" and ?n = "of_nat (length l) :: u32"
  have d: "disjoint buf 20 buf2 20" "disjoint buf 20 buf3 40" "disjoint buf2 20 buf3 40"
    using A by (simp_all add: concat_arrays_def)
  have first: "?m (buf + of_nat i) = l ! i" if "i < length l" for i
  proof -
    have "?m (buf + of_nat i) = line_read buf l m (buf + of_nat i)"
      by (rule line_read_other) (use disjointD [OF d(1)] that l in simp)
    then show ?thesis using line_read_nth [of l i buf m] that l by (simp add: nth_append)
  qed
  have 1: "user_at V supp asid (put_bytes buf3 l ?m) es (copy_chars buf3 buf ?n s)"
    by (rule copy_chars_at [OF u]) (use first disjointD [OF d(2)] l in \<open>simp_all add: small_ints\<close>)
  have second: "put_bytes buf3 l ?m (buf2 + of_nat i) = (l' @ [newline]) ! i" if "i < length (l' @ [newline])" for i
  proof -
    have "put_bytes buf3 l ?m (buf2 + of_nat i) = ?m (buf2 + of_nat i)"
      by (rule put_bytes_other) (use disjointD [OF d(3)] that l in simp)
    then show ?thesis using line_read_nth [of l' i buf2] that l by (auto simp: nth_append less_Suc_eq)
  qed
  let ?s1 = "copy_chars buf3 buf ?n s"
  let ?s2 = "copy_chars (buf3 + ?n) buf2 (of_nat (Suc (length l'))) ?s1"
  have ne: "buf2 + of_nat i \<noteq> buf3 + ?n + of_nat j" if "i < length (l' @ [newline])" "j < length (l' @ [newline])" for i j
    using disjointD [OF d(3), of i "length l + j"] that l by (simp add: add.assoc)
  have 2: "user_at V supp asid (put_bytes (buf3 + ?n) (l' @ [newline]) (put_bytes buf3 l ?m)) es ?s2"
    by (rule copy_chars_at [OF 1 _ second ne]) (use l in \<open>simp_all add: small_ints del: of_nat_Suc\<close>)
  let ?s3 = "put_char (buf3 + of_nat (length l + Suc (length l'))) 0 ?s2"
  have "user_at V supp asid (both_lines buf buf2 buf3 l l' m) es ?s3"
    using 2 joined [of buf3 l l' ?m] by (simp add: user_at_def put_char_def both_lines_def)
  from Q [OF this] have "ends (block rest) ?s3 Q" .
  moreover have "of_nat (Suc (length l)) - 1 = ?n"
    "of_nat (Suc (length l)) + of_nat (Suc (length l')) - 1 = (of_nat (length l + Suc (length l')) :: u32)" by simp_all
  ultimately show ?thesis unfolding ends_def perform_def by simp
qed

lemma apart_text:
  assumes "apart buf n L msgs" and "msg \<in> set msgs" and "has_text m (L msg) (bytes msg)" and "length l + 1 < n"
  shows "has_text (line_read buf l m) (L msg) (bytes msg)"
proof (rule line_read_kept [OF assms(3)])
  fix i j assume "i \<le> length (bytes msg)" "j \<le> Suc (length l)"
  then have "i \<le> length msg" "j < n" using assms(4) by (simp_all add: bytes_def)
  with assms(1,2) show "L msg + of_nat i \<noteq> buf + of_nat j" unfolding apart_def by blast
qed

lemma messages_kept:
  assumes A: "concat_arrays L buf buf2 buf3" and t: "literals m L concat_messages"
    and l: "length l \<le> 18" "length l' \<le> 18" and m: "msg \<in> set concat_messages"
  shows "has_text m (L msg) (bytes msg)" "has_text (line_read buf l m) (L msg) (bytes msg)"
    "has_text (both_lines buf buf2 buf3 l l' m) (L msg) (bytes msg)"
proof -
  have a: "apart buf 20 L concat_messages" "apart buf2 20 L concat_messages" "apart buf3 40 L concat_messages"
    using A by (simp_all add: concat_arrays_def)
  show 0: "has_text m (L msg) (bytes msg)" using t m by (simp add: literals_def)
  show 1: "has_text (line_read buf l m) (L msg) (bytes msg)" by (rule apart_text [OF a(1) m 0]) (use l in simp)
  have 2: "has_text (line_read buf2 l' (line_read buf l m)) (L msg) (bytes msg)"
    by (rule apart_text [OF a(2) m 1]) (use l in simp)
  show "has_text (both_lines buf buf2 buf3 l l' m) (L msg) (bytes msg)"
    unfolding both_lines_def by (rule apart_text [OF a(3) m 2]) (use l in simp)
qed

lemma both_lines_other:
  assumes "length l \<le> 18" "length l' \<le> 18"
    and "\<forall>j<20. x \<noteq> buf + of_nat j \<and> x \<noteq> buf2 + of_nat j" "\<forall>j<40. x \<noteq> buf3 + of_nat j"
  shows "both_lines buf buf2 buf3 l l' m x = m x"
proof -
  have "both_lines buf buf2 buf3 l l' m x = line_read buf2 l' (line_read buf l m) x"
    unfolding both_lines_def by (rule line_read_other) (use assms in simp)
  also have "\<dots> = line_read buf l m x" by (rule line_read_other) (use assms in simp)
  also have "\<dots> = m x" by (rule line_read_other) (use assms in simp)
  finally show ?thesis .
qed

text \<open>What happens up to the first line, up to the second line, and until the end.\<close>

definition upto_first :: "supp_umps \<Rightarrow> u32 \<Rightarrow> io_event list" where
  "upto_first V asid = said V asid concat_prompts"

definition upto_second :: "supp_umps \<Rightarrow> u32 \<Rightarrow> nat \<Rightarrow> io_event list" where
  "upto_second V asid n = upto_first V asid @ read_events V asid (Suc n) @ said V asid concat_again"

text \<open>
  C32: strConcat concatenates.  When the user types two lines of at most 18 characters after the
  prompts, the program sends the prompts, the first line without its end directly followed by the
  second line, and its last message, and ends in SYS2; it has written its three arrays only.
\<close>

theorem strConcat_joins:
  assumes P: "user_place V supp asid" and K: "user_kernel K V supp sts rsts" "\<And>i. terminal_ok (sts i)"
    and a: "sup_asid (supports (nuc s) supp) = asid"
    and t: "literals (umem s) L concat_messages" and A: "concat_arrays L buf buf2 buf3"
    and l: "types_line V rsts (length (bus s) + length (upto_first V asid) + 2) l" "length l \<le> 18"
    and l': "types_line V rsts (length (bus s) + length (upto_second V asid (length l)) + 2) l'" "length l' \<le> 18"
    and ok: "line_ok buf3 (l @ l')"
  shows "\<exists>s'. strConcat K V supp L buf buf2 buf3 s = Some (Inl (SYSCALL TERMPROCESS 0 0 0, s')) \<and>
    sent (bus s') = sent (bus s) @ ''Strcat Test starts\<newline>Enter a string: \<newline>Enter another string: '' @
      map (\<lambda>c. char_of (unat c)) (l @ l' @ [newline]) @ ''\<newline>\<newline>Strcat concluded\<newline>'' \<and>
    (\<forall>x. (\<forall>j<20. x \<noteq> buf + of_nat j \<and> x \<noteq> buf2 + of_nat j) \<longrightarrow> (\<forall>j<40. x \<noteq> buf3 + of_nat j) \<longrightarrow> umem s' x = umem s x)"
proof -
  let ?m = "umem s" and ?es = "bus s"
  let ?m1 = "line_read buf l ?m" and ?m3 = "both_lines buf buf2 buf3 l l' ?m"
  let ?p1 = "''Strcat Test starts\<newline>''" and ?p2 = "''Enter a string: ''" and ?nl = "''\<newline>''"
    and ?p3 = "''Enter another string: ''" and ?last = "''\<newline>\<newline>Strcat concluded\<newline>''"
  have u: "user_at V supp asid ?m ?es s" using a by (simp add: user_at_def)
  note kept = messages_kept [OF A t l(2) l'(2)]
  have mem: "?p1 \<in> set concat_messages" "?p2 \<in> set concat_messages" "?nl \<in> set concat_messages"
    "?p3 \<in> set concat_messages" "?last \<in> set concat_messages"
    by (simp_all add: concat_messages_def concat_prompts_def concat_again_def)
  have b: "\<not> buf < UPROCSTARTADDR" "\<not> buf2 < UPROCSTARTADDR" using A by (simp_all add: concat_arrays_def)
  let ?e2 = "(?es @ said V asid [?p1]) @ said V asid [?p2]"
  let ?e3 = "?e2 @ read_events V asid (Suc (length l))"
  let ?e5 = "(?e3 @ said V asid [?nl]) @ said V asid [?p3]"
  let ?e6 = "?e5 @ read_events V asid (Suc (length l'))"
  let ?e7 = "?e6 @ print_events V asid ((l @ l') @ [newline])"
  let ?e8 = "?e7 @ said V asid [?last]"
  have e: "?e2 = ?es @ upto_first V asid" "?e5 = ?es @ upto_second V asid (length l)"
    by (simp_all add: upto_first_def upto_second_def said_def concat_prompts_def concat_again_def)
  have ln: "types_line V rsts (length ?e2 + 2) l" using l(1) unfolding e(1) by (simp add: add.assoc)
  have ln': "types_line V rsts (length ?e5 + 2) l'" using l'(1) unfolding e(2) by (simp add: add.assoc)
  let ?Q = "\<lambda>(out, s'). out = SYSCALL TERMPROCESS 0 0 0 \<and>
      bus s' = ?e8 @ [Sys GETSUPPORTPTR 0 0 0, Sys VERHOGEN (adr_masterSem V) 0 0] \<and> umem s' = ?m3"
  let ?rest = "[user_print K V supp L WRITETERMINAL buf3, say K V supp L ?last, terminate K V supp]"
  have 5: "ends (block [terminate K V supp]) s ?Q" if "user_at V supp asid ?m3 ?e8 s" for s
    by (rule ends_here, rule ends_terminate [OF P K(1) that]) simp
  have 4: "ends (block [say K V supp L ?last, terminate K V supp]) s ?Q" if "user_at V supp asid ?m3 ?e7 s" for s
    by (rule ends_Cons, rule runs_say [where L = L and msg = ?last, OF P K that kept(3) [OF mem(5)]], rule 5)
  have shown: "has_text ?m3 buf3 ((l @ l') @ [newline])" unfolding both_lines_def by (rule line_text [OF ok])
  have 3: "ends (block ?rest) s ?Q" if "user_at V supp asid ?m3 ?e6 s" for s
    by (rule ends_Cons, rule runs_user_print [OF P K that shown], rule 4)
  have "ends (strConcat K V supp L buf buf2 buf3) s ?Q"
    unfolding strConcat_def
    by (rule ends_Cons, rule runs_say [where L = L and msg = ?p1, OF P K u kept(1) [OF mem(1)]],
        rule ends_Cons, erule runs_say [where L = L and msg = ?p2, OF P K _ kept(1) [OF mem(2)]],
        rule ends_here, erule ends_read_line [OF P K(1) _ b(1) ln],
        rule ends_Cons, erule runs_say [where L = L and msg = ?nl, OF P K _ kept(2) [OF mem(3)]],
        rule ends_Cons, erule runs_say [where L = L and msg = ?p3, OF P K _ kept(2) [OF mem(4)]],
        rule ends_here, erule ends_read_line [OF P K(1) _ b(2) ln'],
        erule runs_join [OF A l(2) l'(2)], erule 3)
  then obtain s' where s': "strConcat K V supp L buf buf2 buf3 s = Some (Inl (SYSCALL TERMPROCESS 0 0 0, s'))"
    "bus s' = ?e8 @ [Sys GETSUPPORTPTR 0 0 0, Sys VERHOGEN (adr_masterSem V) 0 0]" "umem s' = ?m3"
    unfolding ends_def by auto
  have "sent (bus s') = sent ?es @ ''Strcat Test starts\<newline>Enter a string: \<newline>Enter another string: '' @
      map (\<lambda>c. char_of (unat c)) (l @ l' @ [newline]) @ ?last"
    unfolding s'(2) sent_append sent_said sent_read sent_print by simp
  with s'(1) show ?thesis unfolding s'(3)
    by (intro exI [of _ s'] conjI allI impI) (auto simp: s'(3) intro!: both_lines_other [OF l(2) l'(2)])
qed

subsection \<open>An instance\<close>

text \<open>A terminal on which AA is typed at the moment \<open>p\<close> and BBB at the moment \<open>q\<close>.\<close>

definition two_lines :: "nat \<Rightarrow> nat \<Rightarrow> nat \<Rightarrow> u32" where
  "two_lines p q i = (if i < p + 6 then 0x4105 else if i \<le> q then 0x0A05 else if i < q + 8 then 0x4205 else 0x0A05)"

lemma typed_codes:
  "((0x4105 :: u32) AND TERMSTATMASK = RECVD)" "((0x4205 :: u32) AND TERMSTATMASK = RECVD)" "((0x0A05 :: u32) AND TERMSTATMASK = RECVD)"
  "received 0x4105 = 65" "received 0x4205 = 66" "received 0x0A05 = newline"
  by (simp_all add: dev_consts received_def newline_def)

lemma two_lines_typed:
  assumes "p + 6 \<le> q"
  shows "types_line umps3s (two_lines p q) p [65, 65]" "types_line umps3s (two_lines p q) q [66, 66, 66]"
  using assms typed_codes
  by (auto simp: types_line_def two_lines_def read_ok_def newline_def less_Suc_eq_le le_Suc_eq)

abbreviation "concat_addr \<equiv> text_addr concat_messages"

lemma concat_messages_ok: "length concat_messages \<le> 16" "list_all printable concat_messages"
  by (simp_all add: concat_messages_def concat_prompts_def concat_again_def printable_def bytes_def)

lemma far_apart:
  assumes "unat a + n \<le> unat b" and "unat b + k < 2 ^ 32"
  shows "disjoint a n b k"
  unfolding disjoint_def
proof (intro allI impI)
  fix i j assume "i < n" "j < k"
  moreover from this have "unat (a + of_nat i) = unat a + i" "unat (b + of_nat j) = unat b + j"
    using assms by (simp_all add: unat_word_ariths unat_of_nat)
  ultimately have "unat (a + of_nat i) < unat (b + of_nat j)" using assms(1) by linarith
  then show "a + of_nat i \<noteq> b + of_nat j" by auto
qed

lemma concat_demo_arrays: "concat_arrays concat_addr 0xA0000000 0xA0001000 0xA0002000"
  unfolding concat_arrays_def
  by (intro conjI far_apart text_apart concat_messages_ok) (simp_all add: UPROCSTARTADDR_def)

theorem strConcat_joins_witness:
  "\<exists>p q s'. strConcat (echo_kernel (two_lines p q)) umps3s 0x2000 concat_addr 0xA0000000 0xA0001000 0xA0002000
      (user_demo concat_messages) = Some (Inl (SYSCALL TERMPROCESS 0 0 0, s')) \<and>
    sent (bus s') = ''Strcat Test starts\<newline>Enter a string: \<newline>Enter another string: AABBB\<newline>\<newline>\<newline>Strcat concluded\<newline>''"
proof -
  let ?p = "length (upto_first umps3s 3) + 2" and ?q = "length (upto_second umps3s 3 2) + 2"
  have pq: "?p + 6 \<le> ?q" by (simp add: upto_second_def read_events_def read_cmds_def numeral_3_eq_3)
  have l: "types_line umps3s (two_lines ?p ?q) (length (bus (user_demo concat_messages)) + length (upto_first umps3s 3) + 2) [65, 65]"
    using two_lines_typed(1) [OF pq] by (simp only: user_demo_facts list.size add_0)
  have l': "types_line umps3s (two_lines ?p ?q)
      (length (bus (user_demo concat_messages)) + length (upto_second umps3s 3 (length [65, 65 :: u8])) + 2) [66, 66, 66]"
  proof -
    have "length [65, 65 :: u8] = 2" by simp
    then show ?thesis using two_lines_typed(2) [OF pq] by (simp only: user_demo_facts list.size(3) add_0)
  qed
  have ok: "line_ok 0xA0002000 ([65, 65] @ [66, 66, 66])" "length [65, 65 :: u8] \<le> 18" "length [66, 66, 66 :: u8] \<le> 18"
    by (simp_all add: line_ok_def bad_string_def UPROCSTARTADDR_def USERSTACKTOP_def)
  have t: "literals (umem (user_demo concat_messages)) concat_addr concat_messages"
    unfolding user_demo_facts by (rule text_memory_literals [OF concat_messages_ok])
  have c: "map (\<lambda>c. char_of (unat c)) ([65, 65] @ [66, 66, 66] @ [newline]) = ''AABBB\<newline>''"
  proof -
    have "[65, 65] @ [66, 66, 66] @ [newline] = bytes ''AABBB\<newline>''" by (simp add: bytes_def newline_def)
    then show ?thesis by (simp only: sent_bytes)
  qed
  from strConcat_joins [OF umps3s_place echo_user all_answered user_demo_facts(1) t concat_demo_arrays l ok(2) l' ok(3) ok(1)]
  show ?thesis unfolding c user_demo_facts(2) by (intro exI [of _ ?p] exI [of _ ?q]) auto
qed

end
